(* ===== verification/Prelude.thy ===== *)
theory Prelude
  imports Main "HOL-Library.Multiset" "HOL-Library.Char_ord" "HOL-Library.List_Lexorder"
begin

text \<open>
  What every component shares.

  The program's fallible, stateful code is written in one monad: a computation takes a state and
  gives an error, or a result with the new state. A Rust \<open>?\<close> is \<open>bindS\<close>; an early
  \<open>return Err\<close> is \<open>failS\<close>. The state reached prior an error is dropped, as the storage
  transaction around every such computation drops it.

  Two judgements about computations carry most proofs: \<open>steps R m\<close> (every successful run of
  \<open>m\<close> relates its start and end by \<open>R\<close>) and \<open>valid P m Q\<close> (a Hoare triple for
  successful runs). The rules of each collection follow the program's structure, so that a property
  of an operation follows from the property of the operations it calls.
\<close>

subsection \<open>Results, and computations on a state\<close>

type_synonym ('e, 's, 'a) st = "'s \<Rightarrow> 'e + ('a \<times> 's)"

definition returnS :: "'a \<Rightarrow> ('e, 's, 'a) st" where
  "returnS x = (\<lambda>s. Inr (x, s))"

definition failS :: "'e \<Rightarrow> ('e, 's, 'a) st" where
  "failS e = (\<lambda>s. Inl e)"

definition bindS :: "('e, 's, 'a) st \<Rightarrow> ('a \<Rightarrow> ('e, 's, 'b) st) \<Rightarrow> ('e, 's, 'b) st" where
  "bindS m f = (\<lambda>s. case m s of Inl e \<Rightarrow> Inl e | Inr (x, s') \<Rightarrow> f x s')"

definition thenS :: "('e, 's, 'a) st \<Rightarrow> ('e, 's, 'b) st \<Rightarrow> ('e, 's, 'b) st" where
  "thenS m n = bindS m (\<lambda>_. n)"

definition getS :: "('s \<Rightarrow> 'a) \<Rightarrow> ('e, 's, 'a) st" where
  "getS f = (\<lambda>s. Inr (f s, s))"

definition modifyS :: "('s \<Rightarrow> 's) \<Rightarrow> ('e, 's, unit) st" where
  "modifyS f = (\<lambda>s. Inr ((), f s))"

text \<open>A result that needs no state: \<open>Ok\<close> continues, \<open>Err\<close> stops.\<close>

definition liftR :: "'e + 'a \<Rightarrow> ('e, 's, 'a) st" where
  "liftR r = (\<lambda>s. case r of Inl e \<Rightarrow> Inl e | Inr x \<Rightarrow> Inr (x, s))"

text \<open>\<open>option.ok_or(error)?\<close>\<close>

definition expectS :: "'e \<Rightarrow> 'a option \<Rightarrow> ('e, 's, 'a) st" where
  "expectS e x = (case x of None \<Rightarrow> failS e | Some y \<Rightarrow> returnS y)"

text \<open>A \<open>for\<close> loop, and one that carries a local variable.\<close>

primrec forS :: "('a \<Rightarrow> ('e, 's, unit) st) \<Rightarrow> 'a list \<Rightarrow> ('e, 's, unit) st" where
  "forS f [] = returnS ()"
| "forS f (x # xs) = thenS (f x) (forS f xs)"

primrec foldS :: "('b \<Rightarrow> 'a \<Rightarrow> ('e, 's, 'b) st) \<Rightarrow> 'a list \<Rightarrow> 'b \<Rightarrow> ('e, 's, 'b) st" where
  "foldS f [] acc = returnS acc"
| "foldS f (x # xs) acc = bindS (f acc x) (foldS f xs)"

primrec mapS :: "('a \<Rightarrow> ('e, 's, 'b) st) \<Rightarrow> 'a list \<Rightarrow> ('e, 's, 'b list) st" where
  "mapS f [] = returnS []"
| "mapS f (x # xs) = bindS (f x) (\<lambda>y. bindS (mapS f xs) (\<lambda>ys. returnS (y # ys)))"

text \<open>Results alone.\<close>

definition bindR :: "'e + 'a \<Rightarrow> ('a \<Rightarrow> 'e + 'b) \<Rightarrow> 'e + 'b" where
  "bindR r f = (case r of Inl e \<Rightarrow> Inl e | Inr x \<Rightarrow> f x)"

primrec foldR :: "('b \<Rightarrow> 'a \<Rightarrow> 'e + 'b) \<Rightarrow> 'a list \<Rightarrow> 'b \<Rightarrow> 'e + 'b" where
  "foldR f [] acc = Inr acc"
| "foldR f (x # xs) acc = bindR (f acc x) (foldR f xs)"

lemma bindR_simps [simp]: "bindR (Inl e) f = Inl e" "bindR (Inr x) f = f x"
  by (simp_all add: bindR_def)

lemma bindR_Inr_iff: "bindR r f = Inr y \<longleftrightarrow> (\<exists>x. r = Inr x \<and> f x = Inr y)"
  by (cases r) auto

lemma foldR_append: "foldR f (xs @ ys) acc = bindR (foldR f xs acc) (foldR f ys)"
proof (induction xs arbitrary: acc)
  case (Cons x xs)
  then show ?case by (cases "f acc x") simp_all
qed simp

text \<open>What a successful computation went through.\<close>

lemma returnS_Inr [simp]: "returnS x s = Inr (y, t) \<longleftrightarrow> y = x \<and> t = s"
  by (auto simp: returnS_def)

lemma failS_Inr [simp]: "failS e s = Inr r \<longleftrightarrow> False"
  by (simp add: failS_def)

lemma getS_Inr [simp]: "getS f s = Inr (y, t) \<longleftrightarrow> y = f s \<and> t = s"
  by (auto simp: getS_def)

lemma modifyS_Inr [simp]: "modifyS f s = Inr (y, t) \<longleftrightarrow> t = f s"
  by (auto simp: modifyS_def)

lemma liftR_Inr [simp]: "liftR r s = Inr (y, t) \<longleftrightarrow> r = Inr y \<and> t = s"
  by (auto simp: liftR_def split: sum.splits)

lemma expectS_Inr [simp]: "expectS e x s = Inr (y, t) \<longleftrightarrow> x = Some y \<and> t = s"
  by (auto simp: expectS_def split: option.splits)

lemma bindS_Inr: "bindS m f s = Inr (y, t) \<longleftrightarrow> (\<exists>x u. m s = Inr (x, u) \<and> f x u = Inr (y, t))"
  by (auto simp: bindS_def split: sum.splits prod.splits)

lemma thenS_Inr: "thenS m n s = Inr (y, t) \<longleftrightarrow> (\<exists>x u. m s = Inr (x, u) \<and> n u = Inr (y, t))"
  by (simp add: thenS_def bindS_Inr)

lemmas st_Inr = bindS_Inr thenS_Inr

lemma bindS_returnS [simp]: "bindS (returnS x) f = f x"
  by (simp add: bindS_def returnS_def)

lemma bindS_getS [simp]: "bindS (getS g) f s = f (g s) s"
  by (simp add: bindS_def getS_def)

lemma thenS_modifyS [simp]: "thenS (modifyS g) n s = n (g s)"
  by (simp add: thenS_def bindS_def modifyS_def)

lemma bindS_expectS [simp]:
  "bindS (expectS e (Some y)) f = f y" "bindS (expectS e None) f = failS e"
  by (simp_all add: bindS_def expectS_def failS_def returnS_def fun_eq_iff)

lemma bindS_assoc: "bindS (bindS m f) g = bindS m (\<lambda>x. bindS (f x) g)"
  by (rule ext) (simp add: bindS_def split: sum.split prod.split)

subsection \<open>Relations every step keeps\<close>

named_theorems steps_rules \<open>how a relation between start and end states follows a program\<close>

definition steps :: "('s \<Rightarrow> 's \<Rightarrow> bool) \<Rightarrow> ('e, 's, 'a) st \<Rightarrow> bool" where
  "steps R m \<longleftrightarrow> (\<forall>s x t. m s = Inr (x, t) \<longrightarrow> R s t)"

lemma stepsI: "(\<And>s x t. m s = Inr (x, t) \<Longrightarrow> R s t) \<Longrightarrow> steps R m"
  by (auto simp: steps_def)

lemma stepsD: "steps R m \<Longrightarrow> m s = Inr (x, t) \<Longrightarrow> R s t"
  by (auto simp: steps_def)

text \<open>
  The interface of a relation that composes: what a client needs to know of it to push it through
  the structure of a program.
\<close>

locale step_order =
  fixes R :: "'s \<Rightarrow> 's \<Rightarrow> bool"
  assumes refl: "R s s"
    and trans: "R s t \<Longrightarrow> R t u \<Longrightarrow> R s u"
begin

lemma steps_returnS [intro!, simp]: "steps R (returnS x)"
  by (rule stepsI) (auto simp: refl)

lemma steps_failS [intro!, simp]: "steps R (failS e)"
  by (rule stepsI) simp

lemma steps_getS [intro!, simp]: "steps R (getS f)"
  by (rule stepsI) (auto simp: refl)

lemma steps_liftR [intro!, simp]: "steps R (liftR r)"
  by (rule stepsI) (auto simp: refl)

lemma steps_expectS [intro!, simp]: "steps R (expectS e x)"
  by (rule stepsI) (auto simp: refl)

lemma steps_bindS [intro!]:
  assumes "steps R m" and "\<And>x. steps R (f x)"
  shows "steps R (bindS m f)"
  by (rule stepsI) (auto simp: bindS_Inr intro: trans dest: stepsD [OF assms(1)] stepsD [OF assms(2)])

lemma steps_thenS [intro!]: "steps R m \<Longrightarrow> steps R n \<Longrightarrow> steps R (thenS m n)"
  by (simp add: thenS_def steps_bindS)

lemma steps_forS [intro!]: "(\<And>x. x \<in> set xs \<Longrightarrow> steps R (f x)) \<Longrightarrow> steps R (forS f xs)"
  by (induction xs) auto

lemma steps_foldS [intro!]:
  "(\<And>x acc. x \<in> set xs \<Longrightarrow> steps R (f acc x)) \<Longrightarrow> steps R (foldS f xs acc)"
  by (induction xs arbitrary: acc) auto

lemma steps_mapS [intro!]: "(\<And>x. x \<in> set xs \<Longrightarrow> steps R (f x)) \<Longrightarrow> steps R (mapS f xs)"
  by (induction xs) auto

lemma steps_if [intro!]: "steps R m \<Longrightarrow> steps R n \<Longrightarrow> steps R (if b then m else n)"
  by simp

lemma steps_case_option [intro!]:
  "steps R m \<Longrightarrow> (\<And>x. steps R (f x)) \<Longrightarrow> steps R (case y of None \<Rightarrow> m | Some x \<Rightarrow> f x)"
  by (cases y) auto

lemma steps_case_prod [intro!]:
  "(\<And>x y. steps R (f x y)) \<Longrightarrow> steps R (case p of (x, y) \<Rightarrow> f x y)"
  by (cases p) auto

end

subsection \<open>Hoare triples for successful runs\<close>

named_theorems valid_rules \<open>how a Hoare triple follows a program\<close>

definition valid :: "('s \<Rightarrow> bool) \<Rightarrow> ('e, 's, 'a) st \<Rightarrow> ('a \<Rightarrow> 's \<Rightarrow> bool) \<Rightarrow> bool" where
  "valid P m Q \<longleftrightarrow> (\<forall>s x t. P s \<longrightarrow> m s = Inr (x, t) \<longrightarrow> Q x t)"

lemma validI: "(\<And>s x t. P s \<Longrightarrow> m s = Inr (x, t) \<Longrightarrow> Q x t) \<Longrightarrow> valid P m Q"
  by (auto simp: valid_def)

lemma validD: "valid P m Q \<Longrightarrow> P s \<Longrightarrow> m s = Inr (x, t) \<Longrightarrow> Q x t"
  by (auto simp: valid_def)

lemma valid_bindS [valid_rules]:
  "valid P m Q \<Longrightarrow> (\<And>x. valid (Q x) (f x) S) \<Longrightarrow> valid P (bindS m f) S"
  by (fastforce simp: valid_def bindS_Inr)

lemma valid_thenS [valid_rules]: "valid P m (\<lambda>_. Q) \<Longrightarrow> valid Q n S \<Longrightarrow> valid P (thenS m n) S"
  by (fastforce simp: valid_def thenS_Inr)

lemma valid_returnS [valid_rules]: "(\<And>s. P s \<Longrightarrow> Q x s) \<Longrightarrow> valid P (returnS x) Q"
  by (simp add: valid_def)

lemma valid_failS [valid_rules]: "valid P (failS e) Q"
  by (simp add: valid_def)

lemma valid_if [valid_rules]:
  "(b \<Longrightarrow> valid P m Q) \<Longrightarrow> (\<not> b \<Longrightarrow> valid P n Q) \<Longrightarrow> valid P (if b then m else n) Q"
  by simp

lemma valid_expectS [valid_rules]:
  "(\<And>y. x = Some y \<Longrightarrow> valid P (f y) Q) \<Longrightarrow> valid P (bindS (expectS e x) f) Q"
  by (cases x) (auto simp: valid_def)

lemma valid_pure: "(\<And>s. P s \<Longrightarrow> C) \<Longrightarrow> (C \<Longrightarrow> valid P m Q) \<Longrightarrow> valid P m Q"
  unfolding valid_def by blast

lemma valid_weaken: "valid P m Q \<Longrightarrow> (\<And>s. P' s \<Longrightarrow> P s) \<Longrightarrow> (\<And>x t. Q x t \<Longrightarrow> Q' x t) \<Longrightarrow> valid P' m Q'"
  unfolding valid_def by blast

lemma valid_forS [valid_rules]:
  "(\<And>x. x \<in> set xs \<Longrightarrow> valid P (f x) (\<lambda>_. P)) \<Longrightarrow> valid P (forS f xs) (\<lambda>_. P)"
proof (induction xs)
  case Nil
  show ?case by (simp add: valid_def)
next
  case (Cons x xs)
  then show ?case by (auto intro: valid_thenS)
qed

subsection \<open>Lists\<close>

lemma map_filter_Some [simp]: "List.map_filter Some xs = xs"
  by (induction xs) (simp_all add: List.map_filter_simps)

lemma map_filter_append [simp]:
  "List.map_filter f (xs @ ys) = List.map_filter f xs @ List.map_filter f ys"
  by (simp add: List.map_filter_def)

lemma prefix_nth_stable: "n < length xs \<Longrightarrow> (xs @ ys) ! n = xs ! n"
  by (simp add: nth_append)

lemma drop_append_le: "n \<le> length xs \<Longrightarrow> drop n (xs @ ys) = drop n xs @ ys"
  by simp

text \<open>
  The position of the first element that satisfies a predicate, as \<open>Iterator::position\<close> gives it.
\<close>

primrec position :: "('a \<Rightarrow> bool) \<Rightarrow> 'a list \<Rightarrow> nat option" where
  "position p [] = None"
| "position p (x # xs) = (if p x then Some 0 else map_option Suc (position p xs))"

lemma position_None_iff: "position p xs = None \<longleftrightarrow> (\<forall>x \<in> set xs. \<not> p x)"
  by (induction xs) auto

lemma position_SomeD:
  "position p xs = Some i \<Longrightarrow> i < length xs \<and> p (xs ! i) \<and> (\<forall>j < i. \<not> p (xs ! j))"
proof (induction xs arbitrary: i)
  case (Cons x xs)
  then show ?case by (auto simp: less_Suc_eq_0_disj split: if_splits)
qed simp

lemma position_length: "position p xs = Some i \<Longrightarrow> i < length xs"
  by (drule position_SomeD) simp

lemma position_mem: "x \<in> set xs \<Longrightarrow> p x \<Longrightarrow> \<exists>i. position p xs = Some i"
  using position_None_iff [of p xs] by (cases "position p xs") auto

text \<open>\<open>Vec::remove\<close> and \<open>Vec::insert\<close> at a position in range.\<close>

definition remove_at :: "nat \<Rightarrow> 'a list \<Rightarrow> 'a list" where
  "remove_at i xs = take i xs @ drop (Suc i) xs"

definition insert_at :: "nat \<Rightarrow> 'a \<Rightarrow> 'a list \<Rightarrow> 'a list" where
  "insert_at i x xs = take i xs @ x # drop i xs"

lemma length_remove_at [simp]: "i < length xs \<Longrightarrow> length (remove_at i xs) = length xs - 1"
  by (simp add: remove_at_def)

lemma length_insert_at [simp]: "i \<le> length xs \<Longrightarrow> length (insert_at i x xs) = Suc (length xs)"
  by (simp add: insert_at_def)

lemma mset_remove_at: "i < length xs \<Longrightarrow> mset (remove_at i xs) = mset xs - {#xs ! i#}"
proof -
  assume "i < length xs"
  then have "mset xs = mset (take i xs @ xs ! i # drop (Suc i) xs)"
    using id_take_nth_drop [of i xs] by simp
  then show ?thesis by (simp add: remove_at_def)
qed

lemma mset_insert_at [simp]: "mset (insert_at i x xs) = add_mset x (mset xs)"
  by (simp add: insert_at_def) (metis append_take_drop_id mset_append union_mset_add_mset_right)

lemma remove_at_position:
  "position (\<lambda>x. x = e) xs = Some i \<Longrightarrow> remove_at i xs = remove1 e xs"
proof (induction xs arbitrary: i)
  case (Cons x xs)
  then show ?case by (cases "x = e") (auto simp: remove_at_def)
qed simp

lemma remove1_insert_at: "e \<notin> set xs \<Longrightarrow> remove1 e (insert_at i e xs) = xs"
proof -
  assume "e \<notin> set xs"
  then have "e \<notin> set (take i xs)" by (auto dest: in_set_takeD)
  then show ?thesis by (simp add: insert_at_def remove1_append)
qed

lemma drop_remove_at: "n \<le> i \<Longrightarrow> i < length xs \<Longrightarrow> drop n (remove_at i xs) = remove_at (i - n) (drop n xs)"
  by (simp add: remove_at_def drop_take min_def)

lemma remove_at_map: "remove_at i (map f xs) = map f (remove_at i xs)"
  by (simp add: remove_at_def take_map drop_map)

subsection \<open>Ordered maps\<close>

text \<open>
  A \<open>BTreeMap\<close> is the list of its entries in key order; iterating over it is reading the list.
\<close>

type_synonym ('k, 'v) btree = "('k \<times> 'v) list"

fun bt_insert :: "'k::linorder \<Rightarrow> 'v \<Rightarrow> ('k, 'v) btree \<Rightarrow> ('k, 'v) btree" where
  "bt_insert k v [] = [(k, v)]"
| "bt_insert k v ((a, b) # rest) =
     (if k < a then (k, v) # (a, b) # rest
      else if k = a then (k, v) # rest
      else (a, b) # bt_insert k v rest)"

definition bt_wf :: "('k::linorder, 'v) btree \<Rightarrow> bool" where
  "bt_wf m \<longleftrightarrow> sorted_wrt (<) (map fst m)"

text \<open>What the clients of an ordered map rely on.\<close>

locale ordered_map =
  fixes empty :: 'm
    and insert :: "'k::linorder \<Rightarrow> 'v \<Rightarrow> 'm \<Rightarrow> 'm"
    and lookup :: "'m \<Rightarrow> 'k \<Rightarrow> 'v option"
    and entries :: "'m \<Rightarrow> ('k \<times> 'v) list"
    and wf :: "'m \<Rightarrow> bool"
  assumes lookup_empty: "lookup empty = (\<lambda>_. None)"
    and lookup_insert: "wf m \<Longrightarrow> lookup (insert k v m) = (lookup m)(k := Some v)"
    and entries_sorted: "wf m \<Longrightarrow> sorted_wrt (<) (map fst (entries m))"
    and entries_lookup: "wf m \<Longrightarrow> map_of (entries m) = lookup m"
    and wf_empty: "wf empty"
    and wf_insert: "wf m \<Longrightarrow> wf (insert k v m)"
begin

lemma entries_distinct: "wf m \<Longrightarrow> distinct (map fst (entries m))"
  using entries_sorted strict_sorted_iff by blast

lemma entries_iff: "wf m \<Longrightarrow> (k, v) \<in> set (entries m) \<longleftrightarrow> lookup m k = Some v"
  using entries_distinct entries_lookup by (metis map_of_eq_Some_iff)

lemma set_entries_insert:
  "wf m \<Longrightarrow> set (entries (insert k v m)) = {e \<in> set (entries m). fst e \<noteq> k} \<union> {(k, v)}"
  by (auto simp: entries_iff wf_insert lookup_insert split: if_splits)

end

lemma set_map_fst_bt_insert: "set (map fst (bt_insert k v m)) = insert k (set (map fst m))"
  by (induction k v m rule: bt_insert.induct) auto

lemma bt_wf_insert: "bt_wf m \<Longrightarrow> bt_wf (bt_insert k v m)"
proof (induction k v m rule: bt_insert.induct)
  case (2 k v a b rest)
  then show ?case
    using set_map_fst_bt_insert [of k v rest] by (auto simp: bt_wf_def)
qed (simp add: bt_wf_def)

lemma map_of_bt_insert: "map_of (bt_insert k v m) = (map_of m)(k \<mapsto> v)" if "bt_wf m"
  using that
proof (induction k v m rule: bt_insert.induct)
  case (2 k v a b rest)
  then have "bt_wf rest" and "\<forall>x \<in> set (map fst rest). a < x" by (auto simp: bt_wf_def)
  with "2.IH" show ?case by (auto simp: fun_eq_iff)
qed simp

interpretation bt: ordered_map "[]" bt_insert map_of "\<lambda>m. m" bt_wf
  by unfold_locales (auto simp: map_of_bt_insert bt_wf_insert, auto simp: bt_wf_def)

subsection \<open>Fixed-width arithmetic\<close>

text \<open>
  The program's \<open>u64\<close> and \<open>usize\<close> values (64-bit targets) are natural numbers with the bound
  written out where an operation checks or saturates.
\<close>

definition u64_max :: nat where "u64_max = 2 ^ 64 - 1"
definition i64_max :: nat where "i64_max = 2 ^ 63 - 1"

definition saturating_add :: "nat \<Rightarrow> nat \<Rightarrow> nat" where
  "saturating_add a b = min u64_max (a + b)"

definition checked_add :: "nat \<Rightarrow> nat \<Rightarrow> nat option" where
  "checked_add a b = (if a + b \<le> u64_max then Some (a + b) else None)"

lemma saturating_add_bound: "saturating_add a b \<le> u64_max"
  by (simp add: saturating_add_def)

lemma saturating_add_mono: "a \<le> a' \<Longrightarrow> b \<le> b' \<Longrightarrow> saturating_add a b \<le> saturating_add a' b'"
  by (auto simp: saturating_add_def)

lemma checked_add_Some_iff: "checked_add a b = Some c \<longleftrightarrow> c = a + b \<and> a + b \<le> u64_max"
  by (auto simp: checked_add_def)

subsection \<open>Decimal numerals, as \<open>format!\<close> writes them\<close>

definition digit_char :: "nat \<Rightarrow> char" where
  "digit_char d = char_of (48 + d)"

fun show_nat :: "nat \<Rightarrow> string" where
  "show_nat n = (if n < 10 then [digit_char n] else show_nat (n div 10) @ [digit_char (n mod 10)])"

declare show_nat.simps [simp del]

end
