(* ===== verification/Json.thy ===== *)
theory Json
  imports Prelude
begin

text \<open>
  JSON values, as the program carries them in messages, metadata and tool results. A number is kept
  as its literal. An object is its fields in order; keys are looked up by name.

  Text that embeds rendered JSON (\<open>format!("{name}\\n{arguments}")\<close>) is kept as the pieces it is
  made of, since rendering a value is the JSON library's business.
\<close>

datatype json =
    JNull
  | JBool bool
  | JNumber string
  | JString string
  | JArray "json list"
  | JObject "(string \<times> json) list"

text \<open>\<open>value.get(key)\<close>, and \<open>value[key]\<close>, which reads a missing field as null.\<close>

fun json_get :: "json \<Rightarrow> string \<Rightarrow> json option" where
  "json_get (JObject fields) key = map_of fields key"
| "json_get _ key = None"

definition json_index :: "json \<Rightarrow> string \<Rightarrow> json" where
  "json_index value key = (case json_get value key of None \<Rightarrow> JNull | Some v \<Rightarrow> v)"

fun as_str :: "json \<Rightarrow> string option" where
  "as_str (JString text) = Some text"
| "as_str _ = None"

fun is_object :: "json \<Rightarrow> bool" where
  "is_object (JObject _) = True"
| "is_object _ = False"

fun is_array :: "json \<Rightarrow> bool" where
  "is_array (JArray _) = True"
| "is_array _ = False"

text \<open>
  Two values are equal when they are the same up to the order of object fields: both sides are
  compared with their fields sorted by key.
\<close>

fun json_norm :: "json \<Rightarrow> json" where
  "json_norm (JArray items) = JArray (map json_norm items)"
| "json_norm (JObject fields) = JObject (sort_key fst (map (\<lambda>(k, v). (k, json_norm v)) fields))"
| "json_norm v = v"

definition json_eq :: "json \<Rightarrow> json \<Rightarrow> bool" where
  "json_eq a b \<longleftrightarrow> json_norm a = json_norm b"

text \<open>Rendered text: literal pieces, and values to render.\<close>

datatype text_piece = Lit string | Rendered json

type_synonym rendered_text = "text_piece list"

end
