(* ===== verification/Protocol.thy ===== *)
theory Protocol
  imports Json
begin

text \<open>
  The conversation as the program sees it (\<open>protocol/model_use/message.rs\<close>,
  \<open>response.rs\<close>, \<open>request.rs\<close>, \<open>tool.rs\<close>), the error vocabulary with the one place
  that decides whether an error is worth a retry (\<open>protocol/error.rs\<close>), and the units a context
  may be cut at (\<open>protocol/model_use/context.rs\<close>).
\<close>

subsection \<open>Messages\<close>

datatype content_block =
    Text string
  | ImageRef (image_mime_type: string) (image_blob_id: string) (image_byte_count: nat)
  | Image (image_mime_type: string) (image_data_base64: string)

datatype reasoning_opaque_kind =
    OpenAiEncrypted
  | AnthropicSignature
  | AnthropicRedacted
  | GoogleSignature
  | GoogleInteractionsThought
  | BedrockSignature
  | BedrockRedacted

datatype message =
    System (get_metadata: json) "content_block list"
  | Developer (get_metadata: json) "bool option" "content_block list"
  | User (get_metadata: json) "content_block list"
  | Assistant (get_metadata: json) "content_block list"
  | Reasoning (get_metadata: json) (replay_item: "json option")
      (opaque_kind: "reasoning_opaque_kind option")
      (plaintext: string) (display: string) (signature: string) (ciphertext: string)
  | ToolUse (get_metadata: json) (use_call_id: string) (use_name: string) (use_arguments: json)
  | ToolResult (get_metadata: json) (result_call_id: string) (result_name: string)
      (result_content: json)
  | UpstreamCompaction (get_metadata: json) "string option" (encrypted_content: string)

text \<open>The fixed prefix stops at the first non-System or unpinned Developer message.\<close>

fun is_fixed_instruction :: "message \<Rightarrow> bool" where
  "is_fixed_instruction (System _ _) = True"
| "is_fixed_instruction (Developer _ fixed _) = (case fixed of None \<Rightarrow> True | Some b \<Rightarrow> b)"
| "is_fixed_instruction _ = False"

fun normalize_new_input :: "message \<Rightarrow> message" where
  "normalize_new_input (Developer m fixed c) =
     Developer m (Some (case fixed of None \<Rightarrow> False | Some b \<Rightarrow> b)) c"
| "normalize_new_input m = m"

fun set_metadata :: "json \<Rightarrow> message \<Rightarrow> message" where
  "set_metadata v (System _ c) = System v c"
| "set_metadata v (Developer _ f c) = Developer v f c"
| "set_metadata v (User _ c) = User v c"
| "set_metadata v (Assistant _ c) = Assistant v c"
| "set_metadata v (Reasoning _ r k p d s c) = Reasoning v r k p d s c"
| "set_metadata v (ToolUse _ i n a) = ToolUse v i n a"
| "set_metadata v (ToolResult _ i n c) = ToolResult v i n c"
| "set_metadata v (UpstreamCompaction _ i e) = UpstreamCompaction v i e"

definition reasoning_text :: "string \<Rightarrow> message" where
  "reasoning_text text = Reasoning JNull None None text text [] []"

definition signed_reasoning :: "string \<Rightarrow> string \<Rightarrow> reasoning_opaque_kind \<Rightarrow> message" where
  "signed_reasoning text sig kind =
     Reasoning JNull None (if sig \<noteq> [] then Some kind else None) text text sig []"

definition redacted_reasoning :: "string \<Rightarrow> reasoning_opaque_kind \<Rightarrow> message" where
  "redacted_reasoning cipher kind = Reasoning JNull None (Some kind) [] [] [] cipher"

definition material_if_kind ::
  "reasoning_opaque_kind option \<Rightarrow> reasoning_opaque_kind \<Rightarrow> string \<Rightarrow> string" where
  "material_if_kind kind expected material = (if kind = Some expected then material else [])"

subsection \<open>Responses\<close>

datatype stop_reason =
    Stop
  | StopToolUse
  | MalformedToolUse
  | MaxOutputLengthExceeded
  | ContextLengthExceeded
  | MaxMessages
  | Steered
  | ContentFilter
  | StopCancelled
  | StopUnknown

record usage =
  input_tokens :: "nat option"
  cached_input_tokens :: "nat option"
  cache_write_input_tokens :: "nat option"
  output_tokens :: "nat option"
  reasoning_tokens :: "nat option"
  total_tokens :: "nat option"

definition default_usage :: usage where
  "default_usage = \<lparr>input_tokens = None, cached_input_tokens = None,
     cache_write_input_tokens = None, output_tokens = None, reasoning_tokens = None,
     total_tokens = None\<rparr>"

text \<open>An account reading is only carried along; it is kept in its serialized form.\<close>

type_synonym account_state = json

record response =
  resp_messages :: "message list"
  resp_stop_reason :: stop_reason
  resp_usage :: usage
  resp_account_state :: "account_state option"

record upstream_compaction =
  uc_conversation :: "message list"
  uc_usage :: usage
  uc_account_state :: "account_state option"
  uc_warnings :: "string list"

subsection \<open>Requests\<close>

record tool =
  tool_name :: string
  tool_description :: string
  tool_input_schema :: json

datatype tool_choice = ToolChoiceAuto | ToolChoiceNone | ToolChoiceRequired

datatype reasoning_summary = SummaryAuto | SummaryNone

record reasoning_config =
  rc_enabled :: "bool option"
  rc_effort :: "string option"
  rc_summary :: "reasoning_summary option"

record prompt_cache =
  pc_key :: "string option"
  pc_breakpoints :: bool

record request =
  rq_stream :: bool
  rq_model :: string
  rq_conversation :: "message list"
  rq_tools :: "tool list"
  rq_tool_choice :: "tool_choice option"
  rq_max_output_tokens :: "nat option"
  rq_reasoning :: "reasoning_config option"
  rq_cache :: "prompt_cache option"

subsection \<open>Tool arguments and results as wires carry them\<close>

text \<open>
  \<open>parse_json\<close> stands for the JSON library's reader, \<open>None\<close> for a text that is not JSON.
  A text of white space is a call without arguments.
\<close>

definition is_space :: "char \<Rightarrow> bool" where
  "is_space c \<longleftrightarrow> c \<in> {CHR '' '', CHR 0x09, CHR 0x0A, CHR 0x0B, CHR 0x0C, CHR 0x0D}"

text \<open>
  \<open>text.trim().is_empty()\<close> on UTF-8 bytes: nothing but Unicode white space, whose characters
  beyond ASCII take two or three bytes.
\<close>

fun is_blank :: "string \<Rightarrow> bool" where
  "is_blank [] = True"
| "is_blank (a # rest) =
     (if is_space a then is_blank rest
      else case rest of
        b # rest2 \<Rightarrow>
          if a = CHR 0xC2 then b \<in> {CHR 0x85, CHR 0xA0} \<and> is_blank rest2
          else (case rest2 of
            c # rest3 \<Rightarrow>
              (a = CHR 0xE1 \<and> b = CHR 0x9A \<and> c = CHR 0x80
               \<or> a = CHR 0xE2 \<and> b = CHR 0x80
                   \<and> (128 \<le> (of_char c :: nat) \<and> (of_char c :: nat) \<le> 138
                      \<or> c \<in> {CHR 0xA8, CHR 0xA9, CHR 0xAF})
               \<or> a = CHR 0xE2 \<and> b = CHR 0x81 \<and> c = CHR 0x9F
               \<or> a = CHR 0xE3 \<and> b = CHR 0x80 \<and> c = CHR 0x80) \<and> is_blank rest3
          | [] \<Rightarrow> False)
      | [] \<Rightarrow> False)"

definition parse_tool_arguments :: "(string \<Rightarrow> json option) \<Rightarrow> string \<Rightarrow> json option" where
  "parse_tool_arguments parse_json raw =
     (if is_blank raw then Some (JObject []) else parse_json raw)"

definition tool_result_text :: "json \<Rightarrow> rendered_text" where
  "tool_result_text content =
     (case Option.bind (json_get content ''model_text'') as_str of
        Some text \<Rightarrow> [Lit text]
      | None \<Rightarrow> (case content of JString text \<Rightarrow> [Lit text] | other \<Rightarrow> [Rendered other]))"

definition tool_result_value :: "json \<Rightarrow> json" where
  "tool_result_value content =
     (case Option.bind (json_get content ''model_text'') as_str of
        Some text \<Rightarrow>
          JObject [(''status'', json_index content ''status''), (''content'', JString text)]
      | None \<Rightarrow> content)"

definition tool_result_is_error :: "json \<Rightarrow> bool" where
  "tool_result_is_error content =
     (case as_str (json_index content ''status'') of
        Some status \<Rightarrow> status \<in> {''failed'', ''cancelled'', ''unknown''}
      | None \<Rightarrow> False)"

subsection \<open>Errors\<close>

record transport_failure =
  tf_message :: string
  tf_retryable :: bool

datatype error =
    Build string
  | Unsupported string string string
  | Malformed string
  | Upstream (upstream_status: "nat option") (upstream_code: "string option")
      (upstream_message: string) (upstream_retry_after_ms: "nat option")
  | Transport transport_failure
  | Renewal nat

definition contains :: "string \<Rightarrow> string \<Rightarrow> bool" where
  "contains text needle \<longleftrightarrow>
     (\<exists>i \<in> set [0..<Suc (length text)]. take (length needle) (drop i text) = needle)"

definition to_ascii_lowercase :: "string \<Rightarrow> string" where
  "to_ascii_lowercase text =
     map (\<lambda>c. if 65 \<le> (of_char c :: nat) \<and> (of_char c :: nat) \<le> 90
              then char_of ((of_char c :: nat) + 32) else c) text"

fun is_context_length_exceeded :: "error \<Rightarrow> bool" where
  "is_context_length_exceeded (Upstream status code message _) =
     (if (case code of
            Some c \<Rightarrow> c \<in> {''context_length_exceeded'', ''model_context_window_exceeded'',
                          ''prompt_too_long''}
          | None \<Rightarrow> False)
      then True
      else if status \<notin> {None, Some 400, Some 413} then False
      else let message = to_ascii_lowercase message in
        contains message ''prompt is too long''
        \<or> contains message ''exceeds the maximum context length''
        \<or> contains message ''exceeded model token limit''
        \<or> (contains message ''input token count'' \<and> contains message ''exceeds''
            \<and> contains message ''maximum''))"
| "is_context_length_exceeded _ = False"

fun is_retryable :: "error \<Rightarrow> bool" where
  "is_retryable (Transport failure) = tf_retryable failure"
| "is_retryable (Upstream (Some status) _ _ _) = (status = 429 \<or> (500 \<le> status \<and> status \<le> 599))"
| "is_retryable (Upstream None _ _ _) = False"
| "is_retryable (Build _) = False"
| "is_retryable (Unsupported _ _ _) = False"
| "is_retryable (Malformed _) = False"
| "is_retryable (Renewal _) = False"

fun get_retry_after_ms :: "error \<Rightarrow> nat option" where
  "get_retry_after_ms (Upstream _ _ _ retry_after) = retry_after"
| "get_retry_after_ms _ = None"

fun with_retry_after :: "nat option \<Rightarrow> error \<Rightarrow> error" where
  "with_retry_after r (Upstream status code message _) = Upstream status code message r"
| "with_retry_after r e = e"

definition from_http :: "nat \<Rightarrow> string option \<Rightarrow> string \<Rightarrow> error" where
  "from_http status code message = Upstream (Some status) code message None"

definition from_in_band :: "string option \<Rightarrow> string \<Rightarrow> error" where
  "from_in_band code message = Upstream None code message None"

text \<open>The texts of the \<open>#[error(...)]\<close> attributes.\<close>

fun error_to_string :: "error \<Rightarrow> string" where
  "error_to_string (Build m) = ''request build failed: '' @ m"
| "error_to_string (Unsupported feature subject reason) =
     ''unsupported '' @ feature @ '' on `'' @ subject @ ''`: '' @ reason"
| "error_to_string (Malformed m) = ''malformed upstream payload: '' @ m"
| "error_to_string (Upstream _ (Some code) m _) = ''upstream error ('' @ code @ ''): '' @ m"
| "error_to_string (Upstream _ None m _) = ''upstream error: '' @ m"
| "error_to_string (Transport failure) = ''transport failed: '' @ tf_message failure"
| "error_to_string (Renewal expires_at) =
     ''credential renewal needed: the material expired at '' @ show_nat expires_at"

subsection \<open>Replay units\<close>

text \<open>
  Boundaries never split a model turn's reasoning, text and calls, or its complete tool-result
  batch. The loop carries the boundaries so far, the calls not answered yet and the message before.
\<close>

fun is_tool_result :: "message \<Rightarrow> bool" where
  "is_tool_result (ToolResult _ _ _ _) = True"
| "is_tool_result _ = False"

fun opens_unit :: "message \<Rightarrow> bool" where
  "opens_unit (User _ _) = True"
| "opens_unit (System _ _) = True"
| "opens_unit (Developer _ _ _) = True"
| "opens_unit (UpstreamCompaction _ _ _) = True"
| "opens_unit _ = False"

definition starts_unit :: "message option \<Rightarrow> message \<Rightarrow> bool" where
  "starts_unit previous message \<longleftrightarrow>
     opens_unit message
     \<or> (case previous of None \<Rightarrow> False
          | Some p \<Rightarrow> is_tool_result p \<and> \<not> is_tool_result message)"

fun answer_call :: "(string \<times> string) list \<Rightarrow> message \<Rightarrow> error + (string \<times> string) list" where
  "answer_call pending (ToolUse _ call_id name _) = Inr (pending @ [(call_id, name)])"
| "answer_call pending (ToolResult _ call_id name _) =
     (case position (\<lambda>(id, tool). id = call_id \<and> tool = name) pending of
        None \<Rightarrow> Inl (Build ''context contains an orphaned tool result'')
      | Some i \<Rightarrow> Inr (remove_at i pending))"
| "answer_call pending _ = Inr pending"

type_synonym unit_scan = "nat list \<times> (string \<times> string) list \<times> message option"

definition scan_message :: "unit_scan \<Rightarrow> nat \<times> message \<Rightarrow> error + unit_scan" where
  "scan_message scan im =
     (case (scan, im) of ((boundaries, pending, previous), (index, message)) \<Rightarrow>
        if starts_unit previous message \<and> pending \<noteq> []
        then Inl (Build ''context boundary leaves unanswered tool calls'')
        else bindR (answer_call pending message) (\<lambda>pending'.
          Inr (if starts_unit previous message \<and> index \<noteq> 0 then boundaries @ [index] else boundaries,
               pending', Some message)))"

definition find_replay_unit_boundaries :: "message list \<Rightarrow> error + nat list" where
  "find_replay_unit_boundaries messages =
     bindR (foldR scan_message (enumerate 0 messages) ([0], [], None))
       (\<lambda>(boundaries, pending, _).
         if pending \<noteq> [] then Inl (Build ''context contains unanswered tool calls'')
         else if last boundaries \<noteq> length messages then Inr (boundaries @ [length messages])
         else Inr boundaries)"

end
