(* ===== verification/Stream_Accumulator.thy ===== *)
theory Stream_Accumulator
  imports Protocol
begin

text \<open>
  Streamed calls: the events a wire decoder produces, the accumulator that rebuilds a response from
  them and holds the stream to its contract (\<open>protocol/model_use/stream.rs\<close>), and what is kept of
  a stream that did not end normally (\<open>protocol/model_use/stream/partial.rs\<close>), with the rules for
  sending reasoning back (\<open>protocol/model_use.rs\<close>).

  The accumulator's checkpoint is a copy taken with the copy's own checkpoint empty, so a saved state
  is the accumulator without that field: \<open>accumulator\<close> extends \<open>acc_core\<close>.
\<close>

subsection \<open>Events\<close>

datatype block_kind = KindText | KindReasoning | KindToolUse

datatype stream_event =
    Checkpoint nat
  | Rewind nat
  | Recovering nat nat
  | InputTokens nat
  | BlockStart nat block_kind
  | TextDelta nat string
  | ReasoningDelta nat string
  | ReasoningDisplayDelta nat string
  | ReasoningSignatureDelta nat string
  | ReasoningCiphertextDelta nat string
  | ReasoningReplayItem nat json
  | ToolUseDelta nat "string option" "string option" string
  | BlockEnd nat
  | BlockComplete nat
  | UsageEvent usage
  | Account account_state
  | UpstreamCompactionEvent nat "string option" string
  | StopEvent stop_reason

text \<open>
  A block ending of a normal record is followed by the completion of that block; the synthetic
  endings of an abnormal terminal complete nothing.
\<close>

definition is_abnormal_stop :: "stream_event \<Rightarrow> bool" where
  "is_abnormal_stop event =
     (case event of StopEvent reason \<Rightarrow> reason \<noteq> Stop \<and> reason \<noteq> StopToolUse | _ \<Rightarrow> False)"

definition append_block_completions :: "stream_event list \<Rightarrow> stream_event list" where
  "append_block_completions events =
     (let normal = \<not> list_ex is_abnormal_stop events in
      concat (map (\<lambda>event. case event of
          BlockEnd index \<Rightarrow> if normal then [event, BlockComplete index] else [event]
        | _ \<Rightarrow> [event]) events))"

subsection \<open>Rules for sending reasoning back\<close>

datatype replay_disposition =
    Replayable
  | Incomplete
  | NotReplayable
  | InvalidToolCall
  | MissingSignedPart

datatype replay_proof =
    ProofNever
  | ProofPlaintext
  | ProofCiphertext
  | ProofSignature
  | ProofSignatureOrCiphertext

record reasoning_replay =
  rr_material :: "reasoning_opaque_kind option"
  rr_transparent :: bool
  rr_proof :: replay_proof
  rr_seals_next_part :: bool

definition default_replay :: reasoning_replay where
  "default_replay = \<lparr>rr_material = None, rr_transparent = False, rr_proof = ProofNever,
     rr_seals_next_part = False\<rparr>"

definition has_material ::
  "reasoning_opaque_kind \<Rightarrow> string \<Rightarrow> string \<Rightarrow> json option \<Rightarrow> bool" where
  "has_material kind sig cipher item =
     (case kind of
        GoogleInteractionsThought \<Rightarrow> item \<noteq> None
      | OpenAiEncrypted \<Rightarrow> cipher \<noteq> []
      | GoogleSignature \<Rightarrow> sig \<noteq> []
      | _ \<Rightarrow> sig \<noteq> [] \<or> cipher \<noteq> [])"

definition classify_material ::
  "reasoning_replay \<Rightarrow> string \<Rightarrow> string \<Rightarrow> json option \<Rightarrow> reasoning_opaque_kind option" where
  "classify_material rules sig cipher item =
     (case rr_material rules of
        None \<Rightarrow> None
      | Some kind \<Rightarrow>
          if \<not> has_material kind sig cipher item then None
          else Some (if kind = AnthropicSignature \<and> cipher \<noteq> [] then AnthropicRedacted
                     else if kind = BedrockSignature \<and> cipher \<noteq> [] then BedrockRedacted
                     else kind))"

definition replay_proved :: "replay_proof \<Rightarrow> string \<Rightarrow> string \<Rightarrow> string \<Rightarrow> bool" where
  "replay_proved proof plain sig cipher =
     (case proof of
        ProofNever \<Rightarrow> False
      | ProofPlaintext \<Rightarrow> plain \<noteq> []
      | ProofCiphertext \<Rightarrow> cipher \<noteq> []
      | ProofSignature \<Rightarrow> sig \<noteq> []
      | ProofSignatureOrCiphertext \<Rightarrow> sig \<noteq> [] \<or> cipher \<noteq> [])"

definition classify_reasoning ::
  "reasoning_replay \<Rightarrow> bool \<Rightarrow> string \<Rightarrow> string \<Rightarrow> string \<Rightarrow> replay_disposition" where
  "classify_reasoning rules complete plain sig cipher =
     (if rr_transparent rules \<and> sig = [] \<and> cipher = [] \<and> plain \<noteq> [] then Replayable
      else if \<not> complete then Incomplete
      else if replay_proved (rr_proof rules) plain sig cipher then Replayable
      else NotReplayable)"

subsection \<open>The accumulator\<close>

record block =
  bl_kind :: block_kind
  bl_closed :: bool
  bl_complete :: bool
  bl_text :: string
  bl_plaintext :: string
  bl_display :: "string option"
  bl_signature :: string
  bl_ciphertext :: string
  bl_replay_item :: "json option"
  bl_call_id :: "string option"
  bl_name :: "string option"
  bl_arguments :: string

definition new_block :: "block_kind \<Rightarrow> block" where
  "new_block kind = \<lparr>bl_kind = kind, bl_closed = False, bl_complete = False, bl_text = [],
     bl_plaintext = [], bl_display = None, bl_signature = [], bl_ciphertext = [],
     bl_replay_item = None, bl_call_id = None, bl_name = None, bl_arguments = []\<rparr>"

definition into_reasoning :: "reasoning_replay \<Rightarrow> block \<Rightarrow> message" where
  "into_reasoning rules b =
     Reasoning JNull (bl_replay_item b)
       (classify_material rules (bl_signature b) (bl_ciphertext b) (bl_replay_item b))
       (bl_plaintext b)
       (case bl_display b of None \<Rightarrow> bl_plaintext b | Some d \<Rightarrow> d)
       (bl_signature b) (bl_ciphertext b)"

record acc_core =
  acc_replay :: reasoning_replay
  acc_blocks :: "(nat, block) btree"
  acc_items :: "(nat, message) btree"
  acc_usage :: "usage option"
  acc_stop_reason :: "stop_reason option"
  acc_account_state :: "account_state option"

record accumulator = acc_core +
  acc_checkpoint :: "(nat \<times> acc_core) option"

definition new_accumulator :: accumulator where
  "new_accumulator = \<lparr>acc_replay = default_replay, acc_blocks = [], acc_items = [],
     acc_usage = None, acc_stop_reason = None, acc_account_state = None, acc_checkpoint = None\<rparr>"

definition with_account_state :: "account_state option \<Rightarrow> accumulator \<Rightarrow> accumulator" where
  "with_account_state account acc = acc\<lparr>acc_account_state := account\<rparr>"

definition build_violation_error :: "string \<Rightarrow> error" where
  "build_violation_error message = Malformed (''stream contract: '' @ message)"

fun kind_name :: "block_kind \<Rightarrow> string" where
  "kind_name KindText = ''Text''"
| "kind_name KindReasoning = ''Reasoning''"
| "kind_name KindToolUse = ''ToolUse''"

definition open_block :: "nat \<Rightarrow> block_kind \<Rightarrow> accumulator \<Rightarrow> error + accumulator" where
  "open_block index kind acc =
     (if map_of (acc_blocks acc) index \<noteq> None
      then Inl (build_violation_error (''block '' @ show_nat index @ '' is opened twice''))
      else Inr (acc\<lparr>acc_blocks := bt_insert index (new_block kind) (acc_blocks acc)\<rparr>))"

text \<open>\<open>get_block_mut\<close>, and the change its caller makes to the block it gets.\<close>

definition get_block :: "nat \<Rightarrow> block_kind \<Rightarrow> accumulator \<Rightarrow> error + block" where
  "get_block index kind acc =
     (case map_of (acc_blocks acc) index of
        None \<Rightarrow> Inl (build_violation_error
          (''event for block '' @ show_nat index @ '' before it opened''))
      | Some b \<Rightarrow>
          if bl_kind b \<noteq> kind then Inl (build_violation_error
            (kind_name kind @ '' event for block '' @ show_nat index @ '', which is ''
              @ kind_name (bl_kind b)))
          else if bl_closed b then Inl (build_violation_error
            (''event for block '' @ show_nat index @ '' after it closed''))
          else Inr b)"

definition edit_block ::
  "nat \<Rightarrow> block_kind \<Rightarrow> (block \<Rightarrow> block) \<Rightarrow> accumulator \<Rightarrow> error + accumulator" where
  "edit_block index kind f acc =
     bindR (get_block index kind acc)
       (\<lambda>b. Inr (acc\<lparr>acc_blocks := bt_insert index (f b) (acc_blocks acc)\<rparr>))"

definition close_block :: "nat \<Rightarrow> accumulator \<Rightarrow> error + accumulator" where
  "close_block index acc =
     (case map_of (acc_blocks acc) index of
        None \<Rightarrow> Inl (build_violation_error
          (''block '' @ show_nat index @ '' closed before it opened''))
      | Some b \<Rightarrow>
          if bl_closed b
          then Inl (build_violation_error (''block '' @ show_nat index @ '' is closed twice''))
          else if bl_kind b = KindToolUse \<and> bl_call_id b = None then Inl (build_violation_error
            (''tool block '' @ show_nat index @ '' closed without a call id''))
          else if bl_kind b = KindToolUse \<and> bl_name b = None then Inl (build_violation_error
            (''tool block '' @ show_nat index @ '' closed without a name''))
          else Inr (acc\<lparr>acc_blocks := bt_insert index (b\<lparr>bl_closed := True\<rparr>) (acc_blocks acc)\<rparr>))"

definition complete_block :: "nat \<Rightarrow> accumulator \<Rightarrow> error + accumulator" where
  "complete_block index acc =
     (case map_of (acc_blocks acc) index of
        None \<Rightarrow> Inl (build_violation_error ''completion before block start'')
      | Some b \<Rightarrow>
          if \<not> bl_closed b \<or> bl_complete b
          then Inl (build_violation_error ''invalid block completion'')
          else Inr (acc\<lparr>acc_blocks := bt_insert index (b\<lparr>bl_complete := True\<rparr>) (acc_blocks acc)\<rparr>))"

definition push_tool_delta ::
  "string option \<Rightarrow> string option \<Rightarrow> string \<Rightarrow> block \<Rightarrow> block" where
  "push_tool_delta call_id name arguments b =
     b\<lparr>bl_call_id := (if call_id \<noteq> None then call_id else bl_call_id b),
       bl_name := (if name \<noteq> None then name else bl_name b),
       bl_arguments := bl_arguments b @ arguments\<rparr>"

definition rewind :: "nat \<Rightarrow> accumulator \<Rightarrow> error + accumulator" where
  "rewind revision acc =
     (case acc_checkpoint acc of
        None \<Rightarrow> Inl (build_violation_error ''rewind without checkpoint'')
      | Some (saved, state) \<Rightarrow>
          if saved \<noteq> revision then Inl (build_violation_error ''checkpoint revision mismatch'')
          else Inr (acc_core.extend state (accumulator.fields (Some (saved, state)))))"

fun feed_open :: "stream_event \<Rightarrow> accumulator \<Rightarrow> error + accumulator" where
  "feed_open (Checkpoint revision) acc =
     Inr (acc\<lparr>acc_checkpoint := Some (revision, acc_core.truncate acc)\<rparr>)"
| "feed_open (Rewind revision) acc = rewind revision acc"
| "feed_open (Recovering _ _) acc = Inr acc"
| "feed_open (InputTokens _) acc = Inr acc"
| "feed_open (BlockStart index kind) acc = open_block index kind acc"
| "feed_open (TextDelta index delta) acc =
     edit_block index KindText (\<lambda>b. b\<lparr>bl_text := bl_text b @ delta\<rparr>) acc"
| "feed_open (ReasoningDelta index delta) acc =
     edit_block index KindReasoning (\<lambda>b. b\<lparr>bl_plaintext := bl_plaintext b @ delta\<rparr>) acc"
| "feed_open (ReasoningDisplayDelta index delta) acc =
     edit_block index KindReasoning
       (\<lambda>b. b\<lparr>bl_display := Some ((case bl_display b of None \<Rightarrow> [] | Some d \<Rightarrow> d) @ delta)\<rparr>) acc"
| "feed_open (ReasoningSignatureDelta index sig) acc =
     edit_block index KindReasoning (\<lambda>b. b\<lparr>bl_signature := bl_signature b @ sig\<rparr>) acc"
| "feed_open (ReasoningCiphertextDelta index cipher) acc =
     edit_block index KindReasoning (\<lambda>b. b\<lparr>bl_ciphertext := bl_ciphertext b @ cipher\<rparr>) acc"
| "feed_open (ReasoningReplayItem index item) acc =
     edit_block index KindReasoning (\<lambda>b. b\<lparr>bl_replay_item := Some item\<rparr>) acc"
| "feed_open (ToolUseDelta index call_id name arguments) acc =
     edit_block index KindToolUse (push_tool_delta call_id name arguments) acc"
| "feed_open (BlockEnd index) acc = close_block index acc"
| "feed_open (BlockComplete index) acc = complete_block index acc"
| "feed_open (UsageEvent u) acc = Inr (acc\<lparr>acc_usage := Some u\<rparr>)"
| "feed_open (Account account) acc = Inr (acc\<lparr>acc_account_state := Some account\<rparr>)"
| "feed_open (UpstreamCompactionEvent index item_id encrypted) acc =
     Inr (acc\<lparr>acc_items :=
       bt_insert index (UpstreamCompaction JNull item_id encrypted) (acc_items acc)\<rparr>)"
| "feed_open (StopEvent reason) acc = Inr (acc\<lparr>acc_stop_reason := Some reason\<rparr>)"

text \<open>
  \<open>StreamAccumulator::feed\<close>. A refused event changes nothing a later \<open>finalize\<close> reads.
\<close>

definition feed :: "accumulator \<Rightarrow> stream_event \<Rightarrow> error + accumulator" where
  "feed acc event =
     (if acc_stop_reason acc \<noteq> None
      then Inl (build_violation_error ''event after the stop event'')
      else feed_open event acc)"

definition feed_all :: "stream_event list \<Rightarrow> accumulator \<Rightarrow> error + accumulator" where
  "feed_all events acc = foldR feed events acc"

subsection \<open>A stream that ended normally\<close>

definition push_text_block :: "string \<Rightarrow> message list \<Rightarrow> message list" where
  "push_text_block text messages =
     (case rev messages of
        Assistant m content # prior \<Rightarrow> rev (Assistant m (content @ [Text text]) # prior)
      | _ \<Rightarrow> messages @ [Assistant JNull [Text text]])"

definition finish_tool_block ::
  "(string \<Rightarrow> json option) \<Rightarrow> nat \<Rightarrow> block \<Rightarrow> error + message" where
  "finish_tool_block parse_json index b =
     (case bl_call_id b of
        None \<Rightarrow> Inl (build_violation_error
          (''tool block '' @ show_nat index @ '' closed without a call id''))
      | Some call_id \<Rightarrow> (case bl_name b of
          None \<Rightarrow> Inl (build_violation_error
            (''tool block '' @ show_nat index @ '' closed without a name''))
        | Some name \<Rightarrow> (case parse_tool_arguments parse_json (bl_arguments b) of
            None \<Rightarrow> Inl (Malformed (''arguments of streamed tool block '' @ show_nat index
              @ '' are not valid JSON''))
          | Some arguments \<Rightarrow> Inr (ToolUse JNull call_id name arguments))))"

text \<open>The loop over the blocks in index order; a whole item goes before the first block past it.\<close>

fun finish_blocks ::
  "(string \<Rightarrow> json option) \<Rightarrow> reasoning_replay \<Rightarrow> (nat, block) btree \<Rightarrow> (nat, message) btree
   \<Rightarrow> message list \<Rightarrow> error + (message list \<times> (nat, message) btree)" where
  "finish_blocks parse_json rules [] items messages = Inr (messages, items)"
| "finish_blocks parse_json rules ((index, b) # blocks) items messages =
     (let prior = takeWhile (\<lambda>(at, _). at < index) items;
          items' = dropWhile (\<lambda>(at, _). at < index) items;
          messages' = messages @ map snd prior
      in if \<not> bl_closed b then Inl (build_violation_error
           (''stream ended with block '' @ show_nat index @ '' still open''))
         else case bl_kind b of
           KindText \<Rightarrow>
             finish_blocks parse_json rules blocks items' (push_text_block (bl_text b) messages')
         | KindReasoning \<Rightarrow>
             finish_blocks parse_json rules blocks items' (messages' @ [into_reasoning rules b])
         | KindToolUse \<Rightarrow>
             bindR (finish_tool_block parse_json index b) (\<lambda>call.
               finish_blocks parse_json rules blocks items' (messages' @ [call])))"

definition finish :: "(string \<Rightarrow> json option) \<Rightarrow> accumulator \<Rightarrow> error + response" where
  "finish parse_json acc =
     (case acc_stop_reason acc of
        None \<Rightarrow> Inl (build_violation_error ''stream ended without a stop event'')
      | Some reason \<Rightarrow>
          bindR (finish_blocks parse_json (acc_replay acc) (acc_blocks acc) (acc_items acc) [])
            (\<lambda>(messages, items). Inr \<lparr>
               resp_messages = messages @ map snd items,
               resp_stop_reason = reason,
               resp_usage = (case acc_usage acc of None \<Rightarrow> default_usage | Some u \<Rightarrow> u),
               resp_account_state = acc_account_state acc\<rparr>))"

subsection \<open>A stream that did not\<close>

datatype partial_content =
    PartialMessage message
  | PartialToolCall "string option" "string option" string

record partial_block =
  pb_index :: nat
  pb_closed :: bool
  pb_content :: partial_content
  pb_replay :: replay_disposition

datatype tool_execution_state = NotStarted | MayHaveStarted

datatype stream_end =
    EndComplete
  | EndInterrupted tool_execution_state
  | EndFailed error

datatype incomplete_reason =
    OutputLimit
  | Interrupted_by tool_execution_state
  | Failed_by error

record partial_response =
  pr_reason :: incomplete_reason
  pr_blocks :: "partial_block list"
  pr_usage :: usage
  pr_account_state :: "account_state option"
  pr_upstream_stop :: "stop_reason option"
  pr_messages :: "message list"

datatype stream_finalization =
    Finalized_Complete response
  | Finalized_Incomplete partial_response

definition parse_arguments :: "(string \<Rightarrow> json option) \<Rightarrow> string \<Rightarrow> json option" where
  "parse_arguments parse_json raw =
     (case parse_tool_arguments parse_json raw of
        Some v \<Rightarrow> if is_object v then Some v else None
      | None \<Rightarrow> None)"

definition cancelled_content :: "tool_execution_state \<Rightarrow> json" where
  "cancelled_content tools =
     (case tools of
        NotStarted \<Rightarrow> JObject [(''status'', JString ''cancelled'')]
      | MayHaveStarted \<Rightarrow> JObject [(''status'', JString ''unknown''),
          (''message'', JString ''Execution may have started; its outcome is unavailable.'')])"

text \<open>What one block adds to the fragment: its messages, and the results it owes.\<close>

definition fragment_of ::
  "(string \<Rightarrow> json option) \<Rightarrow> tool_execution_state \<Rightarrow> partial_block
   \<Rightarrow> message list \<times> message list" where
  "fragment_of parse_json tools b =
     (if pb_replay b \<noteq> Replayable then ([], [])
      else case pb_content b of
        PartialMessage message \<Rightarrow> ([message], [])
      | PartialToolCall (Some call_id) (Some name) arguments \<Rightarrow>
          (case parse_arguments parse_json arguments of
             None \<Rightarrow> ([], [])
           | Some args \<Rightarrow> ([ToolUse JNull call_id name args],
                          [ToolResult JNull call_id name (cancelled_content tools)]))
      | PartialToolCall _ _ _ \<Rightarrow> ([], []))"

definition build_context_fragment ::
  "(string \<Rightarrow> json option) \<Rightarrow> partial_block list \<Rightarrow> tool_execution_state \<Rightarrow> message list" where
  "build_context_fragment parse_json blocks tools =
     concat (map (fst \<circ> fragment_of parse_json tools) blocks)
     @ concat (map (snd \<circ> fragment_of parse_json tools) blocks)"

text \<open>
  A tool call can be replayed only once complete, with a fresh non-empty call id, a name and object
  arguments. The ids seen so far are threaded through.
\<close>

definition fresh_call_id :: "string option \<Rightarrow> string list \<Rightarrow> bool" where
  "fresh_call_id call_id call_ids =
     (case call_id of None \<Rightarrow> False | Some c \<Rightarrow> c \<noteq> [] \<and> c \<notin> set call_ids)"

definition classify_block ::
  "(string \<Rightarrow> json option) \<Rightarrow> reasoning_replay \<Rightarrow> block \<Rightarrow> string list
   \<Rightarrow> (partial_content \<times> replay_disposition) \<times> string list" where
  "classify_block parse_json rules b call_ids =
     (case bl_kind b of
        KindText \<Rightarrow> ((PartialMessage (Assistant JNull [Text (bl_text b)]), Replayable), call_ids)
      | KindReasoning \<Rightarrow>
          ((PartialMessage (into_reasoning rules b),
            classify_reasoning rules (bl_complete b) (bl_plaintext b) (bl_signature b)
              (bl_ciphertext b)), call_ids)
      | KindToolUse \<Rightarrow>
          (let fresh = fresh_call_id (bl_call_id b) call_ids;
               valid = (fresh
                 \<and> (case bl_name b of None \<Rightarrow> False | Some name \<Rightarrow> name \<noteq> [])
                 \<and> parse_arguments parse_json (bl_arguments b) \<noteq> None);
               replay = (if \<not> bl_complete b then Incomplete
                         else if valid then Replayable else InvalidToolCall)
           in ((PartialToolCall (bl_call_id b) (bl_name b) (bl_arguments b), replay),
               if fresh then the (bl_call_id b) # call_ids else call_ids)))"

fun classify_blocks ::
  "(string \<Rightarrow> json option) \<Rightarrow> reasoning_replay \<Rightarrow> (nat, block) btree \<Rightarrow> string list
   \<Rightarrow> (nat, partial_block) btree" where
  "classify_blocks parse_json rules [] call_ids = []"
| "classify_blocks parse_json rules ((index, b) # rest) call_ids =
     (case classify_block parse_json rules b call_ids of ((content, replay), call_ids') \<Rightarrow>
        (index, \<lparr>pb_index = index, pb_closed = bl_closed b, pb_content = content,
                 pb_replay = replay\<rparr>) # classify_blocks parse_json rules rest call_ids')"

definition insert_items ::
  "(nat, message) btree \<Rightarrow> (nat, partial_block) btree \<Rightarrow> (nat, partial_block) btree" where
  "insert_items items blocks =
     fold (\<lambda>(index, message). bt_insert index
       \<lparr>pb_index = index, pb_closed = True, pb_content = PartialMessage message,
        pb_replay = Replayable\<rparr>) items blocks"

definition is_signature_only :: "partial_block \<Rightarrow> bool" where
  "is_signature_only b =
     (case pb_content b of
        PartialMessage (Reasoning _ _ _ plain _ sig _) \<Rightarrow> plain = [] \<and> sig \<noteq> []
      | _ \<Rightarrow> False)"

definition carries_signature :: "partial_block \<Rightarrow> bool" where
  "carries_signature b \<longleftrightarrow> pb_replay b = Replayable
     \<and> (case pb_content b of
          PartialToolCall _ _ _ \<Rightarrow> True
        | PartialMessage (Assistant _ _) \<Rightarrow> True
        | _ \<Rightarrow> False)"

text \<open>
  The loop reads the block after the current one, which it has not changed yet, so each block's mark
  depends on its original neighbour.
\<close>

fun mark_unsealed_signatures :: "partial_block list \<Rightarrow> partial_block list" where
  "mark_unsealed_signatures [] = []"
| "mark_unsealed_signatures (b # rest) =
     (if is_signature_only b
         \<and> \<not> (case rest of [] \<Rightarrow> False | following # _ \<Rightarrow> carries_signature following)
      then b\<lparr>pb_replay := MissingSignedPart\<rparr> else b) # mark_unsealed_signatures rest"

definition build_partial_response ::
  "(string \<Rightarrow> json option) \<Rightarrow> accumulator \<Rightarrow> incomplete_reason \<Rightarrow> partial_response" where
  "build_partial_response parse_json acc reason =
     (let rules = acc_replay acc;
          listed = map snd (insert_items (acc_items acc)
                     (classify_blocks parse_json rules (acc_blocks acc) []));
          blocks = (if rr_seals_next_part rules then mark_unsealed_signatures listed else listed)
      in \<lparr>pr_reason = reason,
          pr_blocks = blocks,
          pr_usage = (case acc_usage acc of None \<Rightarrow> default_usage | Some u \<Rightarrow> u),
          pr_account_state = acc_account_state acc,
          pr_upstream_stop = acc_stop_reason acc,
          pr_messages = (case reason of
              Interrupted_by tools \<Rightarrow> build_context_fragment parse_json blocks tools
            | OutputLimit \<Rightarrow> build_context_fragment parse_json blocks NotStarted
            | Failed_by _ \<Rightarrow> [])\<rparr>)"

definition interrupt ::
  "(string \<Rightarrow> json option) \<Rightarrow> accumulator \<Rightarrow> tool_execution_state \<Rightarrow> partial_response" where
  "interrupt parse_json acc tools = build_partial_response parse_json acc (Interrupted_by tools)"

definition finish_output_limit ::
  "(string \<Rightarrow> json option) \<Rightarrow> accumulator \<Rightarrow> error + partial_response" where
  "finish_output_limit parse_json acc =
     (if acc_stop_reason acc \<noteq> Some MaxOutputLengthExceeded
      then Inl (Build ''output-limit finalization requires an upstream output limit'')
      else Inr (build_partial_response parse_json acc OutputLimit))"

definition finalize ::
  "(string \<Rightarrow> json option) \<Rightarrow> accumulator \<Rightarrow> stream_end \<Rightarrow> error + stream_finalization" where
  "finalize parse_json acc ending =
     (case ending of
        EndComplete \<Rightarrow> bindR (finish parse_json acc) (\<lambda>r. Inr (Finalized_Complete r))
      | EndInterrupted tools \<Rightarrow> Inr (Finalized_Incomplete (interrupt parse_json acc tools))
      | EndFailed e \<Rightarrow>
          Inr (Finalized_Incomplete (build_partial_response parse_json acc (Failed_by e))))"

text \<open>
  Buffered replies carry no per-block completions: at an output limit the text and the transparent
  reasoning are kept, tool calls and opaque reasoning are not. \<open>rules\<close> are the rules of the
  protocol given, or the default without one.
\<close>

definition from_output_limit ::
  "(string \<Rightarrow> json option) \<Rightarrow> reasoning_replay \<Rightarrow> response \<Rightarrow> error + partial_response" where
  "from_output_limit parse_json rules resp =
     (if resp_stop_reason resp \<noteq> MaxOutputLengthExceeded
      then Inl (Build ''expected an output-limited response'')
      else let blocks = map (\<lambda>(index, message).
             \<lparr>pb_index = index, pb_closed = False, pb_content = PartialMessage message,
              pb_replay = (case message of
                  Assistant _ _ \<Rightarrow> Replayable
                | Reasoning _ _ _ plain _ sig cipher \<Rightarrow>
                    classify_reasoning rules False plain sig cipher
                | _ \<Rightarrow> Incomplete)\<rparr>) (enumerate 0 (resp_messages resp))
           in Inr \<lparr>pr_reason = OutputLimit,
                   pr_blocks = blocks,
                   pr_usage = resp_usage resp,
                   pr_account_state = resp_account_state resp,
                   pr_upstream_stop = Some (resp_stop_reason resp),
                   pr_messages = build_context_fragment parse_json blocks NotStarted\<rparr>)"

definition prepend_replay_messages :: "message list \<Rightarrow> partial_response \<Rightarrow> partial_response" where
  "prepend_replay_messages prefix p = p\<lparr>pr_messages := prefix @ pr_messages p\<rparr>"

text \<open>Text and reasoning, without a signature whose tool call is left out.\<close>

fun continuation_messages :: "message list \<Rightarrow> message list" where
  "continuation_messages [] = []"
| "continuation_messages (message # rest) =
     (case message of
        Assistant _ _ \<Rightarrow> [message]
      | Reasoning _ _ _ plain _ sig _ \<Rightarrow>
          if plain = [] \<and> sig \<noteq> []
             \<and> (case rest of ToolUse _ _ _ _ # _ \<Rightarrow> True | _ \<Rightarrow> False)
          then [] else [message]
      | _ \<Rightarrow> []) @ continuation_messages rest"

definition get_continuation_messages :: "partial_response \<Rightarrow> message list" where
  "get_continuation_messages p = continuation_messages (pr_messages p)"

end
