(* ===== verification/Store.thy ===== *)
theory Store
  imports Json
begin

text \<open>
  What a storage transaction promises its clients: typed objects and lists by name, and the rows of
  the history index. This is the contract the session engine is written against;
  \<^verbatim>\<open>Storage_Db\<close> models the SQL tables, the cache and the paged reads behind it and shows that they
  implement it.

  A list is the cells it has had appended, a released cell being \<open>None\<close>; its kind is fixed when it
  is created, and every access names the kind it expects. A stored value is encoded and decoded by
  the dictionary of its type, the trait \<open>StoredValue\<close>.
\<close>

subsection \<open>Errors, stored types and the store\<close>

datatype storage_error =
    Sqlite
  | Encoding
  | NotFound string
  | AlreadyExists string
  | TypeMismatch string
  | AlreadyOpen string
  | InvalidRange
  | Corrupt string

record ('a, 'v) stored_value =
  sv_kind :: string
  sv_enc :: "'a \<Rightarrow> 'v"
  sv_dec :: "'v \<Rightarrow> 'a option"

record index_row =
  ix_sequence :: nat
  ix_recorded_at :: nat
  ix_generation :: nat
  ix_item_kind :: string
  ix_message_type :: "string option"
  ix_event_type :: "string option"
  ix_origin :: "string option"
  ix_model_call :: "nat option"
  ix_tool_name :: "string option"
  ix_metadata :: json
  ix_text :: rendered_text

record 'v store =
  st_objects :: "string \<Rightarrow> (string \<times> 'v) option"
  st_lists :: "string \<Rightarrow> (string \<times> 'v option list) option"
  st_index :: "string \<Rightarrow> index_row list"

definition empty_store :: "'v store" where
  "empty_store = \<lparr>st_objects = (\<lambda>_. None), st_lists = (\<lambda>_. None), st_index = (\<lambda>_. [])\<rparr>"

type_synonym ('v, 'a) store_op = "(storage_error, 'v store, 'a) st"

subsection \<open>Objects\<close>

definition decode :: "('a, 'v) stored_value \<Rightarrow> 'v \<Rightarrow> ('v, 'a) store_op" where
  "decode K v = expectS Encoding (sv_dec K v)"

definition create_object :: "('a, 'v) stored_value \<Rightarrow> string \<Rightarrow> 'a \<Rightarrow> ('v, unit) store_op" where
  "create_object K name x = (\<lambda>s. case st_objects s name of
       Some _ \<Rightarrow> Inl (AlreadyExists name)
     | None \<Rightarrow> Inr ((), s\<lparr>st_objects := (st_objects s)(name \<mapsto> (sv_kind K, sv_enc K x))\<rparr>))"

definition load_object :: "('a, 'v) stored_value \<Rightarrow> string \<Rightarrow> ('v, 'a) store_op" where
  "load_object K name = (\<lambda>s. case st_objects s name of
       None \<Rightarrow> Inl (NotFound name)
     | Some (kind, v) \<Rightarrow> if kind \<noteq> sv_kind K then Inl (TypeMismatch name) else decode K v s)"

definition save_object :: "('a, 'v) stored_value \<Rightarrow> string \<Rightarrow> 'a \<Rightarrow> ('v, unit) store_op" where
  "save_object K name x =
     thenS (load_object K name)
       (modifyS (\<lambda>s. s\<lparr>st_objects := (st_objects s)(name \<mapsto> (sv_kind K, sv_enc K x))\<rparr>))"

subsection \<open>Lists\<close>

definition list_cells :: "('a, 'v) stored_value \<Rightarrow> string \<Rightarrow> ('v, 'v option list) store_op" where
  "list_cells K list = (\<lambda>s. case st_lists s list of
       None \<Rightarrow> Inl (NotFound list)
     | Some (kind, cells) \<Rightarrow> if kind \<noteq> sv_kind K then Inl (TypeMismatch list) else Inr (cells, s))"

definition put_cells ::
  "('a, 'v) stored_value \<Rightarrow> string \<Rightarrow> 'v option list \<Rightarrow> ('v, unit) store_op" where
  "put_cells K list cells =
     modifyS (\<lambda>s. s\<lparr>st_lists := (st_lists s)(list \<mapsto> (sv_kind K, cells))\<rparr>)"

definition create_list :: "('a, 'v) stored_value \<Rightarrow> string \<Rightarrow> ('v, unit) store_op" where
  "create_list K list = (\<lambda>s. case st_lists s list of
       Some _ \<Rightarrow> Inl (AlreadyExists list)
     | None \<Rightarrow> put_cells K list [] s)"

definition list_len :: "('a, 'v) stored_value \<Rightarrow> string \<Rightarrow> ('v, nat) store_op" where
  "list_len K list = bindS (list_cells K list) (\<lambda>cells. returnS (length cells))"

definition get_item :: "('a, 'v) stored_value \<Rightarrow> string \<Rightarrow> nat \<Rightarrow> ('v, 'a option) store_op" where
  "get_item K list pos = bindS (list_cells K list) (\<lambda>cells.
     if pos \<ge> length cells then returnS None
     else case cells ! pos of
       None \<Rightarrow> returnS None
     | Some v \<Rightarrow> bindS (decode K v) (\<lambda>x. returnS (Some x)))"

definition append_items :: "('a, 'v) stored_value \<Rightarrow> string \<Rightarrow> 'a list \<Rightarrow> ('v, nat) store_op" where
  "append_items K list values = bindS (list_cells K list) (\<lambda>cells.
     if length cells + length values \<le> i64_max
     then thenS (put_cells K list (cells @ map (Some \<circ> sv_enc K) values))
            (returnS (length cells))
     else failS InvalidRange)"

definition append_item :: "('a, 'v) stored_value \<Rightarrow> string \<Rightarrow> 'a \<Rightarrow> ('v, nat) store_op" where
  "append_item K list x = append_items K list [x]"

definition set_item :: "('a, 'v) stored_value \<Rightarrow> string \<Rightarrow> nat \<Rightarrow> 'a \<Rightarrow> ('v, unit) store_op" where
  "set_item K list pos x = bindS (list_cells K list) (\<lambda>cells.
     if pos \<ge> length cells then failS InvalidRange
     else put_cells K list (cells[pos := Some (sv_enc K x)]))"

definition remove_item :: "('a, 'v) stored_value \<Rightarrow> string \<Rightarrow> nat \<Rightarrow> ('v, unit) store_op" where
  "remove_item K list pos = bindS (list_cells K list) (\<lambda>cells.
     if pos \<ge> length cells then failS InvalidRange
     else if length cells > i64_max div 2 then failS InvalidRange
     else put_cells K list (remove_at pos cells))"

text \<open>
  \<open>size_of\<close> is the length of a value's encoding. A released position keeps its place; positions
  already released or past the end are ignored.
\<close>

fun release_cells ::
  "('v \<Rightarrow> nat) \<Rightarrow> nat list \<Rightarrow> 'v option list \<Rightarrow> nat \<Rightarrow> 'v option list \<times> nat" where
  "release_cells size_of [] cells released = (cells, released)"
| "release_cells size_of (p # ps) cells released =
     (if p < length cells
      then case cells ! p of
          None \<Rightarrow> release_cells size_of ps cells released
        | Some v \<Rightarrow> release_cells size_of ps (cells[p := None]) (released + size_of v)
      else release_cells size_of ps cells released)"

definition release_items ::
  "('v \<Rightarrow> nat) \<Rightarrow> ('a, 'v) stored_value \<Rightarrow> string \<Rightarrow> nat list \<Rightarrow> ('v, nat) store_op" where
  "release_items size_of K list positions = bindS (list_cells K list) (\<lambda>cells.
     case release_cells size_of positions cells 0 of (cells', released) \<Rightarrow>
       thenS (put_cells K list cells') (returnS released))"

definition delete_list :: "('a, 'v) stored_value \<Rightarrow> string \<Rightarrow> ('v, unit) store_op" where
  "delete_list K list = thenS (list_cells K list)
     (modifyS (\<lambda>s. s\<lparr>st_lists := (st_lists s)(list := None),
                    st_index := (st_index s)(list := [])\<rparr>))"

definition read_from :: "('a, 'v) stored_value \<Rightarrow> string \<Rightarrow> nat \<Rightarrow> ('v, 'a list) store_op" where
  "read_from K list start = bindS (list_cells K list) (\<lambda>cells.
     mapS (decode K) (List.map_filter (\<lambda>c. c) (drop start cells)))"

record 'a page =
  pg_start :: nat
  pg_items :: "'a list"
  pg_end :: nat
  pg_next :: "nat option"

definition read_page ::
  "('a, 'v) stored_value \<Rightarrow> string \<Rightarrow> nat \<Rightarrow> nat \<Rightarrow> ('v, 'a page) store_op" where
  "read_page K list start limit =
     (if limit = 0 then failS InvalidRange
      else bindS (list_cells K list) (\<lambda>cells.
        if start > length cells then failS InvalidRange
        else let end = min (saturating_add start limit) (length cells) in
          bindS (mapS (decode K) (List.map_filter (\<lambda>c. c) (take (end - start) (drop start cells))))
            (\<lambda>items. returnS \<lparr>pg_start = start, pg_items = items, pg_end = end,
               pg_next = (if end < length cells then Some end else None)\<rparr>)))"

definition has_prefix :: "string \<Rightarrow> string \<Rightarrow> bool" where
  "has_prefix p text \<longleftrightarrow> take (length p) text = p"

definition delete_namespace :: "string \<Rightarrow> ('v, unit) store_op" where
  "delete_namespace namespace =
     (let below = has_prefix (namespace @ ''/'') in
      modifyS (\<lambda>s. s\<lparr>
        st_objects := (\<lambda>n. if n = namespace \<or> below n then None else st_objects s n),
        st_lists := (\<lambda>n. if below n then None else st_lists s n),
        st_index := (\<lambda>n. if below n then [] else st_index s n)\<rparr>))"

subsection \<open>The history index\<close>

definition to_integer :: "nat \<Rightarrow> ('v, unit) store_op" where
  "to_integer value = (if value \<le> i64_max then returnS () else failS InvalidRange)"

text \<open>A row is kept under its list; the row already there for a sequence stays.\<close>

definition index_history_record :: "string \<Rightarrow> index_row \<Rightarrow> ('v, unit) store_op" where
  "index_history_record list row =
     thenS (to_integer (ix_sequence row))
    (thenS (to_integer (ix_recorded_at row))
    (thenS (to_integer (ix_generation row))
    (thenS (case ix_model_call row of None \<Rightarrow> returnS () | Some call \<Rightarrow> to_integer call)
      (\<lambda>s. if st_lists s list = None then Inl Sqlite
           else if \<exists>r \<in> set (st_index s list). ix_sequence r = ix_sequence row then Inr ((), s)
           else Inr ((), s\<lparr>st_index := (st_index s)(list := st_index s list @ [row])\<rparr>)))))"

text \<open>\<open>row_size\<close> is the length of a row's text and metadata.\<close>

definition remove_history_record ::
  "(index_row \<Rightarrow> nat) \<Rightarrow> string \<Rightarrow> nat \<Rightarrow> nat \<Rightarrow> ('v, nat) store_op" where
  "remove_history_record row_size list removed sequence =
     thenS (to_integer sequence)
       (\<lambda>s. let (gone, kept) = partition (\<lambda>r. ix_sequence r = sequence) (st_index s list)
            in Inr (removed + sum_list (map row_size gone),
                    s\<lparr>st_index := (st_index s)(list := kept)\<rparr>))"

definition remove_history_records ::
  "(index_row \<Rightarrow> nat) \<Rightarrow> string \<Rightarrow> nat list \<Rightarrow> ('v, nat) store_op" where
  "remove_history_records row_size list sequences =
     foldS (remove_history_record row_size list) sequences 0"

subsection \<open>Laws of the dictionaries\<close>

text \<open>A stored type reads back what it wrote, and accepts only what it wrote.\<close>

locale stored_type =
  fixes K :: "('a, 'v) stored_value"
  assumes dec_enc: "sv_dec K (sv_enc K x) = Some x"
    and enc_dec: "sv_dec K v = Some x \<Longrightarrow> v = sv_enc K x"

subsection \<open>What an operation does to the lists\<close>

named_theorems store_defs \<open>the operations on the store\<close>

lemmas list_ops_defs = create_list_def list_len_def get_item_def append_items_def append_item_def
  set_item_def remove_item_def release_items_def delete_list_def read_from_def read_page_def
  put_cells_def

lemma list_cells_Inr [simp]:
  "list_cells K list s = Inr (cells, t) \<longleftrightarrow> t = s \<and> st_lists s list = Some (sv_kind K, cells)"
  by (auto simp: list_cells_def split: option.splits if_splits)

lemma bindS_list_cells:
  "bindS (list_cells K list) f s = Inr r \<longleftrightarrow>
     (case st_lists s list of None \<Rightarrow> False
      | Some (kind, cells) \<Rightarrow> kind = sv_kind K \<and> f cells s = Inr r)"
  by (auto simp: list_cells_def bindS_def split: option.splits if_splits)

lemma put_cells_Inr [simp]:
  "put_cells K list cells s = Inr (u, t) \<longleftrightarrow>
     t = s\<lparr>st_lists := (st_lists s)(list \<mapsto> (sv_kind K, cells))\<rparr>"
  by (simp add: put_cells_def)

lemma decode_Inr [simp]: "decode K v s = Inr (x, t) \<longleftrightarrow> sv_dec K v = Some x \<and> t = s"
  by (simp add: decode_def)

lemma create_list_Inr [simp]:
  "create_list K list s = Inr (u, t) \<longleftrightarrow>
     st_lists s list = None \<and> t = s\<lparr>st_lists := (st_lists s)(list \<mapsto> (sv_kind K, []))\<rparr>"
  by (auto simp: create_list_def split: option.splits)

lemma list_len_Inr [simp]:
  "list_len K list s = Inr (n, t) \<longleftrightarrow>
     t = s \<and> (\<exists>cells. st_lists s list = Some (sv_kind K, cells) \<and> n = length cells)"
  by (auto simp: list_len_def bindS_Inr)

lemma append_items_Inr:
  "append_items K list values s = Inr (n, t) \<longleftrightarrow>
     (\<exists>cells. st_lists s list = Some (sv_kind K, cells) \<and> n = length cells
       \<and> length cells + length values \<le> i64_max
       \<and> t = s\<lparr>st_lists := (st_lists s)(list \<mapsto>
            (sv_kind K, cells @ map (Some \<circ> sv_enc K) values))\<rparr>)"
  by (auto simp: append_items_def st_Inr)

lemma append_item_Inr [simp]:
  "append_item K list x s = Inr (n, t) \<longleftrightarrow>
     (\<exists>cells. st_lists s list = Some (sv_kind K, cells) \<and> n = length cells
       \<and> length cells < i64_max
       \<and> t = s\<lparr>st_lists := (st_lists s)(list \<mapsto> (sv_kind K, cells @ [Some (sv_enc K x)]))\<rparr>)"
  by (auto simp: append_item_def append_items_Inr)

lemma set_item_Inr [simp]:
  "set_item K list p x s = Inr (u, t) \<longleftrightarrow>
     (\<exists>cells. st_lists s list = Some (sv_kind K, cells) \<and> p < length cells
       \<and> t = s\<lparr>st_lists := (st_lists s)(list \<mapsto>
            (sv_kind K, cells[p := Some (sv_enc K x)]))\<rparr>)"
  by (cases "st_lists s list") (auto simp: set_item_def bindS_list_cells split: if_splits)

lemma remove_item_Inr [simp]:
  "remove_item K list p s = Inr (u, t) \<longleftrightarrow>
     (\<exists>cells. st_lists s list = Some (sv_kind K, cells) \<and> p < length cells
       \<and> length cells \<le> i64_max div 2
       \<and> t = s\<lparr>st_lists := (st_lists s)(list \<mapsto> (sv_kind K, remove_at p cells))\<rparr>)"
  by (cases "st_lists s list") (auto simp: remove_item_def bindS_list_cells split: if_splits)

lemma delete_list_Inr [simp]:
  "delete_list K list s = Inr (u, t) \<longleftrightarrow>
     (\<exists>cells. st_lists s list = Some (sv_kind K, cells))
     \<and> t = s\<lparr>st_lists := (st_lists s)(list := None), st_index := (st_index s)(list := [])\<rparr>"
  by (auto simp: delete_list_def st_Inr)

definition cell_at :: "'v option list \<Rightarrow> nat \<Rightarrow> 'v option" where
  "cell_at cells p = (if p < length cells then cells ! p else None)"

lemma get_item_Inr:
  "get_item K list p s = Inr (y, t) \<longleftrightarrow>
     t = s \<and> (\<exists>cells. st_lists s list = Some (sv_kind K, cells)
       \<and> (case cell_at cells p of None \<Rightarrow> y = None | Some v \<Rightarrow> y = sv_dec K v \<and> y \<noteq> None))"
proof (cases "\<exists>cells. st_lists s list = Some (sv_kind K, cells)")
  case True
  then obtain cells where "st_lists s list = Some (sv_kind K, cells)" by blast
  then show ?thesis
    by (cases "cell_at cells p")
      (auto simp: get_item_def bindS_list_cells bindS_Inr cell_at_def split: if_splits)
qed (auto simp: get_item_def bindS_Inr)

lemma mapS_decode_Inr:
  "mapS (decode K) vs s = Inr (xs, t) \<longleftrightarrow> t = s \<and> map (sv_dec K) vs = map Some xs"
proof (induction vs arbitrary: xs)
  case (Cons v vs)
  show ?case by (cases xs) (auto simp: bindS_Inr Cons.IH)
qed auto

lemma read_from_Inr:
  "read_from K list start s = Inr (xs, t) \<longleftrightarrow>
     t = s \<and> (\<exists>cells. st_lists s list = Some (sv_kind K, cells)
       \<and> map (sv_dec K) (List.map_filter (\<lambda>c. c) (drop start cells)) = map Some xs)"
  by (auto simp: read_from_def bindS_Inr mapS_decode_Inr)

lemma read_page_Inr:
  "read_page K list start limit s = Inr (pg, t) \<Longrightarrow>
     t = s \<and> pg_start pg = start \<and> 0 < limit
     \<and> (\<exists>cells. st_lists s list = Some (sv_kind K, cells) \<and> start \<le> length cells
       \<and> pg_end pg = min (saturating_add start limit) (length cells)
       \<and> map (sv_dec K) (List.map_filter (\<lambda>c. c) (take (pg_end pg - start) (drop start cells)))
           = map Some (pg_items pg))"
  by (auto simp: read_page_def st_Inr mapS_decode_Inr Let_def split: if_splits)

lemma release_items_Inr:
  "release_items size_of K list ps s = Inr (n, t) \<longleftrightarrow>
     (\<exists>cells cells'. st_lists s list = Some (sv_kind K, cells)
       \<and> release_cells size_of ps cells 0 = (cells', n)
       \<and> t = s\<lparr>st_lists := (st_lists s)(list \<mapsto> (sv_kind K, cells'))\<rparr>)"
proof -
  have "(case p of (c, m) \<Rightarrow> thenS (put_cells K list c) (returnS m)) s = Inr (n, t) \<longleftrightarrow>
      (\<exists>c. p = (c, n) \<and> t = s\<lparr>st_lists := (st_lists s)(list \<mapsto> (sv_kind K, c))\<rparr>)" for p
    by (cases p) (auto simp: thenS_Inr)
  then show ?thesis unfolding release_items_def bindS_Inr by simp
qed

lemma length_release_cells:
  "release_cells size_of ps cells n = (cells', m) \<Longrightarrow> length cells' = length cells"
  by (induction ps arbitrary: cells n) (auto split: if_splits option.splits)

lemma release_cells_nth:
  "release_cells size_of ps cells n = (cells', m) \<Longrightarrow> i < length cells \<Longrightarrow>
     cells' ! i = (if i \<in> set ps then None else cells ! i)"
proof (induction ps arbitrary: cells n)
  case (Cons p ps)
  then show ?case
    by (cases "p < length cells"; cases "cells ! p") (auto simp: nth_list_update split: if_splits)
qed simp

end
