(* ===== verification/Session_Types.thy ===== *)
theory Session_Types
  imports Stream_Accumulator Store
begin

text \<open>
  What a session stores (\<open>session/config.rs\<close>, \<open>session/history\<close>, \<open>session/context\<close>,
  \<open>session/machine/state.rs\<close>, \<open>session/machine/outcome.rs\<close>, \<open>session/tool.rs\<close>,
  \<open>session/statistics.rs\<close>, \<open>session/error.rs\<close> and the record of \<open>session/persistence.rs\<close>),
  the kind each stored type is kept under, and the transaction all operations run in.

  Identifiers are numbers: an entry, an event, a generation and a model call are named by their
  position in the session's list of them. A list is named by its string. Times are milliseconds.
\<close>

type_synonym entry_id = nat
type_synonym event_id = nat
type_synonym generation_id = nat
type_synonym model_call_id = nat
type_synonym list_id = string
type_synonym timestamp = nat

subsection \<open>Tools\<close>

record tool_call =
  tc_call_id :: string
  tc_name :: string
  tc_arguments :: json

datatype tool_outcome =
    Success json
  | SuccessWithInput json "content_block list"
  | SuccessWithMetadata json json
  | Report string json json bool
  | Failed string
  | Cancelled
  | Unknown string

fun outcome_metadata :: "tool_outcome \<Rightarrow> json" where
  "outcome_metadata (Report _ _ metadata _) = metadata"
| "outcome_metadata (SuccessWithMetadata _ metadata) = metadata"
| "outcome_metadata _ = JNull"

fun encode_content :: "tool_outcome \<Rightarrow> json" where
  "encode_content (Success value) = JObject [(''status'', JString ''success''), (''output'', value)]"
| "encode_content (SuccessWithInput value _) =
     JObject [(''status'', JString ''success''), (''output'', value)]"
| "encode_content (SuccessWithMetadata value _) =
     JObject [(''status'', JString ''success''), (''output'', value)]"
| "encode_content (Report text output _ failed) =
     JObject [(''status'', JString (if failed then ''failed'' else ''success'')),
              (''output'', output), (''model_text'', JString text)]"
| "encode_content (Failed message) =
     JObject [(''status'', JString ''failed''), (''message'', JString message),
              (''model_text'', JString (''Failed: '' @ message))]"
| "encode_content Cancelled =
     JObject [(''status'', JString ''cancelled''),
              (''model_text'', JString ''Cancelled. The operation did not complete.'')]"
| "encode_content (Unknown message) =
     JObject [(''status'', JString ''unknown''), (''message'', JString message),
              (''model_text'', JString (''Outcome unknown: '' @ message @
                 ''. Inspect the resulting state before retrying; effects may already have occurred.''))]"

record tool_execution =
  te_call :: tool_call
  te_started :: bool
  te_outcome :: "tool_outcome option"

subsection \<open>Settings\<close>

datatype tool_mode = Serial | Parallel

record run_options =
  ro_tools :: tool_mode
  ro_background_tools_on_input :: bool

text \<open>An \<open>f64\<close> by its bits: sign, biased exponent (11 bits) and fraction (52 bits).\<close>

datatype f64 = F64 (f64_negative: bool) (f64_exponent: nat) (f64_fraction: nat)

definition is_finite :: "f64 \<Rightarrow> bool" where
  "is_finite x \<longleftrightarrow> f64_exponent x \<noteq> 2047"

text \<open>\<open>x <= 0.0\<close> for a number: a negative one, or either zero.\<close>

definition at_most_zero :: "f64 \<Rightarrow> bool" where
  "at_most_zero x \<longleftrightarrow> f64_negative x \<or> (f64_exponent x = 0 \<and> f64_fraction x = 0)"

record token_estimator =
  bytes_per_token :: f64
  image_tokens :: nat

text \<open>The default is \<open>4.0\<close> bytes per token, \<open>2 ^ 2\<close>.\<close>

definition default_estimator :: token_estimator where
  "default_estimator = \<lparr>bytes_per_token = F64 False 1025 0, image_tokens = 2048\<rparr>"

record compaction_config =
  cc_trigger_tokens :: nat
  cc_target_tokens :: nat
  cc_segment_tokens :: nat
  cc_estimator :: token_estimator

record session_config =
  cf_model :: string
  cf_stream :: bool
  cf_tools :: "tool list"
  cf_max_output_tokens :: "nat option"
  cf_reasoning :: "reasoning_config option"
  cf_cache :: "prompt_cache option"
  cf_run :: run_options
  cf_compaction :: "compaction_config option"

definition new_config :: "string \<Rightarrow> session_config" where
  "new_config model = \<lparr>cf_model = model, cf_stream = True, cf_tools = [],
     cf_max_output_tokens = None, cf_reasoning = None, cf_cache = None,
     cf_run = \<lparr>ro_tools = Parallel, ro_background_tools_on_input = False\<rparr>,
     cf_compaction = None\<rparr>"

subsection \<open>Errors\<close>

text \<open>
  \<open>Panic\<close> is not one of the source's errors: it stands for a panic (a slice out of range), which
  unwinds through the transaction and leaves no change behind either.
\<close>

datatype session_error =
    InvalidHistoryQuery string
  | Storage storage_error
  | Busy
  | UnexpectedPhase
  | InvalidInput
  | InvalidEntry entry_id
  | PendingInput entry_id
  | UnpairedTools
  | StaleGeneration
  | SuspendedError
  | InvalidCompaction string
  | Panic string

definition validate_compaction :: "compaction_config \<Rightarrow> session_error + unit" where
  "validate_compaction c =
     (if cc_target_tokens c = 0 \<or> cc_target_tokens c \<ge> cc_trigger_tokens c \<or> cc_segment_tokens c = 0
      then Inl (InvalidCompaction
        ''require 0 < target_tokens < trigger_tokens and segment_tokens > 0'')
      else if \<not> is_finite (bytes_per_token (cc_estimator c))
              \<or> at_most_zero (bytes_per_token (cc_estimator c))
      then Inl (InvalidCompaction ''bytes_per_token must be finite and positive'')
      else Inr ())"

definition validate_config :: "session_config \<Rightarrow> session_error + unit" where
  "validate_config c =
     (case cf_compaction c of Some compaction \<Rightarrow> validate_compaction compaction | None \<Rightarrow> Inr ())"

subsection \<open>Entries\<close>

datatype entry_origin =
    OriginImported | OriginInput | OriginModel | OriginTool | OriginInterrupted | OriginContext
  | OriginSummary

definition carries_call :: "entry_origin \<Rightarrow> bool" where
  "carries_call origin \<longleftrightarrow> origin \<in> {OriginModel, OriginInterrupted, OriginSummary}"

fun origin_as_str :: "entry_origin \<Rightarrow> string" where
  "origin_as_str OriginImported = ''Imported''"
| "origin_as_str OriginInput = ''Input''"
| "origin_as_str OriginModel = ''Model''"
| "origin_as_str OriginTool = ''Tool''"
| "origin_as_str OriginInterrupted = ''Interrupted''"
| "origin_as_str OriginContext = ''Context''"
| "origin_as_str OriginSummary = ''Summary''"

record entry =
  en_id :: entry_id
  en_origin :: entry_origin
  en_message :: message
  en_recorded_at :: timestamp
  en_model_call_id :: "model_call_id option"

subsection \<open>Outcomes and states\<close>

datatype run_outcome =
    Completed
  | Interrupted
  | ModelStopped response
  | RunFailed error
  | StreamFailed partial_response
  | ToolOutcomeUnknown

fun outcome_is_context_length_exceeded :: "run_outcome \<Rightarrow> bool" where
  "outcome_is_context_length_exceeded (RunFailed e) = is_context_length_exceeded e"
| "outcome_is_context_length_exceeded (ModelStopped r) = (resp_stop_reason r = ContextLengthExceeded)"
| "outcome_is_context_length_exceeded (StreamFailed partial) =
     (case pr_reason partial of Failed_by e \<Rightarrow> is_context_length_exceeded e | _ \<Rightarrow> False)"
| "outcome_is_context_length_exceeded _ = False"

datatype session_phase =
    PhaseIdle | PhaseReady | PhaseCallingModel | PhaseExecutingTools | PhaseSuspended
  | PhaseCompacting

datatype session_state =
    Idle
  | Ready nat bool
  | CallingModel nat
  | ExecutingTools nat list_id
  | Suspended event_id
  | Compacting session_state

fun get_phase :: "session_state \<Rightarrow> session_phase" where
  "get_phase Idle = PhaseIdle"
| "get_phase (Ready _ _) = PhaseReady"
| "get_phase (CallingModel _) = PhaseCallingModel"
| "get_phase (ExecutingTools _ _) = PhaseExecutingTools"
| "get_phase (Suspended _) = PhaseSuspended"
| "get_phase (Compacting _) = PhaseCompacting"

fun is_stable :: "session_state \<Rightarrow> bool" where
  "is_stable Idle = True"
| "is_stable (Ready _ _) = True"
| "is_stable (Suspended _) = True"
| "is_stable _ = False"

datatype session_action =
    CallModel request
  | ExecuteTools "tool_call list"
  | ActionFinished run_outcome

subsection \<open>Events and history\<close>

datatype compaction_reason = ReasonUsage | ReasonContextRejected | ReasonManual

datatype measurement_source = ProviderCount | Estimate | CalibratedEstimate

record token_measurement =
  tm_tokens :: nat
  tm_source :: measurement_source

datatype session_event =
    UpstreamCompactionStarted generation_id
  | UpstreamCompactionCompleted upstream_compaction
  | CompactionSummaryStarted nat nat token_measurement
  | CompactionSummary generation_id nat nat entry_id response
  | CompactionSummaryFailed run_outcome
  | CompactionTranslationStarted generation_id
  | CompactionTranslationFailed run_outcome
  | CompactionTranslationCompleted generation_id generation_id entry_id bool
  | ContextCompacted generation_id generation_id compaction_reason nat token_measurement
  | Created session_config
  | ContextEntryCreated entry_id
  | ResponseRejected response
  | MetadataUpdated json
  | ConfigUpdated session_config
  | InputMoved entry_id "entry_id option"
  | InputCancelled entry_id
  | MessageQueued entry_id
  | InputsConsumed nat nat
  | StateChanged session_phase session_phase
  | TurnStarted nat
  | ModelStream stream_event
  | ResponseAccepted nat nat nat stop_reason usage "account_state option"
  | ResponseInterrupted partial_response
  | ToolStarted tool_call
  | ToolFinished tool_call tool_outcome
  | StableBoundary nat
  | Finished run_outcome
  | GenerationPrepared generation_id list_id nat generation_id nat
  | GenerationActivated generation_id generation_id
  | Application json

definition belongs_to_call :: "session_event \<Rightarrow> bool" where
  "belongs_to_call event =
     (case event of
        Created _ \<Rightarrow> False
      | ContextEntryCreated _ \<Rightarrow> False
      | MetadataUpdated _ \<Rightarrow> False
      | ConfigUpdated _ \<Rightarrow> False
      | InputMoved _ _ \<Rightarrow> False
      | MessageQueued _ \<Rightarrow> False
      | InputsConsumed _ _ \<Rightarrow> False
      | GenerationPrepared _ _ _ _ _ \<Rightarrow> False
      | GenerationActivated _ _ \<Rightarrow> False
      | Application _ \<Rightarrow> False
      | _ \<Rightarrow> True)"

fun type_name :: "session_event \<Rightarrow> string" where
  "type_name (UpstreamCompactionStarted _) = ''UpstreamCompactionStarted''"
| "type_name (UpstreamCompactionCompleted _) = ''UpstreamCompactionCompleted''"
| "type_name (CompactionSummaryStarted _ _ _) = ''CompactionSummaryStarted''"
| "type_name (CompactionSummary _ _ _ _ _) = ''CompactionSummary''"
| "type_name (CompactionSummaryFailed _) = ''CompactionSummaryFailed''"
| "type_name (CompactionTranslationStarted _) = ''CompactionTranslationStarted''"
| "type_name (CompactionTranslationFailed _) = ''CompactionTranslationFailed''"
| "type_name (CompactionTranslationCompleted _ _ _ _) = ''CompactionTranslationCompleted''"
| "type_name (ContextCompacted _ _ _ _ _) = ''ContextCompacted''"
| "type_name (Created _) = ''Created''"
| "type_name (ContextEntryCreated _) = ''ContextEntryCreated''"
| "type_name (ResponseRejected _) = ''ResponseRejected''"
| "type_name (MetadataUpdated _) = ''MetadataUpdated''"
| "type_name (ConfigUpdated _) = ''ConfigUpdated''"
| "type_name (MessageQueued _) = ''MessageQueued''"
| "type_name (InputMoved _ _) = ''InputMoved''"
| "type_name (InputCancelled _) = ''InputCancelled''"
| "type_name (InputsConsumed _ _) = ''InputsConsumed''"
| "type_name (StateChanged _ _) = ''StateChanged''"
| "type_name (TurnStarted _) = ''TurnStarted''"
| "type_name (ModelStream _) = ''ModelStream''"
| "type_name (ResponseAccepted _ _ _ _ _ _) = ''ResponseAccepted''"
| "type_name (ResponseInterrupted _) = ''ResponseInterrupted''"
| "type_name (ToolStarted _) = ''ToolStarted''"
| "type_name (ToolFinished _ _) = ''ToolFinished''"
| "type_name (StableBoundary _) = ''StableBoundary''"
| "type_name (Finished _) = ''Finished''"
| "type_name (GenerationPrepared _ _ _ _ _) = ''GenerationPrepared''"
| "type_name (GenerationActivated _ _) = ''GenerationActivated''"
| "type_name (Application _) = ''Application''"

datatype history_item = ItemMessage entry_id | ItemEvent event_id

record history_record =
  hr_sequence :: nat
  hr_generation :: generation_id
  hr_item :: history_item
  hr_recorded_at :: timestamp
  hr_model_call_id :: "model_call_id option"

subsection \<open>Generations\<close>

datatype generation_status = GenActive | GenStandby | GenSealed

record generation =
  gn_id :: generation_id
  gn_status :: generation_status
  gn_entries :: list_id
  gn_config :: session_config
  gn_compaction_cursor :: nat
  gn_source :: "(generation_id \<times> nat) option"

definition summarized_end :: "generation \<Rightarrow> generation \<Rightarrow> nat option" where
  "summarized_end standby active =
     (case gn_source standby of
        Some (source, end) \<Rightarrow> if source = gn_id active then Some end else None
      | None \<Rightarrow> None)"

subsection \<open>Model calls\<close>

datatype model_call_status = CallRunning | CallCompleted | CallInterrupted | CallFailed

datatype model_call_purpose =
    PurposeConversation | PurposeCompactionSummary | PurposeUpstreamCompaction
  | PurposeCompactionTranslation

record model_call_record =
  mc_id :: model_call_id
  mc_purpose :: model_call_purpose
  mc_generation :: generation_id
  mc_model :: string
  mc_stream :: bool
  mc_input_entry_count :: nat
  mc_started_at :: timestamp
  mc_first_event_at :: "timestamp option"
  mc_finished_at :: "timestamp option"
  mc_elapsed_ms :: "nat option"
  mc_status :: model_call_status
  mc_usage :: usage
  mc_last_request_input_tokens :: "nat option"
  mc_last_request_estimated_tokens :: "nat option"
  mc_stop_reason :: "stop_reason option"
  mc_stream_recoveries :: nat

record call_observation =
  co_first_event_at :: "timestamp option"
  co_finished_at :: "timestamp option"
  co_elapsed_ms :: "nat option"
  co_usage :: usage
  co_last_request_input_tokens :: "nat option"
  co_last_request_estimated_tokens :: "nat option"
  co_stop_reason :: "stop_reason option"
  co_stream_recoveries :: nat

subsection \<open>The session record\<close>

record session_record =
  sr_next_generation_tools :: "tool list option"
  sr_next_generation_instructions :: "(string, string) btree"
  sr_metadata :: json
  sr_config :: session_config
  sr_state :: session_state
  sr_active :: generation_id
  sr_standby :: generation_id
  sr_entries :: list_id
  sr_events :: list_id
  sr_history :: list_id
  sr_generations :: list_id
  sr_queue :: list_id
  sr_queue_head :: nat
  sr_next_list_id :: nat
  sr_model_calls :: list_id
  sr_active_model_call :: "model_call_id option"

end
