(* ===== verification/Transaction.thy ===== *)
theory Transaction
  imports Session_Types
begin

text \<open>
  The transaction a session operation runs in, and its boundaries (\<open>session/persistence.rs\<close>):
  the kinds of the stored types, the owner's \<open>update\<close> and \<open>read\<close>, the sender's
  \<open>transact\<close>, list allocation and the loads that name what is missing.
\<close>

subsection \<open>Stored types\<close>

text \<open>A stored session value, by its type; the dictionaries carry the kinds of \<open>stored_kinds!\<close>.\<close>

datatype stored_data =
    StRecord session_record
  | StEntry entry
  | StEntryId entry_id
  | StEvent session_event
  | StHistory history_record
  | StGeneration generation
  | StCall model_call_record
  | StTool tool_execution

definition kind_record :: "(session_record, stored_data) stored_value" where
  "kind_record = \<lparr>sv_kind = ''wish_core::session::persistence::SessionRecord'', sv_enc = StRecord,
     sv_dec = (\<lambda>v. case v of StRecord x \<Rightarrow> Some x | _ \<Rightarrow> None)\<rparr>"

definition kind_entry :: "(entry, stored_data) stored_value" where
  "kind_entry = \<lparr>sv_kind = ''wish_core::session::history::entry::Entry'', sv_enc = StEntry,
     sv_dec = (\<lambda>v. case v of StEntry x \<Rightarrow> Some x | _ \<Rightarrow> None)\<rparr>"

definition kind_entry_id :: "(entry_id, stored_data) stored_value" where
  "kind_entry_id = \<lparr>sv_kind = ''wish_core::session::history::entry::EntryId'', sv_enc = StEntryId,
     sv_dec = (\<lambda>v. case v of StEntryId x \<Rightarrow> Some x | _ \<Rightarrow> None)\<rparr>"

definition kind_event :: "(session_event, stored_data) stored_value" where
  "kind_event = \<lparr>sv_kind = ''wish_core::session::history::event::SessionEvent'', sv_enc = StEvent,
     sv_dec = (\<lambda>v. case v of StEvent x \<Rightarrow> Some x | _ \<Rightarrow> None)\<rparr>"

definition kind_history :: "(history_record, stored_data) stored_value" where
  "kind_history = \<lparr>sv_kind = ''wish_core::session::history::HistoryRecord'', sv_enc = StHistory,
     sv_dec = (\<lambda>v. case v of StHistory x \<Rightarrow> Some x | _ \<Rightarrow> None)\<rparr>"

definition kind_generation :: "(generation, stored_data) stored_value" where
  "kind_generation = \<lparr>sv_kind = ''wish_core::session::context::generation::Generation'',
     sv_enc = StGeneration, sv_dec = (\<lambda>v. case v of StGeneration x \<Rightarrow> Some x | _ \<Rightarrow> None)\<rparr>"

definition kind_call :: "(model_call_record, stored_data) stored_value" where
  "kind_call = \<lparr>sv_kind = ''wish_core::session::statistics::ModelCallRecord'', sv_enc = StCall,
     sv_dec = (\<lambda>v. case v of StCall x \<Rightarrow> Some x | _ \<Rightarrow> None)\<rparr>"

definition kind_tool :: "(tool_execution, stored_data) stored_value" where
  "kind_tool = \<lparr>sv_kind = ''wish_core::session::machine::state::ToolExecution'', sv_enc = StTool,
     sv_dec = (\<lambda>v. case v of StTool x \<Rightarrow> Some x | _ \<Rightarrow> None)\<rparr>"

lemmas kind_defs = kind_record_def kind_entry_def kind_entry_id_def kind_event_def
  kind_history_def kind_generation_def kind_call_def kind_tool_def

interpretation record_type: stored_type kind_record
  by unfold_locales (auto simp: kind_defs split: stored_data.splits)
interpretation entry_type: stored_type kind_entry
  by unfold_locales (auto simp: kind_defs split: stored_data.splits)
interpretation entry_id_type: stored_type kind_entry_id
  by unfold_locales (auto simp: kind_defs split: stored_data.splits)
interpretation event_type: stored_type kind_event
  by unfold_locales (auto simp: kind_defs split: stored_data.splits)
interpretation history_type: stored_type kind_history
  by unfold_locales (auto simp: kind_defs split: stored_data.splits)
interpretation generation_type: stored_type kind_generation
  by unfold_locales (auto simp: kind_defs split: stored_data.splits)
interpretation call_type: stored_type kind_call
  by unfold_locales (auto simp: kind_defs split: stored_data.splits)
interpretation tool_type: stored_type kind_tool
  by unfold_locales (auto simp: kind_defs split: stored_data.splits)

lemma sv_enc_simps [simp]:
  "sv_enc kind_entry = StEntry" "sv_enc kind_entry_id = StEntryId" "sv_enc kind_event = StEvent"
  "sv_enc kind_history = StHistory" "sv_enc kind_generation = StGeneration"
  "sv_enc kind_call = StCall" "sv_enc kind_tool = StTool" "sv_enc kind_record = StRecord"
  by (simp_all add: kind_defs)

lemma sv_dec_simps [simp]:
  "sv_dec kind_entry (StEntry e) = Some e" "sv_dec kind_entry_id (StEntryId i) = Some i"
  "sv_dec kind_event (StEvent v) = Some v" "sv_dec kind_history (StHistory h) = Some h"
  "sv_dec kind_generation (StGeneration g) = Some g" "sv_dec kind_call (StCall c) = Some c"
  "sv_dec kind_tool (StTool t) = Some t" "sv_dec kind_record (StRecord r) = Some r"
  by (simp_all add: kind_defs)

lemma sv_dec_iff [simp]:
  "sv_dec kind_entry v = Some x0 \<longleftrightarrow> v = StEntry x0" "Some x0 = sv_dec kind_entry v \<longleftrightarrow> v = StEntry x0"
  "sv_dec kind_entry_id v = Some x1 \<longleftrightarrow> v = StEntryId x1" "Some x1 = sv_dec kind_entry_id v \<longleftrightarrow> v = StEntryId x1"
  "sv_dec kind_event v = Some x2 \<longleftrightarrow> v = StEvent x2" "Some x2 = sv_dec kind_event v \<longleftrightarrow> v = StEvent x2"
  "sv_dec kind_history v = Some x3 \<longleftrightarrow> v = StHistory x3" "Some x3 = sv_dec kind_history v \<longleftrightarrow> v = StHistory x3"
  "sv_dec kind_generation v = Some x4 \<longleftrightarrow> v = StGeneration x4" "Some x4 = sv_dec kind_generation v \<longleftrightarrow> v = StGeneration x4"
  "sv_dec kind_call v = Some x5 \<longleftrightarrow> v = StCall x5" "Some x5 = sv_dec kind_call v \<longleftrightarrow> v = StCall x5"
  "sv_dec kind_tool v = Some x6 \<longleftrightarrow> v = StTool x6" "Some x6 = sv_dec kind_tool v \<longleftrightarrow> v = StTool x6"
  "sv_dec kind_record v = Some x7 \<longleftrightarrow> v = StRecord x7" "Some x7 = sv_dec kind_record v \<longleftrightarrow> v = StRecord x7"
  by (auto simp: kind_defs split: stored_data.splits)

text \<open>No two stored types share a kind, so two lists of different types are different lists.\<close>

lemma kind_entry_neq [simp]:
  "sv_kind kind_entry \<noteq> sv_kind kind_entry_id" "sv_kind kind_entry_id \<noteq> sv_kind kind_entry"
  "sv_kind kind_entry \<noteq> sv_kind kind_event" "sv_kind kind_event \<noteq> sv_kind kind_entry"
  "sv_kind kind_entry \<noteq> sv_kind kind_history" "sv_kind kind_history \<noteq> sv_kind kind_entry"
  "sv_kind kind_entry \<noteq> sv_kind kind_generation" "sv_kind kind_generation \<noteq> sv_kind kind_entry"
  "sv_kind kind_entry \<noteq> sv_kind kind_call" "sv_kind kind_call \<noteq> sv_kind kind_entry"
  "sv_kind kind_entry \<noteq> sv_kind kind_tool" "sv_kind kind_tool \<noteq> sv_kind kind_entry"
  by (simp_all add: kind_defs)

lemma kind_event_neq [simp]:
  "sv_kind kind_event \<noteq> sv_kind kind_entry_id" "sv_kind kind_entry_id \<noteq> sv_kind kind_event"
  "sv_kind kind_event \<noteq> sv_kind kind_history" "sv_kind kind_history \<noteq> sv_kind kind_event"
  "sv_kind kind_event \<noteq> sv_kind kind_generation" "sv_kind kind_generation \<noteq> sv_kind kind_event"
  "sv_kind kind_event \<noteq> sv_kind kind_call" "sv_kind kind_call \<noteq> sv_kind kind_event"
  "sv_kind kind_event \<noteq> sv_kind kind_tool" "sv_kind kind_tool \<noteq> sv_kind kind_event"
  by (simp_all add: kind_defs)

lemma kind_history_neq [simp]:
  "sv_kind kind_history \<noteq> sv_kind kind_entry_id" "sv_kind kind_entry_id \<noteq> sv_kind kind_history"
  "sv_kind kind_history \<noteq> sv_kind kind_generation" "sv_kind kind_generation \<noteq> sv_kind kind_history"
  "sv_kind kind_history \<noteq> sv_kind kind_call" "sv_kind kind_call \<noteq> sv_kind kind_history"
  "sv_kind kind_history \<noteq> sv_kind kind_tool" "sv_kind kind_tool \<noteq> sv_kind kind_history"
  by (simp_all add: kind_defs)

lemma kind_entry_id_neq [simp]:
  "sv_kind kind_entry_id \<noteq> sv_kind kind_generation" "sv_kind kind_generation \<noteq> sv_kind kind_entry_id"
  "sv_kind kind_entry_id \<noteq> sv_kind kind_call" "sv_kind kind_call \<noteq> sv_kind kind_entry_id"
  "sv_kind kind_entry_id \<noteq> sv_kind kind_tool" "sv_kind kind_tool \<noteq> sv_kind kind_entry_id"
  "sv_kind kind_generation \<noteq> sv_kind kind_call" "sv_kind kind_call \<noteq> sv_kind kind_generation"
  "sv_kind kind_generation \<noteq> sv_kind kind_tool" "sv_kind kind_tool \<noteq> sv_kind kind_generation"
  "sv_kind kind_call \<noteq> sv_kind kind_tool" "sv_kind kind_tool \<noteq> sv_kind kind_call"
  by (simp_all add: kind_defs)

subsection \<open>The transaction\<close>

record tx =
  tx_record :: session_record
  tx_store :: "stored_data store"
  tx_key :: string
  tx_recorded_at :: timestamp

type_synonym 'a tx_op = "(session_error, tx, 'a) st"

text \<open>A call of the store; its error becomes the session's.\<close>

definition stored :: "(stored_data, 'a) store_op \<Rightarrow> 'a tx_op" where
  "stored m = (\<lambda>t. case m (tx_store t) of
       Inl e \<Rightarrow> Inl (Storage e)
     | Inr (x, s) \<Rightarrow> Inr (x, t\<lparr>tx_store := s\<rparr>))"

definition recordS :: "(session_record \<Rightarrow> 'a) \<Rightarrow> 'a tx_op" where
  "recordS f = getS (\<lambda>t. f (tx_record t))"

definition set_record :: "(session_record \<Rightarrow> session_record) \<Rightarrow> unit tx_op" where
  "set_record f = modifyS (\<lambda>t. t\<lparr>tx_record := f (tx_record t)\<rparr>)"

lemma stored_Inr [simp]:
  "stored m t = Inr (x, u) \<longleftrightarrow> (\<exists>s. m (tx_store t) = Inr (x, s) \<and> u = t\<lparr>tx_store := s\<rparr>)"
  by (auto simp: stored_def split: sum.splits)

lemma recordS_Inr [simp]: "recordS f t = Inr (x, u) \<longleftrightarrow> x = f (tx_record t) \<and> u = t"
  by (simp add: recordS_def)

lemma bindS_recordS: "bindS (recordS f) g t = g (f (tx_record t)) t"
  by (simp add: bindS_def recordS_def getS_def)

lemma set_record_Inr [simp]:
  "set_record f t = Inr (x, u) \<longleftrightarrow> u = t\<lparr>tx_record := f (tx_record t)\<rparr>"
  by (simp add: set_record_def)

text \<open>The elementary changes of a transaction's lists, for stating what operations do.\<close>

abbreviation tx_lists :: "tx \<Rightarrow> string \<Rightarrow> (string \<times> stored_data option list) option" where
  "tx_lists t \<equiv> st_lists (tx_store t)"

definition put_list :: "string \<Rightarrow> string \<Rightarrow> stored_data option list \<Rightarrow> tx \<Rightarrow> tx" where
  "put_list l k cells t =
     t\<lparr>tx_store := (tx_store t)\<lparr>st_lists := (tx_lists t)(l \<mapsto> (k, cells))\<rparr>\<rparr>"

lemma put_list_simps [simp]:
  "tx_lists (put_list l k cells t) = (tx_lists t)(l \<mapsto> (k, cells))"
  "tx_record (put_list l k cells t) = tx_record t"
  "tx_key (put_list l k cells t) = tx_key t"
  "tx_recorded_at (put_list l k cells t) = tx_recorded_at t"
  "st_objects (tx_store (put_list l k cells t)) = st_objects (tx_store t)"
  "st_index (tx_store (put_list l k cells t)) = st_index (tx_store t)"
  by (simp_all add: put_list_def)

subsection \<open>Lists and loads\<close>

definition allocate_list :: "('a, stored_data) stored_value \<Rightarrow> list_id tx_op" where
  "allocate_list K =
     bindS (recordS sr_next_list_id) (\<lambda>n.
     bindS (expectS (Storage InvalidRange) (checked_add n 1)) (\<lambda>next.
     thenS (set_record (\<lambda>r. r\<lparr>sr_next_list_id := next\<rparr>))
    (bindS (getS tx_key) (\<lambda>key.
     let list = key @ ''/lists/'' @ show_nat n in
     thenS (stored (create_list K list)) (returnS list)))))"

definition load_entry_at :: "list_id \<Rightarrow> entry_id \<Rightarrow> entry tx_op" where
  "load_entry_at entries id' =
     bindS (stored (get_item kind_entry entries id')) (expectS (InvalidEntry id'))"

definition load_event_at :: "list_id \<Rightarrow> event_id \<Rightarrow> session_event tx_op" where
  "load_event_at events id' =
     bindS (stored (get_item kind_event events id'))
       (expectS (Storage (Corrupt ''missing history event'')))"

definition load_entry :: "entry_id \<Rightarrow> entry tx_op" where
  "load_entry id' = bindS (recordS sr_entries) (\<lambda>entries. load_entry_at entries id')"

definition load_event :: "event_id \<Rightarrow> session_event tx_op" where
  "load_event id' = bindS (recordS sr_events) (\<lambda>events. load_event_at events id')"

definition with_model_call :: "model_call_id \<Rightarrow> 'a tx_op \<Rightarrow> 'a tx_op" where
  "with_model_call call apply =
     bindS (recordS sr_active_model_call) (\<lambda>active.
     thenS (set_record (\<lambda>r. r\<lparr>sr_active_model_call := Some call\<rparr>))
    (bindS apply (\<lambda>result.
     thenS (set_record (\<lambda>r. r\<lparr>sr_active_model_call := active\<rparr>)) (returnS result))))"

subsection \<open>Generations as stored\<close>

text \<open>\<open>session/context/generation.rs\<close>: a generation is edited by loading it, changing it and saving it.\<close>

definition load_generation :: "generation_id \<Rightarrow> generation tx_op" where
  "load_generation id' =
     bindS (recordS sr_generations) (\<lambda>generations.
     bindS (stored (get_item kind_generation generations id'))
       (expectS (Storage (Corrupt ''missing generation''))))"

definition save_generation :: "generation \<Rightarrow> unit tx_op" where
  "save_generation g =
     bindS (recordS sr_generations) (\<lambda>generations.
     stored (set_item kind_generation generations (gn_id g) g))"

definition append_generation ::
  "generation_status \<Rightarrow> list_id \<Rightarrow> nat \<Rightarrow> (generation_id \<times> nat) option \<Rightarrow> generation_id tx_op" where
  "append_generation status entries compaction_cursor source =
     bindS (recordS (\<lambda>r. r)) (\<lambda>r.
     bindS (stored (list_len kind_generation (sr_generations r))) (\<lambda>id'.
     thenS (stored (append_item kind_generation (sr_generations r)
              \<lparr>gn_id = id', gn_status = status, gn_entries = entries, gn_config = sr_config r,
               gn_compaction_cursor = compaction_cursor, gn_source = source\<rparr>))
       (returnS id')))"

text \<open>Loading an item that must be there.\<close>

lemma load_item_Inr:
  "bindS (stored (get_item K l p)) (\<lambda>found. bindS (expectS e found) g) s = Inr r \<longleftrightarrow>
     (\<exists>cells v x. tx_lists s l = Some (sv_kind K, cells) \<and> cell_at cells p = Some v
        \<and> sv_dec K v = Some x \<and> g x s = Inr r)"
proof (cases r)
  case (Pair y t)
  show ?thesis
  proof
    assume "bindS (stored (get_item K l p)) (\<lambda>found. bindS (expectS e found) g) s = Inr r"
    then obtain x cells where "tx_lists s l = Some (sv_kind K, cells)" "g x s = Inr r"
      "case cell_at cells p of None \<Rightarrow> False | Some v \<Rightarrow> sv_dec K v = Some x"
      by (auto simp: Pair st_Inr get_item_Inr split: option.splits)
    then show "\<exists>cells v x. tx_lists s l = Some (sv_kind K, cells) \<and> cell_at cells p = Some v
        \<and> sv_dec K v = Some x \<and> g x s = Inr r"
      by (auto split: option.splits)
  next
    assume "\<exists>cells v x. tx_lists s l = Some (sv_kind K, cells) \<and> cell_at cells p = Some v
        \<and> sv_dec K v = Some x \<and> g x s = Inr r"
    then obtain cells v x where c: "tx_lists s l = Some (sv_kind K, cells)" "cell_at cells p = Some v"
      "sv_dec K v = Some x" "g x s = Inr r" by blast
    then have found: "stored (get_item K l p) s = Inr (Some x, s)"
      by (simp add: get_item_Inr)
    show "bindS (stored (get_item K l p)) (\<lambda>found. bindS (expectS e found) g) s = Inr r"
      unfolding bindS_def found by (simp add: expectS_def returnS_def c(4))
  qed
qed

lemma load_item_return:
  "bindS (stored (get_item K l p)) (expectS e) s = Inr (x, t) \<longleftrightarrow>
     t = s \<and> (\<exists>cells v. tx_lists s l = Some (sv_kind K, cells) \<and> cell_at cells p = Some v
        \<and> sv_dec K v = Some x)"
proof -
  have eq: "expectS e = (\<lambda>found. bindS (expectS e found) returnS)"
    by (rule ext) (simp add: expectS_def failS_def bindS_def returnS_def fun_eq_iff split: option.split)
  show ?thesis unfolding arg_cong [OF eq, of "bindS (stored (get_item K l p))"] load_item_Inr by auto
qed

lemma load_entry_Inr:
  "load_entry i s = Inr (e, t) \<longleftrightarrow>
     t = s \<and> (\<exists>cells. tx_lists s (sr_entries (tx_record s)) = Some (sv_kind kind_entry, cells)
        \<and> cell_at cells i = Some (StEntry e))"
  by (auto simp: load_entry_def load_entry_at_def bindS_recordS load_item_return)

lemma load_event_Inr:
  "load_event i s = Inr (e, t) \<longleftrightarrow>
     t = s \<and> (\<exists>cells. tx_lists s (sr_events (tx_record s)) = Some (sv_kind kind_event, cells)
        \<and> cell_at cells i = Some (StEvent e))"
  by (auto simp: load_event_def load_event_at_def bindS_recordS load_item_return)

lemma load_generation_Inr:
  "load_generation i s = Inr (g, t) \<longleftrightarrow>
     t = s \<and> (\<exists>cells. tx_lists s (sr_generations (tx_record s)) = Some (sv_kind kind_generation, cells)
        \<and> cell_at cells i = Some (StGeneration g))"
  by (auto simp: load_generation_def bindS_recordS load_item_return)

lemma save_generation_Inr:
  "save_generation g s = Inr (u, t) \<longleftrightarrow>
     (\<exists>cells. tx_lists s (sr_generations (tx_record s)) = Some (sv_kind kind_generation, cells)
        \<and> gn_id g < length cells
        \<and> t = put_list (sr_generations (tx_record s)) (sv_kind kind_generation)
               (cells[gn_id g := Some (StGeneration g)]) s)"
  by (auto simp: save_generation_def bindS_Inr put_list_def)

lemma append_generation_Inr:
  "append_generation st l c src s = Inr (n, t) \<longleftrightarrow>
     (\<exists>cells. tx_lists s (sr_generations (tx_record s)) = Some (sv_kind kind_generation, cells)
        \<and> length cells < i64_max \<and> n = length cells
        \<and> t = put_list (sr_generations (tx_record s)) (sv_kind kind_generation)
               (cells @ [Some (StGeneration \<lparr>gn_id = length cells, gn_status = st, gn_entries = l,
                  gn_config = sr_config (tx_record s), gn_compaction_cursor = c, gn_source = src\<rparr>)]) s)"
  by (auto simp: append_generation_def st_Inr put_list_def)

subsection \<open>Transaction boundaries\<close>

text \<open>
  A session's owner holds the record in memory beside the store; \<open>se_queue_size\<close> is the queue
  length senders read without the store. A failed transaction leaves the store as it was, and the
  owner's record with it: an error carries no new state.
\<close>

record session =
  se_record :: session_record
  se_key :: string
  se_store :: "stored_data store"
  se_queue_size :: nat

type_synonym 'a session_op = "(session_error, session, 'a) st"

definition begin_tx :: "session_record \<Rightarrow> timestamp \<Rightarrow> session \<Rightarrow> tx" where
  "begin_tx r now s =
     \<lparr>tx_record = r, tx_store = se_store s, tx_key = se_key s, tx_recorded_at = now\<rparr>"

definition update :: "timestamp \<Rightarrow> 'a tx_op \<Rightarrow> 'a session_op" where
  "update now apply = (\<lambda>s.
     case bindS apply (\<lambda>result.
            bindS (recordS (\<lambda>r. r)) (\<lambda>r.
            thenS (stored (save_object kind_record (se_key s) r))
           (bindS (stored (list_len kind_entry_id (sr_queue r))) (\<lambda>queued.
              returnS (result, queued)))))
          (begin_tx (se_record s) now s) of
       Inl e \<Rightarrow> Inl e
     | Inr ((result, queued), t) \<Rightarrow>
         Inr (result, s\<lparr>se_record := tx_record t, se_store := tx_store t, se_queue_size := queued\<rparr>))"

definition read :: "timestamp \<Rightarrow> 'a tx_op \<Rightarrow> 'a session_op" where
  "read now apply = (\<lambda>s.
     case apply (begin_tx (se_record s) now s) of
       Inl e \<Rightarrow> Inl e
     | Inr (result, _) \<Rightarrow> Inr (result, s))"

text \<open>
  Records are compared as they serialize: equal up to the order of the fields of the JSON values in
  them.
\<close>

definition norm_tool :: "tool \<Rightarrow> tool" where
  "norm_tool t = t\<lparr>tool_input_schema := json_norm (tool_input_schema t)\<rparr>"

definition norm_config :: "session_config \<Rightarrow> session_config" where
  "norm_config c = c\<lparr>cf_tools := map norm_tool (cf_tools c)\<rparr>"

definition norm_record :: "session_record \<Rightarrow> session_record" where
  "norm_record r = r\<lparr>sr_next_generation_tools := map_option (map norm_tool) (sr_next_generation_tools r),
     sr_metadata := json_norm (sr_metadata r), sr_config := norm_config (sr_config r)\<rparr>"

text \<open>A sender works on the record as stored, and may not change it.\<close>

definition transact :: "timestamp \<Rightarrow> 'a tx_op \<Rightarrow> 'a session_op" where
  "transact now apply = (\<lambda>s.
     case load_object kind_record (se_key s) (se_store s) of
       Inl e \<Rightarrow> Inl (Storage e)
     | Inr (prior, _) \<Rightarrow>
        (case bindS apply (\<lambda>result.
                bindS (recordS (\<lambda>r. r)) (\<lambda>r.
                if norm_record r \<noteq> norm_record prior
                then failS (Storage (Corrupt ''a sender changed the session record''))
                else bindS (stored (list_len kind_entry_id (sr_queue r))) (\<lambda>queued.
                  returnS (result, queued))))
              (begin_tx prior now s) of
           Inl e \<Rightarrow> Inl e
         | Inr ((result, queued), t) \<Rightarrow>
             Inr (result, s\<lparr>se_store := tx_store t, se_queue_size := queued\<rparr>)))"

end
