(* ===== verification/History.thy ===== *)
theory History
  imports Transaction
begin

text \<open>
  Recording history (\<open>session/history.rs\<close>) and what the history index keeps of each record
  (\<open>session/history/index.rs\<close>, the names of \<open>session/history/query.rs\<close>). Every fact is a
  message or an event; recording it appends a history record whose sequence is its position, and one
  index row with the same sequence.
\<close>

subsection \<open>Names in the index\<close>

datatype message_type =
    TypeSystem | TypeDeveloper | TypeUser | TypeAssistant | TypeReasoning | TypeToolUse
  | TypeToolResult | TypeUpstreamCompaction

fun message_type_of :: "message \<Rightarrow> message_type" where
  "message_type_of (System _ _) = TypeSystem"
| "message_type_of (Developer _ _ _) = TypeDeveloper"
| "message_type_of (User _ _) = TypeUser"
| "message_type_of (Assistant _ _) = TypeAssistant"
| "message_type_of (Reasoning _ _ _ _ _ _ _) = TypeReasoning"
| "message_type_of (ToolUse _ _ _ _) = TypeToolUse"
| "message_type_of (ToolResult _ _ _ _) = TypeToolResult"
| "message_type_of (UpstreamCompaction _ _ _) = TypeUpstreamCompaction"

fun structure_name :: "message_type \<Rightarrow> string" where
  "structure_name TypeSystem = ''System''"
| "structure_name TypeDeveloper = ''Developer''"
| "structure_name TypeUser = ''User''"
| "structure_name TypeAssistant = ''Assistant''"
| "structure_name TypeReasoning = ''Reasoning''"
| "structure_name TypeToolUse = ''ToolUse''"
| "structure_name TypeToolResult = ''ToolResult''"
| "structure_name TypeUpstreamCompaction = ''UpstreamCompaction''"

fun message_type_as_str :: "message_type \<Rightarrow> string" where
  "message_type_as_str TypeSystem = ''system''"
| "message_type_as_str TypeDeveloper = ''developer''"
| "message_type_as_str TypeUser = ''user''"
| "message_type_as_str TypeAssistant = ''assistant''"
| "message_type_as_str TypeReasoning = ''reasoning''"
| "message_type_as_str TypeToolUse = ''tool_use''"
| "message_type_as_str TypeToolResult = ''tool_result''"
| "message_type_as_str TypeUpstreamCompaction = ''upstream_compaction''"

datatype history_kind = HistoryMessage | HistoryEvent

fun history_kind_as_str :: "history_kind \<Rightarrow> string" where
  "history_kind_as_str HistoryMessage = ''message''"
| "history_kind_as_str HistoryEvent = ''event''"

subsection \<open>Index rows\<close>

fun join_lines :: "string list \<Rightarrow> string" where
  "join_lines [] = []"
| "join_lines [x] = x"
| "join_lines (x # y # rest) = x @ [CHR 0x0A] @ join_lines (y # rest)"

definition extract_text :: "content_block list \<Rightarrow> string" where
  "extract_text blocks =
     join_lines (List.map_filter (\<lambda>b. case b of Text text \<Rightarrow> Some text | _ \<Rightarrow> None) blocks)"

text \<open>The tools of the history capability; their text repeats what history already holds.\<close>

definition is_history_tool :: "string \<Rightarrow> bool" where
  "is_history_tool name \<longleftrightarrow> name \<in> {''history_search'', ''history_read'', ''history_query''}"

fun message_text :: "message \<Rightarrow> string option \<times> rendered_text" where
  "message_text (System _ content) = (None, [Lit (extract_text content)])"
| "message_text (Developer _ _ content) = (None, [Lit (extract_text content)])"
| "message_text (User _ content) = (None, [Lit (extract_text content)])"
| "message_text (Assistant _ content) = (None, [Lit (extract_text content)])"
| "message_text (Reasoning _ _ _ plain shown _ _) =
     (None, [Lit (if plain = [] then shown else plain)])"
| "message_text (ToolUse _ _ name arguments) =
     (Some name, [Lit (name @ [CHR 0x0A]), Rendered arguments])"
| "message_text (ToolResult _ _ name content) =
     (Some name, [Lit (name @ [CHR 0x0A]), Rendered content])"
| "message_text (UpstreamCompaction _ _ _) = (None, [])"

definition fill_message_fields :: "entry \<Rightarrow> index_row \<Rightarrow> index_row" where
  "fill_message_fields e row =
     (case message_text (en_message e) of (tool, text) \<Rightarrow>
        row\<lparr>ix_item_kind := history_kind_as_str HistoryMessage,
            ix_origin := Some (origin_as_str (en_origin e)),
            ix_metadata := get_metadata (en_message e),
            ix_message_type := Some (message_type_as_str (message_type_of (en_message e))),
            ix_tool_name := tool,
            ix_text := (case tool of
                None \<Rightarrow> text
              | Some name \<Rightarrow> if is_history_tool name then [] else text)\<rparr>)"

definition fill_event_fields :: "session_event \<Rightarrow> index_row \<Rightarrow> index_row" where
  "fill_event_fields event row =
     (let row = row\<lparr>ix_item_kind := history_kind_as_str HistoryEvent,
                    ix_event_type := Some (type_name event)\<rparr>
      in case event of
          ToolStarted call \<Rightarrow> row\<lparr>ix_tool_name := Some (tc_name call)\<rparr>
        | ToolFinished call _ \<Rightarrow> row\<lparr>ix_tool_name := Some (tc_name call)\<rparr>
        | Finished (RunFailed e) \<Rightarrow> row\<lparr>ix_text := [Lit (error_to_string e)]\<rparr>
        | CompactionSummaryFailed (RunFailed e) \<Rightarrow> row\<lparr>ix_text := [Lit (error_to_string e)]\<rparr>
        | CompactionTranslationFailed (RunFailed e) \<Rightarrow> row\<lparr>ix_text := [Lit (error_to_string e)]\<rparr>
        | _ \<Rightarrow> row)"

datatype fact = FactMessage entry | FactEvent event_id session_event

fun fact_item :: "fact \<Rightarrow> history_item" where
  "fact_item (FactMessage e) = ItemMessage (en_id e)"
| "fact_item (FactEvent id' _) = ItemEvent id'"

definition history_row :: "history_record \<Rightarrow> fact \<Rightarrow> index_row" where
  "history_row record' what =
     (let row = \<lparr>ix_sequence = hr_sequence record', ix_recorded_at = hr_recorded_at record',
                 ix_generation = hr_generation record', ix_item_kind = [], ix_message_type = None,
                 ix_event_type = None, ix_origin = None, ix_model_call = hr_model_call_id record',
                 ix_tool_name = None, ix_metadata = JNull, ix_text = []\<rparr>
      in case what of
          FactMessage e \<Rightarrow> fill_message_fields e row
        | FactEvent _ event \<Rightarrow> fill_event_fields event row)"

definition index_record :: "list_id \<Rightarrow> history_record \<Rightarrow> fact \<Rightarrow> unit tx_op" where
  "index_record history record' what =
     stored (index_history_record history (history_row record' what))"

subsection \<open>Recording\<close>

definition record_history :: "fact \<Rightarrow> model_call_id option \<Rightarrow> unit tx_op" where
  "record_history what model_call_id =
     bindS (recordS (\<lambda>r. r)) (\<lambda>r.
     bindS (stored (list_len kind_history (sr_history r))) (\<lambda>sequence.
     bindS (getS tx_recorded_at) (\<lambda>now.
     let record' = \<lparr>hr_sequence = sequence, hr_generation = sr_active r, hr_item = fact_item what,
                    hr_recorded_at = now, hr_model_call_id = model_call_id\<rparr>
     in thenS (stored (append_item kind_history (sr_history r) record'))
          (index_record (sr_history r) record' what))))"

definition record_event :: "session_event \<Rightarrow> event_id tx_op" where
  "record_event event =
     bindS (recordS (\<lambda>r. r)) (\<lambda>r.
     let model_call_id = (if belongs_to_call event then sr_active_model_call r else None) in
     bindS (stored (append_item kind_event (sr_events r) event)) (\<lambda>id'.
     thenS (record_history (FactEvent id' event) model_call_id) (returnS id')))"

definition create_entry :: "message \<Rightarrow> entry_origin \<Rightarrow> entry tx_op" where
  "create_entry message origin =
     bindS (recordS (\<lambda>r. r)) (\<lambda>r.
     bindS (stored (list_len kind_entry (sr_entries r))) (\<lambda>id'.
     bindS (getS tx_recorded_at) (\<lambda>now.
     let e = \<lparr>en_id = id', en_origin = origin, en_message = message, en_recorded_at = now,
              en_model_call_id = (if carries_call origin then sr_active_model_call r else None)\<rparr>
     in thenS (stored (append_item kind_entry (sr_entries r) e)) (returnS e))))"

definition store_entry :: "message \<Rightarrow> entry_origin \<Rightarrow> entry_id tx_op" where
  "store_entry message origin = bindS (create_entry message origin) (\<lambda>e. returnS (en_id e))"

definition append_message :: "message \<Rightarrow> entry_origin \<Rightarrow> entry_id tx_op" where
  "append_message message origin =
     bindS (create_entry message origin) (\<lambda>e.
     bindS (recordS (\<lambda>r. r)) (\<lambda>r.
     bindS (load_generation (sr_active r)) (\<lambda>g.
     thenS (stored (append_item kind_entry_id (gn_entries g) (en_id e)))
    (thenS (record_history (FactMessage e) (sr_active_model_call r)) (returnS (en_id e))))))"

text \<open>Events the executor observed, each at its own time.\<close>

definition set_recorded_at :: "timestamp \<Rightarrow> unit tx_op" where
  "set_recorded_at at = modifyS (\<lambda>t. t\<lparr>tx_recorded_at := at\<rparr>)"

definition record_events :: "timestamp \<Rightarrow> (timestamp \<times> session_event) list \<Rightarrow> unit session_op" where
  "record_events now events =
     (if events = [] then returnS ()
      else update now (forS (\<lambda>(at, event). thenS (set_recorded_at at)
             (thenS (record_event event) (returnS ()))) events))"

subsection \<open>What recording leaves behind\<close>

lemma create_entry_Inr:
  "create_entry m g s = Inr (e, t) \<longleftrightarrow>
     (\<exists>cells. tx_lists s (sr_entries (tx_record s)) = Some (sv_kind kind_entry, cells)
        \<and> length cells < i64_max
        \<and> e = \<lparr>en_id = length cells, en_origin = g, en_message = m, en_recorded_at = tx_recorded_at s,
               en_model_call_id =
                 (if carries_call g then sr_active_model_call (tx_record s) else None)\<rparr>
        \<and> t = put_list (sr_entries (tx_record s)) (sv_kind kind_entry) (cells @ [Some (StEntry e)]) s)"
  by (auto simp: create_entry_def st_Inr Let_def put_list_def)

lemma store_entry_Inr:
  "store_entry m g s = Inr (n, t) \<longleftrightarrow> (\<exists>e. create_entry m g s = Inr (e, t) \<and> n = en_id e)"
  by (auto simp: store_entry_def bindS_Inr)

lemma record_history_Inr:
  "record_history w c s = Inr (u, t) \<longleftrightarrow>
     (\<exists>cells h. tx_lists s (sr_history (tx_record s)) = Some (sv_kind kind_history, cells)
        \<and> length cells < i64_max
        \<and> h = \<lparr>hr_sequence = length cells, hr_generation = sr_active (tx_record s),
               hr_item = fact_item w, hr_recorded_at = tx_recorded_at s, hr_model_call_id = c\<rparr>
        \<and> index_record (sr_history (tx_record s)) h w
             (put_list (sr_history (tx_record s)) (sv_kind kind_history)
                (cells @ [Some (StHistory h)]) s) = Inr (u, t))"
  by (auto simp: record_history_def st_Inr Let_def put_list_def)

end
