(* ===== verification/Statistics.thy ===== *)
theory Statistics
  imports History
begin

text \<open>
  The records of model calls (\<open>session/statistics/calls.rs\<close>): a call is recorded when it starts,
  and its record is completed once, by what its caller observed or by the end of its run.
\<close>

definition new_call_record ::
  "model_call_id \<Rightarrow> model_call_purpose \<Rightarrow> generation_id \<Rightarrow> string \<Rightarrow> bool \<Rightarrow> nat \<Rightarrow> timestamp
   \<Rightarrow> model_call_record" where
  "new_call_record id' purpose generation' model stream input_entry_count started_at =
     \<lparr>mc_id = id', mc_purpose = purpose, mc_generation = generation', mc_model = model,
      mc_stream = stream, mc_input_entry_count = input_entry_count, mc_started_at = started_at,
      mc_first_event_at = None, mc_finished_at = None, mc_elapsed_ms = None,
      mc_status = CallRunning, mc_usage = default_usage, mc_last_request_input_tokens = None,
      mc_last_request_estimated_tokens = None, mc_stop_reason = None, mc_stream_recoveries = 0\<rparr>"

definition finish_call ::
  "model_call_status \<Rightarrow> call_observation \<Rightarrow> model_call_record \<Rightarrow> model_call_record" where
  "finish_call status observation call =
     call\<lparr>mc_first_event_at := co_first_event_at observation,
          mc_finished_at := co_finished_at observation,
          mc_elapsed_ms := co_elapsed_ms observation,
          mc_usage := co_usage observation,
          mc_last_request_input_tokens := co_last_request_input_tokens observation,
          mc_last_request_estimated_tokens := co_last_request_estimated_tokens observation,
          mc_stop_reason := co_stop_reason observation,
          mc_stream_recoveries := co_stream_recoveries observation,
          mc_status := status\<rparr>"

definition abandon :: "model_call_status \<Rightarrow> timestamp \<Rightarrow> model_call_record \<Rightarrow> model_call_record" where
  "abandon status at call =
     call\<lparr>mc_status := status, mc_finished_at := Some at,
          mc_elapsed_ms := Some (at - mc_started_at call)\<rparr>"

definition new_model_call ::
  "model_call_purpose \<Rightarrow> bool \<Rightarrow> nat \<Rightarrow> timestamp \<Rightarrow> model_call_record tx_op" where
  "new_model_call purpose stream input_entry_count started_at =
     bindS (recordS (\<lambda>r. r)) (\<lambda>r.
     bindS (stored (list_len kind_call (sr_model_calls r))) (\<lambda>id'.
     returnS (new_call_record id' purpose (sr_active r) (cf_model (sr_config r)) stream
                input_entry_count started_at)))"

definition start_model_call :: "model_call_purpose \<Rightarrow> nat \<Rightarrow> unit tx_op" where
  "start_model_call purpose input_entry_count =
     bindS (recordS (\<lambda>r. r)) (\<lambda>r.
     bindS (getS tx_recorded_at) (\<lambda>now.
     let stream = (case purpose of
           PurposeConversation \<Rightarrow> cf_stream (sr_config r)
         | PurposeCompactionTranslation \<Rightarrow> True
         | PurposeCompactionSummary \<Rightarrow> False
         | PurposeUpstreamCompaction \<Rightarrow> False) in
     bindS (new_model_call purpose stream input_entry_count now) (\<lambda>call.
     thenS (stored (append_item kind_call (sr_model_calls r) call))
       (set_record (\<lambda>r. r\<lparr>sr_active_model_call := Some (mc_id call)\<rparr>)))))"

definition complete_model_call :: "call_observation \<Rightarrow> model_call_status \<Rightarrow> unit tx_op" where
  "complete_model_call observation status =
     bindS (recordS (\<lambda>r. r)) (\<lambda>r.
     bindS (expectS (Storage (Corrupt ''missing active model call'')) (sr_active_model_call r))
       (\<lambda>id'.
     bindS (stored (get_item kind_call (sr_model_calls r) id')) (\<lambda>found.
     bindS (expectS (Storage (Corrupt ''missing model call record'')) found) (\<lambda>call.
     stored (set_item kind_call (sr_model_calls r) id' (finish_call status observation call))))))"

definition session_start_model_call ::
  "timestamp \<Rightarrow> model_call_purpose \<Rightarrow> nat \<Rightarrow> unit session_op" where
  "session_start_model_call now purpose input_entry_count =
     update now (start_model_call purpose input_entry_count)"

definition complete_compaction_call ::
  "timestamp \<Rightarrow> call_observation \<Rightarrow> model_call_status \<Rightarrow> unit session_op" where
  "complete_compaction_call now observation status =
     update now (complete_model_call observation status)"

definition record_completed_compaction_call ::
  "timestamp \<Rightarrow> call_observation \<Rightarrow> nat \<Rightarrow> model_call_id session_op" where
  "record_completed_compaction_call now observation input_entry_count =
     update now (
       bindS (getS tx_recorded_at) (\<lambda>recorded_at.
       let started_at = (case (co_finished_at observation, co_elapsed_ms observation) of
             (Some finished, Some elapsed) \<Rightarrow> finished - elapsed
           | _ \<Rightarrow> recorded_at) in
       bindS (new_model_call PurposeCompactionSummary False input_entry_count started_at) (\<lambda>call.
       let call = finish_call CallCompleted observation call in
       bindS (recordS sr_model_calls) (\<lambda>list.
       thenS (stored (append_item kind_call list call)) (returnS (mc_id call))))))"

subsection \<open>What recording a call leaves behind\<close>

lemma new_call_record_simps [simp]:
  "mc_id (new_call_record i p g m st n at) = i" "mc_status (new_call_record i p g m st n at) = CallRunning"
  "mc_purpose (new_call_record i p g m st n at) = p"
  "mc_input_entry_count (new_call_record i p g m st n at) = n"
  by (simp_all add: new_call_record_def)

lemma start_model_call_Inr:
  "start_model_call p n s = Inr (u, t) \<Longrightarrow>
     \<exists>cells st. tx_lists s (sr_model_calls (tx_record s)) = Some (sv_kind kind_call, cells)
        \<and> t = (put_list (sr_model_calls (tx_record s)) (sv_kind kind_call)
               (cells @ [Some (StCall (new_call_record (length cells) p (sr_active (tx_record s))
                  (cf_model (sr_config (tx_record s))) st n (tx_recorded_at s)))]) s)
               \<lparr>tx_record := (tx_record s)\<lparr>sr_active_model_call := Some (length cells)\<rparr>\<rparr>"
  unfolding start_model_call_def new_model_call_def by (auto simp: st_Inr Let_def put_list_def)

lemma complete_model_call_Inr:
  "complete_model_call ob st s = Inr (u, t) \<longleftrightarrow>
     (\<exists>n cells call. sr_active_model_call (tx_record s) = Some n
        \<and> tx_lists s (sr_model_calls (tx_record s)) = Some (sv_kind kind_call, cells)
        \<and> cell_at cells n = Some (StCall call)
        \<and> t = put_list (sr_model_calls (tx_record s)) (sv_kind kind_call)
               (cells[n := Some (StCall (finish_call st ob call))]) s)"
proof -
  have "length cells > n" if "cell_at cells n = Some v" for cells n and v :: stored_data
    using that by (simp add: cell_at_def split: if_splits)
  then show ?thesis
    by (cases "sr_active_model_call (tx_record s)")
      (auto simp: complete_model_call_def bindS_recordS load_item_Inr put_list_def)
qed

end
