(* ===== verification/Frames.thy ===== *)
theory Frames
  imports Statistics
begin

text \<open>
  What an operation leaves alone. \<open>only Ks\<close> relates two states of a transaction that differ in
  lists of the kinds \<open>Ks\<close> and in the history index at most; since a list is only reached through
  its kind, that separates the queue and the contexts from the logs without naming a list.
\<close>

definition only :: "string set \<Rightarrow> tx \<Rightarrow> tx \<Rightarrow> bool" where
  "only Ks s t \<longleftrightarrow>
     (\<forall>l k cells. tx_lists s l = Some (k, cells) \<longrightarrow> k \<notin> Ks \<longrightarrow> tx_lists t l = Some (k, cells))
     \<and> tx_record t = tx_record s \<and> tx_key t = tx_key s \<and> tx_recorded_at t = tx_recorded_at s
     \<and> st_objects (tx_store t) = st_objects (tx_store s)"

interpretation only: step_order "only Ks" for Ks
proof unfold_locales
  fix s t u
  assume "only Ks s t" and "only Ks t u"
  then show "only Ks s u" unfolding only_def by metis
qed (simp add: only_def)

lemma only_lists: "only Ks s t \<Longrightarrow> tx_lists s l = Some (k, cells) \<Longrightarrow> k \<notin> Ks \<Longrightarrow> tx_lists t l = Some (k, cells)"
  unfolding only_def by blast

lemma only_record: "only Ks s t \<Longrightarrow> tx_record t = tx_record s"
  unfolding only_def by blast

lemma only_rest:
  "only Ks s t \<Longrightarrow> tx_key t = tx_key s" "only Ks s t \<Longrightarrow> tx_recorded_at t = tx_recorded_at s"
  unfolding only_def by blast+

lemma steps_only_mono: "steps (only A) m \<Longrightarrow> A \<subseteq> B \<Longrightarrow> steps (only B) m"
  unfolding steps_def only_def by (meson subset_iff)

lemma only_put_list: "tx_lists s l = Some (k, cells) \<Longrightarrow> k \<in> Ks \<Longrightarrow> only Ks s (put_list l k cells' s)"
  unfolding only_def by auto

lemma only_reads [intro!, simp]:
  "steps (only Ks) (stored (list_len K l))" "steps (only Ks) (stored (get_item K l p))"
  "steps (only Ks) (stored (read_from K l p))" "steps (only Ks) (stored (read_page K l p n))"
  "steps (only Ks) (recordS f)"
  by (auto intro!: stepsI simp: get_item_Inr read_from_Inr only.refl dest!: read_page_Inr)

lemma only_appends [intro]:
  "sv_kind K \<in> Ks \<Longrightarrow> steps (only Ks) (stored (append_items K l xs))"
  "sv_kind K \<in> Ks \<Longrightarrow> steps (only Ks) (stored (append_item K l x))"
  "sv_kind K \<in> Ks \<Longrightarrow> steps (only Ks) (stored (set_item K l p x))"
  "sv_kind K \<in> Ks \<Longrightarrow> steps (only Ks) (stored (remove_item K l p))"
  by (auto intro!: stepsI only_put_list [unfolded put_list_def] simp: append_items_Inr)

lemma only_index [intro!, simp]: "steps (only Ks) (stored (index_history_record l row))"
  by (rule stepsI)
    (auto simp: index_history_record_def st_Inr to_integer_def only_def split: if_splits option.splits)

lemma only_record_history: "steps (only {sv_kind kind_history}) (record_history w c)"
  unfolding record_history_def index_record_def Let_def by auto

lemma only_record_event: "steps (only {sv_kind kind_event, sv_kind kind_history}) (record_event ev)"
  unfolding record_event_def Let_def
  by (auto intro!: steps_only_mono [OF only_record_history])

lemma only_create_entry: "steps (only {sv_kind kind_entry}) (create_entry m g)"
  by (rule stepsI) (auto simp: create_entry_Inr intro!: only_put_list)

lemma only_store_entry: "steps (only {sv_kind kind_entry}) (store_entry m g)"
  unfolding store_entry_def by (auto intro: only_create_entry)

text \<open>The event recorded is the last one, and its history record names it.\<close>

lemma record_history_appends:
  assumes "record_history w c s = Inr (u, t)"
  shows "\<exists>cells h. tx_lists s (sr_history (tx_record s)) = Some (sv_kind kind_history, cells)
    \<and> h = \<lparr>hr_sequence = length cells, hr_generation = sr_active (tx_record s),
           hr_item = fact_item w, hr_recorded_at = tx_recorded_at s, hr_model_call_id = c\<rparr>
    \<and> tx_lists t = (tx_lists s)(sr_history (tx_record s) \<mapsto>
         (sv_kind kind_history, cells @ [Some (StHistory h)]))"
proof -
  from assms obtain cells h where c: "tx_lists s (sr_history (tx_record s)) = Some (sv_kind kind_history, cells)"
    and h: "h = \<lparr>hr_sequence = length cells, hr_generation = sr_active (tx_record s),
           hr_item = fact_item w, hr_recorded_at = tx_recorded_at s, hr_model_call_id = c\<rparr>"
    and t: "index_record (sr_history (tx_record s)) h w
      (put_list (sr_history (tx_record s)) (sv_kind kind_history) (cells @ [Some (StHistory h)]) s)
        = Inr (u, t)"
    unfolding record_history_Inr by blast
  from t have "tx_lists t = (tx_lists s)(sr_history (tx_record s) \<mapsto>
      (sv_kind kind_history, cells @ [Some (StHistory h)]))"
    by (auto simp: index_record_def index_history_record_def st_Inr to_integer_def
        split: if_splits option.splits)
  with c h show ?thesis by blast
qed

lemma record_event_appends:
  assumes "record_event ev s = Inr (n, t)"
  shows "\<exists>cells. tx_lists s (sr_events (tx_record s)) = Some (sv_kind kind_event, cells)
    \<and> n = length cells
    \<and> tx_lists t (sr_events (tx_record s)) = Some (sv_kind kind_event, cells @ [Some (StEvent ev)])"
proof -
  from assms obtain cells u where c: "tx_lists s (sr_events (tx_record s)) = Some (sv_kind kind_event, cells)"
      "n = length cells"
    and u: "record_history (FactEvent n ev) (if belongs_to_call ev then sr_active_model_call (tx_record s) else None)
      (put_list (sr_events (tx_record s)) (sv_kind kind_event) (cells @ [Some (StEvent ev)]) s) = Inr (u, t)"
    by (auto simp: record_event_def st_Inr Let_def put_list_def)
  from stepsD [OF only_record_history u]
  have "tx_lists t (sr_events (tx_record s)) = Some (sv_kind kind_event, cells @ [Some (StEvent ev)])"
    by (rule only_lists) simp_all
  with c show ?thesis by blast
qed

end
