(* ===== verification/Validation.thy ===== *)
theory Validation
  imports Session_Types
begin

text \<open>
  Which messages a session takes as input, and the pairing of tool calls with their results
  (\<open>session/context/validation.rs\<close>). The calls not answered yet are a map from call id to tool
  name, kept as an association list.
\<close>

fun is_input :: "message \<Rightarrow> bool" where
  "is_input (User _ _) = True"
| "is_input (System _ _) = True"
| "is_input (Developer _ _ _) = True"
| "is_input _ = False"

definition is_valid_tool_use :: "string \<Rightarrow> string \<Rightarrow> json \<Rightarrow> bool" where
  "is_valid_tool_use call_id name arguments \<longleftrightarrow> call_id \<noteq> [] \<and> name \<noteq> [] \<and> is_object arguments"

type_synonym pending_calls = "(string \<times> string) list"

fun accept :: "pending_calls \<Rightarrow> message \<Rightarrow> session_error + pending_calls" where
  "accept pending (ToolUse _ call_id name arguments) =
     (if \<not> is_valid_tool_use call_id name arguments \<or> map_of pending call_id \<noteq> None
      then Inl UnpairedTools
      else Inr ((call_id, name) # pending))"
| "accept pending (ToolResult _ call_id name _) =
     (if map_of pending call_id \<noteq> Some name then Inl UnpairedTools
      else Inr (filter (\<lambda>p. fst p \<noteq> call_id) pending))"
| "accept pending message =
     (if is_input message \<and> pending \<noteq> [] then Inl UnpairedTools else Inr pending)"

definition finish_pairs :: "pending_calls \<Rightarrow> session_error + unit" where
  "finish_pairs pending = (if pending = [] then Inr () else Inl UnpairedTools)"

definition validate_tool_pairs :: "message list \<Rightarrow> session_error + unit" where
  "validate_tool_pairs messages = bindR (foldR accept messages []) finish_pairs"

subsection \<open>Paired conversations\<close>

definition pairs_ok :: "message list \<Rightarrow> bool" where
  "pairs_ok ms \<longleftrightarrow> foldR accept ms [] = Inr []"

lemma validate_tool_pairs_iff: "validate_tool_pairs ms = Inr () \<longleftrightarrow> pairs_ok ms"
  by (auto simp: validate_tool_pairs_def pairs_ok_def finish_pairs_def bindR_Inr_iff)

lemma pairs_ok_append: "pairs_ok xs \<Longrightarrow> foldR accept (xs @ ys) [] = foldR accept ys []"
  by (simp add: pairs_ok_def foldR_append)

lemma accept_inputs: "list_all is_input ms \<Longrightarrow> foldR accept ms [] = Inr []"
proof (induction ms)
  case (Cons m ms)
  then show ?case by (cases m) auto
qed simp

lemma map_of_rev_distinct: "distinct (map fst xs) \<Longrightarrow> map_of (rev xs) = map_of xs"
  by (subst map_of_inject_set) (simp_all add: rev_map [symmetric])

text \<open>
  The calls a message list makes, and the results that answer a list of calls. Answering every call
  once, in any order of the calls still open, leaves none open.
\<close>

fun call_of :: "message \<Rightarrow> (string \<times> string) list" where
  "call_of (ToolUse _ i n _) = [(i, n)]"
| "call_of _ = []"

fun valid_output :: "message \<Rightarrow> bool" where
  "valid_output (ToolUse _ i n a) = is_valid_tool_use i n a"
| "valid_output (ToolResult _ _ _ _) = False"
| "valid_output m = (\<not> is_input m)"

lemma accept_outputs:
  "list_all valid_output ms \<Longrightarrow> distinct (map fst (concat (map call_of ms)) @ map fst p) \<Longrightarrow>
     foldR accept ms p = Inr (rev (concat (map call_of ms)) @ p)"
proof (induction ms arbitrary: p)
  case (Cons m ms)
  show ?case
  proof (cases m)
    case (ToolUse md i n a)
    with Cons.prems have "map_of p i = None" "is_valid_tool_use i n a" by (auto simp: map_of_eq_None_iff)
    moreover have "foldR accept ms ((i, n) # p) = Inr (rev (concat (map call_of ms)) @ (i, n) # p)"
      using Cons.prems ToolUse by (intro Cons.IH) auto
    ultimately show ?thesis using ToolUse by simp
  qed (use Cons in auto)
qed simp

definition answers :: "(string \<times> string) list \<Rightarrow> message list \<Rightarrow> bool" where
  "answers = list_all2 (\<lambda>(i, n) m. \<exists>md c. m = ToolResult md i n c)"

lemma accept_answers:
  assumes "answers ps rs" and "map_of p = map_of ps" and "distinct (map fst ps)"
  shows "foldR accept rs p = Inr []"
  using assms unfolding answers_def
proof (induction ps rs arbitrary: p rule: list_all2_induct)
  case Nil
  then show ?case by (cases p) (auto simp: fun_eq_iff split: if_splits)
next
  case (Cons x ps m rs)
  obtain i n where x: "x = (i, n)" by (cases x)
  let ?p = "filter (\<lambda>y. fst y \<noteq> i) p"
  have p: "map_of p = (map_of ps)(i \<mapsto> n)" using Cons.prems(1) x by (simp add: fun_eq_iff)
  have "map_of ps i = None" using Cons.prems(2) x by (simp add: map_of_eq_None_iff)
  moreover have "map_of ?p k = (if k = i then None else map_of p k)" for k
    by (induction p) auto
  ultimately have "map_of ?p = map_of ps" unfolding p by (auto simp: fun_eq_iff)
  then have "foldR accept rs ?p = Inr []" using Cons.prems(2) x by (intro Cons.IH) simp_all
  with Cons.hyps(1) p x show ?case by auto
qed

lemma pairs_ok_turn:
  assumes "list_all valid_output ms" and "distinct (map fst (concat (map call_of ms)))"
    and "answers (concat (map call_of ms)) rs"
  shows "pairs_ok (ms @ rs)"
  using accept_outputs [of ms "[]"] accept_answers [OF assms(3) map_of_rev_distinct] assms
  by (simp add: pairs_ok_def foldR_append)

end
