(* ===== verification/Queue.thy ===== *)
theory Queue
  imports Frames Validation
begin

text \<open>
  Durable input (\<open>session/queue.rs\<close>): the queue senders append to, reordering and cancelling what
  waits in it, and its consumption into the active context at a stable boundary. Positions below the
  queue head have been consumed.
\<close>

subsection \<open>The queue inside a transaction\<close>

definition instruction_update :: "message \<Rightarrow> (string \<times> string) option" where
  "instruction_update message =
     (case message of
        System metadata _ \<Rightarrow>
          (let update = json_index metadata ''next_generation_instruction'' in
           case (as_str (json_index update ''source''), as_str (json_index update ''text'')) of
             (Some source, Some text) \<Rightarrow> Some (source, text)
           | _ \<Rightarrow> None)
      | _ \<Rightarrow> None)"

definition remember_instruction_update :: "message \<Rightarrow> unit tx_op" where
  "remember_instruction_update message =
     (case instruction_update message of
        Some (source, text) \<Rightarrow> set_record (\<lambda>r. r\<lparr>sr_next_generation_instructions :=
          bt_insert source text (sr_next_generation_instructions r)\<rparr>)
      | None \<Rightarrow> returnS ())"

definition append_input :: "message \<Rightarrow> entry_id tx_op" where
  "append_input message =
     bindS (store_entry message OriginInput) (\<lambda>e.
     bindS (recordS sr_queue) (\<lambda>queue.
     thenS (stored (append_item kind_entry_id queue e))
    (thenS (record_event (MessageQueued e)) (returnS e))))"

definition consume_input :: "generation \<Rightarrow> entry_id \<Rightarrow> unit tx_op" where
  "consume_input g id' =
     bindS (load_entry id') (\<lambda>e.
     thenS (remember_instruction_update (en_message e))
    (thenS (stored (append_item kind_entry_id (gn_entries g) (en_id e)))
    (bindS (recordS sr_active_model_call) (\<lambda>call.
       record_history (FactMessage e) call))))"

definition consume_inputs :: "nat \<Rightarrow> unit tx_op" where
  "consume_inputs queue_end =
     bindS (recordS (\<lambda>r. r)) (\<lambda>r.
     let queue_start = sr_queue_head r in
     bindS (load_generation (sr_active r)) (\<lambda>g.
     bindS (stored (read_from kind_entry_id (sr_queue r) queue_start)) (\<lambda>ids.
     thenS (forS (consume_input g) ids)
    (thenS (set_record (\<lambda>r. r\<lparr>sr_queue_head := queue_end\<rparr>))
    (if queue_start \<noteq> queue_end
     then thenS (record_event (InputsConsumed queue_start queue_end)) (returnS ())
     else returnS ())))))"

definition pending_ids :: "entry_id list tx_op" where
  "pending_ids =
     bindS (recordS (\<lambda>r. r)) (\<lambda>r. stored (read_from kind_entry_id (sr_queue r) (sr_queue_head r)))"

text \<open>The order after a move: the entry before its target, or at the end.\<close>

definition move_in :: "entry_id list \<Rightarrow> nat \<Rightarrow> entry_id \<Rightarrow> entry_id option \<Rightarrow> entry_id list" where
  "move_in original source e prior =
     (let pending = remove_at source original;
          destination = (case Option.bind prior (\<lambda>target. position (\<lambda>x. x = target) pending) of
              Some i \<Rightarrow> i
            | None \<Rightarrow> length pending)
      in insert_at destination e pending)"

text \<open>Writes back the positions whose entry changed.\<close>

definition write_pending :: "list_id \<Rightarrow> nat \<Rightarrow> entry_id list \<Rightarrow> entry_id list \<Rightarrow> unit tx_op" where
  "write_pending queue head original pending =
     forS (\<lambda>(offset, e). if e \<noteq> original ! offset
             then stored (set_item kind_entry_id queue (head + offset) e) else returnS ())
       (enumerate 0 pending)"

definition move_pending :: "entry_id \<Rightarrow> entry_id option \<Rightarrow> unit tx_op" where
  "move_pending e prior =
     bindS (recordS (\<lambda>r. r)) (\<lambda>r.
     bindS pending_ids (\<lambda>original.
     bindS (expectS (InvalidEntry e) (position (\<lambda>x. x = e) original)) (\<lambda>source.
     if (case prior of Some target \<Rightarrow> target \<notin> set original | None \<Rightarrow> False)
     then failS (InvalidEntry (the prior))
     else if prior = Some e then returnS ()
     else let pending = move_in original source e prior in
       if pending = original then returnS ()
       else thenS (write_pending (sr_queue r) (sr_queue_head r) original pending)
             (thenS (record_event (InputMoved e prior)) (returnS ())))))"

definition cancel_pending :: "entry_id \<Rightarrow> unit tx_op" where
  "cancel_pending e =
     bindS (recordS (\<lambda>r. r)) (\<lambda>r.
     bindS pending_ids (\<lambda>pending.
     bindS (expectS (InvalidEntry e) (position (\<lambda>x. x = e) pending)) (\<lambda>offset.
     thenS (stored (remove_item kind_entry_id (sr_queue r) (sr_queue_head r + offset)))
    (thenS (record_event (InputCancelled e)) (returnS ())))))"

subsection \<open>Senders\<close>

definition enqueue_message :: "timestamp \<Rightarrow> message \<Rightarrow> entry_id session_op" where
  "enqueue_message now message =
     (if \<not> is_input message then failS InvalidInput else transact now (append_input message))"

definition record_application_event :: "timestamp \<Rightarrow> json \<Rightarrow> event_id session_op" where
  "record_application_event now value = transact now (record_event (Application value))"

definition record_application_input :: "timestamp \<Rightarrow> json \<Rightarrow> message \<Rightarrow> entry_id session_op" where
  "record_application_input now event message =
     (if \<not> is_input message then failS InvalidInput
      else transact now (thenS (record_event (Application event)) (append_input message)))"

definition instruction_notice :: "string \<Rightarrow> string \<Rightarrow> string \<Rightarrow> message" where
  "instruction_notice source text notice =
     System (JObject [(''next_generation_instruction'',
               JObject [(''source'', JString source), (''text'', JString text)])])
       [Text notice]"

definition enqueue_instruction_update ::
  "timestamp \<Rightarrow> string \<Rightarrow> string \<Rightarrow> string \<Rightarrow> entry_id session_op" where
  "enqueue_instruction_update now source text notice =
     enqueue_message now (instruction_notice source text notice)"

definition move_queued_input :: "timestamp \<Rightarrow> entry_id \<Rightarrow> entry_id option \<Rightarrow> unit session_op" where
  "move_queued_input now e prior = transact now (move_pending e prior)"

definition cancel_queued_input :: "timestamp \<Rightarrow> entry_id \<Rightarrow> unit session_op" where
  "cancel_queued_input now e = transact now (cancel_pending e)"

subsection \<open>The queue as its clients see it\<close>

text \<open>\<open>waiting q t\<close>: the inputs waiting in the queue are \<open>q\<close>, in the order they will be consumed.\<close>

definition waiting :: "entry_id list \<Rightarrow> tx \<Rightarrow> bool" where
  "waiting q t \<longleftrightarrow>
     (\<exists>cells. tx_lists t (sr_queue (tx_record t)) = Some (sv_kind kind_entry_id, cells)
        \<and> sr_queue_head (tx_record t) \<le> length cells
        \<and> drop (sr_queue_head (tx_record t)) cells = map (Some \<circ> StEntryId) q)"

lemma queuedE:
  assumes "waiting q t"
  obtains cells where "tx_lists t (sr_queue (tx_record t)) = Some (sv_kind kind_entry_id, cells)"
    "sr_queue_head (tx_record t) \<le> length cells"
    "drop (sr_queue_head (tx_record t)) cells = map (Some \<circ> StEntryId) q"
  using assms unfolding waiting_def by blast

lemma waiting_unique: "waiting q t \<Longrightarrow> waiting q' t \<Longrightarrow> q' = q"
proof -
  have "inj (Some \<circ> StEntryId)" by (auto simp: inj_def)
  then show "waiting q t \<Longrightarrow> waiting q' t \<Longrightarrow> q' = q"
    unfolding waiting_def by (auto dest: map_injective)
qed

lemma map_filter_ids [simp]: "List.map_filter (\<lambda>c. c) (map (Some \<circ> f) xs) = map f xs"
  by (simp add: List.map_filter_def comp_def)

lemma map_Some_inj: "map Some xs = map Some ys \<longleftrightarrow> xs = ys"
  by (simp add: inj_map_eq_map)

lemma read_ids:
  assumes "tx_lists s l = Some (sv_kind kind_entry_id, cells)" and "drop n cells = map (Some \<circ> StEntryId) q"
  shows "stored (read_from kind_entry_id l n) s = Inr (q, s)"
proof -
  have "map (sv_dec kind_entry_id) (map StEntryId q) = map Some q" by simp
  with assms show ?thesis by (simp add: read_from_Inr del: map_map)
qed

lemma pending_ids_waiting: "waiting q s \<Longrightarrow> pending_ids s = Inr (q, s)"
  unfolding pending_ids_def bindS_recordS by (erule queuedE) (erule (1) read_ids)

lemma waiting_only: "waiting q s \<Longrightarrow> only Ks s t \<Longrightarrow> sv_kind kind_entry_id \<notin> Ks \<Longrightarrow> waiting q t"
  by (erule queuedE) (auto simp: waiting_def only_record dest: only_lists)

lemma waiting_append:
  assumes "waiting q s" and "stored (append_item kind_entry_id (sr_queue (tx_record s)) e) s = Inr (n, t)"
  shows "waiting (q @ [e]) t"
  using assms unfolding waiting_def by auto

lemma valid_waiting_only:
  "steps (only Ks) m \<Longrightarrow> sv_kind kind_entry_id \<notin> Ks \<Longrightarrow> valid (waiting q) m (\<lambda>_. waiting q)"
  by (auto intro!: validI dest: stepsD waiting_only)

lemmas waiting_recorded =
  valid_waiting_only [OF only_record_event, simplified] valid_waiting_only [OF only_store_entry, simplified]

lemma valid_queue_name:
  "(\<And>l. valid (\<lambda>s. P s \<and> sr_queue (tx_record s) = l) (f l) Q) \<Longrightarrow> valid P (bindS (recordS sr_queue) f) Q"
  by (auto simp: valid_def bindS_recordS)

lemma valid_record:
  "(\<And>r. valid (\<lambda>s. P s \<and> tx_record s = r) (f r) Q) \<Longrightarrow> valid P (bindS (recordS (\<lambda>r. r)) f) Q"
  by (auto simp: valid_def bindS_recordS)

text \<open>Enqueueing appends the new entry's id.\<close>

lemma waiting_append_input: "valid (waiting q) (append_input m) (\<lambda>e. waiting (q @ [e]))"
  unfolding append_input_def
  by (intro valid_bindS [OF waiting_recorded(2)] valid_queue_name valid_thenS [OF _ valid_thenS
        [OF waiting_recorded(1) valid_returnS]])
    (auto intro!: validI elim: waiting_append)

text \<open>Moving rewrites the waiting part of the queue.\<close>

lemma put_list_put_list [simp]: "put_list l k c (put_list l k' c' s) = put_list l k c s"
  by (simp add: put_list_def)

lemma put_list_same: "tx_lists s l = Some (k, c) \<Longrightarrow> put_list l k c s = s"
  by (simp add: put_list_def fun_upd_idem)

lemma write_cells:
  assumes "forS (\<lambda>(offset, e). if e \<noteq> original ! offset
      then stored (set_item kind_entry_id l (head + offset) e) else returnS ()) (enumerate n xs) s = Inr (u, t)"
    and "tx_lists s l = Some (sv_kind kind_entry_id, cells)"
    and "head + n + length xs \<le> length cells"
    and "\<And>i. n \<le> i \<Longrightarrow> i < n + length xs \<Longrightarrow> cells ! (head + i) = Some (StEntryId (original ! i))"
  shows "t = put_list l (sv_kind kind_entry_id)
    (take (head + n) cells @ map (Some \<circ> StEntryId) xs @ drop (head + n + length xs) cells) s"
  using assms
proof (induction xs arbitrary: n s cells)
  case Nil
  then show ?case by (simp add: put_list_same)
next
  case (Cons x xs)
  let ?c = "cells[head + n := Some (StEntryId x)]"
  let ?s = "put_list l (sv_kind kind_entry_id) ?c s"
  have "cells ! (head + n) = Some (StEntryId (original ! n))" using Cons.prems(4) by simp
  then have "x = original ! n \<Longrightarrow> ?s = s"
    using Cons.prems(2) by (metis list_update_id put_list_same)
  then have s: "forS (\<lambda>(offset, e). if e \<noteq> original ! offset
      then stored (set_item kind_entry_id l (head + offset) e) else returnS ())
      (enumerate (Suc n) xs) ?s = Inr (u, t)"
    using Cons.prems(1,2) by (auto simp: thenS_Inr put_list_def split: if_splits)
  have "t = put_list l (sv_kind kind_entry_id)
      (take (head + Suc n) ?c @ map (Some \<circ> StEntryId) xs @ drop (head + Suc n + length xs) ?c) ?s"
    using Cons.prems(3,4) by (intro Cons.IH [OF s]) auto
  moreover have "take (head + Suc n) ?c = take (head + n) cells @ [Some (StEntryId x)]"
    using Cons.prems(3) by (simp add: take_Suc_conv_app_nth)
  moreover have "drop (head + Suc n + length xs) ?c = drop (head + n + length (x # xs)) cells"
    by simp
  ultimately show ?case by (simp add: comp_def)
qed

lemma waiting_write_pending:
  assumes "waiting q s" and "length p = length q"
    and "write_pending (sr_queue (tx_record s)) (sr_queue_head (tx_record s)) q p s = Inr (u, t)"
  shows "waiting p t"
  using assms(1)
proof (rule queuedE)
  fix cells
  let ?h = "sr_queue_head (tx_record s)"
  assume c: "tx_lists s (sr_queue (tx_record s)) = Some (sv_kind kind_entry_id, cells)"
    "?h \<le> length cells" "drop ?h cells = map (Some \<circ> StEntryId) q"
  have n: "cells ! (?h + i) = Some (StEntryId (q ! i))" if "i < length q" for i
  proof -
    have "drop ?h cells ! i = Some (StEntryId (q ! i))" using that by (simp add: c(3))
    with c(2) show ?thesis by simp
  qed
  have "length cells = ?h + length q" using arg_cong [OF c(3), of length] c(2) by simp
  with write_cells [OF assms(3) [unfolded write_pending_def] c(1)] n assms(2)
  have "t = put_list (sr_queue (tx_record s)) (sv_kind kind_entry_id)
      (take ?h cells @ map (Some \<circ> StEntryId) p) s"
    by simp
  with c(2) show "waiting p t" by (simp add: waiting_def)
qed

lemma length_move_in: "i < length q \<Longrightarrow> length (move_in q i e b) = length q"
proof -
  assume i: "i < length q"
  have "j < length (remove_at i q)" if "Option.bind b (\<lambda>x. position (\<lambda>y. y = x) (remove_at i q)) = Some j" for j
    using that by (cases b) (auto dest: position_length)
  with i show ?thesis
    by (auto simp: move_in_def Let_def less_imp_le split: option.split)
qed

lemma mset_move_in: "position (\<lambda>x. x = e) q = Some i \<Longrightarrow> mset (move_in q i e b) = mset q"
  by (frule position_SomeD) (auto simp: move_in_def Let_def mset_remove_at)

text \<open>The moved input stands right before its target, or last; the others keep their order.\<close>

lemma move_in_order:
  assumes "position (\<lambda>x. x = e) q = Some i" and "distinct q"
  shows "remove1 e (move_in q i e b) = remove1 e q"
    and "b = None \<Longrightarrow> move_in q i e b = remove1 e q @ [e]"
    and "b = Some t \<Longrightarrow> t \<in> set q \<Longrightarrow> t \<noteq> e \<Longrightarrow> \<exists>xs ys. move_in q i e b = xs @ e # t # ys"
proof -
  have r: "remove_at i q = remove1 e q" by (rule remove_at_position [OF assms(1)])
  have e: "e \<notin> set (remove1 e q)" using assms(2) by simp
  show "remove1 e (move_in q i e b) = remove1 e q"
    unfolding move_in_def Let_def r by (rule remove1_insert_at [OF e])
  show "b = None \<Longrightarrow> move_in q i e b = remove1 e q @ [e]"
    by (simp add: move_in_def Let_def r insert_at_def)
  assume b: "b = Some t" "t \<in> set q" "t \<noteq> e"
  then have "t \<in> set (remove1 e q)" by (simp add: in_set_remove1)
  then obtain j where j: "position (\<lambda>x. x = t) (remove1 e q) = Some j"
    using position_mem [of t "remove1 e q" "\<lambda>x. x = t"] by auto
  note p = position_SomeD [OF j]
  have "drop j (remove1 e q) = t # drop (Suc j) (remove1 e q)"
    using p Cons_nth_drop_Suc [of j "remove1 e q", symmetric] by simp
  then have "move_in q i e b = take j (remove1 e q) @ e # t # drop (Suc j) (remove1 e q)"
    by (simp add: move_in_def Let_def r b j insert_at_def)
  then show "\<exists>xs ys. move_in q i e b = xs @ e # t # ys" by blast
qed

lemma waiting_move_pending:
  "valid (waiting q) (move_pending e b)
     (\<lambda>_ t. e \<in> set q \<and> waiting (if b = Some e then q else move_in q (the (position (\<lambda>x. x = e) q)) e b) t)"
proof (rule validI)
  fix s x t
  assume q: "waiting q s" and t: "move_pending e b s = Inr (x, t)"
  from t obtain i where i: "position (\<lambda>x. x = e) q = Some i"
    by (cases "position (\<lambda>x. x = e) q")
      (auto simp: move_pending_def bindS_recordS bindS_def [of pending_ids] pending_ids_waiting [OF q] failS_def)
  from position_SomeD [OF i] have e: "e \<in> set q" "i < length q" by auto
  let ?p = "move_in q i e b"
  consider "b = Some e" "t = s" | "b \<noteq> Some e" "?p = q" "t = s"
    | n u where "b \<noteq> Some e"
      "write_pending (sr_queue (tx_record s)) (sr_queue_head (tx_record s)) q ?p s = Inr ((), u)"
      "record_event (InputMoved e b) u = Inr (n, t)"
    using t i e
    by (auto simp: move_pending_def bindS_recordS bindS_def [of pending_ids] pending_ids_waiting [OF q]
        thenS_Inr Let_def split: if_splits option.splits)
  then have "waiting (if b = Some e then q else ?p) t"
  proof cases
    case (3 n u)
    have "waiting ?p u" by (rule waiting_write_pending [OF q length_move_in [OF e(2)] 3(2)])
    from validD [OF waiting_recorded(1) this 3(3)] 3(1) show ?thesis by simp
  qed (use q in auto)
  with e i show "e \<in> set q \<and> waiting (if b = Some e then q else move_in q (the (position (\<lambda>x. x = e) q)) e b) t"
    by (simp split: if_splits)
qed

text \<open>Cancelling removes one input and keeps the order of the others.\<close>

lemma waiting_cancel_pending: "valid (waiting q) (cancel_pending e) (\<lambda>_ t. e \<in> set q \<and> waiting (remove1 e q) t)"
proof (rule validI)
  fix s x t
  assume q: "waiting q s" and t: "cancel_pending e s = Inr (x, t)"
  from t obtain i where i: "position (\<lambda>x. x = e) q = Some i"
    by (cases "position (\<lambda>x. x = e) q")
      (auto simp: cancel_pending_def bindS_recordS bindS_def [of pending_ids] pending_ids_waiting [OF q] failS_def)
  from position_SomeD [OF i] have e: "e \<in> set q" "i < length q" by auto
  let ?h = "sr_queue_head (tx_record s)"
  from q obtain cells where c: "tx_lists s (sr_queue (tx_record s)) = Some (sv_kind kind_entry_id, cells)"
    "?h \<le> length cells" "drop ?h cells = map (Some \<circ> StEntryId) q" by (rule queuedE)
  from t i obtain n u where u: "stored (remove_item kind_entry_id (sr_queue (tx_record s)) (?h + i)) s = Inr ((), u)"
    "record_event (InputCancelled e) u = Inr (n, t)"
    by (auto simp: cancel_pending_def bindS_recordS bindS_def [of pending_ids] pending_ids_waiting [OF q] thenS_Inr)
  with c(1) have h: "?h + i < length cells"
    and u': "u = put_list (sr_queue (tx_record s)) (sv_kind kind_entry_id) (remove_at (?h + i) cells) s"
    by (auto simp: put_list_def)
  have "drop ?h (remove_at (?h + i) cells) = map (Some \<circ> StEntryId) (remove1 e q)"
    using h c(3) by (simp add: drop_remove_at remove_at_map remove_at_position [OF i])
  with h have "waiting (remove1 e q) u" by (simp add: u' waiting_def)
  from validD [OF waiting_recorded(1) this u(2)] e show "e \<in> set q \<and> waiting (remove1 e q) t" by simp
qed

subsection \<open>The contract of the queue\<close>

text \<open>
  What senders may rely on: an input is added at the end, a move loses nothing, and cancelling takes
  one waiting input out and keeps the order of the others. A sequence of requests then neither loses
  nor duplicates an input. Each request carries the time it is made at.
\<close>

datatype ('e, 'm) queue_request = Put 'm | Move 'e "'e option" | Cancel 'e

fun edits ::
  "('t \<Rightarrow> 'm \<Rightarrow> ('err, 's, 'e) st) \<Rightarrow> ('t \<Rightarrow> 'e \<Rightarrow> 'e option \<Rightarrow> ('err, 's, unit) st)
   \<Rightarrow> ('t \<Rightarrow> 'e \<Rightarrow> ('err, 's, unit) st) \<Rightarrow> ('t \<times> ('e, 'm) queue_request) list
   \<Rightarrow> ('err, 's, 'e list \<times> 'e list) st" where
  "edits enqueue move cancel [] = returnS ([], [])"
| "edits enqueue move cancel ((now, Put m) # rest) =
     bindS (enqueue now m) (\<lambda>e. bindS (edits enqueue move cancel rest)
       (\<lambda>(added, gone). returnS (e # added, gone)))"
| "edits enqueue move cancel ((now, Move e b) # rest) =
     bindS (move now e b) (\<lambda>_. edits enqueue move cancel rest)"
| "edits enqueue move cancel ((now, Cancel e) # rest) =
     bindS (cancel now e) (\<lambda>_. bindS (edits enqueue move cancel rest)
       (\<lambda>(added, gone). returnS (added, e # gone)))"

locale pending_queue =
  fixes holds :: "'e list \<Rightarrow> 's \<Rightarrow> bool"
    and enqueue :: "'t \<Rightarrow> 'm \<Rightarrow> ('err, 's, 'e) st"
    and move :: "'t \<Rightarrow> 'e \<Rightarrow> 'e option \<Rightarrow> ('err, 's, unit) st"
    and cancel :: "'t \<Rightarrow> 'e \<Rightarrow> ('err, 's, unit) st"
  assumes enqueue_law: "valid (holds q) (enqueue now m) (\<lambda>e. holds (q @ [e]))"
    and move_law: "valid (holds q) (move now e b) (\<lambda>_ t. \<exists>q'. holds q' t \<and> mset q' = mset q)"
    and cancel_law: "valid (holds q) (cancel now e) (\<lambda>_ t. e \<in> set q \<and> holds (remove1 e q) t)"
begin

lemma edits_balance:
  "holds q s \<Longrightarrow> edits enqueue move cancel rs s = Inr ((added, gone), t) \<Longrightarrow>
     \<exists>q'. holds q' t \<and> mset q' + mset gone = mset q + mset added"
proof (induction rs arbitrary: q s added gone)
  case Nil
  then show ?case by auto
next
  case (Cons r rs)
  obtain now req where r: "r = (now, req)" by force
  show ?case
  proof (cases req)
    case (Put m)
    with Cons.prems r obtain e u added' where u: "enqueue now m s = Inr (e, u)"
      "edits enqueue move cancel rs u = Inr ((added', gone), t)" "added = e # added'"
      by (auto simp: bindS_Inr)
    from Cons.IH [OF validD [OF enqueue_law Cons.prems(1) u(1)] u(2)] u(3) show ?thesis by simp
  next
    case (Move e b)
    with Cons.prems r obtain u where u: "move now e b s = Inr ((), u)"
      "edits enqueue move cancel rs u = Inr ((added, gone), t)" by (auto simp: bindS_Inr)
    from validD [OF move_law Cons.prems(1) u(1)] obtain p where "holds p u" "mset p = mset q" by blast
    with Cons.IH [OF this(1) u(2)] show ?thesis by simp
  next
    case (Cancel e)
    with Cons.prems r obtain u gone' where u: "cancel now e s = Inr ((), u)"
      "edits enqueue move cancel rs u = Inr ((added, gone'), t)" "gone = e # gone'"
      by (auto simp: bindS_Inr)
    from validD [OF cancel_law Cons.prems(1) u(1)] have e: "e \<in> set q" "holds (remove1 e q) u" by auto
    from Cons.IH [OF e(2) u(2)] obtain q' where q': "holds q' t"
      "mset q' + mset gone' = mset (remove1 e q) + mset added" by auto
    have q: "add_mset e (mset (remove1 e q)) = mset q" using e(1) by simp
    have "mset q' + mset gone = add_mset e (mset q' + mset gone')" by (simp add: u(3))
    also have "\<dots> = mset q + mset added" by (simp only: q'(2) union_mset_add_mset_left [symmetric] q)
    finally show ?thesis using q'(1) by blast
  qed
qed

lemma edits_lose_nothing:
  "valid (holds q) (edits enqueue move cancel rs)
     (\<lambda>(added, gone) t. \<exists>q'. holds q' t \<and> mset q' + mset gone = mset q + mset added)"
  by (auto intro!: validI edits_balance)

end

interpretation tq: pending_queue waiting "\<lambda>_::unit. append_input" "\<lambda>_. move_pending" "\<lambda>_. cancel_pending"
proof unfold_locales
  show "valid (waiting q) (append_input m) (\<lambda>e. waiting (q @ [e]))" for q m
    by (rule waiting_append_input)
  show "valid (waiting q) (move_pending e b) (\<lambda>_ t. \<exists>q'. waiting q' t \<and> mset q' = mset q)" for q e b
  proof (rule valid_weaken [OF waiting_move_pending [of q]])
    fix x t
    assume a: "e \<in> set q \<and> waiting (if b = Some e then q else move_in q (the (position (\<lambda>x. x = e) q)) e b) t"
    then obtain i where i: "position (\<lambda>x. x = e) q = Some i"
      using position_mem [of e q "\<lambda>x. x = e"] by auto
    with a have "waiting (if b = Some e then q else move_in q i e b) t" by (simp split: if_splits)
    moreover have "mset (if b = Some e then q else move_in q i e b) = mset q"
      using mset_move_in [OF i, of b] by simp
    ultimately show "\<exists>q'. waiting q' t \<and> mset q' = mset q" by blast
  qed
  show "valid (waiting q) (cancel_pending e) (\<lambda>_ t. e \<in> set q \<and> waiting (remove1 e q) t)" for q e
    by (rule waiting_cancel_pending)
qed

subsection \<open>Consumption\<close>

text \<open>\<open>context c t\<close>: the active context holds the entries \<open>c\<close>, in a list that is not the queue.\<close>

definition active_list :: "tx \<Rightarrow> list_id \<Rightarrow> bool" where
  "active_list t l \<longleftrightarrow> (\<exists>cells g.
     tx_lists t (sr_generations (tx_record t)) = Some (sv_kind kind_generation, cells)
     \<and> cell_at cells (sr_active (tx_record t)) = Some (StGeneration g) \<and> gn_entries g = l)"

definition holds_context :: "entry_id list \<Rightarrow> tx \<Rightarrow> bool" where
  "holds_context c t \<longleftrightarrow> (\<exists>l. active_list t l \<and> l \<noteq> sr_queue (tx_record t)
     \<and> tx_lists t l = Some (sv_kind kind_entry_id, map (Some \<circ> StEntryId) c))"

text \<open>\<open>stored_message t i\<close>: the message of entry \<open>i\<close>.\<close>

definition stored_message :: "tx \<Rightarrow> entry_id \<Rightarrow> message option" where
  "stored_message t i =
     (case tx_lists t (sr_entries (tx_record t)) of
        Some (k, cells) \<Rightarrow> (case cell_at cells i of Some (StEntry e) \<Rightarrow> Some (en_message e) | _ \<Rightarrow> None)
      | None \<Rightarrow> None)"

text \<open>Every entry is stored at the position it names.\<close>

definition entries_placed :: "tx \<Rightarrow> bool" where
  "entries_placed t \<longleftrightarrow> (\<forall>k cells i e. tx_lists t (sr_entries (tx_record t)) = Some (k, cells) \<longrightarrow>
     cell_at cells i = Some (StEntry e) \<longrightarrow> en_id e = i)"

lemma load_generation_active: "load_generation (sr_active (tx_record s)) s = Inr (g, t) \<Longrightarrow> active_list s (gn_entries g)"
  by (auto simp: load_generation_Inr active_list_def)

lemma active_list_unique: "active_list t l \<Longrightarrow> active_list t l' \<Longrightarrow> l' = l"
  by (auto simp: active_list_def)

lemma remember_instruction_update_Inr:
  assumes "remember_instruction_update m s = Inr (u, t)"
  obtains new where "t = s\<lparr>tx_record := (tx_record s)\<lparr>sr_next_generation_instructions := new\<rparr>\<rparr>"
proof (cases "instruction_update m")
  case None
  with assms that [of "sr_next_generation_instructions (tx_record s)"] show thesis
    by (simp add: remember_instruction_update_def)
next
  case (Some p)
  with assms that show thesis by (cases p) (auto simp: remember_instruction_update_def)
qed

lemma consume_input_effect:
  assumes "consume_input g i s = Inr (u, t)"
  obtains cells e new where "load_entry i s = Inr (e, s)"
    "tx_lists s (gn_entries g) = Some (sv_kind kind_entry_id, cells)"
    "tx_lists t (gn_entries g) = Some (sv_kind kind_entry_id, cells @ [Some (StEntryId (en_id e))])"
    "\<And>l k c. l \<noteq> gn_entries g \<Longrightarrow> k \<noteq> sv_kind kind_history \<Longrightarrow> tx_lists s l = Some (k, c) \<Longrightarrow>
       tx_lists t l = Some (k, c)"
    "tx_record t = (tx_record s)\<lparr>sr_next_generation_instructions := new\<rparr>"
proof -
  from assms obtain e v n w where e: "load_entry i s = Inr (e, s)"
    and v: "remember_instruction_update (en_message e) s = Inr ((), v)"
    and w: "stored (append_item kind_entry_id (gn_entries g) (en_id e)) v = Inr (n, w)"
    and t: "record_history (FactMessage e) (sr_active_model_call (tx_record w)) w = Inr (u, t)"
    by (auto simp: consume_input_def bindS_Inr thenS_Inr load_entry_Inr)
  from remember_instruction_update_Inr [OF v] obtain new where
    new: "v = s\<lparr>tx_record := (tx_record s)\<lparr>sr_next_generation_instructions := new\<rparr>\<rparr>" .
  from w new obtain cells where c: "tx_lists s (gn_entries g) = Some (sv_kind kind_entry_id, cells)"
    "w = put_list (gn_entries g) (sv_kind kind_entry_id) (cells @ [Some (StEntryId (en_id e))]) v"
    by (auto simp: put_list_def)
  have o: "only {sv_kind kind_history} w t" by (rule stepsD [OF only_record_history t])
  show thesis
  proof (rule that [OF e c(1)])
    show "tx_lists t (gn_entries g) = Some (sv_kind kind_entry_id, cells @ [Some (StEntryId (en_id e))])"
      by (rule only_lists [OF o]) (simp_all add: c(2))
    show "tx_lists t l = Some (k, c')" if "l \<noteq> gn_entries g" "k \<noteq> sv_kind kind_history"
      "tx_lists s l = Some (k, c')" for l k c'
      using that by (intro only_lists [OF o]) (simp_all add: c(2) new)
    show "tx_record t = (tx_record s)\<lparr>sr_next_generation_instructions := new\<rparr>"
      using only_record [OF o] by (simp add: c(2) new)
  qed
qed

lemma consume_loop:
  assumes "forS (consume_input g) ids s = Inr (u, t)"
    and "tx_lists s (gn_entries g) = Some (sv_kind kind_entry_id, cells)"
    and "entries_placed s" and "tx_lists s (sr_entries (tx_record s)) = Some (sv_kind kind_entry, es)"
  shows "tx_lists t (gn_entries g) = Some (sv_kind kind_entry_id, cells @ map (Some \<circ> StEntryId) ids)
    \<and> (\<forall>l k c. l \<noteq> gn_entries g \<longrightarrow> k \<noteq> sv_kind kind_history \<longrightarrow> tx_lists s l = Some (k, c) \<longrightarrow>
          tx_lists t l = Some (k, c))
    \<and> (\<exists>new. tx_record t = (tx_record s)\<lparr>sr_next_generation_instructions := new\<rparr>)"
  using assms
proof (induction ids arbitrary: s cells)
  case Nil
  then show ?case by (auto intro: exI [of _ "sr_next_generation_instructions (tx_record s)"])
next
  case (Cons i ids)
  then obtain v where v: "consume_input g i s = Inr ((), v)" "forS (consume_input g) ids v = Inr (u, t)"
    by (auto simp: thenS_Inr)
  from v(1) obtain cells' e new where e: "load_entry i s = Inr (e, s)"
    "tx_lists s (gn_entries g) = Some (sv_kind kind_entry_id, cells')"
    "tx_lists v (gn_entries g) = Some (sv_kind kind_entry_id, cells' @ [Some (StEntryId (en_id e))])"
    "\<And>l k c. l \<noteq> gn_entries g \<Longrightarrow> k \<noteq> sv_kind kind_history \<Longrightarrow> tx_lists s l = Some (k, c) \<Longrightarrow>
       tx_lists v l = Some (k, c)"
    "tx_record v = (tx_record s)\<lparr>sr_next_generation_instructions := new\<rparr>"
    by (rule consume_input_effect) blast
  have i: "en_id e = i" using e(1) Cons.prems(3) by (auto simp: load_entry_Inr entries_placed_def)
  have "sr_entries (tx_record s) \<noteq> gn_entries g" using Cons.prems(2,4) by auto
  then have es: "tx_lists v (sr_entries (tx_record v)) = Some (sv_kind kind_entry, es)"
    using e(4) [OF _ _ Cons.prems(4)] e(5) by simp
  then have "entries_placed v"
    using Cons.prems(3,4) e(5) by (auto simp: entries_placed_def)
  from Cons.IH [OF v(2) e(3) this es] e(2,4,5) Cons.prems(2) i show ?case by auto
qed

text \<open>The state that consumption needs: the queue, the active context and the entries.\<close>

definition consumable :: "entry_id list \<Rightarrow> entry_id list \<Rightarrow> tx \<Rightarrow> bool" where
  "consumable q c t \<longleftrightarrow> waiting q t \<and> holds_context c t \<and> entries_placed t
     \<and> (\<exists>es. tx_lists t (sr_entries (tx_record t)) = Some (sv_kind kind_entry, es))"

lemma consumableE:
  assumes "consumable q c s"
  obtains gs g cells es where
    "tx_lists s (sr_generations (tx_record s)) = Some (sv_kind kind_generation, gs)"
    "cell_at gs (sr_active (tx_record s)) = Some (StGeneration g)" "gn_entries g \<noteq> sr_queue (tx_record s)"
    "tx_lists s (gn_entries g) = Some (sv_kind kind_entry_id, map (Some \<circ> StEntryId) c)"
    "tx_lists s (sr_queue (tx_record s)) = Some (sv_kind kind_entry_id, cells)"
    "sr_queue_head (tx_record s) \<le> length cells"
    "drop (sr_queue_head (tx_record s)) cells = map (Some \<circ> StEntryId) q"
    "entries_placed s" "tx_lists s (sr_entries (tx_record s)) = Some (sv_kind kind_entry, es)"
  using assms unfolding consumable_def waiting_def holds_context_def active_list_def by blast

lemma consumable_only:
  assumes "consumable q c s" and "only Ks s t"
    and "Ks \<inter> {sv_kind kind_entry_id, sv_kind kind_generation, sv_kind kind_entry} = {}"
  shows "consumable q c t"
  using assms(1)
proof (rule consumableE)
  fix gs g cells es
  assume c: "tx_lists s (sr_generations (tx_record s)) = Some (sv_kind kind_generation, gs)"
    "cell_at gs (sr_active (tx_record s)) = Some (StGeneration g)" "gn_entries g \<noteq> sr_queue (tx_record s)"
    "tx_lists s (gn_entries g) = Some (sv_kind kind_entry_id, map (Some \<circ> StEntryId) c)"
    "tx_lists s (sr_queue (tx_record s)) = Some (sv_kind kind_entry_id, cells)"
    "sr_queue_head (tx_record s) \<le> length cells"
    "drop (sr_queue_head (tx_record s)) cells = map (Some \<circ> StEntryId) q"
    "entries_placed s" "tx_lists s (sr_entries (tx_record s)) = Some (sv_kind kind_entry, es)"
  note l = only_lists [OF assms(2)] and r = only_record [OF assms(2)]
  have "tx_lists t (sr_entries (tx_record s)) = Some (sv_kind kind_entry, es)"
    using l [OF c(9)] assms(3) by blast
  moreover have "tx_lists t (sr_generations (tx_record s)) = Some (sv_kind kind_generation, gs)"
    using l [OF c(1)] assms(3) by blast
  moreover have "tx_lists t (gn_entries g) = Some (sv_kind kind_entry_id, map (Some \<circ> StEntryId) c)"
    using l [OF c(4)] assms(3) by blast
  moreover have "tx_lists t (sr_queue (tx_record s)) = Some (sv_kind kind_entry_id, cells)"
    using l [OF c(5)] assms(3) by blast
  ultimately show ?thesis
    using c unfolding consumable_def waiting_def holds_context_def active_list_def entries_placed_def r
    by auto
qed

text \<open>Changing another field of the record, or a list of another kind, leaves it consumable.\<close>

lemma consumable_cong:
  assumes "consumable q c s" and "tx_lists t = tx_lists s"
    and "sr_queue (tx_record t) = sr_queue (tx_record s)"
    and "sr_queue_head (tx_record t) = sr_queue_head (tx_record s)"
    and "sr_active (tx_record t) = sr_active (tx_record s)"
    and "sr_generations (tx_record t) = sr_generations (tx_record s)"
    and "sr_entries (tx_record t) = sr_entries (tx_record s)"
  shows "consumable q c t"
  using assms unfolding consumable_def waiting_def holds_context_def active_list_def entries_placed_def
  by simp

text \<open>Consumption moves every waiting input to the end of the context, in order.\<close>

lemma consume_inputs_effect:
  assumes "consumable q c s" and "consume_inputs n s = Inr (u, t)"
    and "stored (list_len kind_entry_id (sr_queue (tx_record s))) s = Inr (n, s)"
  shows "consumable [] (c @ q) t"
    and "tx_lists t (sr_entries (tx_record t)) = tx_lists s (sr_entries (tx_record s))"
    and "sr_config (tx_record t) = sr_config (tx_record s)"
    and "sr_state (tx_record t) = sr_state (tx_record s)"
    and "sr_entries (tx_record t) = sr_entries (tx_record s)"
proof -
  from assms(1) obtain gs g cells es where
    c: "tx_lists s (sr_generations (tx_record s)) = Some (sv_kind kind_generation, gs)"
    "cell_at gs (sr_active (tx_record s)) = Some (StGeneration g)" "gn_entries g \<noteq> sr_queue (tx_record s)"
    "tx_lists s (gn_entries g) = Some (sv_kind kind_entry_id, map (Some \<circ> StEntryId) c)"
    "tx_lists s (sr_queue (tx_record s)) = Some (sv_kind kind_entry_id, cells)"
    "sr_queue_head (tx_record s) \<le> length cells"
    "drop (sr_queue_head (tx_record s)) cells = map (Some \<circ> StEntryId) q"
    "entries_placed s" "tx_lists s (sr_entries (tx_record s)) = Some (sv_kind kind_entry, es)"
    by (rule consumableE)
  have n: "n = length cells" using assms(3) c(5) by auto
  have g: "load_generation (sr_active (tx_record s)) s = Inr (g, s)"
    using c(1,2) by (simp add: load_generation_Inr)
  from assms(2) obtain v where v: "forS (consume_input g) q s = Inr ((), v)"
    and t: "(if sr_queue_head (tx_record s) \<noteq> n
       then thenS (record_event (InputsConsumed (sr_queue_head (tx_record s)) n)) (returnS ())
       else returnS ()) (v\<lparr>tx_record := (tx_record v)\<lparr>sr_queue_head := n\<rparr>\<rparr>) = Inr (u, t)"
    unfolding consume_inputs_def Let_def bindS_recordS bindS_def [of "load_generation _"]
      bindS_def [of "stored (read_from _ _ _)"] g read_ids [OF c(5,7)]
    by (auto simp: g read_ids [OF c(5,7)] thenS_Inr)
  let ?v = "v\<lparr>tx_record := (tx_record v)\<lparr>sr_queue_head := n\<rparr>\<rparr>"
  have o: "only {sv_kind kind_event, sv_kind kind_history} ?v t"
    using t by (auto simp: thenS_Inr only.refl split: if_splits dest!: stepsD [OF only_record_event])
  from consume_loop [OF v c(4,8,9)] obtain new where
    l: "tx_lists v (gn_entries g) = Some (sv_kind kind_entry_id, map (Some \<circ> StEntryId) (c @ q))"
    "\<And>l k c. l \<noteq> gn_entries g \<Longrightarrow> k \<noteq> sv_kind kind_history \<Longrightarrow> tx_lists s l = Some (k, c) \<Longrightarrow>
       tx_lists v l = Some (k, c)"
    and r: "tx_record v = (tx_record s)\<lparr>sr_next_generation_instructions := new\<rparr>" by auto
  have ne: "sr_generations (tx_record s) \<noteq> gn_entries g" "sr_entries (tx_record s) \<noteq> gn_entries g"
    using c(1,4,9) by auto
  have es: "tx_lists v (sr_entries (tx_record s)) = Some (sv_kind kind_entry, es)"
    using l(2) [OF ne(2) _ c(9)] by simp
  have "consumable [] (c @ q) ?v"
    using l(1) l(2) [OF ne(1) _ c(1)] l(2) [OF _ _ c(5)] es c r
    unfolding consumable_def waiting_def holds_context_def active_list_def entries_placed_def
    by (auto simp: n)
  then show "consumable [] (c @ q) t" by (rule consumable_only [OF _ o]) auto
  show "tx_lists t (sr_entries (tx_record t)) = tx_lists s (sr_entries (tx_record s))"
    using only_lists [OF o, of "sr_entries (tx_record s)" "sv_kind kind_entry" es] es c(9) only_record [OF o] r
    by simp
  show "sr_config (tx_record t) = sr_config (tx_record s)" "sr_state (tx_record t) = sr_state (tx_record s)"
    "sr_entries (tx_record t) = sr_entries (tx_record s)"
    using only_record [OF o] r by simp_all
qed

end
