(* ===== verification/Context.thy ===== *)
theory Context
  imports Queue
begin

text \<open>
  The active and standby contexts (\<open>session/context/generation.rs\<close>), the request a context makes
  (\<open>session/context/request.rs\<close>), and the commits of compaction
  (\<open>session/context/compaction.rs\<close>, \<open>compaction/upstream.rs\<close>,
  \<open>compaction/translation.rs\<close>). One generation is active and one stands by; a switch seals the
  one it replaces.
\<close>

subsection \<open>Standby lists\<close>

definition replace_entries :: "generation \<Rightarrow> generation tx_op" where
  "replace_entries g =
     bindS (allocate_list kind_entry_id) (\<lambda>list.
     thenS (stored (delete_list kind_entry_id (gn_entries g)))
       (returnS (g\<lparr>gn_entries := list\<rparr>)))"

definition reset_standby :: "unit tx_op" where
  "reset_standby =
     bindS (recordS sr_standby) (\<lambda>id'.
     bindS (load_generation id') (\<lambda>standby.
     bindS (replace_entries standby) (\<lambda>standby.
     bindS (recordS sr_config) (\<lambda>config.
     save_generation (standby\<lparr>gn_source := None, gn_compaction_cursor := 0, gn_config := config\<rparr>)))))"

definition append_standby ::
  "entry_id list \<Rightarrow> nat \<Rightarrow> (generation_id \<times> nat) option \<Rightarrow> unit tx_op" where
  "append_standby seed compaction_cursor source =
     bindS (allocate_list kind_entry_id) (\<lambda>entries.
     thenS (stored (append_items kind_entry_id entries seed))
    (bindS (append_generation GenStandby entries compaction_cursor source) (\<lambda>id'.
       set_record (\<lambda>r. r\<lparr>sr_standby := id'\<rparr>))))"

subsection \<open>Switching the active generation\<close>

definition instruction_message :: "string \<Rightarrow> string \<Rightarrow> message" where
  "instruction_message source text = System (JObject [(''source'', JString source)]) [Text text]"

text \<open>What becomes of one entry when instructions are installed: dropped, replaced or kept.\<close>

datatype install = Drop | Replace string string | Keep

definition install_of :: "(string, string) btree \<Rightarrow> message \<Rightarrow> install" where
  "install_of replacements message =
     (case message of
        System metadata _ \<Rightarrow>
          if json_get metadata ''next_generation_instruction'' \<noteq> None then Drop
          else (case as_str (json_index metadata ''source'') of
            Some source \<Rightarrow> (case map_of replacements source of
                Some text \<Rightarrow> Replace source text
              | None \<Rightarrow> Keep)
          | None \<Rightarrow> Keep)
      | _ \<Rightarrow> Keep)"

text \<open>The sources installed so far, the new entries and the new cursor.\<close>

type_synonym installing = "string list \<times> entry_id list \<times> nat"

definition install_entry ::
  "(string, string) btree \<Rightarrow> nat \<Rightarrow> installing \<Rightarrow> nat \<times> entry_id \<Rightarrow> installing tx_op" where
  "install_entry replacements old_cursor acc item =
     (case (acc, item) of ((installed, entries, cursor), (pos, id')) \<Rightarrow>
      let cursor' = (if pos < old_cursor then cursor + 1 else cursor) in
      bindS (load_entry id') (\<lambda>e.
      case install_of replacements (en_message e) of
        Drop \<Rightarrow> returnS (installed, entries, cursor)
      | Replace source text \<Rightarrow>
          if source \<in> set installed then returnS (installed, entries, cursor)
          else bindS (store_entry (instruction_message source text) OriginContext)
            (\<lambda>replacement. returnS (source # installed, entries @ [replacement], cursor'))
      | Keep \<Rightarrow> returnS (installed, entries @ [id'], cursor')))"

definition install_missing ::
  "nat \<Rightarrow> installing \<Rightarrow> string \<times> string \<Rightarrow> installing tx_op" where
  "install_missing old_cursor acc replacement =
     (case (acc, replacement) of ((installed, entries, cursor), (source, text)) \<Rightarrow>
      if source \<in> set installed then returnS acc
      else bindS (store_entry (instruction_message source text) OriginContext) (\<lambda>e.
        returnS (installed, e # entries, if old_cursor > 0 then cursor + 1 else cursor)))"

definition install_instructions :: "generation \<Rightarrow> generation tx_op" where
  "install_instructions activated =
     bindS (recordS sr_next_generation_instructions) (\<lambda>replacements.
     if replacements = [] then returnS activated
     else
       bindS (stored (read_from kind_entry_id (gn_entries activated) 0)) (\<lambda>ids.
       bindS (foldS (install_entry replacements (gn_compaction_cursor activated))
                (enumerate 0 ids) ([], [], 0)) (\<lambda>acc.
       bindS (foldS (install_missing (gn_compaction_cursor activated)) replacements acc)
         (\<lambda>(_, entries, cursor).
       bindS (allocate_list kind_entry_id) (\<lambda>list.
       thenS (stored (append_items kind_entry_id list entries))
      (thenS (stored (delete_list kind_entry_id (gn_entries activated)))
         (returnS (activated\<lparr>gn_entries := list, gn_compaction_cursor := cursor\<rparr>))))))))"

definition install_tools :: "generation \<Rightarrow> generation tx_op" where
  "install_tools activated =
     bindS (recordS sr_next_generation_tools) (\<lambda>next.
     case next of
       Some tools \<Rightarrow>
         thenS (set_record (\<lambda>r. r\<lparr>sr_config := (sr_config r)\<lparr>cf_tools := tools\<rparr>\<rparr>))
           (returnS (activated\<lparr>gn_config := (gn_config activated)\<lparr>cf_tools := tools\<rparr>\<rparr>))
     | None \<Rightarrow> returnS activated)"

definition remember_queued :: "entry_id \<Rightarrow> unit tx_op" where
  "remember_queued id' =
     bindS (load_entry id') (\<lambda>e. remember_instruction_update (en_message e))"

definition switch_active :: "generation_id \<Rightarrow> generation_id tx_op" where
  "switch_active next =
     bindS (recordS sr_active) (\<lambda>active.
     bindS (load_generation active) (\<lambda>previous.
     thenS (save_generation (previous\<lparr>gn_status := GenSealed\<rparr>))
    (bindS (load_generation next) (\<lambda>activated.
     bindS pending_ids (\<lambda>queued.
     thenS (forS remember_queued queued)
    (bindS (install_instructions activated) (\<lambda>activated.
     bindS (install_tools activated) (\<lambda>activated.
     thenS (save_generation (activated\<lparr>gn_status := GenActive, gn_source := None\<rparr>))
    (thenS (set_record (\<lambda>r. r\<lparr>sr_active := next\<rparr>))
    (thenS (record_event (GenerationActivated (gn_id previous) next))
      (returnS (gn_id previous))))))))))))"

definition promote_standby :: "generation_id tx_op" where
  "promote_standby = bindS (recordS sr_standby) switch_active"

subsection \<open>Preparing and activating a standby\<close>

definition prepare_entry ::
  "list_id \<Rightarrow> entry_id option \<Rightarrow> pending_calls \<times> nat \<Rightarrow> nat \<times> entry_id
   \<Rightarrow> (pending_calls \<times> nat) tx_op" where
  "prepare_entry list pending acc item =
     (case (acc, item) of ((validator, cursor), (pos, id')) \<Rightarrow>
      bindS (load_entry id') (\<lambda>e.
      if en_origin e = OriginInput \<and> (case pending of None \<Rightarrow> False | Some first \<Rightarrow> id' \<ge> first)
      then failS (PendingInput id')
      else bindS (liftR (accept validator (en_message e))) (\<lambda>validator.
        thenS (stored (append_item kind_entry_id list id'))
          (returnS (validator,
             if en_origin e = OriginSummary
                \<or> (case en_message e of UpstreamCompaction _ _ _ \<Rightarrow> True | _ \<Rightarrow> False)
             then pos + 1 else cursor)))))"

definition prepare_generation :: "entry_id list \<Rightarrow> unit tx_op" where
  "prepare_generation entries =
     bindS (recordS (\<lambda>r. r)) (\<lambda>r.
     bindS (load_generation (sr_active r)) (\<lambda>active.
     bindS (stored (list_len kind_entry_id (gn_entries active))) (\<lambda>source_length.
     bindS (load_generation (sr_standby r)) (\<lambda>standby.
     bindS (replace_entries standby) (\<lambda>standby.
     bindS (stored (get_item kind_entry_id (sr_queue r) (sr_queue_head r))) (\<lambda>pending.
     bindS (foldS (prepare_entry (gn_entries standby) pending) (enumerate 0 entries) ([], 0))
       (\<lambda>(validator, compaction_cursor).
     thenS (liftR (finish_pairs validator))
    (bindS (stored (list_len kind_entry_id (gn_entries standby))) (\<lambda>entry_count.
     thenS (save_generation (standby\<lparr>gn_compaction_cursor := compaction_cursor,
              gn_source := Some (gn_id active, source_length)\<rparr>))
    (thenS (record_event (GenerationPrepared (gn_id standby) (gn_entries standby) entry_count
              (gn_id active) source_length)) (returnS ())))))))))))"

definition accept_entry :: "pending_calls \<Rightarrow> entry_id \<Rightarrow> pending_calls tx_op" where
  "accept_entry validator id' =
     bindS (load_entry id') (\<lambda>e. liftR (accept validator (en_message e)))"

definition accept_tail_entry :: "list_id \<Rightarrow> pending_calls \<Rightarrow> entry_id \<Rightarrow> pending_calls tx_op" where
  "accept_tail_entry list validator id' =
     bindS (accept_entry validator id') (\<lambda>validator.
     thenS (stored (append_item kind_entry_id list id')) (returnS validator))"

definition activate_generation :: "unit tx_op" where
  "activate_generation =
     bindS (recordS (\<lambda>r. r)) (\<lambda>r.
     bindS (load_generation (sr_active r)) (\<lambda>active.
     bindS (load_generation (sr_standby r)) (\<lambda>standby.
     bindS (expectS StaleGeneration (gn_source standby)) (\<lambda>(source, source_length).
     bindS (stored (list_len kind_entry_id (gn_entries active))) (\<lambda>length'.
     if source \<noteq> gn_id active \<or> source_length > length' then failS StaleGeneration
     else
       bindS (stored (read_from kind_entry_id (gn_entries standby) 0)) (\<lambda>candidate.
       bindS (foldS accept_entry candidate []) (\<lambda>validator.
       bindS (stored (read_from kind_entry_id (gn_entries active) source_length)) (\<lambda>tail.
       bindS (foldS (accept_tail_entry (gn_entries standby)) tail validator) (\<lambda>validator.
       thenS (liftR (finish_pairs validator))
      (thenS (save_generation (standby\<lparr>gn_source := None\<rparr>))
      (thenS promote_standby
         (append_standby [] 0 None))))))))))))"

subsection \<open>Requests\<close>

definition config_build_request :: "session_config \<Rightarrow> message list \<Rightarrow> request" where
  "config_build_request c conversation =
     \<lparr>rq_stream = cf_stream c, rq_model = cf_model c, rq_conversation = conversation,
      rq_tools = cf_tools c, rq_tool_choice = Some ToolChoiceAuto,
      rq_max_output_tokens = cf_max_output_tokens c, rq_reasoning = cf_reasoning c,
      rq_cache = cf_cache c\<rparr>"

definition load_message :: "entry_id \<Rightarrow> message tx_op" where
  "load_message id' = bindS (load_entry id') (\<lambda>e. returnS (en_message e))"

definition build_request :: "request tx_op" where
  "build_request =
     bindS (recordS (\<lambda>r. r)) (\<lambda>r.
     bindS (load_generation (sr_active r)) (\<lambda>g.
     bindS (stored (read_from kind_entry_id (gn_entries g) 0)) (\<lambda>ids.
     bindS (mapS load_message ids) (\<lambda>messages.
     returnS (config_build_request (sr_config r) messages)))))"

text \<open>The messages of a turn whose tools still run; a snapshot leaves them out.\<close>

fun is_turn_message :: "message \<Rightarrow> bool" where
  "is_turn_message (Assistant _ _) = True"
| "is_turn_message (Reasoning _ _ _ _ _ _ _) = True"
| "is_turn_message (ToolUse _ _ _ _) = True"
| "is_turn_message _ = False"

definition without_turn :: "message list \<Rightarrow> message list" where
  "without_turn conversation = rev (dropWhile is_turn_message (rev conversation))"

definition build_context_snapshot :: "timestamp \<Rightarrow> request session_op" where
  "build_context_snapshot now = (\<lambda>s.
     case load_object kind_record (se_key s) (se_store s) of
       Inl e \<Rightarrow> Inl (Storage e)
     | Inr (r, _) \<Rightarrow>
        (case build_request (begin_tx r now s) of
           Inl e \<Rightarrow> Inl e
         | Inr (request', _) \<Rightarrow>
             let request' = (case sr_state r of
                   ExecutingTools _ _ \<Rightarrow>
                     request'\<lparr>rq_conversation := without_turn (rq_conversation request')\<rparr>
                 | _ \<Rightarrow> request')
             in (case validate_tool_pairs (rq_conversation request') of
                   Inl e \<Rightarrow> Inl e
                 | Inr () \<Rightarrow> Inr (request', s))))"

subsection \<open>The request a context makes\<close>

lemma load_message_Inr:
  assumes "tx_lists s (sr_entries (tx_record s)) = Some (sv_kind kind_entry, es)"
  shows "load_message i s = Inr (m, t) \<longleftrightarrow> t = s \<and> stored_message s i = Some m"
  using assms
  by (auto simp: load_message_def bindS_Inr load_entry_Inr stored_message_def
      split: option.splits stored_data.splits)

lemma mapS_load_message:
  assumes "tx_lists s (sr_entries (tx_record s)) = Some (sv_kind kind_entry, es)"
  shows "mapS load_message ids s = Inr (ms, t) \<longleftrightarrow> t = s \<and> map (stored_message s) ids = map Some ms"
proof (induction ids arbitrary: ms)
  case (Cons i ids)
  show ?case by (cases ms) (auto simp: bindS_Inr load_message_Inr [OF assms] Cons.IH)
qed auto

lemma build_request_context:
  assumes "consumable q c s" and "build_request s = Inr (rq, t)"
  shows "t = s" and "rq = config_build_request (sr_config (tx_record s)) (rq_conversation rq)"
    and "map (stored_message s) c = map Some (rq_conversation rq)"
proof -
  from assms(1) obtain gs g cells es where
    c: "tx_lists s (sr_generations (tx_record s)) = Some (sv_kind kind_generation, gs)"
    "cell_at gs (sr_active (tx_record s)) = Some (StGeneration g)" "gn_entries g \<noteq> sr_queue (tx_record s)"
    "tx_lists s (gn_entries g) = Some (sv_kind kind_entry_id, map (Some \<circ> StEntryId) c)"
    "tx_lists s (sr_queue (tx_record s)) = Some (sv_kind kind_entry_id, cells)"
    "sr_queue_head (tx_record s) \<le> length cells"
    "drop (sr_queue_head (tx_record s)) cells = map (Some \<circ> StEntryId) q"
    "entries_placed s" "tx_lists s (sr_entries (tx_record s)) = Some (sv_kind kind_entry, es)"
    by (rule consumableE)
  have g: "load_generation (sr_active (tx_record s)) s = Inr (g, s)"
    using c(1,2) by (simp add: load_generation_Inr)
  have r: "stored (read_from kind_entry_id (gn_entries g) 0) s = Inr (c, s)"
    by (rule read_ids [OF c(4)]) simp
  from assms(2) have "t = s \<and> rq = config_build_request (sr_config (tx_record s)) (rq_conversation rq)
      \<and> map (stored_message s) c = map Some (rq_conversation rq)"
    unfolding build_request_def bindS_recordS bindS_def [of "load_generation _"]
      bindS_def [of "stored (read_from _ _ _)"] g
    using r by (auto simp: g bindS_Inr mapS_load_message [OF c(9)] config_build_request_def)
  then show "t = s" "rq = config_build_request (sr_config (tx_record s)) (rq_conversation rq)"
    "map (stored_message s) c = map Some (rq_conversation rq)" by blast+
qed

end
