(* ===== verification/Machine.thy ===== *)
theory Machine
  imports Context
begin

text \<open>
  The session's state machine (\<open>session/machine.rs\<close>) and its tool batches
  (\<open>session/machine/tool_batch.rs\<close>). \<open>advance\<close> selects the next action of a run and moves the
  state first; the executor carries the action out and hands its result back to one of the
  \<open>accept_\<close> operations.
\<close>

subsection \<open>Transitions\<close>

definition transition_to :: "session_state \<Rightarrow> unit tx_op" where
  "transition_to next =
     bindS (recordS sr_state) (\<lambda>state.
     thenS (set_record (\<lambda>r. r\<lparr>sr_state := next\<rparr>))
    (thenS (record_event (StateChanged (get_phase state) (get_phase next))) (returnS ())))"

definition abandon_running_call :: "run_outcome \<Rightarrow> unit tx_op" where
  "abandon_running_call outcome =
     bindS (recordS (\<lambda>r. r)) (\<lambda>r.
     thenS (set_record (\<lambda>r. r\<lparr>sr_active_model_call := None\<rparr>))
    (case sr_active_model_call r of
       None \<Rightarrow> returnS ()
     | Some id' \<Rightarrow>
         bindS (stored (get_item kind_call (sr_model_calls r) id')) (\<lambda>found.
         bindS (getS tx_recorded_at) (\<lambda>now.
         case found of
           Some call \<Rightarrow>
             if mc_status call = CallRunning
             then stored (set_item kind_call (sr_model_calls r) id'
                    (abandon (if outcome = Interrupted then CallInterrupted else CallFailed) now call))
             else returnS ()
         | None \<Rightarrow> returnS ()))))"

definition finish_run :: "run_outcome \<Rightarrow> unit tx_op" where
  "finish_run outcome =
     thenS (abandon_running_call outcome)
    (if outcome = Completed
     then thenS (transition_to Idle) (thenS (record_event (Finished outcome)) (returnS ()))
     else
       bindS (recordS sr_state) (\<lambda>state.
       thenS (record_event (StateChanged (get_phase state) PhaseSuspended))
      (bindS (record_event (Finished outcome)) (\<lambda>event.
       set_record (\<lambda>r. r\<lparr>sr_state := Suspended event\<rparr>)))))"

definition complete_turn :: "nat \<Rightarrow> bool \<Rightarrow> unit tx_op" where
  "complete_turn turn needs_model =
     thenS (record_event (StableBoundary turn)) (transition_to (Ready turn needs_model))"

subsection \<open>Tool batches\<close>

definition start_tool_batch :: "nat \<Rightarrow> tool_call list \<Rightarrow> unit tx_op" where
  "start_tool_batch turn calls =
     bindS (allocate_list kind_tool) (\<lambda>batch.
     thenS (forS (\<lambda>call. thenS (stored (append_item kind_tool batch
                \<lparr>te_call = call, te_started = False, te_outcome = None\<rparr>)) (returnS ())) calls)
       (transition_to (ExecutingTools turn batch)))"

definition pending_calls_of :: "list_id \<Rightarrow> tool_call list tx_op" where
  "pending_calls_of batch =
     bindS (stored (read_from kind_tool batch 0)) (\<lambda>executions.
     returnS (map te_call (filter (\<lambda>x. te_outcome x = None) executions)))"

definition update_execution :: "tool_call \<Rightarrow> (tool_execution \<Rightarrow> tool_execution) \<Rightarrow> unit tx_op" where
  "update_execution call change =
     bindS (recordS sr_state) (\<lambda>state.
     case state of
       ExecutingTools _ batch \<Rightarrow>
         bindS (stored (read_from kind_tool batch 0)) (\<lambda>executions.
         bindS (expectS (Storage (Corrupt ''tool missing from active batch''))
                  (position (\<lambda>x. tc_call_id (te_call x) = tc_call_id call) executions)) (\<lambda>pos.
         stored (set_item kind_tool batch pos (change (executions ! pos)))))
     | _ \<Rightarrow> failS UnexpectedPhase)"

definition mark_tool_started :: "tool_call \<Rightarrow> unit tx_op" where
  "mark_tool_started call =
     thenS (update_execution call (\<lambda>x. x\<lparr>te_started := True\<rparr>))
    (thenS (record_event (ToolStarted call)) (returnS ()))"

definition record_tool_outcome :: "tool_call \<Rightarrow> tool_outcome \<Rightarrow> unit tx_op" where
  "record_tool_outcome call outcome =
     thenS (update_execution call (\<lambda>x. x\<lparr>te_outcome := Some outcome\<rparr>))
    (thenS (record_event (ToolFinished call outcome)) (returnS ()))"

definition settle_execution :: "tool_execution \<Rightarrow> tool_execution" where
  "settle_execution x = x\<lparr>te_outcome := Some (if te_started x
     then Unknown ''The run stopped while this tool was executing; its effects are unknown.''
     else Cancelled)\<rparr>"

definition cancel_unfinished :: "list_id \<Rightarrow> unit tx_op" where
  "cancel_unfinished batch =
     bindS (stored (read_from kind_tool batch 0)) (\<lambda>executions.
     forS (\<lambda>(pos, x). if te_outcome x = None
             then stored (set_item kind_tool batch pos (settle_execution x))
             else returnS ())
       (enumerate 0 executions))"

definition tool_result_message :: "tool_call \<Rightarrow> tool_outcome \<Rightarrow> message" where
  "tool_result_message call outcome =
     ToolResult (outcome_metadata outcome) (tc_call_id call) (tc_name call) (encode_content outcome)"

definition tool_input_message :: "tool_call \<Rightarrow> content_block list \<Rightarrow> message" where
  "tool_input_message call content =
     User (JObject [(''tool_call_id'', JString (tc_call_id call)), (''tool_name'', JString (tc_name call))])
       content"

type_synonym draining = "bool \<times> (tool_call \<times> content_block list) list"

definition drain_execution :: "draining \<Rightarrow> tool_execution \<Rightarrow> draining tx_op" where
  "drain_execution acc x =
     (case acc of (unknown, inputs) \<Rightarrow>
      bindS (expectS (Storage (Corrupt ''unsettled tool batch'')) (te_outcome x)) (\<lambda>outcome.
      thenS (append_message (tool_result_message (te_call x) outcome) OriginTool)
        (returnS (unknown \<or> (case outcome of Unknown _ \<Rightarrow> True | _ \<Rightarrow> False),
           (case outcome of
              SuccessWithInput _ input \<Rightarrow> inputs @ [(te_call x, input)]
            | _ \<Rightarrow> inputs)))))"

definition drain_batch :: "list_id \<Rightarrow> bool tx_op" where
  "drain_batch batch =
     bindS (stored (read_from kind_tool batch 0)) (\<lambda>executions.
     bindS (foldS drain_execution executions (False, [])) (\<lambda>(unknown, inputs).
     thenS (stored (delete_list kind_tool batch))
    (thenS (forS (\<lambda>(call, content).
               thenS (append_message (tool_input_message call content) OriginTool) (returnS ()))
             inputs)
       (returnS unknown))))"

subsection \<open>Turns\<close>

definition tool_calls :: "response \<Rightarrow> tool_call list" where
  "tool_calls resp = List.map_filter
     (\<lambda>m. case m of
        ToolUse _ call_id name arguments \<Rightarrow>
          Some \<lparr>tc_call_id = call_id, tc_name = name, tc_arguments = arguments\<rparr>
      | _ \<Rightarrow> None) (resp_messages resp)"

definition is_acceptable :: "response \<Rightarrow> tool_call list \<Rightarrow> bool" where
  "is_acceptable resp calls \<longleftrightarrow>
     length calls \<le> 64
     \<and> (resp_stop_reason resp = StopToolUse) \<noteq> (calls = [])
     \<and> list_all (\<lambda>c. is_valid_tool_use (tc_call_id c) (tc_name c) (tc_arguments c)) calls
     \<and> distinct (map tc_call_id calls)
     \<and> \<not> list_ex (\<lambda>m. is_input m \<or> is_tool_result m) (resp_messages resp)"

definition start_turn :: "nat \<Rightarrow> bool \<Rightarrow> session_action tx_op" where
  "start_turn completed_turns needs_model =
     bindS (recordS (\<lambda>r. r)) (\<lambda>r.
     bindS (stored (list_len kind_entry_id (sr_queue r))) (\<lambda>queue_end.
     if \<not> needs_model \<and> sr_queue_head r = queue_end
     then thenS (finish_run Completed) (returnS (ActionFinished Completed))
     else let turn = completed_turns + 1 in
       thenS (consume_inputs queue_end)
      (bindS build_request (\<lambda>request'.
       thenS (start_model_call PurposeConversation (length (rq_conversation request')))
      (thenS (transition_to (CallingModel turn))
      (thenS (record_event (TurnStarted turn))
         (returnS (CallModel request'))))))))"

definition advance :: "session_action tx_op" where
  "advance =
     bindS (recordS sr_state) (\<lambda>state.
     case state of
       Idle \<Rightarrow> returnS (ActionFinished Completed)
     | Suspended outcome \<Rightarrow>
         bindS (load_event outcome) (\<lambda>event.
         case event of
           Finished outcome \<Rightarrow> returnS (ActionFinished outcome)
         | _ \<Rightarrow> failS (Storage (Corrupt ''invalid run outcome reference'')))
     | Ready completed_turns needs_model \<Rightarrow> start_turn completed_turns needs_model
     | CallingModel _ \<Rightarrow> failS UnexpectedPhase
     | Compacting _ \<Rightarrow> failS UnexpectedPhase
     | ExecutingTools _ batch \<Rightarrow>
         bindS (pending_calls_of batch) (\<lambda>calls. returnS (ExecuteTools calls)))"

definition accept_response :: "response \<Rightarrow> unit tx_op" where
  "accept_response resp =
     bindS (recordS (\<lambda>r. r)) (\<lambda>r.
     case sr_state r of
       CallingModel turn \<Rightarrow>
         if resp_stop_reason resp \<noteq> Stop \<and> resp_stop_reason resp \<noteq> StopToolUse
         then finish_run (ModelStopped resp)
         else let calls = tool_calls resp in
           if \<not> is_acceptable resp calls
           then thenS (record_event (ResponseRejected resp))
                 (finish_run (RunFailed (Malformed ''invalid agent response or tool call batch'')))
           else
             bindS (stored (list_len kind_entry (sr_entries r))) (\<lambda>entry_start.
             thenS (forS (\<lambda>m. thenS (append_message m OriginModel) (returnS ())) (resp_messages resp))
            (bindS (stored (list_len kind_entry (sr_entries r))) (\<lambda>entry_end.
             thenS (record_event (ResponseAccepted turn entry_start entry_end
                      (resp_stop_reason resp) (resp_usage resp) (resp_account_state resp)))
            (if calls = [] then complete_turn turn False else start_tool_batch turn calls))))
     | _ \<Rightarrow> failS UnexpectedPhase)"

definition accept_interruption :: "partial_response \<Rightarrow> unit tx_op" where
  "accept_interruption partial =
     bindS (recordS sr_state) (\<lambda>state.
     case state of
       CallingModel turn \<Rightarrow>
         thenS (forS (\<lambda>m. thenS (append_message m OriginInterrupted) (returnS ())) (pr_messages partial))
        (thenS (record_event (ResponseInterrupted partial))
        (thenS (record_event (StableBoundary turn))
           (finish_run Interrupted)))
     | _ \<Rightarrow> failS UnexpectedPhase)"

definition complete_tools :: "unit tx_op" where
  "complete_tools =
     bindS (recordS sr_state) (\<lambda>state.
     case state of
       ExecutingTools turn batch \<Rightarrow>
         bindS (drain_batch batch) (\<lambda>unknown.
         if unknown
         then thenS (record_event (StableBoundary turn)) (finish_run ToolOutcomeUnknown)
         else complete_turn turn True)
     | _ \<Rightarrow> failS UnexpectedPhase)"

fun is_suspended :: "session_state \<Rightarrow> bool" where
  "is_suspended (Suspended _) = True"
| "is_suspended _ = False"

text \<open>
  \<open>settle_interrupted\<close> reads the state it matches on from the record; the nested calls for a
  compaction's resumed state recurse on that state.
\<close>

fun settle_state :: "session_state \<Rightarrow> unit tx_op" where
  "settle_state (CallingModel turn) =
     thenS (record_event (StableBoundary turn)) (finish_run Interrupted)"
| "settle_state (ExecutingTools turn batch) =
     thenS (cancel_unfinished batch)
    (thenS complete_tools
    (bindS (recordS sr_state) (\<lambda>state.
     if is_suspended state then returnS () else finish_run Interrupted)))"
| "settle_state (Compacting resume) =
     thenS (transition_to resume)
    (if \<not> is_stable resume then settle_state resume
     else if \<not> is_suspended resume then finish_run Interrupted
     else returnS ())"
| "settle_state _ = returnS ()"

definition settle_interrupted :: "unit tx_op" where
  "settle_interrupted = bindS (recordS sr_state) settle_state"

subsection \<open>The owner's operations\<close>

definition require_stable :: "unit session_op" where
  "require_stable = bindS (getS (\<lambda>s. sr_state (se_record s))) (\<lambda>state.
     if is_stable state then returnS () else failS Busy)"

definition end_model_call ::
  "timestamp \<Rightarrow> call_observation \<Rightarrow> model_call_status \<Rightarrow> unit tx_op \<Rightarrow> unit session_op" where
  "end_model_call now observation status settle =
     update now
      (thenS (complete_model_call observation status)
      (thenS settle
        (set_record (\<lambda>r. r\<lparr>sr_active_model_call := None\<rparr>))))"

definition session_advance :: "timestamp \<Rightarrow> session_action session_op" where
  "session_advance now = update now advance"

definition session_accept_response ::
  "timestamp \<Rightarrow> response \<Rightarrow> call_observation \<Rightarrow> unit session_op" where
  "session_accept_response now resp observation =
     end_model_call now observation CallCompleted (accept_response resp)"

definition session_accept_interruption ::
  "timestamp \<Rightarrow> partial_response \<Rightarrow> call_observation \<Rightarrow> unit session_op" where
  "session_accept_interruption now partial observation =
     end_model_call now observation CallInterrupted (accept_interruption partial)"

definition fail_model_call :: "timestamp \<Rightarrow> run_outcome \<Rightarrow> call_observation \<Rightarrow> unit session_op" where
  "fail_model_call now outcome observation =
     end_model_call now observation CallFailed (finish_run outcome)"

definition start_tool :: "timestamp \<Rightarrow> tool_call \<Rightarrow> unit session_op" where
  "start_tool now call = update now (mark_tool_started call)"

definition accept_tool_outcome :: "timestamp \<Rightarrow> tool_call \<Rightarrow> tool_outcome \<Rightarrow> unit session_op" where
  "accept_tool_outcome now call outcome = update now (record_tool_outcome call outcome)"

definition session_complete_tools :: "timestamp \<Rightarrow> unit session_op" where
  "session_complete_tools now = update now complete_tools"

definition session_finish_run :: "timestamp \<Rightarrow> run_outcome \<Rightarrow> unit session_op" where
  "session_finish_run now outcome = update now (finish_run outcome)"

definition session_settle_interrupted :: "timestamp \<Rightarrow> unit session_op" where
  "session_settle_interrupted now = bindS (getS (\<lambda>s. sr_state (se_record s))) (\<lambda>state.
     if is_stable state then returnS () else update now settle_interrupted)"

definition resume :: "timestamp \<Rightarrow> unit session_op" where
  "resume now = thenS require_stable (update now (transition_to (Ready 0 True)))"

definition begin_compaction :: "timestamp \<Rightarrow> unit session_op" where
  "begin_compaction now = thenS require_stable
     (update now (bindS (recordS sr_state) (\<lambda>state. transition_to (Compacting state))))"

definition end_compaction :: "timestamp \<Rightarrow> unit session_op" where
  "end_compaction now =
     update now (bindS (recordS sr_state) (\<lambda>state.
       case state of
         Compacting resume' \<Rightarrow>
           thenS (set_record (\<lambda>r. r\<lparr>sr_active_model_call := None\<rparr>)) (transition_to resume')
       | _ \<Rightarrow> failS UnexpectedPhase))"

definition has_queued_input :: "bool session_op" where
  "has_queued_input = (\<lambda>s.
     case list_len kind_entry_id (sr_queue (se_record s)) (se_store s) of
       Inl e \<Rightarrow> Inl (Storage e)
     | Inr (n, _) \<Rightarrow> Inr (n > sr_queue_head (se_record s), s))"

definition pending_input_messages :: "timestamp \<Rightarrow> message list session_op" where
  "pending_input_messages now = read now (bindS pending_ids (mapS load_message))"

definition collect_inputs :: "timestamp \<Rightarrow> unit session_op" where
  "collect_inputs now =
     bindS (getS (\<lambda>s. sr_state (se_record s))) (\<lambda>state.
     if state \<noteq> Idle then returnS ()
     else bindS has_queued_input (\<lambda>queued.
       if \<not> queued then returnS ()
       else update now (
         bindS (recordS (\<lambda>r. r)) (\<lambda>r.
         bindS (stored (list_len kind_entry_id (sr_queue r))) (\<lambda>n.
         if sr_queue_head r < n then transition_to (Ready 0 True) else returnS ())))))"

definition session_build_request :: "timestamp \<Rightarrow> request session_op" where
  "session_build_request now = read now build_request"

definition prepare_standby_generation :: "timestamp \<Rightarrow> entry_id list \<Rightarrow> unit session_op" where
  "prepare_standby_generation now entries =
     thenS require_stable (update now (prepare_generation entries))"

definition activate_standby_generation :: "timestamp \<Rightarrow> unit session_op" where
  "activate_standby_generation now = thenS require_stable (update now activate_generation)"

subsection \<open>What the end of a run leaves behind\<close>

lemma abandon_running_call_Inr:
  assumes "abandon_running_call oc s = Inr (u, t)"
  obtains "t = s\<lparr>tx_record := (tx_record s)\<lparr>sr_active_model_call := None\<rparr>\<rparr>"
  | n cells call status where "sr_active_model_call (tx_record s) = Some n"
      "tx_lists s (sr_model_calls (tx_record s)) = Some (sv_kind kind_call, cells)"
      "cell_at cells n = Some (StCall call)" "mc_status call = CallRunning"
      "status = (if oc = Interrupted then CallInterrupted else CallFailed)"
      "t = put_list (sr_model_calls (tx_record s)) (sv_kind kind_call)
         (cells[n := Some (StCall (abandon status (tx_recorded_at s) call))])
         (s\<lparr>tx_record := (tx_record s)\<lparr>sr_active_model_call := None\<rparr>\<rparr>)"
proof (cases "sr_active_model_call (tx_record s)")
  case None
  with assms that(1) show thesis by (auto simp: abandon_running_call_def st_Inr)
next
  case (Some n)
  let ?u = "s\<lparr>tx_record := (tx_record s)\<lparr>sr_active_model_call := None\<rparr>\<rparr>"
  from assms Some obtain found v where g: "get_item kind_call (sr_model_calls (tx_record s)) n (tx_store s)
      = Inr (found, v)"
    and t: "(case found of None \<Rightarrow> returnS () | Some call \<Rightarrow>
        if mc_status call = CallRunning
        then stored (set_item kind_call (sr_model_calls (tx_record s)) n
          (abandon (if oc = Interrupted then CallInterrupted else CallFailed)
             (tx_recorded_at (?u\<lparr>tx_store := v\<rparr>)) call))
        else returnS ()) (?u\<lparr>tx_store := v\<rparr>) = Inr (u, t)"
    by (auto simp: abandon_running_call_def st_Inr)
  from g obtain cells where v: "v = tx_store s"
      "tx_lists s (sr_model_calls (tx_record s)) = Some (sv_kind kind_call, cells)"
      "case cell_at cells n of None \<Rightarrow> found = None | Some v \<Rightarrow> found = sv_dec kind_call v \<and> found \<noteq> None"
    unfolding get_item_Inr by blast
  have u: "?u\<lparr>tx_store := v\<rparr> = ?u" using v(1) by simp
  show thesis
  proof (cases "\<exists>call. found = Some call \<and> mc_status call = CallRunning")
    case False
    with t u have "t = ?u" by (auto split: option.splits)
    then show thesis by (rule that(1))
  next
    case True
    then obtain call where c: "found = Some call" "mc_status call = CallRunning" by blast
    with v(3) have "cell_at cells n = Some (StCall call)" by (auto split: option.splits)
    moreover from t c u v(2) have "t = put_list (sr_model_calls (tx_record s)) (sv_kind kind_call)
       (cells[n := Some (StCall (abandon (if oc = Interrupted then CallInterrupted else CallFailed)
          (tx_recorded_at s) call))]) ?u"
      by (auto simp: put_list_def)
    ultimately show thesis using that(2) Some v(2) c(2) by blast
  qed
qed

subsection \<open>A turn\<close>

text \<open>Operations that leave the queue, the context and the entries alone.\<close>

definition quiet :: "tx \<Rightarrow> tx \<Rightarrow> bool" where
  "quiet s t \<longleftrightarrow> (\<forall>q c. consumable q c s \<longrightarrow> consumable q c t)
     \<and> sr_entries (tx_record t) = sr_entries (tx_record s)
     \<and> (\<forall>es. tx_lists s (sr_entries (tx_record s)) = Some (sv_kind kind_entry, es) \<longrightarrow>
           tx_lists t (sr_entries (tx_record s)) = Some (sv_kind kind_entry, es))"

interpretation quiet: step_order quiet
  by unfold_locales (auto simp: quiet_def)

lemma quiet_only:
  assumes "only Ks s t" and "Ks \<inter> {sv_kind kind_entry_id, sv_kind kind_generation, sv_kind kind_entry} = {}"
  shows "quiet s t"
proof -
  have "sv_kind kind_entry \<notin> Ks" using assms(2) by blast
  then show ?thesis
    unfolding quiet_def
    using consumable_only [OF _ assms] only_record [OF assms(1)] only_lists [OF assms(1)] by simp
qed

lemma quiet_record_event [intro!, simp]: "steps quiet (record_event ev)"
  by (rule stepsI, drule stepsD [OF only_record_event]) (auto intro!: quiet_only)

lemma quiet_recordS [intro!, simp]: "steps quiet (recordS f)"
  by (rule stepsI) (auto simp: quiet.refl)

lemma quiet_set_record [intro!, simp]:
  "steps quiet (set_record (\<lambda>r. r\<lparr>sr_state := st\<rparr>))"
  "steps quiet (set_record (\<lambda>r. r\<lparr>sr_active_model_call := c\<rparr>))"
  by (auto intro!: stepsI simp: quiet_def elim!: consumable_cong)

lemma quiet_transition_to [intro!, simp]: "steps quiet (transition_to st)"
  unfolding transition_to_def by auto

lemma quiet_start_model_call [intro!, simp]: "steps quiet (start_model_call p n)"
proof (rule stepsI)
  fix s u t
  assume "start_model_call p n s = Inr (u, t)"
  then obtain cells x where c: "tx_lists s (sr_model_calls (tx_record s)) = Some (sv_kind kind_call, cells)"
    and t: "t = (put_list (sr_model_calls (tx_record s)) (sv_kind kind_call) (cells @ [x]) s)
       \<lparr>tx_record := (tx_record s)\<lparr>sr_active_model_call := Some (length cells)\<rparr>\<rparr>"
    by (blast dest: start_model_call_Inr)
  let ?p = "put_list (sr_model_calls (tx_record s)) (sv_kind kind_call) (cells @ [x]) s"
  have "only {sv_kind kind_call} s ?p" using c by (auto intro: only_put_list)
  then have "quiet s ?p" by (rule quiet_only) auto
  moreover have "quiet ?p t"
    using t by (auto simp: quiet_def elim!: consumable_cong)
  ultimately show "quiet s t" by (rule quiet.trans)
qed

lemma transition_to_state: "transition_to st s = Inr (u, t) \<Longrightarrow> sr_state (tx_record t) = st"
  by (auto simp: transition_to_def st_Inr dest!: stepsD [OF only_record_event] only_record)

lemma record_event_record: "record_event ev s = Inr (n, t) \<Longrightarrow> tx_record t = tx_record s"
  by (auto dest!: stepsD [OF only_record_event] only_record)

text \<open>The messages a set of entries holds, read off the entries of the session.\<close>

lemma stored_message_quiet:
  "quiet s t \<Longrightarrow> tx_lists s (sr_entries (tx_record s)) = Some (sv_kind kind_entry, es) \<Longrightarrow>
     stored_message t = stored_message s"
  by (auto simp: quiet_def stored_message_def fun_eq_iff)

lemma start_turn_effect:
  assumes "consumable q c s" and "start_turn n needs s = Inr (act, t)"
  shows "case act of
      CallModel rq \<Rightarrow> consumable [] (c @ q) t \<and> sr_state (tx_record t) = CallingModel (n + 1)
        \<and> stored_message t = stored_message s
        \<and> map (stored_message s) (c @ q) = map Some (rq_conversation rq)
        \<and> rq = config_build_request (sr_config (tx_record s)) (rq_conversation rq)
    | ActionFinished oc \<Rightarrow> oc = Completed \<and> q = [] \<and> \<not> needs \<and> finish_run Completed s = Inr ((), t)
    | ExecuteTools _ \<Rightarrow> False"
proof -
  from assms(1) obtain cells where
    c: "tx_lists s (sr_queue (tx_record s)) = Some (sv_kind kind_entry_id, cells)"
      "sr_queue_head (tx_record s) \<le> length cells"
      "drop (sr_queue_head (tx_record s)) cells = map (Some \<circ> StEntryId) q"
    by (rule consumableE) blast
  have n: "stored (list_len kind_entry_id (sr_queue (tx_record s))) s = Inr (length cells, s)"
    using c(1) by (simp add: list_len_Inr stored_Inr)
  show ?thesis
  proof (cases "\<not> needs \<and> sr_queue_head (tx_record s) = length cells")
    case True
    with assms(2) n have "act = ActionFinished Completed" "finish_run Completed s = Inr ((), t)"
      by (simp_all add: start_turn_def bindS_recordS bindS_def [of "stored _"] thenS_Inr)
    with True c(3) show ?thesis by simp
  next
    case False
    with assms(2) n obtain s1 rq s2 s3 s4 where
      a: "consume_inputs (length cells) s = Inr ((), s1)" "build_request s1 = Inr (rq, s2)"
        "start_model_call PurposeConversation (length (rq_conversation rq)) s2 = Inr ((), s3)"
        "transition_to (CallingModel (n + 1)) s3 = Inr ((), s4)" "act = CallModel rq"
      and t: "\<exists>k. record_event (TurnStarted (n + 1)) s4 = Inr (k, t)"
      by (auto simp: start_turn_def bindS_recordS bindS_def [of "stored _"] Let_def thenS_Inr bindS_Inr)
    note e = consume_inputs_effect [OF assms(1) a(1) n]
    note r = build_request_context [OF e(1) a(2)]
    have "quiet s2 t"
      using a(3,4) t by (blast intro: quiet.trans dest: stepsD [OF quiet_start_model_call]
          stepsD [OF quiet_transition_to] stepsD [OF quiet_record_event])
    moreover from e(1) obtain es where
      "tx_lists s1 (sr_entries (tx_record s1)) = Some (sv_kind kind_entry, es)" by (rule consumableE) blast
    ultimately have "consumable [] (c @ q) t" "stored_message t = stored_message s1"
      using e(1) r(1) by (auto simp: quiet_def intro: stored_message_quiet)
    moreover have "sr_state (tx_record t) = CallingModel (n + 1)"
      using transition_to_state [OF a(4)] t record_event_record by metis
    moreover have "stored_message s1 = stored_message s"
      using e(2,5) by (simp add: stored_message_def fun_eq_iff)
    ultimately show ?thesis using a(5) r(2,3) e(3) by simp
  qed
qed

end
