(* ===== verification/Compaction.thy ===== *)
theory Compaction
  imports Machine
begin

text \<open>
  The commits of compaction: a standby summary and a local cutover
  (\<open>session/context/compaction.rs\<close>), an upstream compaction (\<open>compaction/upstream.rs\<close>) and the
  translation of an encrypted compaction item (\<open>compaction/translation.rs\<close>). Each names the active
  generation it was computed against and is refused when another is active.
\<close>

subsection \<open>Standby summaries\<close>

definition seed_standby :: "generation \<Rightarrow> generation \<Rightarrow> nat \<Rightarrow> generation tx_op" where
  "seed_standby active standby start =
     (if gn_source standby \<noteq> None then returnS standby
      else bindS (replace_entries standby) (\<lambda>standby.
        if start > 0
        then bindS (stored (read_page kind_entry_id (gn_entries active) 0 start)) (\<lambda>prefix.
             thenS (stored (append_items kind_entry_id (gn_entries standby) (pg_items prefix)))
               (returnS standby))
        else returnS standby))"

definition standby_summary ::
  "generation_id \<Rightarrow> nat \<Rightarrow> nat \<Rightarrow> message \<Rightarrow> response \<Rightarrow> model_call_id \<Rightarrow> unit tx_op" where
  "standby_summary expected_active start end' summary resp call =
     bindS (recordS (\<lambda>r. r)) (\<lambda>r.
     bindS (load_generation (sr_active r)) (\<lambda>active.
     if gn_id active \<noteq> expected_active then failS StaleGeneration
     else
       bindS (load_generation (sr_standby r)) (\<lambda>standby.
       let expected = (case summarized_end standby active of
             Some e \<Rightarrow> e
           | None \<Rightarrow> max (gn_compaction_cursor active) start) in
       if start \<noteq> expected \<or> end' \<le> start then failS StaleGeneration
       else
         bindS (stored (list_len kind_entry_id (gn_entries active))) (\<lambda>length'.
         if end' > length' then failS StaleGeneration else
         bindS (seed_standby active standby start) (\<lambda>standby.
         with_model_call call (
           bindS (store_entry summary OriginSummary) (\<lambda>e.
           thenS (stored (append_item kind_entry_id (gn_entries standby) e))
          (bindS (stored (list_len kind_entry_id (gn_entries standby))) (\<lambda>cursor.
           thenS (save_generation (standby\<lparr>gn_source := Some (gn_id active, end'),
                    gn_compaction_cursor := cursor\<rparr>))
          (thenS (record_event (CompactionSummary expected_active start end' e resp))
             (returnS ())))))))))))"

definition append_standby_summary ::
  "timestamp \<Rightarrow> generation_id \<Rightarrow> nat \<Rightarrow> nat \<Rightarrow> message \<Rightarrow> response \<Rightarrow> model_call_id
   \<Rightarrow> unit session_op" where
  "append_standby_summary now expected_active start end' summary resp call =
     update now (standby_summary expected_active start end' summary resp call)"

subsection \<open>Local cutover\<close>

text \<open>The slice of the seed panics when the cursor is past the entries.\<close>

definition local_compaction ::
  "generation_id \<Rightarrow> entry_id list \<Rightarrow> nat \<Rightarrow> nat \<Rightarrow> token_measurement \<Rightarrow> compaction_reason
   \<Rightarrow> unit tx_op" where
  "local_compaction expected_active entries compaction_cursor removed measurement reason =
     bindS (recordS (\<lambda>r. r)) (\<lambda>r.
     if sr_active r \<noteq> expected_active then failS StaleGeneration
     else
       bindS (load_generation (sr_standby r)) (\<lambda>standby.
       bindS (replace_entries standby) (\<lambda>standby.
       thenS (stored (append_items kind_entry_id (gn_entries standby) entries))
      (thenS (save_generation (standby\<lparr>gn_compaction_cursor := compaction_cursor\<rparr>))
      (bindS promote_standby (\<lambda>previous.
       if compaction_cursor > length entries then failS (Panic ''range end index out of range'')
       else
         thenS (append_standby (take compaction_cursor entries) compaction_cursor
                  (Some (gn_id standby, compaction_cursor)))
        (thenS (record_event (ContextCompacted previous (gn_id standby) reason removed measurement))
           (returnS ()))))))))"

definition commit_local_compaction ::
  "timestamp \<Rightarrow> generation_id \<Rightarrow> entry_id list \<Rightarrow> nat \<Rightarrow> nat \<Rightarrow> token_measurement
   \<Rightarrow> compaction_reason \<Rightarrow> unit session_op" where
  "commit_local_compaction now expected_active entries compaction_cursor removed measurement reason =
     update now
       (local_compaction expected_active entries compaction_cursor removed measurement reason)"

subsection \<open>Upstream compaction\<close>

text \<open>\<open>original_count - prefix.len()\<close> in \<open>u64\<close>, which wraps.\<close>

definition wrapping_sub :: "nat \<Rightarrow> nat \<Rightarrow> nat" where
  "wrapping_sub a b = (a + (2 ^ 64 - b mod 2 ^ 64)) mod 2 ^ 64"

definition store_summary :: "list_id \<Rightarrow> message \<Rightarrow> unit tx_op" where
  "store_summary list message =
     bindS (store_entry message OriginSummary) (\<lambda>e.
     thenS (stored (append_item kind_entry_id list e)) (returnS ()))"

definition upstream_compaction_commit ::
  "generation_id \<Rightarrow> entry_id list \<Rightarrow> message list \<Rightarrow> message \<Rightarrow> token_measurement
   \<Rightarrow> compaction_reason \<Rightarrow> unit tx_op" where
  "upstream_compaction_commit expected_active prefix body continuation measurement reason =
     bindS (recordS sr_active) (\<lambda>active_id.
     bindS (load_generation active_id) (\<lambda>active.
     if gn_id active \<noteq> expected_active then failS StaleGeneration
     else
       bindS (stored (list_len kind_entry_id (gn_entries active))) (\<lambda>original_count.
       bindS (allocate_list kind_entry_id) (\<lambda>list.
       thenS (stored (append_items kind_entry_id list prefix))
      (thenS (forS (store_summary list) body)
      (bindS (stored (list_len kind_entry_id list)) (\<lambda>compaction_cursor.
       thenS (store_summary list continuation)
      (bindS (append_generation GenActive list compaction_cursor None) (\<lambda>id'.
       thenS (switch_active id')
      (bindS (recordS sr_standby) (\<lambda>standby_id.
       bindS (load_generation standby_id) (\<lambda>standby.
       thenS (if gn_source standby \<noteq> None then reset_standby
              else bindS (stored (list_len kind_entry_id (gn_entries standby))) (\<lambda>n.
                if n \<noteq> 0 then reset_standby else returnS ()))
      (thenS (record_event (ContextCompacted (gn_id active) id' reason
                (wrapping_sub original_count (length prefix)) measurement))
         (returnS ()))))))))))))))"

definition commit_upstream_compaction ::
  "timestamp \<Rightarrow> generation_id \<Rightarrow> entry_id list \<Rightarrow> message list \<Rightarrow> message \<Rightarrow> token_measurement
   \<Rightarrow> compaction_reason \<Rightarrow> unit session_op" where
  "commit_upstream_compaction now expected_active prefix body continuation measurement reason =
     update now
       (upstream_compaction_commit expected_active prefix body continuation measurement reason)"

subsection \<open>Translation\<close>

definition compaction_translation ::
  "generation_id \<Rightarrow> entry_id list \<Rightarrow> message \<Rightarrow> entry_id list \<Rightarrow> run_outcome option
   \<Rightarrow> session_config \<Rightarrow> unit tx_op" where
  "compaction_translation expected_active prefix replacement suffix failure config =
     bindS (recordS sr_active) (\<lambda>active.
     if active \<noteq> expected_active then failS StaleGeneration
     else
       thenS (set_record (\<lambda>r. r\<lparr>sr_config := config\<rparr>))
      (bindS (allocate_list kind_entry_id) (\<lambda>list.
       thenS (stored (append_items kind_entry_id list prefix))
      (bindS (store_entry replacement OriginSummary) (\<lambda>e.
       thenS (stored (append_item kind_entry_id list e))
      (thenS (stored (append_items kind_entry_id list suffix))
      (bindS (append_generation GenActive list (length prefix + 1) None) (\<lambda>id'.
       thenS (switch_active id')
      (thenS reset_standby
      (thenS (case failure of
                Some outcome \<Rightarrow>
                  thenS (record_event (CompactionTranslationFailed outcome)) (returnS ())
              | None \<Rightarrow> returnS ())
      (thenS (record_event (CompactionTranslationCompleted expected_active id' e (failure = None)))
      (thenS (record_event (ConfigUpdated config)) (returnS ())))))))))))))"

definition commit_compaction_translation ::
  "timestamp \<Rightarrow> generation_id \<Rightarrow> entry_id list \<Rightarrow> message \<Rightarrow> entry_id list \<Rightarrow> run_outcome option
   \<Rightarrow> session_config \<Rightarrow> unit session_op" where
  "commit_compaction_translation now expected_active prefix replacement suffix failure config =
     thenS (liftR (validate_config config))
       (update now
         (compaction_translation expected_active prefix replacement suffix failure config))"

end
