(* ===== verification/Configuration.thy ===== *)
theory Configuration
  imports Machine
begin

text \<open>
  Changing a session's settings (\<open>session/config.rs\<close>): metadata, the whole configuration, a
  change of tools deferred to the next generation, and a managed system instruction, which starts a
  new generation when it changes.
\<close>

definition update_metadata :: "timestamp \<Rightarrow> json \<Rightarrow> unit session_op" where
  "update_metadata now value =
     update now
      (thenS (set_record (\<lambda>r. r\<lparr>sr_metadata := value\<rparr>))
      (thenS (record_event (MetadataUpdated value)) (returnS ())))"

text \<open>Both generations of the session take the configuration.\<close>

definition configure_generation :: "session_config \<Rightarrow> generation_id \<Rightarrow> unit tx_op" where
  "configure_generation config id' =
     bindS (load_generation id') (\<lambda>g. save_generation (g\<lparr>gn_config := config\<rparr>))"

definition configure_generations :: "session_config \<Rightarrow> unit tx_op" where
  "configure_generations config =
     bindS (recordS (\<lambda>r. [sr_active r, sr_standby r])) (forS (configure_generation config))"

definition set_config :: "timestamp \<Rightarrow> session_config \<Rightarrow> unit session_op" where
  "set_config now config =
     thenS require_stable
    (thenS (liftR (validate_config config))
    (update now
      (thenS (configure_generations config)
      (thenS (set_record (\<lambda>r. r\<lparr>sr_config := config\<rparr>))
      (thenS (record_event (ConfigUpdated config)) (returnS ()))))))"

definition defer_instruction_config ::
  "timestamp \<Rightarrow> string \<Rightarrow> string \<Rightarrow> string \<Rightarrow> session_config \<Rightarrow> tool list \<Rightarrow> unit session_op" where
  "defer_instruction_config now source text notice immediate next_tools =
     thenS require_stable
    (thenS (liftR (validate_config immediate))
    (update now
      (thenS (set_record (\<lambda>r. r\<lparr>
          sr_next_generation_instructions :=
            bt_insert source text (sr_next_generation_instructions r),
          sr_next_generation_tools := Some next_tools,
          sr_config := immediate\<rparr>))
      (thenS (configure_generations immediate)
      (thenS (append_input (instruction_notice source text notice))
      (thenS (record_event (ConfigUpdated immediate)) (returnS ())))))))"

definition has_deferred_instruction :: "string \<Rightarrow> session \<Rightarrow> bool" where
  "has_deferred_instruction source s \<longleftrightarrow>
     map_of (sr_next_generation_instructions (se_record s)) source \<noteq> None"

subsection \<open>A managed system instruction\<close>

definition is_managed_by :: "string \<Rightarrow> message \<Rightarrow> bool" where
  "is_managed_by source message =
     (case message of
        System metadata _ \<Rightarrow> json_index metadata ''source'' = JString source
      | _ \<Rightarrow> False)"

text \<open>Messages are compared as they serialize; both are system messages here.\<close>

definition differs_from :: "message \<Rightarrow> message \<Rightarrow> bool" where
  "differs_from desired message \<longleftrightarrow>
     set_metadata (json_norm (get_metadata message)) message
       \<noteq> set_metadata (json_norm (get_metadata desired)) desired"

definition scan_instruction ::
  "string \<Rightarrow> message \<Rightarrow> nat list \<times> bool \<Rightarrow> nat \<times> entry_id \<Rightarrow> (nat list \<times> bool) tx_op" where
  "scan_instruction source desired acc item =
     (case (acc, item) of ((positions, changed), (pos, id')) \<Rightarrow>
      bindS (load_entry id') (\<lambda>e.
      if is_managed_by source (en_message e)
      then returnS (positions @ [pos], changed \<or> differs_from desired (en_message e))
      else returnS (positions, changed)))"

definition system_instruction_config ::
  "string \<Rightarrow> string \<Rightarrow> session_config \<Rightarrow> unit tx_op" where
  "system_instruction_config source text config =
     bindS (recordS (\<lambda>r. r)) (\<lambda>r.
     bindS (load_generation (sr_active r)) (\<lambda>active.
     bindS (stored (read_from kind_entry_id (gn_entries active) 0)) (\<lambda>ids.
     let desired = instruction_message source text in
     bindS (foldS (scan_instruction source desired) (enumerate 0 ids) ([], False))
       (\<lambda>(positions, changed).
     let config_changed = (norm_config (sr_config r) \<noteq> norm_config config) in
     thenS
       (if changed \<or> positions = []
        then
          bindS (store_entry desired OriginContext) (\<lambda>e.
          bindS (allocate_list kind_entry_id) (\<lambda>list.
          thenS (if positions = []
                 then thenS (stored (append_item kind_entry_id list e)) (returnS ())
                 else returnS ())
         (thenS (forS (\<lambda>(pos, id'). thenS (stored (append_item kind_entry_id list
                    (if pos \<in> set positions then e else id'))) (returnS ())) (enumerate 0 ids))
         (thenS (set_record (\<lambda>r. r\<lparr>sr_config := config\<rparr>))
         (bindS (append_generation GenActive list
                   (gn_compaction_cursor active
                     + (if positions = [] \<and> gn_compaction_cursor active > 0 then 1 else 0)) None)
            (\<lambda>next.
          thenS (switch_active next)
         (bindS (load_entry e) (\<lambda>stored'.
          thenS (record_history (FactMessage stored') None)
            reset_standby))))))))
        else if config_changed
        then thenS (set_record (\<lambda>r. r\<lparr>sr_config := config\<rparr>)) (configure_generations config)
        else returnS ())
       (if config_changed
        then thenS (record_event (ConfigUpdated config)) (returnS ())
        else returnS ())))))"

definition set_system_instruction_config ::
  "timestamp \<Rightarrow> string \<Rightarrow> string \<Rightarrow> session_config \<Rightarrow> unit session_op" where
  "set_system_instruction_config now source text config =
     thenS require_stable
    (thenS (liftR (validate_config config))
    (update now (system_instruction_config source text config)))"

end
