(* ===== verification/Lifecycle.thy ===== *)
theory Lifecycle
  imports Compaction Configuration
begin

text \<open>
  Creating, loading, deleting and importing sessions (\<open>session/lifecycle.rs\<close>). A session lives
  under the key \<open>session/\<close> and the hexadecimal form of its id.
\<close>

definition hex_digit :: "nat \<Rightarrow> char" where
  "hex_digit d = (if d < 10 then char_of (48 + d) else char_of (87 + d))"

definition hex_encode :: "string \<Rightarrow> string" where
  "hex_encode text =
     concat (map (\<lambda>c. let n = (of_char c :: nat) in [hex_digit (n div 16), hex_digit (n mod 16)]) text)"

definition build_key :: "string \<Rightarrow> string" where
  "build_key session_id = ''session/'' @ hex_encode session_id"

subsection \<open>Importing\<close>

definition import_message ::
  "generation \<Rightarrow> nat \<Rightarrow> nat option \<Rightarrow> nat \<times> message \<times> entry_origin \<Rightarrow> nat option tx_op" where
  "import_message g start cursor item =
     (case item of (pos, message, origin) \<Rightarrow>
      if origin = OriginSummary \<or> origin = OriginContext
      then bindS (store_entry message origin) (\<lambda>e.
           thenS (stored (append_item kind_entry_id (gn_entries g) e))
             (returnS (Some (start + pos + 1))))
      else thenS (append_message message OriginImported) (returnS cursor))"

definition import_messages :: "(message \<times> entry_origin) list \<Rightarrow> unit tx_op" where
  "import_messages messages =
     bindS (recordS sr_active) (\<lambda>active.
     bindS (load_generation active) (\<lambda>g.
     bindS (stored (list_len kind_entry_id (gn_entries g))) (\<lambda>start.
     bindS (foldS (import_message g start) (enumerate 0 messages) None) (\<lambda>cursor.
     case cursor of
       Some cursor \<Rightarrow> save_generation (g\<lparr>gn_compaction_cursor := max (gn_compaction_cursor g) cursor\<rparr>)
     | None \<Rightarrow> returnS ()))))"

definition import_history ::
  "timestamp \<Rightarrow> (message \<times> entry_origin) list \<Rightarrow> unit session_op" where
  "import_history now messages =
     thenS require_stable
    (thenS (liftR (validate_tool_pairs (map fst messages)))
      (update now (import_messages messages)))"

subsection \<open>Creating and loading\<close>

definition initial_record :: "string \<Rightarrow> session_config \<Rightarrow> json option \<Rightarrow> session_record" where
  "initial_record key config metadata =
     \<lparr>sr_next_generation_tools = None, sr_next_generation_instructions = [],
      sr_metadata = (case metadata of None \<Rightarrow> JNull | Some m \<Rightarrow> m),
      sr_config = config, sr_state = Idle, sr_active = 0, sr_standby = 0,
      sr_entries = key @ ''/entries'', sr_events = key @ ''/events'',
      sr_history = key @ ''/history'', sr_generations = key @ ''/generations'',
      sr_queue = key @ ''/queue'', sr_queue_head = 0, sr_next_list_id = 0,
      sr_model_calls = key @ ''/model_calls'', sr_active_model_call = None\<rparr>"

definition create_lists :: "unit tx_op" where
  "create_lists =
     bindS (recordS (\<lambda>r. r)) (\<lambda>r.
     thenS (stored (create_list kind_call (sr_model_calls r)))
    (thenS (stored (create_list kind_entry (sr_entries r)))
    (thenS (stored (create_list kind_event (sr_events r)))
    (thenS (stored (create_list kind_history (sr_history r)))
    (thenS (stored (create_list kind_generation (sr_generations r)))
      (stored (create_list kind_entry_id (sr_queue r))))))))"

definition initialize ::
  "session_config \<Rightarrow> json option \<Rightarrow> (message \<times> entry_origin) list \<Rightarrow> message option \<Rightarrow> unit tx_op" where
  "initialize config metadata history first_input =
     thenS create_lists
    (bindS (allocate_list kind_entry_id) (\<lambda>entries.
     bindS (append_generation GenActive entries 0 None) (\<lambda>active.
     thenS (set_record (\<lambda>r. r\<lparr>sr_active := active\<rparr>))
    (thenS (append_standby [] 0 None)
    (thenS (record_event (Created config))
    (thenS (case metadata of
              Some m \<Rightarrow> thenS (record_event (MetadataUpdated m)) (returnS ())
            | None \<Rightarrow> returnS ())
    (thenS (import_messages history)
    (thenS (case first_input of
              Some message \<Rightarrow> thenS (append_input message) (returnS ())
            | None \<Rightarrow> returnS ())
    (bindS (recordS (\<lambda>r. r)) (\<lambda>r.
     bindS (getS tx_key) (\<lambda>key.
     stored (create_object kind_record key r))))))))))))"

text \<open>
  The store of other sessions and of this one is one; \<open>claim_owner\<close> refuses a key another owner
  holds (\<open>owned\<close>).
\<close>

definition from_record ::
  "string \<Rightarrow> session_record \<Rightarrow> stored_data store \<Rightarrow> session_error + session" where
  "from_record key r store =
     (case list_len kind_entry_id (sr_queue r) store of
        Inl e \<Rightarrow> Inl (Storage e)
      | Inr (n, _) \<Rightarrow> Inr \<lparr>se_record = r, se_key = key, se_store = store, se_queue_size = n\<rparr>)"

definition create_initialized ::
  "timestamp \<Rightarrow> string list \<Rightarrow> stored_data store \<Rightarrow> string \<Rightarrow> session_config \<Rightarrow> json option
   \<Rightarrow> (message \<times> entry_origin) list \<Rightarrow> message option \<Rightarrow> session_error + session" where
  "create_initialized now owned store session_id config metadata history first_input =
     bindR (validate_tool_pairs (map fst history)) (\<lambda>_.
     if (case first_input of Some m \<Rightarrow> \<not> is_input m | None \<Rightarrow> False) then Inl InvalidInput
     else bindR (validate_config config) (\<lambda>_.
       let key = build_key session_id in
       if key \<in> set owned then Inl (Storage (AlreadyOpen key))
       else
         (case initialize config metadata history first_input
                 \<lparr>tx_record = initial_record key config metadata, tx_store = store, tx_key = key,
                  tx_recorded_at = now\<rparr> of
            Inl e \<Rightarrow> Inl e
          | Inr (_, t) \<Rightarrow> from_record key (tx_record t) (tx_store t))))"

definition create ::
  "timestamp \<Rightarrow> string list \<Rightarrow> stored_data store \<Rightarrow> string \<Rightarrow> session_config \<Rightarrow> session_error + session" where
  "create now owned store session_id config =
     create_initialized now owned store session_id config None [] None"

definition new_session :: "timestamp \<Rightarrow> session_config \<Rightarrow> session_error + session" where
  "new_session now config = create now [] empty_store ''default'' config"

definition load_session :: "string list \<Rightarrow> stored_data store \<Rightarrow> string \<Rightarrow> session_error + session" where
  "load_session owned store session_id =
     (let key = build_key session_id in
      if key \<in> set owned then Inl (Storage (AlreadyOpen key))
      else case load_object kind_record key store of
        Inl e \<Rightarrow> Inl (Storage e)
      | Inr (r, _) \<Rightarrow> from_record key r store)"

definition delete_session :: "unit session_op" where
  "delete_session =
     thenS require_stable (\<lambda>s.
       case delete_namespace (se_key s) (se_store s) of
         Inl e \<Rightarrow> Inl (Storage e)
       | Inr (_, store) \<Rightarrow> Inr ((), s\<lparr>se_store := store\<rparr>))"

end
