(* ===== verification/Prune.thy ===== *)
theory Prune
  imports Lifecycle
begin

text \<open>
  Releasing the history the context no longer uses (\<open>session/history/prune.rs\<close>), and the resources
  messages name (\<open>session/resources.rs\<close>).

  Parameters: \<open>references\<close> is the function a caller of \<open>prune_history\<close> passes;
  \<open>event_json\<close> is the derived serializer of events; \<open>parse_uuid\<close>, \<open>decode_base64\<close> and
  \<open>sha256_hex\<close> are library functions; \<open>size_of\<close> and \<open>row_size\<close> measure stored values.
\<close>

subsection \<open>Resources\<close>

definition is_ascii_digit :: "char \<Rightarrow> bool" where
  "is_ascii_digit c \<longleftrightarrow> 48 \<le> (of_char c :: nat) \<and> (of_char c :: nat) \<le> 57"

definition is_ascii_hexdigit :: "char \<Rightarrow> bool" where
  "is_ascii_hexdigit c \<longleftrightarrow> is_ascii_digit c
     \<or> (65 \<le> (of_char c :: nat) \<and> (of_char c :: nat) \<le> 70)
     \<or> (97 \<le> (of_char c :: nat) \<and> (of_char c :: nat) \<le> 102)"

definition is_word_char :: "char \<Rightarrow> bool" where
  "is_word_char c \<longleftrightarrow> is_ascii_digit c
     \<or> (65 \<le> (of_char c :: nat) \<and> (of_char c :: nat) \<le> 90)
     \<or> (97 \<le> (of_char c :: nat) \<and> (of_char c :: nat) \<le> 122) \<or> c = CHR ''-''"

text \<open>\<open>str::split\<close>: the pieces between separators, empty ones included.\<close>

fun split_on :: "('a \<Rightarrow> bool) \<Rightarrow> 'a list \<Rightarrow> 'a list list" where
  "split_on sep [] = [[]]"
| "split_on sep (c # rest) =
     (if sep c then [] # split_on sep rest
      else case split_on sep rest of
        [] \<Rightarrow> [[c]]
      | piece # pieces \<Rightarrow> (c # piece) # pieces)"

definition is_blob_id :: "string \<Rightarrow> bool" where
  "is_blob_id word \<longleftrightarrow> length word = 64 \<and> list_all is_ascii_hexdigit word"

definition is_execution_id :: "string \<Rightarrow> bool" where
  "is_execution_id word =
     (case split_on (\<lambda>c. c = CHR ''-'') word of
        [a, b, c] \<Rightarrow> list_all (\<lambda>part. part \<noteq> [] \<and> list_all is_ascii_digit part) [a, b, c]
      | _ \<Rightarrow> False)"

record resource_env =
  parse_uuid :: "string \<Rightarrow> bool"
  decode_base64 :: "string \<Rightarrow> string option"
  sha256_hex :: "string \<Rightarrow> string"

definition word_resources :: "resource_env \<Rightarrow> string \<Rightarrow> string list" where
  "word_resources env word =
     (if is_blob_id word \<or> is_execution_id word then [word]
      else if parse_uuid env word then [''snapshot:'' @ word]
      else [])"

fun collect :: "resource_env \<Rightarrow> json \<Rightarrow> string list"
  and collect_field :: "resource_env \<Rightarrow> string \<times> json \<Rightarrow> string list" where
  "collect env (JString text) =
     concat (map (word_resources env) (split_on (\<lambda>c. \<not> is_word_char c) text))"
| "collect env (JArray items) = concat (map (collect env) items)"
| "collect env (JObject members) = concat (map (collect_field env) members)"
| "collect env _ = []"
| "collect_field env (key, item) =
     (case item of
        JString data \<Rightarrow>
          if key = ''data_base64''
          then (case decode_base64 env data of Some bytes \<Rightarrow> [sha256_hex env bytes] | None \<Rightarrow> [])
          else collect env item
      | _ \<Rightarrow> collect env item)"

subsection \<open>What is used\<close>

definition list_ids :: "list_id \<Rightarrow> nat \<Rightarrow> entry_id list tx_op" where
  "list_ids list start = stored (read_from kind_entry_id list start)"

definition used_entries :: "entry_id list tx_op" where
  "used_entries =
     bindS (recordS (\<lambda>r. r)) (\<lambda>r.
     bindS (load_generation (sr_active r)) (\<lambda>active.
     bindS (load_generation (sr_standby r)) (\<lambda>standby.
     bindS (list_ids (gn_entries active) 0) (\<lambda>a.
     bindS (list_ids (gn_entries standby) 0) (\<lambda>b.
     bindS (list_ids (sr_queue r) (sr_queue_head r)) (\<lambda>c.
     returnS (a @ b @ c)))))))"

definition message_images :: "message \<Rightarrow> string list" where
  "message_images message =
     (let images = List.map_filter (\<lambda>b. case b of ImageRef _ blob _ \<Rightarrow> Some blob | _ \<Rightarrow> None) in
      case message of
        User _ content \<Rightarrow> images content
      | Assistant _ content \<Rightarrow> images content
      | System _ content \<Rightarrow> images content
      | Developer _ _ content \<Rightarrow> images content
      | _ \<Rightarrow> [])"

definition image_dependencies :: "string list tx_op" where
  "image_dependencies =
     bindS used_entries (\<lambda>used.
     bindS (mapS load_entry (remdups used)) (\<lambda>entries.
     returnS (concat (map (message_images \<circ> en_message) entries))))"

definition with_image_dependencies :: "timestamp \<Rightarrow> (string list \<Rightarrow> 'a) \<Rightarrow> 'a session_op" where
  "with_image_dependencies now apply =
     transact now (bindS image_dependencies (\<lambda>images. returnS (apply images)))"

subsection \<open>What goes\<close>

record released =
  rl_entries :: "entry_id list"
  rl_events :: "event_id list"
  rl_sequences :: "nat list"
  rl_resources :: "string list"

definition releases_entry :: "entry_id list \<Rightarrow> (timestamp \<Rightarrow> bool) \<Rightarrow> entry \<Rightarrow> bool" where
  "releases_entry used old e \<longleftrightarrow> en_id e \<notin> set used \<and> old (en_recorded_at e)"

text \<open>Releasing one history record: what the loop carries, and the resources of its event.\<close>

type_synonym selecting = "(event_id list \<times> nat list) \<times> (string list \<times> string list)"

definition event_resources ::
  "resource_env \<Rightarrow> (session_event \<Rightarrow> json option) \<Rightarrow> session_event option \<Rightarrow> string list" where
  "event_resources env event_json event =
     (case Option.bind event event_json of Some value \<Rightarrow> collect env value | None \<Rightarrow> [])"

definition select_record ::
  "resource_env \<Rightarrow> (session_event \<Rightarrow> json option) \<Rightarrow> (timestamp \<Rightarrow> bool) \<Rightarrow> event_id option
   \<Rightarrow> entry_id list \<Rightarrow> list_id \<Rightarrow> selecting \<Rightarrow> history_record \<Rightarrow> selecting tx_op" where
  "select_record env event_json old kept_outcome entries event_list acc record' =
     (case acc of ((events, sequences), (released', kept)) \<Rightarrow>
      case hr_item record' of
        ItemMessage id' \<Rightarrow>
          returnS ((events, if id' \<in> set entries then sequences @ [hr_sequence record'] else sequences),
                   (released', kept))
      | ItemEvent id' \<Rightarrow>
          bindS (stored (get_item kind_event event_list id')) (\<lambda>event.
          let found = event_resources env event_json event in
          if old (hr_recorded_at record') \<and> Some id' \<noteq> kept_outcome
          then returnS ((events @ [id'], sequences @ [hr_sequence record']), (released' @ found, kept))
          else returnS ((events, sequences), (released', kept @ found))))"

definition select_released ::
  "resource_env \<Rightarrow> (session_event \<Rightarrow> json option) \<Rightarrow> (message \<Rightarrow> string list) \<Rightarrow> entry_id list
   \<Rightarrow> (timestamp \<Rightarrow> bool) \<Rightarrow> released tx_op" where
  "select_released env event_json references used old =
     bindS (recordS (\<lambda>r. r)) (\<lambda>r.
     bindS (stored (read_from kind_entry (sr_entries r) 0)) (\<lambda>all.
     let (gone, stay) = partition (releases_entry used old) all;
         entries = map en_id gone;
         kept_outcome = (case sr_state r of Suspended outcome \<Rightarrow> Some outcome | _ \<Rightarrow> None) in
     bindS (stored (read_from kind_history (sr_history r) 0)) (\<lambda>records.
     bindS (foldS (select_record env event_json old kept_outcome entries (sr_events r)) records
              (([], []), (concat (map (references \<circ> en_message) gone),
                          concat (map (references \<circ> en_message) stay))))
       (\<lambda>((events, sequences), (released', kept)).
     returnS \<lparr>rl_entries = entries, rl_events = events, rl_sequences = sequences,
              rl_resources = remdups (filter (\<lambda>x. x \<notin> set kept) released')\<rparr>))))"

record history_prune =
  hp_messages :: nat
  hp_events :: nat
  hp_bytes :: nat
  hp_resources :: "string list"

record prune_env =
  pe_resources :: resource_env
  pe_event_json :: "session_event \<Rightarrow> json option"
  pe_references :: "message \<Rightarrow> string list"
  pe_size_of :: "stored_data \<Rightarrow> nat"
  pe_row_size :: "index_row \<Rightarrow> nat"

definition prune :: "prune_env \<Rightarrow> timestamp option \<Rightarrow> history_prune tx_op" where
  "prune env prior =
     (let old = (\<lambda>at. case prior of None \<Rightarrow> True | Some b \<Rightarrow> at < b) in
      bindS used_entries (\<lambda>used.
      bindS (select_released (pe_resources env) (pe_event_json env) (pe_references env) used old)
        (\<lambda>rl.
      bindS (recordS (\<lambda>r. r)) (\<lambda>r.
      bindS (stored (remove_history_records (pe_row_size env) (sr_history r) (rl_sequences rl))) (\<lambda>a.
      bindS (stored (release_items (pe_size_of env) kind_history (sr_history r) (rl_sequences rl)))
        (\<lambda>b.
      bindS (stored (release_items (pe_size_of env) kind_entry (sr_entries r) (rl_entries rl))) (\<lambda>c.
      bindS (stored (release_items (pe_size_of env) kind_event (sr_events r) (rl_events rl))) (\<lambda>d.
      returnS \<lparr>hp_messages = length (rl_entries rl), hp_events = length (rl_events rl),
               hp_bytes = a + b + c + d, hp_resources = rl_resources rl\<rparr>))))))))"

definition prune_history ::
  "prune_env \<Rightarrow> timestamp \<Rightarrow> timestamp option \<Rightarrow> bool \<Rightarrow> history_prune session_op" where
  "prune_history env now prior apply =
     thenS require_stable
       (if apply then update now (prune env prior) else read now (prune env prior))"

end
