(* ===== verification/Session_Steps.thy ===== *)
theory Session_Steps
  imports Prune
begin

text \<open>
  What every operation of a session does to its lists, proved once. The locale \<open>session_relation\<close>
  lists the elementary changes a session makes to its record and its store; a relation between the
  state prior and after that admits each of them is kept by every operation. Its interpretations
  are the relations the properties need.
\<close>

subsection \<open>Elementary changes\<close>

definition drop_list :: "string \<Rightarrow> tx \<Rightarrow> tx" where
  "drop_list l t =
     t\<lparr>tx_store := (tx_store t)\<lparr>st_lists := (tx_lists t)(l := None),
                                st_index := (st_index (tx_store t))(l := [])\<rparr>\<rparr>"

definition add_row :: "string \<Rightarrow> index_row \<Rightarrow> tx \<Rightarrow> tx" where
  "add_row l row t =
     t\<lparr>tx_store := (tx_store t)\<lparr>st_index := (st_index (tx_store t))(l := st_index (tx_store t) l @ [row])\<rparr>\<rparr>"

text \<open>The lists of a session are named when it is created and never renamed.\<close>

definition list_names :: "session_record \<Rightarrow> list_id list" where
  "list_names r =
     [sr_entries r, sr_events r, sr_history r, sr_generations r, sr_queue r, sr_model_calls r]"

text \<open>Lists whose items change: generations, queued and context references, calls and tool batches.\<close>

definition mutable_kinds :: "string set" where
  "mutable_kinds =
     {sv_kind kind_generation, sv_kind kind_entry_id, sv_kind kind_call, sv_kind kind_tool}"

definition temporary_kinds :: "string set" where
  "temporary_kinds = {sv_kind kind_entry_id, sv_kind kind_tool}"

lemma mutable_kinds_simps [simp]:
  "sv_kind kind_generation \<in> mutable_kinds" "sv_kind kind_entry_id \<in> mutable_kinds"
  "sv_kind kind_call \<in> mutable_kinds" "sv_kind kind_tool \<in> mutable_kinds"
  "sv_kind kind_entry \<notin> mutable_kinds" "sv_kind kind_event \<notin> mutable_kinds"
  "sv_kind kind_history \<notin> mutable_kinds"
  "sv_kind kind_entry_id \<in> temporary_kinds" "sv_kind kind_tool \<in> temporary_kinds"
  by (simp_all add: mutable_kinds_def temporary_kinds_def)

text \<open>The kind a stored value belongs to, and the dictionaries that write values of their kind.\<close>

fun kind_of :: "stored_data \<Rightarrow> string" where
  "kind_of (StRecord _) = sv_kind kind_record"
| "kind_of (StEntry _) = sv_kind kind_entry"
| "kind_of (StEntryId _) = sv_kind kind_entry_id"
| "kind_of (StEvent _) = sv_kind kind_event"
| "kind_of (StHistory _) = sv_kind kind_history"
| "kind_of (StGeneration _) = sv_kind kind_generation"
| "kind_of (StCall _) = sv_kind kind_call"
| "kind_of (StTool _) = sv_kind kind_tool"

definition own_kind :: "('a, stored_data) stored_value \<Rightarrow> bool" where
  "own_kind K \<longleftrightarrow> (\<forall>x. kind_of (sv_enc K x) = sv_kind K)"

lemma own_kinds [simp]:
  "own_kind kind_entry" "own_kind kind_entry_id" "own_kind kind_event" "own_kind kind_history"
  "own_kind kind_generation" "own_kind kind_call" "own_kind kind_tool" "own_kind kind_record"
  by (simp_all add: own_kind_def kind_defs)

text \<open>
  Entries, history records, generations and model calls carry their position in their list. Cells are
  well formed when every value is of the list's kind and carries the position it is at.
\<close>

fun id_of :: "stored_data \<Rightarrow> nat option" where
  "id_of (StEntry e) = Some (en_id e)"
| "id_of (StHistory h) = Some (hr_sequence h)"
| "id_of (StGeneration g) = Some (gn_id g)"
| "id_of (StCall c) = Some (mc_id c)"
| "id_of _ = None"

definition cell_of :: "string \<Rightarrow> nat \<Rightarrow> stored_data option \<Rightarrow> bool" where
  "cell_of k i c = (case c of None \<Rightarrow> True | Some v \<Rightarrow> kind_of v = k \<and> (id_of v = None \<or> id_of v = Some i))"

definition cells_of :: "string \<Rightarrow> stored_data option list \<Rightarrow> bool" where
  "cells_of k cells \<longleftrightarrow> (\<forall>i < length cells. cell_of k i (cells ! i))"

definition plain_kind :: "('a, stored_data) stored_value \<Rightarrow> bool" where
  "plain_kind K \<longleftrightarrow> sv_kind K \<in> {sv_kind kind_entry_id, sv_kind kind_event, sv_kind kind_tool}"

lemma plain_kinds [simp]: "plain_kind kind_entry_id" "plain_kind kind_event" "plain_kind kind_tool"
  by (simp_all add: plain_kind_def)

lemma id_of_plain:
  "kind_of v \<in> {sv_kind kind_entry_id, sv_kind kind_event, sv_kind kind_tool} \<Longrightarrow> id_of v = None"
  by (cases v) (auto simp: kind_defs)

lemma cells_of_Nil [simp]: "cells_of k []"
  by (simp add: cells_of_def)

lemma cells_of_append [simp]:
  "cells_of k (cells @ [c]) \<longleftrightarrow> cells_of k cells \<and> cell_of k (length cells) c"
  by (auto simp: cells_of_def nth_append less_Suc_eq)

lemma cells_of_plain:
  assumes "k \<in> {sv_kind kind_entry_id, sv_kind kind_event, sv_kind kind_tool}"
  shows "cells_of k cells \<longleftrightarrow> (\<forall>v. Some v \<in> set cells \<longrightarrow> kind_of v = k)"
proof -
  have "cell_of k i c \<longleftrightarrow> (\<forall>v. c = Some v \<longrightarrow> kind_of v = k)" for i c
    using assms id_of_plain by (auto simp: cell_of_def split: option.splits)
  then show ?thesis by (auto simp: cells_of_def in_set_conv_nth)
qed

lemma cells_of_encoded:
  assumes "plain_kind K" and "own_kind K" and "cells_of (sv_kind K) cells"
  shows "cells_of (sv_kind K) (cells @ map (Some \<circ> sv_enc K) xs)"
  using assms cells_of_plain [of "sv_kind K"] by (auto simp: plain_kind_def own_kind_def)

lemma cells_of_update:
  "cells_of k cells \<Longrightarrow> cell_of k p c \<Longrightarrow> cells_of k (cells[p := c])"
  unfolding cells_of_def by (metis length_list_update nth_list_update_eq nth_list_update_neq)

lemma cells_of_remove:
  assumes "plain_kind K" and "cells_of (sv_kind K) cells"
  shows "cells_of (sv_kind K) (remove_at p cells)"
  using assms cells_of_plain [of "sv_kind K"]
  by (auto simp: plain_kind_def remove_at_def dest: in_set_takeD in_set_dropD)

lemma temporary_mutable: "k \<in> temporary_kinds \<Longrightarrow> k \<in> mutable_kinds"
  by (auto simp: temporary_kinds_def)

locale session_relation = step_order R for R :: "tx \<Rightarrow> tx \<Rightarrow> bool" +
  assumes record_law: "list_names (f (tx_record t)) = list_names (tx_record t) \<Longrightarrow>
      sr_next_list_id (tx_record t) \<le> sr_next_list_id (f (tx_record t)) \<Longrightarrow>
      R t (t\<lparr>tx_record := f (tx_record t)\<rparr>)"
    and time_law: "R t (t\<lparr>tx_recorded_at := at\<rparr>)"
    and create_law: "tx_lists t l = None \<Longrightarrow> R t (put_list l k [] t)"
    and append_law: "tx_lists t l = Some (k, cells) \<Longrightarrow> 
      (cells_of k cells \<Longrightarrow> cells_of k (cells @ ext)) \<Longrightarrow> R t (put_list l k (cells @ ext) t)"
    and mutate_law: "tx_lists t l = Some (k, cells) \<Longrightarrow> k \<in> mutable_kinds \<Longrightarrow>
      (cells_of k cells \<Longrightarrow> cells_of k cells') \<Longrightarrow> R t (put_list l k cells' t)"
    and drop_law: "tx_lists t l = Some (k, cells) \<Longrightarrow> k \<in> temporary_kinds \<Longrightarrow> R t (drop_list l t)"
    and index_law: "R t (add_row l row t)"
begin

subsection \<open>The store's operations\<close>

lemma steps_reads [intro!, simp]:
  "steps R (stored (list_len K l))" "steps R (stored (get_item K l p))"
  "steps R (stored (read_from K l p))" "steps R (stored (read_page K l p n))"
  by (auto intro!: stepsI simp: get_item_Inr read_from_Inr refl dest!: read_page_Inr)

lemma steps_recordS [intro!, simp]: "steps R (recordS f)"
  by (rule stepsI) (simp add: refl)

lemma steps_set_record [intro]:
  "(\<And>r. list_names (f r) = list_names r) \<Longrightarrow> (\<And>r. sr_next_list_id r \<le> sr_next_list_id (f r)) \<Longrightarrow>
     steps R (set_record f)"
  by (rule stepsI) (simp add: record_law)

lemma steps_append_items [intro]:
  "own_kind K \<Longrightarrow> plain_kind K \<Longrightarrow> steps R (stored (append_items K l xs))"
  by (rule stepsI) (auto simp: append_items_Inr intro!: append_law [unfolded put_list_def] cells_of_encoded)

lemma steps_append_item [intro]:
  "own_kind K \<Longrightarrow> plain_kind K \<Longrightarrow> steps R (stored (append_item K l x))"
  by (simp add: append_item_def steps_append_items)

text \<open>A value that carries its position is appended at it.\<close>

lemma append_next:
  "tx_lists s l = Some (k, cells) \<Longrightarrow> cell_of k (length cells) (Some v) \<Longrightarrow>
     R s (put_list l k (cells @ [Some v]) s)"
  by (rule append_law) simp_all

text \<open>A value read from its position is replaced by one with the same position.\<close>

lemma replace_same:
  assumes "tx_lists s l = Some (k, cells)" and "k \<in> mutable_kinds" and "cell_at cells p = Some v"
    and "kind_of w = kind_of v" and "id_of w = id_of v"
  shows "R s (put_list l k (cells[p := Some w]) s)"
  using assms
  by (intro mutate_law [OF assms(1,2)] cells_of_update)
    (auto simp: cells_of_def cell_of_def cell_at_def split: if_splits option.splits)

text \<open>A value is replaced by one that carries its position.\<close>

lemma steps_set_item [intro]:
  assumes "sv_kind K \<in> mutable_kinds" and "own_kind K"
    and "id_of (sv_enc K x) = None \<or> id_of (sv_enc K x) = Some p"
  shows "steps R (stored (set_item K l p x))"
proof -
  have "cell_of (sv_kind K) p (Some (sv_enc K x))"
    using assms(2,3) by (simp add: cell_of_def own_kind_def)
  with assms(1) show ?thesis by (auto intro!: stepsI mutate_law [unfolded put_list_def] cells_of_update)
qed

lemma steps_remove_item [intro]:
  "sv_kind K \<in> mutable_kinds \<Longrightarrow> plain_kind K \<Longrightarrow> steps R (stored (remove_item K l p))"
  by (auto intro!: stepsI mutate_law [unfolded put_list_def] cells_of_remove)

lemma steps_delete_list [intro]: "sv_kind K \<in> temporary_kinds \<Longrightarrow> steps R (stored (delete_list K l))"
  by (rule stepsI) (auto dest: drop_law simp: drop_list_def)

lemma steps_create_list [intro!, simp]: "steps R (stored (create_list K l))"
  by (rule stepsI) (auto dest: create_law simp: put_list_def)

lemma steps_index [intro!, simp]: "steps R (stored (index_history_record l row))"
proof (rule stepsI)
  fix s x t
  assume "stored (index_history_record l row) s = Inr (x, t)"
  then have "t = s \<or> t = add_row l row s"
    by (auto simp: index_history_record_def st_Inr to_integer_def add_row_def
          split: if_splits option.splits)
  then show "R s t" by (auto simp: refl index_law)
qed

lemma steps_let [intro!]: "(\<And>x. x = v \<Longrightarrow> steps R (f x)) \<Longrightarrow> steps R (let x = v in f x)"
  by simp

lemma steps_allocate_list [intro!, simp]: "steps R (allocate_list K)"
proof (rule stepsI)
  fix s x t
  assume "allocate_list K s = Inr (x, t)"
  then obtain n where "checked_add (sr_next_list_id (tx_record s)) 1 = Some n"
    and u: "stored (create_list K x) (s\<lparr>tx_record := (tx_record s)\<lparr>sr_next_list_id := n\<rparr>\<rparr>) = Inr ((), t)"
    by (auto simp: allocate_list_def st_Inr Let_def)
  then have "R s (s\<lparr>tx_record := (tx_record s)\<lparr>sr_next_list_id := n\<rparr>\<rparr>)"
    using record_law [of "\<lambda>r. r\<lparr>sr_next_list_id := n\<rparr>" s]
    by (simp add: checked_add_Some_iff list_names_def)
  with stepsD [OF steps_create_list u] show "R s t" by (blast intro: trans)
qed

subsection \<open>History and statistics\<close>

lemma steps_loads [intro!, simp]:
  "steps R (load_entry_at l e)" "steps R (load_event_at l e)" "steps R (load_entry e)"
  "steps R (load_event e)" "steps R (load_generation g)" "steps R (load_message e)"
  unfolding load_entry_def load_event_def load_entry_at_def load_event_at_def load_generation_def
    load_message_def
  by auto

lemma steps_save_generation [intro!, simp]: "steps R (save_generation g)"
  unfolding save_generation_def by auto

lemma steps_append_generation [intro!, simp]: "steps R (append_generation st l c src)"
  by (rule stepsI) (auto simp: append_generation_Inr cell_of_def intro!: append_next)

lemma steps_record_history [intro!, simp]: "steps R (record_history w c)"
proof (rule stepsI)
  fix s x t
  assume "record_history w c s = Inr (x, t)"
  then obtain h cells where c: "tx_lists s (sr_history (tx_record s)) = Some (sv_kind kind_history, cells)"
    and e: "h = \<lparr>hr_sequence = length cells, hr_generation = sr_active (tx_record s),
      hr_item = fact_item w, hr_recorded_at = tx_recorded_at s, hr_model_call_id = c\<rparr>"
    and t: "index_record (sr_history (tx_record s)) h w
      (put_list (sr_history (tx_record s)) (sv_kind kind_history) (cells @ [Some (StHistory h)]) s)
      = Inr (x, t)"
    unfolding record_history_Inr by blast
  from e have h: "hr_sequence h = length cells" by simp
  from c h have "R s (put_list (sr_history (tx_record s)) (sv_kind kind_history)
      (cells @ [Some (StHistory h)]) s)"
    by (intro append_next) (simp_all add: cell_of_def)
  with stepsD [OF steps_index t [unfolded index_record_def]] show "R s t" by (blast intro: trans)
qed

lemma steps_record_event [intro!, simp]: "steps R (record_event ev)"
  unfolding record_event_def by auto

lemma steps_create_entry [intro!, simp]: "steps R (create_entry m g)"
  by (rule stepsI) (auto simp: create_entry_Inr cell_of_def intro!: append_next)

lemma steps_store_entry [intro!, simp]: "steps R (store_entry m g)"
  unfolding store_entry_def by auto

lemma steps_append_message [intro!, simp]: "steps R (append_message m g)"
  unfolding append_message_def by auto

lemma steps_record_timed [intro!, simp]: "steps R (set_recorded_at at)"
  unfolding set_recorded_at_def by (rule stepsI) (simp add: time_law)

lemma steps_with_model_call [intro!]: "steps R m \<Longrightarrow> steps R (with_model_call c m)"
  unfolding with_model_call_def by (auto simp: list_names_def)

lemma steps_new_model_call [intro!, simp]: "steps R (new_model_call p st n at)"
  unfolding new_model_call_def by auto

lemma append_call:
  assumes "new_model_call p st n at s = Inr (call, u)" and "mc_id call' = mc_id call"
    and "stored (append_item kind_call (sr_model_calls (tx_record s)) call') u = Inr (x, t)"
  shows "R s t"
proof -
  from assms(1) obtain cells where c: "u = s" "mc_id call = length cells"
      "tx_lists s (sr_model_calls (tx_record s)) = Some (sv_kind kind_call, cells)"
    by (auto simp: new_model_call_def new_call_record_def st_Inr)
  with assms(3) have "t = put_list (sr_model_calls (tx_record s)) (sv_kind kind_call)
      (cells @ [Some (StCall call')]) s"
    by (auto simp: put_list_def)
  with c assms(2) show ?thesis by (auto simp: cell_of_def intro!: append_next)
qed

lemma set_active_call: "R s t \<Longrightarrow> R s (t\<lparr>tx_record := (tx_record t)\<lparr>sr_active_model_call := c\<rparr>\<rparr>)"
  using record_law [of "\<lambda>r. r\<lparr>sr_active_model_call := c\<rparr>" t] by (auto simp: list_names_def intro: trans)

lemma steps_start_model_call [intro!, simp]: "steps R (start_model_call p n)"
proof (rule stepsI)
  fix s x t
  assume "start_model_call p n s = Inr (x, t)"
  from start_model_call_Inr [OF this] obtain cells call where
      c: "tx_lists s (sr_model_calls (tx_record s)) = Some (sv_kind kind_call, cells)"
        "mc_id call = length cells"
    and t: "t = (put_list (sr_model_calls (tx_record s)) (sv_kind kind_call)
      (cells @ [Some (StCall call)]) s)\<lparr>tx_record := (tx_record s)\<lparr>sr_active_model_call := Some (length cells)\<rparr>\<rparr>"
    using new_call_record_simps(1) by blast
  from c have "R s (put_list (sr_model_calls (tx_record s)) (sv_kind kind_call)
      (cells @ [Some (StCall call)]) s)"
    by (intro append_next) (simp_all add: cell_of_def)
  from set_active_call [OF this, of "Some (length cells)"] show "R s t" by (simp add: t)
qed

lemma steps_complete_model_call [intro!, simp]: "steps R (complete_model_call ob st)"
  by (rule stepsI) (auto simp: complete_model_call_Inr finish_call_def intro!: replace_same)

lemma steps_completed_call [intro!, simp]:
  "steps R (bindS (new_model_call p st n at) (\<lambda>call. bindS (recordS sr_model_calls) (\<lambda>list.
     thenS (stored (append_item kind_call list (finish_call status ob call))) (returnS (g call)))))"
proof (rule stepsI)
  fix s x t
  assume "bindS (new_model_call p st n at) (\<lambda>call. bindS (recordS sr_model_calls) (\<lambda>list.
     thenS (stored (append_item kind_call list (finish_call status ob call))) (returnS (g call)))) s = Inr (x, t)"
  then obtain call u y where n: "new_model_call p st n at s = Inr (call, u)"
    and t: "stored (append_item kind_call (sr_model_calls (tx_record u)) (finish_call status ob call)) u = Inr (y, t)"
    by (auto simp: bindS_Inr thenS_Inr)
  from n have "u = s" by (auto simp: new_model_call_def st_Inr)
  with t show "R s t" by (intro append_call [OF n, of "finish_call status ob call"]) (auto simp: finish_call_def)
qed

subsection \<open>Queue and context\<close>

lemma steps_remember [intro!, simp]: "steps R (remember_instruction_update m)"
  unfolding remember_instruction_update_def by (auto simp: list_names_def)

lemma steps_append_input [intro!, simp]: "steps R (append_input m)"
  unfolding append_input_def by auto

lemma steps_consume_inputs [intro!, simp]: "steps R (consume_inputs n)"
  unfolding consume_inputs_def consume_input_def by (auto simp: list_names_def)

lemma steps_pending_ids [intro!, simp]: "steps R pending_ids"
  unfolding pending_ids_def by auto

lemma steps_move_pending [intro!, simp]: "steps R (move_pending e prior)"
  unfolding move_pending_def write_pending_def by (auto intro!: steps_set_item)

lemma steps_cancel_pending [intro!, simp]: "steps R (cancel_pending e)"
  unfolding cancel_pending_def by auto

lemma steps_replace_entries [intro!, simp]: "steps R (replace_entries g)"
  unfolding replace_entries_def by auto

lemma steps_reset_standby [intro!, simp]: "steps R reset_standby"
  unfolding reset_standby_def by auto

lemma steps_append_standby [intro!, simp]: "steps R (append_standby seed c src)"
  unfolding append_standby_def by (auto simp: list_names_def)

lemma steps_install_entry [intro!, simp]: "steps R (install_entry rs c acc item)"
  unfolding install_entry_def by (auto split: install.split)

lemma steps_install_missing [intro!, simp]: "steps R (install_missing c acc item)"
  unfolding install_missing_def by auto

lemma steps_install_instructions [intro!, simp]: "steps R (install_instructions g)"
  unfolding install_instructions_def by auto

lemma steps_install_tools [intro!, simp]: "steps R (install_tools g)"
  unfolding install_tools_def by (auto simp: list_names_def)

lemma steps_switch_active [intro!, simp]: "steps R (switch_active g)"
  unfolding switch_active_def remember_queued_def by (auto simp: list_names_def)

lemma steps_promote_standby [intro!, simp]: "steps R promote_standby"
  unfolding promote_standby_def by auto

lemma steps_prepare_generation [intro!, simp]: "steps R (prepare_generation es)"
  unfolding prepare_generation_def prepare_entry_def by auto

lemma steps_activate_generation [intro!, simp]: "steps R activate_generation"
  unfolding activate_generation_def accept_tail_entry_def accept_entry_def by auto

lemma steps_build_request [intro!, simp]: "steps R build_request"
  unfolding build_request_def by auto

subsection \<open>The state machine\<close>

lemma steps_transition_to [intro!, simp]: "steps R (transition_to st)"
  unfolding transition_to_def by (auto simp: list_names_def)

lemma steps_abandon_running_call [intro!, simp]: "steps R (abandon_running_call oc)"
proof (rule stepsI)
  fix s x t
  assume "abandon_running_call oc s = Inr (x, t)"
  then show "R s t"
  proof (cases rule: abandon_running_call_Inr)
    case 1
    then show ?thesis using set_active_call [OF refl] by simp
  next
    case (2 n cells call status)
    then have "R (s\<lparr>tx_record := (tx_record s)\<lparr>sr_active_model_call := None\<rparr>\<rparr>) t"
      by (auto simp: abandon_def intro!: replace_same)
    then show ?thesis using set_active_call [OF refl] by (blast intro: trans)
  qed
qed

lemma steps_finish_run [intro!, simp]: "steps R (finish_run oc)"
  unfolding finish_run_def by (auto simp: list_names_def)

lemma steps_complete_turn [intro!, simp]: "steps R (complete_turn n b)"
  unfolding complete_turn_def by auto

lemma steps_start_tool_batch [intro!, simp]: "steps R (start_tool_batch n cs)"
  unfolding start_tool_batch_def by auto

lemma steps_update_execution [intro!, simp]: "steps R (update_execution c f)"
  unfolding update_execution_def by (auto split: session_state.split intro!: steps_set_item)

lemma steps_tools [intro!, simp]:
  "steps R (mark_tool_started c)" "steps R (record_tool_outcome c oc)" "steps R (pending_calls_of l)"
  "steps R (cancel_unfinished l)"
  unfolding mark_tool_started_def record_tool_outcome_def pending_calls_of_def cancel_unfinished_def
  by auto

lemma steps_drain_batch [intro!, simp]: "steps R (drain_batch l)"
  unfolding drain_batch_def drain_execution_def by auto

lemma steps_start_turn [intro!, simp]: "steps R (start_turn n b)"
  unfolding start_turn_def by auto

lemma steps_advance [intro!, simp]: "steps R advance"
  unfolding advance_def by (auto split: session_state.split session_event.split)

lemma steps_accept_response [intro!, simp]: "steps R (accept_response resp)"
  unfolding accept_response_def by (auto split: session_state.split)

lemma steps_accept_interruption [intro!, simp]: "steps R (accept_interruption p)"
  unfolding accept_interruption_def by (auto split: session_state.split)

lemma steps_complete_tools [intro!, simp]: "steps R complete_tools"
  unfolding complete_tools_def by (auto split: session_state.split)

lemma steps_settle_state [intro!, simp]: "steps R (settle_state st)"
  by (induction st) auto

lemma steps_settle_interrupted [intro!, simp]: "steps R settle_interrupted"
  unfolding settle_interrupted_def by auto

subsection \<open>Compaction, settings and lifecycle\<close>

lemma steps_standby_summary [intro!, simp]: "steps R (standby_summary g a b m resp c)"
  unfolding standby_summary_def seed_standby_def by auto

lemma steps_local_compaction [intro!, simp]: "steps R (local_compaction g es c n tm rs)"
  unfolding local_compaction_def by auto

lemma steps_upstream [intro!, simp]: "steps R (upstream_compaction_commit g es ms m tm rs)"
  unfolding upstream_compaction_commit_def store_summary_def by auto

lemma steps_translation [intro!, simp]: "steps R (compaction_translation g es m fs oc cf)"
  unfolding compaction_translation_def by (auto simp: list_names_def)

lemma steps_configure [intro!, simp]: "steps R (configure_generations cf)"
  unfolding configure_generations_def configure_generation_def by auto

lemma steps_system_instruction [intro!, simp]: "steps R (system_instruction_config src text cf)"
  unfolding system_instruction_config_def scan_instruction_def by (auto simp: list_names_def)

lemma steps_import_messages [intro!, simp]: "steps R (import_messages ms)"
  unfolding import_messages_def import_message_def by auto

lemma steps_used_entries [intro!, simp]: "steps R used_entries"
  unfolding used_entries_def list_ids_def by auto

lemma steps_image_dependencies [intro!, simp]: "steps R image_dependencies"
  unfolding image_dependencies_def by auto

end

subsection \<open>The relations\<close>

text \<open>Entries, events and history records are only appended.\<close>

definition logs_grow :: "tx \<Rightarrow> tx \<Rightarrow> bool" where
  "logs_grow s t \<longleftrightarrow>
     (\<forall>l k cells. tx_lists s l = Some (k, cells) \<longrightarrow> k \<notin> mutable_kinds \<longrightarrow>
        (\<exists>ext. tx_lists t l = Some (k, cells @ ext)))"

interpretation log: session_relation logs_grow
proof unfold_locales
  fix s t u
  assume a: "logs_grow s t" and b: "logs_grow t u"
  show "logs_grow s u"
    unfolding logs_grow_def
  proof (intro allI impI)
    fix l k cells
    assume "tx_lists s l = Some (k, cells)" and k: "k \<notin> mutable_kinds"
    with a obtain e where "tx_lists t l = Some (k, cells @ e)" unfolding logs_grow_def by blast
    with b k obtain f where "tx_lists u l = Some (k, (cells @ e) @ f)" unfolding logs_grow_def by blast
    then show "\<exists>ext. tx_lists u l = Some (k, cells @ ext)" by simp
  qed
qed (auto simp: logs_grow_def put_list_def drop_list_def add_row_def dest: temporary_mutable)

text \<open>
  With releases allowed: a position keeps its entry, event or history record or is released, and is
  never given to another.
\<close>

definition logs_stable :: "tx \<Rightarrow> tx \<Rightarrow> bool" where
  "logs_stable s t \<longleftrightarrow>
     (\<forall>l k cells. tx_lists s l = Some (k, cells) \<longrightarrow> k \<notin> mutable_kinds \<longrightarrow>
        (\<exists>cells'. tx_lists t l = Some (k, cells') \<and> length cells \<le> length cells'
           \<and> (\<forall>i < length cells. cells' ! i = cells ! i \<or> cells' ! i = None)))"

lemma logs_stableI:
  "(\<And>l k cells. tx_lists s l = Some (k, cells) \<Longrightarrow> k \<notin> mutable_kinds \<Longrightarrow>
     \<exists>cells'. tx_lists t l = Some (k, cells') \<and> length cells \<le> length cells'
       \<and> (\<forall>i < length cells. cells' ! i = cells ! i \<or> cells' ! i = None)) \<Longrightarrow> logs_stable s t"
  unfolding logs_stable_def by blast

lemma logs_stableD:
  "logs_stable s t \<Longrightarrow> tx_lists s l = Some (k, cells) \<Longrightarrow> k \<notin> mutable_kinds \<Longrightarrow>
     \<exists>cells'. tx_lists t l = Some (k, cells') \<and> length cells \<le> length cells'
       \<and> (\<forall>i < length cells. cells' ! i = cells ! i \<or> cells' ! i = None)"
  unfolding logs_stable_def by blast

interpretation stable: session_relation logs_stable
proof unfold_locales
  fix s t u
  assume a: "logs_stable s t" and b: "logs_stable t u"
  show "logs_stable s u"
  proof (rule logs_stableI)
    fix l k cells
    assume "tx_lists s l = Some (k, cells)" and k: "k \<notin> mutable_kinds"
    from logs_stableD [OF a this] obtain c where c: "tx_lists t l = Some (k, c)"
      "length cells \<le> length c" "\<forall>i < length cells. c ! i = cells ! i \<or> c ! i = None" by blast
    from logs_stableD [OF b c(1) k] obtain d where d: "tx_lists u l = Some (k, d)"
      "length c \<le> length d" "\<forall>i < length c. d ! i = c ! i \<or> d ! i = None" by blast
    have "d ! i = cells ! i \<or> d ! i = None" if "i < length cells" for i
      using c(2,3) d(3) that by (metis order_less_le_trans)
    with c(2) d(1,2) show "\<exists>cells'. tx_lists u l = Some (k, cells') \<and> length cells \<le> length cells'
       \<and> (\<forall>i < length cells. cells' ! i = cells ! i \<or> cells' ! i = None)" by auto
  qed
next
  fix t l k cells ext
  assume "tx_lists t l = Some (k, cells)"
  then show "logs_stable t (put_list l k (cells @ ext) t)"
    by (auto simp: logs_stable_def put_list_def nth_append)
qed (auto simp: logs_stable_def put_list_def drop_list_def add_row_def dest: temporary_mutable)

text \<open>Releasing positions, and removing rows of the index, is such a change too.\<close>

lemma stable_release_items: "steps logs_stable (stored (release_items sz K l ps))"
proof (rule stepsI)
  fix s x t
  assume "stored (release_items sz K l ps) s = Inr (x, t)"
  then obtain cells c n where c: "tx_lists s l = Some (sv_kind K, cells)"
      "release_cells sz ps cells 0 = (c, n)" "t = put_list l (sv_kind K) c s"
    by (auto simp: release_items_Inr put_list_def)
  have d: "length c = length cells" "\<forall>i < length cells. c ! i = cells ! i \<or> c ! i = None"
    using length_release_cells [OF c(2)] release_cells_nth [OF c(2)] by auto
  show "logs_stable s t"
  proof (rule logs_stableI)
    fix l' k cells'
    assume "tx_lists s l' = Some (k, cells')"
    with c(1,3) d show "\<exists>cells. tx_lists t l' = Some (k, cells) \<and> length cells' \<le> length cells
        \<and> (\<forall>i < length cells'. cells ! i = cells' ! i \<or> cells ! i = None)"
      by (cases "l' = l") (simp_all add: put_list_def)
  qed
qed

interpretation same_lists: step_order "\<lambda>s t. st_lists t = st_lists (s :: stored_data store)"
  by unfold_locales auto

lemma same_lists_remove_history_records:
  "steps (\<lambda>s t. st_lists t = st_lists s)
     (remove_history_records sz l ps :: (stored_data, nat) store_op)"
proof -
  have "steps (\<lambda>s t. st_lists t = st_lists s)
      (remove_history_record sz l n p :: (stored_data, nat) store_op)" for n p
    by (rule stepsI) (auto simp: remove_history_record_def thenS_Inr to_integer_def split: if_splits)
  then show ?thesis unfolding remove_history_records_def by auto
qed

lemma stable_remove_history_records: "steps logs_stable (stored (remove_history_records sz l ps))"
  by (rule stepsI) (auto simp: logs_stable_def dest!: stepsD [OF same_lists_remove_history_records])

lemma steps_prune: "steps logs_stable (prune env prior)"
  unfolding prune_def select_released_def select_record_def
  by (auto intro!: stable_release_items stable_remove_history_records split: prod.split history_item.split)

text \<open>A list that is not a context, a queue or a tool batch is never deleted and keeps its kind.\<close>

definition lists_stay :: "tx \<Rightarrow> tx \<Rightarrow> bool" where
  "lists_stay s t \<longleftrightarrow>
     (\<forall>l k cells. tx_lists s l = Some (k, cells) \<longrightarrow> k \<notin> temporary_kinds \<longrightarrow>
        (\<exists>cells'. tx_lists t l = Some (k, cells')))"

interpretation stay: session_relation lists_stay
proof unfold_locales
  fix s t u
  assume "lists_stay s t" and "lists_stay t u"
  then show "lists_stay s u" unfolding lists_stay_def by blast
qed (auto simp: lists_stay_def put_list_def drop_list_def add_row_def)

text \<open>Every cell holds a value of its list's kind.\<close>

definition well_typed :: "tx \<Rightarrow> bool" where
  "well_typed t \<longleftrightarrow> (\<forall>l k cells. tx_lists t l = Some (k, cells) \<longrightarrow> cells_of k cells)"

lemma well_typedD: "well_typed t \<Longrightarrow> tx_lists t l = Some (k, cells) \<Longrightarrow> cells_of k cells"
  unfolding well_typed_def by blast

lemma well_typed_put_list: "well_typed t \<Longrightarrow> cells_of k cells \<Longrightarrow> well_typed (put_list l k cells t)"
  unfolding well_typed_def put_list_def by auto

lemma well_typed_drop_list: "well_typed t \<Longrightarrow> well_typed (drop_list l t)"
  unfolding well_typed_def drop_list_def by auto

lemma well_typed_same_lists: "well_typed t \<Longrightarrow> tx_lists u = tx_lists t \<Longrightarrow> well_typed u"
  unfolding well_typed_def by simp

interpretation typed: session_relation "\<lambda>s t. well_typed s \<longrightarrow> well_typed t"
proof unfold_locales
  fix t l k cells ext
  assume "tx_lists t l = Some (k, cells)" and "cells_of k cells \<Longrightarrow> cells_of k (cells @ ext)"
  then show "well_typed t \<longrightarrow> well_typed (put_list l k (cells @ ext) t)"
    by (blast intro: well_typed_put_list dest: well_typedD)
next
  fix t l k cells cells'
  assume "tx_lists t l = Some (k, cells)" and "cells_of k cells \<Longrightarrow> cells_of k cells'"
  then show "well_typed t \<longrightarrow> well_typed (put_list l k cells' t)"
    by (blast intro: well_typed_put_list dest: well_typedD)
qed (auto intro: well_typed_put_list well_typed_drop_list
       intro: well_typed_same_lists simp: add_row_def)

text \<open>
  A transaction works under one key, leaves objects alone, keeps the names of the session's lists
  and never takes a list number back.
\<close>

definition frame :: "tx \<Rightarrow> tx \<Rightarrow> bool" where
  "frame s t \<longleftrightarrow> tx_key t = tx_key s \<and> st_objects (tx_store t) = st_objects (tx_store s)
     \<and> list_names (tx_record t) = list_names (tx_record s)
     \<and> sr_next_list_id (tx_record s) \<le> sr_next_list_id (tx_record t)"

interpretation frame: session_relation frame
  by unfold_locales (auto simp: frame_def put_list_def drop_list_def add_row_def)

text \<open>All of them together.\<close>

definition evolves :: "tx \<Rightarrow> tx \<Rightarrow> bool" where
  "evolves s t \<longleftrightarrow> logs_grow s t \<and> lists_stay s t \<and> (well_typed s \<longrightarrow> well_typed t) \<and> frame s t"

lemma session_relation_conj:
  assumes "session_relation P" and "session_relation Q"
  shows "session_relation (\<lambda>s t. P s t \<and> Q s t)"
proof -
  note p = session_relation.axioms [OF assms(1)] and q = session_relation.axioms [OF assms(2)]
  show ?thesis
  proof (rule session_relation.intro)
    show "step_order (\<lambda>s t. P s t \<and> Q s t)"
      using p(1) q(1) unfolding step_order_def by blast
    show "session_relation_axioms (\<lambda>s t. P s t \<and> Q s t)"
      using p(2) q(2) unfolding session_relation_axioms_def by (intro conjI allI impI) simp_all
  qed
qed

interpretation ev: session_relation evolves
  unfolding evolves_def
  by (intro session_relation_conj log.session_relation_axioms stay.session_relation_axioms
        typed.session_relation_axioms frame.session_relation_axioms)

subsection \<open>Transaction boundaries\<close>

lemma save_object_Inr:
  "save_object K name x s = Inr (u, t) \<longleftrightarrow>
     (\<exists>v. st_objects s name = Some (sv_kind K, v) \<and> sv_dec K v \<noteq> None)
     \<and> t = s\<lparr>st_objects := (st_objects s)(name \<mapsto> (sv_kind K, sv_enc K x))\<rparr>"
  by (auto simp: save_object_def load_object_def thenS_Inr split: option.splits if_splits)

text \<open>A transaction that returns a result and the queue length either fails or gives both.\<close>

lemma committed_Inr:
  "(case r of Inl e \<Rightarrow> Inl e | Inr ((result, queued), t) \<Rightarrow> Inr (result, f queued t)) = Inr (x, s')
     \<longleftrightarrow> (\<exists>queued t. r = Inr ((x, queued), t) \<and> s' = f queued t)"
  by (cases r) auto

lemma record_dec [simp]: "sv_dec kind_record v = Some r \<longleftrightarrow> v = StRecord r"
  by (auto simp: kind_record_def split: stored_data.splits)

lemma update_Inr:
  "update now m s = Inr (x, s') \<longleftrightarrow>
     (\<exists>t r cells. m (begin_tx (se_record s) now s) = Inr (x, t)
        \<and> st_objects (tx_store t) (se_key s) = Some (sv_kind kind_record, StRecord r)
        \<and> tx_lists t (sr_queue (tx_record t)) = Some (sv_kind kind_entry_id, cells)
        \<and> s' = s\<lparr>se_record := tx_record t,
                 se_store := (tx_store t)\<lparr>st_objects := (st_objects (tx_store t))
                   (se_key s \<mapsto> (sv_kind kind_record, StRecord (tx_record t)))\<rparr>,
                 se_queue_size := length cells\<rparr>)"
  unfolding update_def committed_Inr by (auto simp: st_Inr save_object_Inr)

lemma read_Inr: "read now m s = Inr (x, s') \<Longrightarrow> s' = s"
  by (auto simp: read_def split: sum.splits)

lemma load_object_Inr:
  "load_object K name s = Inr (x, t) \<longleftrightarrow>
     t = s \<and> (\<exists>v. st_objects s name = Some (sv_kind K, v) \<and> sv_dec K v = Some x)"
  by (auto simp: load_object_def split: option.splits if_splits)

lemma transact_Inr:
  "transact now m s = Inr (x, s') \<longleftrightarrow>
     (\<exists>r t cells. st_objects (se_store s) (se_key s) = Some (sv_kind kind_record, StRecord r)
        \<and> m (begin_tx r now s) = Inr (x, t)
        \<and> norm_record (tx_record t) = norm_record r
        \<and> tx_lists t (sr_queue (tx_record t)) = Some (sv_kind kind_entry_id, cells)
        \<and> s' = s\<lparr>se_store := tx_store t, se_queue_size := length cells\<rparr>)"
proof (cases "load_object kind_record (se_key s) (se_store s)")
  case (Inl e)
  moreover have "st_objects (se_store s) (se_key s) \<noteq> Some (sv_kind kind_record, StRecord r)" for r
    using load_object_Inr [of kind_record "se_key s" "se_store s" r] Inl by auto
  ultimately show ?thesis by (simp add: transact_def)
next
  case (Inr p)
  then obtain r where p: "load_object kind_record (se_key s) (se_store s) = Inr (r, se_store s)"
    and o: "st_objects (se_store s) (se_key s) = Some (sv_kind kind_record, StRecord r)"
    using load_object_Inr [of kind_record "se_key s" "se_store s"] by (cases p) auto
  have branch: "(if c then failS e else n) u = Inr y \<longleftrightarrow> \<not> c \<and> n u = Inr y" for c e n u y
    by simp
  show ?thesis
    unfolding transact_def p prod.case sum.case committed_Inr
    by (auto simp: o st_Inr branch)
qed

end
