(* ===== verification/Session_System.thy ===== *)
theory Session_System
  imports Session_Steps
begin

text \<open>
  A session as a transition system: one step is one call of an operation of the owner or of a sender
  that succeeds; a call that fails leaves the session as it was. Reachable sessions are those a
  sequence of calls leads to, in any interleaving of owner and senders, each call being one storage
  transaction.
\<close>

datatype operation =
    Advance
  | AcceptResponse response call_observation
  | AcceptInterruption partial_response call_observation
  | FailModelCall run_outcome call_observation
  | StartTool tool_call
  | AcceptToolOutcome tool_call tool_outcome
  | CompleteTools
  | FinishRun run_outcome
  | SettleInterrupted
  | Resume
  | BeginCompaction
  | EndCompaction
  | CollectInputs
  | StartModelCall model_call_purpose nat
  | CompleteCompactionCall call_observation model_call_status
  | RecordCompletedCompactionCall call_observation nat
  | PrepareStandby "entry_id list"
  | ActivateStandby
  | AppendStandbySummary generation_id nat nat message response model_call_id
  | CommitLocalCompaction generation_id "entry_id list" nat nat token_measurement compaction_reason
  | CommitUpstreamCompaction generation_id "entry_id list" "message list" message token_measurement
      compaction_reason
  | CommitCompactionTranslation generation_id "entry_id list" message "entry_id list"
      "run_outcome option" session_config
  | SetMetadata json
  | SetConfig session_config
  | DeferInstructionConfig string string string session_config "tool list"
  | SetSystemInstructionConfig string string session_config
  | ImportHistory "(message \<times> entry_origin) list"
  | RecordEvents "(timestamp \<times> session_event) list"
  | EnqueueMessage message
  | RecordApplicationEvent json
  | RecordApplicationInput json message
  | EnqueueInstructionUpdate string string string
  | MoveQueuedInput entry_id "entry_id option"
  | CancelQueuedInput entry_id
  | PruneHistory prune_env "timestamp option" bool

definition discard :: "'a session_op \<Rightarrow> unit session_op" where
  "discard m = thenS m (returnS ())"

fun perform :: "timestamp \<Rightarrow> operation \<Rightarrow> unit session_op" where
  "perform now Advance = discard (session_advance now)"
| "perform now (AcceptResponse r ob) = session_accept_response now r ob"
| "perform now (AcceptInterruption p ob) = session_accept_interruption now p ob"
| "perform now (FailModelCall oc ob) = fail_model_call now oc ob"
| "perform now (StartTool c) = start_tool now c"
| "perform now (AcceptToolOutcome c oc) = accept_tool_outcome now c oc"
| "perform now CompleteTools = session_complete_tools now"
| "perform now (FinishRun oc) = session_finish_run now oc"
| "perform now SettleInterrupted = session_settle_interrupted now"
| "perform now Resume = resume now"
| "perform now BeginCompaction = begin_compaction now"
| "perform now EndCompaction = end_compaction now"
| "perform now CollectInputs = collect_inputs now"
| "perform now (StartModelCall p n) = session_start_model_call now p n"
| "perform now (CompleteCompactionCall ob st) = complete_compaction_call now ob st"
| "perform now (RecordCompletedCompactionCall ob n) =
     discard (record_completed_compaction_call now ob n)"
| "perform now (PrepareStandby es) = prepare_standby_generation now es"
| "perform now ActivateStandby = activate_standby_generation now"
| "perform now (AppendStandbySummary g a b m r c) = append_standby_summary now g a b m r c"
| "perform now (CommitLocalCompaction g es c n tm rs) = commit_local_compaction now g es c n tm rs"
| "perform now (CommitUpstreamCompaction g es ms m tm rs) =
     commit_upstream_compaction now g es ms m tm rs"
| "perform now (CommitCompactionTranslation g es m fs oc cf) =
     commit_compaction_translation now g es m fs oc cf"
| "perform now (SetMetadata v) = update_metadata now v"
| "perform now (SetConfig cf) = set_config now cf"
| "perform now (DeferInstructionConfig a b c cf ts) = defer_instruction_config now a b c cf ts"
| "perform now (SetSystemInstructionConfig a b cf) = set_system_instruction_config now a b cf"
| "perform now (ImportHistory ms) = import_history now ms"
| "perform now (RecordEvents es) = record_events now es"
| "perform now (EnqueueMessage m) = discard (enqueue_message now m)"
| "perform now (RecordApplicationEvent v) = discard (record_application_event now v)"
| "perform now (RecordApplicationInput v m) = discard (record_application_input now v m)"
| "perform now (EnqueueInstructionUpdate a b c) = discard (enqueue_instruction_update now a b c)"
| "perform now (MoveQueuedInput e b) = move_queued_input now e b"
| "perform now (CancelQueuedInput e) = cancel_queued_input now e"
| "perform now (PruneHistory env b apply) = discard (prune_history env now b apply)"

fun is_prune :: "operation \<Rightarrow> bool" where
  "is_prune (PruneHistory _ _ apply) = apply"
| "is_prune _ = False"

inductive step :: "session \<Rightarrow> operation \<Rightarrow> session \<Rightarrow> bool" where
  step: "perform now op s = Inr ((), s') \<Longrightarrow> step s op s'"

inductive_cases stepE: "step s op s'"

text \<open>The sessions a sequence of operations that satisfy \<open>P\<close> leads to.\<close>

inductive reaches :: "(operation \<Rightarrow> bool) \<Rightarrow> session \<Rightarrow> session \<Rightarrow> bool" for P s where
  start: "reaches P s s"
| more: "reaches P s t \<Longrightarrow> step t op u \<Longrightarrow> P op \<Longrightarrow> reaches P s u"

subsection \<open>What one step goes through\<close>

text \<open>
  A successful step other than a prune changes nothing, or commits one transaction that only makes
  the elementary changes of \<open>session_relation\<close>: an update of the owner's or a transaction of a
  sender's.
\<close>

definition committed :: "session \<Rightarrow> session \<Rightarrow> bool" where
  "committed s s' \<longleftrightarrow> s' = s
     \<or> (\<exists>now m x. steps evolves (m :: unit tx_op) \<and> update now m s = Inr (x, s'))
     \<or> (\<exists>now m x. steps evolves (m :: unit tx_op) \<and> transact now m s = Inr (x, s'))"

lemma committed_refl [simp]: "committed s s"
  by (simp add: committed_def)

lemma evolves_drop: "steps evolves m \<Longrightarrow> steps evolves (bindS m (\<lambda>_. returnS ()))"
  by auto

lemma update_drop:
  "update now m s = Inr (x, s') \<Longrightarrow> update now (bindS m (\<lambda>_. returnS ())) s = Inr ((), s')"
  unfolding update_Inr by (auto simp: st_Inr)

lemma transact_drop:
  "transact now m s = Inr (x, s') \<Longrightarrow> transact now (bindS m (\<lambda>_. returnS ())) s = Inr ((), s')"
  unfolding transact_Inr by (auto simp: st_Inr)

lemma committed_update: "steps evolves m \<Longrightarrow> update now m s = Inr (x, s') \<Longrightarrow> committed s s'"
  unfolding committed_def
  by (rule disjI2, rule disjI1, intro exI conjI, erule evolves_drop, erule update_drop)

lemma committed_transact: "steps evolves m \<Longrightarrow> transact now m s = Inr (x, s') \<Longrightarrow> committed s s'"
  unfolding committed_def
  by (rule disjI2, rule disjI2, intro exI conjI, erule evolves_drop, erule transact_drop)

lemma steps_committed:
  "steps evolves m \<Longrightarrow> steps committed (update now m)" "steps evolves m \<Longrightarrow> steps committed (transact now m)"
  by (rule stepsI, erule (1) committed_update) (rule stepsI, erule (1) committed_transact)

text \<open>A guard reads the session only, and nothing follows what the operation commits.\<close>

lemma steps_guarded:
  assumes "\<And>s x t. guard s = Inr (x, t) \<Longrightarrow> t = s" and "steps committed m"
  shows "steps committed (thenS guard m)"
  using assms unfolding steps_def by (fastforce simp: thenS_Inr)

lemma steps_discard: "steps committed m \<Longrightarrow> steps committed (discard m)"
  unfolding steps_def discard_def by (auto simp: thenS_Inr)

lemma steps_read: "steps committed (read now m)"
  by (rule stepsI) (auto dest: read_Inr)

lemma require_stable_Inr [simp]:
  "require_stable s = Inr (x, t) \<longleftrightarrow> t = s \<and> is_stable (sr_state (se_record s))"
  by (auto simp: require_stable_def)

lemma has_queued_input_Inr: "has_queued_input s = Inr (b, t) \<Longrightarrow> t = s"
  by (auto simp: has_queued_input_def split: sum.splits)

lemma steps_committed_atoms [simp, intro]: "steps committed (returnS x)" "steps committed (failS e)"
  by (auto intro!: stepsI)

lemmas operation_defs = session_advance_def session_accept_response_def
  session_accept_interruption_def fail_model_call_def end_model_call_def start_tool_def
  accept_tool_outcome_def session_complete_tools_def session_finish_run_def resume_def
  begin_compaction_def end_compaction_def session_start_model_call_def complete_compaction_call_def
  record_completed_compaction_call_def prepare_standby_generation_def activate_standby_generation_def
  append_standby_summary_def commit_local_compaction_def commit_upstream_compaction_def
  commit_compaction_translation_def update_metadata_def set_config_def defer_instruction_config_def
  set_system_instruction_config_def import_history_def enqueue_message_def
  record_application_event_def record_application_input_def enqueue_instruction_update_def
  move_queued_input_def cancel_queued_input_def

lemma steps_committed_if [intro!]:
  "steps committed m \<Longrightarrow> steps committed n \<Longrightarrow> steps committed (if b then m else n)"
  by simp

lemma steps_record_events [intro!]: "steps committed (record_events now es)"
  unfolding record_events_def by (auto intro!: steps_committed)

lemma steps_settle [intro!]: "steps committed (session_settle_interrupted now)"
  unfolding steps_def session_settle_interrupted_def
  by (auto intro: stepsD [OF steps_committed(1)] split: if_splits)

lemma steps_collect_inputs [intro!]: "steps committed (collect_inputs now)"
proof (rule stepsI)
  fix s x t
  assume a: "collect_inputs now s = Inr (x, t)"
  let ?m = "bindS (recordS (\<lambda>r. r)) (\<lambda>r. bindS (stored (list_len kind_entry_id (sr_queue r)))
    (\<lambda>n. if sr_queue_head r < n then transition_to (Ready 0 True) else returnS ()))"
  have "t = s \<or> update now ?m s = Inr (x, t)"
    using a by (auto simp: collect_inputs_def st_Inr dest!: has_queued_input_Inr split: if_splits)
  moreover have "steps evolves ?m" by auto
  ultimately show "committed s t" by (elim disjE) (simp, rule committed_update)
qed

lemma steps_perform: "\<not> is_prune op \<Longrightarrow> steps committed (perform now op)"
  by (cases op)
    (auto simp: operation_defs prune_history_def list_names_def Let_def intro!: steps_committed steps_discard
       steps_guarded steps_read ev.steps_set_record split: session_state.split)

lemma step_committed: "step s op s' \<Longrightarrow> \<not> is_prune op \<Longrightarrow> committed s s'"
  by (auto elim!: stepE dest: stepsD [OF steps_perform])

subsection \<open>Sessions seen as transactions\<close>

text \<open>The session as a transaction would find it.\<close>

definition as_tx :: "session \<Rightarrow> tx" where
  "as_tx s = begin_tx (se_record s) 0 s"

lemma as_tx_simps [simp]:
  "tx_lists (as_tx s) = st_lists (se_store s)" "tx_record (as_tx s) = se_record s"
  "tx_key (as_tx s) = se_key s"
  by (simp_all add: as_tx_def begin_tx_def)

lemma begin_tx_simps [simp]:
  "tx_lists (begin_tx r now s) = st_lists (se_store s)" "tx_record (begin_tx r now s) = r"
  "tx_key (begin_tx r now s) = se_key s" "tx_store (begin_tx r now s) = se_store s"
  "tx_recorded_at (begin_tx r now s) = now"
  by (simp_all add: begin_tx_def)

text \<open>A relation on the lists alone passes from a transaction to the session.\<close>

lemma committed_lists:
  assumes "committed s s'"
  obtains t u where "evolves t u" "tx_lists t = st_lists (se_store s)"
    "tx_lists u = st_lists (se_store s')"
  using assms unfolding committed_def
proof (elim disjE exE conjE)
  assume "s' = s"
  then show thesis using that [of "as_tx s" "as_tx s"] by (simp add: ev.refl)
next
  fix now and m :: "unit tx_op" and x
  assume "steps evolves m" "update now m s = Inr (x, s')"
  then show thesis
    using that [of "begin_tx (se_record s) now s"] unfolding update_Inr by (auto dest: stepsD)
next
  fix now and m :: "unit tx_op" and x
  assume "steps evolves m" "transact now m s = Inr (x, s')"
  then show thesis
    using that [of "begin_tx _ now s"] unfolding transact_Inr by (auto dest: stepsD)
qed

lemma step_logs_grow:
  assumes "step s op s'" and "\<not> is_prune op"
    and "st_lists (se_store s) l = Some (k, cells)" and "k \<notin> mutable_kinds"
  shows "\<exists>ext. st_lists (se_store s') l = Some (k, cells @ ext)"
  using committed_lists [OF step_committed [OF assms(1,2)]] assms(3,4)
  by (metis evolves_def logs_grow_def)

subsection \<open>The owner and the store agree\<close>

definition coherent :: "session \<Rightarrow> bool" where
  "coherent s \<longleftrightarrow>
     st_objects (se_store s) (se_key s) = Some (sv_kind kind_record, StRecord (se_record s))"

lemma coherent_update: "update now m s = Inr (x, s') \<Longrightarrow> coherent s'"
  unfolding update_Inr coherent_def by auto

lemma committed_coherent: "coherent s \<Longrightarrow> committed s s' \<Longrightarrow> coherent s'"
  unfolding committed_def
proof (elim disjE exE conjE)
  fix now and m :: "unit tx_op" and x
  assume c: "coherent s" and m: "steps evolves m" and t: "transact now m s = Inr (x, s')"
  then show "coherent s'"
    unfolding transact_Inr coherent_def by (auto dest!: stepsD simp: evolves_def frame_def)
qed (auto dest: coherent_update)

lemma step_coherent: "coherent s \<Longrightarrow> step s op s' \<Longrightarrow> coherent s'"
proof (cases "is_prune op")
  case True
  assume "step s op s'"
  with True show ?thesis
    by (cases op) (auto elim!: stepE simp: discard_def prune_history_def thenS_Inr dest: coherent_update)
qed (auto intro: committed_coherent step_committed)

lemma reaches_coherent: "reaches P s t \<Longrightarrow> coherent s \<Longrightarrow> coherent t"
  by (induction rule: reaches.induct) (auto intro: step_coherent)

lemma committed_key: "committed s s' \<Longrightarrow> se_key s' = se_key s"
  unfolding committed_def update_Inr transact_Inr by auto

end
