(* ===== verification/Conversation.thy ===== *)
theory Conversation
  imports Machine
begin

text \<open>
  What a session promises its users, seen through a view: the inputs waiting, the conversation the
  model is sent, the state and the tool batch. Each operation of the state machine is specified as a
  function on views, and the operation on the stored lists is shown to implement it.
\<close>

subsection \<open>Views\<close>

record view =
  vw_queue :: "(entry_id \<times> message) list"
  vw_context :: "message list"
  vw_state :: session_state
  vw_batch :: "tool_execution list"

definition holds_batch :: "list_id \<Rightarrow> tool_execution list \<Rightarrow> tx \<Rightarrow> bool" where
  "holds_batch batch xs t \<longleftrightarrow> tx_lists t batch = Some (sv_kind kind_tool, map (Some \<circ> StTool) xs)"

definition batch_shown :: "view \<Rightarrow> tx \<Rightarrow> bool" where
  "batch_shown v t \<longleftrightarrow> (case vw_state v of
     ExecutingTools _ batch \<Rightarrow> holds_batch batch (vw_batch v) t
   | _ \<Rightarrow> vw_batch v = [])"

definition messages_of :: "tx \<Rightarrow> entry_id list \<Rightarrow> message list \<Rightarrow> bool" where
  "messages_of t ids ms \<longleftrightarrow> map (stored_message t) ids = map Some ms"

definition shows_talk :: "view \<Rightarrow> tx \<Rightarrow> bool" where
  "shows_talk v t \<longleftrightarrow> (\<exists>c. consumable (map fst (vw_queue v)) c t
     \<and> messages_of t (map fst (vw_queue v)) (map snd (vw_queue v))
     \<and> messages_of t c (vw_context v))"

definition shows_view :: "view \<Rightarrow> tx \<Rightarrow> bool" where
  "shows_view v t \<longleftrightarrow> shows_talk v t \<and> sr_state (tx_record t) = vw_state v \<and> batch_shown v t"

text \<open>The changes a view goes through.\<close>

definition see_state :: "session_state \<Rightarrow> view \<Rightarrow> view" where
  "see_state st v = v\<lparr>vw_state := st, vw_batch := []\<rparr>"

definition see_messages :: "message list \<Rightarrow> view \<Rightarrow> view" where
  "see_messages ms v = v\<lparr>vw_context := vw_context v @ ms\<rparr>"

definition see_inputs :: "view \<Rightarrow> view" where
  "see_inputs v = v\<lparr>vw_queue := [], vw_context := vw_context v @ map snd (vw_queue v)\<rparr>"

definition see_batch :: "nat \<Rightarrow> list_id \<Rightarrow> tool_execution list \<Rightarrow> view \<Rightarrow> view" where
  "see_batch turn batch xs v = v\<lparr>vw_state := ExecutingTools turn batch, vw_batch := xs\<rparr>"

lemmas see_defs = see_state_def see_messages_def see_inputs_def see_batch_def

text \<open>A run that ended: nothing runs, and every later \<open>advance\<close> reports how it ended.\<close>

definition reports :: "run_outcome \<Rightarrow> tx \<Rightarrow> bool" where
  "reports oc t \<longleftrightarrow> (case sr_state (tx_record t) of
     Idle \<Rightarrow> oc = Completed
   | Suspended n \<Rightarrow> (\<exists>cells. tx_lists t (sr_events (tx_record t)) = Some (sv_kind kind_event, cells)
        \<and> cell_at cells n = Some (StEvent (Finished oc)))
   | _ \<Rightarrow> False)"

lemma reports_advance: "reports oc t \<Longrightarrow> advance t = Inr (ActionFinished oc, t)"
proof (cases "sr_state (tx_record t)")
  case (Suspended n)
  moreover assume "reports oc t"
  ultimately have "load_event n t = Inr (Finished oc, t)" by (auto simp: reports_def load_event_Inr)
  with Suspended show ?thesis
    by (simp add: advance_def bindS_recordS bindS_def [of "load_event _"] returnS_def)
qed (auto simp: reports_def advance_def bindS_recordS returnS_def)

definition ended :: "run_outcome \<Rightarrow> view \<Rightarrow> tx \<Rightarrow> bool" where
  "ended oc v t \<longleftrightarrow> (\<exists>st. shows_view (see_state st v) t \<and> (if oc = Completed then st = Idle else is_suspended st)
     \<and> sr_active_model_call (tx_record t) = None \<and> reports oc t)"

subsection \<open>Appending a message to the conversation\<close>

lemma cell_at_append: "cell_at cells i = Some x \<Longrightarrow> cell_at (cells @ ext) i = Some x"
  by (auto simp: cell_at_def nth_append split: if_splits)

lemma cell_at_end: "cell_at (cells @ [x]) (length cells) = x"
  by (simp add: cell_at_def)

lemma append_message_Inr:
  assumes "append_message m og s = Inr (n, t)"
  obtains es gs g c e w where
    "tx_lists s (sr_entries (tx_record s)) = Some (sv_kind kind_entry, es)" "n = length es"
    "en_id e = n" "en_message e = m" "en_origin e = og"
    "tx_lists s (sr_generations (tx_record s)) = Some (sv_kind kind_generation, gs)"
    "cell_at gs (sr_active (tx_record s)) = Some (StGeneration g)"
    "tx_lists s (gn_entries g) = Some (sv_kind kind_entry_id, c)"
    "w = put_list (gn_entries g) (sv_kind kind_entry_id) (c @ [Some (StEntryId n)])
       (put_list (sr_entries (tx_record s)) (sv_kind kind_entry) (es @ [Some (StEntry e)]) s)"
    "only {sv_kind kind_history} w t"
proof -
  from assms obtain e u g k w where e: "create_entry m og s = Inr (e, u)"
    and g: "load_generation (sr_active (tx_record u)) u = Inr (g, u)"
    and w: "stored (append_item kind_entry_id (gn_entries g) (en_id e)) u = Inr (k, w)"
    and t: "record_history (FactMessage e) (sr_active_model_call (tx_record u)) w = Inr ((), t)"
    and n: "n = en_id e"
    by (auto simp: append_message_def bindS_Inr thenS_Inr load_generation_Inr)
  from e obtain es where es: "tx_lists s (sr_entries (tx_record s)) = Some (sv_kind kind_entry, es)"
      "en_id e = length es" "en_message e = m" "en_origin e = og"
      "u = put_list (sr_entries (tx_record s)) (sv_kind kind_entry) (es @ [Some (StEntry e)]) s"
    by (auto simp: create_entry_Inr)
  have prior_list: "tx_lists s l = Some (k, c)" if "tx_lists u l = Some (k, c)" "k \<noteq> sv_kind kind_entry" for l k c
    using that es(5) by (auto split: if_splits)
  have r: "tx_record u = tx_record s" using es(5) by simp
  from g obtain gs where gs: "tx_lists s (sr_generations (tx_record s)) = Some (sv_kind kind_generation, gs)"
      "cell_at gs (sr_active (tx_record s)) = Some (StGeneration g)"
    unfolding load_generation_Inr r by (auto dest: prior_list)
  from w obtain c where "tx_lists u (gn_entries g) = Some (sv_kind kind_entry_id, c)"
      and c2: "w = put_list (gn_entries g) (sv_kind kind_entry_id) (c @ [Some (StEntryId (en_id e))]) u"
    by (auto simp: put_list_def)
  then have c1: "tx_lists s (gn_entries g) = Some (sv_kind kind_entry_id, c)" by (auto dest: prior_list)
  note c = c1 c2
  show thesis
    by (rule that [OF es(1) _ _ es(3,4) gs c(1)])
      (use n es(2) c(2) es(5) stepsD [OF only_record_history t] in simp_all)
qed

lemma append_message_consumable:
  assumes "consumable q c s" and "append_message m og s = Inr (n, t)"
  shows "consumable q (c @ [n]) t" and "stored_message t n = Some m"
    and "stored_message s i = Some x \<Longrightarrow> stored_message t i = Some x"
    and "only {sv_kind kind_entry, sv_kind kind_entry_id, sv_kind kind_history} s t"
proof -
  from assms(2) obtain es gs g d e w where
    e: "tx_lists s (sr_entries (tx_record s)) = Some (sv_kind kind_entry, es)" "n = length es"
    "en_id e = n" "en_message e = m" "en_origin e = og"
    and g: "tx_lists s (sr_generations (tx_record s)) = Some (sv_kind kind_generation, gs)"
    "cell_at gs (sr_active (tx_record s)) = Some (StGeneration g)"
    "tx_lists s (gn_entries g) = Some (sv_kind kind_entry_id, d)"
    and w: "w = put_list (gn_entries g) (sv_kind kind_entry_id) (d @ [Some (StEntryId n)])
       (put_list (sr_entries (tx_record s)) (sv_kind kind_entry) (es @ [Some (StEntry e)]) s)"
    and t: "only {sv_kind kind_history} w t" by (rule append_message_Inr)
  from assms(1) obtain gs' g' cells es' where
    c: "tx_lists s (sr_generations (tx_record s)) = Some (sv_kind kind_generation, gs')"
    "cell_at gs' (sr_active (tx_record s)) = Some (StGeneration g')" "gn_entries g' \<noteq> sr_queue (tx_record s)"
    "tx_lists s (gn_entries g') = Some (sv_kind kind_entry_id, map (Some \<circ> StEntryId) c)"
    "tx_lists s (sr_queue (tx_record s)) = Some (sv_kind kind_entry_id, cells)"
    "sr_queue_head (tx_record s) \<le> length cells"
    "drop (sr_queue_head (tx_record s)) cells = map (Some \<circ> StEntryId) q"
    "entries_placed s" "tx_lists s (sr_entries (tx_record s)) = Some (sv_kind kind_entry, es')"
    by (rule consumableE)
  have same: "gs' = gs" "g' = g" "d = map (Some \<circ> StEntryId) c" using c g by auto
  have ne: "gn_entries g \<noteq> sr_entries (tx_record s)" "sr_queue (tx_record s) \<noteq> sr_entries (tx_record s)"
    "sr_generations (tx_record s) \<noteq> sr_entries (tx_record s)" "sr_generations (tx_record s) \<noteq> gn_entries g"
    using c e g by auto
  have placed: "entries_placed w"
    using c(8) e ne w unfolding entries_placed_def
    by (auto simp: cell_at_def nth_append less_Suc_eq split: if_splits)
  have "consumable q (c @ [n]) w"
    using c e g ne same placed
    unfolding consumable_def waiting_def holds_context_def active_list_def w by auto
  then show "consumable q (c @ [n]) t" by (rule consumable_only [OF _ t]) auto
  have "tx_lists t (sr_entries (tx_record s)) = Some (sv_kind kind_entry, es @ [Some (StEntry e)])"
    by (rule only_lists [OF t]) (use ne w in simp_all)
  then have m: "stored_message t i = (case cell_at (es @ [Some (StEntry e)]) i of
      Some (StEntry e) \<Rightarrow> Some (en_message e) | _ \<Rightarrow> None)" for i
    using only_record [OF t] w by (simp add: stored_message_def)
  show "stored_message t n = Some m" using m [of n] e by (simp add: cell_at_end)
  show "stored_message s i = Some x \<Longrightarrow> stored_message t i = Some x"
    using m [of i] e(1) by (auto simp: stored_message_def cell_at_append split: option.splits stored_data.splits)
  show "only {sv_kind kind_entry, sv_kind kind_entry_id, sv_kind kind_history} s t"
  proof (rule only.trans)
    show "only {sv_kind kind_entry, sv_kind kind_entry_id, sv_kind kind_history} s w"
      unfolding w by (rule only.trans; rule only_put_list) (use e g ne in simp_all)
    show "only {sv_kind kind_entry, sv_kind kind_entry_id, sv_kind kind_history} w t"
      using t unfolding only_def by blast
  qed
qed

subsection \<open>The conversation under the elementary operations\<close>

definition idle_kinds :: "string set" where
  "idle_kinds = - {sv_kind kind_entry_id, sv_kind kind_generation, sv_kind kind_entry}"

lemma idle_kinds_simps [simp]:
  "sv_kind kind_event \<in> idle_kinds" "sv_kind kind_history \<in> idle_kinds"
  "sv_kind kind_call \<in> idle_kinds" "sv_kind kind_tool \<in> idle_kinds"
  by (auto simp: idle_kinds_def kind_defs)

lemma shows_talk_cong:
  assumes "shows_talk v s" and "\<And>q c. consumable q c s \<Longrightarrow> consumable q c t"
    and "stored_message t = stored_message s"
  shows "shows_talk v t"
  using assms unfolding shows_talk_def messages_of_def by auto

lemma shows_talk_quiet:
  assumes "shows_talk v s" and "quiet s t"
  shows "shows_talk v t"
proof (rule shows_talk_cong [OF assms(1)])
  show "consumable q c s \<Longrightarrow> consumable q c t" for q c using assms(2) unfolding quiet_def by blast
  from assms(1) obtain es where "tx_lists s (sr_entries (tx_record s)) = Some (sv_kind kind_entry, es)"
    unfolding shows_talk_def consumable_def by blast
  with assms(2) show "stored_message t = stored_message s" by (rule stored_message_quiet)
qed

lemma shows_talk_only:
  assumes "shows_talk v s" and "only Ks s t" and "Ks \<subseteq> idle_kinds"
  shows "shows_talk v t"
proof (rule shows_talk_quiet [OF assms(1)])
  show "quiet s t" by (rule quiet_only [OF assms(2)]) (use assms(3) in \<open>auto simp: idle_kinds_def\<close>)
qed

lemma shows_talk_view [simp]:
  "shows_talk (see_state st v) = shows_talk v" "shows_talk (see_batch n b xs v) = shows_talk v"
  by (simp_all add: shows_talk_def see_defs fun_eq_iff)

lemma shows_talk_append_message:
  assumes "shows_talk v s" and "append_message m og s = Inr (n, t)"
  shows "shows_talk (see_messages [m] v) t"
    and "only {sv_kind kind_entry, sv_kind kind_entry_id, sv_kind kind_history} s t"
proof -
  from assms(1) obtain c where c: "consumable (map fst (vw_queue v)) c s"
    "messages_of s (map fst (vw_queue v)) (map snd (vw_queue v))" "messages_of s c (vw_context v)"
    unfolding shows_talk_def by blast
  note a = append_message_consumable [OF c(1) assms(2)]
  have keep: "messages_of s is ms \<Longrightarrow> messages_of t is ms" for "is" ms
    using a(3) unfolding messages_of_def by (simp add: list_eq_iff_nth_eq)
  from a(1,2) keep [OF c(2)] keep [OF c(3)] show "shows_talk (see_messages [m] v) t"
    unfolding shows_talk_def by (intro exI [of _ "c @ [n]"]) (auto simp: messages_of_def see_defs)
  show "only {sv_kind kind_entry, sv_kind kind_entry_id, sv_kind kind_history} s t" by (rule a(4))
qed

text \<open>The same with the state beside it.\<close>

definition stands :: "view \<Rightarrow> session_state \<Rightarrow> tx \<Rightarrow> bool" where
  "stands v st t \<longleftrightarrow> shows_talk v t \<and> sr_state (tx_record t) = st"

lemma stands_quiet:
  "steps quiet m \<Longrightarrow> (\<And>s x t. m s = Inr (x, t) \<Longrightarrow> sr_state (tx_record t) = sr_state (tx_record s)) \<Longrightarrow>
     valid (stands v st) m (\<lambda>_. stands v st)"
  unfolding stands_def by (rule validI) (auto intro: shows_talk_quiet dest: stepsD)

lemma stands_record_event [valid_rules]: "valid (stands v st) (record_event ev) (\<lambda>_. stands v st)"
  by (rule stands_quiet) (auto dest: record_event_record)

lemma stands_transition_to [valid_rules]: "valid (stands v st) (transition_to st') (\<lambda>_. stands v st')"
  unfolding stands_def
  by (rule validI) (auto intro: shows_talk_quiet transition_to_state dest: stepsD [OF quiet_transition_to])

lemma stands_append_message [valid_rules]:
  "valid (stands v st) (append_message m og) (\<lambda>_. stands (see_messages [m] v) st)"
proof (rule validI)
  fix s n t
  assume "stands v st s" and "append_message m og s = Inr (n, t)"
  then show "stands (see_messages [m] v) st t"
    using shows_talk_append_message [of v s m og n t] only_record unfolding stands_def by metis
qed

lemma see_messages_append [simp]: "see_messages ms' (see_messages ms v) = see_messages (ms @ ms') v"
  by (simp add: see_messages_def)

lemma see_messages_Nil [simp]: "see_messages [] v = v"
  by (simp add: see_messages_def)

lemma stands_append_messages:
  "valid (stands v st) (forS (\<lambda>x. thenS (append_message (f x) og) (returnS ())) xs)
     (\<lambda>_. stands (see_messages (map f xs) v) st)"
proof (induction xs arbitrary: v)
  case Nil
  show ?case by (simp add: valid_def)
next
  case (Cons x xs)
  have "valid (stands v st) (thenS (append_message (f x) og) (returnS ())) (\<lambda>_. stands (see_messages [f x] v) st)"
    by (rule valid_thenS [OF stands_append_message]) (simp add: valid_def)
  from valid_thenS [OF this Cons.IH] show ?case by simp
qed

subsection \<open>The end of a run\<close>

lemma quiet_abandon_running_call [intro!, simp]: "steps quiet (abandon_running_call oc)"
proof (rule stepsI)
  fix s u and t :: tx
  let ?u = "s\<lparr>tx_record := (tx_record (s :: tx))\<lparr>sr_active_model_call := None\<rparr>\<rparr>"
  assume "abandon_running_call oc s = Inr (u, t)"
  moreover have q: "quiet s ?u" by (auto simp: quiet_def elim!: consumable_cong)
  ultimately show "quiet s t"
  proof (cases rule: abandon_running_call_Inr)
    case (2 n cells call status)
    then have "only {sv_kind kind_call} ?u t" by (auto intro: only_put_list)
    then have "quiet ?u t" by (rule quiet_only) auto
    with q show ?thesis by (rule quiet.trans)
  qed (simp add: q)
qed

lemma abandon_running_call_record:
  "abandon_running_call oc s = Inr (u, t) \<Longrightarrow> tx_record t = (tx_record s)\<lparr>sr_active_model_call := None\<rparr>"
  by (erule abandon_running_call_Inr) auto

text \<open>Once a run is over, \<open>advance\<close> repeats its outcome and changes nothing.\<close>

lemma finish_run_effect:
  assumes "finish_run oc s = Inr (u, t)"
  shows "quiet s t" and "sr_active_model_call (tx_record t) = None"
    and "reports oc t"
    and "oc = Completed \<Longrightarrow> sr_state (tx_record t) = Idle"
    and "oc \<noteq> Completed \<Longrightarrow> \<exists>n. sr_state (tx_record t) = Suspended n"
proof -
  from assms obtain a where a: "abandon_running_call oc s = Inr ((), a)"
    and f: "(if oc = Completed
     then thenS (transition_to Idle) (thenS (record_event (Finished oc)) (returnS ()))
     else bindS (recordS sr_state) (\<lambda>state.
       thenS (record_event (StateChanged (get_phase state) PhaseSuspended))
      (bindS (record_event (Finished oc)) (\<lambda>event.
       set_record (\<lambda>r. r\<lparr>sr_state := Suspended event\<rparr>))))) a = Inr (u, t)"
    by (auto simp: finish_run_def thenS_Inr)
  note r = abandon_running_call_record [OF a]
  have "steps quiet (finish_run oc)" unfolding finish_run_def by auto
  from stepsD [OF this assms] show "quiet s t" .
  have "sr_active_model_call (tx_record t) = None \<and> reports oc t
     \<and> (oc = Completed \<longrightarrow> sr_state (tx_record t) = Idle)
     \<and> (oc \<noteq> Completed \<longrightarrow> (\<exists>n. sr_state (tx_record t) = Suspended n))"
  proof (cases "oc = Completed")
    case True
    with f obtain b n where b: "transition_to Idle a = Inr ((), b)" "record_event (Finished oc) b = Inr (n, t)"
      by (auto simp: thenS_Inr)
    have "sr_state (tx_record t) = Idle"
      using transition_to_state [OF b(1)] record_event_record [OF b(2)] by simp
    moreover have "sr_active_model_call (tx_record t) = None"
      using r b(1) record_event_record [OF b(2)]
      by (auto simp: transition_to_def st_Inr dest!: record_event_record)
    ultimately show ?thesis using True by (simp add: reports_def)
  next
    case False
    with f obtain b n k d where b: "record_event (StateChanged k PhaseSuspended) a = Inr (d, b)"
      and c: "\<exists>c. record_event (Finished oc) b = Inr (n, c) \<and> t = c\<lparr>tx_record := (tx_record c)\<lparr>sr_state := Suspended n\<rparr>\<rparr>"
      by (auto simp: st_Inr)
    from c obtain c where c: "record_event (Finished oc) b = Inr (n, c)"
      "t = c\<lparr>tx_record := (tx_record c)\<lparr>sr_state := Suspended n\<rparr>\<rparr>" by blast
    from record_event_appends [OF c(1)] record_event_record [OF c(1)] c(2)
    obtain cells where "tx_lists t (sr_events (tx_record t)) = Some (sv_kind kind_event, cells @ [Some (StEvent (Finished oc))])"
      "n = length cells" by auto
    moreover have "sr_state (tx_record t) = Suspended n" using c(2) by simp
    ultimately have "reports oc t" by (simp add: reports_def cell_at_def)
    moreover have "sr_active_model_call (tx_record t) = None"
      using r c record_event_record [OF b] record_event_record [OF c(1)] by simp
    ultimately show ?thesis using False c(2) by simp
  qed
  then show "sr_active_model_call (tx_record t) = None" "reports oc t"
    "oc = Completed \<Longrightarrow> sr_state (tx_record t) = Idle"
    "oc \<noteq> Completed \<Longrightarrow> \<exists>n. sr_state (tx_record t) = Suspended n" by blast+
qed

lemma stands_finish_run [valid_rules]: "valid (stands v st) (finish_run oc) (\<lambda>_. ended oc v)"
proof (rule validI)
  fix s u t
  assume s: "stands v st s" and t: "finish_run oc s = Inr (u, t)"
  note f = finish_run_effect [OF t]
  from s f(1) have "shows_talk v t" unfolding stands_def by (blast intro: shows_talk_quiet)
  with f show "ended oc v t"
    unfolding ended_def shows_view_def batch_shown_def
    by (cases "oc = Completed") (auto simp: see_state_def shows_talk_def)
qed

subsection \<open>Turns\<close>

lemma shows_viewD: "shows_view v t \<Longrightarrow> stands v (vw_state v) t"
  by (simp add: shows_view_def stands_def)

lemma shows_viewI: "stands v st t \<Longrightarrow> (\<And>n b. st \<noteq> ExecutingTools n b) \<Longrightarrow> shows_view (see_state st v) t"
  by (auto simp: shows_view_def stands_def batch_shown_def see_state_def shows_talk_def
      split: session_state.splits)

lemma valid_view:
  "(\<And>s. P s \<Longrightarrow> shows_view v s) \<Longrightarrow> valid (stands v (vw_state v)) m Q \<Longrightarrow> valid P m Q"
  by (auto simp: valid_def dest: shows_viewD)

lemma view_start_turn:
  assumes "shows_view v s" and "start_turn n needs s = Inr (act, t)"
  shows "case act of
      CallModel rq \<Rightarrow> shows_view (see_state (CallingModel (n + 1)) (see_inputs v)) t
        \<and> rq = config_build_request (sr_config (tx_record s)) (vw_context v @ map snd (vw_queue v))
    | ActionFinished oc \<Rightarrow> oc = Completed \<and> vw_queue v = [] \<and> \<not> needs \<and> ended Completed v t
    | ExecuteTools _ \<Rightarrow> False"
proof -
  from assms(1) obtain c where c: "consumable (map fst (vw_queue v)) c s"
    "messages_of s (map fst (vw_queue v)) (map snd (vw_queue v))" "messages_of s c (vw_context v)"
    unfolding shows_view_def shows_talk_def by blast
  note e = start_turn_effect [OF c(1) assms(2)]
  show ?thesis
  proof (cases act)
    case (CallModel rq)
    with e have e: "consumable [] (c @ map fst (vw_queue v)) t" "sr_state (tx_record t) = CallingModel (n + 1)"
      "stored_message t = stored_message s"
      "map (stored_message s) (c @ map fst (vw_queue v)) = map Some (rq_conversation rq)"
      "rq = config_build_request (sr_config (tx_record s)) (rq_conversation rq)" by auto
    have "map Some (rq_conversation rq) = map Some (vw_context v @ map snd (vw_queue v))"
      using c(2,3) e(4) unfolding messages_of_def map_append by metis
    then have r: "rq_conversation rq = vw_context v @ map snd (vw_queue v)"
      by (rule map_injective) (simp add: inj_def)
    have "shows_talk (see_inputs v) t"
      unfolding shows_talk_def using e(1,3,4) r
      by (intro exI [of _ "c @ map fst (vw_queue v)"]) (simp add: see_defs messages_of_def)
    then have "shows_view (see_state (CallingModel (n + 1)) (see_inputs v)) t"
      using e(2) by (intro shows_viewI) (auto simp: stands_def)
    with CallModel e(5) r show ?thesis by simp
  next
    case (ActionFinished oc)
    with e show ?thesis using validD [OF stands_finish_run shows_viewD [OF assms(1)]] by auto
  qed (use e in simp)
qed

text \<open>A response, accepted or rejected.\<close>

definition new_execution :: "tool_call \<Rightarrow> tool_execution" where
  "new_execution call = \<lparr>te_call = call, te_started = False, te_outcome = None\<rparr>"

lemma shows_talk_tool:
  "shows_talk v s \<Longrightarrow> only {sv_kind kind_tool} s t \<Longrightarrow> shows_talk v t"
  by (erule (1) shows_talk_only) simp

lemma stands_tool: "steps (only {sv_kind kind_tool}) m \<Longrightarrow> valid (stands v st) m (\<lambda>_. stands v st)"
  unfolding stands_def
  by (rule validI) (auto dest!: stepsD dest: only_record intro: shows_talk_tool)

definition stands_batch :: "view \<Rightarrow> session_state \<Rightarrow> list_id \<Rightarrow> tool_execution list \<Rightarrow> tx \<Rightarrow> bool" where
  "stands_batch v st b xs t \<longleftrightarrow> stands v st t \<and> holds_batch b xs t"

lemma stands_allocate_tool:
  "valid (stands v st) (allocate_list kind_tool) (\<lambda>b. stands_batch v st b [])"
proof (rule validI)
  fix s b t
  assume s: "stands v st s" and "allocate_list kind_tool s = Inr (b, t)"
  then obtain n where b: "tx_lists s b = None"
    and t: "t = put_list b (sv_kind kind_tool) [] (s\<lparr>tx_record := (tx_record s)\<lparr>sr_next_list_id := n\<rparr>\<rparr>)"
    by (auto simp: allocate_list_def st_Inr Let_def put_list_def)
  let ?u = "s\<lparr>tx_record := (tx_record s)\<lparr>sr_next_list_id := n\<rparr>\<rparr>"
  have "shows_talk v ?u"
    using s unfolding stands_def
    by (auto elim!: shows_talk_cong consumable_cong simp: stored_message_def fun_eq_iff)
  moreover have "only {sv_kind kind_tool} ?u t" using b unfolding t by (auto simp: only_def)
  ultimately have "shows_talk v t" by (rule shows_talk_tool)
  with s t show "stands_batch v st b [] t" by (simp add: stands_batch_def stands_def holds_batch_def)
qed

lemma stands_batch_step:
  "valid (stands v st) m (\<lambda>_. stands v' st') \<Longrightarrow>
   (\<And>s x t l cells. m s = Inr (x, t) \<Longrightarrow> tx_lists s l = Some (sv_kind kind_tool, cells) \<Longrightarrow>
      tx_lists t l = Some (sv_kind kind_tool, cells)) \<Longrightarrow>
   valid (stands_batch v st b xs) m (\<lambda>_. stands_batch v' st' b xs)"
  unfolding valid_def stands_batch_def holds_batch_def by blast

lemma stands_batch_only:
  "valid (stands v st) m (\<lambda>_. stands v' st') \<Longrightarrow> steps (only Ks) m \<Longrightarrow> sv_kind kind_tool \<notin> Ks \<Longrightarrow>
   valid (stands_batch v st b xs) m (\<lambda>_. stands_batch v' st' b xs)"
  by (erule stands_batch_step) (auto dest!: stepsD intro: only_lists)

lemma stands_batch_record_event [valid_rules]:
  "valid (stands_batch v st b xs) (record_event ev) (\<lambda>_. stands_batch v st b xs)"
  by (rule stands_batch_only [OF stands_record_event only_record_event]) simp

lemma stands_batch_transition_to [valid_rules]:
  "valid (stands_batch v st b xs) (transition_to st') (\<lambda>_. stands_batch v st' b xs)"
  by (rule stands_batch_step [OF stands_transition_to])
    (auto simp: transition_to_def st_Inr dest!: stepsD [OF only_record_event] intro: only_lists)

lemma stands_batch_new:
  "valid (stands_batch v st b xs) (forS (\<lambda>call. thenS (stored (append_item kind_tool b
       \<lparr>te_call = call, te_started = False, te_outcome = None\<rparr>)) (returnS ())) calls)
     (\<lambda>_. stands_batch v st b (xs @ map new_execution calls))"
proof (induction calls arbitrary: xs)
  case Nil
  show ?case by (simp add: valid_def)
next
  case (Cons call calls)
  have "valid (stands_batch v st b xs) (thenS (stored (append_item kind_tool b
       \<lparr>te_call = call, te_started = False, te_outcome = None\<rparr>)) (returnS ()))
     (\<lambda>_. stands_batch v st b (xs @ [new_execution call]))" (is "valid ?P ?m ?Q")
  proof (rule validI)
    fix s x t
    assume s: "?P s" and t: "?m s = Inr (x, t)"
    have "steps (only {sv_kind kind_tool}) ?m" by auto
    from validD [OF stands_tool [OF this] _ t] s t show "?Q x t"
      by (auto simp: stands_batch_def holds_batch_def thenS_Inr new_execution_def)
  qed
  from valid_thenS [OF this Cons.IH] show ?case by simp
qed

lemma view_start_tool_batch:
  "valid (stands v st) (start_tool_batch turn calls)
     (\<lambda>_ t. \<exists>b. shows_view (see_batch turn b (map new_execution calls) v) t)"
  unfolding start_tool_batch_def
proof (rule valid_bindS [OF stands_allocate_tool])
  fix b
  have "valid (stands_batch v st b []) (thenS (forS (\<lambda>call. thenS (stored (append_item kind_tool b
       \<lparr>te_call = call, te_started = False, te_outcome = None\<rparr>)) (returnS ())) calls)
     (transition_to (ExecutingTools turn b))) (\<lambda>_. stands_batch v (ExecutingTools turn b) b (map new_execution calls))"
    using valid_thenS [OF stands_batch_new stands_batch_transition_to, of v st b "[]"] by simp
  then show "valid (stands_batch v st b []) (thenS (forS (\<lambda>call. thenS (stored (append_item kind_tool b
       \<lparr>te_call = call, te_started = False, te_outcome = None\<rparr>)) (returnS ())) calls)
     (transition_to (ExecutingTools turn b))) (\<lambda>_ t. \<exists>b. shows_view (see_batch turn b (map new_execution calls) v) t)"
    by (rule valid_weaken)
      (auto simp: stands_batch_def stands_def shows_view_def batch_shown_def see_batch_def shows_talk_def)
qed

text \<open>Reading the length of a list, or the record, changes nothing.\<close>

lemma valid_len [valid_rules]:
  "(\<And>n. valid P (f n) Q) \<Longrightarrow> valid P (bindS (stored (list_len K l)) f) Q"
  by (auto simp: valid_def bindS_Inr)

lemma valid_recordS [valid_rules]:
  "(\<And>r. valid (\<lambda>s. P s \<and> tx_record s = r) (f (g r)) Q) \<Longrightarrow> valid P (bindS (recordS g) f) Q"
  by (auto simp: valid_def bindS_recordS)

definition response_view :: "nat \<Rightarrow> response \<Rightarrow> view \<Rightarrow> tx \<Rightarrow> bool" where
  "response_view turn resp v t \<longleftrightarrow>
     (if resp_stop_reason resp \<noteq> Stop \<and> resp_stop_reason resp \<noteq> StopToolUse then ended (ModelStopped resp) v t
      else if \<not> is_acceptable resp (tool_calls resp)
      then ended (RunFailed (Malformed ''invalid agent response or tool call batch'')) v t
      else if tool_calls resp = [] then shows_view (see_state (Ready turn False) (see_messages (resp_messages resp) v)) t
      else \<exists>b. shows_view (see_batch turn b (map new_execution (tool_calls resp))
             (see_messages (resp_messages resp) v)) t)"

lemma stands_complete_turn:
  "valid (stands v st) (complete_turn turn b) (\<lambda>_. shows_view (see_state (Ready turn b) v))"
  unfolding complete_turn_def
  by (rule valid_thenS [OF stands_record_event], rule valid_weaken [OF stands_transition_to])
    (auto intro: shows_viewI)

lemma valid_state [valid_rules]:
  "(\<And>r. sr_state r = st \<Longrightarrow> valid (stands v st) (f r) Q) \<Longrightarrow> valid (stands v st) (bindS (recordS (\<lambda>r. r)) f) Q"
  "valid (stands v st) (g st) Q \<Longrightarrow> valid (stands v st) (bindS (recordS sr_state) g) Q"
  by (auto simp: valid_def bindS_recordS stands_def)

lemma stands_append_all:
  "valid (stands v st) (forS (\<lambda>m. thenS (append_message m og) (returnS ())) ms) (\<lambda>_. stands (see_messages ms v) st)"
  using stands_append_messages [where f = "\<lambda>m. m"] by simp

lemmas stands_steps = valid_if valid_len valid_failS valid_thenS [OF stands_append_all]
  valid_thenS [OF stands_record_event] stands_complete_turn view_start_tool_batch stands_finish_run

lemma view_accept_response:
  "valid (stands v st) (accept_response resp) (\<lambda>_ t. \<exists>turn. st = CallingModel turn \<and> response_view turn resp v t)"
  unfolding accept_response_def
  by (rule valid_state, cases st) (auto simp: response_view_def Let_def intro!: stands_steps)

text \<open>A partial response keeps what arrived and suspends the run.\<close>

lemma view_accept_interruption:
  "valid (stands v st) (accept_interruption partial)
     (\<lambda>_ t. (\<exists>turn. st = CallingModel turn) \<and> ended Interrupted (see_messages (pr_messages partial) v) t)"
  unfolding accept_interruption_def by (rule valid_state, cases st) (auto intro!: stands_steps)

subsection \<open>Tool batches\<close>

lemma read_batch: "holds_batch b xs s \<Longrightarrow> stored (read_from kind_tool b 0) s = Inr (xs, s)"
proof -
  have "map (sv_dec kind_tool) (map StTool xs) = map Some xs" by simp
  then show "holds_batch b xs s \<Longrightarrow> ?thesis" by (simp add: holds_batch_def read_from_Inr del: map_map)
qed

lemma valid_read_batch:
  "valid (stands_batch v st b xs) (f xs) Q \<Longrightarrow> valid (stands_batch v st b xs) (bindS (stored (read_from kind_tool b 0)) f) Q"
  unfolding valid_def stands_batch_def by (auto simp: bindS_def read_batch)

lemma stands_set_tool:
  "valid (stands_batch v st b xs) (stored (set_item kind_tool b p x)) (\<lambda>_. stands_batch v st b (xs[p := x]))"
proof (rule validI)
  fix s u t
  assume s: "stands_batch v st b xs s" and t: "stored (set_item kind_tool b p x) s = Inr (u, t)"
  have "steps (only {sv_kind kind_tool}) (stored (set_item kind_tool b p x))" by auto
  from validD [OF stands_tool [OF this] _ t] s t show "stands_batch v st b (xs[p := x]) t"
    by (auto simp: stands_batch_def holds_batch_def map_update)
qed

definition call_position :: "tool_call \<Rightarrow> tool_execution list \<Rightarrow> nat option" where
  "call_position call = position (\<lambda>x. tc_call_id (te_call x) = tc_call_id call)"

lemma stands_update_execution:
  "valid (stands_batch v (ExecutingTools n b) b xs) (update_execution call f)
     (\<lambda>_ t. \<exists>p. call_position call xs = Some p \<and> stands_batch v (ExecutingTools n b) b (xs[p := f (xs ! p)]) t)"
proof (rule validI)
  fix s u t
  assume s: "stands_batch v (ExecutingTools n b) b xs s" and t: "update_execution call f s = Inr (u, t)"
  from s have "sr_state (tx_record s) = ExecutingTools n b" "holds_batch b xs s"
    by (simp_all add: stands_batch_def stands_def)
  note read_batch [OF this(2)] this(1)
  with t have t: "bindS (expectS (Storage (Corrupt ''tool missing from active batch'')) (call_position call xs))
      (\<lambda>p. stored (set_item kind_tool b p (f (xs ! p)))) s = Inr (u, t)"
    by (simp add: update_execution_def bindS_recordS bindS_def [of "stored (read_from _ _ _)"] call_position_def)
  then obtain p where p: "call_position call xs = Some p" "stored (set_item kind_tool b p (f (xs ! p))) s = Inr (u, t)"
    by (auto simp: bindS_Inr)
  from validD [OF stands_set_tool s p(2)] p(1)
  show "\<exists>p. call_position call xs = Some p \<and> stands_batch v (ExecutingTools n b) b (xs[p := f (xs ! p)]) t" by blast
qed

lemma update_execution_phase:
  "update_execution call f s = Inr (u, t) \<Longrightarrow> \<exists>n b. sr_state (tx_record s) = ExecutingTools n b"
  by (cases "sr_state (tx_record s)") (auto simp: update_execution_def bindS_recordS)

text \<open>What becomes of an execution when its run is cancelled.\<close>

definition settled :: "tool_execution \<Rightarrow> tool_execution" where
  "settled x = (if te_outcome x = None then settle_execution x else x)"

lemma stands_cancel_loop:
  "valid (stands_batch v st b (pre @ xs))
     (forS (\<lambda>(pos, x). if te_outcome x = None then stored (set_item kind_tool b pos (settle_execution x))
        else returnS ()) (enumerate (length pre) xs))
     (\<lambda>_. stands_batch v st b (pre @ map settled xs))"
proof (induction xs arbitrary: pre)
  case Nil
  show ?case by (simp add: valid_def)
next
  case (Cons x xs)
  have "valid (stands_batch v st b (pre @ x # xs))
     (if te_outcome x = None then stored (set_item kind_tool b (length pre) (settle_execution x)) else returnS ())
     (\<lambda>_. stands_batch v st b ((pre @ [settled x]) @ xs))"
    using stands_set_tool [of v st b "pre @ x # xs" "length pre" "settle_execution x"]
    by (auto simp: settled_def intro!: valid_if valid_returnS)
  from valid_thenS [OF this Cons.IH [of "pre @ [settled x]"]] show ?case by simp
qed

lemma stands_cancel_unfinished:
  "valid (stands_batch v st b xs) (cancel_unfinished b) (\<lambda>_. stands_batch v st b (map settled xs))"
  unfolding cancel_unfinished_def
  by (rule valid_read_batch) (use stands_cancel_loop [of v st b "[]" xs] in simp)

text \<open>What a settled batch adds to the conversation.\<close>

definition batch_results :: "tool_execution list \<Rightarrow> message list" where
  "batch_results xs = map (\<lambda>x. tool_result_message (te_call x) (the (te_outcome x))) xs"

definition inputs_of :: "tool_execution \<Rightarrow> (tool_call \<times> content_block list) list" where
  "inputs_of x = (case te_outcome x of Some (SuccessWithInput _ input) \<Rightarrow> [(te_call x, input)] | _ \<Rightarrow> [])"

definition batch_inputs :: "tool_execution list \<Rightarrow> message list" where
  "batch_inputs xs = map (\<lambda>(call, content). tool_input_message call content) (concat (map inputs_of xs))"

definition batch_unknown :: "tool_execution list \<Rightarrow> bool" where
  "batch_unknown = list_ex (\<lambda>x. case te_outcome x of Some (Unknown _) \<Rightarrow> True | _ \<Rightarrow> False)"

definition batch_settled :: "tool_execution list \<Rightarrow> bool" where
  "batch_settled = list_all (\<lambda>x. te_outcome x \<noteq> None)"

lemma stands_drain_execution:
  "valid (stands v st) (drain_execution (unknown, inputs) x)
     (\<lambda>acc t. te_outcome x \<noteq> None \<and> stands (see_messages (batch_results [x]) v) st t
        \<and> acc = (unknown \<or> batch_unknown [x], inputs @ inputs_of x))"
proof -
  have d: "valid (stands v st) (thenS (append_message (tool_result_message (te_call x) oc) OriginTool) (returnS acc))
     (\<lambda>y t. stands (see_messages [tool_result_message (te_call x) oc] v) st t \<and> y = acc)" for oc and acc :: draining
    by (rule valid_thenS [OF stands_append_message]) (simp add: valid_def)
  show ?thesis
    unfolding drain_execution_def prod.case
  proof (rule valid_expectS, rule valid_weaken [OF d], assumption)
    fix oc acc t
    assume "te_outcome x = Some oc"
      "stands (see_messages [tool_result_message (te_call x) oc] v) st t
       \<and> acc = (unknown \<or> (case oc of Unknown _ \<Rightarrow> True | _ \<Rightarrow> False),
          case oc of SuccessWithInput _ input \<Rightarrow> inputs @ [(te_call x, input)] | _ \<Rightarrow> inputs)"
    then show "te_outcome x \<noteq> None \<and> stands (see_messages (batch_results [x]) v) st t
        \<and> acc = (unknown \<or> batch_unknown [x], inputs @ inputs_of x)"
      by (cases oc) (auto simp: batch_results_def batch_unknown_def inputs_of_def)
  qed
qed

lemma stands_drain_executions:
  "valid (stands v st) (foldS drain_execution xs (unknown, inputs))
     (\<lambda>acc t. batch_settled xs \<and> stands (see_messages (batch_results xs) v) st t
        \<and> acc = (unknown \<or> batch_unknown xs, inputs @ concat (map inputs_of xs)))"
proof (induction xs arbitrary: v unknown inputs)
  case Nil
  show ?case by (simp add: valid_def batch_settled_def batch_results_def batch_unknown_def)
next
  case (Cons x xs)
  show ?case
    unfolding foldS.simps
  proof (rule valid_bindS [OF stands_drain_execution], rule valid_pure)
    fix acc s
    assume "te_outcome x \<noteq> None \<and> stands (see_messages (batch_results [x]) v) st s
      \<and> acc = (unknown \<or> batch_unknown [x], inputs @ inputs_of x)"
    then show "te_outcome x \<noteq> None \<and> acc = (unknown \<or> batch_unknown [x], inputs @ inputs_of x)" by blast
  next
    fix acc
    assume a: "te_outcome x \<noteq> None \<and> acc = (unknown \<or> batch_unknown [x], inputs @ inputs_of x)"
    show "valid (\<lambda>t. te_outcome x \<noteq> None \<and> stands (see_messages (batch_results [x]) v) st t
        \<and> acc = (unknown \<or> batch_unknown [x], inputs @ inputs_of x)) (foldS drain_execution xs acc)
      (\<lambda>acc t. batch_settled (x # xs) \<and> stands (see_messages (batch_results (x # xs)) v) st t
        \<and> acc = (unknown \<or> batch_unknown (x # xs), inputs @ concat (map inputs_of (x # xs))))"
      using a Cons.IH [of "see_messages (batch_results [x]) v" "unknown \<or> batch_unknown [x]" "inputs @ inputs_of x"]
      by (auto elim!: valid_weaken simp: batch_settled_def batch_results_def batch_unknown_def)
  qed
qed

lemma stands_delete_tool: "valid (stands v st) (stored (delete_list kind_tool b)) (\<lambda>_. stands v st)"
  by (rule stands_tool) (auto intro!: stepsI simp: only_def)

lemma stands_drain_batch:
  "valid (stands_batch v st b xs) (drain_batch b)
     (\<lambda>unknown t. batch_settled xs \<and> unknown = batch_unknown xs
        \<and> stands (see_messages (batch_results xs @ batch_inputs xs) v) st t)"
proof -
  let ?v = "see_messages (batch_results xs) v" and ?ins = "concat (map inputs_of xs)"
  have i: "valid (stands ?v st) (forS (\<lambda>(call, content).
        thenS (append_message (tool_input_message call content) OriginTool) (returnS ())) ?ins)
      (\<lambda>_. stands (see_messages (batch_results xs @ batch_inputs xs) v) st)"
    using stands_append_messages [of ?v st "\<lambda>(call, content). tool_input_message call content" OriginTool ?ins]
    by (simp add: batch_inputs_def case_prod_unfold)
  have e: "valid (stands ?v st) (thenS (stored (delete_list kind_tool b))
      (thenS (forS (\<lambda>(call, content).
        thenS (append_message (tool_input_message call content) OriginTool) (returnS ())) ?ins)
      (returnS u))) (\<lambda>x t. x = u \<and> stands (see_messages (batch_results xs @ batch_inputs xs) v) st t)" for u
    by (rule valid_thenS [OF stands_delete_tool], rule valid_thenS [OF i]) (simp add: valid_def)
  show ?thesis
    unfolding drain_batch_def
  proof (rule valid_read_batch, rule valid_weaken [where P = "stands v st"])
    show "valid (stands v st) (bindS (foldS drain_execution xs (False, [])) (\<lambda>(unknown, inputs).
     thenS (stored (delete_list kind_tool b))
    (thenS (forS (\<lambda>(call, content).
               thenS (append_message (tool_input_message call content) OriginTool) (returnS ()))
             inputs)
       (returnS unknown)))) (\<lambda>unknown t. batch_settled xs \<and> unknown = batch_unknown xs
        \<and> stands (see_messages (batch_results xs @ batch_inputs xs) v) st t)"
    proof (rule valid_bindS [OF stands_drain_executions], rule valid_pure)
      fix acc s
      assume "batch_settled xs \<and> stands ?v st s \<and> acc = (False \<or> batch_unknown xs, [] @ ?ins)"
      then show "batch_settled xs \<and> acc = (batch_unknown xs, ?ins)" by simp
    next
      fix acc
      assume "batch_settled xs \<and> acc = (batch_unknown xs, ?ins)"
      then show "valid (\<lambda>t. batch_settled xs \<and> stands ?v st t \<and> acc = (False \<or> batch_unknown xs, [] @ ?ins))
        (case acc of (unknown, inputs) \<Rightarrow> thenS (stored (delete_list kind_tool b))
          (thenS (forS (\<lambda>(call, content).
               thenS (append_message (tool_input_message call content) OriginTool) (returnS ())) inputs)
            (returnS unknown)))
        (\<lambda>unknown t. batch_settled xs \<and> unknown = batch_unknown xs
          \<and> stands (see_messages (batch_results xs @ batch_inputs xs) v) st t)"
        using valid_weaken [OF e] by simp
    qed
  qed (simp_all add: stands_batch_def)
qed

definition tools_view :: "nat \<Rightarrow> tool_execution list \<Rightarrow> view \<Rightarrow> tx \<Rightarrow> bool" where
  "tools_view turn xs v t \<longleftrightarrow>
     (let v' = see_messages (batch_results xs @ batch_inputs xs) v in
      if batch_unknown xs then ended ToolOutcomeUnknown v' t else shows_view (see_state (Ready turn True) v') t)"

lemma valid_state_batch [valid_rules]:
  "valid (stands_batch v st b xs) (g st) Q \<Longrightarrow> valid (stands_batch v st b xs) (bindS (recordS sr_state) g) Q"
  by (auto simp: valid_def bindS_recordS stands_batch_def stands_def)

lemma stands_complete_tools:
  "valid (stands_batch v (ExecutingTools turn b) b xs) complete_tools
     (\<lambda>_ t. batch_settled xs \<and> tools_view turn xs v t)"
  unfolding complete_tools_def
proof (rule valid_state_batch, unfold session_state.case, rule valid_bindS [OF stands_drain_batch], rule valid_pure)
  fix unknown s
  assume "batch_settled xs \<and> unknown = batch_unknown xs \<and>
    stands (see_messages (batch_results xs @ batch_inputs xs) v) (ExecutingTools turn b) s"
  then show "batch_settled xs \<and> unknown = batch_unknown xs" by blast
next
  fix unknown
  assume a: "batch_settled xs \<and> unknown = batch_unknown xs"
  let ?v = "see_messages (batch_results xs @ batch_inputs xs) v"
  have "valid (stands ?v (ExecutingTools turn b))
      (if unknown then thenS (record_event (StableBoundary turn)) (finish_run ToolOutcomeUnknown)
       else complete_turn turn True) (\<lambda>_ t. batch_settled xs \<and> tools_view turn xs v t)"
    using a by (auto simp: tools_view_def Let_def intro!: stands_steps)
  then show "valid (\<lambda>t. batch_settled xs \<and> unknown = batch_unknown xs \<and> stands ?v (ExecutingTools turn b) t)
      (if unknown then thenS (record_event (StableBoundary turn)) (finish_run ToolOutcomeUnknown)
       else complete_turn turn True) (\<lambda>_ t. batch_settled xs \<and> tools_view turn xs v t)"
    by (rule valid_weaken) auto
qed

subsection \<open>Settling an interrupted run\<close>

lemma see_state_again [simp]: "see_state st (see_state st' v) = see_state st v"
  by (simp add: see_state_def)

lemma ended_see_state [simp]: "ended oc (see_state st v) = ended oc v"
  by (simp add: ended_def fun_eq_iff)

lemma ended_state: "ended oc v t \<Longrightarrow> oc \<noteq> Completed \<Longrightarrow> is_suspended (sr_state (tx_record t))"
  by (auto simp: ended_def shows_view_def see_state_def)

definition settled_view :: "view \<Rightarrow> tx \<Rightarrow> bool" where
  "settled_view v t \<longleftrightarrow> (case vw_state v of
     CallingModel _ \<Rightarrow> ended Interrupted v t
   | ExecutingTools _ _ \<Rightarrow>
       let xs = map settled (vw_batch v); v' = see_messages (batch_results xs @ batch_inputs xs) v in
       ended (if batch_unknown xs then ToolOutcomeUnknown else Interrupted) v' t
   | Compacting resume' \<Rightarrow>
       if is_suspended resume' then shows_view (see_state resume' v) t else ended Interrupted v t
   | _ \<Rightarrow> shows_view v t)"

lemma stands_settle_tools:
  "valid (stands_batch v (ExecutingTools turn b) b xs) (settle_state (ExecutingTools turn b))
     (\<lambda>_. ended (if batch_unknown (map settled xs) then ToolOutcomeUnknown else Interrupted)
        (see_messages (batch_results (map settled xs) @ batch_inputs (map settled xs)) v))"
  unfolding settle_state.simps
proof (rule valid_thenS [OF stands_cancel_unfinished], rule valid_thenS [OF stands_complete_tools])
  let ?xs = "map settled xs"
  let ?v = "see_messages (batch_results ?xs @ batch_inputs ?xs) v"
  let ?stop = "bindS (recordS sr_state) (\<lambda>state. if is_suspended state then returnS () else finish_run Interrupted)"
  show "valid (\<lambda>t. batch_settled ?xs \<and> tools_view turn ?xs v t) ?stop
     (\<lambda>_. ended (if batch_unknown ?xs then ToolOutcomeUnknown else Interrupted) ?v)"
  proof (cases "batch_unknown ?xs")
    case True
    then show ?thesis
      by (auto simp: valid_def tools_view_def bindS_recordS dest: ended_state)
  next
    case False
    have "valid (shows_view (see_state (Ready turn True) ?v)) ?stop (\<lambda>_. ended Interrupted (see_state (Ready turn True) ?v))"
      by (rule validI) (auto simp: bindS_recordS shows_view_def see_state_def stands_def
          dest: validD [OF stands_finish_run [of "see_state (Ready turn True) ?v" "Ready turn True"], rotated])
    with False show ?thesis by (auto simp: tools_view_def elim: valid_weaken)
  qed
qed

lemma stands_settle_compacting:
  assumes "is_stable resume'"
  shows "valid (stands v st) (settle_state (Compacting resume'))
     (\<lambda>_ t. if is_suspended resume' then shows_view (see_state resume' v) t else ended Interrupted v t)"
proof -
  have "valid (stands v resume') (if \<not> is_stable resume' then settle_state resume'
     else if \<not> is_suspended resume' then finish_run Interrupted else returnS ())
     (\<lambda>_ t. if is_suspended resume' then shows_view (see_state resume' v) t else ended Interrupted v t)"
    using assms by (cases resume') (auto intro!: stands_steps valid_returnS shows_viewI)
  from valid_thenS [OF stands_transition_to this] show ?thesis by simp
qed

lemma view_settle_interrupted:
  assumes "\<And>r. vw_state v = Compacting r \<Longrightarrow> is_stable r"
  shows "valid (shows_view v) settle_interrupted (\<lambda>_. settled_view v)"
proof (rule validI)
  fix s u t
  assume s: "shows_view v s" and t: "settle_interrupted s = Inr (u, t)"
  have st: "stands v (vw_state v) s" and b: "batch_shown v s" using s by (simp_all add: shows_view_def stands_def)
  from t s have t: "settle_state (vw_state v) s = Inr (u, t)"
    by (simp add: settle_interrupted_def bindS_recordS shows_view_def)
  show "settled_view v t"
  proof (cases "vw_state v")
    case (CallingModel n)
    have "valid (stands v st) (settle_state (CallingModel n)) (\<lambda>_. ended Interrupted v)" for st
      by (auto intro!: stands_steps)
    from validD [OF this st] t CallingModel show ?thesis by (simp add: settled_view_def)
  next
    case (ExecutingTools n b')
    with st b have "stands_batch v (ExecutingTools n b') b' (vw_batch v) s"
      by (simp add: stands_batch_def batch_shown_def)
    from validD [OF stands_settle_tools this] t ExecutingTools show ?thesis
      by (simp add: settled_view_def Let_def)
  next
    case (Compacting r)
    from validD [OF stands_settle_compacting [OF assms [OF Compacting]] st] t Compacting show ?thesis
      by (simp add: settled_view_def)
  qed (use s t in \<open>simp_all add: settled_view_def\<close>)
qed

text \<open>Whatever the state, settling ends in a stable one.\<close>

lemma complete_tools_state: "complete_tools s = Inr (u, t) \<Longrightarrow> is_stable (sr_state (tx_record t))"
proof -
  assume "complete_tools s = Inr (u, t)"
  then obtain n b unknown v where
    "(if unknown then thenS (record_event (StableBoundary n)) (finish_run ToolOutcomeUnknown) else complete_turn n True) v
       = Inr (u, t)"
    by (cases "sr_state (tx_record s)") (auto simp: complete_tools_def bindS_recordS bindS_Inr)
  then show ?thesis
    by (auto simp: thenS_Inr complete_turn_def dest!: transition_to_state finish_run_effect(5) split: if_splits)
qed

lemma settle_state_stable:
  "settle_state st s = Inr (u, t) \<Longrightarrow> sr_state (tx_record s) = st \<Longrightarrow> is_stable (sr_state (tx_record t))"
proof (induction st arbitrary: s u)
  case (ExecutingTools n b)
  then obtain v w where "complete_tools v = Inr ((), w)"
    "(if is_suspended (sr_state (tx_record w)) then returnS () else finish_run Interrupted) w = Inr (u, t)"
    by (auto simp: thenS_Inr bindS_recordS)
  then show ?case using complete_tools_state finish_run_effect(5) by (fastforce split: if_splits)
next
  case (Compacting r)
  then obtain v where v: "transition_to r s = Inr ((), v)"
    "(if \<not> is_stable r then settle_state r else if \<not> is_suspended r then finish_run Interrupted else returnS ()) v
       = Inr (u, t)" by (auto simp: thenS_Inr)
  from transition_to_state [OF v(1)] v(2) Compacting.IH show ?case
    by (auto dest!: finish_run_effect(5) split: if_splits)
qed (auto simp: thenS_Inr dest!: finish_run_effect(5))

subsection \<open>Inputs\<close>

text \<open>A change of one list, beside what recording an event appends.\<close>

definition only_list :: "list_id \<Rightarrow> tx \<Rightarrow> tx \<Rightarrow> bool" where
  "only_list l s t \<longleftrightarrow> tx_record t = tx_record s
     \<and> (\<forall>l' k cells. l' \<noteq> l \<longrightarrow> k \<notin> {sv_kind kind_event, sv_kind kind_history} \<longrightarrow>
          tx_lists s l' = Some (k, cells) \<longrightarrow> tx_lists t l' = Some (k, cells))"

interpretation only_list: step_order "only_list l" for l
  by unfold_locales (auto simp: only_list_def)

lemma only_list_put: "only_list l s (put_list l k cells s)"
  by (simp add: only_list_def)

lemma only_list_steps [intro!, simp]:
  "steps (only_list l) (stored (set_item K l p x))" "steps (only_list l) (stored (remove_item K l p))"
  "steps (only_list l) (stored (append_item K l x))" "steps (only_list l) (recordS f)"
  "steps (only_list l) (stored (read_from K l' n))" "steps (only_list l) (record_event ev)"
  by (auto intro!: stepsI simp: read_from_Inr only_list.refl only_list_put [unfolded put_list_def])
    (auto simp: only_list_def dest!: stepsD [OF only_record_event] dest: only_record only_lists)

lemma only_list_same:
  assumes "only_list l s t" and "tx_lists s l' = Some (k, cells)" and "l' \<noteq> l"
    and "k \<notin> {sv_kind kind_event, sv_kind kind_history}"
  shows "tx_lists t l' = Some (k, cells)"
  using assms unfolding only_list_def by blast

lemma consumable_queue:
  assumes "consumable q c s" and "only_list (sr_queue (tx_record s)) s t" and "waiting q' t"
  shows "consumable q' c t" and "stored_message t = stored_message s"
proof -
  from assms(1) obtain gs g cells es where
    c: "tx_lists s (sr_generations (tx_record s)) = Some (sv_kind kind_generation, gs)"
    "cell_at gs (sr_active (tx_record s)) = Some (StGeneration g)" "gn_entries g \<noteq> sr_queue (tx_record s)"
    "tx_lists s (gn_entries g) = Some (sv_kind kind_entry_id, map (Some \<circ> StEntryId) c)"
    "tx_lists s (sr_queue (tx_record s)) = Some (sv_kind kind_entry_id, cells)"
    "sr_queue_head (tx_record s) \<le> length cells"
    "drop (sr_queue_head (tx_record s)) cells = map (Some \<circ> StEntryId) q"
    "entries_placed s" "tx_lists s (sr_entries (tx_record s)) = Some (sv_kind kind_entry, es)"
    by (rule consumableE)
  have r: "tx_record t = tx_record s" using assms(2) by (simp add: only_list_def)
  have ne: "sr_entries (tx_record s) \<noteq> sr_queue (tx_record s)" "sr_generations (tx_record s) \<noteq> sr_queue (tx_record s)"
    using c by auto
  note l = only_list_same [OF assms(2)]
  have t: "tx_lists t (sr_entries (tx_record s)) = Some (sv_kind kind_entry, es)"
    "tx_lists t (sr_generations (tx_record s)) = Some (sv_kind kind_generation, gs)"
    "tx_lists t (gn_entries g) = Some (sv_kind kind_entry_id, map (Some \<circ> StEntryId) c)"
    using l [OF c(9) ne(1)] l [OF c(1) ne(2)] l [OF c(4,3)] by simp_all
  then show "stored_message t = stored_message s" using r c(9) by (simp add: stored_message_def fun_eq_iff)
  show "consumable q' c t"
    using t c(2,3,8,9) assms(3) r
    unfolding consumable_def holds_context_def active_list_def entries_placed_def by auto
qed

lemma consumable_store_entry:
  assumes "consumable q c s" and "store_entry m og s = Inr (n, t)"
  shows "consumable q c t" and "stored_message t n = Some m"
    and "stored_message s i = Some x \<Longrightarrow> stored_message t i = Some x"
    and "only {sv_kind kind_entry} s t"
proof -
  from assms(2) obtain e where e': "create_entry m og s = Inr (e, t)" "n = en_id e"
    by (auto simp: store_entry_Inr)
  then obtain es where e: "tx_lists s (sr_entries (tx_record s)) = Some (sv_kind kind_entry, es)"
      "en_id e = length es" "en_message e = m" "n = length es"
    and t: "t = put_list (sr_entries (tx_record s)) (sv_kind kind_entry) (es @ [Some (StEntry e)]) s"
    by (auto simp: create_entry_Inr)
  have ne: "tx_lists s l = Some (k, d) \<Longrightarrow> k \<noteq> sv_kind kind_entry \<Longrightarrow> l \<noteq> sr_entries (tx_record s)" for l k d
    using e(1) by auto
  show "consumable q c t"
    using assms(1)
  proof (rule consumableE)
    fix gs g cells es'
    assume c: "tx_lists s (sr_generations (tx_record s)) = Some (sv_kind kind_generation, gs)"
      "cell_at gs (sr_active (tx_record s)) = Some (StGeneration g)" "gn_entries g \<noteq> sr_queue (tx_record s)"
      "tx_lists s (gn_entries g) = Some (sv_kind kind_entry_id, map (Some \<circ> StEntryId) c)"
      "tx_lists s (sr_queue (tx_record s)) = Some (sv_kind kind_entry_id, cells)"
      "sr_queue_head (tx_record s) \<le> length cells"
      "drop (sr_queue_head (tx_record s)) cells = map (Some \<circ> StEntryId) q" "entries_placed s"
    have "entries_placed t"
      using c(8) e unfolding entries_placed_def t
      by (auto simp: cell_at_def nth_append less_Suc_eq split: if_splits)
    with c ne [OF c(1)] ne [OF c(4)] ne [OF c(5)] show ?thesis
      unfolding consumable_def waiting_def holds_context_def active_list_def t by auto
  qed
  have m: "stored_message t i = (case cell_at (es @ [Some (StEntry e)]) i of
      Some (StEntry e) \<Rightarrow> Some (en_message e) | _ \<Rightarrow> None)" for i
    by (simp add: stored_message_def t)
  show "stored_message t n = Some m" using m [of n] e by (simp add: cell_at_end)
  show "stored_message s i = Some x \<Longrightarrow> stored_message t i = Some x"
    using m [of i] e(1) by (auto simp: stored_message_def cell_at_append split: option.splits stored_data.splits)
  show "only {sv_kind kind_entry} s t" unfolding t using e(1) by (intro only_put_list) simp_all
qed

definition see_queue :: "(entry_id \<times> message) list \<Rightarrow> view \<Rightarrow> view" where
  "see_queue q v = v\<lparr>vw_queue := q\<rparr>"

lemma batch_shown_same:
  "batch_shown v s \<Longrightarrow> (\<And>l cells. tx_lists s l = Some (sv_kind kind_tool, cells) \<Longrightarrow>
     tx_lists t l = Some (sv_kind kind_tool, cells)) \<Longrightarrow> batch_shown v t"
  by (auto simp: batch_shown_def holds_batch_def split: session_state.splits)

lemma see_queue_simps [simp]:
  "vw_queue (see_queue q v) = q" "vw_context (see_queue q v) = vw_context v"
  "vw_state (see_queue q v) = vw_state v" "vw_batch (see_queue q v) = vw_batch v"
  by (simp_all add: see_queue_def)

lemma batch_shown_see_queue [simp]: "batch_shown (see_queue q v) = batch_shown v"
  by (simp add: fun_eq_iff batch_shown_def split: session_state.split)

text \<open>An input waits behind the others.\<close>

lemma view_append_input:
  assumes "shows_view v s" and "append_input m s = Inr (e, t)"
  shows "shows_view (see_queue (vw_queue v @ [(e, m)]) v) t" and "tx_record t = tx_record s"
proof -
  from assms(1) obtain c where c: "consumable (map fst (vw_queue v)) c s"
    "messages_of s (map fst (vw_queue v)) (map snd (vw_queue v))" "messages_of s c (vw_context v)"
    and st: "sr_state (tx_record s) = vw_state v" "batch_shown v s"
    unfolding shows_view_def shows_talk_def by blast
  from assms(2) obtain u w k n where u: "store_entry m OriginInput s = Inr (e, u)"
    and w: "stored (append_item kind_entry_id (sr_queue (tx_record u)) e) u = Inr (k, w)"
    and t: "record_event (MessageQueued e) w = Inr (n, t)"
    by (auto simp: append_input_def bindS_Inr thenS_Inr)
  note a = consumable_store_entry [OF c(1) u]
  have o: "only_list (sr_queue (tx_record u)) u t"
    using stepsD [OF only_list_steps(3) w] stepsD [OF only_list_steps(6) t] by (blast intro: only_list.trans)
  have "waiting (map fst (vw_queue v)) s" using c(1) by (simp add: consumable_def)
  from validD [OF waiting_append_input this assms(2)]
  have q: "waiting (map fst (vw_queue v) @ [e]) t" .
  note b = consumable_queue [OF a(1) o q]
  have keep: "messages_of s is ms \<Longrightarrow> messages_of t is ms" for "is" ms
    using a(3) b(2) unfolding messages_of_def by (simp add: list_eq_iff_nth_eq)
  show r: "tx_record t = tx_record s" using o only_record [OF a(4)] by (simp add: only_list_def)
  have "shows_talk (see_queue (vw_queue v @ [(e, m)]) v) t"
    unfolding shows_talk_def using a(2) b(1,2) keep [OF c(2)] keep [OF c(3)]
    by (intro exI [of _ c]) (simp add: see_queue_def messages_of_def)
  moreover have "tx_lists t l = Some (sv_kind kind_tool, cells)" if l: "tx_lists s l = Some (sv_kind kind_tool, cells)" for l cells
  proof (rule only_list_same [OF o])
    show "tx_lists u l = Some (sv_kind kind_tool, cells)" using only_lists [OF a(4) l] by simp
    show "l \<noteq> sr_queue (tx_record u)"
      using l c(1) only_record [OF a(4)] by (auto elim!: consumableE)
  qed simp
  ultimately show "shows_view (see_queue (vw_queue v @ [(e, m)]) v) t"
    using st r by (auto simp: shows_view_def elim!: batch_shown_same)
qed

text \<open>Moving and cancelling change the waiting inputs only.\<close>

lemma view_requeue:
  assumes "shows_view v s" and "only_list (sr_queue (tx_record s)) s t"
    and "waiting (map fst q) t" and "set q \<subseteq> set (vw_queue v)"
  shows "shows_view (see_queue q v) t"
proof -
  from assms(1) obtain c where c: "consumable (map fst (vw_queue v)) c s"
    "messages_of s (map fst (vw_queue v)) (map snd (vw_queue v))" "messages_of s c (vw_context v)"
    and st: "sr_state (tx_record s) = vw_state v" "batch_shown v s"
    unfolding shows_view_def shows_talk_def by blast
  note b = consumable_queue [OF c(1) assms(2,3)]
  have "\<forall>x \<in> set (vw_queue v). stored_message s (fst x) = Some (snd x)"
    using c(2) by (simp add: messages_of_def)
  with assms(4) b(2) have "messages_of t (map fst q) (map snd q)" by (auto simp: messages_of_def)
  with b c(3) have "shows_talk (see_queue q v) t"
    unfolding shows_talk_def by (auto simp: see_queue_def messages_of_def)
  moreover have "tx_lists t l = Some (sv_kind kind_tool, cells)" if l: "tx_lists s l = Some (sv_kind kind_tool, cells)" for l cells
    by (rule only_list_same [OF assms(2) l]) (use l c(1) in \<open>auto elim!: consumableE\<close>)
  moreover have "tx_record t = tx_record s" using assms(2) by (simp add: only_list_def)
  ultimately show ?thesis using st by (auto simp: shows_view_def elim!: batch_shown_same)
qed

end
