(* ===== verification/Pairing.thy ===== *)
theory Pairing
  imports Conversation
begin

text \<open>
  Tool calls and their results stay paired: what the state machine puts into a conversation is a
  sequence the pair validator accepts, so every request sent to the model is one.
\<close>

subsection \<open>The validator on the parts of a turn\<close>

definition call_pair :: "tool_call \<Rightarrow> string \<times> string" where
  "call_pair c = (tc_call_id c, tc_name c)"

definition execution_id :: "tool_execution \<Rightarrow> string" where
  "execution_id x = tc_call_id (te_call x)"

definition execution_pair :: "tool_execution \<Rightarrow> string \<times> string" where
  "execution_pair x = call_pair (te_call x)"

lemma execution_pair_simps [simp]:
  "fst (execution_pair x) = execution_id x" "snd (execution_pair x) = tc_name (te_call x)"
  "map (fst \<circ> execution_pair) xs = map execution_id xs"
  by (simp_all add: execution_id_def execution_pair_def call_pair_def)

text \<open>The output of a model: the calls it makes are pending after it, newest first.\<close>

lemma calls_of_response: "map call_pair (tool_calls resp) = concat (map call_of (resp_messages resp))"
proof -
  have "map call_pair (List.map_filter (\<lambda>m. case m of ToolUse _ i n a \<Rightarrow>
      Some \<lparr>tc_call_id = i, tc_name = n, tc_arguments = a\<rparr> | _ \<Rightarrow> None) ms) = concat (map call_of ms)" for ms
  proof (induction ms)
    case (Cons m ms)
    then show ?case by (cases m) (simp_all add: List.map_filter_simps call_pair_def)
  qed (simp add: List.map_filter_simps)
  then show ?thesis by (simp add: tool_calls_def)
qed

lemma acceptable_outputs:
  assumes "is_acceptable resp (tool_calls resp)"
  shows "list_all valid_output (resp_messages resp)"
proof -
  have "valid_output m" if m: "m \<in> set (resp_messages resp)" for m
  proof -
    have "\<not> is_input m" "\<not> is_tool_result m"
      using assms m by (auto simp: is_acceptable_def list_ex_iff)
    moreover have "is_valid_tool_use i n a" if "m = ToolUse md i n a" for md i n a
    proof -
      have "\<lparr>tc_call_id = i, tc_name = n, tc_arguments = a\<rparr> \<in> set (tool_calls resp)"
        using m that by (force simp: tool_calls_def List.map_filter_def)
      with assms show ?thesis by (auto simp: is_acceptable_def list_all_iff)
    qed
    ultimately show ?thesis by (cases m) auto
  qed
  then show ?thesis by (simp add: list_all_iff)
qed

lemma accept_response_messages:
  assumes "is_acceptable resp (tool_calls resp)"
  shows "foldR accept (resp_messages resp) [] = Inr (rev (map call_pair (tool_calls resp)))"
proof -
  have "map fst (map call_pair (tool_calls resp)) = map tc_call_id (tool_calls resp)"
    by (simp add: call_pair_def)
  then have "distinct (map fst (concat (map call_of (resp_messages resp))))"
    using assms by (simp add: is_acceptable_def calls_of_response)
  then show ?thesis
    using accept_outputs [OF acceptable_outputs [OF assms], of "[]"] by (simp add: calls_of_response)
qed

text \<open>The results of a batch answer its calls.\<close>

lemma answers_batch: "answers (map execution_pair xs) (batch_results xs)"
  by (simp add: answers_def batch_results_def list_all2_conv_all_nth tool_result_message_def
      execution_pair_def call_pair_def)

lemma batch_inputs_input: "list_all is_input (batch_inputs xs)"
  by (auto simp: batch_inputs_def list_all_iff tool_input_message_def)

subsection \<open>Paired views\<close>

text \<open>
  Outside a tool batch the conversation is paired; during one, exactly the calls of the batch are
  unanswered. Only inputs wait.
\<close>

definition paired :: "view \<Rightarrow> bool" where
  "paired v \<longleftrightarrow> list_all (\<lambda>(_, m). is_input m) (vw_queue v)
     \<and> (case vw_state v of
         ExecutingTools _ _ \<Rightarrow> distinct (map execution_id (vw_batch v))
           \<and> foldR accept (vw_context v) [] = Inr (rev (map execution_pair (vw_batch v)))
       | _ \<Rightarrow> pairs_ok (vw_context v))"

text \<open>A state that compacts resumes a stable one.\<close>

definition good_view :: "view \<Rightarrow> bool" where
  "good_view v \<longleftrightarrow> paired v \<and> (\<forall>r. vw_state v = Compacting r \<longrightarrow> is_stable r)"

definition good_tx :: "tx \<Rightarrow> bool" where
  "good_tx t \<longleftrightarrow> (\<exists>v. shows_view v t \<and> good_view v)"

lemma good_txI: "shows_view v t \<Longrightarrow> paired v \<Longrightarrow> (\<And>r. vw_state v = Compacting r \<Longrightarrow> is_stable r) \<Longrightarrow> good_tx t"
  by (auto simp: good_tx_def good_view_def)

lemma paired_ended:
  "ended oc v t \<Longrightarrow> list_all (\<lambda>(_, m). is_input m) (vw_queue v) \<Longrightarrow> pairs_ok (vw_context v) \<Longrightarrow>
     good_tx t"
proof -
  assume a: "ended oc v t" "list_all (\<lambda>(_, m). is_input m) (vw_queue v)" "pairs_ok (vw_context v)"
  then obtain st where st: "shows_view (see_state st v) t" "is_stable st"
    unfolding ended_def by (auto split: if_splits elim!: is_suspended.elims)
  moreover from a st(2) have "paired (see_state st v)"
    by (cases st) (auto simp: paired_def see_state_def)
  ultimately show ?thesis by (intro good_txI [of "see_state st v"]) (auto simp: see_state_def)
qed

lemma paired_see_state:
  "list_all (\<lambda>(_, m). is_input m) (vw_queue v) \<Longrightarrow> pairs_ok (vw_context v) \<Longrightarrow> (\<And>n b. st \<noteq> ExecutingTools n b) \<Longrightarrow>
     paired (see_state st v)"
  by (cases st) (auto simp: paired_def see_state_def)

lemma vw_see [simp]:
  "vw_queue (see_messages ms v) = vw_queue v" "vw_state (see_messages ms v) = vw_state v"
  "vw_batch (see_messages ms v) = vw_batch v" "vw_context (see_messages ms v) = vw_context v @ ms"
  "vw_context (see_inputs v) = vw_context v @ map snd (vw_queue v)" "vw_queue (see_inputs v) = []"
  "vw_context (see_state st v) = vw_context v" "vw_queue (see_state st v) = vw_queue v"
  "vw_state (see_state st v) = st"
  by (simp_all add: see_defs)

lemma paired_response:
  assumes "paired v" and "vw_state v = CallingModel turn" and "response_view turn resp v t"
  shows "good_tx t"
proof -
  from assms(1,2) have q: "list_all (\<lambda>(_, m). is_input m) (vw_queue v)" and p: "pairs_ok (vw_context v)"
    by (auto simp: paired_def)
  show ?thesis
  proof (cases "is_acceptable resp (tool_calls resp) \<and> \<not> (resp_stop_reason resp \<noteq> Stop \<and> resp_stop_reason resp \<noteq> StopToolUse)")
    case False
    with assms(3) have "\<exists>oc. ended oc v t" by (auto simp: response_view_def split: if_splits)
    with q p show ?thesis by (auto dest: paired_ended)
  next
    case True
    let ?v = "see_messages (resp_messages resp) v" and ?c = "tool_calls resp"
    have f: "foldR accept (vw_context ?v) [] = Inr (rev (map call_pair ?c))"
      using pairs_ok_append [OF p] accept_response_messages True by simp
    show ?thesis
    proof (cases "?c = []")
      case True': True
      have "paired (see_state (Ready turn False) ?v)"
        using f True' q by (intro paired_see_state) (auto simp: pairs_ok_def)
      moreover have "shows_view (see_state (Ready turn False) ?v) t"
        using assms(3) True True' by (auto simp: response_view_def split: if_splits)
      ultimately show ?thesis by (intro good_txI) (auto simp: see_state_def)
    next
      case False
      with assms(3) True obtain b where b: "shows_view (see_batch turn b (map new_execution ?c) ?v) t"
        by (auto simp: response_view_def split: if_splits)
      have "paired (see_batch turn b (map new_execution ?c) ?v)"
        using f q True by (simp add: paired_def see_batch_def new_execution_def comp_def is_acceptable_def execution_id_def execution_pair_def)
      with b show ?thesis by (intro good_txI) (auto simp: see_batch_def)
    qed
  qed
qed

text \<open>The results of a batch and the inputs its tools hand over pair its calls again.\<close>

lemma accept_batch:
  assumes "foldR accept c [] = Inr (rev (map execution_pair xs))"
    and "distinct (map execution_id xs)"
  shows "pairs_ok (c @ batch_results xs @ batch_inputs xs)"
proof -
  have "distinct (map fst (map execution_pair xs))" using assms(2) by simp
  then have "foldR accept (batch_results xs) (rev (map execution_pair xs)) = Inr []"
    by (intro accept_answers [OF answers_batch] map_of_rev_distinct)
  with assms(1) accept_inputs [OF batch_inputs_input] show ?thesis
    by (simp add: pairs_ok_def foldR_append)
qed

lemma paired_tools:
  assumes "paired v" and "vw_state v = ExecutingTools turn b" and "tools_view turn (vw_batch v) v t"
  shows "good_tx t"
proof -
  let ?v = "see_messages (batch_results (vw_batch v) @ batch_inputs (vw_batch v)) v"
  from assms(1,2) have q: "list_all (\<lambda>(_, m). is_input m) (vw_queue ?v)" and p: "pairs_ok (vw_context ?v)"
    using accept_batch by (auto simp: paired_def)
  show ?thesis
  proof (cases "batch_unknown (vw_batch v)")
    case True
    with assms(3) have "ended ToolOutcomeUnknown ?v t" by (simp add: tools_view_def)
    from paired_ended [OF this q p] show ?thesis .
  next
    case False
    with assms(3) have "shows_view (see_state (Ready turn True) ?v) t" by (simp add: tools_view_def)
    moreover have "paired (see_state (Ready turn True) ?v)" by (rule paired_see_state [OF q p]) simp
    ultimately show ?thesis by (intro good_txI) (auto simp: see_state_def)
  qed
qed

lemma settled_pair [simp]: "execution_id (settled x) = execution_id x" "execution_pair (settled x) = execution_pair x"
  by (simp_all add: settled_def settle_execution_def execution_id_def execution_pair_def)

lemma paired_settled:
  assumes "paired v" and "settled_view v t" and "\<And>r. vw_state v = Compacting r \<Longrightarrow> is_stable r"
    and "shows_view v s"
  shows "good_tx t"
proof (cases "vw_state v")
  case (ExecutingTools n b)
  let ?xs = "map settled (vw_batch v)"
  let ?v = "see_messages (batch_results ?xs @ batch_inputs ?xs) v"
  from assms(2) ExecutingTools obtain oc where e: "ended oc ?v t"
    by (auto simp: settled_view_def Let_def)
  have p: "pairs_ok (vw_context v @ batch_results ?xs @ batch_inputs ?xs)"
    using assms(1) ExecutingTools by (intro accept_batch) (simp_all add: paired_def comp_def)
  show ?thesis
    by (rule paired_ended [OF e]) (use assms(1) p in \<open>simp_all add: paired_def\<close>)
next
  case (Compacting r)
  with assms(3) have r: "is_stable r" by blast
  from assms(1) Compacting have q: "list_all (\<lambda>(_, m). is_input m) (vw_queue v)" "pairs_ok (vw_context v)"
    by (auto simp: paired_def)
  then have "paired (see_state r v)" using r by (intro paired_see_state) auto
  with assms(2) Compacting q r show ?thesis
    by (auto simp: settled_view_def see_state_def split: if_splits dest: paired_ended intro: good_txI)
next
  case (CallingModel n)
  with assms(1,2) have "ended Interrupted v t" "list_all (\<lambda>(_, m). is_input m) (vw_queue v)" "pairs_ok (vw_context v)"
    by (auto simp: settled_view_def paired_def)
  then show ?thesis by (rule paired_ended)
qed (use assms in \<open>auto simp: settled_view_def intro: good_txI\<close>)

lemma paired_start_turn:
  assumes "paired v" and "vw_state v = Ready n needs"
  shows "pairs_ok (vw_context v @ map snd (vw_queue v))"
    and "paired (see_state (CallingModel m) (see_inputs v))"
proof -
  have "list_all is_input (map snd (vw_queue v))"
    using assms(1) by (auto simp: paired_def list_all_iff)
  with assms show p: "pairs_ok (vw_context v @ map snd (vw_queue v))"
    by (auto simp: paired_def pairs_ok_def foldR_append accept_inputs)
  show "paired (see_state (CallingModel m) (see_inputs v))"
    by (rule paired_see_state) (use p in simp_all)
qed

lemma paired_interruption:
  assumes "paired v" and "vw_state v = CallingModel n" and "pairs_ok ms" and "ended Interrupted (see_messages ms v) t"
  shows "good_tx t"
  by (rule paired_ended [OF assms(4)]) (use assms in \<open>auto simp: paired_def pairs_ok_def foldR_append\<close>)

end
