(* ===== verification/Session_Views.thy ===== *)
theory Session_Views
  imports Session_System Pairing
begin

text \<open>
  Views of a whole session: what its owner holds and what the store holds agree, and together they
  show a view. Every operation of a run and of the queue takes a paired view to a paired view.
\<close>

subsection \<open>Views across transaction boundaries\<close>

definition session_view :: "view \<Rightarrow> session \<Rightarrow> bool" where
  "session_view v s \<longleftrightarrow> coherent s \<and> shows_view v (as_tx s)"

lemma shows_view_cong:
  assumes "tx_lists t = tx_lists s" and "tx_record t = tx_record s"
  shows "shows_view v t = shows_view v s"
proof -
  have "consumable q c t = consumable q c s" for q c
    using assms unfolding consumable_def waiting_def holds_context_def active_list_def entries_placed_def by simp
  moreover have "stored_message t = stored_message s"
    using assms by (simp add: stored_message_def fun_eq_iff)
  moreover have "batch_shown v t = batch_shown v s"
    using assms by (cases "vw_state v") (simp_all add: batch_shown_def holds_batch_def)
  ultimately show ?thesis
    using assms by (simp add: shows_view_def shows_talk_def messages_of_def)
qed

lemma shows_view_begin [simp]: "shows_view v (begin_tx (se_record s) now s) = shows_view v (as_tx s)"
  by (rule shows_view_cong) simp_all

text \<open>An update commits what its transaction ended in; a sender's transaction leaves the record alone.\<close>

lemma session_view_update:
  assumes "session_view v s" and "update now m s = Inr (x, s')"
  obtains t where "m (begin_tx (se_record s) now s) = Inr (x, t)" "shows_view v (begin_tx (se_record s) now s)"
    "\<And>w. shows_view w t \<Longrightarrow> session_view w s'" "tx_record t = se_record s'" "tx_lists t = st_lists (se_store s')"
proof -
  from assms(2) obtain t where t: "m (begin_tx (se_record s) now s) = Inr (x, t)"
    "se_record s' = tx_record t" "st_lists (se_store s') = tx_lists t"
    unfolding update_Inr by auto
  have "shows_view w t = shows_view w (as_tx s')" for w by (rule shows_view_cong) (simp_all add: t)
  with t assms(1) coherent_update [OF assms(2)] that show thesis by (simp add: session_view_def)
qed

definition same_record :: "tx \<Rightarrow> tx \<Rightarrow> bool" where
  "same_record s t \<longleftrightarrow> tx_record t = tx_record s"

interpretation same_record: step_order same_record
  by unfold_locales (simp_all add: same_record_def)

lemma session_view_transact:
  assumes "session_view v s" and "transact now m s = Inr (x, s')"
    and "steps same_record m" and "steps evolves m"
  obtains t where "m (begin_tx (se_record s) now s) = Inr (x, t)" "shows_view v (begin_tx (se_record s) now s)"
    "\<And>w. shows_view w t \<Longrightarrow> session_view w s'"
proof -
  from assms(2) obtain r t where r: "st_objects (se_store s) (se_key s) = Some (sv_kind kind_record, StRecord r)"
    and t: "m (begin_tx r now s) = Inr (x, t)" "st_lists (se_store s') = tx_lists t" "se_record s' = se_record s"
    unfolding transact_Inr by auto
  from assms(1) r have r: "r = se_record s" by (simp add: session_view_def coherent_def)
  have "shows_view w t = shows_view w (as_tx s')" for w
    using stepsD [OF assms(3) t(1)] by (intro shows_view_cong) (simp_all add: t r same_record_def)
  moreover have "coherent s'"
    using assms(1) committed_coherent [OF _ committed_transact [OF assms(4,2)]] by (simp add: session_view_def)
  ultimately show thesis using that t(1) r assms(1) by (simp add: session_view_def)
qed

lemma begin_tx_store [simp]: "begin_tx r now s\<lparr>tx_store := se_store s\<rparr> = begin_tx r now s"
  by (simp add: begin_tx_def)

subsection \<open>The discipline of the driver\<close>

text \<open>
  What the executor keeps to: it ends a run or fails a call only when no tool batch is open, hands
  over a partial response only when its tools are paired, and compacts from a stable state.
\<close>

definition allowed :: "session \<Rightarrow> operation \<Rightarrow> bool" where
  "allowed s op \<longleftrightarrow> (case op of
     FinishRun _ \<Rightarrow> \<not> (\<exists>n b. sr_state (se_record s) = ExecutingTools n b)
   | FailModelCall _ _ \<Rightarrow> \<not> (\<exists>n b. sr_state (se_record s) = ExecutingTools n b)
   | AcceptInterruption partial _ \<Rightarrow> validate_tool_pairs (pr_messages partial) = Inr ()
   | PrepareStandby _ \<Rightarrow> False | ActivateStandby \<Rightarrow> False | AppendStandbySummary _ _ _ _ _ _ \<Rightarrow> False
   | CommitLocalCompaction _ _ _ _ _ _ \<Rightarrow> False | CommitUpstreamCompaction _ _ _ _ _ _ \<Rightarrow> False
   | CommitCompactionTranslation _ _ _ _ _ _ \<Rightarrow> False | SetConfig _ \<Rightarrow> False
   | DeferInstructionConfig _ _ _ _ _ \<Rightarrow> False | SetSystemInstructionConfig _ _ _ \<Rightarrow> False
   | ImportHistory _ \<Rightarrow> False | PruneHistory _ _ apply \<Rightarrow> \<not> apply
   | _ \<Rightarrow> True)"

inductive drives :: "session \<Rightarrow> session \<Rightarrow> bool" for s where
  drives_start: "drives s s"
| drives_more: "drives s t \<Longrightarrow> allowed t op \<Longrightarrow> step t op u \<Longrightarrow> drives s u"

text \<open>The invariant: the session shows a paired view, and compacts from a stable state only.\<close>

definition well_paired :: "session \<Rightarrow> bool" where
  "well_paired s \<longleftrightarrow> (\<exists>v. session_view v s \<and> good_view v)"

lemma well_paired_update:
  assumes "well_paired s" and "update now m s = Inr (x, s')"
    and "\<And>v t. shows_view v (begin_tx (se_record s) now s) \<Longrightarrow> good_view v \<Longrightarrow>
       m (begin_tx (se_record s) now s) = Inr (x, t) \<Longrightarrow> good_tx t"
  shows "well_paired s'"
  using assms unfolding well_paired_def good_tx_def by (meson session_view_update)

text \<open>What leaves the queue, the context, the entries, the state and the tool batch alone.\<close>

definition unseen :: "tx \<Rightarrow> tx \<Rightarrow> bool" where
  "unseen s t \<longleftrightarrow> quiet s t \<and> sr_state (tx_record t) = sr_state (tx_record s)
     \<and> (\<forall>l cells. tx_lists s l = Some (sv_kind kind_tool, cells) \<longrightarrow> tx_lists t l = Some (sv_kind kind_tool, cells))"

interpretation unseen: step_order unseen
proof unfold_locales
  fix s t u assume "unseen s t" "unseen t u"
  then show "unseen s u" unfolding unseen_def by (auto intro: quiet.trans)
qed (simp add: unseen_def quiet.refl)

lemma unseen_view: "unseen s t \<Longrightarrow> shows_view v s \<Longrightarrow> shows_view v t"
  unfolding unseen_def shows_view_def by (auto intro: shows_talk_quiet elim!: batch_shown_same)

lemma unseen_good: "unseen s t \<Longrightarrow> shows_view v s \<Longrightarrow> good_view v \<Longrightarrow> good_tx t"
  unfolding good_tx_def by (blast intro: unseen_view)

lemma unseen_only:
  assumes "only Ks s t" and "Ks \<subseteq> {sv_kind kind_event, sv_kind kind_history, sv_kind kind_call}"
  shows "unseen s t"
proof -
  have "sv_kind kind_tool \<notin> Ks" using assms(2) by auto
  moreover have "quiet s t" by (rule quiet_only [OF assms(1)]) (use assms(2) in auto)
  ultimately show ?thesis
    unfolding unseen_def using only_record [OF assms(1)] only_lists [OF assms(1)] by simp
qed

lemma unseen_recorded:
  "tx_lists t = tx_lists s \<Longrightarrow> sr_queue (tx_record t) = sr_queue (tx_record s) \<Longrightarrow>
   sr_queue_head (tx_record t) = sr_queue_head (tx_record s) \<Longrightarrow> sr_active (tx_record t) = sr_active (tx_record s) \<Longrightarrow>
   sr_generations (tx_record t) = sr_generations (tx_record s) \<Longrightarrow> sr_entries (tx_record t) = sr_entries (tx_record s) \<Longrightarrow>
   sr_state (tx_record t) = sr_state (tx_record s) \<Longrightarrow> unseen s t"
  by (auto simp: unseen_def quiet_def elim: consumable_cong)

lemma unseen_put_call:
  "tx_lists s l = Some (sv_kind kind_call, cells) \<Longrightarrow> unseen s (put_list l (sv_kind kind_call) cells' s)"
  by (rule unseen_only [of "{sv_kind kind_call}"]) (auto intro: only_put_list)

lemma unseen_steps [intro!, simp]:
  "steps unseen (record_event ev)" "steps unseen (recordS f)" "steps unseen (set_recorded_at at)"
  "steps unseen (set_record (\<lambda>r. r\<lparr>sr_active_model_call := c\<rparr>))" "steps unseen (set_record (\<lambda>r. r\<lparr>sr_metadata := m\<rparr>))"
  "steps unseen (stored (list_len K l))" "steps unseen (complete_model_call ob st)"
  by (auto intro!: stepsI simp: unseen.refl set_recorded_at_def complete_model_call_Inr
      dest!: stepsD [OF only_record_event] intro: unseen_only unseen_recorded unseen_put_call)

lemma unseen_start_model_call [intro!, simp]: "steps unseen (start_model_call p n)"
proof (rule stepsI)
  fix s u t
  assume a: "start_model_call p n s = Inr (u, t)"
  from start_model_call_Inr [OF this] obtain cells x where
      c: "tx_lists s (sr_model_calls (tx_record s)) = Some (sv_kind kind_call, cells)"
    and t: "t = (put_list (sr_model_calls (tx_record s)) (sv_kind kind_call) (cells @ [x]) s)
       \<lparr>tx_record := (tx_record s)\<lparr>sr_active_model_call := Some (length cells)\<rparr>\<rparr>" by blast
  have "unseen s (put_list (sr_model_calls (tx_record s)) (sv_kind kind_call) (cells @ [x]) s)"
    by (rule unseen_put_call [OF c])
  moreover have "unseen (put_list (sr_model_calls (tx_record s)) (sv_kind kind_call) (cells @ [x]) s) t"
    unfolding t by (rule unseen_recorded) simp_all
  ultimately show "unseen s t" by (rule unseen.trans)
qed

text \<open>Settling a call beside the operation that ends it.\<close>

lemma valid_good_unseen: "steps unseen m \<Longrightarrow> valid good_tx m (\<lambda>_. good_tx)"
  by (rule validI) (auto simp: good_tx_def dest: stepsD intro: unseen_view)

lemma shows_view_valid:
  "valid (stands v (vw_state v)) m (\<lambda>_ t. Q t) \<Longrightarrow> shows_view v s \<Longrightarrow> m s = Inr (x, t) \<Longrightarrow> Q t"
  by (auto dest: validD shows_viewD)

lemma good_end_model_call:
  assumes "well_paired s" and "end_model_call now ob st settle s = Inr (x, s')"
    and "\<And>v t u y. shows_view v t \<Longrightarrow> good_view v \<Longrightarrow> vw_state v = sr_state (se_record s) \<Longrightarrow>
       settle t = Inr (y, u) \<Longrightarrow> good_tx u"
  shows "well_paired s'"
proof (rule well_paired_update [OF assms(1) assms(2) [unfolded end_model_call_def]])
  fix v t
  assume v: "shows_view v (begin_tx (se_record s) now s)" "good_view v"
    and "thenS (complete_model_call ob st) (thenS settle
      (set_record (\<lambda>r. r\<lparr>sr_active_model_call := None\<rparr>))) (begin_tx (se_record s) now s) = Inr (x, t)"
  then obtain a b where a: "complete_model_call ob st (begin_tx (se_record s) now s) = Inr ((), a)"
    "settle a = Inr ((), b)" "set_record (\<lambda>r. r\<lparr>sr_active_model_call := None\<rparr>) b = Inr (x, t)"
    by (auto simp: thenS_Inr)
  have "shows_view v a" by (rule unseen_view [OF stepsD [OF unseen_steps(7) a(1)] v(1)])
  moreover have "vw_state v = sr_state (se_record s)" using v(1) by (simp add: shows_view_def)
  ultimately have "good_tx b" using assms(3) v(2) a(2) by blast
  from validD [OF valid_good_unseen [OF unseen_steps(4)] this a(3)] show "good_tx t" .
qed

subsection \<open>Every allowed operation keeps the pairs\<close>

lemma good_queue: "good_view v \<Longrightarrow> list_all (\<lambda>(_, m). is_input m) (vw_queue v)"
  by (simp add: good_view_def paired_def)

lemma good_context: "good_view v \<Longrightarrow> (\<And>n b. vw_state v \<noteq> ExecutingTools n b) \<Longrightarrow> pairs_ok (vw_context v)"
  by (cases "vw_state v") (auto simp: good_view_def paired_def)

lemma good_see_state:
  "shows_view (see_state st v) t \<Longrightarrow> good_view v \<Longrightarrow> (\<And>n b. vw_state v \<noteq> ExecutingTools n b) \<Longrightarrow>
     (\<And>n b. st \<noteq> ExecutingTools n b) \<Longrightarrow> (\<And>r. st = Compacting r \<Longrightarrow> is_stable r) \<Longrightarrow> good_tx t"
  by (rule good_txI [of "see_state st v"]) (auto intro: paired_see_state good_queue good_context)

lemma good_finish_run:
  assumes "shows_view v s" "good_view v" "\<And>n b. vw_state v \<noteq> ExecutingTools n b" "finish_run oc s = Inr (x, t)"
  shows "good_tx t"
  using shows_view_valid [OF stands_finish_run assms(1,4)] good_queue [OF assms(2)] good_context [OF assms(2,3)]
  by (rule paired_ended)

lemma good_accept_response:
  assumes "shows_view v s" "good_view v" "accept_response resp s = Inr (x, t)"
  shows "good_tx t"
  using shows_view_valid [OF view_accept_response assms(1,3)] assms(2)
  by (auto simp: good_view_def intro: paired_response)

lemma good_accept_interruption:
  assumes "shows_view v s" "good_view v" "accept_interruption p s = Inr (x, t)" "pairs_ok (pr_messages p)"
  shows "good_tx t"
  using shows_view_valid [OF view_accept_interruption assms(1,3)] assms(2,4)
  by (auto simp: good_view_def intro: paired_interruption)

lemma good_complete_tools:
  assumes "shows_view v s" "good_view v" "complete_tools s = Inr (x, t)"
  shows "good_tx t"
proof -
  from assms(1,3) obtain n b where st: "vw_state v = ExecutingTools n b"
    by (cases "vw_state v") (auto simp: complete_tools_def bindS_recordS shows_view_def)
  with assms(1) have "stands_batch v (ExecutingTools n b) b (vw_batch v) s"
    by (simp add: shows_view_def stands_batch_def stands_def batch_shown_def)
  from validD [OF stands_complete_tools this assms(3)] assms(2) st show ?thesis
    by (auto simp: good_view_def intro: paired_tools)
qed

lemma good_settle_interrupted:
  assumes "shows_view v s" "good_view v" "settle_interrupted s = Inr (x, t)"
  shows "good_tx t"
proof (rule paired_settled [OF _ _ _ assms(1)])
  from assms(2) show "paired v" and c: "\<And>r. vw_state v = Compacting r \<Longrightarrow> is_stable r" by (auto simp: good_view_def)
  from validD [OF view_settle_interrupted [OF c] assms(1,3)] show "settled_view v t" .
qed

lemma good_transition_to:
  assumes "shows_view v s" "good_view v" "transition_to st s = Inr (x, t)"
    and "\<And>n b. vw_state v \<noteq> ExecutingTools n b" "\<And>n b. st \<noteq> ExecutingTools n b" "\<And>r. st = Compacting r \<Longrightarrow> is_stable r"
  shows "good_tx t"
  by (rule good_see_state [OF shows_viewI [OF validD [OF stands_transition_to shows_viewD [OF assms(1)] assms(3)]]])
    (use assms in auto)

lemma good_start_turn:
  assumes "shows_view v s" "good_view v" "vw_state v = Ready n needs" "start_turn n needs s = Inr (act, t)"
  shows "good_tx t"
proof (cases act)
  case (CallModel rq)
  with view_start_turn [OF assms(1,4)] have "shows_view (see_state (CallingModel (n + 1)) (see_inputs v)) t" by simp
  moreover have "paired (see_state (CallingModel (n + 1)) (see_inputs v))"
    using assms(2,3) by (intro paired_start_turn(2)) (auto simp: good_view_def)
  ultimately show ?thesis by (rule good_txI) (simp add: see_state_def)
next
  case (ActionFinished oc)
  with view_start_turn [OF assms(1,4)] have "ended Completed v t" by simp
  then show ?thesis by (rule paired_ended) (use assms(2,3) good_queue good_context in auto)
qed (use view_start_turn [OF assms(1,4)] in simp)

lemma advance_suspended:
  assumes "sr_state (tx_record s) = Suspended n" "advance s = Inr (act, t)"
  shows "t = s \<and> (\<exists>oc. act = ActionFinished oc)"
proof -
  from assms obtain ev where "(case ev of Finished oc \<Rightarrow> returnS (ActionFinished oc)
      | _ \<Rightarrow> failS (Storage (Corrupt ''invalid run outcome reference''))) s = Inr (act, t)"
    by (auto simp: advance_def bindS_recordS bindS_Inr load_event_Inr)
  then show ?thesis by (cases ev) auto
qed

lemma good_advance:
  assumes "shows_view v s" "good_view v" "advance s = Inr (act, t)"
  shows "good_tx t"
proof (cases "vw_state v")
  case (Ready n needs)
  with assms(1,3) have "start_turn n needs s = Inr (act, t)" by (simp add: advance_def bindS_recordS shows_view_def)
  from good_start_turn [OF assms(1,2) Ready this] show ?thesis .
next
  case (Suspended n)
  with assms(1,3) have "t = s" using advance_suspended by (auto simp: shows_view_def)
  with assms show ?thesis by (auto simp: good_tx_def)
next
  case (ExecutingTools n b)
  with assms(1,3) have "t = s"
    by (auto simp: advance_def bindS_recordS shows_view_def bindS_Inr pending_calls_of_def read_from_Inr)
  with assms show ?thesis by (auto simp: good_tx_def)
qed (use assms in \<open>auto simp: advance_def bindS_recordS shows_view_def good_tx_def\<close>)

lemma good_batch:
  "good_view v \<Longrightarrow> vw_state v = ExecutingTools n b \<Longrightarrow> map te_call xs = map te_call (vw_batch v) \<Longrightarrow>
     good_view (see_batch n b xs v)"
proof -
  assume a: "map te_call xs = map te_call (vw_batch v)"
  have "map execution_id xs = map execution_id (vw_batch v)"
    using arg_cong [OF a, of "map tc_call_id"] by (simp add: comp_def execution_id_def [abs_def])
  moreover have "map execution_pair xs = map execution_pair (vw_batch v)"
    using arg_cong [OF a, of "map call_pair"] by (simp add: comp_def execution_pair_def [abs_def])
  ultimately show "good_view v \<Longrightarrow> vw_state v = ExecutingTools n b \<Longrightarrow> good_view (see_batch n b xs v)"
    by (simp add: good_view_def paired_def see_batch_def)
qed

lemma good_update_execution:
  assumes "shows_view v s" "good_view v" "update_execution call f s = Inr (x, t)" "\<And>x. te_call (f x) = te_call x"
  shows "good_tx t"
proof -
  from assms(1,3) obtain n b where st: "vw_state v = ExecutingTools n b"
    by (cases "vw_state v") (auto simp: update_execution_def bindS_recordS shows_view_def)
  with assms(1) have "stands_batch v (ExecutingTools n b) b (vw_batch v) s"
    by (simp add: shows_view_def stands_batch_def stands_def batch_shown_def)
  from validD [OF stands_update_execution this assms(3)] obtain p where p: "call_position call (vw_batch v) = Some p"
    "stands_batch v (ExecutingTools n b) b ((vw_batch v)[p := f (vw_batch v ! p)]) t" by blast
  let ?xs = "(vw_batch v)[p := f (vw_batch v ! p)]"
  have "p < length (vw_batch v)" using p(1) by (simp add: call_position_def position_length)
  then have "map te_call ?xs = map te_call (vw_batch v)"
    by (simp add: map_update assms(4) list_update_same_conv)
  then have "good_view (see_batch n b ?xs v)" by (rule good_batch [OF assms(2) st])
  moreover have "shows_view (see_batch n b ?xs v) t"
    using p(2) by (simp add: stands_batch_def stands_def shows_view_def batch_shown_def see_batch_def shows_talk_def)
  ultimately show ?thesis by (auto simp: good_tx_def)
qed

lemma good_tool_steps:
  assumes "shows_view v s" "good_view v"
  shows "mark_tool_started call s = Inr (x, t) \<Longrightarrow> good_tx t" "record_tool_outcome call oc s = Inr (x, t) \<Longrightarrow> good_tx t"
  unfolding mark_tool_started_def record_tool_outcome_def
  by (auto simp: thenS_Inr elim!: validD [OF valid_good_unseen [OF unseen_steps(1)], rotated]
      intro: good_update_execution [OF assms])

text \<open>The queue.\<close>

lemma only_list_pending_ids [intro!, simp]: "steps (only_list l) pending_ids"
  unfolding pending_ids_def by auto

lemma only_list_edits:
  "move_pending e b s = Inr (x, t) \<Longrightarrow> only_list (sr_queue (tx_record s)) s t"
  "cancel_pending e s = Inr (x, t) \<Longrightarrow> only_list (sr_queue (tx_record s)) s t"
  unfolding move_pending_def cancel_pending_def write_pending_def Let_def bindS_recordS
  by (erule stepsD [rotated]; auto)+

lemma good_requeue:
  assumes "shows_view v s" "good_view v" "only_list (sr_queue (tx_record s)) s t" "waiting ids t"
    and "set ids \<subseteq> set (map fst (vw_queue v))"
  shows "good_tx t"
proof -
  let ?q = "map (\<lambda>i. (i, the (map_of (vw_queue v) i))) ids"
  have sub: "set ?q \<subseteq> set (vw_queue v)"
  proof
    fix x assume "x \<in> set ?q"
    then obtain i where i: "x = (i, the (map_of (vw_queue v) i))" "i \<in> set ids" by auto
    with assms(5) obtain m where "map_of (vw_queue v) i = Some m"
      by (fastforce simp: map_of_eq_None_iff [symmetric] dest: weak_map_of_SomeI)
    with i show "x \<in> set (vw_queue v)" by (auto dest: map_of_SomeD)
  qed
  have "shows_view (see_queue ?q v) t"
    by (rule view_requeue [OF assms(1,3) _ sub]) (simp add: comp_def assms(4))
  moreover have "good_view (see_queue ?q v)"
    using assms(2) sub by (auto simp: good_view_def paired_def list_all_iff split: session_state.splits)
  ultimately show ?thesis by (auto simp: good_tx_def)
qed

lemma shows_view_waiting: "shows_view v s \<Longrightarrow> waiting (map fst (vw_queue v)) s"
  by (auto simp: shows_view_def shows_talk_def consumable_def)

lemma good_move_pending:
  assumes "shows_view v s" "good_view v" "move_pending e b s = Inr (x, t)"
  shows "good_tx t"
proof -
  let ?q = "map fst (vw_queue v)"
  from validD [OF waiting_move_pending shows_view_waiting [OF assms(1)] assms(3)]
  have e: "e \<in> set ?q" and w: "waiting (if b = Some e then ?q else move_in ?q (the (position (\<lambda>x. x = e) ?q)) e b) t"
    by blast+
  from e obtain i where i: "position (\<lambda>x. x = e) ?q = Some i" using position_mem [of e ?q "\<lambda>x. x = e"] by auto
  show ?thesis
    by (rule good_requeue [OF assms(1,2) only_list_edits(1) [OF assms(3)] w])
      (use mset_eq_setD [OF mset_move_in [OF i, of b]] i in auto)
qed

lemma good_cancel_pending:
  assumes "shows_view v s" "good_view v" "cancel_pending e s = Inr (x, t)"
  shows "good_tx t"
  by (rule good_requeue [OF assms(1,2) only_list_edits(2) [OF assms(3)],
        of "remove1 e (map fst (vw_queue v))"])
    (use validD [OF waiting_cancel_pending shows_view_waiting [OF assms(1)] assms(3)]
        set_remove1_subset [of e "map fst (vw_queue v)"] in auto)

lemma good_append_input:
  assumes "shows_view v s" "good_view v" "append_input m s = Inr (e, t)" "is_input m"
  shows "good_tx t"
proof -
  have "good_view (see_queue (vw_queue v @ [(e, m)]) v)"
    using assms(2,4) by (auto simp: good_view_def paired_def split: session_state.splits)
  with view_append_input(1) [OF assms(1,3)] show ?thesis by (auto simp: good_tx_def)
qed

lemma well_paired_transact:
  assumes "well_paired s" and "transact now m s = Inr (x, s')"
    and "steps same_record m" and "steps evolves m"
    and "\<And>v t. shows_view v (begin_tx (se_record s) now s) \<Longrightarrow> good_view v \<Longrightarrow>
       m (begin_tx (se_record s) now s) = Inr (x, t) \<Longrightarrow> good_tx t"
  shows "well_paired s'"
proof -
  from assms(1) obtain v where v: "session_view v s" "good_view v" by (auto simp: well_paired_def)
  from session_view_transact [OF v(1) assms(2,3,4)] obtain t where
    t: "m (begin_tx (se_record s) now s) = Inr (x, t)" "shows_view v (begin_tx (se_record s) now s)"
      "\<And>w. shows_view w t \<Longrightarrow> session_view w s'" by blast
  from assms(5) [OF t(2) v(2) t(1)] t(3) show ?thesis by (auto simp: good_tx_def well_paired_def)
qed

lemma same_record_steps [intro!, simp]:
  "steps same_record (record_event ev)" "steps same_record (append_input m)"
  "steps same_record (move_pending e b)" "steps same_record (cancel_pending e)"
proof -
  show r: "steps same_record (record_event ev)" for ev
    by (rule stepsI) (auto simp: same_record_def dest: record_event_record)
  have "store_entry m og s = Inr (e, t) \<Longrightarrow> tx_record t = tx_record s" for m og s e t
    by (auto dest!: stepsD [OF only_store_entry] only_record)
  then show "steps same_record (append_input m)"
    unfolding append_input_def
    by (auto intro!: stepsI simp: same_record_def bindS_Inr thenS_Inr dest!: record_event_record)
  show "steps same_record (move_pending e b)" "steps same_record (cancel_pending e)"
    by (auto intro!: stepsI simp: same_record_def only_list_def dest!: only_list_edits)
qed

lemma well_paired_unseen:
  "well_paired s \<Longrightarrow> update now m s = Inr (x, s') \<Longrightarrow> steps unseen m \<Longrightarrow> well_paired s'"
  by (erule (1) well_paired_update) (auto dest: stepsD intro: unseen_good)

lemma well_paired_input:
  assumes "well_paired s" "is_input m" "transact now (thenS n (append_input m)) s = Inr (x, s')"
    and "steps unseen n" "steps same_record n" "steps evolves n"
  shows "well_paired s'"
proof (rule well_paired_transact [OF assms(1,3)])
  show "steps same_record (thenS n (append_input m))" using assms(5) by (intro same_record.steps_thenS) simp_all
  show "steps evolves (thenS n (append_input m))" using assms(6) by (intro ev.steps_thenS) simp_all
  fix v t
  assume v: "shows_view v (begin_tx (se_record s) now s)" "good_view v"
    and "thenS n (append_input m) (begin_tx (se_record s) now s) = Inr (x, t)"
  then obtain y u where u: "n (begin_tx (se_record s) now s) = Inr (y, u)" "append_input m u = Inr (x, t)"
    by (auto simp: thenS_Inr)
  from unseen_view [OF stepsD [OF assms(4) u(1)] v(1)] v(2) u(2) assms(2) show "good_tx t"
    by (rule good_append_input)
qed

lemma well_paired_enqueue:
  assumes "well_paired s" "enqueue_message now m s = Inr (x, s')"
  shows "well_paired s'"
proof -
  have eq: "thenS (returnS ()) (append_input m) = append_input m" by (simp add: thenS_def)
  from assms(2) have "is_input m" "transact now (append_input m) s = Inr (x, s')"
    by (auto simp: enqueue_message_def split: if_splits)
  then show ?thesis
    using well_paired_input [OF assms(1), of m now "returnS ()"] by (simp add: eq)
qed

lemma completed_call_unseen:
  "steps unseen (bindS (new_model_call p st n at) (\<lambda>call. bindS (recordS sr_model_calls) (\<lambda>list.
     thenS (stored (append_item kind_call list (finish_call status ob call))) (returnS (g call)))))"
  by (auto intro!: stepsI simp: new_model_call_def bindS_Inr thenS_Inr intro: unseen_put_call [unfolded put_list_def])

text \<open>An operation that checks for a stable state first.\<close>

lemma well_paired_transition:
  assumes "well_paired s" and "is_stable (sr_state (se_record s))"
    and "update now (bindS (recordS sr_state) (\<lambda>st. transition_to (f st))) s = Inr (x, s')"
    and "\<And>st n b. f st \<noteq> ExecutingTools n b" "\<And>st r. is_stable st \<Longrightarrow> f st = Compacting r \<Longrightarrow> is_stable r"
  shows "well_paired s'"
proof (rule well_paired_update [OF assms(1,3)])
  fix v t
  assume v: "shows_view v (begin_tx (se_record s) now s)" "good_view v"
    and t: "bindS (recordS sr_state) (\<lambda>st. transition_to (f st)) (begin_tx (se_record s) now s) = Inr (x, t)"
  have st: "vw_state v = sr_state (se_record s)" using v(1) by (simp add: shows_view_def)
  show "good_tx t"
    by (rule good_transition_to [OF v, of "f (sr_state (se_record s))"])
      (use t st assms(2,4,5) in \<open>auto simp: bindS_recordS\<close>)
qed

lemma well_paired_end_compaction:
  assumes "well_paired s" and "end_compaction now s = Inr (x, s')"
  shows "well_paired s'"
proof (rule well_paired_update [OF assms(1) assms(2) [unfolded end_compaction_def]])
  fix v t
  let ?s = "begin_tx (se_record s) now s"
  assume v: "shows_view v ?s" "good_view v"
    and t: "bindS (recordS sr_state) (\<lambda>state. case state of
         Compacting resume' \<Rightarrow> thenS (set_record (\<lambda>r. r\<lparr>sr_active_model_call := None\<rparr>)) (transition_to resume')
       | _ \<Rightarrow> failS UnexpectedPhase) ?s = Inr (x, t)"
  have st: "vw_state v = sr_state (se_record s)" using v(1) by (simp add: shows_view_def)
  with t obtain r u where r: "vw_state v = Compacting r" "set_record (\<lambda>r. r\<lparr>sr_active_model_call := None\<rparr>) ?s = Inr ((), u)"
      "transition_to r u = Inr (x, t)"
    by (cases "sr_state (se_record s)") (auto simp: bindS_recordS thenS_Inr)
  have "shows_view v u" by (rule unseen_view [OF stepsD [OF unseen_steps(4) r(2)] v(1)])
  moreover have "is_stable r" using v(2) r(1) by (simp add: good_view_def)
  ultimately show "good_tx t" using good_transition_to [OF _ v(2) r(3)] r(1) by (cases r) auto
qed

lemma well_paired_collect_inputs:
  assumes "well_paired s" and "collect_inputs now s = Inr (x, s')"
  shows "well_paired s'"
proof -
  let ?m = "bindS (recordS (\<lambda>r. r)) (\<lambda>r. bindS (stored (list_len kind_entry_id (sr_queue r)))
    (\<lambda>n. if sr_queue_head r < n then transition_to (Ready 0 True) else returnS ()))"
  have "s' = s \<or> sr_state (se_record s) = Idle \<and> update now ?m s = Inr (x, s')"
    using assms(2) by (auto simp: collect_inputs_def st_Inr dest!: has_queued_input_Inr split: if_splits)
  then show ?thesis
  proof
    assume a: "sr_state (se_record s) = Idle \<and> update now ?m s = Inr (x, s')"
    show ?thesis
    proof (rule well_paired_update [OF assms(1) conjunct2 [OF a]])
      fix v t
      let ?s = "begin_tx (se_record s) now s"
      assume v: "shows_view v ?s" "good_view v" and "?m ?s = Inr (x, t)"
      then have "t = ?s \<or> transition_to (Ready 0 True) ?s = Inr (x, t)"
        by (auto simp: bindS_recordS bindS_Inr split: if_splits)
      moreover have "vw_state v = Idle" using v(1) a by (simp add: shows_view_def)
      ultimately show "good_tx t" using v good_transition_to [OF v, of "Ready 0 True"] by (auto simp: good_tx_def)
    qed
  qed (use assms in simp)
qed

lemma well_paired_settle:
  "well_paired s \<Longrightarrow> session_settle_interrupted now s = Inr (x, s') \<Longrightarrow> well_paired s'"
  by (auto simp: session_settle_interrupted_def split: if_splits
      intro: well_paired_update good_settle_interrupted)

lemma well_paired_record_events:
  assumes "well_paired s" "record_events now es s = Inr (x, s')"
  shows "well_paired s'"
proof (cases "es = []")
  case False
  with assms(2) show ?thesis
    unfolding record_events_def by (auto intro!: well_paired_unseen [OF assms(1)])
qed (use assms in \<open>auto simp: record_events_def\<close>)

lemma session_state_view: "shows_view v (begin_tx (se_record s) now s) \<Longrightarrow> vw_state v = sr_state (se_record s)"
  by (simp add: shows_view_def)

lemma step_well_paired:
  assumes "well_paired s" and "allowed s op" and "perform now op s = Inr ((), s')"
  shows "well_paired s'"
proof (cases op)
  case Advance
  with assms(3) show ?thesis
    by (auto simp: discard_def session_advance_def thenS_Inr intro!: well_paired_update [OF assms(1)] intro: good_advance)
next
  case (AcceptResponse r ob)
  with assms(3) have "end_model_call now ob CallCompleted (accept_response r) s = Inr ((), s')"
    by (simp add: session_accept_response_def)
  from good_end_model_call [OF assms(1) this] show ?thesis by (blast intro: good_accept_response)
next
  case (AcceptInterruption p ob)
  with assms(3) have "end_model_call now ob CallInterrupted (accept_interruption p) s = Inr ((), s')"
    by (simp add: session_accept_interruption_def)
  moreover from AcceptInterruption assms(2) have "pairs_ok (pr_messages p)"
    by (simp add: allowed_def validate_tool_pairs_iff)
  ultimately show ?thesis using good_end_model_call [OF assms(1)] good_accept_interruption by blast
next
  case (FailModelCall oc ob)
  with assms(3) have "end_model_call now ob CallFailed (finish_run oc) s = Inr ((), s')"
    by (simp add: fail_model_call_def)
  then show ?thesis
  proof (rule good_end_model_call [OF assms(1)])
    fix v t u y
    assume v: "shows_view v t" "good_view v" "vw_state v = sr_state (se_record s)" "finish_run oc t = Inr (y, u)"
    show "good_tx u" by (rule good_finish_run [OF v(1,2) _ v(4)]) (use v(3) FailModelCall assms(2) in \<open>simp add: allowed_def\<close>)
  qed
next
  case (FinishRun oc)
  with assms(3) have "update now (finish_run oc) s = Inr ((), s')" by (simp add: session_finish_run_def)
  then show ?thesis
  proof (rule well_paired_update [OF assms(1)])
    fix v t
    assume v: "shows_view v (begin_tx (se_record s) now s)" "good_view v"
      "finish_run oc (begin_tx (se_record s) now s) = Inr ((), t)"
    show "good_tx t"
      by (rule good_finish_run [OF v(1,2) _ v(3)])
        (use session_state_view [OF v(1)] FinishRun assms(2) in \<open>simp add: allowed_def\<close>)
  qed
next
  case SettleInterrupted
  with assms show ?thesis by (auto intro: well_paired_settle)
next
  case Resume
  with assms(3) have "is_stable (sr_state (se_record s))" "update now (transition_to (Ready 0 True)) s = Inr ((), s')"
    by (auto simp: resume_def thenS_Inr)
  moreover have "bindS (recordS sr_state) (\<lambda>_. transition_to (Ready 0 True)) = transition_to (Ready 0 True)"
    by (rule ext) (simp add: bindS_recordS)
  ultimately show ?thesis using well_paired_transition [OF assms(1), where f = "\<lambda>_. Ready 0 True"] by auto
next
  case BeginCompaction
  with assms(3) show ?thesis
    by (auto simp: begin_compaction_def thenS_Inr intro: well_paired_transition [OF assms(1), where f = Compacting])
next
  case EndCompaction
  with assms show ?thesis by (auto intro: well_paired_end_compaction)
next
  case CollectInputs
  with assms show ?thesis by (auto intro: well_paired_collect_inputs)
next
  case (RecordCompletedCompactionCall ob n)
  with assms(3) show ?thesis
    by (auto simp: discard_def record_completed_compaction_call_def thenS_Inr Let_def
        intro!: well_paired_unseen [OF assms(1)] completed_call_unseen)
next
  case (RecordEvents es)
  with assms show ?thesis by (auto intro: well_paired_record_events)
next
  case (EnqueueMessage m)
  with assms show ?thesis by (auto simp: discard_def thenS_Inr intro: well_paired_enqueue)
next
  case (EnqueueInstructionUpdate a b c)
  with assms show ?thesis
    by (auto simp: discard_def thenS_Inr enqueue_instruction_update_def intro: well_paired_enqueue)
next
  case (RecordApplicationEvent v)
  with assms(3) show ?thesis
    by (auto simp: discard_def thenS_Inr record_application_event_def intro!: well_paired_transact [OF assms(1)]
        intro: unseen_good stepsD [OF unseen_steps(1)])
next
  case (RecordApplicationInput v m)
  with assms(3) show ?thesis
    by (auto simp: discard_def thenS_Inr record_application_input_def split: if_splits
        intro!: well_paired_input [OF assms(1)])
next
  case (MoveQueuedInput e b)
  with assms(3) show ?thesis
    by (auto simp: move_queued_input_def intro!: well_paired_transact [OF assms(1)] intro: good_move_pending)
next
  case (CancelQueuedInput e)
  with assms(3) show ?thesis
    by (auto simp: cancel_queued_input_def intro!: well_paired_transact [OF assms(1)] intro: good_cancel_pending)
next
  case (PruneHistory env b ap)
  with assms show ?thesis
    by (auto simp: allowed_def discard_def thenS_Inr prune_history_def split: if_splits dest!: read_Inr)
qed (use assms(2,3) in \<open>auto simp: allowed_def start_tool_def accept_tool_outcome_def session_complete_tools_def
    session_start_model_call_def complete_compaction_call_def update_metadata_def
    intro: well_paired_update [OF assms(1)] well_paired_unseen [OF assms(1)] good_tool_steps good_complete_tools\<close>)

lemma drives_well_paired: "drives s t \<Longrightarrow> well_paired s \<Longrightarrow> well_paired t"
  by (induction rule: drives.induct) (auto elim!: stepE intro: step_well_paired)

text \<open>The request an \<open>advance\<close> hands out is the conversation followed by what waited.\<close>

lemma advance_request:
  assumes "session_view v s" and "session_advance now s = Inr (CallModel rq, s')"
  shows "rq_conversation rq = vw_context v @ map snd (vw_queue v)"
    and "\<exists>n. session_view (see_state (CallingModel n) (see_inputs v)) s'"
proof -
  from session_view_update [OF assms(1) assms(2) [unfolded session_advance_def]] obtain t where
    t: "advance (begin_tx (se_record s) now s) = Inr (CallModel rq, t)"
      "shows_view v (begin_tx (se_record s) now s)" "\<And>w. shows_view w t \<Longrightarrow> session_view w s'" by blast
  obtain n needs where "start_turn n needs (begin_tx (se_record s) now s) = Inr (CallModel rq, t)"
  proof (cases "sr_state (se_record s)")
    case (Suspended n)
    with advance_suspended [OF _ t(1)] show thesis by simp
  qed (use t(1) that in \<open>auto simp: advance_def bindS_recordS bindS_Inr\<close>)
  from view_start_turn [OF t(2) this] t(3) show "rq_conversation rq = vw_context v @ map snd (vw_queue v)"
    "\<exists>n. session_view (see_state (CallingModel n) (see_inputs v)) s'"
    by (auto simp: config_build_request_def)
qed

end
