(* ===== verification/Session_Contracts.thy ===== *)
theory Session_Contracts
  imports Session_Views
begin

text \<open>
  What each operation of a session promises to its owner, as a contract on views: the session shows
  one view before the call and another one after it. A contract on transactions carries over to the
  session that commits the transaction.
\<close>

subsection \<open>From transactions to sessions\<close>

text \<open>What is left of a transaction once it is committed, and once the model call it served is closed.\<close>

definition alike :: "tx \<Rightarrow> tx \<Rightarrow> bool" where
  "alike s t \<longleftrightarrow> tx_lists t = tx_lists s
     \<and> (tx_record t = tx_record s \<or> tx_record t = (tx_record s)\<lparr>sr_active_model_call := None\<rparr>)"

definition visible :: "(tx \<Rightarrow> bool) \<Rightarrow> bool" where
  "visible Q \<longleftrightarrow> (\<forall>s t. alike s t \<longrightarrow> Q s \<longrightarrow> Q t)"

named_theorems visible_rules \<open>what holds of a transaction holds of the session that commits it\<close>

lemma visibleD: "visible Q \<Longrightarrow> alike s t \<Longrightarrow> Q s \<Longrightarrow> Q t"
  by (simp add: visible_def)

lemma visible_logic [visible_rules]:
  "visible (\<lambda>_. c)" "visible P \<Longrightarrow> visible Q \<Longrightarrow> visible (\<lambda>t. P t \<and> Q t)"
  "(\<And>x. visible (R x)) \<Longrightarrow> visible (\<lambda>t. \<exists>x. R x t)"
  unfolding visible_def by blast+

lemma visible_if [visible_rules]:
  "(c \<Longrightarrow> visible P) \<Longrightarrow> (\<not> c \<Longrightarrow> visible Q) \<Longrightarrow> visible (\<lambda>t. if c then P t else Q t)"
  by (cases c) simp_all

lemma alike_unseen: "alike s t \<Longrightarrow> unseen s t"
  unfolding alike_def by (rule unseen_recorded) auto

lemma visible_shows_view [visible_rules]: "visible (shows_view v)"
  unfolding visible_def by (blast intro: unseen_view alike_unseen)

lemma visible_ended [visible_rules]: "visible (ended oc v)"
proof -
  have "reports oc t" if "alike s t" "reports oc s" for s t
    using that by (auto simp: alike_def reports_def split: session_state.splits)
  moreover have "sr_active_model_call (tx_record t) = None"
    if "alike s t" "sr_active_model_call (tx_record s) = None" for s t
    using that by (auto simp: alike_def)
  ultimately show ?thesis
    unfolding visible_def ended_def using visible_shows_view [unfolded visible_def] by blast
qed

lemma visible_outcomes [visible_rules]:
  "visible (response_view n resp v)" "visible (tools_view n xs v)" "visible (settled_view v)"
proof -
  show "visible (response_view n resp v)" unfolding response_view_def by (intro visible_rules)
  show "visible (tools_view n xs v)" unfolding tools_view_def Let_def by (intro visible_rules)
  show "visible (settled_view v)"
    unfolding settled_view_def [abs_def] Let_def
    by (cases "vw_state v") (simp_all add: visible_rules)
qed

lemma session_update:
  assumes "valid (shows_view v) m Q" and "\<And>x. visible (Q x)"
  shows "valid (session_view v) (update now m) (\<lambda>x s'. coherent s' \<and> Q x (as_tx s'))"
proof (rule validI)
  fix s x s'
  assume v: "session_view v s" and u: "update now m s = Inr (x, s')"
  then show "coherent s' \<and> Q x (as_tx s')"
  proof (rule session_view_update)
    fix t
    assume t: "m (begin_tx (se_record s) now s) = Inr (x, t)" "shows_view v (begin_tx (se_record s) now s)"
      "tx_record t = se_record s'" "tx_lists t = st_lists (se_store s')"
    have "Q x t" by (rule validD [OF assms(1) t(2,1)])
    moreover have "alike t (as_tx s')" using t by (simp add: alike_def)
    ultimately show ?thesis using visibleD [OF assms(2)] coherent_update [OF u] by blast
  qed
qed

lemma session_end_call:
  assumes "valid (shows_view v) settle (\<lambda>_. Q)" and "visible Q"
  shows "valid (session_view v) (end_model_call now ob st settle) (\<lambda>_ s'. coherent s' \<and> Q (as_tx s'))"
  unfolding end_model_call_def
proof (rule session_update [OF valid_thenS [OF _ valid_thenS [OF assms(1)]] assms(2)])
  show "valid (shows_view v) (complete_model_call ob st) (\<lambda>_. shows_view v)"
    by (rule validI) (rule unseen_view [OF stepsD [OF unseen_steps(7)]])
  show "valid Q (set_record (\<lambda>r. r\<lparr>sr_active_model_call := None\<rparr>)) (\<lambda>_. Q)"
  proof (rule validI)
    fix s x t
    assume "Q s" and t: "set_record (\<lambda>r. r\<lparr>sr_active_model_call := None\<rparr>) s = Inr (x, t)"
    have "alike s t" using t unfolding alike_def set_record_Inr by simp
    then show "Q t" using \<open>Q s\<close> by (rule visibleD [OF assms(2)])
  qed
qed

lemma stands_view: "valid (stands v (vw_state v)) m Q \<Longrightarrow> valid (shows_view v) m Q"
  by (rule validI) (blast dest: validD shows_viewD)

lemma session_view_coherent: "coherent s \<and> shows_view v (as_tx s) \<longleftrightarrow> session_view v s"
  by (simp add: session_view_def)

subsection \<open>The run\<close>

text \<open>What an action says about the view it was taken in and the view it leads to.\<close>

definition action_view :: "view \<Rightarrow> session_action \<Rightarrow> tx \<Rightarrow> bool" where
  "action_view v act t \<longleftrightarrow> (case act of
     CallModel rq \<Rightarrow> \<exists>n needs. vw_state v = Ready n needs \<and> (needs \<or> vw_queue v \<noteq> [])
       \<and> rq_conversation rq = vw_context v @ map snd (vw_queue v)
       \<and> shows_view (see_state (CallingModel (n + 1)) (see_inputs v)) t
   | ExecuteTools calls \<Rightarrow> (\<exists>n b. vw_state v = ExecutingTools n b)
       \<and> calls = map te_call (filter (\<lambda>x. te_outcome x = None) (vw_batch v)) \<and> shows_view v t
   | ActionFinished oc \<Rightarrow> (case vw_state v of
       Ready n needs \<Rightarrow> oc = Completed \<and> \<not> needs \<and> vw_queue v = [] \<and> ended Completed v t
     | st \<Rightarrow> is_stable st \<and> shows_view v t \<and> reports oc t))"

lemma start_turn_nothing:
  assumes "shows_view v s" "vw_queue v = []" "start_turn n False s = Inr (act, t)"
  shows "act = ActionFinished Completed"
proof -
  from assms(1,2) obtain cells where
    "tx_lists s (sr_queue (tx_record s)) = Some (sv_kind kind_entry_id, cells)"
    "sr_queue_head (tx_record s) = length cells"
    by (fastforce simp: waiting_def dest!: shows_view_waiting)
  with assms(3) show ?thesis
    by (auto simp: start_turn_def bindS_recordS bindS_Inr list_len_Inr stored_Inr thenS_Inr)
qed

lemma advance_ready:
  assumes "shows_view v s" "vw_state v = Ready n needs" "advance s = Inr (act, t)"
  shows "action_view v act t"
proof -
  from assms have st: "start_turn n needs s = Inr (act, t)" by (simp add: advance_def bindS_recordS shows_view_def)
  show ?thesis
  proof (cases act)
    case (CallModel rq)
    with start_turn_nothing [OF assms(1), of n act t] st have "needs \<or> vw_queue v \<noteq> []" by (cases needs) auto
    with view_start_turn [OF assms(1) st] CallModel assms(2) show ?thesis
      by (simp add: action_view_def config_build_request_def)
  qed (use view_start_turn [OF assms(1) st] assms(2) in \<open>simp_all add: action_view_def\<close>)
qed

lemma advance_stopped:
  assumes "shows_view v s" "vw_state v = Suspended n" "advance s = Inr (act, t)"
  shows "action_view v act t"
proof -
  have st: "sr_state (tx_record s) = Suspended n" using assms(1,2) by (simp add: shows_view_def)
  then obtain ev where ev: "load_event n s = Inr (ev, s)" "(case ev of Finished oc \<Rightarrow> returnS (ActionFinished oc)
      | _ \<Rightarrow> failS (Storage (Corrupt ''invalid run outcome reference''))) s = Inr (act, t)"
    using assms(3) by (auto simp: advance_def bindS_recordS bindS_Inr load_event_Inr)
  then obtain oc where "ev = Finished oc" "act = ActionFinished oc" "t = s" by (cases ev) auto
  with ev(1) st assms(1,2) show ?thesis
    by (auto simp: action_view_def reports_def load_event_Inr)
qed

lemma view_advance: "valid (shows_view v) advance (action_view v)"
proof (rule validI)
  fix s act t
  assume v: "shows_view v s" and a: "advance s = Inr (act, t)"
  show "action_view v act t"
  proof (cases "vw_state v")
    case (ExecutingTools n b)
    with v have "holds_batch b (vw_batch v) s" by (simp add: shows_view_def batch_shown_def)
    from read_batch [OF this] ExecutingTools v a show ?thesis
      by (auto simp: action_view_def advance_def bindS_recordS shows_view_def pending_calls_of_def bindS_Inr)
  qed (use v a advance_ready advance_stopped in
      \<open>auto simp: action_view_def advance_def bindS_recordS shows_view_def reports_def\<close>)
qed

lemma visible_action [visible_rules]: "visible (action_view v act)"
proof -
  have r: "visible (reports oc)" for oc
    unfolding visible_def alike_def reports_def by (auto split: session_state.splits)
  show ?thesis
    unfolding action_view_def [abs_def]
    by (cases act; cases "vw_state v") (simp_all add: visible_rules r)
qed

text \<open>A compaction was begun from a stable state.\<close>

definition resumes_stable :: "view \<Rightarrow> bool" where
  "resumes_stable v \<longleftrightarrow> (\<forall>r. vw_state v = Compacting r \<longrightarrow> is_stable r)"

lemma session_settle_view:
  "valid (\<lambda>s. session_view v s \<and> resumes_stable v)
     (session_settle_interrupted now) (\<lambda>_ s'. coherent s' \<and> settled_view v (as_tx s'))"
proof (rule validI)
  fix s x s'
  assume "session_view v s \<and> resumes_stable v"
  then have v: "session_view v s" "\<And>r. vw_state v = Compacting r \<Longrightarrow> is_stable r" by (auto simp: resumes_stable_def)
  assume s': "session_settle_interrupted now s = Inr (x, s')"
  have st: "vw_state v = sr_state (se_record s)" using v by (simp add: session_view_def shows_view_def)
  show "coherent s' \<and> settled_view v (as_tx s')"
  proof (cases "is_stable (vw_state v)")
    case True
    with s' st have "s' = s" by (simp add: session_settle_interrupted_def)
    with v True show ?thesis by (cases "vw_state v") (simp_all add: session_view_def settled_view_def)
  next
    case False
    with s' st have "update now settle_interrupted s = Inr (x, s')" by (simp add: session_settle_interrupted_def)
    moreover have "valid (shows_view v) settle_interrupted (\<lambda>_. settled_view v)"
      by (rule view_settle_interrupted) (rule v(2))
    ultimately show ?thesis using v(1) by (blast dest: validD [OF session_update] intro: visible_rules)
  qed
qed

text \<open>A batch of tools that is being executed.\<close>

lemma view_tools:
  "valid (shows_view v) complete_tools
     (\<lambda>_ t. \<exists>n b. vw_state v = ExecutingTools n b \<and> batch_settled (vw_batch v) \<and> tools_view n (vw_batch v) v t)"
proof (rule validI)
  fix s x t
  assume v: "shows_view v s" and t: "complete_tools s = Inr (x, t)"
  then obtain n b where st: "vw_state v = ExecutingTools n b"
    by (cases "vw_state v") (auto simp: complete_tools_def bindS_recordS shows_view_def)
  with v have "stands_batch v (ExecutingTools n b) b (vw_batch v) s"
    by (simp add: shows_view_def stands_batch_def stands_def batch_shown_def)
  from validD [OF stands_complete_tools this t] st
  show "\<exists>n b. vw_state v = ExecutingTools n b \<and> batch_settled (vw_batch v) \<and> tools_view n (vw_batch v) v t" by blast
qed

lemma view_update_execution:
  "valid (shows_view v) (update_execution call f) (\<lambda>_ t. \<exists>n b p. vw_state v = ExecutingTools n b
      \<and> call_position call (vw_batch v) = Some p
      \<and> shows_view (see_batch n b ((vw_batch v)[p := f (vw_batch v ! p)]) v) t)"
proof (rule validI)
  fix s x t
  assume v: "shows_view v s" and t: "update_execution call f s = Inr (x, t)"
  then obtain n b where st: "vw_state v = ExecutingTools n b"
    by (cases "vw_state v") (auto simp: update_execution_def bindS_recordS shows_view_def)
  with v have "stands_batch v (ExecutingTools n b) b (vw_batch v) s"
    by (simp add: shows_view_def stands_batch_def stands_def batch_shown_def)
  from validD [OF stands_update_execution this t] obtain p where "call_position call (vw_batch v) = Some p"
    "stands_batch v (ExecutingTools n b) b ((vw_batch v)[p := f (vw_batch v ! p)]) t" by blast
  with st show "\<exists>n b p. vw_state v = ExecutingTools n b \<and> call_position call (vw_batch v) = Some p
      \<and> shows_view (see_batch n b ((vw_batch v)[p := f (vw_batch v ! p)]) v) t"
    by (auto simp: stands_batch_def stands_def shows_view_def batch_shown_def see_batch_def shows_talk_def)
qed

subsection \<open>The queue\<close>

definition holds_queue :: "entry_id list \<Rightarrow> session \<Rightarrow> bool" where
  "holds_queue q s \<longleftrightarrow> coherent s \<and> waiting q (as_tx s)"

lemma visible_waiting [visible_rules]: "visible (waiting q)"
  unfolding visible_def alike_def waiting_def by auto

lemma queue_transact:
  assumes "valid (waiting q) m Q" and "\<And>x. visible (Q x)" and "steps same_record m" and "steps evolves m"
  shows "valid (holds_queue q) (transact now m) (\<lambda>x s'. coherent s' \<and> Q x (as_tx s'))"
proof (rule validI)
  fix s x s'
  assume q: "holds_queue q s" and t: "transact now m s = Inr (x, s')"
  then obtain r u where r: "st_objects (se_store s) (se_key s) = Some (sv_kind kind_record, StRecord r)"
    and u: "m (begin_tx r now s) = Inr (x, u)" "st_lists (se_store s') = tx_lists u" "se_record s' = se_record s"
    unfolding transact_Inr by auto
  from q r have r: "r = se_record s" by (simp add: holds_queue_def coherent_def)
  have "waiting q (begin_tx r now s)" using q r by (simp add: holds_queue_def waiting_def)
  then have "Q x u" using u(1) by (rule validD [OF assms(1)])
  moreover have "alike u (as_tx s')"
    using stepsD [OF assms(3) u(1)] u r by (simp add: alike_def same_record_def)
  moreover have "coherent s'"
    using q committed_coherent [OF _ committed_transact [OF assms(4) t]] by (simp add: holds_queue_def)
  ultimately show "coherent s' \<and> Q x (as_tx s')" using visibleD [OF assms(2)] by blast
qed

text \<open>The queue after a move: the input stands right before its target, or last.\<close>

definition moved :: "entry_id list \<Rightarrow> entry_id \<Rightarrow> entry_id option \<Rightarrow> entry_id list \<Rightarrow> bool" where
  "moved q e b q' \<longleftrightarrow> e \<in> set q \<and> mset q' = mset q \<and> (distinct q \<longrightarrow> remove1 e q' = remove1 e q \<and>
     (case b of None \<Rightarrow> q' = remove1 e q @ [e]
      | Some t \<Rightarrow> t \<in> set q \<and> (if t = e then q' = q else \<exists>xs ys. q' = xs @ e # t # ys)))"

lemma move_target: "waiting q s \<Longrightarrow> move_pending e (Some t) s = Inr (x, u) \<Longrightarrow> t \<in> set q"
  by (auto simp: move_pending_def bindS_recordS bindS_def [of pending_ids] pending_ids_waiting bindS_Inr
      split: if_splits)

lemma move_in_moved:
  assumes "e \<in> set q" and "\<And>t. b = Some t \<Longrightarrow> t \<in> set q"
  shows "moved q e b (if b = Some e then q else move_in q (the (position (\<lambda>x. x = e) q)) e b)"
proof -
  from assms(1) obtain i where i: "position (\<lambda>x. x = e) q = Some i" using position_mem [of e q "\<lambda>x. x = e"] by auto
  show ?thesis
  proof (cases b)
    case None
    with i show ?thesis using move_in_order(1) [OF i] move_in_order(2) [OF i] assms(1) by (auto simp: moved_def mset_move_in remove1_append)
  next
    case (Some t)
    with i show ?thesis using move_in_order(1) [OF i] move_in_order(3) [OF i] assms by (auto simp: moved_def mset_move_in)
  qed
qed

lemma waiting_moved: "valid (waiting q) (move_pending e b) (\<lambda>_ t. \<exists>q'. waiting q' t \<and> moved q e b q')"
proof (rule validI)
  fix s x t
  assume q: "waiting q s" and t: "move_pending e b s = Inr (x, t)"
  from validD [OF waiting_move_pending this] move_target [OF q] t
  show "\<exists>q'. waiting q' t \<and> moved q e b q'" by (blast intro: move_in_moved)
qed

lemma queue_move:
  "valid (holds_queue q) (move_queued_input now e b) (\<lambda>_ s'. \<exists>q'. holds_queue q' s' \<and> moved q e b q')"
  unfolding move_queued_input_def
  by (rule valid_weaken [OF queue_transact [OF waiting_moved]])
    (auto simp: holds_queue_def intro!: visible_rules)

lemma queue_cancel:
  "valid (holds_queue q) (cancel_queued_input now e) (\<lambda>_ s'. e \<in> set q \<and> holds_queue (remove1 e q) s')"
  unfolding cancel_queued_input_def
  by (rule valid_weaken [OF queue_transact [OF waiting_cancel_pending]])
    (auto simp: holds_queue_def intro!: visible_rules)

lemma queue_enqueue:
  "valid (holds_queue q) (enqueue_message now m) (\<lambda>e s'. is_input m \<and> holds_queue (q @ [e]) s')"
proof (cases "is_input m")
  case True
  have "valid (holds_queue q) (transact now (append_input m)) (\<lambda>e s'. coherent s' \<and> waiting (q @ [e]) (as_tx s'))"
    by (rule queue_transact [OF waiting_append_input]) (auto intro!: visible_rules)
  with True show ?thesis by (simp add: enqueue_message_def holds_queue_def)
qed (simp add: enqueue_message_def valid_failS)

interpretation sq: pending_queue holds_queue enqueue_message move_queued_input cancel_queued_input
proof unfold_locales
  show "valid (holds_queue q) (enqueue_message now m) (\<lambda>e. holds_queue (q @ [e]))" for q now m
    by (rule valid_weaken [OF queue_enqueue [of q]]) blast+
  show "valid (holds_queue q) (cancel_queued_input now e) (\<lambda>_ t. e \<in> set q \<and> holds_queue (remove1 e q) t)" for q now e
    by (rule queue_cancel)
  show "valid (holds_queue q) (move_queued_input now e b) (\<lambda>_ t. \<exists>q'. holds_queue q' t \<and> mset q' = mset q)" for q now e b
    by (rule valid_weaken [OF queue_move [of q]]) (auto simp: moved_def)
qed

subsection \<open>Executions of a batch\<close>

lemma session_update_execution:
  "valid (session_view v) (update now (thenS (update_execution call f) (thenS (record_event ev) (returnS ()))))
     (\<lambda>_ s'. \<exists>n b p. vw_state v = ExecutingTools n b \<and> call_position call (vw_batch v) = Some p
        \<and> session_view (see_batch n b ((vw_batch v)[p := f (vw_batch v ! p)]) v) s')"
proof -
  have r: "valid (shows_view w) (record_event ev) (\<lambda>_. shows_view w)" for w
    by (rule validI) (rule unseen_view [OF stepsD [OF unseen_steps(1)]])
  let ?Q = "\<lambda>t. \<exists>n b p. vw_state v = ExecutingTools n b \<and> call_position call (vw_batch v) = Some p
      \<and> shows_view (see_batch n b ((vw_batch v)[p := f (vw_batch v ! p)]) v) t"
  have "valid ?Q (record_event ev) (\<lambda>_. ?Q)" using r unfolding valid_def by blast
  then have "valid ?Q (thenS (record_event ev) (returnS ())) (\<lambda>_. ?Q)"
    by (rule valid_thenS) (simp add: valid_def)
  then have "valid (shows_view v) (thenS (update_execution call f) (thenS (record_event ev) (returnS ()))) (\<lambda>_. ?Q)"
    by (rule valid_thenS [OF view_update_execution])
  moreover have "visible ?Q" by (intro visible_rules)
  ultimately have "valid (session_view v) (update now (thenS (update_execution call f) (thenS (record_event ev) (returnS ()))))
      (\<lambda>_ s'. coherent s' \<and> ?Q (as_tx s'))"
    by (rule session_update)
  then show ?thesis by (rule valid_weaken) (auto simp: session_view_def)
qed

end
