(* ===== verification/Samples.thy ===== *)
theory Samples
  imports Session_System
begin

text \<open>
  A concrete session the properties are exercised on, and how its operations are evaluated: the
  simplifier runs a computation from its state, without looking into the part still to run.
\<close>

subsection \<open>Evaluation\<close>

named_theorems run \<open>how a computation runs from a state\<close>

lemma bindS_run [run]: "bindS m f s = (case m s of Inl e \<Rightarrow> Inl e | Inr p \<Rightarrow> f (fst p) (snd p))"
  by (simp add: bindS_def split: sum.split prod.split)

lemma thenS_run [run]: "thenS m n s = (case m s of Inl e \<Rightarrow> Inl e | Inr p \<Rightarrow> n (snd p))"
  by (simp add: thenS_def bindS_run)

lemma stored_run [run]:
  "stored m t = (case m (tx_store t) of
     Inl e \<Rightarrow> Inl (Storage e) | Inr p \<Rightarrow> Inr (fst p, t\<lparr>tx_store := snd p\<rparr>))"
  by (simp add: stored_def split: sum.split prod.split)

lemma expectS_run [run]: "expectS e x s = (case x of None \<Rightarrow> Inl e | Some y \<Rightarrow> Inr (y, s))"
  by (simp add: expectS_def failS_def returnS_def split: option.split)

lemmas plain_runs [run] = returnS_def failS_def getS_def modifyS_def recordS_def set_record_def
  liftR_def list_cells_def put_cells_def

lemma bindS_later: "bindS m f = bindS m f" ..
lemma thenS_later: "thenS m n = thenS m n" ..
lemma stored_later: "stored m = stored m" ..
lemma forS_later: "xs = ys \<Longrightarrow> forS f xs = forS f ys" by simp
lemma foldS_later: "xs = ys \<Longrightarrow> foldS f xs = foldS f ys" by simp
lemma mapS_later: "xs = ys \<Longrightarrow> mapS f xs = mapS f ys" by simp

lemmas later = bindS_later thenS_later stored_later forS_later foldS_later mapS_later

lemma digit_chars [run]:
  "digit_char 0 = CHR ''0''" "digit_char (Suc 0) = CHR ''1''" "digit_char 2 = CHR ''2''"
  "digit_char 3 = CHR ''3''" "digit_char 4 = CHR ''4''" "digit_char 5 = CHR ''5''"
  by code_simp+

lemmas run_defs = list_ops_defs decode_def load_object_def save_object_def create_object_def
  index_history_record_def to_integer_def i64_max_def u64_max_def checked_add_def
  saturating_add_def show_nat.simps allocate_list_def load_entry_def load_event_def load_entry_at_def
  load_event_at_def load_generation_def save_generation_def append_generation_def with_model_call_def
  update_def read_def transact_def begin_tx_def history_row_def fill_message_fields_def
  fill_event_fields_def index_record_def record_history_def record_event_def create_entry_def
  store_entry_def append_message_def carries_call_def belongs_to_call_def append_input_def
  new_model_call_def new_call_record_def start_model_call_def complete_model_call_def
  finish_call_def abandon_def consume_inputs_def consume_input_def pending_ids_def
  remember_instruction_update_def instruction_update_def build_request_def load_message_def
  config_build_request_def transition_to_def finish_run_def abandon_running_call_def
  complete_turn_def start_turn_def advance_def Let_def

subsection \<open>A session\<close>

definition sample_record :: session_record where
  "sample_record = (initial_record ''k'' (new_config ''m'') None)\<lparr>sr_standby := 1, sr_next_list_id := 2\<rparr>"

definition sample_generation :: "nat \<Rightarrow> generation_status \<Rightarrow> generation" where
  "sample_generation n status =
     \<lparr>gn_id = n, gn_status = status, gn_entries = ''k/lists/'' @ show_nat n,
      gn_config = new_config ''m'', gn_compaction_cursor = 0, gn_source = None\<rparr>"

definition sample :: session where
  "sample = \<lparr>se_record = sample_record, se_key = ''k'',
     se_store = \<lparr>
       st_objects = [''k'' \<mapsto> (sv_kind kind_record, StRecord sample_record)],
       st_lists = [''k/entries'' \<mapsto> (sv_kind kind_entry, []),
         ''k/events'' \<mapsto> (sv_kind kind_event, []),
         ''k/history'' \<mapsto> (sv_kind kind_history, []),
         ''k/generations'' \<mapsto> (sv_kind kind_generation,
            [Some (StGeneration (sample_generation 0 GenActive)),
             Some (StGeneration (sample_generation 1 GenStandby))]),
         ''k/queue'' \<mapsto> (sv_kind kind_entry_id, []),
         ''k/model_calls'' \<mapsto> (sv_kind kind_call, []),
         ''k/lists/0'' \<mapsto> (sv_kind kind_entry_id, []),
         ''k/lists/1'' \<mapsto> (sv_kind kind_entry_id, [])],
       st_index = (\<lambda>_. [])\<rparr>,
     se_queue_size = 0\<rparr>"

definition accepted :: "'e + 'a \<Rightarrow> bool" where
  "accepted r = (case r of Inl _ \<Rightarrow> False | Inr _ \<Rightarrow> True)"

definition after :: "timestamp \<Rightarrow> operation \<Rightarrow> session \<Rightarrow> session" where
  "after now op s = (case perform now op s of Inl _ \<Rightarrow> s | Inr (_, s') \<Rightarrow> s')"

lemma step_after: "accepted (perform now op s) \<Longrightarrow> step s op (after now op s)"
  by (auto simp: accepted_def after_def intro!: step.step split: sum.splits)

lemmas sample_defs = sample_def sample_record_def sample_generation_def initial_record_def new_config_def

definition hello :: message where
  "hello = User JNull [Text ''hello'']"

text \<open>An input is enqueued, the run collects it, and the first turn asks the model.\<close>

definition queued_session :: session where
  "queued_session = after 6 (EnqueueMessage hello) sample"

definition ready_session :: session where
  "ready_session = after 7 CollectInputs queued_session"

lemma first_turn_run:
  "\<exists>s1 s2 s3 rq e. perform 6 (EnqueueMessage hello) sample = Inr ((), s1) \<and> se_queue_size s1 = 1
     \<and> st_lists (se_store s1) ''k/entries'' = Some (sv_kind kind_entry, [e])
     \<and> perform 7 CollectInputs s1 = Inr ((), s2)
     \<and> session_advance 8 s2 = Inr (CallModel rq, s3) \<and> rq_conversation rq = [hello]"
  by (simp add: collect_inputs_def has_queued_input_def session_advance_def discard_def
      enqueue_message_def hello_def sample_defs run run_defs norm_record_def norm_config_def cong: later)

lemma first_turn:
  "step sample (EnqueueMessage hello) queued_session" "step queued_session CollectInputs ready_session"
  "se_queue_size queued_session = 1"
  "\<exists>e. st_lists (se_store queued_session) ''k/entries'' = Some (sv_kind kind_entry, [e])"
  "\<exists>rq s. session_advance 8 ready_session = Inr (CallModel rq, s) \<and> rq_conversation rq = [hello]"
proof -
  from first_turn_run obtain s1 s2 s3 rq e where
    a: "perform 6 (EnqueueMessage hello) sample = Inr ((), s1)" and b: "perform 7 CollectInputs s1 = Inr ((), s2)"
    and c: "se_queue_size s1 = 1" "st_lists (se_store s1) ''k/entries'' = Some (sv_kind kind_entry, [e])"
      "session_advance 8 s2 = Inr (CallModel rq, s3)" "rq_conversation rq = [hello]" by blast
  have q: "queued_session = s1" unfolding queued_session_def after_def a by simp
  have r: "ready_session = s2" unfolding ready_session_def q after_def b by simp
  show "step sample (EnqueueMessage hello) queued_session" unfolding q by (rule step.step [OF a])
  show "step queued_session CollectInputs ready_session" unfolding q r by (rule step.step [OF b])
  show "se_queue_size queued_session = 1"
    "\<exists>e. st_lists (se_store queued_session) ''k/entries'' = Some (sv_kind kind_entry, [e])"
    "\<exists>rq s. session_advance 8 ready_session = Inr (CallModel rq, s) \<and> rq_conversation rq = [hello]"
    using c by (auto simp: q r)
qed

end
