(* ===== verification/Session_Properties.thy ===== *)
theory Session_Properties
  imports Session_Contracts Samples
begin

text \<open>
  The properties of a session under any sequence of the operations of its owner and its senders, and
  the contracts of the operations a run is made of.
\<close>

section \<open>Sessions under any sequence of operations\<close>

subsection \<open>The record of what happened\<close>

lemma logs_not_mutable:
  "k \<in> {sv_kind kind_entry, sv_kind kind_event, sv_kind kind_history} \<Longrightarrow> k \<notin> mutable_kinds"
  by auto

text \<open>
  C1: whatever operations the owner and the senders of a session perform, in any order and short of a
  prune, its entries, events and history records are only appended to: what was recorded stays where
  it was recorded, unchanged.
\<close>

theorem history_append_only:
  assumes "reaches (\<lambda>op. \<not> is_prune op) s t"
    and "k \<in> {sv_kind kind_entry, sv_kind kind_event, sv_kind kind_history}"
    and "st_lists (se_store s) l = Some (k, cells)"
  shows "\<exists>ext. st_lists (se_store t) l = Some (k, cells @ ext)"
  using assms(1)
proof (induction rule: reaches.induct)
  case start
  show ?case using assms(3) by (intro exI [of _ "[]"]) simp
next
  case (more t op u)
  with logs_not_mutable [OF assms(2)] show ?case
    using step_logs_grow [OF more.hyps(2,3)] by (metis append.assoc)
qed

theorem history_append_only_witness:
  "\<exists>e ext. st_lists (se_store ready_session) ''k/entries'' = Some (sv_kind kind_entry, [e] @ ext)"
  using first_turn(4)
    history_append_only [OF reaches.more [OF reaches.start first_turn(2)], of "sv_kind kind_entry" "''k/entries''"]
  by fastforce

text \<open>A step, a prune included, as a change of the store between two transactions.\<close>

lemma step_logs_stable:
  assumes "step s op s'"
  obtains t u where "logs_stable t u" "tx_lists t = st_lists (se_store s)" "tx_lists u = st_lists (se_store s')"
proof (cases "is_prune op")
  case False
  from committed_lists [OF step_committed [OF assms this]] obtain t u where
    t: "evolves t u" "tx_lists t = st_lists (se_store s)" "tx_lists u = st_lists (se_store s')" by blast
  from t(1) have "logs_stable t u"
    unfolding evolves_def logs_grow_def logs_stable_def
    by (metis length_append le_add1 nth_append)
  then show thesis using t(2,3) by (rule that)
next
  case True
  with assms obtain env b now x where "update now (prune env b) s = Inr (x, s')"
    by (cases op) (auto elim!: stepE simp: discard_def prune_history_def thenS_Inr)
  then obtain t where "prune env b (begin_tx (se_record s) now s) = Inr (x, t)" "tx_lists t = st_lists (se_store s')"
    unfolding update_Inr by auto
  with stepsD [OF steps_prune] show thesis using that [of "begin_tx (se_record s) now s" t] by simp
qed

text \<open>
  C2: a position is never given to another record. Whatever is done to a session, prunes included, an
  entry, event or history record stays at its position with its content, or its position is released
  and stays empty.
\<close>

theorem positions_stable:
  assumes "reaches (\<lambda>_. True) s t"
    and "k \<in> {sv_kind kind_entry, sv_kind kind_event, sv_kind kind_history}"
    and "st_lists (se_store s) l = Some (k, cells)"
  shows "\<exists>cells'. st_lists (se_store t) l = Some (k, cells') \<and> length cells \<le> length cells'
           \<and> (\<forall>i < length cells. cells' ! i = cells ! i \<or> cells' ! i = None)"
  using assms(1)
proof (induction rule: reaches.induct)
  case start
  show ?case using assms(3) by simp
next
  case (more t op u)
  then obtain c where c: "st_lists (se_store t) l = Some (k, c)" "length cells \<le> length c"
    "\<forall>i < length cells. c ! i = cells ! i \<or> c ! i = None" by blast
  from step_logs_stable [OF more.hyps(2)] obtain a b where a: "logs_stable a b"
    "tx_lists a = st_lists (se_store t)" "tx_lists b = st_lists (se_store u)" by blast
  from logs_stableD [OF a(1), of l k c] a(2,3) c(1) logs_not_mutable [OF assms(2)] obtain d where
    d: "st_lists (se_store u) l = Some (k, d)" "length c \<le> length d"
      "\<forall>i < length c. d ! i = c ! i \<or> d ! i = None" by auto
  have "d ! i = cells ! i \<or> d ! i = None" if "i < length cells" for i
    using c(2,3) d(3) that by (metis order_less_le_trans)
  with c(2) d(1,2) show ?case by auto
qed

theorem positions_stable_witness:
  "\<exists>e cells'. st_lists (se_store queued_session) ''k/entries'' = Some (sv_kind kind_entry, [e])
     \<and> st_lists (se_store ready_session) ''k/entries'' = Some (sv_kind kind_entry, cells')
     \<and> 1 \<le> length cells' \<and> (cells' ! 0 = e \<or> cells' ! 0 = None)"
  using first_turn(4)
    positions_stable [OF reaches.more [OF reaches.start first_turn(2)], of "sv_kind kind_entry" "''k/entries''"]
  by fastforce

subsection \<open>The owner and the store\<close>

text \<open>
  C3: the record the owner of a session works with is the record that is stored, after any sequence
  of operations, the senders' included: a sender never commits a change to the record.
\<close>

theorem owner_and_store_agree:
  assumes "reaches P s t" and "coherent s"
  shows "st_objects (se_store t) (se_key t) = Some (sv_kind kind_record, StRecord (se_record t))"
  using reaches_coherent [OF assms] by (simp add: coherent_def)

lemma sample_coherent: "coherent sample"
  by (simp add: coherent_def sample_def)

theorem owner_and_store_agree_witness:
  "st_objects (se_store ready_session) (se_key ready_session)
     = Some (sv_kind kind_record, StRecord (se_record ready_session))"
  by (rule owner_and_store_agree [OF reaches.more [OF reaches.more [OF reaches.start first_turn(1)] first_turn(2)],
        of "\<lambda>_. True"]) (simp_all add: sample_coherent)




subsection \<open>Requests\<close>







text \<open>
  C6: what \<open>advance\<close> does. It calls the model only from a ready state, when the model is
  needed or an input waits, and the request is the conversation so far followed by every input that
  waited, which then is part of the conversation and no longer waits; from a tool batch it hands out
  the calls without an outcome and changes nothing; with nothing to do it completes the run; from an
  ended run it reports the outcome again.
\<close>

theorem advance_contract:
  "valid (session_view v) (session_advance now) (\<lambda>act s'. coherent s' \<and> action_view v act (as_tx s'))"
  unfolding session_advance_def by (rule session_update [OF view_advance visible_action])

text \<open>
  C7: a complete response. One that stopped for another reason than its end or a tool use ends the
  run, as does one whose messages or calls are not acceptable, without touching the conversation; an
  acceptable one is appended to the conversation, and its calls become the tool batch, each call not
  started and without an outcome.
\<close>

theorem accept_response_contract:
  "valid (session_view v) (session_accept_response now resp ob)
     (\<lambda>_ s'. coherent s' \<and> (\<exists>turn. vw_state v = CallingModel turn \<and> response_view turn resp v (as_tx s')))"
  unfolding session_accept_response_def
  by (rule session_end_call [OF stands_view [OF view_accept_response]]) (intro visible_rules)

text \<open>
  C8: an interrupted response. What arrived is kept in the conversation, the run is suspended with
  the outcome \<open>Interrupted\<close>, and no model call is left open.
\<close>

theorem accept_interruption_contract:
  "valid (session_view v) (session_accept_interruption now partial ob)
     (\<lambda>_ s'. coherent s' \<and> (\<exists>turn. vw_state v = CallingModel turn)
        \<and> ended Interrupted (see_messages (pr_messages partial) v) (as_tx s'))"
  unfolding session_accept_interruption_def
  by (rule session_end_call [OF stands_view [OF view_accept_interruption]]) (intro visible_rules)

text \<open>
  Recording the outcome of a tool changes the execution of the call with that id and of no other
  call, and nothing else of the session; a call that is not part of the batch is refused.
\<close>

lemma accept_tool_outcome_contract:
  "valid (session_view v) (accept_tool_outcome now call oc) (\<lambda>_ s'. \<exists>n b p. vw_state v = ExecutingTools n b
      \<and> call_position call (vw_batch v) = Some p
      \<and> session_view (see_batch n b ((vw_batch v)[p := (vw_batch v ! p)\<lparr>te_outcome := Some oc\<rparr>]) v) s')"
  unfolding accept_tool_outcome_def record_tool_outcome_def by (rule session_update_execution)

text \<open>
  C10: completing a batch. It succeeds only when every call has an outcome; then the result of every
  call, in the order of the calls, and after them the inputs tools handed back are appended to the
  conversation, the batch is gone, and the run goes on to the next turn, or is suspended when the
  outcome of a tool is unknown.
\<close>

theorem complete_tools_contract:
  "valid (session_view v) (session_complete_tools now) (\<lambda>_ s'. coherent s' \<and> (\<exists>n b.
     vw_state v = ExecutingTools n b \<and> batch_settled (vw_batch v) \<and> tools_view n (vw_batch v) v (as_tx s')))"
  unfolding session_complete_tools_def by (rule session_update [OF view_tools]) (intro visible_rules)


text \<open>
  Ending a run, from any state: the conversation is kept, no model call is left open, and the
  session reports exactly the outcome it was ended with, completed runs leaving it idle and all others
  suspended.
\<close>

lemma finish_run_contract:
  "valid (session_view v) (session_finish_run now oc) (\<lambda>_ s'. coherent s' \<and> ended oc v (as_tx s'))"
  unfolding session_finish_run_def
  by (rule session_update [OF stands_view [OF stands_finish_run]]) (intro visible_rules)

text \<open>
  An ended run stays ended: the owner can ask any number of times, each time the answer is the
  outcome the run ended with and neither record nor store changes.
\<close>

lemma outcome_repeats:
  assumes "coherent s" and "ended oc v (as_tx s)"
  shows "\<exists>s'. session_advance now s = Inr (ActionFinished oc, s') \<and> se_record s' = se_record s
     \<and> se_store s' = se_store s"
proof -
  have "alike (as_tx s) (begin_tx (se_record s) now s)" by (simp add: alike_def)
  with assms(2) have e: "ended oc v (begin_tx (se_record s) now s)" by (rule visibleD [OF visible_ended, rotated])
  then have a: "advance (begin_tx (se_record s) now s) = Inr (ActionFinished oc, begin_tx (se_record s) now s)"
    by (intro reports_advance) (auto simp: ended_def)
  from e obtain st where "shows_view (see_state st v) (begin_tx (se_record s) now s)" by (auto simp: ended_def)
  then obtain cells where "st_lists (se_store s) (sr_queue (se_record s)) = Some (sv_kind kind_entry_id, cells)"
    by (auto dest!: shows_view_waiting simp: waiting_def)
  moreover have "st_objects (se_store s) (se_key s) = Some (sv_kind kind_record, StRecord (se_record s))"
    using assms(1) by (simp add: coherent_def)
  ultimately have "update now advance s = Inr (ActionFinished oc, s\<lparr>se_queue_size := length cells\<rparr>)"
    unfolding update_Inr using a by (auto simp: fun_upd_idem)
  then show ?thesis unfolding session_advance_def by simp
qed

subsection \<open>The queue of inputs\<close>

text \<open>
  C14: no input is lost or duplicated. After any sequence of requests to enqueue, move and cancel
  inputs, what waits is what waited before and what was added, less what was cancelled.
\<close>

theorem queue_edits_lose_nothing:
  "valid (holds_queue q) (edits enqueue_message move_queued_input cancel_queued_input rs)
     (\<lambda>(added, gone) s'. \<exists>q'. holds_queue q' s' \<and> mset q' + mset gone = mset q + mset added)"
  by (rule sq.edits_lose_nothing)

text \<open>
  C15: moving an input puts it right before the input it names, or last when it names none; every
  other input keeps its place among the others. An input that is not waiting, or a target that is
  not, is refused. An input that was cancelled was waiting and is not waiting any more, in any state of
  the run, and every other input waits as before.
\<close>

theorem queue_edits_contract:
  "valid (holds_queue q) (move_queued_input now e b) (\<lambda>_ s'. \<exists>q'. holds_queue q' s' \<and> moved q e b q')
   \<and> valid (holds_queue q) (cancel_queued_input now e) (\<lambda>_ s'. e \<in> set q \<and> holds_queue (remove1 e q) s')"
  by (intro conjI queue_move queue_cancel)

end
