(* ===== verification/Stream_Contract.thy ===== *)
theory Stream_Contract
  imports Stream_Accumulator Validation
begin

text \<open>
  What the stream accumulator guarantees: a stream ends with its stop event, a rewind returns to its
  checkpoint, a block holds the concatenation of its deltas, and the fragment kept of a stream that
  did not end normally pairs its tool calls.
\<close>

subsection \<open>The fragment of a partial response is paired\<close>

text \<open>A block the partial response may send back: output, or a tool call with a valid use.\<close>

definition sound_block :: "(string \<Rightarrow> json option) \<Rightarrow> partial_block \<Rightarrow> bool" where
  "sound_block pj b \<longleftrightarrow>
     list_all valid_output (fst (fragment_of pj NotStarted b))
     \<and> (\<forall>tools. fst (fragment_of pj tools b) = fst (fragment_of pj NotStarted b)
          \<and> answers (concat (map call_of (fst (fragment_of pj tools b)))) (snd (fragment_of pj tools b)))"

definition block_calls :: "(string \<Rightarrow> json option) \<Rightarrow> partial_block \<Rightarrow> (string \<times> string) list" where
  "block_calls pj b = concat (map call_of (fst (fragment_of pj NotStarted b)))"

lemma answers_append: "answers ps rs \<Longrightarrow> answers ps' rs' \<Longrightarrow> answers (ps @ ps') (rs @ rs')"
  by (simp add: answers_def list_all2_appendI)

lemma fragment_pairs:
  assumes "list_all (sound_block pj) bs" and "distinct (map fst (concat (map (block_calls pj) bs)))"
  shows "pairs_ok (build_context_fragment pj bs tools)"
proof -
  let ?ms = "concat (map (fst \<circ> fragment_of pj tools) bs)" and ?rs = "concat (map (snd \<circ> fragment_of pj tools) bs)"
  have eq: "fst (fragment_of pj tools b) = fst (fragment_of pj NotStarted b)" if "b \<in> set bs" for b
    using assms(1) that unfolding list_all_iff sound_block_def by blast
  have "list_all valid_output (fst (fragment_of pj tools b))" if "b \<in> set bs" for b
    unfolding eq [OF that] using assms(1) that unfolding list_all_iff [of "sound_block pj"] sound_block_def by blast
  then have "list_all valid_output ?ms" by (auto simp: list_all_iff)
  moreover have "map call_of (fst (fragment_of pj tools b)) = map call_of (fst (fragment_of pj NotStarted b))"
    if "b \<in> set bs" for b unfolding eq [OF that] ..
  then have c: "concat (map call_of ?ms) = concat (map (block_calls pj) bs)"
    by (induction bs) (simp_all add: block_calls_def)
  moreover have "answers (concat (map call_of ?ms)) ?rs"
    using assms(1)
  proof (induction bs)
    case (Cons b bs)
    then have "answers (concat (map call_of (fst (fragment_of pj tools b)))) (snd (fragment_of pj tools b))"
      unfolding sound_block_def by simp
    with Cons show ?case by (simp add: answers_append)
  qed (simp add: answers_def)
  ultimately show ?thesis
    unfolding build_context_fragment_def using assms(2) by (intro pairs_ok_turn) simp_all
qed

text \<open>The blocks a stream leaves: every whole item it carries is an upstream compaction.\<close>

definition items_ok :: "(nat, message) btree \<Rightarrow> bool" where
  "items_ok items \<longleftrightarrow> (\<forall>(_, m) \<in> set items. \<exists>md i e. m = UpstreamCompaction md i e)"

definition acc_ok :: "'a acc_core_scheme \<Rightarrow> bool" where
  "acc_ok acc \<longleftrightarrow> items_ok (acc_items acc)"

definition fed_ok :: "accumulator \<Rightarrow> bool" where
  "fed_ok acc \<longleftrightarrow> acc_ok acc \<and> (\<forall>r core. acc_checkpoint acc = Some (r, core) \<longrightarrow> acc_ok core)"

lemma set_bt_insert: "set (bt_insert k v m) \<subseteq> insert (k, v) (set m)"
  by (induction m) (auto split: if_splits)

lemma edit_block_rest:
  "edit_block i k f acc = Inr acc' \<Longrightarrow> \<exists>bs. acc' = acc\<lparr>acc_blocks := bs\<rparr>"
  by (auto simp: edit_block_def bindR_Inr_iff)

lemma items_ok_insert: "items_ok items \<Longrightarrow> items_ok (bt_insert i (UpstreamCompaction md n e) items)"
proof -
  assume "items_ok items"
  then have "\<forall>x \<in> insert (i, UpstreamCompaction md n e) (set items). \<exists>md i e. snd x = UpstreamCompaction md i e"
    by (auto simp: items_ok_def)
  then have "\<forall>x \<in> set (bt_insert i (UpstreamCompaction md n e) items). \<exists>md i e. snd x = UpstreamCompaction md i e"
    using set_bt_insert [of i "UpstreamCompaction md n e" items] by blast
  then show ?thesis by (auto simp: items_ok_def)
qed

lemma feed_open_ok:
  assumes "feed_open ev acc = Inr acc'" and "fed_ok acc"
  shows "fed_ok acc'"
proof (cases ev)
  case (Checkpoint n)
  with assms show ?thesis by (auto simp: fed_ok_def acc_ok_def acc_core.defs)
next
  case (Rewind n)
  with assms show ?thesis
    by (auto simp: fed_ok_def acc_ok_def rewind_def acc_core.defs accumulator.defs split: option.splits if_splits)
next
  case (BlockStart i k)
  with assms show ?thesis by (auto simp: fed_ok_def acc_ok_def open_block_def split: if_splits)
next
  case (BlockEnd i)
  with assms show ?thesis by (auto simp: fed_ok_def acc_ok_def close_block_def split: option.splits if_splits)
next
  case (BlockComplete i)
  with assms show ?thesis by (auto simp: fed_ok_def acc_ok_def complete_block_def split: option.splits if_splits)
next
  case (UpstreamCompactionEvent i n e)
  with assms show ?thesis by (auto simp: fed_ok_def acc_ok_def items_ok_insert)
qed (use assms in \<open>auto simp: fed_ok_def acc_ok_def dest!: edit_block_rest\<close>)

lemma feed_all_ok: "feed_all es acc = Inr acc' \<Longrightarrow> fed_ok acc \<Longrightarrow> fed_ok acc'"
  unfolding feed_all_def
proof (induction es arbitrary: acc)
  case (Cons e es)
  then show ?case by (auto simp: bindR_Inr_iff feed_def split: if_splits intro: feed_open_ok)
qed simp

definition frag_ok :: "(string \<Rightarrow> json option) \<Rightarrow> partial_block list \<Rightarrow> bool" where
  "frag_ok pj bs \<longleftrightarrow> list_all (sound_block pj) bs \<and> distinct (map fst (concat (map (block_calls pj) bs)))"

lemma sound_message:
  assumes "pb_content b = PartialMessage m" and "valid_output m" and "call_of m = []"
  shows "sound_block pj b" and "block_calls pj b = []"
  using assms by (auto simp: sound_block_def block_calls_def fragment_of_def answers_def)

lemma sound_withheld: "pb_replay b \<noteq> Replayable \<Longrightarrow> sound_block pj b" "pb_replay b \<noteq> Replayable \<Longrightarrow> block_calls pj b = []"
  by (simp_all add: sound_block_def block_calls_def fragment_of_def answers_def)

lemma parse_arguments_object: "parse_arguments pj raw = Some v \<Longrightarrow> is_object v"
  by (auto simp: parse_arguments_def split: option.splits if_splits)

definition block_step :: "(string \<Rightarrow> json option) \<Rightarrow> string list \<Rightarrow> partial_block \<Rightarrow> string list \<Rightarrow> bool" where
  "block_step pj ids pb ids' \<longleftrightarrow> sound_block pj pb \<and> set ids \<subseteq> set ids'
     \<and> (block_calls pj pb = [] \<or> (\<exists>x n. block_calls pj pb = [(x, n)] \<and> x \<notin> set ids \<and> x \<in> set ids'))"

lemma block_step_message:
  "pb_content pb = PartialMessage m \<Longrightarrow> valid_output m \<Longrightarrow> call_of m = [] \<Longrightarrow> block_step pj ids pb ids"
  unfolding block_step_def using sound_message by blast

lemma block_step_tool:
  assumes "pb_content pb = PartialToolCall call name args" and "pb_replay pb = Replayable \<Longrightarrow>
      fresh_call_id call ids \<and> (case name of None \<Rightarrow> False | Some name \<Rightarrow> name \<noteq> [])
      \<and> parse_arguments pj args \<noteq> None"
  shows "block_step pj ids pb (if fresh_call_id call ids then the call # ids else ids)"
proof (cases "pb_replay pb = Replayable")
  case True
  with assms(2) obtain x n v where c: "call = Some x" "x \<noteq> []" "x \<notin> set ids" "name = Some n" "n \<noteq> []"
    "parse_arguments pj args = Some v"
    by (cases call; cases name) (auto simp: fresh_call_id_def)
  have f: "fragment_of pj tools pb = ([ToolUse JNull x n v], [ToolResult JNull x n (cancelled_content tools)])" for tools
    using True assms(1) c by (simp add: fragment_of_def)
  have "sound_block pj pb"
    using parse_arguments_object [OF c(6)] c by (simp add: sound_block_def f is_valid_tool_use_def answers_def)
  moreover have "block_calls pj pb = [(x, n)]" by (simp add: block_calls_def f)
  ultimately show ?thesis using c by (auto simp: block_step_def fresh_call_id_def)
next
  case False
  then show ?thesis using sound_withheld by (auto simp: block_step_def)
qed

lemma classify_block_sound:
  assumes "classify_block pj rules b ids = ((content, replay), ids')"
  shows "block_step pj ids \<lparr>pb_index = i, pb_closed = c, pb_content = content, pb_replay = replay\<rparr> ids'"
proof (cases "bl_kind b")
  case KindText
  with assms show ?thesis by (auto simp: classify_block_def intro!: block_step_message)
next
  case KindReasoning
  with assms show ?thesis by (auto simp: classify_block_def into_reasoning_def intro!: block_step_message)
next
  case KindToolUse
  let ?valid = "fresh_call_id (bl_call_id b) ids \<and> (case bl_name b of None \<Rightarrow> False | Some name \<Rightarrow> name \<noteq> [])
      \<and> parse_arguments pj (bl_arguments b) \<noteq> None"
  from KindToolUse assms have "((PartialToolCall (bl_call_id b) (bl_name b) (bl_arguments b),
      if \<not> bl_complete b then Incomplete else if ?valid then Replayable else InvalidToolCall),
      if fresh_call_id (bl_call_id b) ids then the (bl_call_id b) # ids else ids) = ((content, replay), ids')"
    by (simp only: classify_block_def Let_def block_kind.case)
  then have c: "content = PartialToolCall (bl_call_id b) (bl_name b) (bl_arguments b)"
    "replay = (if \<not> bl_complete b then Incomplete else if ?valid then Replayable else InvalidToolCall)"
    "ids' = (if fresh_call_id (bl_call_id b) ids then the (bl_call_id b) # ids else ids)"
    by (auto simp only: prod.inject)
  have v: "replay = Replayable \<Longrightarrow> ?valid" unfolding c(2) by (auto split: if_splits)
  show ?thesis
    unfolding c(3)
  proof (rule block_step_tool)
    show "pb_content \<lparr>pb_index = i, pb_closed = c, pb_content = content, pb_replay = replay\<rparr>
        = PartialToolCall (bl_call_id b) (bl_name b) (bl_arguments b)" by (simp add: c(1))
  qed (rule v, simp)
qed

lemma classify_blocks_ok:
  "frag_ok pj (map snd (classify_blocks pj rules bs ids))
   \<and> set (map fst (concat (map (block_calls pj) (map snd (classify_blocks pj rules bs ids))))) \<inter> set ids = {}"
proof (induction bs arbitrary: ids)
  case (Cons ib bs)
  obtain i b where ib: "ib = (i, b)" by (cases ib)
  obtain content replay ids' where c: "classify_block pj rules b ids = ((content, replay), ids')"
    by (metis prod.exhaust)
  let ?pb = "\<lparr>pb_index = i, pb_closed = bl_closed b, pb_content = content, pb_replay = replay\<rparr>"
  have s: "block_step pj ids ?pb ids'" by (rule classify_block_sound [OF c])
  then have "sound_block pj ?pb" "set ids \<subseteq> set ids'" by (simp_all add: block_step_def)
  moreover from s have "block_calls pj ?pb = [] \<or> (\<exists>x n. block_calls pj ?pb = [(x, n)] \<and> x \<notin> set ids \<and> x \<in> set ids')"
    by (simp add: block_step_def)
  ultimately show ?case
    using Cons.IH [of ids'] unfolding ib classify_blocks.simps c
    by (elim disjE exE conjE) (simp_all add: frag_ok_def, blast+)
qed (simp add: frag_ok_def)

lemma frag_ok_insert:
  assumes "frag_ok pj (map snd m)" and "sound_block pj pb" and "block_calls pj pb = []"
  shows "frag_ok pj (map snd (bt_insert i pb m))"
    and "set (concat (map (block_calls pj) (map snd (bt_insert i pb m)))) \<subseteq> set (concat (map (block_calls pj) (map snd m)))"
  using assms
proof (induction m)
  case (Cons x m)
  { case 1
    then have "frag_ok pj (map snd m)" by (simp add: frag_ok_def)
    with 1 Cons.IH show ?case by (cases x) (auto simp: frag_ok_def) }
  { case 2
    then have "frag_ok pj (map snd m)" by (simp add: frag_ok_def)
    with 2 Cons.IH show ?case by (cases x) auto }
qed (auto simp: frag_ok_def)

lemma frag_ok_items:
  assumes "frag_ok pj (map snd m)" and "items_ok items"
  shows "frag_ok pj (map snd (insert_items items m))"
  using assms unfolding insert_items_def
proof (induction items arbitrary: m)
  case (Cons x items)
  obtain i msg where x: "x = (i, msg)" by (cases x)
  from Cons.prems(2) x obtain md n e where m: "msg = UpstreamCompaction md n e" and "items_ok items"
    by (auto simp: items_ok_def)
  let ?pb = "\<lparr>pb_index = i, pb_closed = True, pb_content = PartialMessage msg, pb_replay = Replayable\<rparr>"
  have "frag_ok pj (map snd (bt_insert i ?pb m))"
    by (rule frag_ok_insert(1) [OF Cons.prems(1)]) (auto intro!: sound_message simp: m)
  from Cons.IH [OF this \<open>items_ok items\<close>] show ?case by (simp add: x)
qed simp

lemma frag_ok_Cons:
  "frag_ok pj (b # bs) \<longleftrightarrow> sound_block pj b \<and> frag_ok pj bs \<and> distinct (map fst (block_calls pj b))
     \<and> fst ` set (block_calls pj b) \<inter> fst ` set (concat (map (block_calls pj) bs)) = {}"
  by (auto simp: frag_ok_def)

lemma frag_ok_mark:
  "frag_ok pj bs \<Longrightarrow> frag_ok pj (mark_unsealed_signatures bs)
     \<and> fst ` set (concat (map (block_calls pj) (mark_unsealed_signatures bs))) \<subseteq> fst ` set (concat (map (block_calls pj) bs))"
proof (induction bs)
  case (Cons b bs)
  define b' where "b' = (if is_signature_only b \<and> \<not> (case bs of [] \<Rightarrow> False | following # _ \<Rightarrow> carries_signature following)
      then b\<lparr>pb_replay := MissingSignedPart\<rparr> else b)"
  have m: "mark_unsealed_signatures (b # bs) = b' # mark_unsealed_signatures bs" by (simp add: b'_def)
  have "b' = b \<or> sound_block pj b' \<and> block_calls pj b' = []"
    using sound_withheld [of "b\<lparr>pb_replay := MissingSignedPart\<rparr>" pj] by (simp add: b'_def)
  moreover have "frag_ok pj bs" using Cons.prems by (simp add: frag_ok_Cons)
  note ih = Cons.IH [OF this]
  have "fst ` set (block_calls pj b) \<inter> fst ` set (concat (map (block_calls pj) (mark_unsealed_signatures bs))) = {}"
    using ih Cons.prems unfolding frag_ok_Cons by blast
  ultimately show ?case
    using ih Cons.prems unfolding m frag_ok_Cons by (elim disjE) (simp_all add: image_Un le_supI2)
qed (simp add: frag_ok_def)

lemma partial_pairs:
  assumes "fed_ok acc"
  shows "pairs_ok (pr_messages (build_partial_response pj acc reason))"
proof -
  have "frag_ok pj (map snd (insert_items (acc_items acc) (classify_blocks pj (acc_replay acc) (acc_blocks acc) [])))"
    using classify_blocks_ok assms by (intro frag_ok_items) (auto simp: fed_ok_def acc_ok_def)
  then have "frag_ok pj (pr_blocks (build_partial_response pj acc reason))"
    by (simp add: build_partial_response_def Let_def frag_ok_mark)
  then have "pairs_ok (build_context_fragment pj (pr_blocks (build_partial_response pj acc reason)) tools)" for tools
    by (intro fragment_pairs) (auto simp: frag_ok_def)
  then show ?thesis
    by (cases reason) (simp_all add: build_partial_response_def Let_def pairs_ok_def)
qed

subsection \<open>Stop, checkpoint and rewind\<close>

lemma feed_all_append: "feed_all (xs @ ys) acc = bindR (feed_all xs acc) (feed_all ys)"
  by (simp add: feed_all_def [abs_def] foldR_append)

lemma feed_all_simps [simp]:
  "feed_all [] acc = Inr acc" "feed_all (e # es) acc = bindR (feed acc e) (feed_all es)"
  by (simp_all add: feed_all_def [abs_def])

text \<open>A checkpoint is taken of a stream that still runs.\<close>

definition running_checkpoint :: "accumulator \<Rightarrow> bool" where
  "running_checkpoint acc \<longleftrightarrow> (\<forall>r core. acc_checkpoint acc = Some (r, core) \<longrightarrow> acc_stop_reason core = None)"

lemma feed_running:
  assumes "feed acc e = Inr acc'" and "running_checkpoint acc"
  shows "running_checkpoint acc'" and "acc_stop_reason acc = None"
    and "acc_stop_reason acc' = (case e of StopEvent r \<Rightarrow> Some r | _ \<Rightarrow> None)"
proof -
  from assms(1) have o: "acc_stop_reason acc = None" "feed_open e acc = Inr acc'"
    by (auto simp: feed_def split: if_splits)
  show "acc_stop_reason acc = None" by (rule o)
  have "running_checkpoint acc' \<and> acc_stop_reason acc' = (case e of StopEvent r \<Rightarrow> Some r | _ \<Rightarrow> None)"
  proof (cases e)
    case (Rewind n)
    with o assms(2) show ?thesis
      by (auto simp: running_checkpoint_def rewind_def acc_core.defs accumulator.defs split: option.splits if_splits)
  qed (use o assms(2) in \<open>auto simp: running_checkpoint_def acc_core.defs open_block_def close_block_def
      complete_block_def split: option.splits if_splits dest!: edit_block_rest\<close>)
  then show "running_checkpoint acc'"
    "acc_stop_reason acc' = (case e of StopEvent r \<Rightarrow> Some r | _ \<Rightarrow> None)" by blast+
qed

lemma feed_all_stop:
  assumes "feed_all es acc = Inr acc'" and "running_checkpoint acc" and "acc_stop_reason acc = None"
  shows "running_checkpoint acc' \<and> (case acc_stop_reason acc' of
      None \<Rightarrow> \<forall>r. StopEvent r \<notin> set es
    | Some r \<Rightarrow> \<exists>es'. es = es' @ [StopEvent r] \<and> (\<forall>r. StopEvent r \<notin> set es'))"
  using assms
proof (induction es arbitrary: acc' rule: rev_induct)
  case (snoc e es)
  from snoc.prems(1) obtain a where a: "feed_all es acc = Inr a" "feed a e = Inr acc'"
    by (auto simp: feed_all_append bindR_Inr_iff)
  note ih = snoc.IH [OF a(1) snoc.prems(2,3)]
  note f = feed_running [OF a(2) conjunct1 [OF ih]]
  from ih f show ?case by (cases e) auto
qed simp

lemma checkpoint_kept:
  assumes "feed_all es acc = Inr acc'" and "acc_checkpoint acc = Some (r, core)" and "\<forall>n. Checkpoint n \<notin> set es"
  shows "acc_checkpoint acc' = Some (r, core)"
  using assms
proof (induction es arbitrary: acc)
  case (Cons e es)
  then obtain a where a: "feed acc e = Inr a" "feed_all es a = Inr acc'" by (auto simp: bindR_Inr_iff)
  from a(1) have "feed_open e acc = Inr a" by (simp add: feed_def split: if_splits)
  then have "acc_checkpoint a = Some (r, core)"
  proof (cases e)
    case (Rewind n)
    with \<open>feed_open e acc = Inr a\<close> Cons.prems(2) show ?thesis
      by (auto simp: rewind_def acc_core.defs accumulator.defs split: if_splits)
  qed (use \<open>feed_open e acc = Inr a\<close> Cons.prems(2,3) in \<open>auto simp: open_block_def close_block_def
      complete_block_def split: option.splits if_splits dest!: edit_block_rest\<close>)
  with Cons.IH [OF a(2)] Cons.prems(3) show ?case by simp
qed simp

lemma rewind_restores:
  assumes "feed_all (Checkpoint r # es) acc = Inr a" and "\<forall>n. Checkpoint n \<notin> set es"
    and "acc_stop_reason a = None"
  shows "feed a (Rewind r) = Inr (acc\<lparr>acc_checkpoint := Some (r, acc_core.truncate acc)\<rparr>)"
proof -
  from assms(1) have "feed_all es (acc\<lparr>acc_checkpoint := Some (r, acc_core.truncate acc)\<rparr>) = Inr a"
    by (auto simp: bindR_Inr_iff feed_def split: if_splits)
  from checkpoint_kept [OF this _ assms(2)] have "acc_checkpoint a = Some (r, acc_core.truncate acc)" by simp
  with assms(3) show ?thesis
    by (cases acc) (simp add: feed_def rewind_def acc_core.defs accumulator.defs)
qed

subsection \<open>Blocks hold their deltas\<close>

text \<open>What the events of a stream say about one block, in order.\<close>

fun text_part :: "nat \<Rightarrow> stream_event \<Rightarrow> string" where
  "text_part i (TextDelta j d) = (if j = i then d else [])"
| "text_part i _ = []"

fun reasoning_part :: "nat \<Rightarrow> stream_event \<Rightarrow> string" where
  "reasoning_part i (ReasoningDelta j d) = (if j = i then d else [])"
| "reasoning_part i _ = []"

fun argument_part :: "nat \<Rightarrow> stream_event \<Rightarrow> string" where
  "argument_part i (ToolUseDelta j _ _ d) = (if j = i then d else [])"
| "argument_part i _ = []"

definition block_holds :: "nat \<Rightarrow> stream_event list \<Rightarrow> block option \<Rightarrow> bool" where
  "block_holds i es ob \<longleftrightarrow>
     concat (map (text_part i) es) = (case ob of None \<Rightarrow> [] | Some b \<Rightarrow> bl_text b)
     \<and> concat (map (reasoning_part i) es) = (case ob of None \<Rightarrow> [] | Some b \<Rightarrow> bl_plaintext b)
     \<and> concat (map (argument_part i) es) = (case ob of None \<Rightarrow> [] | Some b \<Rightarrow> bl_arguments b)"

lemma edit_block_Inr:
  "edit_block i k f acc = Inr acc' \<longleftrightarrow>
     (\<exists>b. map_of (acc_blocks acc) i = Some b \<and> bl_kind b = k \<and> \<not> bl_closed b
        \<and> acc' = acc\<lparr>acc_blocks := bt_insert i (f b) (acc_blocks acc)\<rparr>)"
  by (auto simp: edit_block_def get_block_def bindR_Inr_iff split: option.splits if_splits)

lemma block_holds_snoc:
  assumes "feed acc e = Inr acc'" and "\<forall>n. e \<noteq> Rewind n" and "bt_wf (acc_blocks acc)"
    and "\<And>i. block_holds i es (map_of (acc_blocks acc) i)"
  shows "bt_wf (acc_blocks acc')" and "block_holds i (es @ [e]) (map_of (acc_blocks acc') i)"
proof -
  from assms(1) have o: "feed_open e acc = Inr acc'" by (simp add: feed_def split: if_splits)
  note bt = map_of_bt_insert [OF assms(3)] bt_wf_insert [OF assms(3)]
  have "bt_wf (acc_blocks acc') \<and> block_holds i (es @ [e]) (map_of (acc_blocks acc') i)"
    using o assms(2) assms(3) assms(4) [of i] assms(4)
    by (cases e) (auto simp: block_holds_def edit_block_Inr open_block_def close_block_def complete_block_def
        push_tool_delta_def new_block_def bt split: option.splits if_splits)
  then show "bt_wf (acc_blocks acc')" "block_holds i (es @ [e]) (map_of (acc_blocks acc') i)" by blast+
qed

lemma feed_all_holds:
  assumes "feed_all es acc0 = Inr acc" and "acc_blocks acc0 = []" and "\<forall>n. Rewind n \<notin> set es"
  shows "bt_wf (acc_blocks acc) \<and> (\<forall>i. block_holds i es (map_of (acc_blocks acc) i))"
  using assms
proof (induction es arbitrary: acc rule: rev_induct)
  case Nil
  then show ?case by (auto simp: block_holds_def bt_wf_def)
next
  case (snoc e es)
  from snoc.prems(1) obtain a where a: "feed_all es acc0 = Inr a" "feed a e = Inr acc"
    by (auto simp: feed_all_append bindR_Inr_iff)
  from snoc.IH [OF a(1)] snoc.prems(2,3) have "bt_wf (acc_blocks a)" "\<And>i. block_holds i es (map_of (acc_blocks a) i)"
    by auto
  from block_holds_snoc [OF a(2) _ this] snoc.prems(3) show ?case by auto
qed

end
