(* ===== verification/Replay_Units.thy ===== *)
theory Replay_Units
  imports Protocol
begin

text \<open>
  The boundaries at which a conversation may be cut (\<open>find_replay_unit_boundaries\<close>): they split it
  into units, and no unit separates a tool call from its result.
\<close>

definition unanswered :: "message list \<Rightarrow> error + (string \<times> string) list" where
  "unanswered ms = foldR answer_call ms []"

text \<open>What the scan of a prefix has found.\<close>

definition scanned :: "message list \<Rightarrow> unit_scan \<Rightarrow> bool" where
  "scanned ms scan \<longleftrightarrow> (case scan of (boundaries, pending, previous) \<Rightarrow>
     unanswered ms = Inr pending
     \<and> boundaries \<noteq> [] \<and> hd boundaries = 0 \<and> sorted_wrt (<) boundaries \<and> last boundaries \<le> length ms - 1
     \<and> (\<forall>b \<in> set boundaries. unanswered (take b ms) = Inr [])
     \<and> previous = (if ms = [] then None else Some (last ms)))"

lemma enumerate_snoc: "enumerate n (xs @ [x]) = enumerate n xs @ [(n + length xs, x)]"
  by (induction xs arbitrary: n) simp_all

lemma sorted_wrt_le_last: "sorted_wrt (<) xs \<Longrightarrow> (x :: nat) \<in> set xs \<Longrightarrow> x \<le> last xs"
  by (induction xs) (auto simp: less_imp_le)

lemma sorted_wrt_snoc_less:
  assumes "sorted_wrt (<) xs" and "last xs < (n :: nat)"
  shows "sorted_wrt (<) (xs @ [n])"
proof -
  have "x < n" if "x \<in> set xs" for x
    using sorted_wrt_le_last [OF assms(1) that] assms(2) by simp
  with assms(1) show ?thesis by (simp add: sorted_wrt_append)
qed

lemma scanned_step:
  assumes "scanned ms scan" and "scan_message scan (length ms, m) = Inr scan'"
  shows "scanned (ms @ [m]) scan'"
proof -
  obtain bs p prev where scan: "scan = (bs, p, prev)" by (cases scan)
  from assms(1) have s: "unanswered ms = Inr p" "bs \<noteq> []" "hd bs = 0" "sorted_wrt (<) bs" "last bs \<le> length ms - 1"
    "\<forall>b \<in> set bs. unanswered (take b ms) = Inr []" unfolding scan scanned_def by auto
  let ?cut = "starts_unit prev m \<and> length ms \<noteq> 0"
  from assms(2) obtain p' where p: "\<not> (starts_unit prev m \<and> p \<noteq> [])" "answer_call p m = Inr p'"
    "scan' = (if ?cut then bs @ [length ms] else bs, p', Some m)"
    unfolding scan scan_message_def by (auto simp: bindR_Inr_iff split: if_splits)
  have a: "unanswered (ms @ [m]) = Inr p'" using s(1) p(2) by (simp add: unanswered_def foldR_append)
  have le: "b \<le> length ms" if "b \<in> set bs" for b
  proof -
    have "b \<le> last bs" by (rule sorted_wrt_le_last [OF s(4) that])
    with s(5) show ?thesis by simp
  qed
  have keep: "\<forall>b \<in> set bs. unanswered (take b (ms @ [m])) = Inr []" using s(6) le by simp
  show ?thesis
  proof (cases ?cut)
    case True
    with p(1) s(1) have "unanswered (take (length ms) (ms @ [m])) = Inr []" by simp
    moreover have "last bs < length ms" using s(5) True by linarith
    ultimately show ?thesis
      using True p(3) a keep s(2-5) sorted_wrt_snoc_less [OF s(4)] by (simp add: scanned_def)
  next
    case False
    then show ?thesis using p(3) a keep s(2-5) unfolding scanned_def by auto
  qed
qed

lemma scanned_all:
  "foldR scan_message (enumerate 0 ms) ([0], [], None) = Inr scan \<Longrightarrow> scanned ms scan"
proof (induction ms arbitrary: scan rule: rev_induct)
  case Nil
  then show ?case by (auto simp: scanned_def unanswered_def)
next
  case (snoc m ms)
  then show ?case
    by (auto simp: enumerate_snoc foldR_append bindR_Inr_iff intro: scanned_step)
qed

lemma boundaries_sound:
  assumes "find_replay_unit_boundaries ms = Inr bs"
  shows "bs \<noteq> []" and "hd bs = 0" and "last bs = length ms" and "sorted_wrt (<) bs"
    and "b \<in> set bs \<Longrightarrow> unanswered (take b ms) = Inr []"
proof -
  from assms obtain cs p prev where f: "foldR scan_message (enumerate 0 ms) ([0], [], None) = Inr (cs, p, prev)"
    and b: "p = []" "bs = (if last cs \<noteq> length ms then cs @ [length ms] else cs)"
    by (auto simp: find_replay_unit_boundaries_def bindR_Inr_iff split: if_splits)
  from scanned_all [OF f] have s: "unanswered ms = Inr []" "cs \<noteq> []" "hd cs = 0" "sorted_wrt (<) cs"
    "last cs \<le> length ms - 1" "\<forall>b \<in> set cs. unanswered (take b ms) = Inr []"
    using b(1) unfolding scanned_def by auto
  have "last cs \<noteq> length ms \<Longrightarrow> last cs < length ms" using s(5) by linarith
  then show "bs \<noteq> []" "hd bs = 0" "last bs = length ms" "sorted_wrt (<) bs"
    using s b(2) sorted_wrt_snoc_less [OF s(4)] by (auto split: if_splits)
  show "b \<in> set bs \<Longrightarrow> unanswered (take b ms) = Inr []"
    using s b(2) by (auto split: if_splits)
qed

text \<open>A unit on its own answers its calls too.\<close>

lemma unanswered_append: "unanswered xs = Inr [] \<Longrightarrow> unanswered (xs @ ys) = unanswered ys"
  by (simp add: unanswered_def foldR_append)

lemma unit_answered:
  assumes "find_replay_unit_boundaries ms = Inr bs" and "a \<in> set bs" and "b \<in> set bs" and "a \<le> b"
  shows "unanswered (take (b - a) (drop a ms)) = Inr []"
proof -
  have "take b ms = take a ms @ take (b - a) (drop a ms)"
    using assms(4) take_add [of a "b - a" ms] by simp
  with unanswered_append [OF boundaries_sound(5) [OF assms(1,2)]] boundaries_sound(5) [OF assms(1,3)]
  show ?thesis by simp
qed

end
