(* ===== verification/Stream_Properties.thy ===== *)
theory Stream_Properties
  imports Stream_Contract Replay_Units
begin

text \<open>
  The properties of a model's response while it streams in, of what is kept of it when it breaks off,
  and of the units a conversation can be cut into.
\<close>

section \<open>Streams\<close>



definition broken_stream :: "stream_event list" where
  "broken_stream = [BlockStart 0 KindText, TextDelta 0 ''so'', BlockEnd 0,
     BlockStart 1 KindToolUse, ToolUseDelta 1 (Some ''c'') (Some ''f'') ''{}'', BlockEnd 1,
     BlockStart 2 KindToolUse, ToolUseDelta 2 (Some ''d'') (Some ''g'') ''{'']"




text \<open>
  A stream stops once, with its last event. An accumulator that holds a stop reason has been fed
  exactly one stop event, with that reason, and nothing after it.
\<close>

lemma stop_event_is_last:
  assumes "feed_all es new_accumulator = Inr acc"
  shows "case acc_stop_reason acc of
      None \<Rightarrow> \<forall>r. StopEvent r \<notin> set es
    | Some r \<Rightarrow> \<exists>es'. es = es' @ [StopEvent r] \<and> (\<forall>r. StopEvent r \<notin> set es')"
proof -
  have "running_checkpoint new_accumulator" "acc_stop_reason new_accumulator = None"
    by (simp_all add: running_checkpoint_def new_accumulator_def)
  from conjunct2 [OF feed_all_stop [OF assms this]] show ?thesis .
qed

text \<open>
  C19: a retry leaves no trace of the attempt it replaces. Whatever an attempt fed after its
  checkpoint, rewinding to the checkpoint gives back the accumulator of that moment.
\<close>

theorem rewind_undoes_the_attempt:
  assumes "feed_all (Checkpoint r # es) acc = Inr a" and "\<forall>n. Checkpoint n \<notin> set es"
    and "acc_stop_reason a = None"
  shows "feed a (Rewind r) = Inr (acc\<lparr>acc_checkpoint := Some (r, acc_core.truncate acc)\<rparr>)"
  by (rule rewind_restores [OF assms])

theorem rewind_undoes_the_attempt_witness:
  "\<exists>a. feed_all (Checkpoint 1 # broken_stream) new_accumulator = Inr a \<and> a \<noteq> new_accumulator
     \<and> feed a (Rewind 1) = Inr (new_accumulator\<lparr>acc_checkpoint := Some (1, acc_core.truncate new_accumulator)\<rparr>)"
proof -
  have "\<exists>a. feed_all (Checkpoint 1 # broken_stream) new_accumulator = Inr a \<and> acc_stop_reason a = None
      \<and> a \<noteq> new_accumulator"
    by (simp add: broken_stream_def new_accumulator_def feed_def open_block_def edit_block_def get_block_def
        close_block_def push_tool_delta_def new_block_def)
  moreover have "\<forall>n. Checkpoint n \<notin> set broken_stream" by (simp add: broken_stream_def)
  ultimately show ?thesis using rewind_undoes_the_attempt [of 1 broken_stream new_accumulator] by blast
qed



section \<open>Replay units\<close>

text \<open>
  C22: the boundaries at which a conversation may be cut start at 0, end at its length and rise
  strictly, so that the units between them cover it without overlap; and no unit, nor any run of
  units, holds a tool call without its result or a result without its call.
\<close>

theorem replay_units_answer_their_calls:
  assumes "find_replay_unit_boundaries ms = Inr bs"
  shows "bs \<noteq> [] \<and> hd bs = 0 \<and> last bs = length ms \<and> sorted_wrt (<) bs
     \<and> (\<forall>a \<in> set bs. \<forall>b \<in> set bs. a \<le> b \<longrightarrow> unanswered (take (b - a) (drop a ms)) = Inr [])"
  using boundaries_sound(1-4) [OF assms] unit_answered [OF assms] by blast

definition tool_talk :: "message list" where
  "tool_talk = [User JNull [Text ''q''], ToolUse JNull ''c'' ''f'' (JObject []),
     ToolResult JNull ''c'' ''f'' JNull, User JNull [Text ''r'']]"

theorem replay_units_answer_their_calls_witness:
  "\<exists>bs. find_replay_unit_boundaries tool_talk = Inr bs \<and> 3 \<in> set bs
     \<and> unanswered (take 3 (drop 0 tool_talk)) = Inr []"
proof -
  have "\<exists>bs. find_replay_unit_boundaries tool_talk = Inr bs \<and> 3 \<in> set bs \<and> 0 \<in> set bs"
    by (simp add: tool_talk_def find_replay_unit_boundaries_def scan_message_def
        starts_unit_def remove_at_def)
  then obtain bs where bs: "find_replay_unit_boundaries tool_talk = Inr bs" "3 \<in> set bs" "0 \<in> set bs" by blast
  from replay_units_answer_their_calls [OF bs(1)] bs(2,3) have "unanswered (take (3 - 0) (drop 0 tool_talk)) = Inr []"
    by blast
  with bs show ?thesis by auto
qed

end
