(* ===== verification/Framing.thy ===== *)
theory Framing
  imports Prelude
begin

text \<open>
  What the framings of a streamed body share: the record a framing cuts a body into
  (\<open>transport/record.rs\<close>), and the contract of an incremental parser. A parser is fed the body in
  the chunks the network happens to deliver; the contract says that the chunks do not matter.
\<close>

record stream_record =
  rc_event :: "string option"
  rc_data :: string

type_synonym ('p, 'e, 'r) feeder = "'p \<Rightarrow> string \<Rightarrow> 'e + ('r list \<times> 'p)"

text \<open>The results of two feeds, one after the other.\<close>

definition and_then ::
  "'e + ('r list \<times> 'p) \<Rightarrow> ('p \<Rightarrow> 'e + ('r list \<times> 'p)) \<Rightarrow> 'e + ('r list \<times> 'p)" where
  "and_then r f = bindR r (\<lambda>(out, p). bindR (f p) (\<lambda>(more, q). Inr (out @ more, q)))"

lemma and_then_simps [simp]:
  "and_then (Inl e) f = Inl e" "and_then (Inr ([], p)) f = f p"
  by (simp_all add: and_then_def) (simp add: bindR_def split: sum.split)

lemma and_then_assoc: "and_then (and_then r f) g = and_then r (\<lambda>p. and_then (f p) g)"
proof (cases r)
  case (Inr x)
  obtain out p where x: "x = (out, p)" by force
  show ?thesis
  proof (cases "f p")
    case (Inr y)
    obtain out' q where "y = (out', q)" by force
    with \<open>r = Inr x\<close> x Inr show ?thesis by (cases "g q") (auto simp: and_then_def)
  qed (use \<open>r = Inr x\<close> x in \<open>simp add: and_then_def\<close>)
qed simp

primrec feed_chunks :: "('p, 'e, 'r) feeder \<Rightarrow> 'p \<Rightarrow> string list \<Rightarrow> 'e + ('r list \<times> 'p)" where
  "feed_chunks feed p [] = Inr ([], p)"
| "feed_chunks feed p (c # cs) = and_then (feed p c) (\<lambda>q. feed_chunks feed q cs)"

locale incremental_parser =
  fixes feed :: "('p, 'e, 'r) feeder"
  assumes feed_append: "feed p (a @ b) = and_then (feed p a) (\<lambda>q. feed q b)"
begin

lemma feed_concat: "cs \<noteq> [] \<Longrightarrow> feed_chunks feed p cs = feed p (concat cs)"
proof (induction cs arbitrary: p)
  case (Cons c cs)
  show ?case
  proof (cases cs)
    case Nil
    show ?thesis
    proof (cases "feed p c")
      case (Inr x)
      then show ?thesis by (cases x) (simp add: Nil and_then_def)
    qed (simp add: Nil)
  next
    case Cons
    then have "feed_chunks feed q cs = feed q (concat cs)" for q by (intro Cons.IH) simp
    then show ?thesis by (simp add: feed_append)
  qed
qed simp

text \<open>Two ways to cut the same bytes give the same records, the same state, or the same error.\<close>

lemma chunks_do_not_matter:
  "cs \<noteq> [] \<Longrightarrow> ds \<noteq> [] \<Longrightarrow> concat cs = concat ds \<Longrightarrow> feed_chunks feed p cs = feed_chunks feed p ds"
  by (simp add: feed_concat)

end

end
