(* ===== verification/Utf8.thy ===== *)
theory Utf8
  imports Prelude
begin

text \<open>
  Text from bytes. The program decodes bytes it does not control with
  \<open>String::from_utf8_lossy\<close>: well-formed UTF-8 is kept, and each ill-formed part becomes one
  replacement character. A byte is a \<open>char\<close>, HOL's type of the 256 byte values, and a Rust string
  is the list of its bytes.
\<close>

definition within :: "nat \<Rightarrow> nat \<Rightarrow> char \<Rightarrow> bool" where
  "within lo hi c \<longleftrightarrow> lo \<le> (of_char c :: nat) \<and> (of_char c :: nat) \<le> hi"

definition is_continuation :: "char \<Rightarrow> bool" where
  "is_continuation c \<longleftrightarrow> within 0x80 0xBF c"

text \<open>How many bytes a character takes that starts with a byte; 0 when none starts with it.\<close>

definition utf8_char_width :: "char \<Rightarrow> nat" where
  "utf8_char_width c =
     (if within 0x00 0x7F c then 1
      else if within 0xC2 0xDF c then 2
      else if within 0xE0 0xEF c then 3
      else if within 0xF0 0xF4 c then 4
      else 0)"

text \<open>The second byte excludes overlong forms, surrogates and what lies past the last code point.\<close>

definition second_byte_ok :: "char \<Rightarrow> char \<Rightarrow> bool" where
  "second_byte_ok lead c =
     (if within 0xE0 0xE0 lead then within 0xA0 0xBF c
      else if within 0xED 0xED lead then within 0x80 0x9F c
      else if within 0xF0 0xF0 lead then within 0x90 0xBF c
      else if within 0xF4 0xF4 lead then within 0x80 0x8F c
      else is_continuation c)"

text \<open>
  The character at the front of the bytes: how many bytes it takes and whether it is well-formed. An
  ill-formed one ends before the first byte that cannot continue it.
\<close>

fun scan_char :: "string \<Rightarrow> nat \<times> bool" where
  "scan_char [] = (0, False)"
| "scan_char (lead # rest) =
     (let width = utf8_char_width lead in
      if width \<le> 1 then (1, width = 1)
      else case rest of
        [] \<Rightarrow> (1, False)
      | c # rest' \<Rightarrow>
          if \<not> second_byte_ok lead c then (1, False)
          else let k = length (takeWhile is_continuation (take (width - 2) rest')) in
            (2 + k, k = width - 2))"

lemma scan_char_le: "fst (scan_char s) \<le> length s"
proof (cases s)
  case (Cons lead rest)
  have "length (takeWhile is_continuation (take n xs)) \<le> length xs" for n xs
    by (metis length_takeWhile_le length_take min.cobounded1 order_trans)
  with Cons show ?thesis by (simp add: Let_def split: list.split)
qed simp

lemma scan_char_pos: "s \<noteq> [] \<Longrightarrow> 0 < fst (scan_char s)"
  by (cases s) (auto simp: Let_def split: list.split)

text \<open>The replacement character U+FFFD.\<close>

definition replacement :: string where
  "replacement = [char_of (0xEF :: nat), char_of (0xBF :: nat), char_of (0xBD :: nat)]"

function from_utf8_lossy :: "string \<Rightarrow> string" where
  "from_utf8_lossy s =
     (if s = [] then []
      else let (n, ok) = scan_char s in
        (if ok then take n s else replacement) @ from_utf8_lossy (drop n s))"
  by auto

termination
proof (relation "measure length")
  fix s :: string and x n ok
  assume "s \<noteq> []" "x = scan_char s" "(n, ok) = x"
  with scan_char_pos [of s] show "(drop n s, s) \<in> measure length" by (cases "scan_char s") auto
qed simp

declare from_utf8_lossy.simps [simp del]

lemma lossy_Nil [simp]: "from_utf8_lossy [] = []"
  by (simp add: from_utf8_lossy.simps)

lemma lossy_scan:
  "s \<noteq> [] \<Longrightarrow> scan_char s = (n, ok) \<Longrightarrow>
     from_utf8_lossy s = (if ok then take n s else replacement) @ from_utf8_lossy (drop n s)"
  by (subst from_utf8_lossy.simps) simp

subsection \<open>Well-formed text\<close>

text \<open>Text in which every character is well-formed.\<close>

inductive well_formed :: "string \<Rightarrow> bool" where
  well_formed_Nil: "well_formed []"
| well_formed_char: "scan_char c = (length c, True) \<Longrightarrow> well_formed s \<Longrightarrow> well_formed (c @ s)"

text \<open>What follows a character does not change it.\<close>

lemma takeWhile_take_append:
  "length (takeWhile P (take n xs)) = n \<Longrightarrow> takeWhile P (take n (xs @ ys)) = takeWhile P (take n xs)"
proof (induction xs arbitrary: n)
  case (Cons x xs)
  then show ?case by (cases n) (auto split: if_splits)
qed simp

lemma scan_char_append: "scan_char c = (n, True) \<Longrightarrow> scan_char (c @ s) = (n, True)"
  by (cases c) (auto simp: Let_def takeWhile_take_append simp del: take_append split: list.splits if_splits)

lemma scan_char_take:
  assumes "scan_char s = (n, True)"
  shows "scan_char (take n s) = (length (take n s), True)"
proof -
  have n: "n \<le> length s" using scan_char_le [of s] assms by simp
  show ?thesis
  proof (cases s)
    case (Cons lead rest)
    with assms n show ?thesis by (cases rest) (auto simp: Let_def split: if_splits)
  qed (use assms in simp)
qed

lemma lossy_char: "scan_char c = (length c, True) \<Longrightarrow> from_utf8_lossy (c @ s) = c @ from_utf8_lossy s"
  using lossy_scan [of "c @ s" "length c" True] scan_char_append [of c "length c" s] by (cases c) auto

lemma lossy_well_formed_append: "well_formed s \<Longrightarrow> from_utf8_lossy (s @ t) = s @ from_utf8_lossy t"
  by (induction rule: well_formed.induct) (simp_all add: lossy_char)

lemma lossy_well_formed [simp]: "well_formed s \<Longrightarrow> from_utf8_lossy s = s"
  using lossy_well_formed_append [of s "[]"] by simp

lemma scan_ascii: "(of_char c :: nat) < 128 \<Longrightarrow> scan_char [c] = (1, True)"
  by (simp add: utf8_char_width_def within_def)

lemma well_formed_ascii: "\<forall>c \<in> set s. (of_char c :: nat) < 128 \<Longrightarrow> well_formed s"
proof (induction s)
  case (Cons c s)
  then show ?case using well_formed_char [of "[c]" s] scan_ascii [of c] by simp
qed (rule well_formed_Nil)

lemma well_formed_append: "well_formed s \<Longrightarrow> well_formed t \<Longrightarrow> well_formed (s @ t)"
  by (induction rule: well_formed.induct) (simp_all add: well_formed_char)

lemma scan_replacement: "scan_char replacement = (length replacement, True)"
  by code_simp

text \<open>Decoding gives well-formed text, and three bytes at most for one.\<close>

lemma lossy_result: "well_formed (from_utf8_lossy s) \<and> length (from_utf8_lossy s) \<le> 3 * length s"
proof (induction s rule: from_utf8_lossy.induct)
  case (1 s)
  show ?case
  proof (cases "s = []")
    case False
    obtain n ok where n: "scan_char s = (n, ok)" by force
    from 1 [OF False refl n [symmetric]] have ih: "well_formed (from_utf8_lossy (drop n s))"
      "length (from_utf8_lossy (drop n s)) \<le> 3 * length (drop n s)" by auto
    have pos: "0 < n" "n \<le> length s" using scan_char_pos [OF False] scan_char_le [of s] n by auto
    show ?thesis
    proof (cases ok)
      case True
      with n have "scan_char (take n s) = (length (take n s), True)" by (simp add: scan_char_take)
      with True ih pos show ?thesis
        by (auto simp: lossy_scan [OF False n] intro: well_formed_char)
    next
      case F: False
      have "length replacement \<le> 3 * n" using pos by (simp add: replacement_def)
      with F ih pos show ?thesis
        by (auto simp: lossy_scan [OF False n] intro: well_formed_char [OF scan_replacement])
    qed
  qed (simp add: well_formed_Nil)
qed

lemmas well_formed_lossy [simp] = conjunct1 [OF lossy_result]
lemmas length_lossy = conjunct2 [OF lossy_result]

end
