(* ===== verification/Sse.thy ===== *)
theory Sse
  imports Framing Utf8
begin

text \<open>
  The server-sent-events parser of \<open>transport/sse.rs\<close>. The parser keeps the bytes of an
  unterminated line and the record it is accumulating; \<open>usize\<close> arithmetic saturates where the
  source saturates it.
\<close>

datatype sse_error = EventTooLarge (limit: nat)

record sse_parser =
  ss_buffer :: string
  ss_pending_event :: "string option"
  ss_has_pending_id :: bool
  ss_pending_data :: string
  ss_has_pending_data :: bool
  ss_pending_bytes :: nat
  ss_max_event_bytes :: nat

definition with_max_event_bytes :: "nat \<Rightarrow> sse_parser" where
  "with_max_event_bytes max_event_bytes =
     \<lparr>ss_buffer = [], ss_pending_event = None, ss_has_pending_id = False, ss_pending_data = [],
      ss_has_pending_data = False, ss_pending_bytes = 0, ss_max_event_bytes = max_event_bytes\<rparr>"

definition newline :: char where "newline = CHR 0x0A"
definition carriage_return :: char where "carriage_return = CHR 0x0D"

definition enforce_cap :: "sse_parser \<Rightarrow> sse_error + unit" where
  "enforce_cap p =
     (if saturating_add (ss_pending_bytes p) (length (ss_buffer p)) > ss_max_event_bytes p
      then Inl (EventTooLarge (ss_max_event_bytes p)) else Inr ())"

definition charge_line :: "sse_parser \<Rightarrow> nat \<Rightarrow> sse_error + sse_parser" where
  "charge_line p line_len =
     (let total = saturating_add (saturating_add (ss_pending_bytes p) line_len) 1 in
      if total > ss_max_event_bytes p then Inl (EventTooLarge (ss_max_event_bytes p))
      else Inr (p\<lparr>ss_pending_bytes := total\<rparr>))"

definition flush_pending :: "sse_parser \<Rightarrow> stream_record list \<times> sse_parser" where
  "flush_pending p =
     (if \<not> ss_has_pending_data p \<and> ss_pending_event p = None \<and> \<not> ss_has_pending_id p
      then ([], p\<lparr>ss_pending_bytes := 0\<rparr>)
      else ([\<lparr>rc_event = ss_pending_event p, rc_data = ss_pending_data p\<rparr>],
            p\<lparr>ss_pending_event := None, ss_pending_data := [], ss_has_pending_id := False,
              ss_has_pending_data := False, ss_pending_bytes := 0\<rparr>))"

definition split_once :: "char \<Rightarrow> string \<Rightarrow> (string \<times> string) option" where
  "split_once c s =
     (if c \<in> set s then Some (takeWhile (\<lambda>x. x \<noteq> c) s, tl (dropWhile (\<lambda>x. x \<noteq> c) s)) else None)"

definition strip_space :: "string \<Rightarrow> string" where
  "strip_space rest = (case rest of c # rest' \<Rightarrow> if c = CHR '' '' then rest' else rest | [] \<Rightarrow> [])"

definition field_of :: "string \<Rightarrow> string \<times> string" where
  "field_of line = (case split_once (CHR '':'') line of
     Some (field, rest) \<Rightarrow> (field, strip_space rest)
   | None \<Rightarrow> (line, []))"

definition handle_line :: "sse_parser \<Rightarrow> string \<Rightarrow> stream_record list \<times> sse_parser" where
  "handle_line p line =
     (if line = [] then flush_pending p
      else case field_of line of (field, value) \<Rightarrow>
        if field = ''data'' then
          ([], p\<lparr>ss_pending_data := (if ss_has_pending_data p then ss_pending_data p @ [newline]
                                       else ss_pending_data p) @ value,
                 ss_has_pending_data := True\<rparr>)
        else if field = ''event'' then ([], p\<lparr>ss_pending_event := Some value\<rparr>)
        else if field = ''id'' then ([], p\<lparr>ss_has_pending_id := True\<rparr>)
        else ([], p))"

text \<open>The bytes of a line, less the newline at \<open>nl\<close> and a carriage return before it.\<close>

definition line_of :: "nat \<Rightarrow> string \<Rightarrow> string" where
  "line_of nl bytes = take (if nl > 0 \<and> bytes ! (nl - 1) = carriage_return then nl - 1 else nl) bytes"

text \<open>
  The loop of \<open>feed\<close> over the complete lines of the bytes; the bytes after the last newline are left.
\<close>

function feed_lines :: "sse_parser \<Rightarrow> string \<Rightarrow> sse_error + (stream_record list \<times> string \<times> sse_parser)" where
  "feed_lines p bytes =
     (case position (\<lambda>b. b = newline) bytes of
        None \<Rightarrow> Inr ([], bytes, p)
      | Some nl \<Rightarrow>
          bindR (charge_line p nl) (\<lambda>p'.
          case handle_line p' (from_utf8_lossy (line_of nl bytes)) of (out, q) \<Rightarrow>
          bindR (feed_lines q (drop (Suc nl) bytes)) (\<lambda>(out', rest, q').
          Inr (out @ out', rest, q'))))"
  by auto

termination
  by (relation "measure (length \<circ> snd)") (auto dest!: position_length)

declare feed_lines.simps [simp del]

definition sse_feed :: "sse_parser \<Rightarrow> string \<Rightarrow> sse_error + (stream_record list \<times> sse_parser)" where
  "sse_feed p chunk =
     bindR (feed_lines p (ss_buffer p @ chunk)) (\<lambda>(out, rest, q).
     let q' = q\<lparr>ss_buffer := rest\<rparr> in
     bindR (enforce_cap q') (\<lambda>_. Inr (out, q')))"

definition sse_finish :: "sse_parser \<Rightarrow> sse_error + (stream_record list \<times> sse_parser)" where
  "sse_finish p =
     bindR (enforce_cap p) (\<lambda>_.
     bindR (if ss_buffer p = [] then Inr ([], p)
            else bindR (charge_line p (length (ss_buffer p) - 1)) (\<lambda>q.
              Inr (handle_line (q\<lparr>ss_buffer := []\<rparr>) (from_utf8_lossy (ss_buffer p)))))
       (\<lambda>(out, q). case flush_pending q of (out', q') \<Rightarrow> Inr (out @ out', q')))"

subsection \<open>Chunks do not matter\<close>

lemma position_append:
  "position P (xs @ ys) = (case position P xs of
     Some i \<Rightarrow> Some i | None \<Rightarrow> map_option (\<lambda>i. length xs + i) (position P ys))"
proof (induction xs)
  case Nil
  show ?case by (cases "position P ys") simp_all
next
  case (Cons x xs)
  then show ?case by (cases "position P xs"; cases "position P ys") simp_all
qed

lemma feed_lines_None: "position (\<lambda>b. b = newline) bytes = None \<Longrightarrow> feed_lines p bytes = Inr ([], bytes, p)"
  by (subst feed_lines.simps) simp

lemma feed_lines_refused:
  "position (\<lambda>b. b = newline) bytes = Some nl \<Longrightarrow> charge_line p nl = Inl e \<Longrightarrow> feed_lines p bytes = Inl e"
  by (subst feed_lines.simps) simp

lemma feed_lines_line:
  "position (\<lambda>b. b = newline) bytes = Some nl \<Longrightarrow> charge_line p nl = Inr p' \<Longrightarrow>
   handle_line p' (from_utf8_lossy (line_of nl bytes)) = (out, q) \<Longrightarrow>
   feed_lines p bytes = bindR (feed_lines q (drop (Suc nl) bytes)) (\<lambda>(out', rest, q'). Inr (out @ out', rest, q'))"
  by (subst feed_lines.simps) simp

lemma line_of_append: "nl < length a \<Longrightarrow> line_of nl (a @ b) = line_of nl a"
  using less_imp_diff_less [of nl "length a" 1] by (simp add: line_of_def nth_append)

text \<open>How the loop runs: no line is left, a line is over the cap, or a line is handled.\<close>

lemma feed_lines_cases [case_names no_line refused line]:
  assumes "position (\<lambda>b. b = newline) bytes = None \<Longrightarrow> thesis"
    and "\<And>nl e. position (\<lambda>b. b = newline) bytes = Some nl \<Longrightarrow> charge_line p nl = Inl e \<Longrightarrow> thesis"
    and "\<And>nl p' out q. position (\<lambda>b. b = newline) bytes = Some nl \<Longrightarrow> charge_line p nl = Inr p' \<Longrightarrow>
      handle_line p' (from_utf8_lossy (line_of nl bytes)) = (out, q) \<Longrightarrow> thesis"
  shows thesis
proof (cases "position (\<lambda>b. b = newline) bytes")
  case (Some nl)
  then show ?thesis
    using assms(2,3) by (cases "charge_line p nl") (metis, metis surj_pair)
qed (use assms(1) in blast)

lemma feed_lines_append:
  "feed_lines p (a @ b) = bindR (feed_lines p a) (\<lambda>(out, rest, q).
     bindR (feed_lines q (rest @ b)) (\<lambda>(out', rest', q'). Inr (out @ out', rest', q')))"
proof (induction p a rule: feed_lines.induct)
  case (1 p a)
  show ?case
  proof (cases rule: feed_lines_cases [where bytes = a and p = p])
    case no_line
    then show ?thesis by (cases "feed_lines p (a @ b)") (auto simp: feed_lines_None)
  next
    case (refused nl e)
    then have "position (\<lambda>b. b = newline) (a @ b) = Some nl" by (simp add: position_append)
    with refused show ?thesis by (simp add: feed_lines_refused)
  next
    case (line nl p' out q)
    then have nl: "nl < length a" "position (\<lambda>b. b = newline) (a @ b) = Some nl"
      by (simp_all add: position_append position_length)
    have "feed_lines p (a @ b) = bindR (feed_lines q (drop (Suc nl) a @ b)) (\<lambda>(out', rest, q'). Inr (out @ out', rest, q'))"
      using feed_lines_line [OF nl(2) line(2), of out q] nl(1) line(3) by (simp add: line_of_append)
    then show ?thesis
      unfolding feed_lines_line [OF line] "1" [OF line(1) line(3) [symmetric]]
      by (auto simp: bindR_def split: sum.splits prod.splits)
  qed
qed

text \<open>What is left of the bytes holds no newline, and the buffer is not looked at.\<close>

lemma feed_lines_rest: "feed_lines p bytes = Inr (out, rest, q) \<Longrightarrow> newline \<notin> set rest"
proof (induction p bytes arbitrary: out rest q rule: feed_lines.induct)
  case (1 p bytes)
  show ?case
  proof (cases rule: feed_lines_cases [where bytes = bytes and p = p])
    case no_line
    with "1.prems" show ?thesis using position_None_iff [of "\<lambda>b. b = newline" bytes]
      by (auto simp: feed_lines_None)
  next
    case (line nl p' out' q')
    from "1.IH" [OF line(1) line(3) [symmetric]] "1.prems" show ?thesis
      unfolding feed_lines_line [OF line] by (auto simp: bindR_Inr_iff)
  qed (use "1.prems" in \<open>simp add: feed_lines_refused\<close>)
qed

lemma charge_line_buffer:
  "charge_line (p\<lparr>ss_buffer := x\<rparr>) n = bindR (charge_line p n) (\<lambda>q. Inr (q\<lparr>ss_buffer := x\<rparr>))"
  by (simp add: charge_line_def Let_def)

lemma handle_line_buffer:
  "handle_line (p\<lparr>ss_buffer := x\<rparr>) l = (case handle_line p l of (out, q) \<Rightarrow> (out, q\<lparr>ss_buffer := x\<rparr>))"
  by (simp add: handle_line_def flush_pending_def split: prod.split)

lemma feed_lines_buffer:
  "feed_lines (p\<lparr>ss_buffer := x\<rparr>) bytes =
     bindR (feed_lines p bytes) (\<lambda>(out, rest, q). Inr (out, rest, q\<lparr>ss_buffer := x\<rparr>))"
proof (induction p bytes rule: feed_lines.induct)
  case (1 p bytes)
  show ?case
  proof (cases rule: feed_lines_cases [where bytes = bytes and p = p])
    case (refused nl e)
    then have "charge_line (p\<lparr>ss_buffer := x\<rparr>) nl = Inl e" by (simp add: charge_line_buffer)
    with refused show ?thesis by (simp add: feed_lines_refused)
  next
    case (line nl p' out q)
    then have "charge_line (p\<lparr>ss_buffer := x\<rparr>) nl = Inr (p'\<lparr>ss_buffer := x\<rparr>)"
      "handle_line (p'\<lparr>ss_buffer := x\<rparr>) (from_utf8_lossy (line_of nl bytes)) = (out, q\<lparr>ss_buffer := x\<rparr>)"
      by (simp_all add: charge_line_buffer handle_line_buffer)
    from feed_lines_line [OF line(1) this] feed_lines_line [OF line] "1" [OF line(1) line(3) [symmetric]]
    show ?thesis by (auto simp: bindR_def split: sum.splits)
  qed (simp add: feed_lines_None)
qed

text \<open>A line that is over the cap stays over it, however it goes on.\<close>

lemma over_cap_stays:
  assumes "newline \<notin> set rest"
    and "saturating_add (ss_pending_bytes p) (length rest) > ss_max_event_bytes p"
  shows "bindR (feed_lines p (rest @ b)) (\<lambda>(out, rest', q). bindR (enforce_cap (q\<lparr>ss_buffer := rest'\<rparr>))
     (\<lambda>_. Inr (out, q\<lparr>ss_buffer := rest'\<rparr>))) = Inl (EventTooLarge (ss_max_event_bytes p))"
proof (cases "position (\<lambda>b. b = newline) (rest @ b)")
  case None
  moreover have "saturating_add (ss_pending_bytes p) (length rest) \<le> saturating_add (ss_pending_bytes p) (length (rest @ b))"
    by (rule saturating_add_mono) simp_all
  ultimately show ?thesis using assms(2) by (simp add: feed_lines_None enforce_cap_def)
next
  case (Some nl)
  have "position (\<lambda>b. b = newline) rest = None" using assms(1) by (auto simp: position_None_iff)
  with Some have "length rest \<le> nl" by (auto simp: position_append)
  then have "saturating_add (ss_pending_bytes p) (length rest) \<le> saturating_add (saturating_add (ss_pending_bytes p) nl) 1"
    unfolding saturating_add_def by simp
  with assms(2) have "charge_line p nl = Inl (EventTooLarge (ss_max_event_bytes p))"
    by (simp add: charge_line_def Let_def)
  with Some show ?thesis by (simp add: feed_lines_refused)
qed

lemma sse_feed_append: "sse_feed p (a @ b) = and_then (sse_feed p a) (\<lambda>q. sse_feed q b)"
proof (cases "feed_lines p (ss_buffer p @ a)")
  case (Inl e)
  then show ?thesis using feed_lines_append [of p "ss_buffer p @ a" b] by (simp add: sse_feed_def)
next
  case (Inr x)
  obtain out rest q where x: "x = (out, rest, q)" by (cases x)
  with Inr have f: "feed_lines p (ss_buffer p @ a) = Inr (out, rest, q)" by simp
  let ?q = "q\<lparr>ss_buffer := rest\<rparr>"
  have l: "sse_feed p (a @ b) = bindR (feed_lines q (rest @ b)) (\<lambda>(out', rest', q').
      bindR (enforce_cap (q'\<lparr>ss_buffer := rest'\<rparr>)) (\<lambda>_. Inr (out @ out', q'\<lparr>ss_buffer := rest'\<rparr>)))"
    using feed_lines_append [of p "ss_buffer p @ a" b] f
    by (cases "feed_lines q (rest @ b)") (auto simp: sse_feed_def Let_def)
  have r: "sse_feed ?q b = bindR (feed_lines q (rest @ b)) (\<lambda>(out', rest', q').
      bindR (enforce_cap (q'\<lparr>ss_buffer := rest'\<rparr>)) (\<lambda>_. Inr (out', q'\<lparr>ss_buffer := rest'\<rparr>)))"
    by (cases "feed_lines q (rest @ b)") (auto simp: sse_feed_def feed_lines_buffer Let_def)
  show ?thesis
  proof (cases "enforce_cap ?q")
    case (Inr u)
    then have "sse_feed p a = Inr (out, ?q)" by (simp add: sse_feed_def f Let_def)
    then show ?thesis by (simp add: l r and_then_def) (auto simp: bindR_def split: sum.split)
  next
    case (Inl e)
    then have "saturating_add (ss_pending_bytes q) (length rest) > ss_max_event_bytes q"
      and e: "e = EventTooLarge (ss_max_event_bytes q)"
      by (auto simp: enforce_cap_def split: if_splits)
    from over_cap_stays [OF feed_lines_rest [OF f] this(1), of b]
    have "sse_feed p (a @ b) = Inl e" unfolding l e by (auto simp: bindR_def split: sum.splits)
    moreover have "sse_feed p a = Inl e" using Inl by (simp add: sse_feed_def f Let_def)
    ultimately show ?thesis by simp
  qed
qed

interpretation sse: incremental_parser sse_feed
  by unfold_locales (rule sse_feed_append)

subsection \<open>Bounds\<close>

text \<open>What the parser holds of the record it is accumulating, decoded.\<close>

definition held :: "sse_parser \<Rightarrow> nat" where
  "held p = length (ss_pending_data p) + (case ss_pending_event p of None \<Rightarrow> 0 | Some e \<Rightarrow> length e)"

definition record_size :: "stream_record \<Rightarrow> nat" where
  "record_size r = length (rc_data r) + (case rc_event r of None \<Rightarrow> 0 | Some e \<Rightarrow> length e)"

definition flagged :: "sse_parser \<Rightarrow> bool" where
  "flagged p \<longleftrightarrow> ss_has_pending_data p \<or> ss_pending_data p = []"

definition loop_bounded :: "nat \<Rightarrow> sse_parser \<Rightarrow> bool" where
  "loop_bounded m p \<longleftrightarrow> ss_max_event_bytes p = m \<and> ss_pending_bytes p \<le> m
     \<and> held p \<le> 3 * ss_pending_bytes p \<and> flagged p"

definition sse_bounded :: "nat \<Rightarrow> sse_parser \<Rightarrow> bool" where
  "sse_bounded m p \<longleftrightarrow> loop_bounded m p \<and> newline \<notin> set (ss_buffer p)
     \<and> ss_pending_bytes p + length (ss_buffer p) \<le> m"

lemma charge_line_Inr:
  assumes "charge_line p n = Inr q" and "ss_max_event_bytes p < u64_max"
  shows "q = p\<lparr>ss_pending_bytes := ss_pending_bytes p + n + 1\<rparr>" and "ss_pending_bytes p + n + 1 \<le> ss_max_event_bytes p"
  using assms by (auto simp: charge_line_def Let_def saturating_add_def min_def split: if_splits)

lemma length_field_of:
  assumes "field_of line = (field, val)"
  shows "length val \<le> length line"
proof -
  have t: "length (tl (dropWhile P xs)) \<le> length xs" for P and xs :: string
    using length_dropWhile_le [of P xs] by simp
  have s: "length (strip_space r) \<le> length r" for r
    by (auto simp: strip_space_def split: list.split)
  show ?thesis
    using assms by (auto simp: field_of_def split_once_def split: if_splits intro: order_trans [OF s t])
qed

lemma handle_line_bounded:
  assumes "handle_line p line = (out, q)" and "length line \<le> 3 * n" and "held p + 3 * n + 1 \<le> 3 * ss_pending_bytes p"
    and "flagged p"
  shows "flagged q \<and> held q \<le> 3 * ss_pending_bytes q \<and> ss_pending_bytes q \<le> ss_pending_bytes p
     \<and> ss_max_event_bytes q = ss_max_event_bytes p \<and> (\<forall>r \<in> set out. record_size r \<le> 3 * ss_pending_bytes p)"
proof (cases "line = []")
  case True
  with assms show ?thesis
    by (auto simp: handle_line_def flush_pending_def held_def record_size_def flagged_def split: if_splits)
next
  case False
  obtain field val where f: "field_of line = (field, val)" by force
  with length_field_of [OF f] False assms show ?thesis
    by (auto simp: handle_line_def held_def flagged_def split: if_splits option.splits)
qed

lemma feed_lines_bounded:
  assumes "m < u64_max"
  shows "feed_lines p bytes = Inr (out, rest, q) \<Longrightarrow> loop_bounded m p \<Longrightarrow>
     loop_bounded m q \<and> (\<forall>r \<in> set out. record_size r \<le> 3 * m)"
proof (induction p bytes arbitrary: out rest q rule: feed_lines.induct)
  case (1 p bytes)
  show ?case
  proof (cases rule: feed_lines_cases [where bytes = bytes and p = p])
    case (line nl p' out' q')
    have m: "ss_max_event_bytes p = m" using "1.prems"(2) by (simp add: loop_bounded_def)
    with assms have c: "p' = p\<lparr>ss_pending_bytes := ss_pending_bytes p + nl + 1\<rparr>" "ss_pending_bytes p + nl + 1 \<le> m"
      using charge_line_Inr [OF line(2)] by auto
    have "length (line_of nl bytes) \<le> nl" by (auto simp: line_of_def)
    with length_lossy [of "line_of nl bytes"] have "length (from_utf8_lossy (line_of nl bytes)) \<le> 3 * nl" by linarith
    from handle_line_bounded [OF line(3) this] "1.prems"(2) c m
    have h: "loop_bounded m q'" "\<forall>r \<in> set out'. record_size r \<le> 3 * m"
      by (fastforce simp: loop_bounded_def held_def flagged_def)+
    from "1.prems"(1) obtain out2 where
      "feed_lines q' (drop (Suc nl) bytes) = Inr (out2, rest, q)" "out = out' @ out2"
      unfolding feed_lines_line [OF line] by (auto simp: bindR_Inr_iff)
    with "1.IH" [OF line(1) line(3) [symmetric]] h show ?thesis by auto
  qed (use "1.prems" in \<open>auto simp: feed_lines_None feed_lines_refused\<close>)
qed

lemma sse_feed_bounded:
  assumes "m < u64_max" and "sse_bounded m p" and "sse_feed p chunk = Inr (out, q)"
  shows "sse_bounded m q \<and> (\<forall>r \<in> set out. record_size r \<le> 3 * m)"
proof -
  from assms(3) obtain rest r where f: "feed_lines p (ss_buffer p @ chunk) = Inr (out, rest, r)"
    and c: "enforce_cap (r\<lparr>ss_buffer := rest\<rparr>) = Inr ()" and q: "q = r\<lparr>ss_buffer := rest\<rparr>"
    by (auto simp: sse_feed_def bindR_Inr_iff Let_def)
  have b: "loop_bounded m r" "\<forall>r \<in> set out. record_size r \<le> 3 * m"
    using feed_lines_bounded [OF assms(1) f] assms(2) by (auto simp: sse_bounded_def)
  moreover have "ss_pending_bytes r + length rest \<le> m"
    using c b(1) assms(1) by (auto simp: enforce_cap_def loop_bounded_def saturating_add_def min_def split: if_splits)
  ultimately show ?thesis
    using q feed_lines_rest [OF f] by (simp add: sse_bounded_def loop_bounded_def held_def flagged_def)
qed

lemma sse_new_bounded: "sse_bounded m (with_max_event_bytes m)"
  by (simp add: sse_bounded_def loop_bounded_def with_max_event_bytes_def held_def flagged_def)

subsection \<open>Round trip\<close>

text \<open>
  A record as a service writes it: an \<open>event\<close> line when it has a name, a \<open>data\<close> line for
  each line of its payload, and the blank line.
\<close>

definition sse_line :: "string \<Rightarrow> string \<Rightarrow> string" where
  "sse_line field val = field @ '': '' @ val @ [newline]"

definition sse_encode :: "string option \<times> string list \<Rightarrow> string" where
  "sse_encode r = (case fst r of None \<Rightarrow> [] | Some e \<Rightarrow> sse_line ''event'' e)
     @ concat (map (sse_line ''data'') (snd r)) @ [newline]"

fun join_data_lines :: "string list \<Rightarrow> string" where
  "join_data_lines [] = []"
| "join_data_lines [l] = l"
| "join_data_lines (l # ls) = l @ newline # join_data_lines ls"

definition record_of :: "string option \<times> string list \<Rightarrow> stream_record" where
  "record_of r = \<lparr>rc_event = fst r, rc_data = join_data_lines (snd r)\<rparr>"

definition plain_line :: "string \<Rightarrow> bool" where
  "plain_line l \<longleftrightarrow> newline \<notin> set l \<and> (l = [] \<or> last l \<noteq> carriage_return) \<and> well_formed l"

definition encodable :: "string option \<times> string list \<Rightarrow> bool" where
  "encodable r \<longleftrightarrow> snd r \<noteq> [] \<and> list_all plain_line (snd r) \<and> (case fst r of None \<Rightarrow> True | Some e \<Rightarrow> plain_line e)"

text \<open>One line.\<close>

lemma position_first: "x \<notin> set l \<Longrightarrow> position (\<lambda>b. b = x) (l @ x # rest) = Some (length l)"
  by (induction l) auto

lemma line_of_plain: "plain_line l \<Longrightarrow> line_of (length l) (l @ newline # rest) = l"
  by (cases l rule: rev_cases) (auto simp: line_of_def plain_line_def nth_append)

lemma charge_line_ok:
  "ss_pending_bytes p + n + 1 \<le> ss_max_event_bytes p \<Longrightarrow> ss_max_event_bytes p < u64_max \<Longrightarrow>
     charge_line p n = Inr (p\<lparr>ss_pending_bytes := ss_pending_bytes p + n + 1\<rparr>)"
  by (simp add: charge_line_def saturating_add_def Let_def)

lemma feed_plain_line:
  assumes "plain_line l" and "ss_pending_bytes p + length l + 1 \<le> ss_max_event_bytes p" and "ss_max_event_bytes p < u64_max"
    and "handle_line (p\<lparr>ss_pending_bytes := ss_pending_bytes p + length l + 1\<rparr>) l = (out, q)"
  shows "feed_lines p (l @ newline # rest) = bindR (feed_lines q rest) (\<lambda>(out', rest', q'). Inr (out @ out', rest', q'))"
proof -
  have nl: "position (\<lambda>b. b = newline) (l @ newline # rest) = Some (length l)"
    using assms(1) by (simp add: plain_line_def position_first)
  have "handle_line (p\<lparr>ss_pending_bytes := ss_pending_bytes p + length l + 1\<rparr>)
      (from_utf8_lossy (line_of (length l) (l @ newline # rest))) = (out, q)"
    using assms(1,4) by (simp add: line_of_plain) (simp add: plain_line_def)
  from feed_lines_line [OF nl charge_line_ok [OF assms(2,3)] this] show ?thesis by simp
qed

lemma plain_prefix:
  assumes "plain_line l" and "\<forall>c \<in> set pre. (of_char c :: nat) < 128 \<and> c \<noteq> newline \<and> c \<noteq> carriage_return"
  shows "plain_line (pre @ l)"
proof -
  have "well_formed (pre @ l)"
    using assms by (intro well_formed_append [OF well_formed_ascii]) (auto simp: plain_line_def)
  moreover have "last (pre @ l) \<noteq> carriage_return" if "pre @ l \<noteq> []"
    using assms that by (cases "l = []") (auto simp: plain_line_def last_in_set)
  ultimately show ?thesis using assms unfolding plain_line_def by auto
qed

lemma plain_fields:
  "plain_line l \<Longrightarrow> plain_line (''data: '' @ l)" "plain_line l \<Longrightarrow> plain_line (''event: '' @ l)"
  by (rule plain_prefix; simp add: newline_def carriage_return_def)+

lemma field_lines: "field_of (''data: '' @ l) = (''data'', l)" "field_of (''event: '' @ l) = (''event'', l)"
  by (simp_all add: field_of_def split_once_def strip_space_def)

text \<open>The lines of one record, and records one after the other.\<close>

definition push_data :: "sse_parser \<Rightarrow> string \<Rightarrow> sse_parser" where
  "push_data p l = p\<lparr>ss_pending_bytes := ss_pending_bytes p + length l + 7,
     ss_pending_data := (if ss_has_pending_data p then ss_pending_data p @ [newline] else ss_pending_data p) @ l,
     ss_has_pending_data := True\<rparr>"

lemma feed_data_line:
  assumes "plain_line l" and "ss_pending_bytes p + length l + 7 \<le> ss_max_event_bytes p" and "ss_max_event_bytes p < u64_max"
  shows "feed_lines p (sse_line ''data'' l @ rest) = feed_lines (push_data p l) rest"
proof -
  let ?l = "''data: '' @ l"
  have "handle_line (p\<lparr>ss_pending_bytes := ss_pending_bytes p + length ?l + 1\<rparr>) ?l = ([], push_data p l)"
    using field_lines(1) [of l] by (simp add: handle_line_def push_data_def)
  from feed_plain_line [OF plain_fields(1) [OF assms(1)] _ assms(3) this] assms(2)
  have "feed_lines p (?l @ newline # rest) = bindR (feed_lines (push_data p l) rest) (\<lambda>(out', rest', q'). Inr ([] @ out', rest', q'))"
    by simp
  then show ?thesis by (simp add: sse_line_def) (simp add: bindR_def split: sum.split)
qed

lemma feed_data_lines:
  assumes "list_all plain_line ls" and "ss_pending_bytes p + length (concat (map (sse_line ''data'') ls)) \<le> ss_max_event_bytes p"
    and "ss_max_event_bytes p < u64_max"
  shows "feed_lines p (concat (map (sse_line ''data'') ls) @ rest) = feed_lines (foldl push_data p ls) rest"
  using assms
proof (induction ls arbitrary: p)
  case (Cons l ls)
  have len: "length (sse_line ''data'' l) = length l + 7" by (simp add: sse_line_def)
  with Cons.prems have "feed_lines p (sse_line ''data'' l @ concat (map (sse_line ''data'') ls) @ rest)
      = feed_lines (push_data p l) (concat (map (sse_line ''data'') ls) @ rest)"
    by (intro feed_data_line) auto
  moreover have "feed_lines (push_data p l) (concat (map (sse_line ''data'') ls) @ rest) = feed_lines (foldl push_data (push_data p l) ls) rest"
    using Cons.prems len by (intro Cons.IH) (auto simp: push_data_def)
  ultimately show ?case by simp
qed simp

lemma push_data_lines:
  "ls \<noteq> [] \<Longrightarrow> foldl push_data p ls = p\<lparr>ss_pending_bytes := ss_pending_bytes p + length (concat (map (sse_line ''data'') ls)),
     ss_pending_data := (if ss_has_pending_data p then ss_pending_data p @ [newline] else ss_pending_data p) @ join_data_lines ls,
     ss_has_pending_data := True\<rparr>"
proof (induction ls arbitrary: p)
  case (Cons l ls)
  show ?case
  proof (cases "ls = []")
    case False
    then show ?thesis using Cons.IH [OF False, of "push_data p l"] by (cases ls) (simp_all add: push_data_def sse_line_def)
  qed (simp add: push_data_def sse_line_def)
qed simp

text \<open>A parser between two records.\<close>

definition idle_parser :: "nat \<Rightarrow> sse_parser \<Rightarrow> bool" where
  "idle_parser m p \<longleftrightarrow> ss_pending_event p = None \<and> \<not> ss_has_pending_id p \<and> ss_pending_data p = []
     \<and> \<not> ss_has_pending_data p \<and> ss_pending_bytes p = 0 \<and> ss_max_event_bytes p = m"

lemma idle_parser_new: "idle_parser m p \<Longrightarrow> (with_max_event_bytes m)\<lparr>ss_buffer := ss_buffer p\<rparr> = p"
  by (simp add: idle_parser_def with_max_event_bytes_def)

lemma feed_blank:
  assumes "ss_has_pending_data p" and "ss_pending_bytes p + 1 \<le> ss_max_event_bytes p" and "ss_max_event_bytes p < u64_max"
  shows "feed_lines p (newline # rest) = bindR (feed_lines ((with_max_event_bytes (ss_max_event_bytes p))\<lparr>ss_buffer := ss_buffer p\<rparr>) rest)
     (\<lambda>(out, rest', q). Inr (\<lparr>rc_event = ss_pending_event p, rc_data = ss_pending_data p\<rparr> # out, rest', q))"
proof -
  have "plain_line []" by (simp add: plain_line_def well_formed_Nil)
  moreover have "handle_line (p\<lparr>ss_pending_bytes := ss_pending_bytes p + length [] + 1\<rparr>) [] =
      ([\<lparr>rc_event = ss_pending_event p, rc_data = ss_pending_data p\<rparr>], (with_max_event_bytes (ss_max_event_bytes p))\<lparr>ss_buffer := ss_buffer p\<rparr>)"
    using assms(1) by (simp add: handle_line_def flush_pending_def with_max_event_bytes_def)
  ultimately have "feed_lines p ([] @ newline # rest) = bindR (feed_lines ((with_max_event_bytes (ss_max_event_bytes p))\<lparr>ss_buffer := ss_buffer p\<rparr>) rest)
     (\<lambda>(out, rest', q). Inr ([\<lparr>rc_event = ss_pending_event p, rc_data = ss_pending_data p\<rparr>] @ out, rest', q))"
    using assms(2,3) by (intro feed_plain_line) simp_all
  then show ?thesis by simp
qed

lemma feed_event_line:
  assumes "plain_line e" and "ss_pending_bytes p + length e + 8 \<le> ss_max_event_bytes p" and "ss_max_event_bytes p < u64_max"
  shows "feed_lines p (sse_line ''event'' e @ rest) =
    feed_lines (p\<lparr>ss_pending_bytes := ss_pending_bytes p + length e + 8, ss_pending_event := Some e\<rparr>) rest"
proof -
  let ?l = "''event: '' @ e"
  have "handle_line (p\<lparr>ss_pending_bytes := ss_pending_bytes p + length ?l + 1\<rparr>) ?l =
      ([], p\<lparr>ss_pending_bytes := ss_pending_bytes p + length e + 8, ss_pending_event := Some e\<rparr>)"
    using field_lines(2) [of e] by (simp add: handle_line_def)
  from feed_plain_line [OF plain_fields(2) [OF assms(1)] _ assms(3) this, of rest] assms(2)
  show ?thesis by (simp add: sse_line_def) (simp add: bindR_def split: sum.split)
qed

lemma feed_record:
  assumes "encodable r" and "length (sse_encode r) \<le> m" and "m < u64_max" and "idle_parser m p"
  shows "feed_lines p (sse_encode r @ rest) = bindR (feed_lines p rest) (\<lambda>(out, rest', q). Inr (record_of r # out, rest', q))"
proof -
  obtain ev ls where r: "r = (ev, ls)" by force
  have p: "ss_pending_bytes p = 0" "ss_max_event_bytes p = m" "\<not> ss_has_pending_data p" "ss_pending_data p = []"
    "ss_pending_event p = None" "(with_max_event_bytes m)\<lparr>ss_buffer := ss_buffer p\<rparr> = p"
    using assms(4) idle_parser_new [OF assms(4)] by (auto simp: idle_parser_def)
  let ?d = "concat (map (sse_line ''data'') ls)"
  define q where "q = (case ev of None \<Rightarrow> p | Some e \<Rightarrow> p\<lparr>ss_pending_bytes := length e + 8, ss_pending_event := Some e\<rparr>)"
  have q: "ss_pending_event q = ev" "\<not> ss_has_pending_data q" "ss_pending_data q = []" "ss_max_event_bytes q = m"
    "ss_buffer q = ss_buffer p" "ss_pending_bytes q + length ?d + 1 \<le> m"
    using p assms(2) by (auto simp: q_def r sse_encode_def sse_line_def split: option.split)
  have "feed_lines p (sse_encode r @ rest) = feed_lines q (?d @ newline # rest)"
  proof (cases ev)
    case (Some e)
    then show ?thesis
      using assms p feed_event_line [of e p] by (simp add: r sse_encode_def q_def encodable_def sse_line_def)
  qed (simp add: r sse_encode_def q_def)
  also have "\<dots> = feed_lines (foldl push_data q ls) (newline # rest)"
    using assms(1,3) q by (intro feed_data_lines) (auto simp: r encodable_def)
  also have "\<dots> = bindR (feed_lines p rest) (\<lambda>(out, rest', q). Inr (record_of r # out, rest', q))"
    using assms(1,3) q p(6) by (subst feed_blank) (auto simp: push_data_lines r encodable_def record_of_def)
  finally show ?thesis .
qed

lemma feed_records:
  assumes "list_all encodable rs" and "list_all (\<lambda>r. length (sse_encode r) \<le> m) rs" and "m < u64_max" and "idle_parser m p"
  shows "feed_lines p (concat (map sse_encode rs)) = Inr (map record_of rs, [], p)"
  using assms(1,2)
proof (induction rs)
  case Nil
  show ?case by (simp add: feed_lines_None)
next
  case (Cons r rs)
  then show ?case using feed_record [OF _ _ assms(3,4), of r] by simp
qed

lemma sse_round_trip_whole:
  assumes "list_all encodable rs" and "list_all (\<lambda>r. length (sse_encode r) \<le> m) rs" and "m < u64_max"
  shows "sse_feed (with_max_event_bytes m) (concat (map sse_encode rs)) = Inr (map record_of rs, with_max_event_bytes m)"
proof -
  have "idle_parser m (with_max_event_bytes m)" by (simp add: idle_parser_def with_max_event_bytes_def)
  from feed_records [OF assms this] show ?thesis
    by (simp add: sse_feed_def with_max_event_bytes_def enforce_cap_def saturating_add_def Let_def)
qed

end
