(* ===== verification/Event_Stream.thy ===== *)
theory Event_Stream
  imports Framing Utf8 "HOL-Library.Word"
begin

unbundle bit_operations_syntax

text \<open>
  The parser of the binary AWS event-stream framing, \<open>transport/aws_eventstream.rs\<close>. Multi-byte
  integers are big-endian; the checksum is computed on 32-bit words; lengths are \<open>usize\<close>, which the
  sums of \<open>u32\<close> values here never exceed.
\<close>

subsection \<open>Big-endian integers\<close>

definition be_nat :: "string \<Rightarrow> nat" where
  "be_nat bs = foldl (\<lambda>n c. n * 256 + of_char c) 0 bs"

lemma byte_less: "(of_char c :: nat) < 256"
  using mod_less_divisor [of 256 "of_char c :: nat"] by (simp del: mod_less_divisor)

text \<open>\<open>iN::from_be_bytes\<close>, for \<open>w\<close> bytes.\<close>

definition be_int :: "nat \<Rightarrow> string \<Rightarrow> int" where
  "be_int w bs = (if be_nat bs < 2 ^ (8 * w - 1) then int (be_nat bs) else int (be_nat bs) - 2 ^ (8 * w))"

subsection \<open>Frames\<close>

datatype event_stream_value =
    EsBool bool
  | EsByte char
  | EsShort int
  | EsInt int
  | EsLong int
  | EsByteArray string
  | EsString string
  | EsTimestamp int
  | EsUuid string

fun value_as_str :: "event_stream_value \<Rightarrow> string option" where
  "value_as_str (EsString v) = Some v"
| "value_as_str _ = None"

record event_stream_frame =
  es_headers :: "(string \<times> event_stream_value) list"
  es_payload :: string

definition get_string_header :: "event_stream_frame \<Rightarrow> string \<Rightarrow> string option" where
  "get_string_header frame name =
     Option.bind (find (\<lambda>(key, _). key = name) (es_headers frame)) (\<lambda>(_, v). value_as_str v)"

datatype event_stream_error =
    CrcMismatch
  | FrameTooLarge (frame_limit: nat)
  | BadValueType (value_type: nat)
  | TruncatedHeader
  | TruncatedPrelude

subsection \<open>The checksum\<close>

definition crc_bit :: "32 word \<Rightarrow> 32 word" where
  "crc_bit crc = (if crc AND 1 \<noteq> 0 then drop_bit 1 crc XOR 0xEDB88320 else drop_bit 1 crc)"

definition crc_byte :: "32 word \<Rightarrow> char \<Rightarrow> 32 word" where
  "crc_byte crc b = (crc_bit ^^ 8) (crc XOR of_char b)"

definition crc32 :: "string \<Rightarrow> 32 word" where
  "crc32 bytes = NOT (foldl crc_byte 0xFFFFFFFF bytes)"

subsection \<open>Headers\<close>

text \<open>\<open>take\<close>, with what it leaves.\<close>

definition take_bytes :: "string \<Rightarrow> nat \<Rightarrow> event_stream_error + (string \<times> string)" where
  "take_bytes sect len =
     (if length sect < len then Inl TruncatedHeader else Inr (take len sect, drop len sect))"

definition take_sized :: "string \<Rightarrow> event_stream_error + (string \<times> string)" where
  "take_sized sect = bindR (take_bytes sect 2) (\<lambda>(size, rest). take_bytes rest (be_nat size))"

definition take_value :: "nat \<Rightarrow> string \<Rightarrow> event_stream_error + (event_stream_value \<times> string)" where
  "take_value type sect =
     (if type = 0 then Inr (EsBool True, sect)
      else if type = 1 then Inr (EsBool False, sect)
      else if type = 2 then bindR (take_bytes sect 1) (\<lambda>(v, rest). Inr (EsByte (hd v), rest))
      else if type = 3 then bindR (take_bytes sect 2) (\<lambda>(v, rest). Inr (EsShort (be_int 2 v), rest))
      else if type = 4 then bindR (take_bytes sect 4) (\<lambda>(v, rest). Inr (EsInt (be_int 4 v), rest))
      else if type = 5 then bindR (take_bytes sect 8) (\<lambda>(v, rest). Inr (EsLong (be_int 8 v), rest))
      else if type = 6 then bindR (take_sized sect) (\<lambda>(v, rest). Inr (EsByteArray v, rest))
      else if type = 7 then bindR (take_sized sect) (\<lambda>(v, rest). Inr (EsString (from_utf8_lossy v), rest))
      else if type = 8 then bindR (take_bytes sect 8) (\<lambda>(v, rest). Inr (EsTimestamp (be_int 8 v), rest))
      else if type = 9 then bindR (take_bytes sect 16) (\<lambda>(v, rest). Inr (EsUuid v, rest))
      else Inl (BadValueType type))"

lemma take_bytes_Inr:
  "take_bytes s n = Inr (v, rest) \<longleftrightarrow> n \<le> length s \<and> v = take n s \<and> rest = drop n s"
  by (auto simp: take_bytes_def)

lemma take_value_shrinks: "take_value type s = Inr (v, rest) \<Longrightarrow> length rest \<le> length s"
  by (auto simp: take_value_def take_sized_def bindR_Inr_iff take_bytes_Inr split: if_splits)

lemma bindR_cong [fundef_cong]:
  "r = s \<Longrightarrow> (\<And>x. s = Inr x \<Longrightarrow> f x = g x) \<Longrightarrow> bindR r f = bindR s g"
  by (cases s) simp_all

function parse_headers :: "string \<Rightarrow> event_stream_error + (string \<times> event_stream_value) list" where
  "parse_headers sect =
     (if sect = [] then Inr []
      else let name_len = of_char (hd sect) in
        if length sect < 1 + name_len + 1 then Inl TruncatedHeader
        else bindR (take_value (of_char (sect ! (1 + name_len))) (drop (1 + name_len + 1) sect)) (\<lambda>(v, rest).
          bindR (parse_headers rest) (\<lambda>headers.
          Inr ((from_utf8_lossy (take name_len (drop 1 sect)), v) # headers))))"
  by auto

termination
  by (relation "measure length") (auto dest!: take_value_shrinks)

declare parse_headers.simps [simp del]

subsection \<open>The parser\<close>

definition prelude_len :: nat where "prelude_len = 4 + 4 + 4"
definition min_frame :: nat where "min_frame = prelude_len + 4"

definition parse_frame :: "string \<Rightarrow> event_stream_error + event_stream_frame" where
  "parse_frame bytes =
     (let total = be_nat (take 4 bytes);
          headers_len = be_nat (take 4 (drop 4 bytes));
          prelude_crc = of_nat (be_nat (take 4 (drop 8 bytes)));
          message_crc = of_nat (be_nat (take 4 (drop (total - 4) bytes)))
      in if crc32 (take 8 bytes) \<noteq> prelude_crc then Inl CrcMismatch
         else if crc32 (take (total - 4) bytes) \<noteq> message_crc then Inl CrcMismatch
         else let headers_end = prelude_len + headers_len in
           if headers_end + 4 > total then Inl TruncatedHeader
           else bindR (parse_headers (take headers_len (drop prelude_len bytes))) (\<lambda>headers.
             Inr \<lparr>es_headers = headers, es_payload = take (total - 4 - headers_end) (drop headers_end bytes)\<rparr>))"

record event_stream_parser =
  ep_buffer :: string
  ep_max_frame :: nat

definition with_max_frame :: "nat \<Rightarrow> event_stream_parser" where
  "with_max_frame max_frame = \<lparr>ep_buffer = [], ep_max_frame = max_frame\<rparr>"

text \<open>The loop of \<open>feed\<close>: the whole frames at the front of the buffer, and what they leave.\<close>

function feed_frames :: "nat \<Rightarrow> string \<Rightarrow> event_stream_error + (event_stream_frame list \<times> string)" where
  "feed_frames max_frame buffer =
     (if length buffer < min_frame then Inr ([], buffer)
      else let total = be_nat (take 4 buffer) in
        if total < min_frame then Inl TruncatedPrelude
        else if total > max_frame then Inl (FrameTooLarge max_frame)
        else if length buffer < total then Inr ([], buffer)
        else bindR (parse_frame (take total buffer)) (\<lambda>frame.
          bindR (feed_frames max_frame (drop total buffer)) (\<lambda>(out, rest).
          Inr (frame # out, rest))))"
  by auto

termination
  by (relation "measure (length \<circ> snd)") (auto simp: min_frame_def prelude_len_def)

declare feed_frames.simps [simp del]

definition es_feed ::
  "event_stream_parser \<Rightarrow> string \<Rightarrow> event_stream_error + (event_stream_frame list \<times> event_stream_parser)" where
  "es_feed p bytes = bindR (feed_frames (ep_max_frame p) (ep_buffer p @ bytes)) (\<lambda>(out, rest).
     Inr (out, p\<lparr>ep_buffer := rest\<rparr>))"

definition es_finish :: "event_stream_parser \<Rightarrow> event_stream_error + unit" where
  "es_finish p = (if ep_buffer p = [] then Inr () else Inl TruncatedPrelude)"

definition decode_record :: "event_stream_frame \<Rightarrow> stream_record option" where
  "decode_record frame =
     (if get_string_header frame '':message-type'' = Some ''exception'' then
        let exception = (case get_string_header frame '':exception-type'' of
              Some e \<Rightarrow> e | None \<Rightarrow> ''UnknownException'')
        in Some \<lparr>rc_event = Some (''__exception:'' @ exception), rc_data = from_utf8_lossy (es_payload frame)\<rparr>
      else case get_string_header frame '':event-type'' of
        None \<Rightarrow> None
      | Some event \<Rightarrow>
          if event = ''ping'' then None
          else Some \<lparr>rc_event = Some event, rc_data = from_utf8_lossy (es_payload frame)\<rparr>)"

subsection \<open>Chunks do not matter\<close>

lemma feed_frames_frame:
  assumes "be_nat (take 4 buf) = t" and "min_frame \<le> t" and "t \<le> m" and "t \<le> length buf"
  shows "feed_frames m buf = bindR (parse_frame (take t buf)) (\<lambda>frame.
     bindR (feed_frames m (drop t buf)) (\<lambda>(out, rest). Inr (frame # out, rest)))"
  using assms by (subst feed_frames.simps) (simp add: Let_def)

lemma feed_frames_append:
  "feed_frames m (a @ b) = bindR (feed_frames m a) (\<lambda>(out, rest).
     bindR (feed_frames m (rest @ b)) (\<lambda>(out', rest'). Inr (out @ out', rest')))"
proof (induction m a rule: feed_frames.induct)
  case (1 m a)
  let ?t = "be_nat (take 4 a)"
  have wait: ?case if "feed_frames m a = Inr ([], a)"
    using that by (cases "feed_frames m (a @ b)") auto
  show ?case
  proof (cases "length a < min_frame")
    case True
    then show ?thesis by (intro wait) (subst feed_frames.simps, simp)
  next
    case F: False
    then have t: "take 4 (a @ b) = take 4 a" "\<not> length (a @ b) < min_frame"
      by (auto simp: min_frame_def prelude_len_def)
    show ?thesis
    proof (cases "?t < min_frame \<or> ?t > m")
      case True
      with F t show ?thesis by (subst (1 2) feed_frames.simps) (auto simp: Let_def)
    next
      case ok: False
      show ?thesis
      proof (cases "length a < ?t")
        case True
        with F ok show ?thesis by (intro wait) (subst feed_frames.simps, simp add: Let_def)
      next
        case len: False
        then have d: "take ?t (a @ b) = take ?t a" "drop ?t (a @ b) = drop ?t a @ b" by simp_all
        have l: "feed_frames m a = bindR (parse_frame (take ?t a)) (\<lambda>frame. bindR (feed_frames m (drop ?t a)) (\<lambda>(out, rest). Inr (frame # out, rest)))"
          using ok len by (intro feed_frames_frame) auto
        have "feed_frames m (a @ b) = bindR (parse_frame (take ?t (a @ b))) (\<lambda>frame. bindR (feed_frames m (drop ?t (a @ b))) (\<lambda>(out, rest). Inr (frame # out, rest)))"
          by (rule feed_frames_frame) (use ok len t(1) in auto)
        then have r: "feed_frames m (a @ b) = bindR (parse_frame (take ?t a)) (\<lambda>frame. bindR (feed_frames m (drop ?t a @ b)) (\<lambda>(out, rest). Inr (frame # out, rest)))"
          unfolding d .
        show ?thesis
        proof (cases "parse_frame (take ?t a)")
          case (Inr frame)
          have ih: "feed_frames m (drop ?t a @ b) = bindR (feed_frames m (drop ?t a)) (\<lambda>(out, rest).
              bindR (feed_frames m (rest @ b)) (\<lambda>(out', rest'). Inr (out @ out', rest')))"
            by (rule 1) (use F ok len Inr in auto)
          show ?thesis unfolding l r Inr ih by (auto simp: bindR_def split: sum.splits)
        qed (simp add: l r)
      qed
    qed
  qed
qed

lemma es_feed_append: "es_feed p (a @ b) = and_then (es_feed p a) (\<lambda>q. es_feed q b)"
  using feed_frames_append [of "ep_max_frame p" "ep_buffer p @ a" b]
  by (cases "feed_frames (ep_max_frame p) (ep_buffer p @ a)")
    (auto simp: es_feed_def and_then_def bindR_def split: sum.splits)

interpretation es: incremental_parser es_feed
  by unfold_locales (rule es_feed_append)

subsection \<open>Every byte belongs to a frame\<close>

definition frame_bytes :: "nat \<Rightarrow> string \<Rightarrow> event_stream_frame \<Rightarrow> bool" where
  "frame_bytes m seg frame \<longleftrightarrow> parse_frame seg = Inr frame \<and> be_nat (take 4 seg) = length seg
     \<and> min_frame \<le> length seg \<and> length seg \<le> m"

lemma feed_frames_cut:
  "feed_frames m buf = Inr (out, rest) \<Longrightarrow>
     (\<exists>segs. buf = concat segs @ rest \<and> list_all2 (frame_bytes m) segs out) \<and> length rest \<le> max min_frame m"
proof (induction m buf arbitrary: out rest rule: feed_frames.induct)
  case (1 m buf)
  let ?t = "be_nat (take 4 buf)"
  have wait: ?case if "out = []" "rest = buf" "length buf \<le> max min_frame m"
    using that by auto
  show ?case
  proof (cases "length buf < min_frame \<or> ?t < min_frame \<or> ?t > m \<or> length buf < ?t")
    case True
    with "1.prems" show ?thesis
      by (intro wait) (subst (asm) feed_frames.simps, auto simp: Let_def split: if_splits)+
  next
    case False
    then obtain frame out' where f: "parse_frame (take ?t buf) = Inr frame" "out = frame # out'"
      "feed_frames m (drop ?t buf) = Inr (out', rest)"
      using "1.prems" feed_frames_frame [of buf ?t m] by (auto simp: bindR_Inr_iff)
    from "1.IH" [OF _ refl _ _ _ f(1) f(3)] False obtain segs where
      s: "drop ?t buf = concat segs @ rest" "list_all2 (frame_bytes m) segs out'" "length rest \<le> max min_frame m"
      by auto
    have "buf = concat (take ?t buf # segs) @ rest" using s(1) by simp (metis append_take_drop_id)
    moreover have "take 4 (take ?t buf) = take 4 buf" using False by (simp add: min_frame_def prelude_len_def)
    then have "frame_bytes m (take ?t buf) frame" using f(1) False by (simp add: frame_bytes_def)
    ultimately show ?thesis using s(2,3) f(2) by (metis list_all2_Cons)
  qed
qed

subsection \<open>A corrupted byte is found\<close>

lemma xor_cancel: "x XOR z = y XOR z \<Longrightarrow> x = (y :: 32 word)"
  by (metis xor.assoc xor.right_neutral xor_self_eq)

lemma of_char_inj: "(of_char b :: 32 word) = of_char c \<Longrightarrow> b = c"
proof -
  have n: "unat (of_char b :: 32 word) = of_char b" for b
  proof -
    have l: "(of_char b :: nat) < 2 ^ LENGTH(32)" by (rule less_trans [OF byte_less]) simp
    have "unat (of_nat (of_char b) :: 32 word) = of_char b" by (simp only: unat_of_nat mod_less [OF l])
    then show ?thesis by (simp add: of_nat_of_char)
  qed
  assume "(of_char b :: 32 word) = of_char c"
  then have "unat (of_char b :: 32 word) = unat (of_char c :: 32 word)" by simp
  then show "b = c" by (simp add: n)
qed

lemma crc_bit_inj: "inj crc_bit"
proof (rule injI)
  fix x y :: "32 word"
  assume e: "crc_bit x = crc_bit y"
  have odd: "z AND 1 \<noteq> 0 \<longleftrightarrow> bit z 0" for z :: "32 word"
    by (simp add: and_one_eq mod_2_eq_odd bit_0)
  have top: "\<not> bit (drop_bit 1 z) 31" for z :: "32 word"
    by (auto simp: bit_drop_bit_eq dest: bit_imp_le_length)
  have top': "bit (drop_bit 1 z XOR 0xEDB88320) 31" for z :: "32 word"
    using top [of z] by (simp add: bit_xor_iff)
  have same: "bit x 0 = bit y 0"
    using e top [of x] top [of y] top' [of x] top' [of y]
    by (cases "bit x 0"; cases "bit y 0") (auto simp: crc_bit_def odd)
  with e have d: "drop_bit 1 x = drop_bit 1 y"
    by (cases "bit x 0") (auto simp: crc_bit_def odd dest: xor_cancel)
  show "x = y"
  proof (rule bit_eqI)
    fix n
    show "bit x n = bit y n"
    proof (cases n)
      case (Suc k)
      have "bit (drop_bit 1 x) k = bit (drop_bit 1 y) k" using d by simp
      then show ?thesis by (simp add: Suc bit_drop_bit_eq)
    qed (use same in simp)
  qed
qed

lemma crc_bits_inj: "inj (crc_bit ^^ n)"
proof (induction n)
  case (Suc n)
  then show ?case using inj_compose [OF crc_bit_inj Suc] by (simp add: comp_def)
qed simp

lemma crc_byte_inj: "crc_byte c b = crc_byte c' b \<Longrightarrow> c = c'" "crc_byte c b = crc_byte c b' \<Longrightarrow> b = b'"
proof -
  have x: "crc_byte c b = crc_byte c' b' \<Longrightarrow> c XOR of_char b = c' XOR of_char b'" for c c' b b'
    unfolding crc_byte_def by (rule injD [OF crc_bits_inj])
  show "crc_byte c b = crc_byte c' b \<Longrightarrow> c = c'" by (drule x) (rule xor_cancel)
  assume "crc_byte c b = crc_byte c b'"
  from x [OF this] have "of_char b XOR c = of_char b' XOR c" by (simp add: xor.commute)
  then show "b = b'" by (rule of_char_inj [OF xor_cancel])
qed

lemma crc_fold_inj: "foldl crc_byte c bs = foldl crc_byte c' bs \<Longrightarrow> c = c'"
  by (induction bs arbitrary: c c') (auto dest: crc_byte_inj(1))

lemma crc32_one_byte:
  assumes "i < length bs" and "b \<noteq> bs ! i"
  shows "crc32 (bs[i := b]) \<noteq> crc32 bs"
proof
  assume "crc32 (bs[i := b]) = crc32 bs"
  moreover have "bs = take i bs @ bs ! i # drop (Suc i) bs" using assms(1) by (simp add: id_take_nth_drop [symmetric])
  ultimately have "foldl crc_byte 0xFFFFFFFF (take i bs @ b # drop (Suc i) bs) = foldl crc_byte 0xFFFFFFFF (take i bs @ bs ! i # drop (Suc i) bs)"
    using assms(1) by (simp add: crc32_def upd_conv_take_nth_drop)
  then have "crc_byte (foldl crc_byte 0xFFFFFFFF (take i bs)) b = crc_byte (foldl crc_byte 0xFFFFFFFF (take i bs)) (bs ! i)"
    by (auto dest: crc_fold_inj)
  with assms(2) show False by (auto dest: crc_byte_inj(2))
qed

lemma corrupted_frame:
  assumes "parse_frame bytes = Inr frame" and "be_nat (take 4 bytes) = length bytes"
    and "prelude_len \<le> i" and "i + 4 < length bytes" and "b \<noteq> bytes ! i"
  shows "parse_frame (bytes[i := b]) = Inl CrcMismatch"
proof -
  let ?n = "length bytes - 4"
  have k: "take 4 (bytes[i := b]) = take 4 bytes" "take 4 (drop 4 (bytes[i := b])) = take 4 (drop 4 bytes)"
    "take 4 (drop 8 (bytes[i := b])) = take 4 (drop 8 bytes)" "take 8 (bytes[i := b]) = take 8 bytes"
    "drop ?n (bytes[i := b]) = drop ?n bytes" "take ?n (bytes[i := b]) = (take ?n bytes)[i := b]"
    using assms(3,4) by (simp_all add: prelude_len_def take_update_swap drop_update_swap list_update_beyond)
  have c: "crc32 (take ?n bytes) = of_nat (be_nat (take 4 (drop ?n bytes)))" "crc32 (take 8 bytes) = of_nat (be_nat (take 4 (drop 8 bytes)))"
    using assms(1,2) by (auto simp: parse_frame_def Let_def split: if_splits)
  have "crc32 ((take ?n bytes)[i := b]) \<noteq> crc32 (take ?n bytes)"
    by (rule crc32_one_byte) (use assms in auto)
  with c k assms(2) show ?thesis by (simp add: parse_frame_def Let_def)
qed

subsection \<open>Round trip\<close>

text \<open>Big-endian bytes.\<close>

primrec be_bytes :: "nat \<Rightarrow> nat \<Rightarrow> string" where
  "be_bytes 0 n = []"
| "be_bytes (Suc w) n = be_bytes w (n div 256) @ [char_of (n mod 256)]"

lemma length_be_bytes [simp]: "length (be_bytes w n) = w"
  by (induction w arbitrary: n) simp_all

lemma be_nat_be_bytes: "n < 256 ^ w \<Longrightarrow> be_nat (be_bytes w n) = n"
proof (induction w arbitrary: n)
  case (Suc w)
  then have "n div 256 < 256 ^ w" by (simp add: less_mult_imp_div_less mult.commute)
  with Suc.IH show ?case by (simp add: be_nat_def)
qed (simp add: be_nat_def)

definition be_signed :: "nat \<Rightarrow> int \<Rightarrow> string" where
  "be_signed w i = be_bytes w (nat (i mod 2 ^ (8 * w)))"

definition fits :: "nat \<Rightarrow> int \<Rightarrow> bool" where
  "fits w i \<longleftrightarrow> - (2 ^ (8 * w - 1)) \<le> i \<and> i < 2 ^ (8 * w - 1)"

lemma be_int_be_signed:
  assumes "fits w i" and "0 < w"
  shows "be_int w (be_signed w i) = i"
proof -
  let ?h = "2 ^ (8 * w - 1) :: int"
  have h: "2 ^ (8 * w) = 2 * ?h" using assms(2) by (metis mult_pos_pos zero_less_numeral power_eq_if not_gr_zero)
  have r: "0 \<le> i mod (2 * ?h)" "i mod (2 * ?h) < 2 * ?h" by simp_all
  then have "nat (i mod 2 ^ (8 * w)) < 256 ^ w" unfolding h [symmetric]
    by (simp add: power_mult nat_less_iff)
  then have n: "be_nat (be_signed w i) = nat (i mod (2 * ?h))"
    unfolding be_signed_def by (simp add: be_nat_be_bytes h)
  have lt: "nat (i mod (2 * ?h)) < 2 ^ (8 * w - 1) \<longleftrightarrow> i mod (2 * ?h) < ?h"
    by (simp add: nat_less_iff)
  show ?thesis
  proof (cases "0 \<le> i")
    case True
    with assms(1) have "i mod (2 * ?h) = i" by (intro mod_pos_pos_trivial) (auto simp: fits_def)
    with True assms(1) n lt show ?thesis by (simp add: be_int_def fits_def)
  next
    case False
    then have "i mod (2 * ?h) = i + 2 * ?h"
      using assms(1) by (subst mod_add_self2 [symmetric], intro mod_pos_pos_trivial) (auto simp: fits_def)
    with False assms(1) n lt r show ?thesis by (simp add: be_int_def fits_def h)
  qed
qed

text \<open>Headers and frames as the wire format defines them.\<close>

fun encode_value :: "event_stream_value \<Rightarrow> nat \<times> string" where
  "encode_value (EsBool b) = (if b then 0 else 1, [])"
| "encode_value (EsByte c) = (2, [c])"
| "encode_value (EsShort i) = (3, be_signed 2 i)"
| "encode_value (EsInt i) = (4, be_signed 4 i)"
| "encode_value (EsLong i) = (5, be_signed 8 i)"
| "encode_value (EsByteArray v) = (6, be_bytes 2 (length v) @ v)"
| "encode_value (EsString v) = (7, be_bytes 2 (length v) @ v)"
| "encode_value (EsTimestamp i) = (8, be_signed 8 i)"
| "encode_value (EsUuid v) = (9, v)"

fun value_ok :: "event_stream_value \<Rightarrow> bool" where
  "value_ok (EsShort i) = fits 2 i"
| "value_ok (EsInt i) = fits 4 i"
| "value_ok (EsLong i) = fits 8 i"
| "value_ok (EsByteArray v) = (length v < 65536)"
| "value_ok (EsString v) = (length v < 65536 \<and> well_formed v)"
| "value_ok (EsTimestamp i) = fits 8 i"
| "value_ok (EsUuid v) = (length v = 16)"
| "value_ok _ = True"

lemma length_be_signed [simp]: "length (be_signed w i) = w"
  by (simp add: be_signed_def)

lemma take_bytes_append: "take_bytes (v @ rest) (length v) = Inr (v, rest)"
  by (simp add: take_bytes_def)

lemma take_bytes_signed: "take_bytes (be_signed w i @ rest) w = Inr (be_signed w i, rest)"
  using take_bytes_append [of "be_signed w i" rest] by simp

lemma take_sized_append: "length v < 65536 \<Longrightarrow> take_sized (be_bytes 2 (length v) @ v @ rest) = Inr (v, rest)"
  using take_bytes_append [of "be_bytes 2 (length v)" "v @ rest"] be_nat_be_bytes [of "length v" 2]
  by (simp add: take_sized_def take_bytes_append)

lemma take_value_encode:
  "value_ok v \<Longrightarrow> encode_value v = (type, bs) \<Longrightarrow> take_value type (bs @ rest) = Inr (v, rest) \<and> type < 10"
proof (cases v)
  case (EsByte c)
  moreover assume "encode_value v = (type, bs)"
  ultimately show ?thesis using take_bytes_append [of "[c]" rest] by (auto simp: take_value_def)
next
  case (EsUuid u)
  moreover assume "value_ok v" "encode_value v = (type, bs)"
  ultimately show ?thesis using take_bytes_append [of u rest] by (auto simp: take_value_def)
next
  case (EsBool b)
  moreover assume "encode_value v = (type, bs)"
  ultimately show ?thesis by (cases b) (auto simp: take_value_def)
qed (auto simp: take_value_def take_bytes_signed be_int_be_signed take_sized_append)

definition encode_header :: "string \<times> event_stream_value \<Rightarrow> string" where
  "encode_header h = (case encode_value (snd h) of (type, bs) \<Rightarrow>
     char_of (length (fst h)) # fst h @ [char_of type] @ bs)"

definition header_ok :: "string \<times> event_stream_value \<Rightarrow> bool" where
  "header_ok h \<longleftrightarrow> length (fst h) < 256 \<and> well_formed (fst h) \<and> value_ok (snd h)"

lemma parse_header_encode:
  assumes "header_ok h"
  shows "parse_headers (encode_header h @ rest) = bindR (parse_headers rest) (\<lambda>hs. Inr (h # hs))"
proof -
  obtain name v where h: "h = (name, v)" by force
  obtain type bs where e: "encode_value v = (type, bs)" by force
  let ?s = "encode_header h @ rest"
  have s: "?s = char_of (length name) # name @ char_of type # bs @ rest" by (simp add: encode_header_def h e)
  have v: "take_value type (bs @ rest) = Inr (v, rest)" "type < 10"
    using take_value_encode [OF _ e] assms by (auto simp: header_ok_def h)
  have "of_char (hd ?s) = length name" "length name < 256" unfolding s using assms by (simp_all add: header_ok_def h)
  moreover have "of_char (?s ! (1 + length name)) = type" unfolding s using v(2) by (simp add: nth_append)
  moreover have "drop (1 + length name + 1) ?s = bs @ rest" "take (length name) (drop 1 ?s) = name" "?s \<noteq> []"
    "\<not> length ?s < 1 + length name + 1" unfolding s by simp_all
  ultimately show ?thesis
    using v(1) assms by (subst parse_headers.simps) (simp only: Let_def if_False bindR_simps prod.case, simp add: header_ok_def h)
qed

lemma parse_headers_encode:
  "list_all header_ok hs \<Longrightarrow> parse_headers (concat (map encode_header hs)) = Inr hs"
proof (induction hs)
  case Nil
  show ?case by (subst parse_headers.simps) simp
qed (simp add: parse_header_encode)

definition encode_prelude :: "nat \<Rightarrow> nat \<Rightarrow> string" where
  "encode_prelude n headers_len = be_bytes 4 n @ be_bytes 4 headers_len"

definition encode_frame :: "event_stream_frame \<Rightarrow> string" where
  "encode_frame f =
     (let headers = concat (map encode_header (es_headers f));
          prelude = encode_prelude (16 + length headers + length (es_payload f)) (length headers);
          body = prelude @ be_bytes 4 (unat (crc32 prelude)) @ headers @ es_payload f
      in body @ be_bytes 4 (unat (crc32 body)))"

definition frame_ok :: "nat \<Rightarrow> event_stream_frame \<Rightarrow> bool" where
  "frame_ok m f \<longleftrightarrow> list_all header_ok (es_headers f) \<and> length (encode_frame f) \<le> m \<and> length (encode_frame f) < 2 ^ 32"

lemma be_crc: "of_nat (be_nat (be_bytes 4 (unat (w :: 32 word)))) = w"
proof -
  have "unat w < 256 ^ 4" using unsigned_less [of w, where ?'a = nat] by simp
  then show ?thesis by (simp add: be_nat_be_bytes)
qed

lemma parse_frame_parts:
  assumes "be_nat (take 4 bytes) = t" and "be_nat (take 4 (drop 4 bytes)) = n"
    and "crc32 (take 8 bytes) = of_nat (be_nat (take 4 (drop 8 bytes)))"
    and "crc32 (take (t - 4) bytes) = of_nat (be_nat (take 4 (drop (t - 4) bytes)))"
    and "prelude_len + n + 4 \<le> t" and "parse_headers (take n (drop prelude_len bytes)) = Inr hs"
  shows "parse_frame bytes = Inr \<lparr>es_headers = hs, es_payload = take (t - 4 - (prelude_len + n)) (drop (prelude_len + n) bytes)\<rparr>"
  using assms by (simp add: parse_frame_def Let_def)

lemma parse_frame_encode:
  assumes "list_all header_ok (es_headers f)" and "length (encode_frame f) < 2 ^ 32"
  shows "parse_frame (encode_frame f) = Inr f" and "be_nat (take 4 (encode_frame f)) = length (encode_frame f)"
proof -
  let ?h = "concat (map encode_header (es_headers f))"
  let ?n = "16 + length ?h + length (es_payload f)"
  let ?p = "encode_prelude ?n (length ?h)"
  let ?c = "be_bytes 4 (unat (crc32 ?p))"
  let ?b = "?p @ ?c @ ?h @ es_payload f"
  have e: "encode_frame f = ?b @ be_bytes 4 (unat (crc32 ?b))" by (simp add: encode_frame_def Let_def)
  have p: "length ?p = 8" by (simp add: encode_prelude_def)
  then have len: "length (encode_frame f) = ?n" unfolding e by simp
  have lt: "?n < 256 ^ 4" "length ?h < 256 ^ 4" using assms(2) unfolding len by simp_all
  have t: "take 4 (encode_frame f) = be_bytes 4 ?n" "take 4 (drop 4 (encode_frame f)) = be_bytes 4 (length ?h)"
    "take 8 (encode_frame f) = ?p" "take 4 (drop 8 (encode_frame f)) = ?c"
    "drop prelude_len (encode_frame f) = ?h @ es_payload f @ be_bytes 4 (unat (crc32 ?b))"
    "take (?n - 4) (encode_frame f) = ?b" "take 4 (drop (?n - 4) (encode_frame f)) = be_bytes 4 (unat (crc32 ?b))"
    unfolding e by (simp_all add: encode_prelude_def prelude_len_def)
  then show tot: "be_nat (take 4 (encode_frame f)) = length (encode_frame f)"
    using lt by (simp add: be_nat_be_bytes len)
  have d: "drop (prelude_len + length ?h) (encode_frame f) = es_payload f @ be_bytes 4 (unat (crc32 ?b))"
    using arg_cong [OF t(5), of "drop (length ?h)"] by (simp add: add.commute)
  have "parse_frame (encode_frame f) = Inr \<lparr>es_headers = es_headers f,
      es_payload = take (?n - 4 - (prelude_len + length ?h)) (drop (prelude_len + length ?h) (encode_frame f))\<rparr>"
  proof (rule parse_frame_parts)
    show "be_nat (take 4 (encode_frame f)) = ?n" "be_nat (take 4 (drop 4 (encode_frame f))) = length ?h"
      unfolding t using lt by (simp_all only: be_nat_be_bytes)
    show "crc32 (take 8 (encode_frame f)) = of_nat (be_nat (take 4 (drop 8 (encode_frame f))))"
      "crc32 (take (?n - 4) (encode_frame f)) = of_nat (be_nat (take 4 (drop (?n - 4) (encode_frame f))))"
      unfolding t by (simp_all only: be_crc)
    show "parse_headers (take (length ?h) (drop prelude_len (encode_frame f))) = Inr (es_headers f)"
      unfolding t using parse_headers_encode [OF assms(1)] by simp
  qed (simp add: prelude_len_def)
  then show "parse_frame (encode_frame f) = Inr f" unfolding d by (simp add: prelude_len_def)
qed

lemma feed_frames_encode:
  "list_all (frame_ok m) fs \<Longrightarrow> feed_frames m (concat (map encode_frame fs)) = Inr (fs, [])"
proof (induction fs)
  case Nil
  show ?case by (subst feed_frames.simps) (simp add: min_frame_def)
next
  case (Cons f fs)
  then have f: "list_all header_ok (es_headers f)" "length (encode_frame f) < 2 ^ 32" "length (encode_frame f) \<le> m"
    by (simp_all add: frame_ok_def)
  note p = parse_frame_encode [OF f(1,2)]
  have l: "min_frame \<le> length (encode_frame f)"
    by (simp add: encode_frame_def Let_def encode_prelude_def min_frame_def prelude_len_def)
  then have "take 4 (encode_frame f @ concat (map encode_frame fs)) = take 4 (encode_frame f)"
    by (simp add: min_frame_def prelude_len_def)
  with p(2) have "be_nat (take 4 (encode_frame f @ concat (map encode_frame fs))) = length (encode_frame f)"
    by (simp only:)
  from feed_frames_frame [OF this l f(3)] Cons p(1) show ?case by simp
qed

lemma es_round_trip_whole:
  "list_all (frame_ok m) fs \<Longrightarrow> es_feed (with_max_frame m) (concat (map encode_frame fs)) = Inr (fs, with_max_frame m)"
  by (simp add: es_feed_def with_max_frame_def feed_frames_encode)

end
