(* ===== verification/Records.thy ===== *)
theory Records
  imports Sse Event_Stream Protocol
begin

text \<open>
  A streamed body read record by record (\<open>transport/record.rs\<close>), the errors of one attempt
  (\<open>transport/error.rs\<close>, \<open>transport.rs\<close>) and the bounded reading of a body
  (\<open>transport/http.rs\<close>).

  The network is not under \<open>src/\<close>: what it delivers is an argument, the list of what each wait for
  the next chunk gives.
\<close>

subsection \<open>Errors of one attempt\<close>

datatype transport_error =
    Connect string
  | AwaitHeaders string
  | AwaitStreamHeaders string
  | ReadBody string

fun transport_is_retryable :: "transport_error \<Rightarrow> bool" where
  "transport_is_retryable (Connect _) = True"
| "transport_is_retryable (AwaitStreamHeaders _) = True"
| "transport_is_retryable (AwaitHeaders _) = False"
| "transport_is_retryable (ReadBody _) = False"

fun transport_error_text :: "transport_error \<Rightarrow> string" where
  "transport_error_text (Connect message) = ''connect: '' @ message"
| "transport_error_text (AwaitHeaders message) = ''await headers: '' @ message"
| "transport_error_text (AwaitStreamHeaders message) = ''await headers: '' @ message"
| "transport_error_text (ReadBody message) = ''read body: '' @ message"

definition from_transport_error :: "transport_error \<Rightarrow> error" where
  "from_transport_error e =
     Transport \<lparr>tf_message = transport_error_text e, tf_retryable = transport_is_retryable e\<rparr>"

text \<open>\<open>message.chars().take(n)\<close>, on the bytes of well-formed text.\<close>

fun take_chars :: "nat \<Rightarrow> string \<Rightarrow> string" where
  "take_chars 0 s = []"
| "take_chars (Suc n) s =
     (if s = [] then [] else take (fst (scan_char s)) s @ take_chars n (drop (fst (scan_char s)) s))"

definition cap_message :: "string \<Rightarrow> string" where
  "cap_message message = take_chars 256 message"

definition build_read_error :: "string \<Rightarrow> error" where
  "build_read_error message = from_transport_error (ReadBody (cap_message message))"

definition build_payload_error :: "string \<Rightarrow> error" where
  "build_payload_error message = Malformed (cap_message message)"

subsection \<open>Limits\<close>

text \<open>Durations are in milliseconds.\<close>

record limits =
  lm_connect :: nat
  lm_first_byte :: nat
  lm_idle :: nat
  lm_total :: nat
  lm_max_response_bytes :: nat
  lm_max_error_body_bytes :: nat
  lm_max_event_bytes :: nat
  lm_max_stream_events :: nat

definition default_limits :: limits where
  "default_limits =
     \<lparr>lm_connect = 10 * 1000, lm_first_byte = 60 * 1000, lm_idle = 60 * 1000, lm_total = 300 * 1000,
      lm_max_response_bytes = 32 * 1024 * 1024, lm_max_error_body_bytes = 64 * 1024,
      lm_max_event_bytes = 8 * 1024 * 1024, lm_max_stream_events = 100000\<rparr>"

subsection \<open>Parsers\<close>

datatype framing = FramingSse | FramingAwsEventStream

datatype parser = SseP sse_parser | AwsP event_stream_parser

fun sse_error_text :: "sse_error \<Rightarrow> string" where
  "sse_error_text (EventTooLarge n) = ''sse event exceeds '' @ show_nat n @ '' bytes''"

fun event_stream_error_text :: "event_stream_error \<Rightarrow> string" where
  "event_stream_error_text CrcMismatch = ''event-stream frame CRC mismatch''"
| "event_stream_error_text (FrameTooLarge n) = ''event-stream frame exceeds '' @ show_nat n @ '' bytes''"
| "event_stream_error_text (BadValueType n) = ''malformed event-stream header value type '' @ show_nat n"
| "event_stream_error_text TruncatedHeader = ''truncated event-stream header section''"
| "event_stream_error_text TruncatedPrelude = ''event-stream frame is too small for a prelude''"

definition map_err :: "('e \<Rightarrow> 'f) \<Rightarrow> 'e + 'a \<Rightarrow> 'f + 'a" where
  "map_err f r = (case r of Inl e \<Rightarrow> Inl (f e) | Inr x \<Rightarrow> Inr x)"

fun parser_feed :: "parser \<Rightarrow> string \<Rightarrow> error + (stream_record list \<times> parser)" where
  "parser_feed (SseP p) chunk =
     bindR (map_err (build_payload_error \<circ> sse_error_text) (sse_feed p chunk)) (\<lambda>(out, q). Inr (out, SseP q))"
| "parser_feed (AwsP p) chunk =
     bindR (map_err (build_payload_error \<circ> event_stream_error_text) (es_feed p chunk)) (\<lambda>(frames, q).
     Inr (List.map_filter decode_record frames, AwsP q))"

fun parser_finish :: "parser \<Rightarrow> error + (stream_record list \<times> parser)" where
  "parser_finish (SseP p) =
     bindR (map_err (build_payload_error \<circ> sse_error_text) (sse_finish p)) (\<lambda>(out, q). Inr (out, SseP q))"
| "parser_finish (AwsP p) =
     bindR (map_err (build_payload_error \<circ> event_stream_error_text) (es_finish p)) (\<lambda>_. Inr ([], AwsP p))"

definition parser_new :: "framing \<Rightarrow> limits \<Rightarrow> parser" where
  "parser_new framing l = (case framing of
     FramingSse \<Rightarrow> SseP (with_max_event_bytes (lm_max_event_bytes l))
   | FramingAwsEventStream \<Rightarrow> AwsP (with_max_frame (lm_max_event_bytes l)))"

lemma map_err_simps [simp]: "map_err f (Inl e) = Inl (f e)" "map_err f (Inr x) = Inr x"
  by (simp_all add: map_err_def)

lemma parser_feed_append: "parser_feed p (a @ b) = and_then (parser_feed p a) (\<lambda>q. parser_feed q b)"
proof (cases p)
  case (SseP s)
  show ?thesis
  proof (cases "sse_feed s a")
    case (Inr x)
    obtain out q where "x = (out, q)" by force
    with Inr SseP show ?thesis
      by (cases "sse_feed q b") (auto simp: sse_feed_append and_then_def)
  qed (simp add: SseP sse_feed_append)
next
  case (AwsP s)
  show ?thesis
  proof (cases "es_feed s a")
    case (Inr x)
    obtain out q where "x = (out, q)" by force
    with Inr AwsP show ?thesis
      by (cases "es_feed q b") (auto simp: es_feed_append and_then_def map_filter_append)
  qed (simp add: AwsP es_feed_append)
qed

interpretation parser: incremental_parser parser_feed
  by unfold_locales (rule parser_feed_append)

subsection \<open>Record streams\<close>

record record_stream =
  rs_reply :: "(error + string) list"
  rs_parser :: parser
  rs_pending :: "stream_record list"
  rs_max_records :: nat
  rs_records :: nat
  rs_exhausted :: bool

definition record_stream_new :: "(error + string) list \<Rightarrow> framing \<Rightarrow> limits \<Rightarrow> record_stream" where
  "record_stream_new reply framing l =
     \<lparr>rs_reply = reply, rs_parser = parser_new framing l, rs_pending = [],
      rs_max_records = lm_max_stream_events l, rs_records = 0, rs_exhausted = False\<rparr>"

function next_record :: "record_stream \<Rightarrow> error + (stream_record option \<times> record_stream)" where
  "next_record s =
     (case rs_pending s of
        record # pending \<Rightarrow>
          let s = s\<lparr>rs_pending := pending, rs_records := rs_records s + 1\<rparr> in
          if rs_records s > rs_max_records s
          then Inl (build_payload_error (''stream exceeds '' @ show_nat (rs_max_records s) @ '' events''))
          else Inr (Some record, s)
      | [] \<Rightarrow>
          if rs_exhausted s then Inr (None, s)
          else case rs_reply s of
            Inl e # _ \<Rightarrow> Inl e
          | Inr chunk # reply \<Rightarrow>
              bindR (parser_feed (rs_parser s) chunk) (\<lambda>(records, p).
              next_record (s\<lparr>rs_reply := reply, rs_parser := p, rs_pending := records\<rparr>))
          | [] \<Rightarrow>
              bindR (parser_finish (rs_parser s)) (\<lambda>(records, p).
              next_record (s\<lparr>rs_parser := p, rs_pending := records, rs_exhausted := True\<rparr>)))"
  by auto

termination
  by (relation "measures [\<lambda>s. length (rs_reply s), \<lambda>s. if rs_exhausted s then 0 else 1]") auto

declare next_record.simps [simp del]

text \<open>A client that asks for the next record until there is none, or an error ends the stream.\<close>

lemma next_record_shrinks:
  assumes "next_record s = Inr (Some r, t)"
  shows "(t, s) \<in> measures [\<lambda>s. length (rs_reply s), \<lambda>s. if rs_exhausted s then 0 else 1, \<lambda>s. length (rs_pending s)]"
  using assms
proof (induction s rule: next_record.induct)
  case (1 s)
  show ?case
  proof (cases "rs_pending s")
    case Nil
    show ?thesis
    proof (cases "rs_exhausted s")
      case False
      show ?thesis
      proof (cases "rs_reply s")
        case n: Nil
        from "1.prems" Nil False n obtain records p where f: "parser_finish (rs_parser s) = Inr (records, p)"
          and m: "next_record (s\<lparr>rs_parser := p, rs_pending := records, rs_exhausted := True\<rparr>) = Inr (Some r, t)"
          by (subst (asm) next_record.simps) (auto simp: bindR_Inr_iff)
        from "1.IH"(1) [OF Nil False n f refl m] False n show ?thesis by auto
      next
        case c: (Cons x reply)
        from "1.prems" Nil False c obtain chunk records p where x: "x = Inr chunk"
          and f: "parser_feed (rs_parser s) chunk = Inr (records, p)"
          and m: "next_record (s\<lparr>rs_reply := reply, rs_parser := p, rs_pending := records\<rparr>) = Inr (Some r, t)"
          by (subst (asm) next_record.simps) (auto simp: bindR_Inr_iff split: sum.splits)
        from "1.IH"(2) [OF Nil False c x f refl m] c show ?thesis by auto
      qed
    next
      case True
      with "1.prems" Nil show ?thesis by (subst (asm) next_record.simps) simp
    qed
  next
    case (Cons rc pending)
    with "1.prems" show ?thesis by (subst (asm) next_record.simps) (auto simp: Let_def split: if_splits)
  qed
qed

function read_all :: "record_stream \<Rightarrow> stream_record list \<times> error option" where
  "read_all s = (case next_record s of
     Inl e \<Rightarrow> ([], Some e)
   | Inr (None, _) \<Rightarrow> ([], None)
   | Inr (Some record, t) \<Rightarrow> (case read_all t of (records, r) \<Rightarrow> (record # records, r)))"
  by auto

termination
proof (relation "measures [\<lambda>s. length (rs_reply s), \<lambda>s. if rs_exhausted s then 0 else 1, \<lambda>s. length (rs_pending s)]")
  fix s p ro t r
  assume "next_record s = Inr p" "(ro, t) = p" "ro = Some r"
  then show "(t, s) \<in> measures [\<lambda>s. length (rs_reply s), \<lambda>s. if rs_exhausted s then 0 else 1, \<lambda>s. length (rs_pending s)]"
    by (intro next_record_shrinks [of s r]) auto
qed simp

declare read_all.simps [simp del]

text \<open>The ceiling.\<close>

lemma next_record_count:
  "next_record s = Inr (Some r, t) \<Longrightarrow>
     rs_records t = rs_records s + 1 \<and> rs_records t \<le> rs_max_records t \<and> rs_max_records t = rs_max_records s"
proof (induction s rule: next_record.induct)
  case (1 s)
  show ?case
  proof (cases "rs_pending s = [] \<and> \<not> rs_exhausted s")
    case True
    with "1.prems" obtain u where "next_record u = Inr (Some r, t)" "rs_records u = rs_records s" "rs_max_records u = rs_max_records s"
      "next_record u = Inr (Some r, t) \<Longrightarrow>
         rs_records t = rs_records u + 1 \<and> rs_records t \<le> rs_max_records t \<and> rs_max_records t = rs_max_records u"
    proof (cases "rs_reply s")
      case Nil
      with True "1.prems" obtain records p where f: "parser_finish (rs_parser s) = Inr (records, p)"
        and m: "next_record (s\<lparr>rs_parser := p, rs_pending := records, rs_exhausted := True\<rparr>) = Inr (Some r, t)"
        by (subst (asm) next_record.simps) (auto simp: bindR_Inr_iff)
      from True "1.IH"(1) [OF _ _ Nil f refl] m that show ?thesis by auto
    next
      case (Cons x reply)
      with True "1.prems" obtain chunk records p where x: "x = Inr chunk"
        and f: "parser_feed (rs_parser s) chunk = Inr (records, p)"
        and m: "next_record (s\<lparr>rs_reply := reply, rs_parser := p, rs_pending := records\<rparr>) = Inr (Some r, t)"
        by (subst (asm) next_record.simps) (auto simp: bindR_Inr_iff split: sum.splits)
      from True "1.IH"(2) [OF _ _ Cons x f refl] m that show ?thesis by auto
    qed
    then show ?thesis by auto
  next
    case False
    with "1.prems" show ?thesis
      by (subst (asm) next_record.simps) (auto simp: Let_def split: list.splits if_splits)
  qed
qed

lemma read_all_ceiling:
  "rs_records s \<le> rs_max_records s \<Longrightarrow> rs_records s + length (fst (read_all s)) \<le> rs_max_records s"
proof (induction s rule: read_all.induct)
  case (1 s)
  show ?case
  proof (cases "\<exists>r t. next_record s = Inr (Some r, t)")
    case True
    then obtain r t where n: "next_record s = Inr (Some r, t)" by blast
    note c = next_record_count [OF n]
    from "1.IH" [OF n refl refl] c have "rs_records t + length (fst (read_all t)) \<le> rs_max_records t" by simp
    with c show ?thesis by (subst read_all.simps) (auto simp: n split: prod.split)
  next
    case False
    then have "fst (read_all s) = []"
      by (subst read_all.simps) (auto split: sum.split option.split prod.split)
    with "1.prems" show ?thesis by simp
  qed
qed

text \<open>What is pending is handed out, and then the reply is read on.\<close>

lemma read_all_pending:
  "rs_records s + length (rs_pending s) \<le> rs_max_records s \<Longrightarrow>
     read_all s = (case read_all (s\<lparr>rs_pending := [], rs_records := rs_records s + length (rs_pending s)\<rparr>) of
       (records, e) \<Rightarrow> (rs_pending s @ records, e))"
proof (induction "rs_pending s" arbitrary: s)
  case Nil
  then show ?case by (cases s) (simp split: prod.split)
next
  case (Cons r rs)
  let ?t = "s\<lparr>rs_pending := rs, rs_records := rs_records s + 1\<rparr>"
  have n: "next_record s = Inr (Some r, ?t)"
    using Cons.prems Cons.hyps(2) [symmetric] by (subst next_record.simps) (simp add: Let_def)
  have "read_all ?t = (case read_all (?t\<lparr>rs_pending := [], rs_records := rs_records ?t + length (rs_pending ?t)\<rparr>) of
       (records, e) \<Rightarrow> (rs_pending ?t @ records, e))"
    using Cons.prems Cons.hyps(2) [symmetric] by (intro Cons.hyps(1)) simp_all
  then show ?case
    using Cons.hyps(2) [symmetric] by (subst read_all.simps) (simp add: n split: prod.split)
qed

lemma read_all_next: "next_record s = next_record t \<Longrightarrow> read_all s = read_all t"
  by (subst (1 2) read_all.simps) simp

lemma read_all_end: "rs_pending s = [] \<Longrightarrow> rs_exhausted s \<Longrightarrow> read_all s = ([], None)"
  by (subst read_all.simps, subst next_record.simps) simp

lemma read_all_chunks:
  assumes "feed_chunks parser_feed (rs_parser s) cs = Inr (out, q)" and "parser_finish q = Inr (last_ones, q')"
    and "rs_reply s = map Inr cs" and "rs_pending s = []" and "\<not> rs_exhausted s"
    and "rs_records s + length (out @ last_ones) \<le> rs_max_records s"
  shows "read_all s = (out @ last_ones, None)"
  using assms
proof (induction cs arbitrary: s out)
  case Nil
  let ?t = "s\<lparr>rs_parser := q', rs_pending := last_ones, rs_exhausted := True\<rparr>"
  have "next_record s = next_record ?t" using Nil by (subst next_record.simps) simp
  then have "read_all s = read_all ?t" by (rule read_all_next)
  also have "\<dots> = (last_ones, None)" using Nil by (subst read_all_pending) (auto simp: read_all_end)
  finally show ?case using Nil.prems(1) by simp
next
  case (Cons c cs)
  from Cons.prems(1) obtain a p b where f: "parser_feed (rs_parser s) c = Inr (a, p)"
    "feed_chunks parser_feed p cs = Inr (b, q)" "out = a @ b"
    by (auto simp: and_then_def bindR_Inr_iff)
  let ?t = "s\<lparr>rs_reply := map Inr cs, rs_parser := p, rs_pending := a\<rparr>"
  let ?u = "?t\<lparr>rs_pending := [], rs_records := rs_records s + length a\<rparr>"
  have "next_record s = next_record ?t" using Cons.prems f(1) by (subst next_record.simps) simp
  then have "read_all s = read_all ?t" by (rule read_all_next)
  also have "\<dots> = (case read_all ?u of (records, e) \<Rightarrow> (a @ records, e))"
    using Cons.prems(6) f(3) by (subst read_all_pending) simp_all
  also have "read_all ?u = (b @ last_ones, None)"
    by (rule Cons.IH) (use Cons.prems f in auto)
  finally show ?case using f(3) by simp
qed

end
