(* ===== verification/Http.thy ===== *)
theory Http
  imports Records
begin

text \<open>
  The bounded reading of a response (\<open>transport/http.rs\<close>) and what the attempt contract says about
  replies (\<open>protocol/attempt.rs\<close>). The HTTP client is a library: the events of a response body and
  the instants they arrive at are an argument, as is the instant a wait starts at. Instants and
  durations are in milliseconds.
\<close>

subsection \<open>Replies\<close>

definition is_success_status :: "nat \<Rightarrow> bool" where
  "is_success_status status \<longleftrightarrow> 200 \<le> status \<and> status < 300"

definition eq_ignore_ascii_case :: "string \<Rightarrow> string \<Rightarrow> bool" where
  "eq_ignore_ascii_case a b \<longleftrightarrow> to_ascii_lowercase a = to_ascii_lowercase b"

definition find_header :: "(string \<times> string) list \<Rightarrow> string \<Rightarrow> string option" where
  "find_header headers name =
     map_option snd (find (\<lambda>(key, _). eq_ignore_ascii_case key name) headers)"

record reply =
  rp_status :: nat
  rp_headers :: "(string \<times> string) list"
  rp_body :: string

subsection \<open>A buffered body\<close>

text \<open>What the body stream gives, chunk by chunk: an error of the connection or some bytes.\<close>

fun read_bounded :: "nat \<Rightarrow> string \<Rightarrow> (string + string) list \<Rightarrow> error + string" where
  "read_bounded max_bytes body [] = Inr body"
| "read_bounded max_bytes body (Inl message # _) = Inl (build_read_error message)"
| "read_bounded max_bytes body (Inr chunk # rest) =
     (let body = body @ chunk in
      if length body > max_bytes
      then Inl (build_payload_error (''response body exceeds '' @ show_nat max_bytes @ '' bytes''))
      else read_bounded max_bytes body rest)"

text \<open>\<open>in_time\<close> tells whether the body ended before the deadline.\<close>

definition read_bounded_until :: "nat \<Rightarrow> bool \<Rightarrow> (string + string) list \<Rightarrow> error + string" where
  "read_bounded_until max_bytes in_time chunks =
     (if in_time then read_bounded max_bytes [] chunks
      else Inl (build_read_error ''response body exceeded the total timeout''))"

text \<open>The part of \<open>execute\<close> that follows the response head.\<close>

definition execute_body ::
  "limits \<Rightarrow> nat \<Rightarrow> (string \<times> string) list \<Rightarrow> bool \<Rightarrow> (string + string) list \<Rightarrow> error + reply" where
  "execute_body l status headers in_time chunks =
     (let success = is_success_status status;
          bound = (if success then lm_max_response_bytes l else lm_max_error_body_bytes l)
      in case read_bounded_until bound in_time chunks of
           Inr body \<Rightarrow> Inr \<lparr>rp_status = status, rp_headers = headers, rp_body = body\<rparr>
         | Inl e \<Rightarrow> if \<not> success then Inr \<lparr>rp_status = status, rp_headers = headers, rp_body = []\<rparr> else Inl e)"

lemma read_bounded_Inr:
  "read_bounded m body chunks = Inr out \<Longrightarrow> length body \<le> m \<Longrightarrow>
     length out \<le> m \<and> (\<exists>cs. chunks = map Inr cs \<and> out = body @ concat cs)"
proof (induction m body chunks rule: read_bounded.induct)
  case (3 m body chunk rest)
  from "3.prems" have "read_bounded m (body @ chunk) rest = Inr out" "length (body @ chunk) \<le> m"
    by (auto simp: Let_def split: if_splits)
  from "3.IH" [OF refl _ this] this(2) obtain cs where "length out \<le> m" "rest = map Inr cs" "out = (body @ chunk) @ concat cs"
    by (auto simp: Let_def)
  then show ?case by (auto intro!: exI [of _ "chunk # cs"])
qed auto

subsection \<open>A streamed body\<close>

datatype wire_event = WireChunk string | WireError string | WireEnd

record reply_stream =
  ry_status :: nat
  ry_headers :: "(string \<times> string) list"
  ry_limits :: limits
  ry_total_deadline :: nat
  ry_received :: nat
  ry_wire :: "(nat \<times> wire_event) list"

definition from_http_response ::
  "nat \<Rightarrow> nat \<Rightarrow> (string \<times> string) list \<Rightarrow> limits \<Rightarrow> (nat \<times> wire_event) list \<Rightarrow> reply_stream" where
  "from_http_response now status headers l wire =
     \<lparr>ry_status = status, ry_headers = headers, ry_limits = l, ry_total_deadline = now + lm_total l,
      ry_received = 0, ry_wire = wire\<rparr>"

text \<open>
  One wait, from \<open>now\<close>: what it gives, and when. The wait ends with the first event that arrives by
  the idle deadline, and otherwise at that deadline.
\<close>

definition reply_next :: "nat \<Rightarrow> reply_stream \<Rightarrow> error + (string option \<times> nat \<times> reply_stream)" where
  "reply_next now s =
     (if now \<ge> ry_total_deadline s
      then Inl (from_transport_error (ReadBody ''stream exceeded the total timeout''))
      else let idle_deadline = min (now + lm_idle (ry_limits s)) (ry_total_deadline s) in
        case ry_wire s of
          (at, event) # wire \<Rightarrow>
            if at \<le> idle_deadline then
              (case event of
                 WireError message \<Rightarrow> Inl (build_read_error message)
               | WireEnd \<Rightarrow> Inr (None, max now at, s\<lparr>ry_wire := wire\<rparr>)
               | WireChunk chunk \<Rightarrow>
                   let s = s\<lparr>ry_wire := wire, ry_received := ry_received s + length chunk\<rparr> in
                   if ry_received s > lm_max_response_bytes (ry_limits s)
                   then Inl (build_payload_error (''stream exceeds '' @
                     show_nat (lm_max_response_bytes (ry_limits s)) @ '' bytes''))
                   else Inr (Some chunk, max now at, s))
            else if idle_deadline \<ge> ry_total_deadline s
            then Inl (from_transport_error (ReadBody ''stream exceeded the total timeout''))
            else Inl (from_transport_error (ReadBody ''no body chunk within the idle limit''))
        | [] \<Rightarrow>
            if idle_deadline \<ge> ry_total_deadline s
            then Inl (from_transport_error (ReadBody ''stream exceeded the total timeout''))
            else Inl (from_transport_error (ReadBody ''no body chunk within the idle limit'')))"

lemma reply_next_Inr:
  assumes "reply_next now s = Inr (r, now', t)"
  shows "now < ry_total_deadline s" and "now \<le> now'" and "now' \<le> ry_total_deadline s"
    and "now' \<le> now + lm_idle (ry_limits s)" and "ry_total_deadline t = ry_total_deadline s" and "ry_limits t = ry_limits s"
    and "length (ry_wire t) < length (ry_wire s)"
    and "r = None \<Longrightarrow> ry_received t = ry_received s"
    and "r = Some c \<Longrightarrow> ry_received t = ry_received s + length c \<and> ry_received t \<le> lm_max_response_bytes (ry_limits s)"
  using assms
  by (auto simp: reply_next_def Let_def split: if_splits list.splits wire_event.splits)

text \<open>A client that reads on without delay until the body ends, or an error ends it.\<close>

function drain_reply :: "nat \<Rightarrow> reply_stream \<Rightarrow> string list \<times> nat \<times> error option" where
  "drain_reply now s = (case reply_next now s of
     Inl e \<Rightarrow> ([], now, Some e)
   | Inr (None, now', _) \<Rightarrow> ([], now', None)
   | Inr (Some chunk, now', t) \<Rightarrow> (case drain_reply now' t of (chunks, r) \<Rightarrow> (chunk # chunks, r)))"
  by auto

termination
  by (relation "measure (length \<circ> ry_wire \<circ> snd)") (auto dest: reply_next_Inr(7))

declare drain_reply.simps [simp del]

lemma drain_reply_bounded:
  "drain_reply now s = (chunks, now', e) \<Longrightarrow> ry_received s \<le> lm_max_response_bytes (ry_limits s) \<Longrightarrow>
     now \<le> ry_total_deadline s \<Longrightarrow>
     ry_received s + length (concat chunks) \<le> lm_max_response_bytes (ry_limits s) \<and> now' \<le> ry_total_deadline s"
proof (induction now s arbitrary: chunks rule: drain_reply.induct)
  case (1 now s)
  show ?case
  proof (cases "\<exists>c n t. reply_next now s = Inr (Some c, n, t)")
    case True
    then obtain c n t where n: "reply_next now s = Inr (Some c, n, t)" by blast
    note r = reply_next_Inr [OF n]
    obtain cs where d: "drain_reply n t = (cs, now', e)" "chunks = c # cs"
      using "1.prems"(1) by (subst (asm) drain_reply.simps) (auto simp: n split: prod.splits)
    from "1.IH" [OF n refl refl refl d(1)] r(3,5,6) r(9) [OF refl] have
      "ry_received t + length (concat cs) \<le> lm_max_response_bytes (ry_limits t)" "now' \<le> ry_total_deadline t"
      by auto
    with r(5,6) r(9) [OF refl] d(2) show ?thesis by simp
  next
    case False
    then have "chunks = [] \<and> now' \<le> ry_total_deadline s"
      using "1.prems"(1,3) reply_next_Inr(3) [of now s]
      by (subst (asm) drain_reply.simps) (auto split: sum.splits option.splits prod.splits)
    with "1.prems"(2) show ?thesis by simp
  qed
qed

end
