(* ===== verification/Retry.thy ===== *)
theory Retry
  imports Protocol
begin

text \<open>
  How often one call is attempted and how long to wait between attempts (\<open>utils/retry.rs\<close>,
  \<open>protocol/retry.rs\<close>), and the usage of a call that took several hops
  (\<open>protocol/model_use/recovery.rs\<close>).

  The jitter is drawn from the clock in floating point: \<open>draw bound\<close> stands for
  \<open>(bound as f64 * generate_random_unit()) as u64\<close>. What an attempt gives is the caller's:
  \<open>attempt n\<close> is the result of the \<open>n\<close>-th one.
\<close>

record retry_policy =
  rt_max_attempts :: nat
  rt_delay_ms :: nat
  rt_jitter_ms :: nat
  rt_linear :: bool

definition policy_model :: retry_policy where
  "policy_model = \<lparr>rt_max_attempts = 6, rt_delay_ms = 5000, rt_jitter_ms = 1000, rt_linear = True\<rparr>"

definition policy_auxiliary :: retry_policy where
  "policy_auxiliary = \<lparr>rt_max_attempts = 4, rt_delay_ms = 2000, rt_jitter_ms = 1000, rt_linear = False\<rparr>"

definition saturating_mul :: "nat \<Rightarrow> nat \<Rightarrow> nat" where
  "saturating_mul a b = min u64_max (a * b)"

definition calculate_backoff_ms :: "(nat \<Rightarrow> nat) \<Rightarrow> retry_policy \<Rightarrow> nat \<Rightarrow> nat option \<Rightarrow> nat" where
  "calculate_backoff_ms draw policy attempt_no retry_after_ms =
     (let step = (if rt_linear policy then max attempt_no 1 else 1);
          base = saturating_mul (rt_delay_ms policy) step;
          jitter = draw (saturating_mul (rt_jitter_ms policy) step)
      in max (saturating_add base jitter) (case retry_after_ms of None \<Rightarrow> 0 | Some ms \<Rightarrow> ms))"

datatype retry_decision = RetryStop | RetryAgain (minimum_delay_ms: "nat option")

datatype 'e retry_event =
    RetryWaiting (ev_retry: nat) (ev_max_retries: nat) (ev_delay_ms: nat) (ev_error: 'e)
  | RetryAttempting (ev_retry: nat)

text \<open>The loop from attempt \<open>number\<close>: what is observed, and the result.\<close>

function retry_observed ::
  "(nat \<Rightarrow> nat) \<Rightarrow> retry_policy \<Rightarrow> (nat \<Rightarrow> 'e + 'a) \<Rightarrow> ('e \<Rightarrow> retry_decision) \<Rightarrow> nat
     \<Rightarrow> 'e retry_event list \<times> ('e + 'a)" where
  "retry_observed draw policy attempt decide number =
     (case attempt number of
        Inr v \<Rightarrow> ([], Inr v)
      | Inl e \<Rightarrow>
          if number \<ge> rt_max_attempts policy then ([], Inl e)
          else case decide e of
            RetryStop \<Rightarrow> ([], Inl e)
          | RetryAgain minimum \<Rightarrow>
              let delay = calculate_backoff_ms draw policy number minimum in
              (case retry_observed draw policy attempt decide (number + 1) of (events, r) \<Rightarrow>
                 (RetryWaiting number (rt_max_attempts policy - 1) delay e # RetryAttempting number # events, r)))"
  by auto

termination
  by (relation "measure (\<lambda>(_, policy, _, _, number). rt_max_attempts policy - number)") auto

declare retry_observed.simps [simp del]

definition retry_call ::
  "(nat \<Rightarrow> nat) \<Rightarrow> retry_policy \<Rightarrow> (nat \<Rightarrow> 'e + 'a) \<Rightarrow> ('e \<Rightarrow> retry_decision) \<Rightarrow> 'e + 'a" where
  "retry_call draw policy attempt decide = snd (retry_observed draw policy attempt decide 1)"

definition classify_read_retry :: "error \<Rightarrow> retry_decision" where
  "classify_read_retry e =
     (if (case e of Transport _ \<Rightarrow> True | _ \<Rightarrow> False) \<or> is_retryable e then RetryAgain (get_retry_after_ms e) else RetryStop)"

subsection \<open>Waits\<close>

text \<open>The jitter is at most its bound.\<close>

definition draws_within :: "(nat \<Rightarrow> nat) \<Rightarrow> bool" where
  "draws_within draw \<longleftrightarrow> (\<forall>b. draw b \<le> b)"

lemma backoff_bounds:
  assumes "draws_within draw"
  shows "saturating_mul (rt_delay_ms p) (if rt_linear p then max n 1 else 1) \<le> calculate_backoff_ms draw p n r"
    and "r = Some ms \<Longrightarrow> ms \<le> calculate_backoff_ms draw p n r"
    and "r = None \<Longrightarrow> calculate_backoff_ms draw p n r \<le> (rt_delay_ms p + rt_jitter_ms p) * (if rt_linear p then max n 1 else 1)"
    and "\<And>ms. r = Some ms \<Longrightarrow> ms \<le> u64_max \<Longrightarrow> calculate_backoff_ms draw p n r \<le> u64_max"
proof -
  let ?k = "if rt_linear p then max n 1 else 1"
  have d: "draw (saturating_mul (rt_jitter_ms p) ?k) \<le> rt_jitter_ms p * ?k"
    using assms by (auto simp: draws_within_def saturating_mul_def intro: order_trans)
  show "saturating_mul (rt_delay_ms p) ?k \<le> calculate_backoff_ms draw p n r"
    by (simp add: calculate_backoff_ms_def Let_def saturating_add_def saturating_mul_def le_max_iff_disj min_def)
  show "r = Some ms \<Longrightarrow> ms \<le> calculate_backoff_ms draw p n r" by (simp add: calculate_backoff_ms_def Let_def)
  show "r = None \<Longrightarrow> calculate_backoff_ms draw p n r \<le> (rt_delay_ms p + rt_jitter_ms p) * ?k"
    using d by (auto simp: calculate_backoff_ms_def Let_def saturating_add_def saturating_mul_def min_def distrib_right)
  show "\<And>ms. r = Some ms \<Longrightarrow> ms \<le> u64_max \<Longrightarrow> calculate_backoff_ms draw p n r \<le> u64_max"
    by (auto simp: calculate_backoff_ms_def Let_def saturating_add_def)
qed

subsection \<open>Attempts\<close>

text \<open>
  What the loop does, said without the loop: it ends at the first attempt that succeeds, is refused
  by the caller, or is the last one the policy allows.
\<close>

definition last_attempt :: "retry_policy \<Rightarrow> (nat \<Rightarrow> 'e + 'a) \<Rightarrow> ('e \<Rightarrow> retry_decision) \<Rightarrow> nat \<Rightarrow> bool" where
  "last_attempt policy attempt decide n \<longleftrightarrow>
     (case attempt n of Inr _ \<Rightarrow> True | Inl e \<Rightarrow> n \<ge> rt_max_attempts policy \<or> decide e = RetryStop)"

lemma retry_observed_last:
  "retry_observed draw policy attempt decide n = (events, r) \<Longrightarrow>
     \<exists>k. n \<le> k \<and> k \<le> max n (rt_max_attempts policy) \<and> last_attempt policy attempt decide k \<and> r = attempt k
       \<and> (\<forall>i. n \<le> i \<and> i < k \<longrightarrow> \<not> last_attempt policy attempt decide i)
       \<and> length events = 2 * (k - n)"
proof (induction draw policy attempt decide n arbitrary: events rule: retry_observed.induct)
  case (1 draw policy attempt decide n)
  show ?case
  proof (cases "last_attempt policy attempt decide n")
    case True
    then have "events = [] \<and> r = attempt n"
      using "1.prems" by (subst (asm) retry_observed.simps)
        (auto simp: last_attempt_def split: sum.splits if_splits retry_decision.splits)
    with True show ?thesis by (intro exI [of _ n]) auto
  next
    case False
    then obtain e m where e: "attempt n = Inl e" "\<not> rt_max_attempts policy \<le> n" "decide e = RetryAgain m"
      by (cases "attempt n") (auto simp: last_attempt_def intro: retry_decision.exhaust)
    obtain events' where o: "retry_observed draw policy attempt decide (n + 1) = (events', r)"
      and ev: "length events = length events' + 2"
      using "1.prems" e by (subst (asm) retry_observed.simps) (auto simp: Let_def split: prod.splits)
    from "1.IH" [OF e(1,2,3) refl o] obtain k where k: "n + 1 \<le> k" "k \<le> max (n + 1) (rt_max_attempts policy)"
      "last_attempt policy attempt decide k" "r = attempt k"
      "\<forall>i. n + 1 \<le> i \<and> i < k \<longrightarrow> \<not> last_attempt policy attempt decide i" "length events' = 2 * (k - (n + 1))"
      by blast
    have "\<not> last_attempt policy attempt decide i" if "n \<le> i" "i < k" for i
      using that False k(5) by (cases "i = n") auto
    moreover have "length events = 2 * (k - n)" using k(1,6) ev by simp
    moreover have "k \<le> max n (rt_max_attempts policy)" using k(2) e(2) by auto
    ultimately show ?thesis using k by (intro exI [of _ k]) auto
  qed
qed

text \<open>The waits that are announced.\<close>

lemma retry_observed_waits:
  "retry_observed draw policy attempt decide n = (events, r) \<Longrightarrow> ev \<in> set events \<Longrightarrow>
     case ev of RetryWaiting k m d e \<Rightarrow> n \<le> k \<and> k < rt_max_attempts policy \<and> m = rt_max_attempts policy - 1
         \<and> attempt k = Inl e \<and> (\<exists>mn. decide e = RetryAgain mn \<and> d = calculate_backoff_ms draw policy k mn)
     | RetryAttempting k \<Rightarrow> n \<le> k \<and> k < rt_max_attempts policy"
proof (induction draw policy attempt decide n arbitrary: events rule: retry_observed.induct)
  case (1 draw policy attempt decide n)
  show ?case
  proof (cases "last_attempt policy attempt decide n")
    case True
    then have "events = []"
      using "1.prems"(1) by (subst (asm) retry_observed.simps)
        (auto simp: last_attempt_def split: sum.splits if_splits retry_decision.splits)
    with "1.prems"(2) show ?thesis by simp
  next
    case False
    then obtain e m where e: "attempt n = Inl e" "\<not> rt_max_attempts policy \<le> n" "decide e = RetryAgain m"
      by (cases "attempt n") (auto simp: last_attempt_def intro: retry_decision.exhaust)
    obtain events' where o: "retry_observed draw policy attempt decide (n + 1) = (events', r)"
      and ev: "events = RetryWaiting n (rt_max_attempts policy - 1) (calculate_backoff_ms draw policy n m) e # RetryAttempting n # events'"
      using "1.prems" e by (subst (asm) retry_observed.simps) (auto simp: Let_def split: prod.splits)
    show ?thesis
    proof (cases "ev \<in> set events'")
      case True
      from "1.IH" [OF e(1,2,3) refl o True] show ?thesis by (auto split: retry_event.splits)
    qed (use "1.prems"(2) ev e in auto)
  qed
qed

subsection \<open>Usage across hops\<close>

definition add_tokens :: "nat option \<Rightarrow> nat option \<Rightarrow> nat option" where
  "add_tokens a b = (case (a, b) of
     (Some a, Some b) \<Rightarrow> Some (saturating_add a b)
   | (None, _) \<Rightarrow> b
   | (_, None) \<Rightarrow> a)"

definition sum_usage :: "usage \<Rightarrow> usage \<Rightarrow> usage" where
  "sum_usage a b = a
     \<lparr>input_tokens := add_tokens (input_tokens a) (input_tokens b),
      cached_input_tokens := add_tokens (cached_input_tokens a) (cached_input_tokens b),
      cache_write_input_tokens := add_tokens (cache_write_input_tokens a) (cache_write_input_tokens b),
      output_tokens := add_tokens (output_tokens a) (output_tokens b),
      reasoning_tokens := add_tokens (reasoning_tokens a) (reasoning_tokens b),
      total_tokens := add_tokens (total_tokens a) (total_tokens b)\<rparr>"

lemma add_tokens_assoc: "add_tokens (add_tokens a b) c = add_tokens a (add_tokens b c)"
  by (auto simp: add_tokens_def saturating_add_def min_def split: option.split)

lemma add_tokens_commute: "add_tokens a b = add_tokens b a"
  by (auto simp: add_tokens_def saturating_add_def add.commute split: option.split)

lemma sum_usage_assoc: "sum_usage (sum_usage a b) c = sum_usage a (sum_usage b c)"
  by (simp add: sum_usage_def add_tokens_assoc)

end
