(* ===== verification/Client_Stream.thy ===== *)
theory Client_Stream
  imports Records Retry Stream_Accumulator
begin

text \<open>
  One streamed call in flight (\<open>client/stream.rs\<close>, \<open>client/stream_recovery.rs\<close>): the records of
  the body are decoded into stream events, and a body that breaks off after a checkpoint is reopened
  and read on.

  Parameters, gathered in \<open>stream_env\<close>: the decoder of the wire (\<open>feed\<close>, \<open>finish\<close>,
  \<open>checkpoint\<close>), the reading of a record's checkpoint (\<open>inspect\<close>), the rendering of the call
  that resumes a generation (\<open>resume\<close>), what the network gives when that call is sent
  (\<open>reopen\<close>, by the number of the hop: the failure of the reply, or what each wait for a record
  gives), and the drawing of the jitter. Observers only look on and are left out.
\<close>

record checkpoint =
  ck_token :: string
  ck_continuation :: bool

record 'd stream_env =
  sn_feed :: "'d \<Rightarrow> string option \<Rightarrow> string \<Rightarrow> error + (stream_event list \<times> 'd)"
  sn_finish :: "'d \<Rightarrow> error + stream_event list"
  sn_checkpoint :: "'d \<Rightarrow> 'd option"
  sn_inspect :: "string \<Rightarrow> error + (string \<times> checkpoint option \<times> bool)"
  sn_resume :: "string \<Rightarrow> error + string"
  sn_reopen :: "nat \<Rightarrow> string \<Rightarrow> error + (error + stream_record) list"
  sn_draw :: "nat \<Rightarrow> nat"

record 'd recovery =
  rv_policy :: retry_policy
  rv_token :: "string option"
  rv_decoder :: "'d option"
  rv_revision :: nat
  rv_hops :: nat
  rv_failures :: nat
  rv_continuation :: bool
  rv_terminal :: bool
  rv_waiting :: "nat option"
  rv_usage :: usage
  rv_committed_usage :: usage
  rv_previous_usage :: usage
  rv_initial_input :: "nat option"

definition recovery_new :: "retry_policy \<Rightarrow> 'd recovery" where
  "recovery_new policy =
     \<lparr>rv_policy = policy, rv_token = None, rv_decoder = None, rv_revision = 0, rv_hops = 0,
      rv_failures = 0, rv_continuation = False, rv_terminal = False, rv_waiting = None,
      rv_usage = default_usage, rv_committed_usage = default_usage,
      rv_previous_usage = default_usage, rv_initial_input = None\<rparr>"

text \<open>\<open>records\<close> is what is left of the open body; a stream that waits to be reopened has none.\<close>

record 'd event_stream =
  ev_recovery :: "'d recovery option"
  ev_records :: "(error + stream_record) list"
  ev_decoder :: 'd
  ev_pending :: "stream_event list"
  ev_done :: bool

definition event_stream_new :: "'d \<Rightarrow> (error + stream_record) list \<Rightarrow> 'd recovery option \<Rightarrow> 'd event_stream" where
  "event_stream_new decoder records recovery =
     \<lparr>ev_recovery = recovery, ev_records = records, ev_decoder = decoder, ev_pending = [], ev_done = False\<rparr>"

definition permits :: "error \<Rightarrow> bool" where
  "permits e \<longleftrightarrow> (case e of Transport _ \<Rightarrow> True | _ \<Rightarrow> False) \<or> is_retryable e"

definition no_checkpoint_error :: error where
  "no_checkpoint_error = Malformed ''stream recovery has no checkpoint or exhausted its budget''"

definition schedule_recovery ::
  "'d stream_env \<Rightarrow> error option \<Rightarrow> 'd event_stream \<Rightarrow> error + 'd event_stream" where
  "schedule_recovery env failure s =
     (let refused = Inl (case failure of Some e \<Rightarrow> e | None \<Rightarrow> no_checkpoint_error) in
      case ev_recovery s of
        None \<Rightarrow> refused
      | Some r \<Rightarrow>
          if rv_token r = None \<or> rv_decoder r = None \<or> rv_hops r \<ge> 32
             \<or> rv_failures r \<ge> rt_max_attempts (rv_policy r) - 1
             \<or> (case failure of Some e \<Rightarrow> \<not> permits e | None \<Rightarrow> False)
          then refused
          else
            let hops = rv_hops r + 1;
                failures = (if rv_continuation r then rv_failures r else rv_failures r + 1);
                delay = (if rv_continuation r then 0
                         else calculate_backoff_ms (sn_draw env) (rv_policy r) failures
                                (Option.bind failure get_retry_after_ms))
            in Inr (s
              \<lparr>ev_recovery := Some (r\<lparr>rv_hops := hops, rv_failures := failures, rv_continuation := False,
                                     rv_waiting := Some delay\<rparr>),
               ev_records := [],
               ev_pending := ev_pending s @
                 [Rewind (rv_revision r), Recovering hops delay,
                  UsageEvent (sum_usage (rv_previous_usage r) (rv_committed_usage r))]\<rparr>))"

text \<open>\<open>Option::expect\<close>: a panic ends the call, as an error would.\<close>

definition expectR :: "string \<Rightarrow> 'a option \<Rightarrow> error + 'a" where
  "expectR message x = (case x of Some y \<Rightarrow> Inr y | None \<Rightarrow> Inl (Build message))"

definition reopen :: "'d stream_env \<Rightarrow> 'd recovery \<Rightarrow> 'd event_stream \<Rightarrow> error + 'd event_stream" where
  "reopen env r s =
     (let r = r\<lparr>rv_waiting := None\<rparr>; s = s\<lparr>ev_recovery := Some r\<rparr> in
      bindR (expectR ''checkpoint'' (rv_token r)) (\<lambda>token.
      bindR (sn_resume env token) (\<lambda>call.
      case sn_reopen env (rv_hops r) call of
        Inl e \<Rightarrow> schedule_recovery env (Some e) s
      | Inr records \<Rightarrow>
          bindR (expectR ''checkpoint decoder'' (Option.bind (rv_decoder r) (sn_checkpoint env))) (\<lambda>decoder.
          Inr (s\<lparr>ev_records := records, ev_decoder := decoder,
                 ev_recovery := Some (r\<lparr>
                   rv_previous_usage := sum_usage (rv_previous_usage r) (rv_committed_usage r),
                   rv_terminal := False, rv_committed_usage := default_usage, rv_usage := default_usage\<rparr>)\<rparr>)))))"

text \<open>The usage events of one record, and what they tell the recovery.\<close>

fun note_usage :: "'d recovery \<Rightarrow> stream_event list \<Rightarrow> stream_event list \<times> 'd recovery" where
  "note_usage r [] = ([], r)"
| "note_usage r (UsageEvent u # events) =
     (let r' = r\<lparr>rv_usage := u,
                rv_initial_input := (if rv_initial_input r = None then input_tokens u else rv_initial_input r)\<rparr>
      in case note_usage r' events of (out, q) \<Rightarrow> (UsageEvent (sum_usage (rv_previous_usage r) u) # out, q))"
| "note_usage r (e # events) = (case note_usage r events of (out, q) \<Rightarrow> (e # out, q))"

definition note_record ::
  "'d stream_env \<Rightarrow> 'd \<Rightarrow> checkpoint option \<Rightarrow> bool \<Rightarrow> stream_event list \<Rightarrow> 'd recovery
     \<Rightarrow> stream_event list \<times> 'd recovery" where
  "note_record env decoder ck terminal events r =
     (case note_usage (r\<lparr>rv_terminal := rv_terminal r \<or> terminal\<rparr>) events of (out, q) \<Rightarrow>
      let out = (if rv_initial_input r = None then
                   (case rv_initial_input q of Some tokens \<Rightarrow> out @ [InputTokens tokens] | None \<Rightarrow> out)
                 else out)
      in case ck of
           None \<Rightarrow> (out, q)
         | Some c \<Rightarrow>
             (out @ [Checkpoint (rv_revision q + 1)],
              q\<lparr>rv_token := Some (ck_token c), rv_decoder := sn_checkpoint env decoder,
                rv_revision := rv_revision q + 1, rv_failures := 0,
                rv_committed_usage := rv_usage q, rv_continuation := ck_continuation c\<rparr>))"

fun is_stop :: "stream_event \<Rightarrow> bool" where
  "is_stop (StopEvent _) = True"
| "is_stop _ = False"

text \<open>One turn of the loop of \<open>next\<close>, when nothing is pending and the stream is not done.\<close>

definition read_record :: "'d stream_env \<Rightarrow> stream_record \<Rightarrow> 'd event_stream \<Rightarrow> error + 'd event_stream" where
  "read_record env rc s =
     bindR (case ev_recovery s of
              Some _ \<Rightarrow> sn_inspect env (rc_data rc)
            | None \<Rightarrow> Inr (rc_data rc, None, False)) (\<lambda>(data, ck, terminal).
     case sn_feed env (ev_decoder s) (rc_event rc) data of
       Inl e \<Rightarrow> schedule_recovery env (Some e) s
     | Inr (events, decoder) \<Rightarrow>
         let s = s\<lparr>ev_decoder := decoder\<rparr>;
             (events, recovery) = (case ev_recovery s of
                None \<Rightarrow> (events, None)
              | Some r \<Rightarrow> (case note_record env decoder ck terminal events r of (out, q) \<Rightarrow> (out, Some q)))
         in Inr (s\<lparr>ev_recovery := recovery, ev_pending := ev_pending s @ events,
                   ev_done := (ev_done s \<or> list_ex is_stop events)\<rparr>))"

definition read_next :: "'d stream_env \<Rightarrow> 'd event_stream \<Rightarrow> error + 'd event_stream" where
  "read_next env s =
     (case ev_records s of
        Inl e # rest \<Rightarrow> schedule_recovery env (Some e) (s\<lparr>ev_records := rest\<rparr>)
      | Inr rc # rest \<Rightarrow> read_record env rc (s\<lparr>ev_records := rest\<rparr>)
      | [] \<Rightarrow>
          if (case ev_recovery s of Some r \<Rightarrow> rv_token r \<noteq> None \<and> \<not> rv_terminal r | None \<Rightarrow> False)
          then schedule_recovery env None s
          else bindR (sn_finish env (ev_decoder s)) (\<lambda>events.
            Inr (s\<lparr>ev_pending := ev_pending s @ events, ev_done := True\<rparr>)))"

definition stream_step :: "'d stream_env \<Rightarrow> 'd event_stream \<Rightarrow> error + 'd event_stream" where
  "stream_step env s =
     (case ev_recovery s of
        Some r \<Rightarrow>
          if rv_waiting r \<noteq> None then reopen env r s
          else if rv_continuation r then schedule_recovery env None s
          else read_next env s
      | None \<Rightarrow> read_next env s)"

subsection \<open>Every wait for an event ends\<close>

definition hops_left :: "'d event_stream \<Rightarrow> nat" where
  "hops_left s = (case ev_recovery s of None \<Rightarrow> 0 | Some r \<Rightarrow> 32 - rv_hops r)"

definition is_waiting :: "'d event_stream \<Rightarrow> nat" where
  "is_waiting s = (case ev_recovery s of None \<Rightarrow> 0 | Some r \<Rightarrow> if rv_waiting r = None then 0 else 1)"

abbreviation stream_rank :: "('d event_stream \<times> 'd event_stream) set" where
  "stream_rank \<equiv> measures [hops_left, is_waiting, \<lambda>s. length (ev_records s), \<lambda>s. if ev_done s then 0 else 1,
     \<lambda>s. length (ev_pending s)]"

lemma schedule_recovery_Inr:
  assumes "schedule_recovery env failure s = Inr t"
  obtains r hops failures delay where "ev_recovery s = Some r" "rv_token r \<noteq> None" "rv_decoder r \<noteq> None"
    "rv_hops r < 32" "hops = rv_hops r + 1"
    "rv_failures r < rt_max_attempts (rv_policy r) - 1"
    "failures = (if rv_continuation r then rv_failures r else rv_failures r + 1)"
    "t = s\<lparr>ev_recovery := Some (r\<lparr>rv_hops := hops, rv_failures := failures, rv_continuation := False,
        rv_waiting := Some delay\<rparr>), ev_records := [],
      ev_pending := ev_pending s @ [Rewind (rv_revision r), Recovering hops delay,
        UsageEvent (sum_usage (rv_previous_usage r) (rv_committed_usage r))]\<rparr>"
  using assms
  by (auto simp: schedule_recovery_def Let_def split: option.splits if_splits)

lemma reopen_Inr:
  assumes "reopen env r s = Inr t"
  obtains (failed) e where "schedule_recovery env (Some e) (s\<lparr>ev_recovery := Some (r\<lparr>rv_waiting := None\<rparr>)\<rparr>) = Inr t"
  | (opened) records decoder where "t = s\<lparr>ev_records := records, ev_decoder := decoder,
       ev_recovery := Some (r\<lparr>rv_waiting := None, rv_previous_usage := sum_usage (rv_previous_usage r) (rv_committed_usage r),
         rv_terminal := False, rv_committed_usage := default_usage, rv_usage := default_usage\<rparr>)\<rparr>"
proof -
  from assms obtain token call where c: "expectR ''checkpoint'' (rv_token r) = Inr token" "sn_resume env token = Inr call"
    by (auto simp: reopen_def Let_def bindR_Inr_iff)
  show thesis
  proof (cases "sn_reopen env (rv_hops r) call")
    case (Inl e)
    with assms c show thesis by (intro failed) (simp add: reopen_def Let_def)
  next
    case (Inr records)
    with assms c show thesis by (auto simp: reopen_def Let_def bindR_Inr_iff intro: opened)
  qed
qed

lemma schedule_recovery_shrinks:
  "schedule_recovery env failure s = Inr t \<Longrightarrow> hops_left t < hops_left s"
  by (erule schedule_recovery_Inr) (simp add: hops_left_def)

lemma note_usage_keeps:
  "note_usage r es = (out, q) \<Longrightarrow> \<exists>u i. q = r\<lparr>rv_usage := u, rv_initial_input := i\<rparr>"
proof (induction r es arbitrary: out rule: note_usage.induct)
  case (1 r)
  then have "q = r\<lparr>rv_usage := rv_usage r, rv_initial_input := rv_initial_input r\<rparr>" by simp
  then show ?case by blast
next
  case (2 r u es)
  then obtain out' v i where "note_usage (r\<lparr>rv_usage := u, rv_initial_input :=
        (if rv_initial_input r = None then input_tokens u else rv_initial_input r)\<rparr>) es = (out', q)"
    by (auto simp: Let_def split: prod.splits)
  from "2.IH" [OF refl this] show ?case by auto
qed (auto split: prod.splits)

lemma note_record_Inr:
  assumes "note_record env d ck terminal es r = (out, q)"
  obtains out' u i where "note_usage (r\<lparr>rv_terminal := rv_terminal r \<or> terminal\<rparr>) es
      = (out', r\<lparr>rv_terminal := rv_terminal r \<or> terminal, rv_usage := u, rv_initial_input := i\<rparr>)"
    "out = out' @ (if rv_initial_input r = None then (case i of Some n \<Rightarrow> [InputTokens n] | None \<Rightarrow> []) else [])
       @ (case ck of None \<Rightarrow> [] | Some c \<Rightarrow> [Checkpoint (rv_revision r + 1)])"
    "q = (let r' = r\<lparr>rv_terminal := rv_terminal r \<or> terminal, rv_usage := u, rv_initial_input := i\<rparr> in case ck of
       None \<Rightarrow> r' | Some c \<Rightarrow> r'\<lparr>rv_token := Some (ck_token c), rv_decoder := sn_checkpoint env d,
         rv_revision := rv_revision r + 1, rv_failures := 0, rv_committed_usage := u, rv_continuation := ck_continuation c\<rparr>)"
proof -
  obtain out' q' where n: "note_usage (r\<lparr>rv_terminal := rv_terminal r \<or> terminal\<rparr>) es = (out', q')" by force
  from note_usage_keeps [OF n] obtain u i where
    q': "q' = r\<lparr>rv_terminal := rv_terminal r \<or> terminal, rv_usage := u, rv_initial_input := i\<rparr>" by auto
  show thesis
    by (rule that [OF n [unfolded q']])
      (use assms in \<open>auto simp: note_record_def n q' Let_def split: option.splits if_splits\<close>)
qed

lemma note_record_keeps:
  "note_record env d ck terminal es r = (out, q) \<Longrightarrow> rv_hops q = rv_hops r \<and> rv_waiting q = rv_waiting r"
  by (erule note_record_Inr) (simp add: Let_def split: option.split)

lemma read_record_shrinks:
  assumes "read_record env rc s = Inr t"
  shows "hops_left t < hops_left s \<or> hops_left t = hops_left s \<and> is_waiting t = is_waiting s \<and> ev_records t = ev_records s"
proof -
  from assms obtain data ck terminal where
    "(case sn_feed env (ev_decoder s) (rc_event rc) data of
       Inl e \<Rightarrow> schedule_recovery env (Some e) s
     | Inr (events, decoder) \<Rightarrow>
         let s = s\<lparr>ev_decoder := decoder\<rparr>;
             (events, recovery) = (case ev_recovery s of
                None \<Rightarrow> (events, None)
              | Some r \<Rightarrow> (case note_record env decoder ck terminal events r of (out, q) \<Rightarrow> (out, Some q)))
         in Inr (s\<lparr>ev_recovery := recovery, ev_pending := ev_pending s @ events,
                   ev_done := (ev_done s \<or> list_ex is_stop events)\<rparr>)) = Inr t"
    unfolding read_record_def by (auto simp: bindR_Inr_iff split: option.splits)
  then show ?thesis
    by (auto simp: Let_def hops_left_def is_waiting_def dest: schedule_recovery_shrinks note_record_keeps
        split: sum.splits prod.splits option.splits)
qed

lemma stream_step_shrinks:
  assumes "stream_step env s = Inr t" and "\<not> ev_done s"
  shows "(t, s) \<in> stream_rank"
proof -
  have n: "(t, s) \<in> stream_rank" if n: "read_next env s = Inr t"
  proof (cases "ev_records s")
    case Nil
    with n show ?thesis using assms(2)
      by (auto simp: read_next_def bindR_Inr_iff hops_left_def is_waiting_def dest!: schedule_recovery_shrinks
          split: if_splits option.splits)
  next
    case (Cons x rest)
    let ?s = "s\<lparr>ev_records := rest\<rparr>"
    have e: "hops_left ?s = hops_left s" "is_waiting ?s = is_waiting s" by (simp_all add: hops_left_def is_waiting_def)
    show ?thesis
    proof (cases x)
      case (Inl e)
      with n Cons have "schedule_recovery env (Some e) ?s = Inr t" by (simp add: read_next_def)
      then show ?thesis using schedule_recovery_shrinks e by fastforce
    next
      case (Inr rc)
      with n Cons have "read_record env rc ?s = Inr t" by (simp add: read_next_def)
      from read_record_shrinks [OF this] e Cons show ?thesis by auto
    qed
  qed
  show ?thesis
  proof (cases "ev_recovery s")
    case None
    with assms(1) n show ?thesis by (simp add: stream_step_def)
  next
    case (Some r)
    show ?thesis
    proof (cases "rv_waiting r = None")
      case True
      with assms(1) Some n show ?thesis
        by (auto simp: stream_step_def dest!: schedule_recovery_shrinks split: if_splits)
    next
      case False
      with assms(1) Some have "reopen env r s = Inr t" by (simp add: stream_step_def)
      moreover have "hops_left (s\<lparr>ev_recovery := Some (r\<lparr>rv_waiting := None\<rparr>)\<rparr>) = hops_left s"
        by (simp add: hops_left_def Some)
      ultimately have "hops_left t < hops_left s \<or> hops_left t = hops_left s \<and> is_waiting t < is_waiting s"
      proof (cases rule: reopen_Inr)
        case (failed e)
        then show ?thesis using \<open>hops_left _ = hops_left s\<close> schedule_recovery_shrinks by fastforce
      next
        case (opened records decoder)
        then show ?thesis using False Some by (simp add: hops_left_def is_waiting_def)
      qed
      then show ?thesis by auto
    qed
  qed
qed

function next_event :: "'d stream_env \<Rightarrow> 'd event_stream \<Rightarrow> error + (stream_event option \<times> 'd event_stream)" where
  "next_event env s =
     (case ev_pending s of
        event # pending \<Rightarrow> Inr (Some event, s\<lparr>ev_pending := pending\<rparr>)
      | [] \<Rightarrow> if ev_done s then Inr (None, s)
              else bindR (stream_step env s) (\<lambda>t. next_event env t))"
  by auto

termination
proof (relation "inv_image stream_rank snd")
  show "wf (inv_image stream_rank snd)" by (intro wf_inv_image) simp
  fix env :: "'d stream_env" and s t
  assume "\<not> ev_done s" "stream_step env s = Inr t"
  then have "(t, s) \<in> stream_rank" by (rule stream_step_shrinks [rotated])
  then show "((env, t), env, s) \<in> inv_image stream_rank snd" by simp
qed

declare next_event.simps [simp del]

text \<open>A client that takes every event until the stream ends, or fails.\<close>

lemma next_event_shrinks: "next_event env s = Inr (Some e, t) \<Longrightarrow> (t, s) \<in> stream_rank"
proof (induction env s rule: next_event.induct)
  case (1 env s)
  show ?case
  proof (cases "ev_pending s")
    case Nil
    with "1.prems" have d: "\<not> ev_done s" by (subst (asm) next_event.simps) (auto split: if_splits)
    with Nil "1.prems" obtain u where u: "stream_step env s = Inr u" "next_event env u = Inr (Some e, t)"
      by (subst (asm) next_event.simps) (auto simp: bindR_Inr_iff)
    have "trans stream_rank" by (auto intro!: transI)
    from transD [OF this "1.IH" [OF Nil d u] stream_step_shrinks [OF u(1) d]] show ?thesis .
  next
    case (Cons x xs)
    with "1.prems" show ?thesis by (subst (asm) next_event.simps) (auto simp: hops_left_def is_waiting_def)
  qed
qed

function stream_events :: "'d stream_env \<Rightarrow> 'd event_stream \<Rightarrow> stream_event list \<times> error option" where
  "stream_events env s = (case next_event env s of
     Inl e \<Rightarrow> ([], Some e)
   | Inr (None, _) \<Rightarrow> ([], None)
   | Inr (Some event, t) \<Rightarrow> (case stream_events env t of (events, r) \<Rightarrow> (event # events, r)))"
  by auto

termination
proof (relation "inv_image stream_rank snd")
  show "wf (inv_image stream_rank snd)" by (intro wf_inv_image) simp
  fix env :: "'d stream_env" and s p oe t e
  assume "next_event env s = Inr p" "(oe, t) = p" "oe = Some e"
  then have "(t, s) \<in> stream_rank" by (intro next_event_shrinks [of env s e]) auto
  then show "((env, t), env, s) \<in> inv_image stream_rank snd" by simp
qed

declare stream_events.simps [simp del]

text \<open>One step at a time: what is pending is handed out, then the next step is taken.\<close>

lemma stream_events_pending:
  "stream_events env s = (case stream_events env (s\<lparr>ev_pending := []\<rparr>) of (es, r) \<Rightarrow> (ev_pending s @ es, r))"
proof (induction "ev_pending s" arbitrary: s)
  case Nil
  then show ?case by (cases s) (simp split: prod.split)
next
  case (Cons e es)
  have n: "next_event env s = Inr (Some e, s\<lparr>ev_pending := es\<rparr>)"
    using Cons.hyps(2) [symmetric] by (subst next_event.simps) simp
  show ?case
    using Cons.hyps(1) [of "s\<lparr>ev_pending := es\<rparr>"] Cons.hyps(2) [symmetric]
    by (subst stream_events.simps) (simp add: n split: prod.split)
qed

lemma stream_events_step:
  assumes "ev_pending s = []" and "\<not> ev_done s"
  shows "stream_events env s = (case stream_step env s of
     Inl e \<Rightarrow> ([], Some e)
   | Inr t \<Rightarrow> (case stream_events env (t\<lparr>ev_pending := []\<rparr>) of (es, r) \<Rightarrow> (ev_pending t @ es, r)))"
proof (cases "stream_step env s")
  case (Inl e)
  then have "next_event env s = Inl e" using assms by (subst next_event.simps) simp
  then show ?thesis using Inl by (subst stream_events.simps) simp
next
  case (Inr t)
  then have "next_event env s = next_event env t" using assms by (subst next_event.simps) simp
  then have "stream_events env s = stream_events env t" by (subst (1 2) stream_events.simps) simp
  with Inr stream_events_pending [of env t] show ?thesis by simp
qed

lemma stream_events_done: "ev_pending s = [] \<Longrightarrow> ev_done s \<Longrightarrow> stream_events env s = ([], None)"
  by (subst stream_events.simps, subst next_event.simps) simp

subsection \<open>Rewinds name the last checkpoint\<close>

fun last_checkpoint :: "nat option \<Rightarrow> stream_event list \<Rightarrow> nat option" where
  "last_checkpoint c [] = c"
| "last_checkpoint c (Checkpoint r # es) = last_checkpoint (Some r) es"
| "last_checkpoint c (e # es) = last_checkpoint c es"

fun rewinds_ok :: "nat option \<Rightarrow> stream_event list \<Rightarrow> bool" where
  "rewinds_ok c [] = True"
| "rewinds_ok c (Checkpoint r # es) = rewinds_ok (Some r) es"
| "rewinds_ok c (Rewind r # es) = (c = Some r \<and> rewinds_ok c es)"
| "rewinds_ok c (e # es) = rewinds_ok c es"

lemma last_checkpoint_append: "last_checkpoint c (xs @ ys) = last_checkpoint (last_checkpoint c xs) ys"
  by (induction c xs rule: last_checkpoint.induct) simp_all

lemma rewinds_ok_append: "rewinds_ok c (xs @ ys) \<longleftrightarrow> rewinds_ok c xs \<and> rewinds_ok (last_checkpoint c xs) ys"
  by (induction c xs rule: rewinds_ok.induct) simp_all

text \<open>The decoder of a wire gives content only: it neither marks a checkpoint nor rewinds.\<close>

fun is_content :: "stream_event \<Rightarrow> bool" where
  "is_content (Checkpoint _) = False"
| "is_content (Rewind _) = False"
| "is_content _ = True"

definition content_only :: "'d stream_env \<Rightarrow> bool" where
  "content_only env \<longleftrightarrow>
     (\<forall>d name data es d'. sn_feed env d name data = Inr (es, d') \<longrightarrow> list_all is_content es)
     \<and> (\<forall>d es. sn_finish env d = Inr es \<longrightarrow> list_all is_content es)"

lemma content_trace:
  "list_all is_content es \<Longrightarrow> rewinds_ok c es \<and> last_checkpoint c es = c"
  by (induction c es rule: rewinds_ok.induct) simp_all

lemma note_usage_content: "note_usage r es = (out, q) \<Longrightarrow> list_all is_content es \<Longrightarrow> list_all is_content out"
  by (induction r es arbitrary: out rule: note_usage.induct) (auto simp: Let_def split: prod.splits)

text \<open>What holds while a stream is read: \<open>c\<close> is the last checkpoint of the events handed out.\<close>

definition stream_ok :: "nat option \<Rightarrow> 'd event_stream \<Rightarrow> bool" where
  "stream_ok c s \<longleftrightarrow> rewinds_ok c (ev_pending s) \<and>
     (case ev_recovery s of None \<Rightarrow> True | Some r \<Rightarrow> rv_hops r \<le> 32
        \<and> (rv_token r \<noteq> None \<longrightarrow> last_checkpoint c (ev_pending s) = Some (rv_revision r)))"

lemma schedule_recovery_ok:
  "schedule_recovery env failure s = Inr t \<Longrightarrow> stream_ok c s \<Longrightarrow> stream_ok c t"
  by (erule schedule_recovery_Inr)
    (auto simp: stream_ok_def rewinds_ok_append last_checkpoint_append)

lemma read_record_ok:
  assumes "read_record env rc s = Inr t" and "stream_ok c s" and "content_only env"
  shows "stream_ok c t"
proof -
  from assms(1) obtain data ck terminal where d: "(case sn_feed env (ev_decoder s) (rc_event rc) data of
       Inl e \<Rightarrow> schedule_recovery env (Some e) s
     | Inr (events, decoder) \<Rightarrow>
         let s = s\<lparr>ev_decoder := decoder\<rparr>;
             (events, recovery) = (case ev_recovery s of
                None \<Rightarrow> (events, None)
              | Some r \<Rightarrow> (case note_record env decoder ck terminal events r of (out, q) \<Rightarrow> (out, Some q)))
         in Inr (s\<lparr>ev_recovery := recovery, ev_pending := ev_pending s @ events,
                   ev_done := (ev_done s \<or> list_ex is_stop events)\<rparr>)) = Inr t"
    unfolding read_record_def by (auto simp: bindR_Inr_iff split: option.splits)
  show ?thesis
  proof (cases "sn_feed env (ev_decoder s) (rc_event rc) data")
    case (Inl e)
    with d schedule_recovery_ok assms(2) show ?thesis by fastforce
  next
    case (Inr p)
    then obtain es decoder where f: "sn_feed env (ev_decoder s) (rc_event rc) data = Inr (es, decoder)" by (cases p) auto
    then have es: "list_all is_content es" using assms(3) unfolding content_only_def by blast
    show ?thesis
    proof (cases "ev_recovery s")
      case None
      with d f have t: "ev_pending t = ev_pending s @ es" "ev_recovery t = None" by (auto simp: Let_def)
      with assms(2) None content_trace [OF es] show ?thesis by (simp add: stream_ok_def rewinds_ok_append)
    next
      case (Some r)
      obtain out q where n: "note_record env decoder ck terminal es r = (out, q)" by force
      with d f Some have t: "ev_pending t = ev_pending s @ out" "ev_recovery t = Some q" by (auto simp: Let_def)
      from n show ?thesis
      proof (cases rule: note_record_Inr)
        case (1 out' u i)
        have o: "list_all is_content out'" by (rule note_usage_content [OF 1(1) es])
        have "list_all is_content (out' @ (if rv_initial_input r = None then (case i of Some n \<Rightarrow> [InputTokens n] | None \<Rightarrow> []) else []))"
          using o by (auto split: option.split)
        from content_trace [OF this] show ?thesis
          using assms(2) t Some 1(2,3)
          by (auto simp: stream_ok_def rewinds_ok_append last_checkpoint_append Let_def split: option.splits)
      qed
    qed
  qed
qed

lemma stream_step_ok:
  assumes "stream_step env s = Inr t" and "stream_ok c s" and "content_only env"
  shows "stream_ok c t"
proof -
  have n: "stream_ok c t" if n: "read_next env s = Inr t"
  proof (cases "ev_records s")
    case Nil
    have "sn_finish env (ev_decoder s) = Inr es \<Longrightarrow> list_all is_content es" for es
      using assms(3) unfolding content_only_def by blast
    then have f: "sn_finish env (ev_decoder s) = Inr es \<Longrightarrow> rewinds_ok c' es \<and> last_checkpoint c' es = c'" for es c'
      by (intro content_trace)
    show ?thesis
      using n Nil assms(2) f
      by (auto simp: read_next_def bindR_Inr_iff stream_ok_def rewinds_ok_append last_checkpoint_append
          dest: schedule_recovery_ok [of env _ s t c] split: if_splits option.splits)
  next
    case (Cons x rest)
    have "stream_ok c (s\<lparr>ev_records := rest\<rparr>)" using assms(2) by (simp add: stream_ok_def split: option.splits)
    then show ?thesis
      using n Cons by (cases x) (auto simp: read_next_def intro: schedule_recovery_ok read_record_ok assms(3))
  qed
  show ?thesis
  proof (cases "ev_recovery s")
    case None
    with assms(1) n show ?thesis by (simp add: stream_step_def)
  next
    case (Some r)
    show ?thesis
    proof (cases "rv_waiting r = None")
      case True
      with assms(1,2) Some n show ?thesis
        by (auto simp: stream_step_def intro: schedule_recovery_ok split: if_splits)
    next
      case False
      with assms(1) Some have "reopen env r s = Inr t" by (simp add: stream_step_def)
      then show ?thesis
      proof (cases rule: reopen_Inr)
        case (failed e)
        moreover have "stream_ok c (s\<lparr>ev_recovery := Some (r\<lparr>rv_waiting := None\<rparr>)\<rparr>)"
          using assms(2) Some by (simp add: stream_ok_def)
        ultimately show ?thesis by (rule schedule_recovery_ok)
      qed (use assms(2) Some in \<open>simp add: stream_ok_def\<close>)
    qed
  qed
qed

lemma next_event_ok:
  "next_event env s = Inr (oe, t) \<Longrightarrow> stream_ok c s \<Longrightarrow> content_only env \<Longrightarrow>
     (case oe of None \<Rightarrow> True | Some e \<Rightarrow> rewinds_ok c [e] \<and> stream_ok (last_checkpoint c [e]) t)"
proof (induction env s rule: next_event.induct)
  case (1 env s)
  show ?case
  proof (cases "ev_pending s")
    case (Cons x xs)
    with "1.prems"(1) have "oe = Some x" "t = s\<lparr>ev_pending := xs\<rparr>" by (subst (asm) next_event.simps, simp)+
    with Cons "1.prems"(2) show ?thesis
      using rewinds_ok_append [of c "[x]" xs] last_checkpoint_append [of c "[x]" xs]
      by (simp add: stream_ok_def split: option.splits)
  next
    case Nil
    show ?thesis
    proof (cases "ev_done s")
      case True
      with Nil "1.prems"(1) show ?thesis by (subst (asm) next_event.simps) auto
    next
      case False
      with Nil "1.prems"(1) obtain u where u: "stream_step env s = Inr u" "next_event env u = Inr (oe, t)"
        by (subst (asm) next_event.simps) (auto simp: bindR_Inr_iff)
      from "1.IH" [OF Nil False u stream_step_ok [OF u(1) "1.prems"(2,3)] "1.prems"(3)] show ?thesis .
    qed
  qed
qed

lemma stream_events_ok:
  "content_only env \<Longrightarrow> stream_ok c s \<Longrightarrow> rewinds_ok c (fst (stream_events env s))"
proof (induction env s arbitrary: c rule: stream_events.induct)
  case (1 env s)
  show ?case
  proof (cases "\<exists>e t. next_event env s = Inr (Some e, t)")
    case True
    then obtain e t where n: "next_event env s = Inr (Some e, t)" by blast
    from next_event_ok [OF n "1.prems"(2,1)] have e: "rewinds_ok c [e]" "stream_ok (last_checkpoint c [e]) t" by auto
    from "1.IH" [OF n refl refl "1.prems"(1) e(2)] e(1)
    have "rewinds_ok c ([e] @ fst (stream_events env t))" unfolding rewinds_ok_append by blast
    then show ?thesis by (subst stream_events.simps) (auto simp: n split: prod.split)
  next
    case False
    then have "fst (stream_events env s) = []"
      by (subst stream_events.simps) (auto split: sum.split option.split prod.split)
    then show ?thesis by simp
  qed
qed

lemma event_stream_new_ok: "stream_ok None (event_stream_new d records (map_option recovery_new policy))"
  by (cases policy) (simp_all add: stream_ok_def event_stream_new_def recovery_new_def)

end
