(* ===== verification/Stream_Recovery.thy ===== *)
theory Stream_Recovery
  imports Client_Stream Stream_Contract
begin

text \<open>
  The two ends of a recovered stream together: the events \<open>client/stream.rs\<close> hands out, with the
  rewinds of its recovery, and the accumulator of \<open>protocol/model_use/stream.rs\<close> that takes them.
\<close>

subsection \<open>What a rewind leaves\<close>

fun is_checkpoint :: "stream_event \<Rightarrow> bool" where
  "is_checkpoint (Checkpoint _) = True"
| "is_checkpoint _ = False"

text \<open>The events up to the last checkpoint.\<close>

definition upto_checkpoint :: "stream_event list \<Rightarrow> stream_event list" where
  "upto_checkpoint es = rev (dropWhile (\<lambda>e. \<not> is_checkpoint e) (rev es))"

definition keep :: "stream_event list \<Rightarrow> stream_event \<Rightarrow> stream_event list" where
  "keep es e = (case e of Rewind _ \<Rightarrow> upto_checkpoint es | _ \<Rightarrow> es @ [e])"

text \<open>The events that count, once the attempts that a rewind took back are left out.\<close>

definition kept :: "stream_event list \<Rightarrow> stream_event list" where
  "kept es = foldl keep [] es"

lemma upto_checkpoint_snoc:
  "upto_checkpoint (es @ [e]) = (if is_checkpoint e then es @ [e] else upto_checkpoint es)"
  by (simp add: upto_checkpoint_def)

lemma upto_checkpoint_idem [simp]: "upto_checkpoint (upto_checkpoint es) = upto_checkpoint es"
  by (induction es rule: rev_induct) (simp_all add: upto_checkpoint_snoc, simp add: upto_checkpoint_def)

lemma kept_snoc: "kept (es @ [e]) = keep (kept es) e"
  by (simp add: kept_def)

lemma kept_no_rewind: "Rewind r \<notin> set (kept es)"
proof (induction es rule: rev_induct)
  case (snoc e es)
  have "set (upto_checkpoint (kept es)) \<subseteq> set (kept es)"
    by (auto simp: upto_checkpoint_def dest: set_dropWhileD)
  with snoc show ?case by (auto simp: kept_snoc keep_def split: stream_event.splits)
qed (simp add: kept_def)

abbreviation restored :: "nat \<times> acc_core \<Rightarrow> accumulator" where
  "restored c \<equiv> acc_core.extend (snd c) (accumulator.fields (Some c))"

lemma feed_checkpoint:
  assumes "feed acc e = Inr acc'" and "\<not> is_checkpoint e" 
  shows "acc_checkpoint acc' = acc_checkpoint acc"
proof -
  from assms(1) have "feed_open e acc = Inr acc'" by (simp add: feed_def split: if_splits)
  then show ?thesis
  proof (cases e)
    case (Rewind n)
    with \<open>feed_open e acc = Inr acc'\<close> show ?thesis
      by (auto simp: rewind_def acc_core.defs accumulator.defs split: if_splits option.splits)
  qed (use \<open>feed_open e acc = Inr acc'\<close> assms(2) in \<open>auto simp: open_block_def close_block_def
      complete_block_def split: option.splits if_splits dest!: edit_block_rest\<close>)
qed

lemma feed_kept:
  assumes "feed_all es new_accumulator = Inr acc"
  shows "feed_all (kept es) new_accumulator = Inr acc \<and>
    (\<forall>c. acc_checkpoint acc = Some c \<longrightarrow> feed_all (upto_checkpoint (kept es)) new_accumulator = Inr (restored c))"
  using assms
proof (induction es arbitrary: acc rule: rev_induct)
  case Nil
  then have "acc = new_accumulator" by simp
  then show ?case by (simp add: kept_def) (simp add: new_accumulator_def)
next
  case (snoc e es)
  from snoc.prems obtain a where a: "feed_all es new_accumulator = Inr a" "feed a e = Inr acc"
    by (auto simp: feed_all_append bindR_Inr_iff)
  note ih = snoc.IH [OF a(1)]
  show ?case
  proof (cases e)
    case (Rewind r)
    with a(2) obtain core where c: "acc_checkpoint a = Some (r, core)" "acc = restored (r, core)"
      by (auto simp: feed_def rewind_def split: option.splits if_splits)
    then have "acc_checkpoint acc = Some (r, core)" by (simp add: acc_core.defs accumulator.defs)
    with ih c Rewind show ?thesis by (simp add: kept_snoc keep_def)
  next
    case (Checkpoint r)
    with a(2) have c: "acc = a\<lparr>acc_checkpoint := Some (r, acc_core.truncate a)\<rparr>"
      by (auto simp: feed_def split: if_splits)
    then have "restored (r, acc_core.truncate a) = acc"
      by (cases a) (simp add: acc_core.defs accumulator.defs)
    with ih c Checkpoint a(2) show ?thesis
      by (simp add: kept_snoc keep_def upto_checkpoint_snoc feed_all_append)
  qed (use ih a(2) feed_checkpoint [OF a(2)] in
      \<open>simp_all add: kept_snoc keep_def upto_checkpoint_snoc feed_all_append\<close>)
qed

subsection \<open>A rewind always finds its checkpoint\<close>

lemma feed_all_last_checkpoint:
  assumes "feed_all es acc = Inr acc'"
  shows "map_option fst (acc_checkpoint acc') = last_checkpoint (map_option fst (acc_checkpoint acc)) es"
  using assms
proof (induction es arbitrary: acc)
  case (Cons e es)
  then obtain a where a: "feed acc e = Inr a" "feed_all es a = Inr acc'" by (auto simp: bindR_Inr_iff)
  have "map_option fst (acc_checkpoint a) = last_checkpoint (map_option fst (acc_checkpoint acc)) [e]"
    using a(1) feed_checkpoint [OF a(1)] by (cases e) (auto simp: feed_def split: if_splits)
  with Cons.IH [OF a(2)] show ?case
    using last_checkpoint_append [of "map_option fst (acc_checkpoint acc)" "[e]" es] by simp
qed simp

lemma rewind_accepted:
  assumes "rewinds_ok None (pre @ Rewind r # post)" and "feed_all pre new_accumulator = Inr acc"
    and "acc_stop_reason acc = None"
  shows "\<exists>acc'. feed acc (Rewind r) = Inr acc' \<and> feed_all (upto_checkpoint (kept pre)) new_accumulator = Inr acc'"
proof -
  from assms(1) have "last_checkpoint None pre = Some r" by (simp add: rewinds_ok_append)
  with feed_all_last_checkpoint [OF assms(2)] obtain core where c: "acc_checkpoint acc = Some (r, core)"
    by (auto simp: new_accumulator_def)
  with feed_kept [OF assms(2)] assms(3) show ?thesis by (simp add: feed_def rewind_def)
qed

end
