(* ===== verification/Transport_Properties.thy ===== *)
theory Transport_Properties
  imports Http Stream_Recovery
begin

text \<open>
  The properties of the transport: how the body of a reply is cut into records, what it may cost,
  how often a call is attempted, and how a stream that broke off goes on.
\<close>

section \<open>Records\<close>

text \<open>
  C23: the chunks the network delivers do not matter. Two ways of cutting the same bytes into chunks
  give the same records, the same error and the same parser, for both framings and wherever the
  parser stands.
\<close>

theorem chunking_is_invisible:
  assumes "cs \<noteq> []" and "ds \<noteq> []" and "concat cs = concat ds"
  shows "feed_chunks parser_feed p cs = feed_chunks parser_feed p ds"
  by (rule parser.chunks_do_not_matter [OF assms])

theorem chunking_is_invisible_witness:
  "feed_chunks parser_feed (parser_new FramingSse default_limits) [''data: a'', [newline, newline]]
     = feed_chunks parser_feed (parser_new FramingSse default_limits) [''da'', ''ta: a'' @ [newline], [newline]]"
  by (rule chunking_is_invisible) simp_all

lemma read_all_whole:
  assumes "parser_feed p (concat cs) = Inr (out, q)" and "parser_finish q = Inr ([], q')"
    and "parser_feed p [] = Inr ([], p)" and "p = parser_new framing l" and "length out \<le> lm_max_stream_events l"
  shows "read_all (record_stream_new (map Inr cs) framing l) = (out, None)"
proof -
  have "feed_chunks parser_feed p cs = Inr (out, q)"
    using assms(1,3) parser.feed_concat [of cs p] by (cases "cs = []") simp_all
  from read_all_chunks [of "record_stream_new (map Inr cs) framing l", OF _ assms(2), of cs out] this assms(4,5)
  show ?thesis by (simp add: record_stream_new_def)
qed

lemma sse_finish_new: "sse_finish (with_max_event_bytes m) = Inr ([], with_max_event_bytes m)"
  by (simp add: sse_finish_def with_max_event_bytes_def enforce_cap_def flush_pending_def saturating_add_def)

lemma sse_read_back:
  assumes "list_all encodable rs" and "list_all (\<lambda>r. length (sse_encode r) \<le> lm_max_event_bytes l) rs"
    and "lm_max_event_bytes l < u64_max" and "length rs \<le> lm_max_stream_events l"
    and "concat cs = concat (map sse_encode rs)"
  shows "read_all (record_stream_new (map Inr cs) FramingSse l) = (map record_of rs, None)"
proof -
  let ?p = "with_max_event_bytes (lm_max_event_bytes l)"
  show ?thesis
    using sse_round_trip_whole [OF assms(1-3)] sse_round_trip_whole [of "[]" "lm_max_event_bytes l"] assms(3,4,5)
    by (intro read_all_whole [of "SseP ?p" _ _ "SseP ?p" "SseP ?p"])
      (simp_all add: sse_finish_new parser_new_def)
qed

text \<open>
  C24: server-sent events arrive as they were sent. Records written as the format asks, each within
  the cap of one event and no more of them than the stream may hold, are read back one by one, in
  order and nothing else, however the network cuts the bytes.
\<close>

theorem sse_round_trip:
  assumes "list_all encodable rs" and "list_all (\<lambda>r. length (sse_encode r) \<le> lm_max_event_bytes l) rs"
    and "lm_max_event_bytes l < u64_max" and "length rs \<le> lm_max_stream_events l"
    and "concat cs = concat (map sse_encode rs)"
  shows "read_all (record_stream_new (map Inr cs) FramingSse l) = (map record_of rs, None)"
  by (rule sse_read_back [OF assms])

definition sample_records :: "(string option \<times> string list) list" where
  "sample_records = [(Some ''delta'', [''a'', ''b'']), (None, [''[DONE]''])]"

theorem sse_round_trip_witness:
  "read_all (record_stream_new (map (\<lambda>b. Inr [b]) (concat (map sse_encode sample_records))) FramingSse default_limits)
     = (map record_of sample_records, None)"
proof -
  have "list_all encodable sample_records"
    by (simp add: sample_records_def encodable_def plain_line_def newline_def carriage_return_def well_formed_ascii)
  moreover have "list_all (\<lambda>r. length (sse_encode r) \<le> lm_max_event_bytes default_limits) sample_records"
    by (simp add: sample_records_def sse_encode_def sse_line_def default_limits_def)
  moreover have "lm_max_event_bytes default_limits < u64_max" by (simp add: default_limits_def u64_max_def)
  moreover have "length sample_records \<le> lm_max_stream_events default_limits"
    by (simp add: sample_records_def default_limits_def)
  moreover have "concat (map (\<lambda>b. [b]) xs) = xs" for xs :: string by (induction xs) simp_all
  ultimately show ?thesis
    using sse_round_trip [of sample_records default_limits "map (\<lambda>b. [b]) (concat (map sse_encode sample_records))"]
    by (simp add: comp_def)
qed

text \<open>
  C25: the binary event stream arrives as it was sent. Frames written as the format asks, with any
  headers and payload and within the cap, are read back as the records they stand for, however the
  network cuts the bytes; the checks of both checksums pass.
\<close>

theorem event_stream_round_trip:
  assumes "list_all (frame_ok (lm_max_event_bytes l)) fs" and "length fs \<le> lm_max_stream_events l"
    and "concat cs = concat (map encode_frame fs)"
  shows "read_all (record_stream_new (map Inr cs) FramingAwsEventStream l) = (List.map_filter decode_record fs, None)"
proof -
  let ?p = "with_max_frame (lm_max_event_bytes l)"
  have "length (List.map_filter decode_record fs) \<le> length fs"
    by (simp add: map_filter_def)
  with es_round_trip_whole [OF assms(1)] es_round_trip_whole [of "lm_max_event_bytes l" "[]"] assms(2,3) show ?thesis
    by (intro read_all_whole [of "AwsP ?p" _ _ "AwsP ?p" "AwsP ?p"])
      (simp_all add: parser_new_def es_finish_def with_max_frame_def map_filter_simps)
qed

definition sample_frame :: event_stream_frame where
  "sample_frame = \<lparr>es_headers = [('':event-type'', EsString ''chunk''), (''n'', EsInt (- 3))], es_payload = ''{}''\<rparr>"

lemma sample_frame_headers: "list_all header_ok (es_headers sample_frame)"
  by (simp add: sample_frame_def header_ok_def fits_def well_formed_ascii)

lemma sample_frame_length: "length (encode_frame sample_frame) = 45"
  by (simp add: sample_frame_def encode_frame_def encode_prelude_def encode_header_def Let_def)

theorem event_stream_round_trip_witness:
  "read_all (record_stream_new (map Inr [take 7 (encode_frame sample_frame), drop 7 (encode_frame sample_frame)])
     FramingAwsEventStream default_limits) = ([\<lparr>rc_event = Some ''chunk'', rc_data = ''{}''\<rparr>], None)"
proof -
  have "frame_ok (lm_max_event_bytes default_limits) sample_frame"
    unfolding frame_ok_def sample_frame_length using sample_frame_headers by (simp add: default_limits_def)
  moreover have "decode_record sample_frame = Some \<lparr>rc_event = Some ''chunk'', rc_data = ''{}''\<rparr>"
    by (simp add: decode_record_def sample_frame_def get_string_header_def well_formed_ascii)
  ultimately show ?thesis
    using event_stream_round_trip [of default_limits "[sample_frame]"
        "[take 7 (encode_frame sample_frame), drop 7 (encode_frame sample_frame)]"]
    by (simp add: map_filter_simps default_limits_def)
qed

text \<open>
  C26: a damaged frame is noticed. Whatever frame parses, changing any one byte of its headers or its
  payload, in whatever way, makes the parser refuse it for its checksum.
\<close>

theorem damaged_frame_is_refused:
  assumes "parse_frame bytes = Inr frame" and "be_nat (take 4 bytes) = length bytes"
    and "prelude_len \<le> i" and "i + 4 < length bytes" and "b \<noteq> bytes ! i"
  shows "parse_frame (bytes[i := b]) = Inl CrcMismatch"
  by (rule corrupted_frame [OF assms])

theorem damaged_frame_is_refused_witness:
  "\<exists>b. parse_frame ((encode_frame sample_frame)[20 := b]) = Inl CrcMismatch"
proof -
  obtain b where "b \<noteq> encode_frame sample_frame ! 20"
    by (cases "encode_frame sample_frame ! 20 = CHR ''a''") (auto intro: that [of "CHR ''a''"] that [of "CHR ''b''"])
  with damaged_frame_is_refused [of "encode_frame sample_frame" sample_frame 20 b]
    parse_frame_encode [OF sample_frame_headers] show ?thesis
    unfolding sample_frame_length by (simp add: prelude_len_def sample_frame_length) blast
qed

text \<open>
  C27: no byte is lost or read twice. What a parser has been fed is exactly the frames it gave, one
  after the other, each of the length it announces and within the cap, and the buffer it still holds,
  which stays below the largest frame.
\<close>

theorem frames_cover_the_bytes:
  assumes "es_feed (with_max_frame m) bytes = Inr (out, q)"
  shows "(\<exists>segs. bytes = concat segs @ ep_buffer q \<and> list_all2 (frame_bytes m) segs out)
     \<and> length (ep_buffer q) \<le> max min_frame m"
  using assms feed_frames_cut [of m bytes out "ep_buffer q"]
  by (auto simp: es_feed_def with_max_frame_def bindR_Inr_iff)

theorem frames_cover_the_bytes_witness:
  "\<exists>q. es_feed (with_max_frame 100) (concat (map encode_frame [sample_frame]) @ []) = Inr ([sample_frame], q)
     \<and> length (ep_buffer q) \<le> max min_frame 100"
proof -
  have "list_all (frame_ok 100) [sample_frame]"
    unfolding frame_ok_def using sample_frame_headers by (simp add: sample_frame_length)
  from es_round_trip_whole [OF this] have "es_feed (with_max_frame 100) (concat (map encode_frame [sample_frame]) @ [])
      = Inr ([sample_frame], with_max_frame 100)" by simp
  with frames_cover_the_bytes [OF this] show ?thesis by blast
qed

section \<open>What a reply may cost\<close>

text \<open>
  C28: a service cannot make the parser hold more than its cap. Whatever bytes arrive, in whatever
  chunks, the unfinished line and the record that is being gathered stay within the cap together, and
  no record is larger than three times the cap (the cost of replacing broken UTF-8).
\<close>

theorem sse_memory_is_bounded:
  assumes "m < u64_max" and "feed_chunks sse_feed (with_max_event_bytes m) cs = Inr (out, q)"
  shows "ss_pending_bytes q + length (ss_buffer q) \<le> m \<and> held q \<le> 3 * m
     \<and> (\<forall>r \<in> set out. record_size r \<le> 3 * m)"
proof (cases "cs = []")
  case True
  with assms(2) show ?thesis by (auto simp: with_max_event_bytes_def held_def)
next
  case False
  from sse_feed_bounded [OF assms(1) sse_new_bounded, of "concat cs" out q] assms(2)
  have "sse_bounded m q" "\<forall>r \<in> set out. record_size r \<le> 3 * m"
    using sse.feed_concat [OF False, of "with_max_event_bytes m"] by auto
  then show ?thesis by (auto simp: sse_bounded_def loop_bounded_def)
qed

theorem sse_memory_is_bounded_witness:
  "\<exists>out q. feed_chunks sse_feed (with_max_event_bytes 99) (map sse_encode sample_records) = Inr (out, q)
     \<and> length out = 2 \<and> held q \<le> 297 \<and> (\<forall>r \<in> set out. record_size r \<le> 297)"
proof -
  have "list_all encodable sample_records"
    by (simp add: sample_records_def encodable_def plain_line_def newline_def carriage_return_def well_formed_ascii)
  moreover have "list_all (\<lambda>r. length (sse_encode r) \<le> 99) sample_records"
    by (simp add: sample_records_def sse_encode_def sse_line_def)
  moreover have m: "99 < u64_max" by (simp add: u64_max_def)
  ultimately have "sse_feed (with_max_event_bytes 99) (concat (map sse_encode sample_records))
      = Inr (map record_of sample_records, with_max_event_bytes 99)" by (rule sse_round_trip_whole)
  then have f: "feed_chunks sse_feed (with_max_event_bytes 99) (map sse_encode sample_records)
      = Inr (map record_of sample_records, with_max_event_bytes 99)"
    by (subst sse.feed_concat) (simp_all add: sample_records_def)
  from sse_memory_is_bounded [OF m f] f show ?thesis by (auto simp: sample_records_def)
qed

text \<open>C29: a client never gets more records from one stream than its limits allow.\<close>

theorem record_ceiling:
  "length (fst (read_all (record_stream_new reply framing l))) \<le> lm_max_stream_events l"
  using read_all_ceiling [of "record_stream_new reply framing l"] by (simp add: record_stream_new_def)



section \<open>Attempts\<close>

text \<open>
  C31: a call is attempted until the first attempt that succeeds, that the caller does not want
  repeated, or that is the last the policy allows, and its result is that attempt's. Attempts are
  never more than the policy says (one, when it says none).
\<close>

theorem retry_stops_in_time:
  "\<exists>k. 1 \<le> k \<and> k \<le> max 1 (rt_max_attempts policy) \<and> last_attempt policy attempt decide k
     \<and> (\<forall>i. 1 \<le> i \<and> i < k \<longrightarrow> \<not> last_attempt policy attempt decide i)
     \<and> retry_call draw policy attempt decide = attempt k
     \<and> length (fst (retry_observed draw policy attempt decide 1)) = 2 * (k - 1)"
proof -
  obtain events r where o: "retry_observed draw policy attempt decide 1 = (events, r)" by force
  from retry_observed_last [OF o] o show ?thesis by (auto simp: retry_call_def)
qed

theorem retry_stops_in_time_witness:
  "\<exists>k. k \<le> 6 \<and> retry_call (\<lambda>b. b) policy_model (\<lambda>n. if n < 3 then Inl n else Inr n) (\<lambda>_. RetryAgain None)
     = (if k < 3 then Inl k else Inr (k :: nat)) \<and> \<not> k < 3"
proof -
  from retry_stops_in_time [of policy_model "\<lambda>n. if n < 3 then Inl n else Inr n" "\<lambda>_. RetryAgain None" "\<lambda>b. b"]
  obtain k where "k \<le> 6" "last_attempt policy_model (\<lambda>n. if n < 3 then Inl n else Inr n) (\<lambda>_ :: nat. RetryAgain None) k"
    "retry_call (\<lambda>b. b) policy_model (\<lambda>n. if n < 3 then Inl n else Inr n) (\<lambda>_. RetryAgain None) = (if k < 3 then Inl k else Inr k)"
    by (auto simp: policy_model_def)
  then show ?thesis by (intro exI [of _ k]) (auto simp: last_attempt_def policy_model_def split: if_splits)
qed

text \<open>
  A wait is never shorter than the policy's delay for that attempt, never shorter than what the
  service asked for, and, when the service asked for nothing, never longer than delay and jitter of
  that attempt together.
\<close>

lemma backoff_is_bounded:
  assumes "draws_within draw"
  shows "min u64_max (rt_delay_ms p * (if rt_linear p then max n 1 else 1)) \<le> calculate_backoff_ms draw p n r
     \<and> (case r of Some ms \<Rightarrow> ms \<le> calculate_backoff_ms draw p n r
        | None \<Rightarrow> calculate_backoff_ms draw p n r \<le> (rt_delay_ms p + rt_jitter_ms p) * (if rt_linear p then max n 1 else 1))"
  using backoff_bounds [OF assms, where p = p and n = n and r = r] unfolding saturating_mul_def by (auto split: option.split)

section \<open>Recovery\<close>

text \<open>
  A stream of three records that breaks off after the second, is reopened after the first, which is a
  checkpoint, and then runs to its stop. The decoder counts the records it has seen.
\<close>

definition sample_env :: "nat stream_env" where
  "sample_env =
     \<lparr>sn_feed = (\<lambda>d _ data. Inr ((if d = 0 then [BlockStart 0 KindText] else []) @ [TextDelta 0 data], d + 1)),
      sn_finish = (\<lambda>_. Inr [BlockEnd 0, StopEvent Stop]),
      sn_checkpoint = Some,
      sn_inspect = (\<lambda>data. Inr (data, if data = ''a'' then Some \<lparr>ck_token = ''t'', ck_continuation = False\<rparr> else None, data = ''c'')),
      sn_resume = Inr,
      sn_reopen = (\<lambda>_ _. Inr [Inr \<lparr>rc_event = None, rc_data = ''c''\<rparr>]),
      sn_draw = (\<lambda>b. b)\<rparr>"

definition broken_records :: "(error + stream_record) list" where
  "broken_records = [Inr \<lparr>rc_event = None, rc_data = ''a''\<rparr>, Inr \<lparr>rc_event = None, rc_data = ''b''\<rparr>,
     Inl (build_read_error ''reset'')]"

definition recovered_stream :: "stream_event list" where
  "recovered_stream = fst (stream_events sample_env (event_stream_new 0 broken_records (map_option recovery_new (Some policy_model))))"

lemma recovered_stream_events:
  "recovered_stream = [BlockStart 0 KindText, TextDelta 0 ''a'', Checkpoint 1, TextDelta 0 ''b''] @ Rewind 1 #
     [Recovering 1 6000, UsageEvent default_usage, TextDelta 0 ''c'', BlockEnd 0, StopEvent Stop]"
  by (simp add: recovered_stream_def event_stream_new_def recovery_new_def broken_records_def sample_env_def
      stream_events_step stream_events_done stream_step_def read_next_def read_record_def note_record_def
      schedule_recovery_def reopen_def expectR_def permits_def build_read_error_def from_transport_error_def
      policy_model_def calculate_backoff_ms_def saturating_mul_def saturating_add_def u64_max_def
      sum_usage_def default_usage_def add_tokens_def Let_def)




text \<open>
  C34: the result of a stream is that of its kept events. An accumulator that took a whole stream,
  broken attempts and rewinds included, is the one that never saw what the rewinds took back.
\<close>

theorem rewound_events_leave_no_trace:
  assumes "feed_all es new_accumulator = Inr acc"
  shows "feed_all (kept es) new_accumulator = Inr acc \<and> (\<forall>r. Rewind r \<notin> set (kept es))"
  using feed_kept [OF assms] kept_no_rewind by blast

theorem rewound_events_leave_no_trace_witness:
  "\<exists>acc. feed_all recovered_stream new_accumulator = Inr acc
     \<and> feed_all [BlockStart 0 KindText, TextDelta 0 ''a'', Checkpoint 1, Recovering 1 6000, UsageEvent default_usage,
         TextDelta 0 ''c'', BlockEnd 0, StopEvent Stop] new_accumulator = Inr acc"
proof -
  have "\<exists>acc. feed_all recovered_stream new_accumulator = Inr acc"
    by (simp add: recovered_stream_events new_accumulator_def feed_def open_block_def edit_block_def get_block_def
        new_block_def rewind_def close_block_def acc_core.defs accumulator.defs)
  then obtain acc where a: "feed_all recovered_stream new_accumulator = Inr acc" by blast
  from rewound_events_leave_no_trace [OF a] a show ?thesis
    by (simp add: recovered_stream_events kept_def keep_def upto_checkpoint_def)
qed

end
