(* ===== verification/Storage_Cache.thy ===== *)
theory Storage_Cache
  imports Store
begin

text \<open>
  The cache of decoded values in front of the database (\<open>storage/cache.rs\<close>).

  \<open>LruCache\<close> is a library: its operations are a parameter, the record \<open>lru\<close>, and what the cache
  relies on is \<open>lru_laws\<close>, the documented behaviour of a map that also knows an order of use;
  \<open>view\<close> reads it as a map. A cached value is an \<open>Arc\<close> of any type: one stored value, or the cells
  of one page of a list with the type of its items.
\<close>

datatype cache_key =
    ObjectKey string
  | ItemKey string nat
  | PageKey string nat

datatype 'v cached = CachedOne 'v | CachedPage string "'v option list"

record 'v cached_value =
  cv_value :: "'v cached"
  cv_weight :: nat

record ('l, 'v) lru =
  lru_unbounded :: 'l
  lru_len :: "'l \<Rightarrow> nat"
  lru_get :: "cache_key \<Rightarrow> 'l \<Rightarrow> 'v cached_value option \<times> 'l"
  lru_pop :: "cache_key \<Rightarrow> 'l \<Rightarrow> 'v cached_value option \<times> 'l"
  lru_pop_lru :: "'l \<Rightarrow> (cache_key \<times> 'v cached_value) option \<times> 'l"
  lru_put :: "cache_key \<Rightarrow> 'v cached_value \<Rightarrow> 'l \<Rightarrow> 'l"
  lru_clear :: "'l \<Rightarrow> 'l"

record 'l cache =
  ca_values :: 'l
  ca_capacity :: nat
  ca_used :: nat

definition cache_new :: "('l, 'v) lru \<Rightarrow> nat \<Rightarrow> 'l cache" where
  "cache_new L capacity = \<lparr>ca_values = lru_unbounded L, ca_capacity = capacity, ca_used = 0\<rparr>"

definition cache_get :: "('l, 'v) lru \<Rightarrow> cache_key \<Rightarrow> 'l cache \<Rightarrow> 'v cached_value option \<times> 'l cache" where
  "cache_get L key c = (case lru_get L key (ca_values c) of (found, values) \<Rightarrow> (found, c\<lparr>ca_values := values\<rparr>))"

definition cache_invalidate :: "('l, 'v) lru \<Rightarrow> cache_key \<Rightarrow> 'l cache \<Rightarrow> 'l cache" where
  "cache_invalidate L key c = (case lru_pop L key (ca_values c) of
     (Some removed, values) \<Rightarrow> c\<lparr>ca_values := values, ca_used := ca_used c - cv_weight removed\<rparr>
   | (None, values) \<Rightarrow> c\<lparr>ca_values := values\<rparr>)"

text \<open>
  The loop that makes room: \<open>n\<close> bounds its rounds, and a round takes an entry away, so that the
  number of entries is enough.
\<close>

fun make_room :: "('l, 'v) lru \<Rightarrow> nat \<Rightarrow> nat \<Rightarrow> 'l cache \<Rightarrow> 'l cache" where
  "make_room L 0 weight c = c"
| "make_room L (Suc n) weight c =
     (if ca_used c > ca_capacity c - weight
      then case lru_pop_lru L (ca_values c) of
          (Some (_, removed), values) \<Rightarrow>
            make_room L n weight (c\<lparr>ca_values := values, ca_used := ca_used c - cv_weight removed\<rparr>)
        | (None, values) \<Rightarrow> c\<lparr>ca_values := values\<rparr>
      else c)"

definition cache_insert :: "('l, 'v) lru \<Rightarrow> cache_key \<Rightarrow> 'v cached_value \<Rightarrow> 'l cache \<Rightarrow> 'l cache" where
  "cache_insert L key w c =
     (let c = cache_invalidate L key c in
      if cv_weight w > ca_capacity c then c
      else let c = make_room L (lru_len L (ca_values c)) (cv_weight w) c in
        c\<lparr>ca_values := lru_put L key w (ca_values c), ca_used := ca_used c + cv_weight w\<rparr>)"

definition cache_clear :: "('l, 'v) lru \<Rightarrow> 'l cache \<Rightarrow> 'l cache" where
  "cache_clear L c = c\<lparr>ca_values := lru_clear L (ca_values c), ca_used := 0\<rparr>"

subsection \<open>What the library promises\<close>

definition lru_laws :: "('l \<Rightarrow> cache_key \<Rightarrow> 'v cached_value option) \<Rightarrow> ('l, 'v) lru \<Rightarrow> bool" where
  "lru_laws view L \<longleftrightarrow>
     view (lru_unbounded L) = Map.empty
     \<and> (\<forall>l. finite (dom (view l)) \<and> lru_len L l = card (dom (view l)))
     \<and> (\<forall>k l. fst (lru_get L k l) = view l k \<and> view (snd (lru_get L k l)) = view l)
     \<and> (\<forall>k l. fst (lru_pop L k l) = view l k \<and> view (snd (lru_pop L k l)) = (view l)(k := None))
     \<and> (\<forall>l. case fst (lru_pop_lru L l) of
           None \<Rightarrow> view l = Map.empty \<and> view (snd (lru_pop_lru L l)) = Map.empty
         | Some (k, w) \<Rightarrow> view l k = Some w \<and> view (snd (lru_pop_lru L l)) = (view l)(k := None))
     \<and> (\<forall>k w l. view (lru_put L k w l) = (view l)(k \<mapsto> w))
     \<and> (\<forall>l. view (lru_clear L l) = Map.empty)"

lemma lru_lawsD:
  assumes "lru_laws view L"
  shows "view (lru_unbounded L) = Map.empty" and "finite (dom (view l))" and "lru_len L l = card (dom (view l))"
    and "fst (lru_get L k l) = view l k" and "view (snd (lru_get L k l)) = view l"
    and "fst (lru_pop L k l) = view l k" and "view (snd (lru_pop L k l)) = (view l)(k := None)"
    and "view (lru_put L k w l) = (view l)(k \<mapsto> w)" and "view (lru_clear L l) = Map.empty"
  using assms unfolding lru_laws_def by blast+

lemma lru_laws_pop_lru:
  assumes "lru_laws view L"
  shows "case fst (lru_pop_lru L l) of
       None \<Rightarrow> view l = Map.empty \<and> view (snd (lru_pop_lru L l)) = Map.empty
     | Some (k, w) \<Rightarrow> view l k = Some w \<and> view (snd (lru_pop_lru L l)) = (view l)(k := None)"
  using assms unfolding lru_laws_def by blast

text \<open>What the cache holds, and the bytes it counts for it.\<close>

definition held_weight :: "(cache_key \<Rightarrow> 'v cached_value option) \<Rightarrow> nat" where
  "held_weight m = (\<Sum>k \<in> dom m. cv_weight (the (m k)))"

definition cache_fits :: "('l \<Rightarrow> cache_key \<Rightarrow> 'v cached_value option) \<Rightarrow> 'l cache \<Rightarrow> bool" where
  "cache_fits view c \<longleftrightarrow> ca_used c = held_weight (view (ca_values c)) \<and> ca_used c \<le> ca_capacity c"

lemma held_weight_remove:
  assumes "finite (dom m)" and "m k = Some w"
  shows "held_weight (m(k := None)) = held_weight m - cv_weight w" and "cv_weight w \<le> held_weight m"
proof -
  have s: "held_weight m = cv_weight w + (\<Sum>j \<in> dom m - {k}. cv_weight (the (m j)))"
    using assms unfolding held_weight_def by (subst sum.remove [of _ k]) (auto simp: domI)
  moreover have "held_weight (m(k := None)) = (\<Sum>j \<in> dom m - {k}. cv_weight (the (m j)))"
    unfolding held_weight_def by (intro sum.cong) auto
  ultimately show "held_weight (m(k := None)) = held_weight m - cv_weight w" "cv_weight w \<le> held_weight m"
    by simp_all
qed

lemma held_weight_put:
  assumes "finite (dom m)" and "m k = None"
  shows "held_weight (m(k \<mapsto> w)) = held_weight m + cv_weight w"
proof -
  have "k \<notin> dom m" using assms(2) by auto
  then have "held_weight (m(k \<mapsto> w)) = cv_weight w + (\<Sum>j \<in> dom m. cv_weight (the ((m(k \<mapsto> w)) j)))"
    using assms(1) by (simp add: held_weight_def)
  also have "(\<Sum>j \<in> dom m. cv_weight (the ((m(k \<mapsto> w)) j))) = held_weight m"
    unfolding held_weight_def by (intro sum.cong) (use \<open>k \<notin> dom m\<close> in auto)
  finally show ?thesis by (simp only: add.commute)
qed

lemma cache_get_view:
  assumes "lru_laws view L" and "cache_get L k c = (r, c')"
  shows "r = view (ca_values c) k" and "view (ca_values c') = view (ca_values c)"
    and "cache_fits view c \<Longrightarrow> cache_fits view c'"
proof -
  from assms(2) obtain l where l: "lru_get L k (ca_values c) = (r, l)" "c' = c\<lparr>ca_values := l\<rparr>"
    by (auto simp: cache_get_def split: prod.splits)
  with lru_lawsD(4,5) [OF assms(1), of k "ca_values c"] show "r = view (ca_values c) k" "view (ca_values c') = view (ca_values c)"
    "cache_fits view c \<Longrightarrow> cache_fits view c'"
    by (simp_all add: cache_fits_def)
qed

lemma cache_invalidate_view:
  assumes "lru_laws view L"
  shows "view (ca_values (cache_invalidate L k c)) = (view (ca_values c))(k := None)"
    and "cache_fits view c \<Longrightarrow> cache_fits view (cache_invalidate L k c)"
proof -
  note p = lru_lawsD(6,7,2) [OF assms]
  show v: "view (ca_values (cache_invalidate L k c)) = (view (ca_values c))(k := None)"
    using p(1,2) [of k "ca_values c"] by (auto simp: cache_invalidate_def split: prod.splits option.splits)
  assume f: "cache_fits view c"
  show "cache_fits view (cache_invalidate L k c)"
  proof (cases "view (ca_values c) k")
    case None
    then have "(view (ca_values c))(k := None) = view (ca_values c)" by auto
    then show ?thesis
      using f v p(1) [of k "ca_values c"] None by (auto simp: cache_fits_def cache_invalidate_def split: prod.splits)
  next
    case (Some w)
    then show ?thesis
      using f v p(1) [of k "ca_values c"] held_weight_remove [OF p(3) Some]
      by (auto simp: cache_fits_def cache_invalidate_def split: prod.splits)
  qed
qed

lemma make_room_view:
  assumes "lru_laws view L"
  shows "cache_fits view c \<Longrightarrow> card (dom (view (ca_values c))) \<le> n \<Longrightarrow>
     cache_fits view (make_room L n weight c) \<and> ca_used (make_room L n weight c) \<le> ca_capacity c - weight
     \<and> ca_capacity (make_room L n weight c) = ca_capacity c
     \<and> view (ca_values (make_room L n weight c)) \<subseteq>\<^sub>m view (ca_values c)"
proof (induction n arbitrary: c)
  case 0
  have "finite (dom (view (ca_values c)))" by (rule lru_lawsD(2) [OF assms])
  with 0 have "dom (view (ca_values c)) = {}" by simp
  with 0 show ?case by (simp add: cache_fits_def held_weight_def)
next
  case (Suc n)
  let ?l = "ca_values c"
  have fin: "finite (dom (view ?l))" by (rule lru_lawsD(2) [OF assms])
  note p = lru_laws_pop_lru [OF assms, of ?l]
  show ?case
  proof (cases "ca_used c > ca_capacity c - weight")
    case True
    show ?thesis
    proof (cases "fst (lru_pop_lru L ?l)")
      case None
      with p have "view ?l = Map.empty" by simp
      with Suc.prems(1) have "ca_used c = 0" by (simp add: cache_fits_def held_weight_def)
      with True show ?thesis by simp
    next
      case (Some x)
      obtain k w where x: "x = (k, w)" by force
      let ?c = "c\<lparr>ca_values := snd (lru_pop_lru L ?l), ca_used := ca_used c - cv_weight w\<rparr>"
      from p Some x have v: "view ?l k = Some w" "view (ca_values ?c) = (view ?l)(k := None)" by simp_all
      have "cache_fits view ?c"
        using Suc.prems(1) v held_weight_remove [OF fin v(1)] by (auto simp: cache_fits_def)
      moreover have "card (dom (view (ca_values ?c))) \<le> n"
        using Suc.prems(2) v fin by (simp add: domI)
      ultimately have "cache_fits view (make_room L n weight ?c) \<and> ca_used (make_room L n weight ?c) \<le> ca_capacity ?c - weight
        \<and> ca_capacity (make_room L n weight ?c) = ca_capacity ?c
        \<and> view (ca_values (make_room L n weight ?c)) \<subseteq>\<^sub>m view (ca_values ?c)" by (rule Suc.IH)
      moreover have "make_room L (Suc n) weight c = make_room L n weight ?c"
        using True Some x by (auto split: prod.split)
      moreover have "(view ?l)(k := None) \<subseteq>\<^sub>m view ?l" by (auto simp: map_le_def)
      ultimately show ?thesis
        unfolding v(2) by (simp only:) (auto intro: map_le_trans)
    qed
  next
    case False
    with Suc.prems show ?thesis by simp
  qed
qed

lemma cache_insert_view:
  assumes "lru_laws view L" and "cache_fits view c"
  shows "cache_fits view (cache_insert L k w c)"
    and "view (ca_values (cache_insert L k w c)) \<subseteq>\<^sub>m (view (ca_values c))(k \<mapsto> w)"
proof -
  let ?i = "cache_invalidate L k c"
  let ?m = "make_room L (lru_len L (ca_values ?i)) (cv_weight w) ?i"
  have i: "view (ca_values ?i) = (view (ca_values c))(k := None)" "cache_fits view ?i"
    using cache_invalidate_view [OF assms(1)] assms(2) by auto
  note law = lru_lawsD(3,2,8) [OF assms(1)]
  have m: "cache_fits view ?m" "ca_used ?m \<le> ca_capacity ?i - cv_weight w" "ca_capacity ?m = ca_capacity ?i"
    "view (ca_values ?m) \<subseteq>\<^sub>m view (ca_values ?i)"
    using make_room_view [OF assms(1) i(2)] law(1) by auto
  have k: "view (ca_values ?m) k = None"
  proof (rule ccontr)
    assume n: "view (ca_values ?m) k \<noteq> None"
    then have "k \<in> dom (view (ca_values ?m))" by (simp add: domIff)
    with m(4) have "view (ca_values ?m) k = view (ca_values ?i) k" unfolding map_le_def by (rule bspec)
    with n i(1) show False by simp
  qed
  show "cache_fits view (cache_insert L k w c)"
  proof (cases "cv_weight w > ca_capacity ?i")
    case False
    then have c: "cache_insert L k w c = ?m\<lparr>ca_values := lru_put L k w (ca_values ?m), ca_used := ca_used ?m + cv_weight w\<rparr>"
      by (simp add: cache_insert_def Let_def)
    have "ca_used ?m + cv_weight w = held_weight (view (lru_put L k w (ca_values ?m)))"
      unfolding law(3) using held_weight_put [OF law(2) k, of w] m(1) by (simp add: cache_fits_def)
    with m(2,3) False show ?thesis unfolding c by (simp add: cache_fits_def)
  qed (use i(2) in \<open>simp add: cache_insert_def\<close>)
  have "(view (ca_values ?m))(k \<mapsto> w) \<subseteq>\<^sub>m (view (ca_values c))(k \<mapsto> w)"
    using map_le_upd [OF m(4), of k "Some w"] i(1) by simp
  moreover have "(view (ca_values c))(k := None) \<subseteq>\<^sub>m (view (ca_values c))(k \<mapsto> w)" by (auto simp: map_le_def)
  ultimately show "view (ca_values (cache_insert L k w c)) \<subseteq>\<^sub>m (view (ca_values c))(k \<mapsto> w)"
    using i(1) law(3) [where l = "ca_values ?m"] by (simp add: cache_insert_def Let_def)
qed

lemma cache_clear_view:
  assumes "lru_laws view L"
  shows "view (ca_values (cache_clear L c)) = Map.empty" and "cache_fits view (cache_clear L c)"
  using assms by (simp_all add: lru_laws_def cache_clear_def cache_fits_def held_weight_def)

end
