(* ===== verification/Storage_Db.thy ===== *)
theory Storage_Db
  imports Storage_Cache
begin

text \<open>
  The database transaction of \<open>storage/transaction.rs\<close>, \<open>storage/list.rs\<close> and
  \<open>storage/history_index.rs\<close>, and the running of one in \<open>storage/database.rs\<close>: the SQL tables, the
  cache and the keys a transaction has dirtied.

  The tables are the rows the statements read and write. \<open>serde_json\<close> is a parameter
  (\<open>to_vec\<close>, and \<open>from_slice\<close> by the kind of the type that is read), as is the LRU map. A
  statement the schema refuses (a missing key, a taken position) is the error \<open>Sqlite\<close>. An error
  leaves the transaction as it is, cache included: it is the caller that drops it.
\<close>

subsection \<open>Tables\<close>

record tables =
  wish_objects :: "string \<Rightarrow> (string \<times> string) option"
  wish_lists :: "string \<Rightarrow> (string \<times> nat) option"
  wish_list_keys :: "(string \<times> nat) list"
  wish_items :: "((nat \<times> nat) \<times> string) list"
  wish_history_index :: "(nat \<times> index_row) list"

definition empty_tables :: tables where
  "empty_tables = \<lparr>wish_objects = (\<lambda>_. None), wish_lists = (\<lambda>_. None), wish_list_keys = [],
     wish_items = [], wish_history_index = []\<rparr>"

record 'l transaction =
  tr_sql :: tables
  tr_cache :: "'l cache"
  tr_dirty :: "cache_key list"

record ('l, 'v) backend =
  bk_lru :: "('l, 'v) lru"
  bk_to_vec :: "'v \<Rightarrow> string"
  bk_from_slice :: "string \<Rightarrow> string \<Rightarrow> 'v option"

text \<open>Computations whose state outlives an error.\<close>

type_synonym ('l, 'a) db_op = "'l transaction \<Rightarrow> (storage_error + 'a) \<times> 'l transaction"

definition returnT :: "'a \<Rightarrow> ('l, 'a) db_op" where "returnT x = (\<lambda>t. (Inr x, t))"
definition failT :: "storage_error \<Rightarrow> ('l, 'a) db_op" where "failT e = (\<lambda>t. (Inl e, t))"

definition bindT :: "('l, 'a) db_op \<Rightarrow> ('a \<Rightarrow> ('l, 'b) db_op) \<Rightarrow> ('l, 'b) db_op" where
  "bindT m f = (\<lambda>t. case m t of (Inl e, u) \<Rightarrow> (Inl e, u) | (Inr x, u) \<Rightarrow> f x u)"

definition queryT :: "(tables \<Rightarrow> storage_error + 'a) \<Rightarrow> ('l, 'a) db_op" where
  "queryT q = (\<lambda>t. (q (tr_sql t), t))"

definition executeT :: "(tables \<Rightarrow> storage_error + tables) \<Rightarrow> ('l, unit) db_op" where
  "executeT q = (\<lambda>t. case q (tr_sql t) of Inl e \<Rightarrow> (Inl e, t) | Inr s \<Rightarrow> (Inr (), t\<lparr>tr_sql := s\<rparr>))"

definition markT :: "cache_key list \<Rightarrow> ('l, unit) db_op" where
  "markT keys = (\<lambda>t. (Inr (), t\<lparr>tr_dirty := tr_dirty t @ keys\<rparr>))"

subsection \<open>The cache in a transaction\<close>

definition load_cached :: "('l, 'v) backend \<Rightarrow> cache_key \<Rightarrow> ('l, 'v cached option) db_op" where
  "load_cached B key = (\<lambda>t.
     if key \<in> set (tr_dirty t) then (Inr None, t)
     else case cache_get (bk_lru B) key (tr_cache t) of (found, c) \<Rightarrow>
       (Inr (map_option cv_value found), t\<lparr>tr_cache := c\<rparr>))"

definition cache_value :: "('l, 'v) backend \<Rightarrow> cache_key \<Rightarrow> 'v cached \<Rightarrow> nat \<Rightarrow> ('l, unit) db_op" where
  "cache_value B key v bytes = (\<lambda>t. (Inr (),
     if key \<in> set (tr_dirty t) then t
     else t\<lparr>tr_cache := cache_insert (bk_lru B) key
              \<lparr>cv_value = v, cv_weight = saturating_add bytes 128\<rparr> (tr_cache t)\<rparr>))"

text \<open>\<open>downcast\<close>: a cached value is of the type that asks for it, or of no use to it.\<close>

definition downcast_one :: "('a, 'v) stored_value \<Rightarrow> 'v cached option \<Rightarrow> 'a option" where
  "downcast_one K c = (case c of Some (CachedOne v) \<Rightarrow> sv_dec K v | _ \<Rightarrow> None)"

fun decode_cells :: "('a, 'v) stored_value \<Rightarrow> 'v option list \<Rightarrow> 'a option list option" where
  "decode_cells K [] = Some []"
| "decode_cells K (None # cells) = map_option (\<lambda>xs. None # xs) (decode_cells K cells)"
| "decode_cells K (Some v # cells) =
     Option.bind (sv_dec K v) (\<lambda>x. map_option (\<lambda>xs. Some x # xs) (decode_cells K cells))"

definition downcast_page :: "('a, 'v) stored_value \<Rightarrow> 'v cached option \<Rightarrow> 'a option list option" where
  "downcast_page K c = (case c of
     Some (CachedPage kind cells) \<Rightarrow> if kind = sv_kind K then decode_cells K cells else None
   | _ \<Rightarrow> None)"

definition decode_bytes :: "('l, 'v) backend \<Rightarrow> ('a, 'v) stored_value \<Rightarrow> string \<Rightarrow> storage_error + 'a" where
  "decode_bytes B K bytes = (case Option.bind (bk_from_slice B (sv_kind K) bytes) (sv_dec K) of
     None \<Rightarrow> Inl Encoding | Some x \<Rightarrow> Inr x)"

subsection \<open>Objects\<close>

definition db_create_object :: "('l, 'v) backend \<Rightarrow> ('a, 'v) stored_value \<Rightarrow> string \<Rightarrow> 'a \<Rightarrow> ('l, unit) db_op" where
  "db_create_object B K name x =
     bindT (executeT (\<lambda>s. case wish_objects s name of
         Some _ \<Rightarrow> Inl (AlreadyExists name)
       | None \<Rightarrow> Inr (s\<lparr>wish_objects := (wish_objects s)(name \<mapsto> (sv_kind K, bk_to_vec B (sv_enc K x)))\<rparr>)))
     (\<lambda>_. markT [ObjectKey name])"

definition db_load_object :: "('l, 'v) backend \<Rightarrow> ('a, 'v) stored_value \<Rightarrow> string \<Rightarrow> ('l, 'a) db_op" where
  "db_load_object B K name =
     bindT (load_cached B (ObjectKey name)) (\<lambda>found.
     case downcast_one K found of
       Some x \<Rightarrow> returnT x
     | None \<Rightarrow>
         bindT (queryT (\<lambda>s. case wish_objects s name of None \<Rightarrow> Inl (NotFound name) | Some row \<Rightarrow> Inr row)) (\<lambda>(kind, bytes).
         if kind \<noteq> sv_kind K then failT (TypeMismatch name)
         else bindT (queryT (\<lambda>_. decode_bytes B K bytes)) (\<lambda>x.
           bindT (cache_value B (ObjectKey name) (CachedOne (sv_enc K x)) (length bytes)) (\<lambda>_.
           returnT x))))"

definition db_save_object :: "('l, 'v) backend \<Rightarrow> ('a, 'v) stored_value \<Rightarrow> string \<Rightarrow> 'a \<Rightarrow> ('l, unit) db_op" where
  "db_save_object B K name x =
     bindT (db_load_object B K name) (\<lambda>_.
     bindT (executeT (\<lambda>s. Inr (s\<lparr>wish_objects := (wish_objects s)(name :=
         map_option (\<lambda>(kind, _). (kind, bk_to_vec B (sv_enc K x))) (wish_objects s name))\<rparr>))) (\<lambda>_.
     markT [ObjectKey name]))"

subsection \<open>Lists\<close>

definition page_size :: nat where "page_size = 128"

definition list_key :: "tables \<Rightarrow> string \<Rightarrow> nat option" where
  "list_key s list = map_of (wish_list_keys s) list"

text \<open>The id of a new row: one more than the largest, as SQLite gives it.\<close>

definition fresh_key :: "tables \<Rightarrow> nat" where
  "fresh_key s = Suc (foldr max (map snd (wish_list_keys s)) 0)"

definition item_at :: "tables \<Rightarrow> string \<Rightarrow> nat \<Rightarrow> string option" where
  "item_at s list pos = (case list_key s list of None \<Rightarrow> None | Some key \<Rightarrow> map_of (wish_items s) (key, pos))"

definition mark_item_changed :: "string \<Rightarrow> nat \<Rightarrow> cache_key list" where
  "mark_item_changed list pos = [ItemKey list pos, PageKey list (pos div page_size)]"

definition db_create_list :: "('a, 'v) stored_value \<Rightarrow> string \<Rightarrow> ('l, unit) db_op" where
  "db_create_list K list =
     bindT (executeT (\<lambda>s. case wish_lists s list of
         Some _ \<Rightarrow> Inl (AlreadyExists list)
       | None \<Rightarrow> Inr (s\<lparr>wish_lists := (wish_lists s)(list \<mapsto> (sv_kind K, 0))\<rparr>))) (\<lambda>_.
     executeT (\<lambda>s. if list_key s list \<noteq> None then Inl Sqlite
       else Inr (s\<lparr>wish_list_keys := (list, fresh_key s) # wish_list_keys s\<rparr>)))"

definition db_list_len :: "('a, 'v) stored_value \<Rightarrow> string \<Rightarrow> ('l, nat) db_op" where
  "db_list_len K list = queryT (\<lambda>s. case wish_lists s list of
       None \<Rightarrow> Inl (NotFound list)
     | Some (kind, len) \<Rightarrow> if kind \<noteq> sv_kind K then Inl (TypeMismatch list) else Inr len)"

definition db_get_item :: "('l, 'v) backend \<Rightarrow> ('a, 'v) stored_value \<Rightarrow> string \<Rightarrow> nat \<Rightarrow> ('l, 'a option) db_op" where
  "db_get_item B K list pos =
     bindT (db_list_len K list) (\<lambda>len.
     if pos \<ge> len then returnT None
     else bindT (load_cached B (ItemKey list pos)) (\<lambda>found.
       case downcast_one K found of
         Some x \<Rightarrow> returnT (Some x)
       | None \<Rightarrow>
           bindT (queryT (\<lambda>s. case item_at s list pos of None \<Rightarrow> Inl Sqlite | Some bytes \<Rightarrow> Inr bytes)) (\<lambda>bytes.
           if bytes = [] then returnT None
           else bindT (queryT (\<lambda>_. decode_bytes B K bytes)) (\<lambda>x.
             bindT (cache_value B (ItemKey list pos) (CachedOne (sv_enc K x)) (length bytes)) (\<lambda>_.
             returnT (Some x))))))"

definition insert_item :: "string \<Rightarrow> nat \<Rightarrow> string \<Rightarrow> tables \<Rightarrow> storage_error + tables" where
  "insert_item list pos bytes s = (case list_key s list of
     None \<Rightarrow> Inl Sqlite
   | Some key \<Rightarrow>
       if map_of (wish_items s) (key, pos) \<noteq> None then Inl Sqlite
       else Inr (s\<lparr>wish_items := ((key, pos), bytes) # wish_items s\<rparr>))"

fun insert_rows :: "string \<Rightarrow> nat \<Rightarrow> string list \<Rightarrow> tables \<Rightarrow> storage_error + tables" where
  "insert_rows list pos [] s = Inr s"
| "insert_rows list pos (bytes # rest) s = bindR (insert_item list pos bytes s) (insert_rows list (Suc pos) rest)"

definition set_length :: "string \<Rightarrow> nat \<Rightarrow> tables \<Rightarrow> tables" where
  "set_length list len s = s\<lparr>wish_lists := (wish_lists s)(list := map_option (\<lambda>(kind, _). (kind, len)) (wish_lists s list))\<rparr>"

definition db_append_items :: "('l, 'v) backend \<Rightarrow> ('a, 'v) stored_value \<Rightarrow> string \<Rightarrow> 'a list \<Rightarrow> ('l, nat) db_op" where
  "db_append_items B K list values =
     bindT (db_list_len K list) (\<lambda>start.
     if start + length values > i64_max then failT InvalidRange
     else if values = [] then returnT start
     else bindT (executeT (insert_rows list start (map (bk_to_vec B \<circ> sv_enc K) values))) (\<lambda>_.
       bindT (executeT (\<lambda>s. Inr (set_length list (start + length values) s))) (\<lambda>_.
       bindT (markT (concat (map (mark_item_changed list) [start..<start + length values]))) (\<lambda>_.
       returnT start))))"

definition update_item :: "string \<Rightarrow> nat \<Rightarrow> string \<Rightarrow> tables \<Rightarrow> tables" where
  "update_item list pos bytes s = (case list_key s list of
     None \<Rightarrow> s
   | Some key \<Rightarrow> s\<lparr>wish_items := map (\<lambda>(at, old). (at, if at = (key, pos) then bytes else old)) (wish_items s)\<rparr>)"

definition db_set_item :: "('l, 'v) backend \<Rightarrow> ('a, 'v) stored_value \<Rightarrow> string \<Rightarrow> nat \<Rightarrow> 'a \<Rightarrow> ('l, unit) db_op" where
  "db_set_item B K list pos x =
     bindT (db_list_len K list) (\<lambda>len.
     if pos \<ge> len then failT InvalidRange
     else bindT (executeT (\<lambda>s. Inr (update_item list pos (bk_to_vec B (sv_enc K x)) s))) (\<lambda>_.
       markT (mark_item_changed list pos)))"

definition delete_item :: "string \<Rightarrow> nat \<Rightarrow> tables \<Rightarrow> tables" where
  "delete_item list pos s = (case list_key s list of
     None \<Rightarrow> s
   | Some key \<Rightarrow> s\<lparr>wish_items := filter (\<lambda>(at, _). at \<noteq> (key, pos)) (wish_items s)\<rparr>)"

text \<open>
  \<open>UPDATE wish_items SET position = f position WHERE chosen position\<close>. Rows are visited in an order
  the statement does not fix, and each one must find its new position free: that is sure only when no
  row of the list is there, before or after.
\<close>

definition shift_items :: "string \<Rightarrow> (nat \<Rightarrow> bool) \<Rightarrow> (nat \<Rightarrow> int) \<Rightarrow> tables \<Rightarrow> storage_error + tables" where
  "shift_items list chosen f s = (case list_key s list of
     None \<Rightarrow> Inr s
   | Some key \<Rightarrow>
       let moved = map (f \<circ> snd \<circ> fst) (filter (\<lambda>((k, p), _). k = key \<and> chosen p) (wish_items s));
           places = map (int \<circ> snd \<circ> fst) (filter (\<lambda>((k, _), _). k = key) (wish_items s))
       in if \<not> list_all (\<lambda>p. 0 \<le> p) moved \<or> \<not> distinct (moved @ places) then Inl Sqlite
          else Inr (s\<lparr>wish_items := map (\<lambda>((k, p), bytes).
              if k = key \<and> chosen p then ((k, nat (f p)), bytes) else ((k, p), bytes)) (wish_items s)\<rparr>))"

definition db_remove_item :: "('a, 'v) stored_value \<Rightarrow> string \<Rightarrow> nat \<Rightarrow> ('l, unit) db_op" where
  "db_remove_item K list pos =
     bindT (db_list_len K list) (\<lambda>len.
     if pos \<ge> len then failT InvalidRange
     else if len > i64_max div 2 then failT InvalidRange
     else bindT (executeT (\<lambda>s. Inr (delete_item list pos s))) (\<lambda>_.
       bindT (executeT (shift_items list (\<lambda>p. p > pos) (\<lambda>p. int p + int len))) (\<lambda>_.
       bindT (executeT (shift_items list (\<lambda>p. p \<ge> len) (\<lambda>p. int p - int len - 1))) (\<lambda>_.
       bindT (executeT (\<lambda>s. Inr (set_length list (len - 1) s))) (\<lambda>_.
       markT (concat (map (mark_item_changed list) [pos..<len])))))))"

fun release_loop :: "string \<Rightarrow> nat list \<Rightarrow> nat \<Rightarrow> nat list \<Rightarrow> ('l, nat \<times> nat list) db_op" where
  "release_loop list [] released changed = returnT (released, changed)"
| "release_loop list (pos # rest) released changed =
     bindT (queryT (\<lambda>s. case item_at s list pos of None \<Rightarrow> Inl Sqlite | Some bytes \<Rightarrow> Inr (length bytes))) (\<lambda>bytes.
     if bytes > 0
     then bindT (executeT (\<lambda>s. Inr (update_item list pos [] s)))
            (\<lambda>_. release_loop list rest (released + bytes) (changed @ [pos]))
     else release_loop list rest released changed)"

definition db_release_items :: "('a, 'v) stored_value \<Rightarrow> string \<Rightarrow> nat list \<Rightarrow> ('l, nat) db_op" where
  "db_release_items K list positions =
     bindT (db_list_len K list) (\<lambda>len.
     bindT (release_loop list (filter (\<lambda>p. p < len) positions) 0 []) (\<lambda>(released, changed).
     bindT (markT (concat (map (mark_item_changed list) changed))) (\<lambda>_.
     returnT released)))"

definition list_rows :: "tables \<Rightarrow> string \<Rightarrow> (nat \<times> string) list" where
  "list_rows s list = (case list_key s list of
     None \<Rightarrow> []
   | Some key \<Rightarrow> map (\<lambda>((_, p), bytes). (p, bytes)) (filter (\<lambda>((k, _), _). k = key) (wish_items s)))"

definition delete_history_rows :: "string \<Rightarrow> tables \<Rightarrow> tables" where
  "delete_history_rows list s = (case list_key s list of
     None \<Rightarrow> s
   | Some key \<Rightarrow> s\<lparr>wish_history_index := filter (\<lambda>(k, _). k \<noteq> key) (wish_history_index s)\<rparr>)"

definition delete_list_rows :: "string \<Rightarrow> tables \<Rightarrow> tables" where
  "delete_list_rows list s =
     (let s = delete_history_rows list s;
          s = (case list_key s list of None \<Rightarrow> s
               | Some key \<Rightarrow> s\<lparr>wish_items := filter (\<lambda>((k, _), _). k \<noteq> key) (wish_items s)\<rparr>);
          s = s\<lparr>wish_list_keys := filter (\<lambda>(name, _). name \<noteq> list) (wish_list_keys s)\<rparr>
      in s\<lparr>wish_lists := (wish_lists s)(list := None)\<rparr>)"

definition db_delete_list :: "('a, 'v) stored_value \<Rightarrow> string \<Rightarrow> ('l, nat) db_op" where
  "db_delete_list K list =
     bindT (db_list_len K list) (\<lambda>len.
     bindT (markT (concat (map (mark_item_changed list) [0..<len]))) (\<lambda>_.
     bindT (queryT (\<lambda>s. Inr (sum_list (map (length \<circ> snd) (list_rows s list))))) (\<lambda>bytes.
     bindT (executeT (\<lambda>s. Inr (delete_list_rows list s))) (\<lambda>_.
     returnT bytes))))"

subsection \<open>Paged reads\<close>

fun page_values :: "('l, 'v) backend \<Rightarrow> ('a, 'v) stored_value \<Rightarrow> nat \<Rightarrow> (nat \<times> string) list \<Rightarrow> 'a option list \<Rightarrow> nat
    \<Rightarrow> storage_error + ('a option list \<times> nat)" where
  "page_values B K page_start [] values weight = Inr (values, weight)"
| "page_values B K page_start ((index, bytes) # rows) values weight =
     (if index \<noteq> page_start + length values then Inl (Corrupt ''non-contiguous list'')
      else bindR (if bytes = [] then Inr None else map_sum id Some (decode_bytes B K bytes)) (\<lambda>v.
        page_values B K page_start rows (values @ [v]) (saturating_add weight (length bytes))))"

definition page_rows :: "tables \<Rightarrow> string \<Rightarrow> nat \<Rightarrow> (nat \<times> string) list" where
  "page_rows s list page_start =
     sort_key fst (filter (\<lambda>(p, _). page_start \<le> p \<and> p < min (saturating_add page_start page_size) i64_max) (list_rows s list))"

definition load_page :: "('l, 'v) backend \<Rightarrow> ('a, 'v) stored_value \<Rightarrow> string \<Rightarrow> nat \<Rightarrow> ('l, 'a option list) db_op" where
  "load_page B K list page_number =
     bindT (load_cached B (PageKey list page_number)) (\<lambda>found.
     case downcast_page K found of
       Some page \<Rightarrow> returnT page
     | None \<Rightarrow>
         bindT (queryT (\<lambda>s. page_values B K (page_number * page_size) (page_rows s list (page_number * page_size)) [] 0))
           (\<lambda>(page, weight).
         bindT (cache_value B (PageKey list page_number) (CachedPage (sv_kind K) (map (map_option (sv_enc K)) page)) weight) (\<lambda>_.
         returnT page)))"

function read_range :: "('l, 'v) backend \<Rightarrow> ('a, 'v) stored_value \<Rightarrow> string \<Rightarrow> nat \<Rightarrow> nat \<Rightarrow> ('l, 'a list) db_op" where
  "read_range B K list pos stop =
     (if pos < stop then
        let page_number = pos div page_size;
            offset = pos - page_number * page_size;
            count = min (stop - pos) (page_size - offset)
        in bindT (load_page B K list page_number) (\<lambda>page.
           if offset + count > length page then failT (Corrupt ''short list page'')
           else bindT (read_range B K list (pos + count) stop) (\<lambda>rest.
             returnT (List.map_filter (\<lambda>c. c) (take count (drop offset page)) @ rest)))
      else returnT [])"
  by auto

termination
proof (relation "measure (\<lambda>(_, _, _, pos, stop). stop - pos)", simp)
  have o: "p - p div page_size * page_size < page_size" for p
    using mod_less_divisor [of page_size p] by (simp add: page_size_def minus_div_mult_eq_mod)
  have "0 < min (stop - pos) (page_size - (pos - pos div page_size * page_size))" if "pos < stop" for pos stop
    using that o [of pos] by simp
  then have "stop - (pos + min (stop - pos) (page_size - (pos - pos div page_size * page_size))) < stop - pos"
    if "pos < stop" for pos stop
    using that by (metis diff_less_mono2 less_add_same_cancel1)
  then show "\<And>B K list pos stop x xa xb xc. pos < stop \<Longrightarrow> x = pos div page_size \<Longrightarrow> xa = pos - x * page_size \<Longrightarrow>
      xb = min (stop - pos) (page_size - xa) \<Longrightarrow>
      ((B, K, list, pos + xb, stop), B, K, list, pos, stop) \<in> measure (\<lambda>(_, _, _, pos, stop). stop - pos)" by simp
qed

declare read_range.simps [simp del]

definition db_read_page :: "('l, 'v) backend \<Rightarrow> ('a, 'v) stored_value \<Rightarrow> string \<Rightarrow> nat \<Rightarrow> nat \<Rightarrow> ('l, 'a page) db_op" where
  "db_read_page B K list start limit =
     (if limit = 0 then failT InvalidRange
      else bindT (db_list_len K list) (\<lambda>len.
        if start > len then failT InvalidRange
        else let stop = min (saturating_add start limit) len in
          bindT (read_range B K list start stop) (\<lambda>items.
          returnT \<lparr>pg_start = start, pg_items = items, pg_end = stop,
                   pg_next = (if stop < len then Some stop else None)\<rparr>)))"

text \<open>\<open>for_each_item\<close>, for the visitor of \<open>read_from\<close>; every round reads one position at least.\<close>

fun read_pages :: "('l, 'v) backend \<Rightarrow> ('a, 'v) stored_value \<Rightarrow> string \<Rightarrow> nat \<Rightarrow> nat \<Rightarrow> nat \<Rightarrow> 'a list \<Rightarrow> ('l, 'a list) db_op" where
  "read_pages B K list 0 pos stop items = returnT items"
| "read_pages B K list (Suc n) pos stop items =
     (if pos < stop then
        bindT (db_read_page B K list pos (min (stop - pos) page_size)) (\<lambda>page.
        read_pages B K list n (pg_end page) stop (items @ pg_items page))
      else returnT items)"

definition db_read_from :: "('l, 'v) backend \<Rightarrow> ('a, 'v) stored_value \<Rightarrow> string \<Rightarrow> nat \<Rightarrow> ('l, 'a list) db_op" where
  "db_read_from B K list start =
     bindT (db_list_len K list) (\<lambda>stop. read_pages B K list (stop - start) start stop [])"

subsection \<open>Namespaces and the history index\<close>

definition delete_namespace_rows :: "string \<Rightarrow> tables \<Rightarrow> tables" where
  "delete_namespace_rows namespace s =
     (let below = has_prefix (namespace @ ''/'');
          gone = map snd (filter (\<lambda>(name, _). below name) (wish_list_keys s))
      in s\<lparr>wish_history_index := filter (\<lambda>(k, _). k \<notin> set gone) (wish_history_index s),
           wish_items := filter (\<lambda>((k, _), _). k \<notin> set gone) (wish_items s),
           wish_list_keys := filter (\<lambda>(name, _). \<not> below name) (wish_list_keys s),
           wish_lists := (\<lambda>name. if below name then None else wish_lists s name),
           wish_objects := (\<lambda>name. if name = namespace \<or> below name then None else wish_objects s name)\<rparr>)"

definition db_delete_namespace :: "('l, 'v) backend \<Rightarrow> string \<Rightarrow> ('l, unit) db_op" where
  "db_delete_namespace B namespace =
     bindT (\<lambda>t. (Inr (), t\<lparr>tr_cache := cache_clear (bk_lru B) (tr_cache t)\<rparr>)) (\<lambda>_.
     executeT (\<lambda>s. Inr (delete_namespace_rows namespace s)))"

definition as_integer :: "nat \<Rightarrow> ('l, unit) db_op" where
  "as_integer n = (if n \<le> i64_max then returnT () else failT InvalidRange)"

definition db_index_history_record :: "string \<Rightarrow> index_row \<Rightarrow> ('l, unit) db_op" where
  "db_index_history_record list row =
     bindT (as_integer (ix_sequence row)) (\<lambda>_.
     bindT (as_integer (ix_recorded_at row)) (\<lambda>_.
     bindT (as_integer (ix_generation row)) (\<lambda>_.
     bindT (case ix_model_call row of None \<Rightarrow> returnT () | Some call \<Rightarrow> as_integer call) (\<lambda>_.
     executeT (\<lambda>s. case list_key s list of
         None \<Rightarrow> Inl Sqlite
       | Some key \<Rightarrow>
           if list_ex (\<lambda>(k, r). k = key \<and> ix_sequence r = ix_sequence row) (wish_history_index s) then Inr s
           else Inr (s\<lparr>wish_history_index := wish_history_index s @ [(key, row)]\<rparr>))))))"

definition index_rows :: "tables \<Rightarrow> string \<Rightarrow> index_row list" where
  "index_rows s list = (case list_key s list of
     None \<Rightarrow> [] | Some key \<Rightarrow> map snd (filter (\<lambda>(k, _). k = key) (wish_history_index s)))"

fun remove_loop :: "(index_row \<Rightarrow> nat) \<Rightarrow> string \<Rightarrow> nat list \<Rightarrow> nat \<Rightarrow> ('l, nat) db_op" where
  "remove_loop row_size list [] removed = returnT removed"
| "remove_loop row_size list (sequence # rest) removed =
     bindT (as_integer sequence) (\<lambda>_.
     bindT (queryT (\<lambda>s. Inr (filter (\<lambda>r. ix_sequence r = sequence) (index_rows s list)))) (\<lambda>gone.
     bindT (executeT (\<lambda>s. Inr (case list_key s list of None \<Rightarrow> s
         | Some key \<Rightarrow> s\<lparr>wish_history_index :=
             filter (\<lambda>(k, r). \<not> (k = key \<and> ix_sequence r = sequence)) (wish_history_index s)\<rparr>))) (\<lambda>_.
     remove_loop row_size list rest (removed + sum_list (map row_size gone)))))"

definition db_remove_history_records :: "(index_row \<Rightarrow> nat) \<Rightarrow> string \<Rightarrow> nat list \<Rightarrow> ('l, nat) db_op" where
  "db_remove_history_records row_size list sequences = remove_loop row_size list sequences 0"

subsection \<open>Running a transaction\<close>

record 'l database =
  db_connection :: tables
  db_cache :: "'l cache"
  db_owners :: "string list"

text \<open>A database on a new file: the empty tables of the schema.\<close>

definition database_open :: "('l, 'v) backend \<Rightarrow> nat \<Rightarrow> 'l database" where
  "database_open B capacity = \<lparr>db_connection = empty_tables, db_cache = cache_new (bk_lru B) capacity,
     db_owners = []\<rparr>"

definition claim_owner :: "string \<Rightarrow> 'l database \<Rightarrow> (storage_error + unit) \<times> 'l database" where
  "claim_owner name d = (if name \<in> set (db_owners d) then (Inl (AlreadyOpen name), d)
     else (Inr (), d\<lparr>db_owners := name # db_owners d\<rparr>))"

text \<open>The drop of an \<open>OwnerGuard\<close>.\<close>

definition drop_owner :: "string \<Rightarrow> 'l database \<Rightarrow> 'l database" where
  "drop_owner name d = d\<lparr>db_owners := removeAll name (db_owners d)\<rparr>"

text \<open>
  \<open>run_transaction\<close>: a failed edit drops the SQL transaction and with it every change of the tables;
  the cache stays as the edit left it.
\<close>

definition run_transaction :: "('l, 'v) backend \<Rightarrow> ('l, 'a) db_op \<Rightarrow> bool \<Rightarrow> 'l database \<Rightarrow> (storage_error + 'a) \<times> 'l database" where
  "run_transaction B edit commit d =
     (case edit \<lparr>tr_sql = db_connection d, tr_cache = db_cache d, tr_dirty = []\<rparr> of
        (Inl e, t) \<Rightarrow> (Inl e, d\<lparr>db_cache := tr_cache t\<rparr>)
      | (Inr x, t) \<Rightarrow>
          if commit
          then (Inr x, d\<lparr>db_connection := tr_sql t,
                         db_cache := fold (cache_invalidate (bk_lru B)) (tr_dirty t) (tr_cache t)\<rparr>)
          else (Inr x, d\<lparr>db_cache := tr_cache t\<rparr>))"

subsection \<open>Lists read page by page\<close>

text \<open>
  \<open>ReadList::pages\<close> and its iterator: each page is read in a transaction of its own, and an error or
  an empty range is the last thing it gives.
\<close>

type_synonym 'l pages = "'l database \<times> nat option"

definition pages_next :: "('l, 'v) backend \<Rightarrow> ('a, 'v) stored_value \<Rightarrow> string \<Rightarrow> 'l pages \<Rightarrow> (storage_error + 'a page) option \<times> 'l pages" where
  "pages_next B K list st = (case st of
     (d, None) \<Rightarrow> (None, (d, None))
   | (d, Some start) \<Rightarrow>
       (case run_transaction B (db_read_page B K list start page_size) True d of
          (Inr page, d) \<Rightarrow> if pg_start page = pg_end page then (None, (d, None)) else (Some (Inr page), (d, pg_next page))
        | (Inl e, d) \<Rightarrow> (Some (Inl e), (d, None))))"

text \<open>A client that takes pages until there is none; \<open>None\<close> when the rounds do not suffice.\<close>

fun take_pages :: "('l, 'v) backend \<Rightarrow> ('a, 'v) stored_value \<Rightarrow> string \<Rightarrow> nat \<Rightarrow> 'l pages \<Rightarrow> ((storage_error + 'a page) list \<times> 'l database) option" where
  "take_pages B K list 0 st = None"
| "take_pages B K list (Suc n) st = (case pages_next B K list st of
     (None, st) \<Rightarrow> Some ([], fst st)
   | (Some page, st) \<Rightarrow> map_option (\<lambda>(pages, d). (page # pages, d)) (take_pages B K list n st))"

end
