(* ===== verification/Storage_Tables.thy ===== *)
theory Storage_Tables
  imports Storage_Db
begin

text \<open>
  The tables of \<open>Storage_Db\<close> read as a plain store, and what the statements on them do to it.

  \<open>store_of\<close> reads tables as a store, and \<open>tables_ok\<close> is what every table keeps to: items are
  contiguous from 0 to the length of their list, keys and lists name each other, and every value is
  one that was encoded.
\<close>

subsection \<open>Laws of the parameters\<close>

text \<open>
  What the encoding of a type promises: no value is encoded to nothing, a value of the type is read
  back, what is read is of the type, and the kind a value was read as tells its type.
\<close>

definition storable :: "('l, 'v) backend \<Rightarrow> ('a, 'v) stored_value \<Rightarrow> bool" where
  "storable B K \<longleftrightarrow>
     (\<forall>v. bk_to_vec B v \<noteq> [])
     \<and> (\<forall>v x. sv_dec K v = Some x \<longrightarrow> v = sv_enc K x)
     \<and> (\<forall>x. sv_dec K (sv_enc K x) = Some x \<longrightarrow> bk_from_slice B (sv_kind K) (bk_to_vec B (sv_enc K x)) = Some (sv_enc K x))
     \<and> (\<forall>b v. bk_from_slice B (sv_kind K) b = Some v \<longrightarrow> (\<exists>x. sv_dec K v = Some x))
     \<and> (\<forall>k b v x. bk_from_slice B k b = Some v \<longrightarrow> sv_dec K v = Some x \<longrightarrow> k = sv_kind K)"

abbreviation of_type :: "('a, 'v) stored_value \<Rightarrow> 'a \<Rightarrow> bool" where
  "of_type K x \<equiv> sv_dec K (sv_enc K x) = Some x"

definition encodes :: "('l, 'v) backend \<Rightarrow> string \<Rightarrow> string \<Rightarrow> bool" where
  "encodes B k b \<longleftrightarrow> (\<exists>v. b = bk_to_vec B v \<and> bk_from_slice B k b = Some v)"

lemma storableD:
  assumes "storable B K"
  shows "bk_to_vec B v \<noteq> []" and "sv_dec K v = Some x \<Longrightarrow> v = sv_enc K x"
    and "of_type K x \<Longrightarrow> bk_from_slice B (sv_kind K) (bk_to_vec B (sv_enc K x)) = Some (sv_enc K x)"
    and "bk_from_slice B (sv_kind K) b = Some v \<Longrightarrow> \<exists>x. sv_dec K v = Some x"
    and "bk_from_slice B k b = Some v \<Longrightarrow> sv_dec K v = Some x \<Longrightarrow> k = sv_kind K"
proof -
  note s = assms [unfolded storable_def]
  show "bk_to_vec B v \<noteq> []" by (rule s [THEN conjunct1, rule_format])
  show "sv_dec K v = Some x \<Longrightarrow> v = sv_enc K x" by (rule s [THEN conjunct2, THEN conjunct1, rule_format])
  show "of_type K x \<Longrightarrow> bk_from_slice B (sv_kind K) (bk_to_vec B (sv_enc K x)) = Some (sv_enc K x)"
    by (rule s [THEN conjunct2, THEN conjunct2, THEN conjunct1, rule_format])
  show "bk_from_slice B (sv_kind K) b = Some v \<Longrightarrow> \<exists>x. sv_dec K v = Some x"
    by (rule s [THEN conjunct2, THEN conjunct2, THEN conjunct2, THEN conjunct1, rule_format])
  show "bk_from_slice B k b = Some v \<Longrightarrow> sv_dec K v = Some x \<Longrightarrow> k = sv_kind K"
    by (rule s [THEN conjunct2, THEN conjunct2, THEN conjunct2, THEN conjunct2, rule_format])
qed

lemma encodes_value:
  assumes "storable B K" and "of_type K x"
  shows "encodes B (sv_kind K) (bk_to_vec B (sv_enc K x))"
  unfolding encodes_def by (rule exI [of _ "sv_enc K x"]) (simp add: storableD(3) [OF assms])

lemma encodes_decode:
  assumes "storable B K" and "encodes B (sv_kind K) b"
  obtains x where "of_type K x" "b = bk_to_vec B (sv_enc K x)" "bk_from_slice B (sv_kind K) b = Some (sv_enc K x)"
    "decode_bytes B K b = Inr x"
proof -
  from assms(2) obtain v where v: "b = bk_to_vec B v" "bk_from_slice B (sv_kind K) b = Some v" by (auto simp: encodes_def)
  from storableD(4) [OF assms(1) v(2)] obtain x where x: "sv_dec K v = Some x" by blast
  with storableD(2) [OF assms(1) x] have "v = sv_enc K x" by simp
  with v x show thesis by (intro that [of x]) (simp_all add: decode_bytes_def)
qed

subsection \<open>Tables as a store\<close>

definition cell_of :: "('l, 'v) backend \<Rightarrow> string \<Rightarrow> string \<Rightarrow> 'v option" where
  "cell_of B k bytes = (if bytes = [] then None else bk_from_slice B k bytes)"

definition table_cells :: "('l, 'v) backend \<Rightarrow> string \<Rightarrow> (nat \<Rightarrow> string option) \<Rightarrow> nat \<Rightarrow> 'v option list" where
  "table_cells B k f len = map (\<lambda>p. cell_of B k (the (f p))) [0..<len]"

definition store_of :: "('l, 'v) backend \<Rightarrow> tables \<Rightarrow> 'v store" where
  "store_of B s =
     \<lparr>st_objects = (\<lambda>n. map_option (\<lambda>(k, b). (k, the (bk_from_slice B k b))) (wish_objects s n)),
      st_lists = (\<lambda>l. map_option (\<lambda>(k, len). (k, table_cells B k (item_at s l) len)) (wish_lists s l)),
      st_index = index_rows s\<rparr>"

definition items_ok :: "('l, 'v) backend \<Rightarrow> string \<Rightarrow> (nat \<Rightarrow> string option) \<Rightarrow> nat \<Rightarrow> bool" where
  "items_ok B k f len \<longleftrightarrow> len \<le> i64_max \<and> (\<forall>p. f p \<noteq> None \<longleftrightarrow> p < len)
     \<and> (\<forall>p b. f p = Some b \<longrightarrow> b = [] \<or> encodes B k b)"

definition keys_ok :: "tables \<Rightarrow> bool" where
  "keys_ok s \<longleftrightarrow> distinct (map fst (wish_list_keys s)) \<and> distinct (map snd (wish_list_keys s))
     \<and> (\<forall>l. wish_lists s l = None \<longleftrightarrow> list_key s l = None)
     \<and> distinct (map fst (wish_items s))
     \<and> (\<forall>row \<in> set (wish_items s). fst (fst row) \<in> snd ` set (wish_list_keys s))
     \<and> (\<forall>row \<in> set (wish_history_index s). fst row \<in> snd ` set (wish_list_keys s))"

definition tables_ok :: "('l, 'v) backend \<Rightarrow> tables \<Rightarrow> bool" where
  "tables_ok B s \<longleftrightarrow> keys_ok s
     \<and> (\<forall>n k b. wish_objects s n = Some (k, b) \<longrightarrow> encodes B k b)
     \<and> (\<forall>l k len. wish_lists s l = Some (k, len) \<longrightarrow> items_ok B k (item_at s l) len)"

lemma store_of_simps [simp]:
  "st_objects (store_of B s) n = map_option (\<lambda>(k, b). (k, the (bk_from_slice B k b))) (wish_objects s n)"
  "st_lists (store_of B s) l = map_option (\<lambda>(k, len). (k, table_cells B k (item_at s l) len)) (wish_lists s l)"
  "st_index (store_of B s) = index_rows s"
  by (simp_all add: store_of_def)

lemma length_table_cells [simp]: "length (table_cells B k f len) = len"
  by (simp add: table_cells_def)

lemma nth_table_cells [simp]: "p < len \<Longrightarrow> table_cells B k f len ! p = cell_of B k (the (f p))"
  by (simp add: table_cells_def)

lemma list_key_inj:
  assumes "keys_ok s" and "list_key s l = Some key" and "list_key s l' = Some key"
  shows "l = l'"
proof -
  have "(l, key) \<in> set (wish_list_keys s)" "(l', key) \<in> set (wish_list_keys s)"
    using assms(2,3) by (auto simp: list_key_def dest: map_of_SomeD)
  moreover have "distinct (map snd (wish_list_keys s))" using assms(1) by (simp add: keys_ok_def)
  ultimately show ?thesis by (metis eq_key_imp_eq_value distinct_map inj_onD prod.inject snd_conv)
qed

lemma keys_okD:
  assumes "keys_ok s"
  shows "distinct (map fst (wish_list_keys s))" and "distinct (map snd (wish_list_keys s))"
    and "wish_lists s l = None \<longleftrightarrow> list_key s l = None" and "distinct (map fst (wish_items s))"
    and "row \<in> set (wish_items s) \<Longrightarrow> fst (fst row) \<in> snd ` set (wish_list_keys s)"
    and "hit \<in> set (wish_history_index s) \<Longrightarrow> fst hit \<in> snd ` set (wish_list_keys s)"
  using assms unfolding keys_ok_def by blast+

lemma tables_okD:
  assumes "tables_ok B s"
  shows "keys_ok s" and "wish_objects s n = Some (k, b) \<Longrightarrow> encodes B k b"
    and "wish_lists s l = Some (k, len) \<Longrightarrow> items_ok B k (item_at s l) len"
  using assms unfolding tables_ok_def by blast+

text \<open>A list's items change, its length with them; everything else stays.\<close>

lemma tables_change:
  assumes "tables_ok B s" and "wish_lists s list = Some (k, len)"
    and "wish_objects s' = wish_objects s" and "wish_list_keys s' = wish_list_keys s"
    and "wish_history_index s' = wish_history_index s"
    and "wish_lists s' = (wish_lists s)(list \<mapsto> (k, len'))"
    and "distinct (map fst (wish_items s'))"
    and "\<forall>row \<in> set (wish_items s'). fst (fst row) \<in> snd ` set (wish_list_keys s)"
    and "\<And>l p. item_at s' l p = (if l = list then f p else item_at s l p)"
    and "items_ok B k f len'"
  shows "tables_ok B s'"
    and "store_of B s' = (store_of B s)\<lparr>st_lists := (st_lists (store_of B s))(list \<mapsto> (k, table_cells B k f len'))\<rparr>"
proof -
  have i: "item_at s' l = (if l = list then f else item_at s l)" for l using assms(9) by (auto simp: fun_eq_iff)
  have lk: "list_key s' = list_key s" using assms(4) by (simp add: list_key_def fun_eq_iff)
  note k = tables_okD(1) [OF assms(1)]
  have "wish_lists s' l = None \<longleftrightarrow> list_key s' l = None" for l
    using keys_okD(3) [OF k, of l] assms(2,6) lk by (cases "l = list") simp_all
  then have "keys_ok s'"
    using keys_okD(1,2,6) [OF k] assms(4,5,7,8) unfolding keys_ok_def by simp
  moreover have "items_ok B k' (item_at s' l) n" if "wish_lists s' l = Some (k', n)" for l k' n
    using that assms(6,10) i tables_okD(3) [OF assms(1), of l k' n] by (cases "l = list") simp_all
  ultimately show "tables_ok B s'"
    using tables_okD(2) [OF assms(1)] assms(3) by (simp add: tables_ok_def)
  show "store_of B s' = (store_of B s)\<lparr>st_lists := (st_lists (store_of B s))(list \<mapsto> (k, table_cells B k f len'))\<rparr>"
  proof (rule store.equality)
    show "st_lists (store_of B s') = st_lists ((store_of B s)\<lparr>st_lists := (st_lists (store_of B s))(list \<mapsto> (k, table_cells B k f len'))\<rparr>)"
      by (rule ext) (simp add: assms(6) i)
    have "index_rows s' l = index_rows s l" for l by (simp add: index_rows_def lk assms(5) split: option.split)
    then show "st_index (store_of B s') = st_index ((store_of B s)\<lparr>st_lists := (st_lists (store_of B s))(list \<mapsto> (k, table_cells B k f len'))\<rparr>)"
      by (simp add: fun_eq_iff)
  qed (simp_all add: fun_eq_iff assms(3))
qed

lemma list_key_of:
  assumes "tables_ok B s" and "wish_lists s list = Some (k, len)"
  obtains key where "list_key s list = Some key" "key \<in> snd ` set (wish_list_keys s)"
proof -
  from keys_okD(3) [OF tables_okD(1) [OF assms(1)], of list] assms(2) have "list_key s list \<noteq> None" by simp
  then obtain key where key: "list_key s list = Some key" by blast
  then have "key \<in> snd ` set (wish_list_keys s)" by (force simp: list_key_def dest: map_of_SomeD)
  with key show thesis by (rule that)
qed

text \<open>The statements on items, by what they do to the item at each position.\<close>

lemma item_at_same_keys:
  assumes "keys_ok s" and "list_key s list = Some key" and "wish_list_keys s' = wish_list_keys s"
    and "\<And>p. map_of (wish_items s') (key, p) = f p"
    and "\<And>k p. k \<noteq> key \<Longrightarrow> map_of (wish_items s') (k, p) = map_of (wish_items s) (k, p)"
  shows "item_at s' l p = (if l = list then f p else item_at s l p)"
proof -
  have lk: "list_key s' l = list_key s l" using assms(3) by (simp add: list_key_def)
  show ?thesis
  proof (cases "list_key s l")
    case None
    with assms(2) lk show ?thesis by (auto simp: item_at_def)
  next
    case (Some k)
    show ?thesis
    proof (cases "k = key")
      case True
      with list_key_inj [OF assms(1,2), of l] Some assms(4) lk show ?thesis by (simp add: item_at_def)
    next
      case False
      with Some assms(2,5) lk show ?thesis by (auto simp: item_at_def)
    qed
  qed
qed

lemma map_of_update:
  "map_of (map (\<lambda>(at, old). (at, if at = a then b else old)) rows) x =
     (if x = a then map_option (\<lambda>_. b) (map_of rows a) else map_of rows x)"
  by (induction rows) auto

lemma map_of_filter_key:
  "map_of (filter (\<lambda>(at, _). P at) rows) x = (if P x then map_of rows x else None)"
  by (induction rows) auto

lemma items_okD:
  assumes "items_ok B k f len" and "p < len"
  obtains b where "f p = Some b" "b = [] \<or> encodes B k b"
  using assms unfolding items_ok_def by blast

subsection \<open>Statements on the items of one list\<close>

definition items_changed :: "string \<Rightarrow> (nat \<Rightarrow> string option) \<Rightarrow> tables \<Rightarrow> tables \<Rightarrow> bool" where
  "items_changed list f s s' \<longleftrightarrow> wish_objects s' = wish_objects s \<and> wish_lists s' = wish_lists s
     \<and> wish_list_keys s' = wish_list_keys s \<and> wish_history_index s' = wish_history_index s
     \<and> distinct (map fst (wish_items s'))
     \<and> (\<forall>row \<in> set (wish_items s'). fst (fst row) \<in> snd ` set (wish_list_keys s))
     \<and> (\<forall>l p. item_at s' l p = (if l = list then f p else item_at s l p))"

lemma items_changedI:
  assumes "keys_ok s" and "list_key s list = Some key" and "s' = s\<lparr>wish_items := rows\<rparr>" and "distinct (map fst rows)"
    and "\<And>k p b. ((k, p), b) \<in> set rows \<Longrightarrow> k = key \<or> (\<exists>p b. ((k, p), b) \<in> set (wish_items s))"
    and "\<And>p. map_of rows (key, p) = f p"
    and "\<And>k p. k \<noteq> key \<Longrightarrow> map_of rows (k, p) = map_of (wish_items s) (k, p)"
  shows "items_changed list f s s'"
proof -
  have "key \<in> snd ` set (wish_list_keys s)" using assms(2) by (force simp: list_key_def dest: map_of_SomeD)
  then have "fst (fst row) \<in> snd ` set (wish_list_keys s)" if "row \<in> set rows" for row
    using that assms(5) [of "fst (fst row)" "snd (fst row)" "snd row"] keys_okD(5) [OF assms(1)] by force
  moreover have "item_at s' l p = (if l = list then f p else item_at s l p)" for l p
    by (rule item_at_same_keys [OF assms(1,2)]) (use assms(3,6,7) in auto)
  ultimately show ?thesis using assms(3,4) by (simp add: items_changed_def)
qed

lemma items_changedD:
  assumes "items_changed list f s s'"
  shows "wish_objects s' = wish_objects s" and "wish_lists s' = wish_lists s" and "wish_list_keys s' = wish_list_keys s"
    and "wish_history_index s' = wish_history_index s" and "distinct (map fst (wish_items s'))"
    and "\<forall>row \<in> set (wish_items s'). fst (fst row) \<in> snd ` set (wish_list_keys s)"
    and "item_at s' l p = (if l = list then f p else item_at s l p)"
  using assms unfolding items_changed_def by blast+

lemma items_changed_keys:
  assumes "items_changed list f s s'" and "keys_ok s"
  shows "keys_ok s'" and "list_key s' l = list_key s l"
proof -
  note c = items_changedD [OF assms(1)]
  show l: "list_key s' l = list_key s l" for l by (simp add: list_key_def c(3))
  show "keys_ok s'" using keys_okD [OF assms(2)] c(5,6) by (simp add: keys_ok_def c(2,3,4) l)
qed

lemma items_changed_trans:
  assumes "items_changed list f s s'" and "items_changed list g s' s''"
  shows "items_changed list g s s''"
proof -
  note c = items_changedD [OF assms(1)] and d = items_changedD [OF assms(2)]
  show ?thesis using c(1-4,7) d by (simp add: items_changed_def)
qed

lemma insert_item_changes:
  assumes "keys_ok s" and "list_key s list = Some key" and "item_at s list pos = None"
  shows "\<exists>s'. insert_item list pos bytes s = Inr s' \<and> items_changed list ((item_at s list)(pos \<mapsto> bytes)) s s'"
proof -
  let ?rows = "((key, pos), bytes) # wish_items s"
  from assms(2,3) have n: "map_of (wish_items s) (key, pos) = None" by (simp add: item_at_def)
  then have "insert_item list pos bytes s = Inr (s\<lparr>wish_items := ?rows\<rparr>)" using assms(2) by (simp add: insert_item_def)
  moreover have "items_changed list ((item_at s list)(pos \<mapsto> bytes)) s (s\<lparr>wish_items := ?rows\<rparr>)"
  proof (rule items_changedI [OF assms(1,2)])
    show "distinct (map fst ?rows)" using n keys_okD(4) [OF assms(1)] by (simp add: map_of_eq_None_iff)
  qed (use assms(2) in \<open>auto simp: item_at_def\<close>)
  ultimately show ?thesis by blast
qed

lemma insert_rows_changes:
  assumes "keys_ok s" and "list_key s list = Some key" and "\<forall>p \<ge> pos. item_at s list p = None"
  shows "\<exists>s'. insert_rows list pos bs s = Inr s' \<and>
     items_changed list (\<lambda>p. if pos \<le> p \<and> p < pos + length bs then Some (bs ! (p - pos)) else item_at s list p) s s'"
  using assms
proof (induction bs arbitrary: pos s)
  case Nil
  have "items_changed list (item_at s list) s s"
    using Nil.prems(1) keys_okD(4,5) [OF Nil.prems(1)] by (auto simp: items_changed_def)
  moreover have "(\<lambda>p. if pos \<le> p \<and> p < pos + length ([] :: string list) then Some ([] ! (p - pos)) else item_at s list p) = item_at s list"
    by (rule ext) auto
  ultimately show ?case by (intro exI [of _ s] conjI) (simp_all only: insert_rows.simps)
next
  case (Cons b bs)
  obtain u where u: "insert_item list pos b s = Inr u" "items_changed list ((item_at s list)(pos \<mapsto> b)) s u"
    using insert_item_changes [OF Cons.prems(1,2), of pos b] Cons.prems(3) by auto
  note k = items_changed_keys [OF u(2) Cons.prems(1)] and i = items_changedD(7) [OF u(2), of list]
  obtain t where t: "insert_rows list (Suc pos) bs u = Inr t" "items_changed list (\<lambda>p. if Suc pos \<le> p \<and> p < Suc pos + length bs
      then Some (bs ! (p - Suc pos)) else item_at u list p) u t"
  proof -
    have "list_key u list = Some key" using k(2) Cons.prems(2) by simp
    moreover have "\<forall>p \<ge> Suc pos. item_at u list p = None" using i Cons.prems(3) by simp
    ultimately show thesis using Cons.IH [OF k(1), of "Suc pos"] that by blast
  qed
  have f: "(\<lambda>p. if Suc pos \<le> p \<and> p < Suc pos + length bs then Some (bs ! (p - Suc pos)) else item_at u list p)
      = (\<lambda>p. if pos \<le> p \<and> p < pos + length (b # bs) then Some ((b # bs) ! (p - pos)) else item_at s list p)"
    using i by (auto simp: fun_eq_iff nth_Cons' Suc_diff_le)
  from u(1) t(1) items_changed_trans [OF u(2) t(2)] show ?case unfolding f by auto
qed

lemma update_item_changes:
  assumes "keys_ok s" and "list_key s list = Some key" and "item_at s list pos \<noteq> None"
  shows "items_changed list ((item_at s list)(pos \<mapsto> bytes)) s (update_item list pos bytes s)"
proof (rule items_changedI [OF assms(1,2)])
  let ?rows = "map (\<lambda>(at, old). (at, if at = (key, pos) then bytes else old)) (wish_items s)"
  show "update_item list pos bytes s = s\<lparr>wish_items := ?rows\<rparr>" using assms(2) by (simp add: update_item_def)
  have "map fst ?rows = map fst (wish_items s)" by auto
  then show "distinct (map fst ?rows)" using keys_okD(4) [OF assms(1)] by (simp only:)
  show "map_of ?rows (key, p) = ((item_at s list)(pos \<mapsto> bytes)) p" for p
    unfolding map_of_update using assms(2,3) by (auto simp: item_at_def)
  show "k \<noteq> key \<Longrightarrow> map_of ?rows (k, p) = map_of (wish_items s) (k, p)" for k p
    unfolding map_of_update by simp
qed auto

lemma delete_item_changes:
  assumes "keys_ok s" and "list_key s list = Some key"
  shows "items_changed list ((item_at s list)(pos := None)) s (delete_item list pos s)"
proof (rule items_changedI [OF assms])
  let ?rows = "filter (\<lambda>(at, _). at \<noteq> (key, pos)) (wish_items s)"
  show "delete_item list pos s = s\<lparr>wish_items := ?rows\<rparr>" using assms(2) by (simp add: delete_item_def)
  show "distinct (map fst ?rows)" using keys_okD(4) [OF assms(1)] by (rule distinct_map_filter)
  show "map_of ?rows (key, p) = ((item_at s list)(pos := None)) p" for p
    unfolding map_of_filter_key using assms(2) by (auto simp: item_at_def)
  show "k \<noteq> key \<Longrightarrow> map_of ?rows (k, p) = map_of (wish_items s) (k, p)" for k p
    unfolding map_of_filter_key by simp
qed auto

lemma map_of_NoneI: "(\<And>b. (x, b) \<notin> set rows) \<Longrightarrow> map_of rows x = None"
  by (cases "map_of rows x") (auto dest: map_of_SomeD)

lemma map_of_rows_cong:
  assumes "distinct (map fst rows)" and "distinct (map fst rows')" and "\<And>b. (x, b) \<in> set rows \<longleftrightarrow> (x, b) \<in> set rows'"
  shows "map_of rows x = map_of rows' x"
proof (cases "map_of rows x")
  case None
  then have "(x, b) \<notin> set rows'" for b using assms(1,3) by (metis map_of_is_SomeI not_None_eq)
  with None show ?thesis using map_of_NoneI [of x rows'] by simp
next
  case (Some b)
  then have "(x, b) \<in> set rows'" using assms(3) map_of_SomeD by metis
  with assms(2) Some show ?thesis by simp
qed

text \<open>
  Moving rows: every chosen row goes to its new place, which was free, and leaves its old one.
\<close>

lemma shift_items_changes:
  assumes "keys_ok s" and "list_key s list = Some key"
    and free: "\<And>p. chosen p \<Longrightarrow> item_at s list p \<noteq> None \<Longrightarrow> 0 \<le> f p \<and> item_at s list (nat (f p)) = None"
    and inj: "\<And>p q. chosen p \<Longrightarrow> chosen q \<Longrightarrow> f p = f q \<Longrightarrow> p = q"
    and moved: "\<And>p. chosen p \<Longrightarrow> item_at s list p \<noteq> None \<Longrightarrow> g (nat (f p)) = item_at s list p"
    and stays: "\<And>p. \<not> chosen p \<Longrightarrow> item_at s list p \<noteq> None \<Longrightarrow> g p = item_at s list p"
    and only: "\<And>q b. g q = Some b \<Longrightarrow> (\<exists>p. chosen p \<and> item_at s list p \<noteq> None \<and> nat (f p) = q) \<or> (\<not> chosen q \<and> item_at s list q \<noteq> None)"
  shows "\<exists>s'. shift_items list chosen f s = Inr s' \<and> items_changed list g s s'"
proof -
  let ?rows = "wish_items s"
  let ?phi = "\<lambda>(k, p). if k = key \<and> chosen p then (k, nat (f p)) else (k, p)"
  let ?new = "map (\<lambda>((k, p), bytes). if k = key \<and> chosen p then ((k, nat (f p)), bytes) else ((k, p), bytes)) ?rows"
  have d: "distinct (map fst ?rows)" by (rule keys_okD(4) [OF assms(1)])
  have at: "((key, p), b) \<in> set ?rows \<longleftrightarrow> item_at s list p = Some b" for p b
    using assms(2) d by (simp add: item_at_def map_of_eq_Some_iff)
  have inrow: "item_at s list p \<noteq> None" if "((key, p), b) \<in> set ?rows" for p b using that at by simp
  have phi: "inj_on ?phi (set (map fst ?rows))"
  proof (rule inj_onI)
    fix x y assume x: "x \<in> set (map fst ?rows)" and y: "y \<in> set (map fst ?rows)" and e: "?phi x = ?phi y"
    obtain k p l q where xy: "x = (k, p)" "y = (l, q)" by (metis surj_pair)
    with e have kl: "k = l" by (auto split: if_splits)
    show "x = y"
    proof (cases "k = key")
      case True
      from x y xy obtain b b' where "((k, p), b) \<in> set ?rows" "((l, q), b') \<in> set ?rows" by auto
      with True kl inrow have i: "item_at s list p \<noteq> None" "item_at s list q \<noteq> None" by blast+
      have np: "nat (f p) \<noteq> q" if "chosen p" using free [OF that i(1)] i(2) by auto
      have nq: "nat (f q) \<noteq> p" if "chosen q" using free [OF that i(2)] i(1) by auto
      have "f p = f q" if "chosen p" "chosen q" "nat (f p) = nat (f q)"
        using free [OF that(1) i(1)] free [OF that(2) i(2)] that(3) by auto
      with e xy True kl np nq inj show ?thesis by (auto split: if_splits)
    next
      case False
      with e xy kl show ?thesis by auto
    qed
  qed
  have fst_new: "map fst ?new = map ?phi (map fst ?rows)" by (auto split: if_splits)
  have dn: "distinct (map fst ?new)" unfolding fst_new using d phi by (simp only: distinct_map) 
  let ?moved = "map (f \<circ> snd \<circ> fst) (filter (\<lambda>((k, p), _). k = key \<and> chosen p) ?rows)"
  let ?places = "map (int \<circ> snd \<circ> fst) (filter (\<lambda>((k, _), _). k = key) ?rows)"
  have df: "distinct (map h (filter P ?rows))" if "inj_on h (set (filter P ?rows))" for h :: "(nat \<times> nat) \<times> string \<Rightarrow> int" and P
  proof -
    have "distinct ?rows" using d by (simp add: distinct_map)
    with that show ?thesis by (simp only: distinct_map distinct_filter simp_thms)
  qed
  have row: "x = y" if "x \<in> set ?rows" "y \<in> set ?rows" "fst x = fst y" for x y
    using that d by (metis distinct_map inj_onD)
  have "distinct ?moved"
  proof (rule df, rule inj_onI)
    fix x y assume "x \<in> set (filter (\<lambda>((k, p), _). k = key \<and> chosen p) ?rows)"
      "y \<in> set (filter (\<lambda>((k, p), _). k = key \<and> chosen p) ?rows)" "(f \<circ> snd \<circ> fst) x = (f \<circ> snd \<circ> fst) y"
    then show "x = y" using inj by (intro row) auto
  qed
  moreover have "distinct ?places"
  proof (rule df, rule inj_onI)
    fix x y assume "x \<in> set (filter (\<lambda>((k, _), _). k = key) ?rows)"
      "y \<in> set (filter (\<lambda>((k, _), _). k = key) ?rows)" "(int \<circ> snd \<circ> fst) x = (int \<circ> snd \<circ> fst) y"
    then show "x = y" by (intro row) auto
  qed
  moreover have "set ?moved \<inter> set ?places = {}" using free inrow by fastforce
  ultimately have "distinct (?moved @ ?places)" by (simp only: distinct_append)
  moreover have "list_all (\<lambda>p. 0 \<le> p) ?moved" using free inrow by (fastforce simp: list_all_iff)
  ultimately have "shift_items list chosen f s = Inr (s\<lparr>wish_items := ?new\<rparr>)"
    using assms(2) by (simp only: shift_items_def option.case Let_def simp_thms if_False)
  moreover have "items_changed list g s (s\<lparr>wish_items := ?new\<rparr>)"
  proof (rule items_changedI [OF assms(1,2) refl dn])
    show "((k, p), b) \<in> set ?new \<Longrightarrow> k = key \<or> (\<exists>p b. ((k, p), b) \<in> set ?rows)" for k p b
      by (auto split: if_splits)
    have new: "((key, q), b) \<in> set ?new \<longleftrightarrow> (\<exists>p. item_at s list p = Some b \<and> (if chosen p then q = nat (f p) else q = p))" for q b
      unfolding at [symmetric] by (force split: if_splits)
    show "map_of ?new (key, q) = g q" for q
    proof (cases "g q")
      case None
      have "((key, q), b) \<notin> set ?new" for b
      proof
        assume "((key, q), b) \<in> set ?new"
        then obtain p where "item_at s list p = Some b" "if chosen p then q = nat (f p) else q = p" unfolding new by blast
        with moved [of p] stays [of p] None show False by (cases "chosen p") simp_all
      qed
      then have "map_of ?new (key, q) = None" by (rule map_of_NoneI)
      with None show ?thesis by (simp only:)
    next
      case (Some b)
      have "((key, q), b) \<in> set ?new"
        unfolding new using only [OF Some] Some moved stays by metis
      with dn Some show ?thesis by (simp only: map_of_eq_Some_iff)
    qed
    show "map_of ?new (k, q) = map_of ?rows (k, q)" if "k \<noteq> key" for k q
    proof (rule map_of_rows_cong [OF dn d])
      show "((k, q), b) \<in> set ?new \<longleftrightarrow> ((k, q), b) \<in> set ?rows" for b
        using that by (force split: if_splits)
    qed
  qed
  ultimately show ?thesis by blast
qed

end
