(* ===== verification/Storage_Refinement.thy ===== *)
theory Storage_Refinement
  imports Storage_Tables
begin

text \<open>
  The transaction of \<open>Storage_Db\<close> implements the plain store of \<open>Store\<close>, operation by operation.

  \<open>tx_ok\<close> is what a transaction keeps to: a cached value is the value of the store as the
  transaction found it (so that it is right again after a rollback), and the value of the store as it
  is now unless its key is dirty; and what is not dirty has not changed.
\<close>

subsection \<open>What a key stands for\<close>

fun store_value :: "'v store \<Rightarrow> cache_key \<Rightarrow> 'v cached option" where
  "store_value s (ObjectKey n) = map_option (\<lambda>(_, v). CachedOne v) (st_objects s n)"
| "store_value s (ItemKey l p) =
     (case st_lists s l of None \<Rightarrow> None | Some (_, cells) \<Rightarrow> map_option CachedOne (cell_at cells p))"
| "store_value s (PageKey l n) = (case st_lists s l of
     None \<Rightarrow> None
   | Some (k, cells) \<Rightarrow>
       if n * page_size < length cells then Some (CachedPage k (take page_size (drop (n * page_size) cells))) else None)"

definition tx_ok :: "('l \<Rightarrow> cache_key \<Rightarrow> 'v cached_value option) \<Rightarrow> ('l, 'v) backend \<Rightarrow> 'v store \<Rightarrow> 'l transaction \<Rightarrow> bool" where
  "tx_ok view B base t \<longleftrightarrow> tables_ok B (tr_sql t) \<and> cache_fits view (tr_cache t)
     \<and> (\<forall>k w. view (ca_values (tr_cache t)) k = Some w \<longrightarrow> store_value base k = Some (cv_value w)
          \<and> (k \<notin> set (tr_dirty t) \<longrightarrow> store_value (store_of B (tr_sql t)) k = Some (cv_value w)))
     \<and> (\<forall>k v. k \<notin> set (tr_dirty t) \<longrightarrow> store_value (store_of B (tr_sql t)) k = Some v \<longrightarrow> store_value base k = Some v)"

lemma tx_okD:
  assumes "tx_ok view B base t"
  shows "tables_ok B (tr_sql t)" and "cache_fits view (tr_cache t)"
    and "view (ca_values (tr_cache t)) k = Some w \<Longrightarrow> store_value base k = Some (cv_value w)"
    and "view (ca_values (tr_cache t)) k = Some w \<Longrightarrow> k \<notin> set (tr_dirty t) \<Longrightarrow>
       store_value (store_of B (tr_sql t)) k = Some (cv_value w)"
    and "k \<notin> set (tr_dirty t) \<Longrightarrow> store_value (store_of B (tr_sql t)) k = Some v \<Longrightarrow> store_value base k = Some v"
  using assms unfolding tx_ok_def by blast+

text \<open>A transaction that has only read.\<close>

definition same_sql :: "'l transaction \<Rightarrow> 'l transaction \<Rightarrow> bool" where
  "same_sql t t' \<longleftrightarrow> tr_sql t' = tr_sql t \<and> tr_dirty t' = tr_dirty t"

lemma load_cached_ok:
  assumes "lru_laws view (bk_lru B)" and "tx_ok view B base t"
  obtains found t' where "load_cached B key t = (Inr found, t')" "tx_ok view B base t'" "same_sql t t'"
    "\<forall>w. found = Some w \<longrightarrow> store_value (store_of B (tr_sql t)) key = Some w"
proof (cases "key \<in> set (tr_dirty t)")
  case True
  then show thesis using assms(2) by (intro that [of None t]) (simp_all add: load_cached_def same_sql_def)
next
  case False
  obtain r c where g: "cache_get (bk_lru B) key (tr_cache t) = (r, c)" by force
  note v = cache_get_view [OF assms(1) g]
  let ?t = "t\<lparr>tr_cache := c\<rparr>"
  have "tx_ok view B base ?t" using assms(2) v by (simp add: tx_ok_def)
  then show thesis
    using False g v(1) tx_okD(4) [OF assms(2)]
    by (intro that [of "map_option cv_value r" ?t]) (auto simp: load_cached_def same_sql_def)
qed

lemma cache_value_ok:
  assumes "lru_laws view (bk_lru B)" and "tx_ok view B base t" and "store_value (store_of B (tr_sql t)) key = Some v"
  obtains t' where "cache_value B key v n t = (Inr (), t')" "tx_ok view B base t'" "same_sql t t'"
proof (cases "key \<in> set (tr_dirty t)")
  case True
  then show thesis using assms(2) by (intro that [of t]) (simp_all add: cache_value_def same_sql_def)
next
  case False
  let ?w = "\<lparr>cv_value = v, cv_weight = saturating_add n 128\<rparr>"
  let ?c = "cache_insert (bk_lru B) key ?w (tr_cache t)"
  note i = cache_insert_view [OF assms(1) tx_okD(2) [OF assms(2)], of key ?w]
  have k: "view (ca_values (tr_cache t)) k = Some w \<or> k = key \<and> w = ?w" if "view (ca_values ?c) k = Some w" for k w
  proof -
    have "((view (ca_values (tr_cache t)))(key \<mapsto> ?w)) k = Some w"
      using i(2) that unfolding map_le_def by (metis domI)
    then show ?thesis by (auto split: if_splits)
  qed
  have "store_value base key = Some v" by (rule tx_okD(5) [OF assms(2) False assms(3)])
  then have "tx_ok view B base (t\<lparr>tr_cache := ?c\<rparr>)"
    using tx_okD [OF assms(2)] i(1) assms(3) k unfolding tx_ok_def by fastforce
  then show thesis using False by (intro that [of "t\<lparr>tr_cache := ?c\<rparr>"]) (simp_all add: cache_value_def same_sql_def)
qed

text \<open>A change of the tables, with every key marked whose value changed.\<close>

lemma tx_ok_write:
  assumes "tx_ok view B base t" and "tables_ok B s'"
    and "\<And>k. k \<notin> set (tr_dirty t) \<union> D \<Longrightarrow> store_value (store_of B s') k = store_value (store_of B (tr_sql t)) k"
    and "set dirty' = set (tr_dirty t) \<union> D"
  shows "tx_ok view B base (t\<lparr>tr_sql := s', tr_dirty := dirty'\<rparr>)"
  using tx_okD [OF assms(1)] assms(2-4) unfolding tx_ok_def by simp

lemma list_values_marked:
  assumes "st_lists s list = Some (k, cells)" and "st_objects s' = st_objects s"
    and "st_lists s' = (st_lists s)(list \<mapsto> (k, cells'))"
    and "\<And>p. p < max (length cells) (length cells') \<Longrightarrow>
       p < length cells \<and> p < length cells' \<and> cells ! p = cells' ! p \<or> {ItemKey list p, PageKey list (p div page_size)} \<subseteq> D"
    and "key \<notin> D"
  shows "store_value s' key = store_value s key"
proof (cases key)
  case (ObjectKey n)
  with assms(2) show ?thesis by simp
next
  case (ItemKey l p)
  show ?thesis
  proof (cases "l = list")
    case True
    then have "p < max (length cells) (length cells') \<Longrightarrow> p < length cells \<and> p < length cells' \<and> cells ! p = cells' ! p"
      using assms(4) [of p] assms(5) ItemKey by auto
    then have "cell_at cells' p = cell_at cells p" by (auto simp: cell_at_def)
    with True ItemKey assms(1,3) show ?thesis by simp
  next
    case False
    with ItemKey assms(3) show ?thesis by simp
  qed
next
  case (PageKey l n)
  show ?thesis
  proof (cases "l = list")
    case True
    have same: "p < length cells \<and> p < length cells' \<and> cells ! p = cells' ! p"
      if "p < max (length cells) (length cells')" "p div page_size = n" for p
      using assms(4) [OF that(1)] that(2) assms(5) PageKey True by auto
    have at: "i < page_size \<Longrightarrow> (n * page_size + i) div page_size = n" for i by (simp add: page_size_def)
    have len: "n * page_size + i < length cells \<longleftrightarrow> n * page_size + i < length cells'" if "i < page_size" for i
      using same [OF _ at [OF that]] by auto
    have "take page_size (drop (n * page_size) cells') = take page_size (drop (n * page_size) cells)"
    proof (rule nth_equalityI)
      have "min (length cells' - n * page_size) page_size = min (length cells - n * page_size) page_size"
      proof (rule ccontr)
        assume "\<not> ?thesis"
        then have "\<exists>i < page_size. (n * page_size + i < length cells) \<noteq> (n * page_size + i < length cells')"
          by (intro exI [of _ "min (min (length cells' - n * page_size) page_size) (min (length cells - n * page_size) page_size)"])
            (auto simp: min_def split: if_splits)
        with len show False by blast
      qed
      then show "length (take page_size (drop (n * page_size) cells')) = length (take page_size (drop (n * page_size) cells))" by simp
      fix i assume "i < length (take page_size (drop (n * page_size) cells'))"
      then have i: "i < page_size" "n * page_size + i < length cells'" by auto
      then have "n * page_size + i < length cells" "cells ! (n * page_size + i) = cells' ! (n * page_size + i)"
        using same [OF _ at [OF i(1)]] by auto
      with i show "take page_size (drop (n * page_size) cells') ! i = take page_size (drop (n * page_size) cells) ! i"
        by simp
    qed
    moreover have "n * page_size < length cells \<longleftrightarrow> n * page_size < length cells'"
      using len [of 0] by (simp add: page_size_def)
    ultimately show ?thesis using True PageKey assms(1,3) by simp
  next
    case False
    with PageKey assms(3) show ?thesis by simp
  qed
qed

subsection \<open>Simulation\<close>

definition simulates :: "('l \<Rightarrow> cache_key \<Rightarrow> 'v cached_value option) \<Rightarrow> ('l, 'v) backend \<Rightarrow> 'v store
    \<Rightarrow> ('l, 'a) db_op \<Rightarrow> ('v, 'a) store_op \<Rightarrow> bool" where
  "simulates view B base m n \<longleftrightarrow> (\<forall>t. tx_ok view B base t \<longrightarrow> (case m t of (r, t') \<Rightarrow> tx_ok view B base t'
     \<and> (case n (store_of B (tr_sql t)) of
          Inl e \<Rightarrow> r = Inl e
        | Inr (x, s') \<Rightarrow> r = Inr x \<and> store_of B (tr_sql t') = s')))"

lemma simulatesI:
  assumes "\<And>t. tx_ok view B base t \<Longrightarrow> \<exists>r t'. m t = (r, t') \<and> tx_ok view B base t'
     \<and> (case n (store_of B (tr_sql t)) of Inl e \<Rightarrow> r = Inl e | Inr (x, s') \<Rightarrow> r = Inr x \<and> store_of B (tr_sql t') = s')"
  shows "simulates view B base m n"
  unfolding simulates_def using assms by fastforce

lemma simulatesD:
  assumes "simulates view B base m n" and "tx_ok view B base t"
  obtains r t' where "m t = (r, t')" "tx_ok view B base t'"
    "case n (store_of B (tr_sql t)) of Inl e \<Rightarrow> r = Inl e | Inr (x, s') \<Rightarrow> r = Inr x \<and> store_of B (tr_sql t') = s'"
proof -
  obtain r t' where m: "m t = (r, t')" by force
  with assms have "tx_ok view B base t'"
    "case n (store_of B (tr_sql t)) of Inl e \<Rightarrow> r = Inl e | Inr (x, s') \<Rightarrow> r = Inr x \<and> store_of B (tr_sql t') = s'"
    unfolding simulates_def by fastforce+
  with m show thesis by (rule that)
qed

lemma simulates_bind:
  assumes "simulates view B base m n" and "\<And>x. simulates view B base (f x) (g x)"
  shows "simulates view B base (bindT m f) (bindS n g)"
proof (rule simulatesI)
  fix t assume "tx_ok view B base t"
  then obtain r u where m: "m t = (r, u)" "tx_ok view B base u"
    "case n (store_of B (tr_sql t)) of Inl e \<Rightarrow> r = Inl e | Inr (x, s') \<Rightarrow> r = Inr x \<and> store_of B (tr_sql u) = s'"
    by (rule simulatesD [OF assms(1)])
  show "\<exists>r t'. bindT m f t = (r, t') \<and> tx_ok view B base t' \<and> (case bindS n g (store_of B (tr_sql t)) of
      Inl e \<Rightarrow> r = Inl e | Inr (x, s') \<Rightarrow> r = Inr x \<and> store_of B (tr_sql t') = s')"
  proof (cases "n (store_of B (tr_sql t))")
    case (Inl e)
    with m show ?thesis by (simp add: bindT_def bindS_def)
  next
    case (Inr p)
    obtain x s' where p: "p = (x, s')" by force
    obtain r' t' where f: "f x u = (r', t')" "tx_ok view B base t'"
      "case g x (store_of B (tr_sql u)) of Inl e \<Rightarrow> r' = Inl e | Inr (y, s') \<Rightarrow> r' = Inr y \<and> store_of B (tr_sql t') = s'"
      by (rule simulatesD [OF assms(2) m(2)])
    with Inr p m show ?thesis by (simp add: bindT_def bindS_def)
  qed
qed

lemma simulates_return: "simulates view B base (returnT x) (returnS x)"
  by (rule simulatesI) (simp add: returnT_def returnS_def)

lemma simulates_fail: "simulates view B base (failT e) (failS e)"
  by (rule simulatesI) (simp add: failT_def failS_def)

lemma simulates_if:
  "simulates view B base m n \<Longrightarrow> simulates view B base m' n' \<Longrightarrow>
     simulates view B base (if b then m else m') (if b then n else n')"
  by simp

lemmas simulates_rules = simulates_bind simulates_return simulates_fail simulates_if

lemma list_cells_of:
  "list_cells K list (store_of B s) = (case wish_lists s list of
       None \<Rightarrow> Inl (NotFound list)
     | Some (k, len) \<Rightarrow> if k \<noteq> sv_kind K then Inl (TypeMismatch list)
         else Inr (table_cells B k (item_at s list) len, store_of B s))"
  by (auto simp: list_cells_def split: option.split)

lemma db_list_len_run:
  "db_list_len K list t = ((case wish_lists (tr_sql t) list of
       None \<Rightarrow> Inl (NotFound list)
     | Some (k, len) \<Rightarrow> if k \<noteq> sv_kind K then Inl (TypeMismatch list) else Inr len), t)"
  by (simp add: db_list_len_def queryT_def)

text \<open>
  An operation that starts by asking for the list: it fails as the store does when there is none or
  it is of another kind, and else goes on with the list's length and cells.
\<close>

lemma simulates_list:
  assumes "\<And>t len. tx_ok view B base t \<Longrightarrow> wish_lists (tr_sql t) list = Some (sv_kind K, len) \<Longrightarrow>
     \<exists>r t'. f len t = (r, t') \<and> tx_ok view B base t'
       \<and> (case g (table_cells B (sv_kind K) (item_at (tr_sql t) list) len) (store_of B (tr_sql t)) of
            Inl e \<Rightarrow> r = Inl e | Inr (x, s') \<Rightarrow> r = Inr x \<and> store_of B (tr_sql t') = s')"
  shows "simulates view B base (bindT (db_list_len K list) f) (bindS (list_cells K list) g)"
proof (rule simulatesI)
  fix t assume t: "tx_ok view B base t"
  show "\<exists>r t'. bindT (db_list_len K list) f t = (r, t') \<and> tx_ok view B base t' \<and>
      (case bindS (list_cells K list) g (store_of B (tr_sql t)) of
         Inl e \<Rightarrow> r = Inl e | Inr (x, s') \<Rightarrow> r = Inr x \<and> store_of B (tr_sql t') = s')"
  proof (cases "\<exists>len. wish_lists (tr_sql t) list = Some (sv_kind K, len)")
    case True
    then obtain len where len: "wish_lists (tr_sql t) list = Some (sv_kind K, len)" by blast
    from assms [OF t len] len show ?thesis by (simp add: bindT_def bindS_def db_list_len_run list_cells_of)
  next
    case False
    with t show ?thesis
      by (auto simp: bindT_def bindS_def db_list_len_run list_cells_of split: option.split)
  qed
qed

end
