(* ===== verification/Storage_Reads.thy ===== *)
theory Storage_Reads
  imports Storage_Refinement
begin

text \<open>
  The reads of a transaction give what the store holds, whether they are served by the cache, by one
  row or by the rows of a page.
\<close>

lemma stored_item:
  assumes "storable B K" and "tables_ok B s" and "wish_lists s list = Some (sv_kind K, len)" and "p < len"
  obtains (released) "item_at s list p = Some []" "cell_of B (sv_kind K) (the (item_at s list p)) = None"
  | (stored) x b where "item_at s list p = Some b" "b \<noteq> []" "decode_bytes B K b = Inr x" "of_type K x"
      "b = bk_to_vec B (sv_enc K x)" "cell_of B (sv_kind K) (the (item_at s list p)) = Some (sv_enc K x)"
proof -
  obtain b where b: "item_at s list p = Some b" "b = [] \<or> encodes B (sv_kind K) b"
    by (rule items_okD [OF tables_okD(3) [OF assms(2,3)] assms(4)])
  show thesis
  proof (cases "b = []")
    case True
    with b show thesis by (intro released) (simp_all add: cell_of_def)
  next
    case False
    with b obtain x where "of_type K x" "b = bk_to_vec B (sv_enc K x)" "bk_from_slice B (sv_kind K) b = Some (sv_enc K x)"
      "decode_bytes B K b = Inr x"
      using encodes_decode [OF assms(1), of b] by metis
    with b(1) False show thesis by (intro stored [of b x]) (simp_all add: cell_of_def)
  qed
qed

subsection \<open>Objects\<close>

lemma load_object_run:
  assumes "lru_laws view (bk_lru B)" and "storable B K" and "tx_ok view B base t"
  shows "\<exists>r t'. db_load_object B K name t = (r, t') \<and> tx_ok view B base t' \<and> same_sql t t'
     \<and> (case load_object K name (store_of B (tr_sql t)) of Inl e \<Rightarrow> r = Inl e | Inr (x, s') \<Rightarrow> r = Inr x \<and> s' = store_of B (tr_sql t))"
proof -
  let ?s = "tr_sql t"
  obtain found u where u: "load_cached B (ObjectKey name) t = (Inr found, u)" "tx_ok view B base u" "same_sql t u"
    and hit: "\<forall>w. found = Some w \<longrightarrow> store_value (store_of B ?s) (ObjectKey name) = Some w"
    by (rule load_cached_ok [OF assms(1,3), of "ObjectKey name"])
  have su: "tr_sql u = ?s" using u(3) by (simp add: same_sql_def)
  show ?thesis
  proof (cases "downcast_one K found")
    case (Some x)
    then obtain v where v: "found = Some (CachedOne v)" "sv_dec K v = Some x"
      by (auto simp: downcast_one_def split: option.splits cached.splits)
    from hit v(1) obtain k b where o: "wish_objects ?s name = Some (k, b)" "v = the (bk_from_slice B k b)" by auto
    with tables_okD(2) [OF tx_okD(1) [OF assms(3)] o(1)] have "bk_from_slice B k b = Some v" by (auto simp: encodes_def)
    from storableD(5) [OF assms(2) this v(2)] have "k = sv_kind K" .
    with o v(2) have "load_object K name (store_of B ?s) = Inr (x, store_of B ?s)"
      by (simp add: load_object_def decode_def expectS_def returnS_def)
    with u Some show ?thesis by (simp add: db_load_object_def bindT_def returnT_def)
  next
    case None
    show ?thesis
    proof (cases "wish_objects ?s name")
      case None
      with \<open>downcast_one K found = None\<close> u su show ?thesis
        by (simp add: db_load_object_def bindT_def queryT_def load_object_def)
    next
      case (Some row)
      obtain k b where o: "wish_objects ?s name = Some (k, b)" using Some by (cases row) auto
      show ?thesis
      proof (cases "k = sv_kind K")
        case False
        with \<open>downcast_one K found = None\<close> u su o show ?thesis
          by (simp add: db_load_object_def bindT_def queryT_def failT_def load_object_def)
      next
        case True
        from tables_okD(2) [OF tx_okD(1) [OF assms(3)] o] True obtain x where
          x: "of_type K x" "bk_from_slice B k b = Some (sv_enc K x)" "decode_bytes B K b = Inr x"
          using encodes_decode [OF assms(2), of b] by metis
        have "store_value (store_of B (tr_sql u)) (ObjectKey name) = Some (CachedOne (sv_enc K x))"
          using o x su by simp
        then obtain t' where t': "cache_value B (ObjectKey name) (CachedOne (sv_enc K x)) (length b) u = (Inr (), t')"
          "tx_ok view B base t'" "same_sql u t'" by (rule cache_value_ok [OF assms(1) u(2)])
        have "load_object K name (store_of B ?s) = Inr (x, store_of B ?s)"
          using o x True by (simp add: load_object_def decode_def expectS_def returnS_def)
        with \<open>downcast_one K found = None\<close> u su o True x t' show ?thesis
          by (simp add: db_load_object_def bindT_def queryT_def returnT_def same_sql_def)
      qed
    qed
  qed
qed

lemma simulates_load_object:
  assumes "lru_laws view (bk_lru B)" and "storable B K"
  shows "simulates view B base (db_load_object B K name) (load_object K name)"
proof (rule simulatesI)
  fix t assume "tx_ok view B base t"
  from load_object_run [OF assms this, of name] show "\<exists>r t'. db_load_object B K name t = (r, t') \<and> tx_ok view B base t' \<and>
    (case load_object K name (store_of B (tr_sql t)) of Inl e \<Rightarrow> r = Inl e | Inr (x, s') \<Rightarrow> r = Inr x \<and> store_of B (tr_sql t') = s')"
    by (fastforce simp: same_sql_def split: sum.splits)
qed

subsection \<open>Items\<close>

lemma simulates_list_len: "simulates view B base (db_list_len K list) (list_len K list)"
proof -
  have "simulates view B base (bindT (db_list_len K list) returnT) (list_len K list)"
    unfolding list_len_def by (rule simulates_list) (simp add: returnT_def returnS_def)
  moreover have "bindT m returnT = m" for m :: "('a, nat) db_op"
    by (auto simp: bindT_def returnT_def fun_eq_iff split: prod.split sum.split)
  ultimately show ?thesis by simp
qed

lemma simulates_get_item:
  assumes "lru_laws view (bk_lru B)" and "storable B K"
  shows "simulates view B base (db_get_item B K list pos) (get_item K list pos)"
  unfolding db_get_item_def get_item_def
proof (rule simulates_list)
  fix t len assume t: "tx_ok view B base t" and len: "wish_lists (tr_sql t) list = Some (sv_kind K, len)"
  let ?s = "tr_sql t"
  let ?cells = "table_cells B (sv_kind K) (item_at ?s list) len"
  show "\<exists>r t'. (if len \<le> pos then returnT None else bindT (load_cached B (ItemKey list pos)) (\<lambda>found.
          case downcast_one K found of Some x \<Rightarrow> returnT (Some x) | None \<Rightarrow>
            bindT (queryT (\<lambda>s. case item_at s list pos of None \<Rightarrow> Inl Sqlite | Some bytes \<Rightarrow> Inr bytes)) (\<lambda>bytes.
            if bytes = [] then returnT None
            else bindT (queryT (\<lambda>_. decode_bytes B K bytes)) (\<lambda>x.
              bindT (cache_value B (ItemKey list pos) (CachedOne (sv_enc K x)) (length bytes)) (\<lambda>_. returnT (Some x)))))) t = (r, t')
      \<and> tx_ok view B base t' \<and> (case (if length ?cells \<le> pos then returnS None else case ?cells ! pos of
          None \<Rightarrow> returnS None | Some v \<Rightarrow> bindS (decode K v) (\<lambda>x. returnS (Some x))) (store_of B ?s) of
        Inl e \<Rightarrow> r = Inl e | Inr (x, s') \<Rightarrow> r = Inr x \<and> store_of B (tr_sql t') = s')"
  proof (cases "len \<le> pos")
    case True
    with t show ?thesis by (simp add: returnT_def returnS_def)
  next
    case False
    then have p: "pos < len" by simp
    obtain found u where u: "load_cached B (ItemKey list pos) t = (Inr found, u)" "tx_ok view B base u" "same_sql t u"
      and hit: "\<forall>w. found = Some w \<longrightarrow> store_value (store_of B ?s) (ItemKey list pos) = Some w"
      by (rule load_cached_ok [OF assms(1) t, of "ItemKey list pos"])
    have su: "tr_sql u = ?s" using u(3) by (simp add: same_sql_def)
    show ?thesis
      using assms(2) tx_okD(1) [OF t] len p
    proof (cases rule: stored_item)
      case released
      have "downcast_one K found = None"
        using hit len p released by (cases found) (auto simp: downcast_one_def cell_at_def)
      with False u su p released show ?thesis
        by (simp add: bindT_def queryT_def returnT_def returnS_def)
    next
      case (stored x b)
      have v: "store_value (store_of B (tr_sql u)) (ItemKey list pos) = Some (CachedOne (sv_enc K x))"
        using len p stored su by (simp add: cell_at_def)
      obtain t' where t': "cache_value B (ItemKey list pos) (CachedOne (sv_enc K x)) (length b) u = (Inr (), t')"
        "tx_ok view B base t'" "same_sql u t'" by (rule cache_value_ok [OF assms(1) u(2) v])
      have d: "downcast_one K found = None \<or> downcast_one K found = Some x"
        using hit v su stored(4) by (cases found) (auto simp: downcast_one_def)
      have "(case ?cells ! pos of None \<Rightarrow> returnS None | Some v \<Rightarrow> bindS (decode K v) (\<lambda>x. returnS (Some x))) (store_of B ?s)
          = Inr (Some x, store_of B ?s)"
        using p stored by (simp add: decode_def expectS_def returnS_def bindS_def)
      with d False u su p stored(1-3) t' show ?thesis
        by (auto simp: bindT_def queryT_def returnT_def same_sql_def)
    qed
  qed
qed

subsection \<open>Pages\<close>

definition decoded :: "('a, 'v) stored_value \<Rightarrow> 'v option list \<Rightarrow> 'a option list" where
  "decoded K cells = map (\<lambda>c. Option.bind c (sv_dec K)) cells"

text \<open>Every cell of a list of a type holds a value of the type.\<close>

lemma cells_typed:
  assumes "storable B K" and "tables_ok B s" and "wish_lists s list = Some (sv_kind K, len)"
    and "c \<in> set (table_cells B (sv_kind K) (item_at s list) len)"
  shows "map_option (sv_enc K) (Option.bind c (sv_dec K)) = c"
proof -
  from assms(4) obtain p where p: "p < len" "c = cell_of B (sv_kind K) (the (item_at s list p))"
    by (auto simp: table_cells_def)
  from assms(1-3) p(1) show ?thesis by (cases rule: stored_item) (use p(2) in simp_all)
qed

lemma decode_cells_typed:
  assumes "\<And>c. c \<in> set cells \<Longrightarrow> map_option (sv_enc K) (Option.bind c (sv_dec K)) = c"
  shows "decode_cells K cells = Some (decoded K cells)" and "map (map_option (sv_enc K)) (decoded K cells) = cells"
    and "mapS (decode K) (List.map_filter (\<lambda>c. c) cells) s = Inr (List.map_filter (\<lambda>c. c) (decoded K cells), s)"
proof -
  show "map (map_option (sv_enc K)) (decoded K cells) = cells"
    using assms by (simp add: decoded_def map_idI)
  have "c = None \<or> (\<exists>v x. c = Some v \<and> sv_dec K v = Some x)" if "c \<in> set cells" for c
    using assms [OF that] by (cases c; cases "Option.bind c (sv_dec K)") auto
  then have "decode_cells K cells = Some (decoded K cells) \<and>
      mapS (decode K) (List.map_filter (\<lambda>c. c) cells) s = Inr (List.map_filter (\<lambda>c. c) (decoded K cells), s)"
  proof (induction cells)
    case (Cons c cells)
    then have ih: "decode_cells K cells = Some (decoded K cells)"
      "mapS (decode K) (List.map_filter (\<lambda>c. c) cells) s = Inr (List.map_filter (\<lambda>c. c) (decoded K cells), s)" by auto
    from Cons.prems [of c] have "c = None \<or> (\<exists>v x. c = Some v \<and> sv_dec K v = Some x)" by simp
    moreover have d: "decode K v s = (case sv_dec K v of Some x \<Rightarrow> Inr (x, s) | None \<Rightarrow> Inl Encoding)" for v
      by (simp add: decode_def expectS_def returnS_def failS_def split: option.split)
    ultimately show ?case
      using ih by (auto simp: decoded_def map_filter_simps bindS_def returnS_def d)
  qed (simp add: decoded_def map_filter_simps returnS_def)
  then show "decode_cells K cells = Some (decoded K cells)"
    "mapS (decode K) (List.map_filter (\<lambda>c. c) cells) s = Inr (List.map_filter (\<lambda>c. c) (decoded K cells), s)" by auto
qed

text \<open>The rows of a page, in order.\<close>

lemma sorted_rows_unique:
  assumes "distinct (map fst rows)" and "fst ` set rows = set ps" and "sorted_wrt (<) ps"
    and "\<And>p b. (p, b) \<in> set rows \<Longrightarrow> f p = b"
  shows "sort_key fst rows = map (\<lambda>p. (p, f p)) ps"
proof -
  let ?r = "sort_key fst rows"
  have m: "mset ?r = mset rows" by simp
  then have d: "distinct (map fst ?r)" using assms(1) by (metis mset_map mset_eq_imp_distinct_iff)
  have "map fst ?r = ps"
  proof (rule sorted_distinct_set_unique)
    show "sorted (map fst ?r)" by (rule sorted_sort_key)
    show "sorted ps" "distinct ps" using assms(3) strict_sorted_iff by blast+
    show "set (map fst ?r) = set ps" using assms(2) by simp
  qed (rule d)
  moreover have "?r = map (\<lambda>p. (p, f p)) (map fst ?r)"
    by (rule sym, simp add: map_idI comp_def) (rule map_idI, use assms(4) in \<open>auto simp: prod_eq_iff\<close>)
  ultimately show ?thesis by simp
qed

lemma page_rows_of:
  assumes "tables_ok B s" and "wish_lists s list = Some (k, len)"
  shows "page_rows s list (n * page_size) =
     map (\<lambda>p. (p, the (item_at s list p))) [n * page_size..<min len ((n + 1) * page_size)]"
proof -
  obtain key where key: "list_key s list = Some key" by (rule list_key_of [OF assms])
  note i = tables_okD(3) [OF assms]
  have d: "distinct (map fst (wish_items s))" by (rule keys_okD(4) [OF tables_okD(1) [OF assms(1)]])
  let ?rows = "list_rows s list"
  have rows: "(p, b) \<in> set ?rows \<longleftrightarrow> item_at s list p = Some b" for p b
  proof -
    have "(p, b) \<in> set ?rows \<longleftrightarrow> ((key, p), b) \<in> set (wish_items s)" by (force simp: list_rows_def key)
    then show ?thesis using key d by (simp add: item_at_def)
  qed
  have "map fst ?rows = map (snd \<circ> fst) (filter (\<lambda>((k, _), _). k = key) (wish_items s))"
    by (simp add: list_rows_def key comp_def case_prod_unfold)
  moreover have "distinct \<dots>"
  proof -
    have "distinct (filter (\<lambda>((k, _), _). k = key) (wish_items s))" using d by (simp add: distinct_map)
    moreover have "inj_on (snd \<circ> fst) (set (filter (\<lambda>((k, _), _). k = key) (wish_items s)))"
    proof (rule inj_onI)
      fix x y assume "x \<in> set (filter (\<lambda>((k, _), _). k = key) (wish_items s))"
        "y \<in> set (filter (\<lambda>((k, _), _). k = key) (wish_items s))" "(snd \<circ> fst) x = (snd \<circ> fst) y"
      then have "x \<in> set (wish_items s)" "y \<in> set (wish_items s)" "fst x = fst y" by auto
      with d show "x = y" unfolding distinct_map by (blast dest: inj_onD)
    qed
    ultimately show ?thesis by (simp only: distinct_map simp_thms)
  qed
  ultimately have dr: "distinct (map fst ?rows)" by (simp only:)
  let ?hi = "min (saturating_add (n * page_size) page_size) i64_max"
  let ?sel = "filter (\<lambda>(p, _). n * page_size \<le> p \<and> p < ?hi) ?rows"
  have "len \<le> i64_max" "i64_max < u64_max" using i by (simp_all add: items_ok_def i64_max_def u64_max_def)
  then have hi: "n * page_size \<le> p \<and> p < ?hi \<and> p < len \<longleftrightarrow> n * page_size \<le> p \<and> p < min len ((n + 1) * page_size)" for p
  proof -
    have "(n + 1) * page_size = n * page_size + page_size" by simp
    then show ?thesis
      using \<open>len \<le> i64_max\<close> \<open>i64_max < u64_max\<close> unfolding saturating_add_def min_less_iff_conj by linarith
  qed
  have some: "item_at s list p \<noteq> None \<longleftrightarrow> p < len" for p using i by (simp add: items_ok_def)
  show ?thesis unfolding page_rows_def
  proof (rule sorted_rows_unique)
    show "distinct (map fst ?sel)" using dr by (rule distinct_map_filter)
    have "p \<in> fst ` set ?sel \<longleftrightarrow> n * page_size \<le> p \<and> p < ?hi \<and> item_at s list p \<noteq> None" for p
      using rows by force
    then have "p \<in> fst ` set ?sel \<longleftrightarrow> p \<in> set [n * page_size..<min len ((n + 1) * page_size)]" for p
      unfolding some hi by (simp only: set_upt atLeastLessThan_iff)
    then show "fst ` set ?sel = set [n * page_size..<min len ((n + 1) * page_size)]" by (rule set_eqI)
    show "sorted_wrt (<) [n * page_size..<min len ((n + 1) * page_size)]" by simp
    show "(p, b) \<in> set ?sel \<Longrightarrow> the (item_at s list p) = b" for p b using rows by auto
  qed
qed

lemma page_values_typed:
  assumes "storable B K" and "tables_ok B s" and "wish_lists s list = Some (sv_kind K, len)"
  shows "a + m \<le> len \<Longrightarrow> \<exists>w. page_values B K start (map (\<lambda>p. (p, the (item_at s list p))) [a..<a + m]) vs weight
     = (if a = start + length vs \<or> m = 0 then Inr (vs @ decoded K (map (\<lambda>p. cell_of B (sv_kind K) (the (item_at s list p))) [a..<a + m]), w)
        else Inl (Corrupt ''non-contiguous list''))"
proof (induction m arbitrary: a vs weight)
  case 0
  show ?case by (simp add: decoded_def)
next
  case (Suc m)
  let ?b = "the (item_at s list a)"
  have up: "[a..<a + Suc m] = a # [Suc a..<Suc a + m]" by (simp add: upt_rec)
  have ih: "\<exists>w. page_values B K start (map (\<lambda>p. (p, the (item_at s list p))) [Suc a..<Suc a + m]) (vs @ [v]) weight'
     = Inr ((vs @ [v]) @ decoded K (map (\<lambda>p. cell_of B (sv_kind K) (the (item_at s list p))) [Suc a..<Suc a + m]), w)"
    if "a = start + length vs" for v weight'
    using Suc.IH [of "Suc a" "vs @ [v]" weight'] Suc.prems that by simp
  have a: "a < len" using Suc.prems by simp
  from assms a have "\<exists>v. (if ?b = [] then Inr None else map_sum id Some (decode_bytes B K ?b)) = Inr v
      \<and> v = Option.bind (cell_of B (sv_kind K) ?b) (sv_dec K)"
    by (cases rule: stored_item) simp_all
  then obtain v where v: "(if ?b = [] then Inr None else map_sum id Some (decode_bytes B K ?b)) = (Inr v :: storage_error + _)"
    "v = Option.bind (cell_of B (sv_kind K) ?b) (sv_dec K)" by blast
  show ?case
  proof (cases "a = start + length vs")
    case True
    have "page_values B K start (map (\<lambda>p. (p, the (item_at s list p))) [a..<a + Suc m]) vs weight
        = page_values B K start (map (\<lambda>p. (p, the (item_at s list p))) [Suc a..<Suc a + m]) (vs @ [v]) (saturating_add weight (length ?b))"
      unfolding up list.map page_values.simps(2) v(1) using True by simp
    with ih [OF True, of v] True v(2) show ?thesis unfolding up by (simp add: decoded_def)
  next
    case False
    then show ?thesis unfolding up by simp
  qed
qed

lemma load_page_run:
  assumes "lru_laws view (bk_lru B)" and "storable B K" and "tx_ok view B base t"
    and "wish_lists (tr_sql t) list = Some (sv_kind K, len)" and "n * page_size < len"
  shows "\<exists>t'. load_page B K list n t = (Inr (decoded K (take page_size (drop (n * page_size)
       (table_cells B (sv_kind K) (item_at (tr_sql t) list) len)))), t') \<and> tx_ok view B base t' \<and> same_sql t t'"
proof -
  let ?s = "tr_sql t"
  let ?cells = "table_cells B (sv_kind K) (item_at ?s list) len"
  let ?page = "take page_size (drop (n * page_size) ?cells)"
  note ok = tx_okD(1) [OF assms(3)]
  have typed: "map_option (sv_enc K) (Option.bind c (sv_dec K)) = c" if "c \<in> set ?page" for c
    using cells_typed [OF assms(2) ok assms(4)] that by (blast dest: in_set_takeD in_set_dropD)
  note dt = decode_cells_typed [OF typed]
  have v: "store_value (store_of B ?s) (PageKey list n) = Some (CachedPage (sv_kind K) ?page)"
    using assms(4,5) by simp
  obtain found u where u: "load_cached B (PageKey list n) t = (Inr found, u)" "tx_ok view B base u" "same_sql t u"
    and hit: "\<forall>w. found = Some w \<longrightarrow> store_value (store_of B ?s) (PageKey list n) = Some w"
    by (rule load_cached_ok [OF assms(1,3), of "PageKey list n"])
  have su: "tr_sql u = ?s" using u(3) by (simp add: same_sql_def)
  show ?thesis
  proof (cases found)
    case (Some w)
    with hit v have "w = CachedPage (sv_kind K) ?page" by simp
    with Some u dt(1) show ?thesis by (simp add: load_page_def bindT_def downcast_page_def returnT_def)
  next
    case None
    let ?m = "min len ((n + 1) * page_size) - n * page_size"
    have m: "n * page_size + ?m = min len ((n + 1) * page_size)" "n * page_size + ?m \<le> len" using assms(5) by auto
    have "?page = map (\<lambda>p. cell_of B (sv_kind K) (the (item_at ?s list p))) [n * page_size..<n * page_size + ?m]"
      unfolding m(1) by (simp add: table_cells_def drop_map take_map drop_upt) (simp add: min_def add.commute)
    with page_values_typed [OF assms(2) ok assms(4) m(2), of "n * page_size" "[]" 0]
    obtain weight where pv: "page_values B K (n * page_size) (page_rows ?s list (n * page_size)) [] 0 = Inr (decoded K ?page, weight)"
      unfolding page_rows_of [OF ok assms(4)] m(1) by auto
    obtain t' where t': "cache_value B (PageKey list n) (CachedPage (sv_kind K) ?page) weight u = (Inr (), t')"
      "tx_ok view B base t'" "same_sql u t'"
      by (rule cache_value_ok [OF assms(1) u(2), of "PageKey list n"]) (use v su in auto)
    with None u su pv dt(2) show ?thesis
      by (simp add: load_page_def bindT_def downcast_page_def queryT_def returnT_def same_sql_def)
  qed
qed

lemma map_filter_take_drop:
  "List.map_filter f (take i xs) @ List.map_filter f (take j (drop i xs)) = List.map_filter f (take (i + j) xs)"
  by (simp add: take_add map_filter_append)

lemma window_fits:
  fixes a pos :: nat
  assumes "a \<le> pos" and "pos - a < p" and "pos + min (stop - pos) (p - (pos - a)) \<le> stop" and "stop \<le> len"
  shows "pos - a + min (stop - pos) (p - (pos - a)) \<le> min (len - a) p"
  using assms by linarith

lemma window_cut:
  fixes a pos :: nat
  assumes "a \<le> pos" and "n \<le> p - (pos - a)"
  shows "take n (drop (pos - a) (take p (drop a xs))) = take n (drop pos xs)"
  using assms by (simp add: drop_take min_absorb1)

lemma read_range_run:
  assumes "lru_laws view (bk_lru B)" and "storable B K"
  shows "tx_ok view B base t \<Longrightarrow> wish_lists (tr_sql t) list = Some (sv_kind K, len) \<Longrightarrow> stop \<le> len \<Longrightarrow>
     \<exists>t'. read_range B K list pos stop t = (Inr (List.map_filter (\<lambda>c. c) (take (stop - pos) (drop pos
       (decoded K (table_cells B (sv_kind K) (item_at (tr_sql t) list) len))))), t') \<and> tx_ok view B base t' \<and> same_sql t t'"
proof (induction "stop - pos" arbitrary: pos t rule: less_induct)
  case less
  show ?case
  proof (cases "pos < stop")
    case False
    with less.prems(1) show ?thesis by (subst read_range.simps) (simp add: returnT_def same_sql_def map_filter_simps)
  next
    case True
    let ?n = "pos div page_size"
    let ?o = "pos - ?n * page_size"
    let ?count = "min (stop - pos) (page_size - ?o)"
    let ?xs = "decoded K (table_cells B (sv_kind K) (item_at (tr_sql t) list) len)"
    have o: "?o < page_size" "?n * page_size \<le> pos"
      using mod_less_divisor [of page_size pos] by (simp_all add: page_size_def minus_div_mult_eq_mod)
    then have c: "0 < ?count" "pos + ?count \<le> stop" using True by auto
    have "?n * page_size < len" using o(2) True less.prems(3) by linarith
    then obtain u where u: "load_page B K list ?n t = (Inr (decoded K (take page_size (drop (?n * page_size)
        (table_cells B (sv_kind K) (item_at (tr_sql t) list) len)))), u)" "tx_ok view B base u" "same_sql t u"
      using load_page_run [OF assms less.prems(1,2)] by blast
    let ?page = "take page_size (drop (?n * page_size) ?xs)"
    have page: "decoded K (take page_size (drop (?n * page_size) (table_cells B (sv_kind K) (item_at (tr_sql t) list) len))) = ?page"
      by (simp add: decoded_def take_map drop_map)
    have su: "tr_sql u = tr_sql t" using u(3) by (simp add: same_sql_def)
    have lx: "length ?xs = len" by (simp add: decoded_def)
    have fits: "\<not> ?o + ?count > length ?page"
      using window_fits [OF o(2,1) c(2) less.prems(3)] unfolding length_take length_drop lx not_less .
    have cut: "take ?count (drop ?o ?page) = take ?count (drop pos ?xs)"
      by (rule window_cut [OF o(2) min.cobounded2])
    have "stop - (pos + ?count) < stop - pos" using c True by linarith
    from less.hyps [OF this u(2)] su less.prems(2,3) obtain t' where t':
      "read_range B K list (pos + ?count) stop u = (Inr (List.map_filter (\<lambda>c. c) (take (stop - (pos + ?count)) (drop (pos + ?count) ?xs))), t')"
      "tx_ok view B base t'" "same_sql u t'" by auto
    have joined: "List.map_filter (\<lambda>c. c) (take ?count (drop pos ?xs)) @ List.map_filter (\<lambda>c. c) (take (stop - (pos + ?count)) (drop (pos + ?count) ?xs))
        = List.map_filter (\<lambda>c. c) (take (stop - pos) (drop pos ?xs))"
      using map_filter_take_drop [of "\<lambda>c. c" ?count "drop pos ?xs" "stop - (pos + ?count)"] c(2)
      by (simp add: add.commute)
    have "read_range B K list pos stop t = (Inr (List.map_filter (\<lambda>c. c) (take (stop - pos) (drop pos ?xs))), t')"
      by (subst read_range.simps)
        (simp only: Let_def bindT_def returnT_def u(1) [unfolded page] prod.case sum.case True if_True fits if_False t'(1) cut joined)
    with t'(2,3) u(3) show ?thesis by (auto simp: same_sql_def)
  qed
qed

lemma read_page_run:
  assumes "lru_laws view (bk_lru B)" and "storable B K" and "tx_ok view B base t"
    and "wish_lists (tr_sql t) list = Some (sv_kind K, len)" and "0 < limit" and "start \<le> len"
  shows "\<exists>t'. db_read_page B K list start limit t = (Inr
      \<lparr>pg_start = start, pg_items = List.map_filter (\<lambda>c. c) (take (min (saturating_add start limit) len - start) (drop start
         (decoded K (table_cells B (sv_kind K) (item_at (tr_sql t) list) len)))),
       pg_end = min (saturating_add start limit) len,
       pg_next = (if min (saturating_add start limit) len < len then Some (min (saturating_add start limit) len) else None)\<rparr>, t')
     \<and> tx_ok view B base t' \<and> same_sql t t'"
  using read_range_run [OF assms(1-4), of "min (saturating_add start limit) len" start] assms(4-6)
  by (auto simp: db_read_page_def bindT_def db_list_len_run Let_def returnT_def)

lemma decoded_take_drop: "decoded K (take i (drop j cells)) = take i (drop j (decoded K cells))"
  by (simp add: decoded_def take_map drop_map)

lemma simulates_read_page:
  assumes "lru_laws view (bk_lru B)" and "storable B K"
  shows "simulates view B base (db_read_page B K list start limit) (read_page K list start limit)"
proof (cases "limit = 0")
  case True
  then show ?thesis by (simp add: db_read_page_def read_page_def simulates_fail)
next
  case False
  show ?thesis
    unfolding db_read_page_def read_page_def if_not_P [OF False]
  proof (rule simulates_list)
    fix t len assume t: "tx_ok view B base t" and len: "wish_lists (tr_sql t) list = Some (sv_kind K, len)"
    let ?cells = "table_cells B (sv_kind K) (item_at (tr_sql t) list) len"
    let ?stop = "min (saturating_add start limit) len"
    have typed: "map_option (sv_enc K) (Option.bind c (sv_dec K)) = c" if "c \<in> set (take (?stop - start) (drop start ?cells))" for c
      using cells_typed [OF assms(2) tx_okD(1) [OF t] len] that by (blast dest: in_set_takeD in_set_dropD)
    show "\<exists>r t'. (if len < start then failT InvalidRange else let stop = ?stop in
          bindT (read_range B K list start stop) (\<lambda>items. returnT \<lparr>pg_start = start, pg_items = items, pg_end = stop,
            pg_next = (if stop < len then Some stop else None)\<rparr>)) t = (r, t') \<and> tx_ok view B base t' \<and>
        (case (if length ?cells < start then failS InvalidRange else let stop = min (saturating_add start limit) (length ?cells) in
          bindS (mapS (decode K) (List.map_filter (\<lambda>c. c) (take (stop - start) (drop start ?cells)))) (\<lambda>items.
            returnS \<lparr>pg_start = start, pg_items = items, pg_end = stop, pg_next = (if stop < length ?cells then Some stop else None)\<rparr>))
          (store_of B (tr_sql t)) of Inl e \<Rightarrow> r = Inl e | Inr (x, s') \<Rightarrow> r = Inr x \<and> store_of B (tr_sql t') = s')"
    proof (cases "len < start")
      case True
      with t show ?thesis by (simp add: failT_def failS_def)
    next
      case False
      obtain t' where t': "read_range B K list start ?stop t = (Inr (List.map_filter (\<lambda>c. c) (take (?stop - start) (drop start (decoded K ?cells)))), t')"
        "tx_ok view B base t'" "same_sql t t'"
        using read_range_run [OF assms t len, of ?stop start] by auto
      with False decode_cells_typed(3) [OF typed, where s = "store_of B (tr_sql t)"] show ?thesis
        by (simp add: Let_def bindT_def bindS_def returnT_def returnS_def same_sql_def decoded_take_drop)
    qed
  qed
qed

lemma read_pages_run:
  assumes "lru_laws view (bk_lru B)" and "storable B K"
  shows "tx_ok view B base t \<Longrightarrow> wish_lists (tr_sql t) list = Some (sv_kind K, len) \<Longrightarrow> len \<le> i64_max \<Longrightarrow> len - pos \<le> n \<Longrightarrow>
     \<exists>t'. read_pages B K list n pos len items t = (Inr (items @ List.map_filter (\<lambda>c. c) (drop pos
       (decoded K (table_cells B (sv_kind K) (item_at (tr_sql t) list) len)))), t') \<and> tx_ok view B base t' \<and> same_sql t t'"
proof (induction n arbitrary: pos items t)
  case 0
  then show ?case by (simp add: returnT_def same_sql_def map_filter_simps decoded_def)
next
  case (Suc n)
  let ?xs = "decoded K (table_cells B (sv_kind K) (item_at (tr_sql t) list) len)"
  have lx: "length ?xs = len" by (simp add: decoded_def)
  show ?case
  proof (cases "pos < len")
    case False
    with Suc.prems(1) lx show ?thesis by (simp add: returnT_def same_sql_def map_filter_simps)
  next
    case True
    let ?limit = "min (len - pos) page_size"
    let ?stop = "min (saturating_add pos ?limit) len"
    have stop: "?stop = pos + ?limit" "pos < ?stop" "?stop \<le> len"
      using True Suc.prems(3) by (auto simp: saturating_add_def page_size_def u64_max_def i64_max_def)
    from read_page_run [OF assms Suc.prems(1,2), of ?limit pos] True obtain u where
      u: "db_read_page B K list pos ?limit t = (Inr \<lparr>pg_start = pos, pg_items = List.map_filter (\<lambda>c. c) (take (?stop - pos) (drop pos ?xs)),
        pg_end = ?stop, pg_next = (if ?stop < len then Some ?stop else None)\<rparr>, u)" "tx_ok view B base u" "same_sql t u"
      by (auto simp: page_size_def)
    have su: "tr_sql u = tr_sql t" using u(3) by (simp add: same_sql_def)
    have "len - ?stop \<le> n" using Suc.prems(4) stop(2) by linarith
    from Suc.IH [OF u(2) _ Suc.prems(3) this] su Suc.prems(2) obtain t' where t':
      "read_pages B K list n ?stop len (items @ List.map_filter (\<lambda>c. c) (take (?stop - pos) (drop pos ?xs))) u
        = (Inr ((items @ List.map_filter (\<lambda>c. c) (take (?stop - pos) (drop pos ?xs))) @ List.map_filter (\<lambda>c. c) (drop ?stop ?xs)), t')"
      "tx_ok view B base t'" "same_sql u t'" by metis
    have "drop pos ?xs = take (?stop - pos) (drop pos ?xs) @ drop ?stop ?xs"
      using stop(2) append_take_drop_id [of "?stop - pos" "drop pos ?xs"] by simp
    then have "List.map_filter (\<lambda>c. c) (drop pos ?xs) = List.map_filter (\<lambda>c. c) (take (?stop - pos) (drop pos ?xs)) @ List.map_filter (\<lambda>c. c) (drop ?stop ?xs)"
      by (metis map_filter_append)
    with True u(1,3) t' show ?thesis by (simp add: bindT_def same_sql_def)
  qed
qed

lemma simulates_read_from:
  assumes "lru_laws view (bk_lru B)" and "storable B K"
  shows "simulates view B base (db_read_from B K list start) (read_from K list start)"
  unfolding db_read_from_def read_from_def
proof (rule simulates_list)
  fix t len assume t: "tx_ok view B base t" and len: "wish_lists (tr_sql t) list = Some (sv_kind K, len)"
  let ?cells = "table_cells B (sv_kind K) (item_at (tr_sql t) list) len"
  have "len \<le> i64_max" using tables_okD(3) [OF tx_okD(1) [OF t] len] by (simp add: items_ok_def)
  then obtain t' where t': "read_pages B K list (len - start) start len [] t = (Inr (List.map_filter (\<lambda>c. c) (drop start (decoded K ?cells))), t')"
    "tx_ok view B base t'" "same_sql t t'"
    using read_pages_run [OF assms t len, of start "len - start" "[]"] by auto
  have typed: "map_option (sv_enc K) (Option.bind c (sv_dec K)) = c" if "c \<in> set (drop start ?cells)" for c
    using cells_typed [OF assms(2) tx_okD(1) [OF t] len] that by (blast dest: in_set_dropD)
  have "decoded K (drop start ?cells) = drop start (decoded K ?cells)" by (simp add: decoded_def drop_map)
  with t' decode_cells_typed(3) [OF typed, where s = "store_of B (tr_sql t)"]
  show "\<exists>r t'. read_pages B K list (len - start) start len [] t = (r, t') \<and> tx_ok view B base t' \<and>
      (case mapS (decode K) (List.map_filter (\<lambda>c. c) (drop start ?cells)) (store_of B (tr_sql t)) of
        Inl e \<Rightarrow> r = Inl e | Inr (x, s') \<Rightarrow> r = Inr x \<and> store_of B (tr_sql t') = s')"
    by (simp add: same_sql_def)
qed

end
