(* ===== verification/Storage_Writes.thy ===== *)
theory Storage_Writes
  imports Storage_Reads
begin

text \<open>
  The writes of a transaction do to the tables what the store says, and mark every key whose value
  they change.
\<close>

lemma bindT_assoc: "bindT (bindT m f) g = bindT m (\<lambda>x. bindT (f x) g)"
  by (auto simp: bindT_def fun_eq_iff split: prod.split sum.split)

subsection \<open>Objects\<close>

lemma object_write:
  fixes name :: string
  assumes "storable B K" and "of_type K x" and "tx_ok view B base t"
  defines "s' \<equiv> (tr_sql t)\<lparr>wish_objects := (wish_objects (tr_sql t))(name \<mapsto> (sv_kind K, bk_to_vec B (sv_enc K x)))\<rparr>"
  shows "tx_ok view B base (t\<lparr>tr_sql := s', tr_dirty := tr_dirty t @ [ObjectKey name]\<rparr>)"
    and "store_of B s' = (store_of B (tr_sql t))\<lparr>st_objects := (st_objects (store_of B (tr_sql t)))(name \<mapsto> (sv_kind K, sv_enc K x))\<rparr>"
proof -
  note ok = tx_okD(1) [OF assms(3)]
  have same: "item_at s' = item_at (tr_sql t)" "index_rows s' = index_rows (tr_sql t)" "list_key s' = list_key (tr_sql t)"
    by (simp_all add: s'_def fun_eq_iff item_at_def index_rows_def list_key_def split: option.split)
  show st: "store_of B s' = (store_of B (tr_sql t))\<lparr>st_objects := (st_objects (store_of B (tr_sql t)))(name \<mapsto> (sv_kind K, sv_enc K x))\<rparr>"
    by (rule store.equality) (simp_all add: fun_eq_iff same, simp_all add: s'_def storableD(3) [OF assms(1,2)])
  have k: "keys_ok s'" using tables_okD(1) [OF ok] unfolding keys_ok_def same by (simp add: s'_def)
  have "encodes B k b" if "wish_objects s' n = Some (k, b)" for n k b
    using that encodes_value [OF assms(1,2)] tables_okD(2) [OF ok] by (auto simp: s'_def split: if_splits)
  moreover have "items_ok B k (item_at s' l) len" if "wish_lists s' l = Some (k, len)" for l k len
    using that tables_okD(3) [OF ok, of l k len] unfolding same by (simp add: s'_def)
  ultimately have "tables_ok B s'" using k by (simp add: tables_ok_def)
  moreover have "store_value (store_of B s') key = store_value (store_of B (tr_sql t)) key" if "key \<noteq> ObjectKey name" for key
    unfolding st using that by (cases key) simp_all
  ultimately show "tx_ok view B base (t\<lparr>tr_sql := s', tr_dirty := tr_dirty t @ [ObjectKey name]\<rparr>)"
    by (intro tx_ok_write [OF assms(3), where D = "{ObjectKey name}"]) simp_all
qed

lemma simulates_create_object:
  assumes "storable B K" and "of_type K x"
  shows "simulates view B base (db_create_object B K name x) (create_object K name x)"
proof (rule simulatesI)
  fix t assume t: "tx_ok view B base t"
  show "\<exists>r t'. db_create_object B K name x t = (r, t') \<and> tx_ok view B base t' \<and>
      (case create_object K name x (store_of B (tr_sql t)) of Inl e \<Rightarrow> r = Inl e | Inr (x, s') \<Rightarrow> r = Inr x \<and> store_of B (tr_sql t') = s')"
    using object_write [OF assms t, of name] t
    by (cases "wish_objects (tr_sql t) name") (simp_all add: db_create_object_def create_object_def bindT_def executeT_def markT_def)
qed

lemma simulates_save_object:
  assumes "lru_laws view (bk_lru B)" and "storable B K" and "of_type K x"
  shows "simulates view B base (db_save_object B K name x) (save_object K name x)"
proof (rule simulatesI)
  fix t assume t: "tx_ok view B base t"
  obtain r u where u: "db_load_object B K name t = (r, u)" "tx_ok view B base u" "same_sql t u"
    "case load_object K name (store_of B (tr_sql t)) of Inl e \<Rightarrow> r = Inl e | Inr (x, s') \<Rightarrow> r = Inr x \<and> s' = store_of B (tr_sql t)"
    using load_object_run [OF assms(1,2) t, of name] by blast
  have su: "tr_sql u = tr_sql t" using u(3) by (simp add: same_sql_def)
  show "\<exists>r t'. db_save_object B K name x t = (r, t') \<and> tx_ok view B base t' \<and>
      (case save_object K name x (store_of B (tr_sql t)) of Inl e \<Rightarrow> r = Inl e | Inr (x, s') \<Rightarrow> r = Inr x \<and> store_of B (tr_sql t') = s')"
  proof (cases "load_object K name (store_of B (tr_sql t))")
    case (Inl e)
    with u show ?thesis by (simp add: db_save_object_def save_object_def bindT_def thenS_def bindS_def)
  next
    case (Inr p)
    obtain y where y: "p = (y, store_of B (tr_sql t))" "r = Inr y" using u(4) Inr by (cases p) auto
    from Inr obtain b where "wish_objects (tr_sql u) name = Some (sv_kind K, b)"
      unfolding su by (auto simp: load_object_def split: option.splits if_splits)
    with object_write [OF assms(2,3) u(2), of name] u(1) Inr y su show ?thesis
      by (simp add: db_save_object_def save_object_def bindT_def executeT_def markT_def thenS_def bindS_def modifyS_def)
  qed
qed

subsection \<open>The items of a list\<close>

lemma marks_subset: "p \<in> set ps \<Longrightarrow> {ItemKey list p, PageKey list (p div page_size)} \<subseteq> set (concat (map (mark_item_changed list) ps))"
  by (auto simp: mark_item_changed_def)

lemma set_length_same: "wish_lists s list = Some (k, len) \<Longrightarrow> set_length list len s = s"
  by (simp add: set_length_def fun_upd_idem)

text \<open>A change of one list's items and length, with the positions marked that it touches.\<close>

lemma list_write:
  assumes "tx_ok view B base t" and "wish_lists (tr_sql t) list = Some (k, len)" and "items_changed list f (tr_sql t) u"
    and "items_ok B k f len'"
    and "\<And>p. p < max len len' \<Longrightarrow> p < len \<and> p < len' \<and> f p = item_at (tr_sql t) list p \<or> p \<in> set ps"
  defines "s' \<equiv> set_length list len' u"
  shows "tx_ok view B base (t\<lparr>tr_sql := s', tr_dirty := tr_dirty t @ concat (map (mark_item_changed list) ps)\<rparr>)"
    and "store_of B s' = (store_of B (tr_sql t))\<lparr>st_lists := (st_lists (store_of B (tr_sql t)))(list \<mapsto> (k, table_cells B k f len'))\<rparr>"
    and "tables_ok B s'"
proof -
  note c = items_changedD [OF assms(3)]
  have l: "wish_lists s' = (wish_lists (tr_sql t))(list \<mapsto> (k, len'))" using c(2) assms(2) by (simp add: s'_def set_length_def)
  have r: "wish_objects s' = wish_objects u" "wish_list_keys s' = wish_list_keys u" "wish_items s' = wish_items u"
    "wish_history_index s' = wish_history_index u" by (simp_all add: s'_def set_length_def)
  have i: "item_at s' l p = item_at u l p" for l p by (simp add: item_at_def list_key_def r split: option.split)
  note ch = tables_change [OF tx_okD(1) [OF assms(1)] assms(2), of s' len' f, unfolded r i, OF c(1,3,4) l c(5,6,7) assms(4)]
  show "tables_ok B s'" by (rule ch(1))
  show st: "store_of B s' = (store_of B (tr_sql t))\<lparr>st_lists := (st_lists (store_of B (tr_sql t)))(list \<mapsto> (k, table_cells B k f len'))\<rparr>"
    by (rule ch(2))
  let ?D = "set (concat (map (mark_item_changed list) ps))"
  have "store_value (store_of B s') key = store_value (store_of B (tr_sql t)) key" if "key \<notin> ?D" for key
  proof (rule list_values_marked [where k = k and list = list and cells = "table_cells B k (item_at (tr_sql t) list) len" and D = ?D])
    fix p assume "p < max (length (table_cells B k (item_at (tr_sql t) list) len)) (length (table_cells B k f len'))"
    then show "p < length (table_cells B k (item_at (tr_sql t) list) len) \<and> p < length (table_cells B k f len')
        \<and> table_cells B k (item_at (tr_sql t) list) len ! p = table_cells B k f len' ! p
      \<or> {ItemKey list p, PageKey list (p div page_size)} \<subseteq> ?D"
      using assms(5) [of p] marks_subset [of p ps list] by auto
  qed (use that st assms(2) in simp_all)
  then show "tx_ok view B base (t\<lparr>tr_sql := s', tr_dirty := tr_dirty t @ concat (map (mark_item_changed list) ps)\<rparr>)"
    by (intro tx_ok_write [OF assms(1) ch(1), where D = ?D]) simp_all
qed

lemma simulates_append_items:
  assumes "storable B K" and "\<forall>x \<in> set values. of_type K x"
  shows "simulates view B base (db_append_items B K list values) (append_items K list values)"
  unfolding db_append_items_def append_items_def
proof (rule simulates_list)
  fix t len assume t: "tx_ok view B base t" and len: "wish_lists (tr_sql t) list = Some (sv_kind K, len)"
  let ?s = "tr_sql t" and ?n = "length values" and ?bs = "map (bk_to_vec B \<circ> sv_enc K) values"
  let ?cells = "table_cells B (sv_kind K) (item_at ?s list) len"
  let ?f = "\<lambda>p. if len \<le> p \<and> p < len + length ?bs then Some (?bs ! (p - len)) else item_at ?s list p"
  note ok = tx_okD(1) [OF t]
  have it: "items_ok B (sv_kind K) (item_at ?s list) len" by (rule tables_okD(3) [OF ok len])
  show "\<exists>r t'. (if i64_max < len + ?n then failT InvalidRange else if values = [] then returnT len
        else bindT (executeT (insert_rows list len ?bs)) (\<lambda>_. bindT (executeT (\<lambda>s. Inr (set_length list (len + ?n) s)))
          (\<lambda>_. bindT (markT (concat (map (mark_item_changed list) [len..<len + ?n]))) (\<lambda>_. returnT len)))) t = (r, t')
      \<and> tx_ok view B base t' \<and> (case (if length ?cells + ?n \<le> i64_max
          then thenS (put_cells K list (?cells @ map (Some \<circ> sv_enc K) values)) (returnS (length ?cells)) else failS InvalidRange)
          (store_of B ?s) of Inl e \<Rightarrow> r = Inl e | Inr (x, s') \<Rightarrow> r = Inr x \<and> store_of B (tr_sql t') = s')"
  proof (cases "i64_max < len + ?n")
    case True
    with t show ?thesis by (simp add: failT_def failS_def)
  next
    case False
    show ?thesis
    proof (cases "values = []")
      case True
      have "(store_of B ?s)\<lparr>st_lists := (st_lists (store_of B ?s))(list \<mapsto> (sv_kind K, ?cells))\<rparr> = store_of B ?s"
        using len by (intro store.equality) (auto simp: fun_eq_iff)
      with True False t show ?thesis by (simp add: returnT_def returnS_def put_cells_def thenS_def bindS_def modifyS_def)
    next
      case nonempty: False
      obtain key where key: "list_key ?s list = Some key" by (rule list_key_of [OF ok len])
      have "\<forall>p \<ge> len. item_at ?s list p = None" using it unfolding items_ok_def by (meson leD)
      from insert_rows_changes [OF tables_okD(1) [OF ok] key this, of ?bs] obtain u where
        u: "insert_rows list len ?bs ?s = Inr u" "items_changed list ?f ?s u" by blast
      have enc: "encodes B (sv_kind K) b" if "b \<in> set ?bs" for b using that assms(2) encodes_value [OF assms(1)] by auto
      have fok: "items_ok B (sv_kind K) ?f (len + ?n)"
        using it False enc unfolding items_ok_def by (auto split: if_splits)
      have cells: "table_cells B (sv_kind K) ?f (len + ?n) = ?cells @ map (Some \<circ> sv_enc K) values"
      proof (rule nth_equalityI)
        fix p assume "p < length (table_cells B (sv_kind K) ?f (len + ?n))"
        then have p: "p < len + ?n" by simp
        show "table_cells B (sv_kind K) ?f (len + ?n) ! p = (?cells @ map (Some \<circ> sv_enc K) values) ! p"
        proof (cases "p < len")
          case True
          then show ?thesis by (simp add: nth_append)
        next
          case False
          with p assms(2) have "of_type K (values ! (p - len))" by simp
          with False p storableD(3) [OF assms(1)] storableD(1) [OF assms(1)] show ?thesis by (simp add: nth_append cell_of_def)
        qed
      qed simp
      have "p < len \<and> p < len + ?n \<and> ?f p = item_at ?s list p \<or> p \<in> set [len..<len + ?n]" if "p < max len (len + ?n)" for p
        using that by auto
      note w = list_write(1,2) [OF t len u(2) fok this]
      from w cells u(1) nonempty False show ?thesis
        by (simp add: bindT_def executeT_def markT_def returnT_def returnS_def put_cells_def thenS_def bindS_def modifyS_def)
    qed
  qed
qed

lemma simulates_set_item:
  assumes "storable B K" and "of_type K x"
  shows "simulates view B base (db_set_item B K list pos x) (set_item K list pos x)"
  unfolding db_set_item_def set_item_def
proof (rule simulates_list)
  fix t len assume t: "tx_ok view B base t" and len: "wish_lists (tr_sql t) list = Some (sv_kind K, len)"
  let ?s = "tr_sql t" and ?b = "bk_to_vec B (sv_enc K x)"
  let ?cells = "table_cells B (sv_kind K) (item_at ?s list) len"
  let ?f = "(item_at ?s list)(pos \<mapsto> ?b)"
  note ok = tx_okD(1) [OF t]
  have it: "items_ok B (sv_kind K) (item_at ?s list) len" by (rule tables_okD(3) [OF ok len])
  show "\<exists>r t'. (if len \<le> pos then failT InvalidRange else bindT (executeT (\<lambda>s. Inr (update_item list pos ?b s)))
        (\<lambda>_. markT (mark_item_changed list pos))) t = (r, t') \<and> tx_ok view B base t' \<and>
      (case (if length ?cells \<le> pos then failS InvalidRange else put_cells K list (?cells[pos := Some (sv_enc K x)])) (store_of B ?s) of
        Inl e \<Rightarrow> r = Inl e | Inr (x, s') \<Rightarrow> r = Inr x \<and> store_of B (tr_sql t') = s')"
  proof (cases "len \<le> pos")
    case True
    with t show ?thesis by (simp add: failT_def failS_def)
  next
    case False
    obtain key where key: "list_key ?s list = Some key" by (rule list_key_of [OF ok len])
    have "item_at ?s list pos \<noteq> None" using it False by (simp add: items_ok_def)
    note u = update_item_changes [OF tables_okD(1) [OF ok] key this, of ?b]
    have fok: "items_ok B (sv_kind K) ?f len"
      using it False encodes_value [OF assms] unfolding items_ok_def by auto
    have cells: "table_cells B (sv_kind K) ?f len = ?cells[pos := Some (sv_enc K x)]"
      using storableD(3) [OF assms] storableD(1) [OF assms(1)]
      by (intro nth_equalityI) (simp_all add: nth_list_update cell_of_def)
    have "p < len \<and> p < len \<and> ?f p = item_at ?s list p \<or> p \<in> set [pos]" if "p < max len len" for p using that by auto
    note w = list_write(1,2) [OF t len u fok this, unfolded cells]
    have "set_length list len (update_item list pos ?b ?s) = update_item list pos ?b ?s"
      using items_changedD(2) [OF u] len by (intro set_length_same) simp
    with w False show ?thesis
      by (simp add: bindT_def executeT_def markT_def put_cells_def modifyS_def)
  qed
qed

text \<open>
  Removing an item: the rows behind it are first moved out of the way, past the end of the list, and
  then into place, since a row may not pass through the position of another.
\<close>

definition removed_items :: "nat \<Rightarrow> nat \<Rightarrow> (nat \<Rightarrow> string option) \<Rightarrow> nat \<Rightarrow> string option" where
  "removed_items pos len f p = (if p < pos then f p else if Suc p < len then f (Suc p) else None)"

lemma items_okN: "items_ok B k f len \<Longrightarrow> f p = None \<longleftrightarrow> len \<le> p"
  unfolding items_ok_def by (meson leD not_le)

lemma items_ok_removed:
  assumes "items_ok B k f len" and "pos < len"
  shows "items_ok B k (removed_items pos len f) (len - 1)"
proof -
  note n = items_okN [OF assms(1)]
  have "removed_items pos len f p = None \<longleftrightarrow> len - 1 \<le> p" for p using assms(2) by (auto simp: removed_items_def n)
  then have "removed_items pos len f p \<noteq> None \<longleftrightarrow> p < len - 1" for p by (simp only: not_le)
  moreover have "b = [] \<or> encodes B k b" if "removed_items pos len f p = Some b" for p b
    using assms(1) that unfolding items_ok_def removed_items_def by (metis option.distinct(1))
  moreover have "len - 1 \<le> i64_max" using assms(1) unfolding items_ok_def by linarith
  ultimately show ?thesis by (simp only: items_ok_def) blast
qed

lemma remove_rows:
  assumes "keys_ok s" and "list_key s list = Some key" and "\<forall>p. item_at s list p \<noteq> None \<longleftrightarrow> p < len" and "pos < len"
  shows "\<exists>a b. shift_items list (\<lambda>p. p > pos) (\<lambda>p. int p + int len) (delete_item list pos s) = Inr a
     \<and> shift_items list (\<lambda>p. p \<ge> len) (\<lambda>p. int p - int len - 1) a = Inr b
     \<and> items_changed list (removed_items pos len (item_at s list)) s b"
proof -
  let ?i = "item_at s list"
  have i: "?i p = None \<longleftrightarrow> len \<le> p" for p using assms(3) by (meson leD not_le)
  define u where "u = delete_item list pos s"
  note du = delete_item_changes [OF assms(1,2), of pos, folded u_def]
  note ku = items_changed_keys [OF du assms(1)]
  have iu: "item_at u list p = (if p = pos then None else ?i p)" for p using items_changedD(7) [OF du, of list p] by simp
  let ?g = "\<lambda>p. if p < pos then ?i p else if len + pos < p then ?i (p - len) else None"
  have "\<exists>a. shift_items list (\<lambda>p. p > pos) (\<lambda>p. int p + int len) u = Inr a \<and> items_changed list ?g u a"
  proof (rule shift_items_changes [OF ku(1)])
    show "list_key u list = Some key" using ku(2) assms(2) by simp
    show "(\<exists>p>pos. item_at u list p \<noteq> None \<and> nat (int p + int len) = q) \<or> \<not> pos < q \<and> item_at u list q \<noteq> None"
      if "?g q = Some b" for q b
    proof (cases "q < pos")
      case True
      then show ?thesis using that by (auto simp: iu)
    next
      case False
      with that have "len + pos < q" "?i (q - len) = Some b" by (auto split: if_splits)
      then show ?thesis by (intro disjI1 exI [of _ "q - len"]) (auto simp: iu)
    qed
  qed (auto simp: iu i nat_add_distrib split: if_splits)
  then obtain a where a: "shift_items list (\<lambda>p. p > pos) (\<lambda>p. int p + int len) u = Inr a" "items_changed list ?g u a" by blast
  note ka = items_changed_keys [OF a(2) ku(1)]
  have ia: "item_at a list p = ?g p" for p using items_changedD(7) [OF a(2), of list p] by simp
  have "\<exists>b. shift_items list (\<lambda>p. p \<ge> len) (\<lambda>p. int p - int len - 1) a = Inr b \<and> items_changed list (removed_items pos len ?i) a b"
  proof (rule shift_items_changes [OF ka(1)])
    show "list_key a list = Some key" using ka(2) ku(2) assms(2) by simp
    have far: "len + pos < p \<and> p - len < len \<and> nat (int p - int len - 1) = p - len - 1" if "len \<le> p" "item_at a list p \<noteq> None" for p
    proof -
      from that assms(4) have "len + pos < p" "?i (p - len) \<noteq> None" by (auto simp: ia split: if_splits)
      with i [of "p - len"] show ?thesis by auto
    qed
    show "0 \<le> int p - int len - 1 \<and> item_at a list (nat (int p - int len - 1)) = None" if "len \<le> p" "item_at a list p \<noteq> None" for p
      using far [OF that] assms(4) by (auto simp: ia)
    show "removed_items pos len ?i (nat (int p - int len - 1)) = item_at a list p" if "len \<le> p" "item_at a list p \<noteq> None" for p
      using far [OF that] by (auto simp: ia removed_items_def Suc_diff_Suc)
    show "removed_items pos len ?i p = item_at a list p" if "\<not> len \<le> p" "item_at a list p \<noteq> None" for p
      using that by (auto simp: ia removed_items_def split: if_splits)
    show "(\<exists>p\<ge>len. item_at a list p \<noteq> None \<and> nat (int p - int len - 1) = q) \<or> \<not> len \<le> q \<and> item_at a list q \<noteq> None"
      if "removed_items pos len ?i q = Some b" for q b
    proof (cases "q < pos")
      case True
      with that assms(4) show ?thesis by (auto simp: ia removed_items_def)
    next
      case False
      with that have "Suc q < len" "?i (Suc q) = Some b" by (auto simp: removed_items_def split: if_splits)
      with False show ?thesis by (intro disjI1 exI [of _ "Suc q + len"]) (auto simp: ia)
    qed
  qed auto
  then obtain b where b: "shift_items list (\<lambda>p. p \<ge> len) (\<lambda>p. int p - int len - 1) a = Inr b"
    "items_changed list (removed_items pos len ?i) a b" by blast
  from items_changed_trans [OF items_changed_trans [OF du a(2)] b(2)] a(1) b(1) show ?thesis unfolding u_def by blast
qed

lemma nth_remove_at: "i < length xs \<Longrightarrow> p < length xs - 1 \<Longrightarrow> remove_at i xs ! p = (if p < i then xs ! p else xs ! Suc p)"
  by (auto simp: remove_at_def nth_append)

lemma simulates_remove_item:
  "simulates view B base (db_remove_item K list pos) (remove_item K list pos)"
  unfolding db_remove_item_def remove_item_def
proof (rule simulates_list)
  fix t len assume t: "tx_ok view B base t" and len: "wish_lists (tr_sql t) list = Some (sv_kind K, len)"
  let ?s = "tr_sql t" and ?k = "sv_kind K"
  let ?cells = "table_cells B ?k (item_at ?s list) len"
  let ?f = "removed_items pos len (item_at ?s list)"
  note ok = tx_okD(1) [OF t]
  have it: "items_ok B ?k (item_at ?s list) len" by (rule tables_okD(3) [OF ok len])
  show "\<exists>r t'. (if len \<le> pos then failT InvalidRange else if i64_max div 2 < len then failT InvalidRange
        else bindT (executeT (\<lambda>s. Inr (delete_item list pos s))) (\<lambda>_.
          bindT (executeT (shift_items list (\<lambda>p. pos < p) (\<lambda>p. int p + int len))) (\<lambda>_.
          bindT (executeT (shift_items list (\<lambda>p. len \<le> p) (\<lambda>p. int p - int len - 1))) (\<lambda>_.
          bindT (executeT (\<lambda>s. Inr (set_length list (len - 1) s))) (\<lambda>_.
          markT (concat (map (mark_item_changed list) [pos..<len]))))))) t = (r, t') \<and> tx_ok view B base t' \<and>
      (case (if length ?cells \<le> pos then failS InvalidRange else if i64_max div 2 < length ?cells then failS InvalidRange
          else put_cells K list (remove_at pos ?cells)) (store_of B ?s) of
        Inl e \<Rightarrow> r = Inl e | Inr (x, s') \<Rightarrow> r = Inr x \<and> store_of B (tr_sql t') = s')"
  proof (cases "len \<le> pos \<or> i64_max div 2 < len")
    case True
    with t show ?thesis by (auto simp: failT_def failS_def)
  next
    case False
    obtain key where key: "list_key ?s list = Some key" by (rule list_key_of [OF ok len])
    from False it obtain a b where
      ab: "shift_items list (\<lambda>p. p > pos) (\<lambda>p. int p + int len) (delete_item list pos ?s) = Inr a"
        "shift_items list (\<lambda>p. p \<ge> len) (\<lambda>p. int p - int len - 1) a = Inr b" "items_changed list ?f ?s b"
      using remove_rows [OF tables_okD(1) [OF ok] key, of len pos] by (auto simp: items_ok_def)
    have fok: "items_ok B ?k ?f (len - 1)"
      using items_ok_removed [OF it] False by simp
    have cells: "table_cells B ?k ?f (len - 1) = remove_at pos ?cells"
      using False by (intro nth_equalityI) (auto simp: nth_remove_at removed_items_def)
    have "p < len \<and> p < len - 1 \<and> ?f p = item_at ?s list p \<or> p \<in> set [pos..<len]" if "p < max len (len - 1)" for p
      using that False by (auto simp: removed_items_def)
    note w = list_write(1,2) [OF t len ab(3) fok this, unfolded cells]
    from w ab(1,2) False show ?thesis
      by (simp add: bindT_def executeT_def markT_def put_cells_def modifyS_def)
  qed
qed

subsection \<open>Releasing items\<close>

lemma items_changed_refl: "keys_ok s \<Longrightarrow> items_changed list (item_at s list) s s"
  using keys_okD(4,5) by (auto simp: items_changed_def)

lemma items_changed_ok:
  assumes "tables_ok B s" and "wish_lists s list = Some (k, len)" and "items_changed list f s u" and "items_ok B k f len"
  shows "tables_ok B u"
proof -
  note c = items_changedD [OF assms(3)]
  have "wish_lists u = (wish_lists s)(list \<mapsto> (k, len))" using c(2) assms(2) by (simp add: fun_upd_idem)
  from tables_change(1) [OF assms(1,2) c(1,3,4) this c(5,6,7) assms(4)] show ?thesis .
qed

lemma release_loop_run:
  assumes "storable B K"
  shows "tables_ok B (tr_sql t) \<Longrightarrow> wish_lists (tr_sql t) list = Some (sv_kind K, len) \<Longrightarrow> \<forall>p \<in> set ps. p < len \<Longrightarrow>
     \<exists>u f new n. release_loop list ps released changed t = (Inr (n, changed @ new), t\<lparr>tr_sql := u\<rparr>)
       \<and> items_changed list f (tr_sql t) u \<and> items_ok B (sv_kind K) f len
       \<and> release_cells (\<lambda>v. length (bk_to_vec B v)) ps (table_cells B (sv_kind K) (item_at (tr_sql t) list) len) released
           = (table_cells B (sv_kind K) f len, n)
       \<and> (\<forall>p < len. f p = item_at (tr_sql t) list p \<or> p \<in> set new)"
proof (induction ps arbitrary: t released changed)
  case Nil
  show ?case
    using items_changed_refl [OF tables_okD(1) [OF Nil.prems(1)], of list] tables_okD(3) [OF Nil.prems(1,2)]
    by (intro exI [of _ "tr_sql t"] exI [of _ "item_at (tr_sql t) list"] exI [of _ "[]"] exI [of _ released])
      (simp add: returnT_def)
next
  case (Cons p ps)
  let ?s = "tr_sql t" and ?k = "sv_kind K"
  let ?cells = "table_cells B ?k (item_at ?s list) len"
  have p: "p < len" and ps: "\<forall>p \<in> set ps. p < len" using Cons.prems(3) by simp_all
  show ?case
  proof (rule stored_item [OF assms Cons.prems(1,2) p])
    assume r: "item_at ?s list p = Some []" "cell_of B ?k (the (item_at ?s list p)) = None"
    then have "release_loop list (p # ps) released changed t = release_loop list ps released changed t"
      by (simp add: bindT_def queryT_def)
    with Cons.IH [OF Cons.prems(1,2) ps, of released changed] r p show ?case by simp
  next
    fix x b assume b: "item_at ?s list p = Some b" "b \<noteq> []" "b = bk_to_vec B (sv_enc K x)"
      "cell_of B ?k (the (item_at ?s list p)) = Some (sv_enc K x)"
    let ?f = "(item_at ?s list)(p \<mapsto> [])"
    let ?u = "update_item list p [] ?s"
    obtain key where key: "list_key ?s list = Some key" by (rule list_key_of [OF Cons.prems(1,2)])
    have ch: "items_changed list ?f ?s ?u"
      by (rule update_item_changes [OF tables_okD(1) [OF Cons.prems(1)] key]) (use b in simp)
    have fok: "items_ok B ?k ?f len" using tables_okD(3) [OF Cons.prems(1,2)] p unfolding items_ok_def by auto
    have iu: "item_at ?u list = ?f" using items_changedD(7) [OF ch, of list] by (simp add: fun_eq_iff)
    have cells: "table_cells B ?k ?f len = ?cells[p := None]"
      by (rule nth_equalityI) (simp_all add: nth_list_update cell_of_def)
    let ?t = "t\<lparr>tr_sql := ?u\<rparr>"
    have "tables_ok B (tr_sql ?t)" "wish_lists (tr_sql ?t) list = Some (?k, len)"
      using items_changed_ok [OF Cons.prems(1,2) ch fok] items_changedD(2) [OF ch] Cons.prems(2) by simp_all
    moreover have "tr_sql ?t = ?u" "\<And>u. ?t\<lparr>tr_sql := u\<rparr> = t\<lparr>tr_sql := u\<rparr>" by simp_all
    ultimately obtain u f new n where
      u: "release_loop list ps (released + length b) (changed @ [p]) ?t = (Inr (n, (changed @ [p]) @ new), t\<lparr>tr_sql := u\<rparr>)"
        "items_changed list f ?u u" "items_ok B ?k f len"
        "release_cells (\<lambda>v. length (bk_to_vec B v)) ps (?cells[p := None]) (released + length b) = (table_cells B ?k f len, n)"
        "\<forall>q < len. f q = ?f q \<or> q \<in> set new"
      using Cons.IH [of ?t "released + length b" "changed @ [p]"] ps unfolding cells [symmetric] iu [symmetric] by metis
    have "release_loop list (p # ps) released changed t = (Inr (n, changed @ (p # new)), t\<lparr>tr_sql := u\<rparr>)"
      using b(1,2) u(1) by (simp add: bindT_def queryT_def executeT_def)
    moreover have "release_cells (\<lambda>v. length (bk_to_vec B v)) (p # ps) ?cells released = (table_cells B ?k f len, n)"
      using u(4) p b(3,4) by simp
    moreover have "\<forall>q < len. f q = item_at ?s list q \<or> q \<in> set (p # new)" using u(5) by (metis fun_upd_other list.set_intros)
    ultimately show ?case using items_changed_trans [OF ch u(2)] u(3) by blast
  qed
qed

lemma release_cells_in_range:
  "release_cells size_of (filter (\<lambda>p. p < length cells) ps) cells n = release_cells size_of ps cells n"
proof (induction ps arbitrary: cells n)
  case (Cons p ps)
  from Cons.IH [of "cells[p := None]"] Cons.IH [of cells] show ?case by (auto split: option.split)
qed simp

lemma simulates_release_items:
  assumes "storable B K"
  shows "simulates view B base (db_release_items K list ps) (release_items (\<lambda>v. length (bk_to_vec B v)) K list ps)"
  unfolding db_release_items_def release_items_def
proof (rule simulates_list)
  fix t len assume t: "tx_ok view B base t" and len: "wish_lists (tr_sql t) list = Some (sv_kind K, len)"
  let ?s = "tr_sql t" and ?k = "sv_kind K"
  let ?cells = "table_cells B ?k (item_at ?s list) len"
  obtain u f new n where u: "release_loop list (filter (\<lambda>p. p < len) ps) 0 [] t = (Inr (n, new), t\<lparr>tr_sql := u\<rparr>)"
      "items_changed list f ?s u" "items_ok B ?k f len"
      "release_cells (\<lambda>v. length (bk_to_vec B v)) (filter (\<lambda>p. p < len) ps) ?cells 0 = (table_cells B ?k f len, n)"
      "\<forall>p < len. f p = item_at ?s list p \<or> p \<in> set new"
    using release_loop_run [OF assms tx_okD(1) [OF t] len, of "filter (\<lambda>p. p < len) ps" 0 "[]"] by auto
  have "p < len \<and> p < len \<and> f p = item_at ?s list p \<or> p \<in> set new" if "p < max len len" for p using that u(5) by simp
  note w = list_write(1,2) [OF t len u(2,3) this]
  have "set_length list len u = u" using items_changedD(2) [OF u(2)] len by (intro set_length_same) simp
  moreover have "release_cells (\<lambda>v. length (bk_to_vec B v)) ps ?cells 0 = (table_cells B ?k f len, n)"
    using release_cells_in_range [of "\<lambda>v. length (bk_to_vec B v)" ?cells ps 0] u(4) by (simp only: length_table_cells)
  ultimately
  show "\<exists>r t'. bindT (release_loop list (filter (\<lambda>p. p < len) ps) 0 []) (\<lambda>(released, changed).
        bindT (markT (concat (map (mark_item_changed list) changed))) (\<lambda>_. returnT released)) t = (r, t') \<and> tx_ok view B base t' \<and>
      (case (case release_cells (\<lambda>v. length (bk_to_vec B v)) ps ?cells 0 of (cells', released) \<Rightarrow>
          thenS (put_cells K list cells') (returnS released)) (store_of B ?s) of
        Inl e \<Rightarrow> r = Inl e | Inr (x, s') \<Rightarrow> r = Inr x \<and> store_of B (tr_sql t') = s')"
    using w u(1) by (simp add: bindT_def markT_def returnT_def returnS_def put_cells_def thenS_def bindS_def modifyS_def)
qed

subsection \<open>Creating and dropping lists\<close>

lemma fresh_key_new: "fresh_key s \<notin> snd ` set (wish_list_keys s)"
proof -
  have "k \<le> foldr max ks 0" if "k \<in> set ks" for k :: nat and ks using that by (induction ks) auto
  from this [of _ "map snd (wish_list_keys s)"] have "k < fresh_key s" if "k \<in> snd ` set (wish_list_keys s)" for k
    using that by (simp add: fresh_key_def less_Suc_eq_le)
  then show ?thesis by blast
qed

lemma created_list:
  fixes k :: string
  assumes "tables_ok B s" and "list_key s list = None" and "wish_lists s list = None"
  defines "s' \<equiv> s\<lparr>wish_lists := (wish_lists s)(list \<mapsto> (k, 0)), wish_list_keys := (list, fresh_key s) # wish_list_keys s\<rparr>"
  shows "tables_ok B s'" and "store_of B s' = (store_of B s)\<lparr>st_lists := (st_lists (store_of B s))(list \<mapsto> (k, []))\<rparr>"
proof -
  note ok = tables_okD(1) [OF assms(1)]
  have lk: "list_key s' l = (if l = list then Some (fresh_key s) else list_key s l)" for l
    by (simp add: s'_def list_key_def)
  have no: "map_of (wish_items s) (fresh_key s, p) = None" for p
    using keys_okD(5) [OF ok] fresh_key_new [of s] by (intro map_of_NoneI) force
  have it: "item_at s' l = (if l = list then (\<lambda>_. None) else item_at s l)" for l
    using no assms(2) by (simp add: fun_eq_iff item_at_def lk) (simp add: s'_def split: option.split)
  have "filter (\<lambda>(k, _). k = fresh_key s) (wish_history_index s) = []"
    using keys_okD(6) [OF ok] fresh_key_new [of s] by (auto simp: filter_empty_conv)
  then have ix: "index_rows s' l = index_rows s l" for l
    using assms(2) by (simp add: index_rows_def lk) (simp add: s'_def split: option.split)
  have r: "wish_objects s' = wish_objects s" "wish_items s' = wish_items s" "wish_history_index s' = wish_history_index s"
    "wish_lists s' = (wish_lists s)(list \<mapsto> (k, 0))" "wish_list_keys s' = (list, fresh_key s) # wish_list_keys s"
    by (simp_all add: s'_def)
  have "keys_ok s'"
    using keys_okD [OF ok] fresh_key_new [of s] assms(2) unfolding keys_ok_def r lk
    by (auto simp: list_key_def map_of_eq_None_iff)
  moreover have "items_ok B k' (item_at s' l) len" if "wish_lists s' l = Some (k', len)" for l k' len
    using that tables_okD(3) [OF assms(1), of l k' len] by (auto simp: r it items_ok_def split: if_splits)
  ultimately show "tables_ok B s'" using tables_okD(2) [OF assms(1)] by (simp add: tables_ok_def r)
  show "store_of B s' = (store_of B s)\<lparr>st_lists := (st_lists (store_of B s))(list \<mapsto> (k, []))\<rparr>"
    by (rule store.equality) (simp_all add: fun_eq_iff r it ix table_cells_def)
qed

lemma simulates_create_list: "simulates view B base (db_create_list K list) (create_list K list)"
proof (rule simulatesI)
  fix t assume t: "tx_ok view B base t"
  let ?s = "tr_sql t"
  note ok = tx_okD(1) [OF t]
  show "\<exists>r t'. db_create_list K list t = (r, t') \<and> tx_ok view B base t' \<and>
      (case create_list K list (store_of B ?s) of Inl e \<Rightarrow> r = Inl e | Inr (x, s') \<Rightarrow> r = Inr x \<and> store_of B (tr_sql t') = s')"
  proof (cases "wish_lists ?s list")
    case (Some row)
    with t show ?thesis by (cases row) (simp add: db_create_list_def create_list_def bindT_def executeT_def)
  next
    case None
    with keys_okD(3) [OF tables_okD(1) [OF ok]] have key: "list_key ?s list = None" by blast
    let ?u = "?s\<lparr>wish_lists := (wish_lists ?s)(list \<mapsto> (sv_kind K, 0)), wish_list_keys := (list, fresh_key ?s) # wish_list_keys ?s\<rparr>"
    note c = created_list [OF ok key None, of "sv_kind K"]
    have "store_value (store_of B ?u) k = store_value (store_of B ?s) k" for k
      unfolding c(2) using None by (cases k) (simp_all add: cell_at_def)
    then have "tx_ok view B base (t\<lparr>tr_sql := ?u, tr_dirty := tr_dirty t\<rparr>)"
      by (intro tx_ok_write [OF t c(1), where D = "{}"]) simp_all
    with c(2) None key show ?thesis
      by (simp add: db_create_list_def create_list_def put_cells_def modifyS_def bindT_def executeT_def list_key_def fresh_key_def)
  qed
qed

text \<open>Every list that a test picks out goes, with its items and its index rows.\<close>

lemma dropped_lists:
  assumes "tables_ok B s"
    and "wish_list_keys s' = filter (\<lambda>(name, _). \<not> dropped name) (wish_list_keys s)"
    and "\<And>name. wish_lists s' name = (if dropped name then None else wish_lists s name)"
    and "wish_items s' = filter (\<lambda>((k, _), _). k \<notin> gone) (wish_items s)"
    and "wish_history_index s' = filter (\<lambda>(k, _). k \<notin> gone) (wish_history_index s)"
    and "gone = {k. \<exists>name. (name, k) \<in> set (wish_list_keys s) \<and> dropped name}"
    and "\<And>n. wish_objects s' n = None \<or> wish_objects s' n = wish_objects s n"
  shows "tables_ok B s'"
    and "st_lists (store_of B s') l = (if dropped l then None else st_lists (store_of B s) l)"
    and "index_rows s' l = (if dropped l then [] else index_rows s l)"
proof -
  note ok = tables_okD(1) [OF assms(1)]
  have lk: "list_key s' l = (if dropped l then None else list_key s l)" for l
    unfolding list_key_def assms(2) by (simp add: map_of_filter_key)
  have kept: "k \<notin> gone" if "list_key s l = Some k" "\<not> dropped l" for k l
  proof
    assume "k \<in> gone"
    then obtain name where n: "(name, k) \<in> set (wish_list_keys s)" "dropped name" unfolding assms(6) by blast
    then have "list_key s name = Some k" using keys_okD(1) [OF ok] by (simp add: list_key_def)
    with list_key_inj [OF ok that(1)] n(2) that(2) show False by blast
  qed
  have fm: "map_of (wish_items s') (k, p) = (if k \<in> gone then None else map_of (wish_items s) (k, p))" for k p
    unfolding assms(4) using map_of_filter_key [of "\<lambda>(k, p). k \<notin> gone" "wish_items s" "(k, p)"]
    by (simp add: case_prod_unfold)
  have it: "item_at s' l = item_at s l" if "\<not> dropped l" for l
    using kept [OF _ that] that by (auto simp: fun_eq_iff item_at_def lk fm split: option.split)
  have mem: "k \<in> snd ` set (wish_list_keys s')" if "k \<in> snd ` set (wish_list_keys s)" "k \<notin> gone" for k
    using that unfolding assms(2,6) by force
  have "wish_lists s' l = None \<longleftrightarrow> list_key s' l = None" for l
    using keys_okD(3) [OF ok, of l] by (simp add: assms(3) lk)
  moreover have "distinct (map fst (wish_list_keys s'))" "distinct (map snd (wish_list_keys s'))" "distinct (map fst (wish_items s'))"
    unfolding assms(2,4) using keys_okD(1,2,4) [OF ok] by (auto intro: distinct_map_filter)
  moreover have "\<forall>row \<in> set (wish_items s'). fst (fst row) \<in> snd ` set (wish_list_keys s')"
    unfolding assms(4) using keys_okD(5) [OF ok] mem by fastforce
  moreover have "\<forall>row \<in> set (wish_history_index s'). fst row \<in> snd ` set (wish_list_keys s')"
    unfolding assms(5) using keys_okD(6) [OF ok] mem by fastforce
  ultimately have "keys_ok s'" unfolding keys_ok_def by blast
  moreover have "items_ok B k (item_at s' l) len" if "wish_lists s' l = Some (k, len)" for l k len
    using that it [of l] tables_okD(3) [OF assms(1), of l k len] by (auto simp: assms(3) split: if_splits)
  moreover have "encodes B k b" if "wish_objects s' n = Some (k, b)" for n k b
    using that assms(7) [of n] tables_okD(2) [OF assms(1), of n k b] by auto
  ultimately show "tables_ok B s'" by (simp add: tables_ok_def)
  show "st_lists (store_of B s') l = (if dropped l then None else st_lists (store_of B s) l)"
    using it [of l] by (simp add: assms(3))
  have "filter (\<lambda>(k, _). k = key) (wish_history_index s') = filter (\<lambda>(k, _). k = key) (wish_history_index s)" if "key \<notin> gone" for key
    unfolding assms(5) using that by (auto intro: filter_cong simp: case_prod_unfold)
  with kept [of l] show "index_rows s' l = (if dropped l then [] else index_rows s l)"
    by (auto simp: index_rows_def lk split: option.split)
qed

lemma simulates_delete_list:
  "simulates view B base (bindT (db_delete_list K list) (\<lambda>_. returnT ())) (delete_list K list)"
proof -
  show ?thesis
    unfolding db_delete_list_def delete_list_def thenS_def bindT_assoc [of "db_list_len K list"]
  proof (rule simulates_list)
    fix t :: "'a transaction" and len assume t: "tx_ok view B base t" and len: "wish_lists (tr_sql t) list = Some (sv_kind K, len)"
    let ?s = "tr_sql t" and ?u = "delete_list_rows list (tr_sql t)"
    let ?marks = "concat (map (mark_item_changed list) [0..<len])"
    note ok = tx_okD(1) [OF t]
    obtain key where key: "list_key ?s list = Some key" by (rule list_key_of [OF ok len])
    then have gone: "{key} = {k. \<exists>name. (name, k) \<in> set (wish_list_keys ?s) \<and> name = list}"
      using keys_okD(1) [OF tables_okD(1) [OF ok]] by (auto simp: list_key_def dest: map_of_SomeD eq_key_imp_eq_value)
    have r: "wish_list_keys ?u = filter (\<lambda>(name, _). \<not> name = list) (wish_list_keys ?s)"
      "wish_lists ?u name = (if name = list then None else wish_lists ?s name)"
      "wish_items ?u = filter (\<lambda>((k, _), _). k \<notin> {key}) (wish_items ?s)"
      "wish_history_index ?u = filter (\<lambda>(k, _). k \<notin> {key}) (wish_history_index ?s)"
      "wish_objects ?u = wish_objects ?s" for name
      using key by (simp_all add: delete_list_rows_def delete_history_rows_def Let_def list_key_def)
    note d = dropped_lists [OF ok r(1-4) gone, unfolded r(5), OF disjI2 [OF refl]]
    have st: "store_of B ?u = (store_of B ?s)\<lparr>st_lists := (st_lists (store_of B ?s))(list := None),
        st_index := (st_index (store_of B ?s))(list := [])\<rparr>"
    proof (rule store.equality)
      show "st_lists (store_of B ?u) = st_lists ((store_of B ?s)\<lparr>st_lists := (st_lists (store_of B ?s))(list := None),
        st_index := (st_index (store_of B ?s))(list := [])\<rparr>)" by (rule ext) (simp add: d(2) del: store_of_simps(2))
    qed (simp_all add: fun_eq_iff r(5) d(3))
    have "store_value (store_of B ?u) k = store_value (store_of B ?s) k" if "k \<notin> set ?marks" for k
    proof (cases k)
      case (ObjectKey n)
      then show ?thesis by (simp add: st)
    next
      case (ItemKey l p)
      with that marks_subset [of p "[0..<len]" list] have "l = list \<Longrightarrow> \<not> p < len" by auto
      with ItemKey len show ?thesis by (auto simp: st cell_at_def)
    next
      case (PageKey l n)
      with that marks_subset [of "n * page_size" "[0..<len]" list] have "l = list \<Longrightarrow> \<not> n * page_size < len"
        by (auto simp: page_size_def)
      with PageKey len show ?thesis by (auto simp: st)
    qed
    then have "tx_ok view B base (t\<lparr>tr_sql := ?u, tr_dirty := tr_dirty t @ ?marks\<rparr>)"
      by (intro tx_ok_write [OF t d(1), where D = "set ?marks"]) simp_all
    moreover have "t\<lparr>tr_sql := ?u, tr_dirty := tr_dirty t @ ?marks\<rparr> = t\<lparr>tr_dirty := tr_dirty t @ ?marks, tr_sql := ?u\<rparr>"
      by (rule transaction.equality) simp_all
    ultimately show "\<exists>r t'. bindT (bindT (markT ?marks) (\<lambda>_. bindT (queryT (\<lambda>s. Inr (sum_list (map (length \<circ> snd) (list_rows s list)))))
        (\<lambda>bytes. bindT (executeT (\<lambda>s. Inr (delete_list_rows list s))) (\<lambda>_. returnT bytes)))) (\<lambda>_. returnT ()) t = (r, t')
      \<and> tx_ok view B base t' \<and> (case modifyS (\<lambda>s. s\<lparr>st_lists := (st_lists s)(list := None), st_index := (st_index s)(list := [])\<rparr>)
        (store_of B ?s) of Inl e \<Rightarrow> r = Inl e | Inr (x, s') \<Rightarrow> r = Inr x \<and> store_of B (tr_sql t') = s')"
      using st by (simp add: bindT_def markT_def queryT_def executeT_def returnT_def modifyS_def)
  qed
qed

lemma simulates_delete_namespace:
  assumes "lru_laws view (bk_lru B)"
  shows "simulates view B base (db_delete_namespace B namespace) (delete_namespace namespace)"
proof (rule simulatesI)
  fix t assume t: "tx_ok view B base t"
  let ?s = "tr_sql t" and ?u = "delete_namespace_rows namespace (tr_sql t)" and ?below = "has_prefix (namespace @ ''/'')"
  let ?c = "cache_clear (bk_lru B) (tr_cache t)"
  let ?st = "\<lambda>s. s\<lparr>st_objects := (\<lambda>n. if n = namespace \<or> ?below n then None else st_objects s n),
        st_lists := (\<lambda>n. if ?below n then None else st_lists s n), st_index := (\<lambda>n. if ?below n then [] else st_index s n)\<rparr>"
  note ok = tx_okD(1) [OF t]
  let ?gone = "{k. \<exists>name. (name, k) \<in> set (wish_list_keys ?s) \<and> ?below name}"
  have gone: "snd ` {x \<in> set (wish_list_keys ?s). case x of (name, _) \<Rightarrow> ?below name} = ?gone" by force
  have r: "wish_list_keys ?u = filter (\<lambda>(name, _). \<not> ?below name) (wish_list_keys ?s)"
    "wish_lists ?u name = (if ?below name then None else wish_lists ?s name)"
    "wish_items ?u = filter (\<lambda>((k, _), _). k \<notin> ?gone) (wish_items ?s)"
    "wish_history_index ?u = filter (\<lambda>(k, _). k \<notin> ?gone) (wish_history_index ?s)"
    "wish_objects ?u n = (if n = namespace \<or> ?below n then None else wish_objects ?s n)" for name n
    by (simp_all add: delete_namespace_rows_def Let_def gone)
  have o: "wish_objects ?u n = None \<or> wish_objects ?u n = wish_objects ?s n" for n by (simp add: r(5))
  note d = dropped_lists [OF ok r(1-4) refl o]
  have st: "store_of B ?u = ?st (store_of B ?s)"
  proof (rule store.equality)
    show "st_lists (store_of B ?u) = st_lists (?st (store_of B ?s))" by (rule ext) (simp add: d(2) del: store_of_simps(2))
  qed (simp_all add: fun_eq_iff r(5) d(3))
  have "store_value base k = Some v" if "k \<notin> set (tr_dirty t)" "store_value (store_of B ?u) k = Some v" for k v
  proof -
    have "store_value (store_of B ?s) k = Some v"
      using that(2) unfolding st by (cases k) (auto split: if_splits option.splits)
    with that(1) show ?thesis by (rule tx_okD(5) [OF t])
  qed
  with d(1) cache_clear_view [OF assms] have "tx_ok view B base (t\<lparr>tr_cache := ?c, tr_sql := ?u\<rparr>)"
    by (simp add: tx_ok_def)
  with st show "\<exists>r t'. db_delete_namespace B namespace t = (r, t') \<and> tx_ok view B base t' \<and>
      (case delete_namespace namespace (store_of B ?s) of Inl e \<Rightarrow> r = Inl e | Inr (x, s') \<Rightarrow> r = Inr x \<and> store_of B (tr_sql t') = s')"
    by (simp add: db_delete_namespace_def bindT_def executeT_def delete_namespace_def Let_def modifyS_def)
qed

subsection \<open>The history index\<close>

lemma simulates_as_integer: "simulates view B base (as_integer n) (to_integer n)"
  unfolding as_integer_def to_integer_def by (intro simulates_if simulates_return simulates_fail)

lemma index_write:
  assumes "tx_ok view B base t" and "list_key (tr_sql t) list = Some key"
    and "\<And>k. k \<noteq> key \<Longrightarrow> filter (\<lambda>(i, _). i = k) rows = filter (\<lambda>(i, _). i = k) (wish_history_index (tr_sql t))"
  defines "s' \<equiv> (tr_sql t)\<lparr>wish_history_index := rows\<rparr>"
  shows "tx_ok view B base (t\<lparr>tr_sql := s'\<rparr>)"
    and "store_of B s' = (store_of B (tr_sql t))\<lparr>st_index := (index_rows (tr_sql t))(list := map snd (filter (\<lambda>(i, _). i = key) rows))\<rparr>"
proof -
  let ?s = "tr_sql t"
  note ok = tx_okD(1) [OF assms(1)]
  note keys = tables_okD(1) [OF ok]
  have lk: "list_key s' = list_key ?s" by (simp add: s'_def list_key_def fun_eq_iff)
  have it: "item_at s' = item_at ?s" by (simp add: s'_def fun_eq_iff item_at_def list_key_def split: option.split)
  have ix: "index_rows s' l = (if l = list then map snd (filter (\<lambda>(i, _). i = key) rows) else index_rows ?s l)" for l
  proof (cases "list_key ?s l")
    case None
    with assms(2) show ?thesis by (auto simp: index_rows_def lk)
  next
    case (Some k)
    with list_key_inj [OF keys assms(2), of l] have "l \<noteq> list \<Longrightarrow> k \<noteq> key" by auto
    with Some assms(2,3) show ?thesis by (auto simp: index_rows_def lk) (auto simp: s'_def)
  qed
  show st: "store_of B s' = (store_of B ?s)\<lparr>st_index := (index_rows ?s)(list := map snd (filter (\<lambda>(i, _). i = key) rows))\<rparr>"
    by (rule store.equality) (simp_all add: fun_eq_iff it ix, simp_all add: s'_def)
  have "key \<in> snd ` set (wish_list_keys ?s)" using assms(2) by (force simp: list_key_def dest: map_of_SomeD)
  have "fst hit \<in> snd ` set (wish_list_keys ?s)" if "hit \<in> set rows" for hit
  proof (cases "fst hit = key")
    case False
    have "hit \<in> set (filter (\<lambda>(i, _). i = fst hit) rows)" using that by auto
    then have "hit \<in> set (wish_history_index ?s)" unfolding assms(3) [OF False] by simp
    then show ?thesis by (rule keys_okD(6) [OF keys])
  qed (use \<open>key \<in> snd ` set (wish_list_keys ?s)\<close> in simp)
  with keys have "keys_ok s'" unfolding keys_ok_def lk by (simp add: s'_def)
  then have "tables_ok B s'" using ok unfolding tables_ok_def it by (simp add: s'_def)
  moreover have "store_value (store_of B s') k = store_value (store_of B ?s) k" for k unfolding st by (cases k) simp_all
  ultimately have "tx_ok view B base (t\<lparr>tr_sql := s', tr_dirty := tr_dirty t\<rparr>)"
    by (intro tx_ok_write [OF assms(1), where D = "{}"]) simp_all
  then show "tx_ok view B base (t\<lparr>tr_sql := s'\<rparr>)" by simp
qed

lemma simulates_index_history_record:
  "simulates view B base (db_index_history_record list row) (index_history_record list row)"
  unfolding db_index_history_record_def index_history_record_def thenS_def
proof (intro simulates_bind simulates_as_integer)
  show "simulates view B base (case ix_model_call row of None \<Rightarrow> returnT () | Some x \<Rightarrow> as_integer x)
      (case ix_model_call row of None \<Rightarrow> returnS () | Some x \<Rightarrow> to_integer x)"
    by (cases "ix_model_call row") (simp_all add: simulates_return simulates_as_integer)
next
  show "simulates view B base (executeT (\<lambda>s. case list_key s list of None \<Rightarrow> Inl Sqlite | Some key \<Rightarrow>
        if list_ex (\<lambda>(k, r). k = key \<and> ix_sequence r = ix_sequence row) (wish_history_index s) then Inr s
        else Inr (s\<lparr>wish_history_index := wish_history_index s @ [(key, row)]\<rparr>)))
      (\<lambda>s. if st_lists s list = None then Inl Sqlite
        else if \<exists>r \<in> set (st_index s list). ix_sequence r = ix_sequence row then Inr ((), s)
        else Inr ((), s\<lparr>st_index := (st_index s)(list := st_index s list @ [row])\<rparr>))"
    (is "simulates view B base ?m ?n")
  proof (rule simulatesI)
    fix t assume t: "tx_ok view B base t"
    let ?s = "tr_sql t"
    note keys = tables_okD(1) [OF tx_okD(1) [OF t]]
    show "\<exists>r t'. ?m t = (r, t') \<and> tx_ok view B base t' \<and>
        (case ?n (store_of B ?s) of Inl e \<Rightarrow> r = Inl e | Inr (x, s') \<Rightarrow> r = Inr x \<and> store_of B (tr_sql t') = s')"
    proof (cases "list_key ?s list")
      case None
      with t keys_okD(3) [OF keys, of list] show ?thesis by (simp add: executeT_def)
    next
      case (Some key)
      have some: "wish_lists ?s list \<noteq> None" using Some keys_okD(3) [OF keys, of list] by simp
      have has: "list_ex (\<lambda>(k, r). k = key \<and> ix_sequence r = ix_sequence row) (wish_history_index ?s)
          \<longleftrightarrow> (\<exists>r \<in> set (index_rows ?s list). ix_sequence r = ix_sequence row)"
        using Some by (fastforce simp: index_rows_def list_ex_iff)
      have "filter (\<lambda>(i, _). i = k) (wish_history_index ?s @ [(key, row)]) = filter (\<lambda>(i, _). i = k) (wish_history_index ?s)" if "k \<noteq> key" for k
        using that by simp
      note w = index_write [OF t Some this]
      have "map snd (filter (\<lambda>(i, _). i = key) (wish_history_index ?s @ [(key, row)])) = index_rows ?s list @ [row]"
        using Some by (simp add: index_rows_def)
      with w t some has Some show ?thesis by (simp add: executeT_def)
    qed
  qed
qed

lemma filter_rows_of:
  "map snd (filter (\<lambda>(i, _). i = key) (filter (\<lambda>(k, r). \<not> (k = key \<and> P r)) rows))
     = filter (\<lambda>r. \<not> P r) (map snd (filter (\<lambda>(k, _). k = key) rows))"
  by (induction rows) auto

lemma remove_one_run:
  assumes "tx_ok view B base t"
  shows "\<exists>t'. executeT (\<lambda>s. Inr (case list_key s list of None \<Rightarrow> s | Some key \<Rightarrow> s\<lparr>wish_history_index :=
        filter (\<lambda>(k, r). \<not> (k = key \<and> ix_sequence r = n)) (wish_history_index s)\<rparr>)) t = (Inr (), t') \<and> tx_ok view B base t'
     \<and> store_of B (tr_sql t') = (store_of B (tr_sql t))\<lparr>st_index :=
          (index_rows (tr_sql t))(list := filter (\<lambda>r. ix_sequence r \<noteq> n) (index_rows (tr_sql t) list))\<rparr>"
proof (cases "list_key (tr_sql t) list")
  case None
  have "(index_rows (tr_sql t))(list := filter (\<lambda>r. ix_sequence r \<noteq> n) (index_rows (tr_sql t) list)) = index_rows (tr_sql t)"
    using None by (simp add: fun_eq_iff index_rows_def)
  moreover have "(store_of B (tr_sql t))\<lparr>st_index := index_rows (tr_sql t)\<rparr> = store_of B (tr_sql t)" by simp
  ultimately show ?thesis using None assms by (simp add: executeT_def)
next
  case (Some key)
  let ?rows = "filter (\<lambda>(k, r). \<not> (k = key \<and> ix_sequence r = n)) (wish_history_index (tr_sql t))"
  have "filter (\<lambda>(i, _). i = k) ?rows = filter (\<lambda>(i, _). i = k) (wish_history_index (tr_sql t))" if "k \<noteq> key" for k
    using that by (auto intro: filter_cong)
  note w = index_write [OF assms Some this]
  have "map snd (filter (\<lambda>(i, _). i = key) ?rows) = filter (\<lambda>r. ix_sequence r \<noteq> n) (index_rows (tr_sql t) list)"
    unfolding index_rows_def Some option.case by (rule filter_rows_of)
  with w Some show ?thesis by (simp add: executeT_def)
qed

lemma simulates_remove_history_records:
  "simulates view B base (db_remove_history_records row_size list ns) (remove_history_records row_size list ns)"
proof -
  have "simulates view B base (remove_loop row_size list ns removed) (foldS (remove_history_record row_size list) ns removed)" for removed
  proof (induction ns arbitrary: removed)
    case Nil
    show ?case by (simp add: simulates_return)
  next
    case (Cons n ns)
    let ?m = "bindT (queryT (\<lambda>s. Inr (filter (\<lambda>r. ix_sequence r = n) (index_rows s list)))) (\<lambda>gone.
            bindT (executeT (\<lambda>s. Inr (case list_key s list of None \<Rightarrow> s | Some key \<Rightarrow> s\<lparr>wish_history_index :=
              filter (\<lambda>(k, r). \<not> (k = key \<and> ix_sequence r = n)) (wish_history_index s)\<rparr>)))
            (\<lambda>_. remove_loop row_size list ns (removed + sum_list (map row_size gone))))"
    let ?n = "bindS (\<lambda>s. let (gone, kept) = partition (\<lambda>r. ix_sequence r = n) (st_index s list)
              in Inr (removed + sum_list (map row_size gone), s\<lparr>st_index := (st_index s)(list := kept)\<rparr>))
            (foldS (remove_history_record row_size list) ns)"
    have n: "foldS (remove_history_record row_size list) (n # ns) removed = bindS (to_integer n) (\<lambda>_. ?n)"
      by (simp add: remove_history_record_def [of row_size list removed n] thenS_def bindS_assoc)
    have "simulates view B base ?m ?n"
    proof (rule simulatesI)
      fix t assume t: "tx_ok view B base t"
      let ?rows = "index_rows (tr_sql t) list"
      obtain u where u: "executeT (\<lambda>s. Inr (case list_key s list of None \<Rightarrow> s | Some key \<Rightarrow> s\<lparr>wish_history_index :=
          filter (\<lambda>(k, r). \<not> (k = key \<and> ix_sequence r = n)) (wish_history_index s)\<rparr>)) t = (Inr (), u)" "tx_ok view B base u"
        "store_of B (tr_sql u) = (store_of B (tr_sql t))\<lparr>st_index := (index_rows (tr_sql t))(list := filter (\<lambda>r. ix_sequence r \<noteq> n) ?rows)\<rparr>"
        using remove_one_run [OF t] by blast
      let ?removed = "removed + sum_list (map row_size (filter (\<lambda>r. ix_sequence r = n) ?rows))"
      obtain r t' where "remove_loop row_size list ns ?removed u = (r, t')" "tx_ok view B base t'"
        "case foldS (remove_history_record row_size list) ns ?removed (store_of B (tr_sql u)) of
           Inl e \<Rightarrow> r = Inl e | Inr (x, s') \<Rightarrow> r = Inr x \<and> store_of B (tr_sql t') = s'"
        by (rule simulatesD [OF Cons.IH u(2)])
      with u show "\<exists>r t'. ?m t = (r, t') \<and> tx_ok view B base t' \<and>
          (case ?n (store_of B (tr_sql t)) of Inl e \<Rightarrow> r = Inl e | Inr (x, s') \<Rightarrow> r = Inr x \<and> store_of B (tr_sql t') = s')"
        by (simp add: bindT_def queryT_def bindS_def o_def)
    qed
    then show ?case unfolding n remove_loop.simps by (intro simulates_bind [OF simulates_as_integer])
  qed
  then show ?thesis unfolding db_remove_history_records_def remove_history_records_def .
qed

end
