(* ===== verification/Storage_Properties.thy ===== *)
theory Storage_Properties
  imports Storage_Writes
begin

text \<open>
  Whole transactions: an edit is any program over the operations of a transaction, and running it on
  the database gives what running it on the plain store of \<open>Store\<close> gives, commit, rollback and
  errors included.
\<close>

subsection \<open>Edits\<close>

text \<open>
  One operation of a transaction, on values of the type a kind names, and what it answers. An edit
  asks for operations one after the other, each on account of the answers so far, and stops at the
  first error, as the clients' \<open>?\<close> does.
\<close>

datatype 'v store_request =
    CreateObject string string 'v
  | LoadObject string string
  | SaveObject string string 'v
  | CreateList string string
  | ListLen string string
  | GetItem string string nat
  | AppendItems string string "'v list"
  | SetItem string string nat 'v
  | RemoveItem string string nat
  | ReleaseItems string string "nat list"
  | DeleteList string string
  | ReadFrom string string nat
  | ReadPage string string nat nat
  | DeleteNamespace string
  | IndexHistoryRecord string index_row
  | RemoveHistoryRecords string "nat list"

datatype 'v store_answer =
    Ok
  | Value 'v
  | Count nat
  | Item "'v option"
  | Items "'v list"
  | ItemsPage "'v page"

datatype ('v, 'r) edit =
    Finish 'r
  | Fail storage_error
  | Ask "'v store_request" "'v store_answer \<Rightarrow> ('v, 'r) edit"

definition kind_value :: "(string \<Rightarrow> 'v \<Rightarrow> bool) \<Rightarrow> string \<Rightarrow> ('v, 'v) stored_value" where
  "kind_value typed k = \<lparr>sv_kind = k, sv_enc = (\<lambda>v. v), sv_dec = (\<lambda>v. if typed k v then Some v else None)\<rparr>"

fun ask_db :: "('l, 'v) backend \<Rightarrow> (string \<Rightarrow> 'v \<Rightarrow> bool) \<Rightarrow> (index_row \<Rightarrow> nat) \<Rightarrow> 'v store_request \<Rightarrow> ('l, 'v store_answer) db_op" where
  "ask_db B typed row_size (CreateObject k name v) = bindT (db_create_object B (kind_value typed k) name v) (\<lambda>_. returnT Ok)"
| "ask_db B typed row_size (LoadObject k name) = bindT (db_load_object B (kind_value typed k) name) (\<lambda>v. returnT (Value v))"
| "ask_db B typed row_size (SaveObject k name v) = bindT (db_save_object B (kind_value typed k) name v) (\<lambda>_. returnT Ok)"
| "ask_db B typed row_size (CreateList k list) = bindT (db_create_list (kind_value typed k) list) (\<lambda>_. returnT Ok)"
| "ask_db B typed row_size (ListLen k list) = bindT (db_list_len (kind_value typed k) list) (\<lambda>n. returnT (Count n))"
| "ask_db B typed row_size (GetItem k list pos) = bindT (db_get_item B (kind_value typed k) list pos) (\<lambda>v. returnT (Item v))"
| "ask_db B typed row_size (AppendItems k list vs) = bindT (db_append_items B (kind_value typed k) list vs) (\<lambda>n. returnT (Count n))"
| "ask_db B typed row_size (SetItem k list pos v) = bindT (db_set_item B (kind_value typed k) list pos v) (\<lambda>_. returnT Ok)"
| "ask_db B typed row_size (RemoveItem k list pos) = bindT (db_remove_item (kind_value typed k) list pos) (\<lambda>_. returnT Ok)"
| "ask_db B typed row_size (ReleaseItems k list ps) = bindT (db_release_items (kind_value typed k) list ps) (\<lambda>n. returnT (Count n))"
| "ask_db B typed row_size (DeleteList k list) =
     bindT (bindT (db_delete_list (kind_value typed k) list) (\<lambda>_. returnT ())) (\<lambda>_. returnT Ok)"
| "ask_db B typed row_size (ReadFrom k list start) = bindT (db_read_from B (kind_value typed k) list start) (\<lambda>vs. returnT (Items vs))"
| "ask_db B typed row_size (ReadPage k list start limit) =
     bindT (db_read_page B (kind_value typed k) list start limit) (\<lambda>p. returnT (ItemsPage p))"
| "ask_db B typed row_size (DeleteNamespace name) = bindT (db_delete_namespace B name) (\<lambda>_. returnT Ok)"
| "ask_db B typed row_size (IndexHistoryRecord list row) = bindT (db_index_history_record list row) (\<lambda>_. returnT Ok)"
| "ask_db B typed row_size (RemoveHistoryRecords list ns) =
     bindT (db_remove_history_records row_size list ns) (\<lambda>n. returnT (Count n))"

fun ask_store :: "('v \<Rightarrow> nat) \<Rightarrow> (string \<Rightarrow> 'v \<Rightarrow> bool) \<Rightarrow> (index_row \<Rightarrow> nat) \<Rightarrow> 'v store_request \<Rightarrow> ('v, 'v store_answer) store_op" where
  "ask_store size_of typed row_size (CreateObject k name v) = bindS (create_object (kind_value typed k) name v) (\<lambda>_. returnS Ok)"
| "ask_store size_of typed row_size (LoadObject k name) = bindS (load_object (kind_value typed k) name) (\<lambda>v. returnS (Value v))"
| "ask_store size_of typed row_size (SaveObject k name v) = bindS (save_object (kind_value typed k) name v) (\<lambda>_. returnS Ok)"
| "ask_store size_of typed row_size (CreateList k list) = bindS (create_list (kind_value typed k) list) (\<lambda>_. returnS Ok)"
| "ask_store size_of typed row_size (ListLen k list) = bindS (list_len (kind_value typed k) list) (\<lambda>n. returnS (Count n))"
| "ask_store size_of typed row_size (GetItem k list pos) = bindS (get_item (kind_value typed k) list pos) (\<lambda>v. returnS (Item v))"
| "ask_store size_of typed row_size (AppendItems k list vs) = bindS (append_items (kind_value typed k) list vs) (\<lambda>n. returnS (Count n))"
| "ask_store size_of typed row_size (SetItem k list pos v) = bindS (set_item (kind_value typed k) list pos v) (\<lambda>_. returnS Ok)"
| "ask_store size_of typed row_size (RemoveItem k list pos) = bindS (remove_item (kind_value typed k) list pos) (\<lambda>_. returnS Ok)"
| "ask_store size_of typed row_size (ReleaseItems k list ps) =
     bindS (release_items size_of (kind_value typed k) list ps) (\<lambda>n. returnS (Count n))"
| "ask_store size_of typed row_size (DeleteList k list) = bindS (delete_list (kind_value typed k) list) (\<lambda>_. returnS Ok)"
| "ask_store size_of typed row_size (ReadFrom k list start) = bindS (read_from (kind_value typed k) list start) (\<lambda>vs. returnS (Items vs))"
| "ask_store size_of typed row_size (ReadPage k list start limit) =
     bindS (read_page (kind_value typed k) list start limit) (\<lambda>p. returnS (ItemsPage p))"
| "ask_store size_of typed row_size (DeleteNamespace name) = bindS (delete_namespace name) (\<lambda>_. returnS Ok)"
| "ask_store size_of typed row_size (IndexHistoryRecord list row) = bindS (index_history_record list row) (\<lambda>_. returnS Ok)"
| "ask_store size_of typed row_size (RemoveHistoryRecords list ns) =
     bindS (remove_history_records row_size list ns) (\<lambda>n. returnS (Count n))"

primrec edit_db :: "('l, 'v) backend \<Rightarrow> (string \<Rightarrow> 'v \<Rightarrow> bool) \<Rightarrow> (index_row \<Rightarrow> nat) \<Rightarrow> ('v, 'r) edit \<Rightarrow> ('l, 'r) db_op" where
  "edit_db B typed row_size (Finish r) = returnT r"
| "edit_db B typed row_size (Fail e) = failT e"
| "edit_db B typed row_size (Ask q f) = bindT (ask_db B typed row_size q) (\<lambda>a. edit_db B typed row_size (f a))"

primrec edit_store :: "('v \<Rightarrow> nat) \<Rightarrow> (string \<Rightarrow> 'v \<Rightarrow> bool) \<Rightarrow> (index_row \<Rightarrow> nat) \<Rightarrow> ('v, 'r) edit \<Rightarrow> ('v, 'r) store_op" where
  "edit_store size_of typed row_size (Finish r) = returnS r"
| "edit_store size_of typed row_size (Fail e) = failS e"
| "edit_store size_of typed row_size (Ask q f) =
     bindS (ask_store size_of typed row_size q) (\<lambda>a. edit_store size_of typed row_size (f a))"

text \<open>The values an edit hands over are of the types it names, as the type checker sees to it.\<close>

fun request_typed :: "(string \<Rightarrow> 'v \<Rightarrow> bool) \<Rightarrow> 'v store_request \<Rightarrow> bool" where
  "request_typed typed (CreateObject k name v) = typed k v"
| "request_typed typed (SaveObject k name v) = typed k v"
| "request_typed typed (AppendItems k list vs) = list_all (typed k) vs"
| "request_typed typed (SetItem k list pos v) = typed k v"
| "request_typed typed _ = True"

primrec edit_typed :: "(string \<Rightarrow> 'v \<Rightarrow> bool) \<Rightarrow> ('v, 'r) edit \<Rightarrow> bool" where
  "edit_typed typed (Finish r) = True"
| "edit_typed typed (Fail e) = True"
| "edit_typed typed (Ask q f) = (request_typed typed q \<and> (\<forall>a. edit_typed typed (f a)))"

text \<open>
  What \<open>serde_json\<close> promises of the stored types: a value is written as some text and read back as
  its type, what is read as a type is of that type, and no value is of two types.
\<close>

definition encoding_laws :: "('l, 'v) backend \<Rightarrow> (string \<Rightarrow> 'v \<Rightarrow> bool) \<Rightarrow> bool" where
  "encoding_laws B typed \<longleftrightarrow>
     (\<forall>v. bk_to_vec B v \<noteq> [])
     \<and> (\<forall>k v. typed k v \<longrightarrow> bk_from_slice B k (bk_to_vec B v) = Some v)
     \<and> (\<forall>k b v. bk_from_slice B k b = Some v \<longrightarrow> typed k v)
     \<and> (\<forall>k k' v. typed k v \<longrightarrow> typed k' v \<longrightarrow> k = k')"

lemma encoding_storable: "encoding_laws B typed \<Longrightarrow> storable B (kind_value typed k)"
  unfolding encoding_laws_def storable_def kind_value_def by (auto split: if_splits) blast

lemma kind_value_typed [simp]: "of_type (kind_value typed k) v \<longleftrightarrow> typed k v"
  by (simp add: kind_value_def)

lemmas simulates_operations = simulates_create_object simulates_load_object simulates_save_object
  simulates_create_list simulates_list_len simulates_get_item simulates_append_items simulates_set_item
  simulates_remove_item simulates_release_items simulates_delete_list simulates_read_from
  simulates_read_page simulates_delete_namespace simulates_index_history_record
  simulates_remove_history_records

lemma ask_simulates:
  assumes "lru_laws view (bk_lru B)" and "encoding_laws B typed" and "request_typed typed q"
  shows "simulates view B base (ask_db B typed row_size q) (ask_store (\<lambda>v. length (bk_to_vec B v)) typed row_size q)"
  using assms(3) encoding_storable [OF assms(2)] assms(1)
  by (cases q) (simp_all only: ask_db.simps ask_store.simps request_typed.simps list_all_iff,
    (intro simulates_bind simulates_return simulates_operations; simp)+)

lemma edit_simulates:
  assumes "lru_laws view (bk_lru B)" and "encoding_laws B typed"
  shows "edit_typed typed e \<Longrightarrow>
     simulates view B base (edit_db B typed row_size e) (edit_store (\<lambda>v. length (bk_to_vec B v)) typed row_size e)"
proof (induction e)
  case (Ask q f)
  then show ?case
    by (simp add: simulates_bind ask_simulates [OF assms])
qed (simp_all add: simulates_return simulates_fail)

subsection \<open>The database between transactions\<close>

definition db_ok :: "('l \<Rightarrow> cache_key \<Rightarrow> 'v cached_value option) \<Rightarrow> ('l, 'v) backend \<Rightarrow> 'l database \<Rightarrow> bool" where
  "db_ok view B d \<longleftrightarrow> tables_ok B (db_connection d) \<and> cache_fits view (db_cache d)
     \<and> (\<forall>k w. view (ca_values (db_cache d)) k = Some w \<longrightarrow> store_value (store_of B (db_connection d)) k = Some (cv_value w))"

lemma database_open_ok:
  assumes "lru_laws view (bk_lru B)"
  shows "db_ok view B (database_open B capacity)" and "store_of B (db_connection (database_open B capacity)) = empty_store"
proof -
  have "list_key empty_tables l = None" for l by (simp add: list_key_def empty_tables_def)
  then show "db_ok view B (database_open B capacity)"
    using lru_lawsD(1) [OF assms]
    by (simp add: db_ok_def database_open_def cache_new_def cache_fits_def held_weight_def tables_ok_def keys_ok_def)
      (simp add: empty_tables_def)
  show "store_of B (db_connection (database_open B capacity)) = empty_store"
    by (simp add: database_open_def store_of_def empty_store_def index_rows_def list_key_def empty_tables_def fun_eq_iff)
qed

lemma begin_tx_ok:
  assumes "db_ok view B d"
  shows "tx_ok view B (store_of B (db_connection d)) \<lparr>tr_sql = db_connection d, tr_cache = db_cache d, tr_dirty = []\<rparr>"
  using assms unfolding db_ok_def tx_ok_def by simp

lemma invalidate_all:
  assumes "lru_laws view L"
  shows "view (ca_values (fold (cache_invalidate L) keys c)) k = (if k \<in> set keys then None else view (ca_values c) k)"
    and "cache_fits view c \<Longrightarrow> cache_fits view (fold (cache_invalidate L) keys c)"
  by (induction keys arbitrary: c) (simp_all add: cache_invalidate_view [OF assms])

lemma commit_ok:
  assumes "lru_laws view (bk_lru B)" and "tx_ok view B base t"
  shows "db_ok view B (d\<lparr>db_connection := tr_sql t, db_cache := fold (cache_invalidate (bk_lru B)) (tr_dirty t) (tr_cache t)\<rparr>)"
  using tx_okD [OF assms(2)] invalidate_all [OF assms(1)] by (auto simp: db_ok_def split: if_splits)

lemma rollback_ok:
  assumes "db_ok view B d" and "tx_ok view B (store_of B (db_connection d)) t"
  shows "db_ok view B (d\<lparr>db_cache := tr_cache t\<rparr>)"
  using assms(1) tx_okD(2,3) [OF assms(2)] by (simp add: db_ok_def)

lemma run_simulated:
  assumes "lru_laws view (bk_lru B)" and "simulates view B (store_of B (db_connection d)) m n" and "db_ok view B d"
    and "run_transaction B m commit d = (r, d')"
  shows "db_ok view B d'
     \<and> (case n (store_of B (db_connection d)) of
          Inl err \<Rightarrow> r = Inl err \<and> store_of B (db_connection d') = store_of B (db_connection d)
        | Inr (x, s') \<Rightarrow> r = Inr x
            \<and> store_of B (db_connection d') = (if commit then s' else store_of B (db_connection d)))"
proof -
  let ?t = "\<lparr>tr_sql = db_connection d, tr_cache = db_cache d, tr_dirty = []\<rparr>"
  obtain q t where t: "m ?t = (q, t)" "tx_ok view B (store_of B (db_connection d)) t"
    "case n (store_of B (tr_sql ?t)) of Inl err \<Rightarrow> q = Inl err | Inr (x, s') \<Rightarrow> q = Inr x \<and> store_of B (tr_sql t) = s'"
    by (rule simulatesD [OF assms(2) begin_tx_ok [OF assms(3)]])
  from assms(4) t rollback_ok [OF assms(3) t(2)] commit_ok [OF assms(1) t(2), of d] show ?thesis
    by (auto simp: run_transaction_def split: sum.splits if_splits)
qed

lemma run_transaction_ok:
  assumes "lru_laws view (bk_lru B)" and "encoding_laws B typed" and "edit_typed typed e" and "db_ok view B d"
    and "run_transaction B (edit_db B typed row_size e) commit d = (r, d')"
  shows "db_ok view B d'
     \<and> (case edit_store (\<lambda>v. length (bk_to_vec B v)) typed row_size e (store_of B (db_connection d)) of
          Inl err \<Rightarrow> r = Inl err \<and> store_of B (db_connection d') = store_of B (db_connection d)
        | Inr (x, s') \<Rightarrow> r = Inr x
            \<and> store_of B (db_connection d') = (if commit then s' else store_of B (db_connection d)))"
  by (rule run_simulated [OF assms(1) edit_simulates [OF assms(1-3)] assms(4,5)])

subsection \<open>The size of the cache\<close>

text \<open>No operation changes how much the cache may hold.\<close>

definition keeps_capacity :: "('l, 'a) db_op \<Rightarrow> bool" where
  "keeps_capacity m \<longleftrightarrow> (\<forall>t. ca_capacity (tr_cache (snd (m t))) = ca_capacity (tr_cache t))"

lemma make_room_capacity [simp]: "ca_capacity (make_room L n weight c) = ca_capacity c"
  by (induction n arbitrary: c) (auto split: prod.split option.split)

lemma cache_capacity [simp]:
  "cache_get L k c = (r, c') \<Longrightarrow> ca_capacity c' = ca_capacity c"
  "ca_capacity (cache_invalidate L k c) = ca_capacity c"
  "ca_capacity (cache_insert L k w c) = ca_capacity c"
  "ca_capacity (cache_clear L c) = ca_capacity c"
  by (auto simp: cache_get_def cache_invalidate_def cache_insert_def cache_clear_def Let_def split: prod.splits option.split)

lemma fold_invalidate_capacity [simp]: "ca_capacity (fold (cache_invalidate L) keys c) = ca_capacity c"
  by (induction keys arbitrary: c) simp_all

lemma capacity_rules:
  "keeps_capacity (returnT x)" "keeps_capacity (failT e)" "keeps_capacity (queryT q)" "keeps_capacity (executeT q')"
  "keeps_capacity (markT keys)" "keeps_capacity (load_cached B key)" "keeps_capacity (cache_value B key v n)"
  "keeps_capacity (\<lambda>t. (Inr (), t\<lparr>tr_cache := cache_clear L (tr_cache t)\<rparr>))"
  by (auto simp: keeps_capacity_def returnT_def failT_def queryT_def executeT_def markT_def load_cached_def cache_value_def
    split: sum.split prod.split)

lemma capacity_bind: "keeps_capacity m \<Longrightarrow> (\<And>x. keeps_capacity (f x)) \<Longrightarrow> keeps_capacity (bindT m f)"
  unfolding keeps_capacity_def bindT_def by (auto split: prod.split sum.split) (metis snd_conv)+

lemma capacity_if: "(b \<Longrightarrow> keeps_capacity m) \<Longrightarrow> (\<not> b \<Longrightarrow> keeps_capacity n) \<Longrightarrow> keeps_capacity (if b then m else n)" by simp

lemma capacity_option: "keeps_capacity m \<Longrightarrow> (\<And>x. keeps_capacity (f x)) \<Longrightarrow> keeps_capacity (case v of None \<Rightarrow> m | Some x \<Rightarrow> f x)"
  by (cases v) simp_all

lemma capacity_prod: "(\<And>a b. keeps_capacity (f a b)) \<Longrightarrow> keeps_capacity (case p of (a, b) \<Rightarrow> f a b)"
  by (cases p) simp

lemmas capacity_intros = capacity_rules capacity_bind capacity_if capacity_option capacity_prod

lemma capacity_loops:
  "keeps_capacity (db_list_len K list)"
  "keeps_capacity (release_loop list ps released changed)"
  "keeps_capacity (load_page B K list n)"
  "keeps_capacity (remove_loop row_size list ns removed)"
proof -
  show "keeps_capacity (db_list_len K list)" unfolding db_list_len_def by (intro capacity_intros)
  show "keeps_capacity (release_loop list ps released changed)"
    by (induction ps arbitrary: released changed) (auto intro!: capacity_intros)
  show "keeps_capacity (load_page B K list n)" unfolding load_page_def by (intro capacity_intros)
  show "keeps_capacity (remove_loop row_size list ns removed)"
    by (induction ns arbitrary: removed) (auto simp: as_integer_def intro!: capacity_intros)
qed

lemma capacity_read_range: "keeps_capacity (read_range B K list pos stop)"
proof (induction B K list pos stop rule: read_range.induct)
  case (1 B K list pos stop)
  show ?case
    by (subst read_range.simps, unfold Let_def, intro capacity_intros capacity_loops) (rule 1 [OF _ refl refl refl])
qed

lemma capacity_read_page: "keeps_capacity (db_read_page B K list start limit)"
  unfolding db_read_page_def Let_def by (intro capacity_intros capacity_loops capacity_read_range)

lemma capacity_read_pages: "keeps_capacity (read_pages B K list n pos stop items)"
  by (induction n arbitrary: pos items) (auto intro!: capacity_intros capacity_read_page)

lemma ask_keeps_capacity: "keeps_capacity (ask_db B typed row_size q)"
  by (cases q) (simp_all only: ask_db.simps db_create_object_def db_load_object_def db_save_object_def db_create_list_def
    db_get_item_def db_append_items_def db_set_item_def db_remove_item_def db_release_items_def db_delete_list_def
    db_read_from_def db_delete_namespace_def db_index_history_record_def db_remove_history_records_def as_integer_def,
    (intro capacity_intros capacity_loops capacity_read_page capacity_read_pages)+)

lemma edit_keeps_capacity: "keeps_capacity (edit_db B typed row_size e)"
  by (induction e) (auto intro!: capacity_intros ask_keeps_capacity)

lemma run_transaction_capacity:
  assumes "run_transaction B (edit_db B typed row_size e) commit d = (r, d')"
  shows "ca_capacity (db_cache d') = ca_capacity (db_cache d)"
proof -
  obtain q t where e: "edit_db B typed row_size e \<lparr>tr_sql = db_connection d, tr_cache = db_cache d, tr_dirty = []\<rparr> = (q, t)"
    by force
  with edit_keeps_capacity have "ca_capacity (tr_cache t) = ca_capacity (db_cache d)"
    unfolding keeps_capacity_def by (metis snd_conv transaction.select_convs(2))
  with assms e show ?thesis by (auto simp: run_transaction_def split: sum.splits if_splits)
qed

subsection \<open>Transactions one after the other\<close>

primrec run_transactions :: "('l, 'v) backend \<Rightarrow> (string \<Rightarrow> 'v \<Rightarrow> bool) \<Rightarrow> (index_row \<Rightarrow> nat) \<Rightarrow> (('v, 'r) edit \<times> bool) list
    \<Rightarrow> 'l database \<Rightarrow> (storage_error + 'r) list \<times> 'l database" where
  "run_transactions B typed row_size [] d = ([], d)"
| "run_transactions B typed row_size (e # es) d =
     (case run_transaction B (edit_db B typed row_size (fst e)) (snd e) d of (r, d) \<Rightarrow>
      case run_transactions B typed row_size es d of (rs, d) \<Rightarrow> (r # rs, d))"

primrec store_transactions :: "('v \<Rightarrow> nat) \<Rightarrow> (string \<Rightarrow> 'v \<Rightarrow> bool) \<Rightarrow> (index_row \<Rightarrow> nat) \<Rightarrow> (('v, 'r) edit \<times> bool) list
    \<Rightarrow> 'v store \<Rightarrow> (storage_error + 'r) list \<times> 'v store" where
  "store_transactions size_of typed row_size [] s = ([], s)"
| "store_transactions size_of typed row_size (e # es) s =
     (case edit_store size_of typed row_size (fst e) s of
        Inl err \<Rightarrow> (case store_transactions size_of typed row_size es s of (rs, s) \<Rightarrow> (Inl err # rs, s))
      | Inr (x, s') \<Rightarrow> (case store_transactions size_of typed row_size es (if snd e then s' else s) of (rs, s) \<Rightarrow> (Inr x # rs, s)))"

lemma run_transactions_ok:
  assumes "lru_laws view (bk_lru B)" and "encoding_laws B typed"
  shows "\<forall>e \<in> set es. edit_typed typed (fst e) \<Longrightarrow> db_ok view B d \<Longrightarrow> run_transactions B typed row_size es d = (rs, d') \<Longrightarrow>
     db_ok view B d' \<and> ca_capacity (db_cache d') = ca_capacity (db_cache d)
     \<and> store_transactions (\<lambda>v. length (bk_to_vec B v)) typed row_size es (store_of B (db_connection d)) = (rs, store_of B (db_connection d'))"
proof (induction es arbitrary: d rs)
  case (Cons e es)
  obtain r u where u: "run_transaction B (edit_db B typed row_size (fst e)) (snd e) d = (r, u)" by force
  with Cons.prems(3) obtain rs' where rs: "run_transactions B typed row_size es u = (rs', d')" "rs = r # rs'"
    by (auto split: prod.splits)
  note ok = run_transaction_ok [OF assms _ Cons.prems(2) u] and cap = run_transaction_capacity [OF u]
  from Cons.IH [OF _ _ rs(1)] ok Cons.prems(1) cap rs(2) show ?case
    by (auto split: sum.splits)
qed simp

subsection \<open>Pages\<close>

lemma read_from_end:
  "st_lists s list = Some (sv_kind K, cells) \<Longrightarrow> read_from K list (length cells) s = Inr (items, s') \<Longrightarrow> items = []"
  by (simp add: read_from_Inr map_filter_simps)

lemma read_page_of:
  assumes "st_lists s list = Some (sv_kind K, cells)" and "read_from K list start s = Inr (items, s')" and "start \<le> length cells"
    and "length cells \<le> u64_max"
  obtains page rest where "read_page K list start page_size s = Inr (page, s)"
    "pg_start page = start" "pg_end page = min (saturating_add start page_size) (length cells)"
    "pg_next page = (if pg_end page < length cells then Some (pg_end page) else None)"
    "read_from K list (pg_end page) s = Inr (rest, s)" "items = pg_items page @ rest"
proof -
  let ?stop = "min (saturating_add start page_size) (length cells)"
  let ?vs = "\<lambda>cs. List.map_filter (\<lambda>c. c) cs"
  have le: "start \<le> ?stop" using assms(3,4) by (simp add: saturating_add_def)
  have d: "drop start cells = take (?stop - start) (drop start cells) @ drop ?stop cells"
    using le append_take_drop_id [of "?stop - start" "drop start cells"] by simp
  have "?vs (drop start cells) = ?vs (take (?stop - start) (drop start cells)) @ ?vs (drop ?stop cells)"
    by (metis d map_filter_append)
  moreover have "map (sv_dec K) (?vs (drop start cells)) = map Some items" using assms(1,2) by (simp add: read_from_Inr)
  ultimately have m: "map (sv_dec K) (?vs (take (?stop - start) (drop start cells)) @ ?vs (drop ?stop cells)) = map Some items"
    by (simp only:)
  obtain xs ys where xy: "items = xs @ ys" "map (sv_dec K) (?vs (take (?stop - start) (drop start cells))) = map Some xs"
    "map (sv_dec K) (?vs (drop ?stop cells)) = map Some ys"
    using m [unfolded map_append append_eq_map_conv] by (elim exE conjE) simp
  let ?page = "\<lparr>pg_start = start, pg_items = xs, pg_end = ?stop, pg_next = (if ?stop < length cells then Some ?stop else None)\<rparr>"
  have "mapS (decode K) (?vs (take (?stop - start) (drop start cells))) s = Inr (xs, s)" using xy(2) by (simp add: mapS_decode_Inr)
  then have "read_page K list start page_size s = Inr (?page, s)"
    using assms(1,3) by (simp add: read_page_def bindS_def list_cells_def returnS_def Let_def page_size_def)
  moreover have "read_from K list ?stop s = Inr (ys, s)" using assms(1) xy(3) by (simp add: read_from_Inr)
  ultimately show thesis using xy(1) by (intro that [of ?page ys]) simp_all
qed

lemma take_pages_run:
  assumes "lru_laws view (bk_lru B)" and "storable B K"
  shows "db_ok view B d \<Longrightarrow> st_lists (store_of B (db_connection d)) list = Some (sv_kind K, cells) \<Longrightarrow>
     read_from K list start (store_of B (db_connection d)) = Inr (items, s) \<Longrightarrow> start \<le> length cells \<Longrightarrow>
     length cells - start < n * page_size \<Longrightarrow>
     \<exists>pages d'. take_pages B K list (Suc n) (d, Some start) = Some (map Inr pages, d') \<and> concat (map pg_items pages) = items
       \<and> (\<forall>page \<in> set pages. pg_end page - pg_start page \<le> page_size)
       \<and> db_ok view B d' \<and> store_of B (db_connection d') = store_of B (db_connection d)"
proof (induction n arbitrary: start items d s)
  case (Suc n)
  let ?s = "store_of B (db_connection d)"
  have i64: "length cells \<le> i64_max"
  proof -
    from Suc.prems(1,2) obtain len where "wish_lists (db_connection d) list = Some (sv_kind K, len)" "length cells = len" by auto
    with tables_okD(3) Suc.prems(1) show ?thesis unfolding db_ok_def items_ok_def by blast
  qed
  then have le: "start \<le> i64_max" using Suc.prems(4) by simp
  from i64 have "length cells \<le> u64_max" by (simp add: i64_max_def u64_max_def)
  then obtain page rest where p: "read_page K list start page_size ?s = Inr (page, ?s)" "pg_start page = start"
    "pg_end page = min (saturating_add start page_size) (length cells)"
    "pg_next page = (if pg_end page < length cells then Some (pg_end page) else None)"
    "read_from K list (pg_end page) ?s = Inr (rest, ?s)" "items = pg_items page @ rest"
    using read_page_of [OF Suc.prems(2-4)] by blast
  have stop: "pg_end page = min (start + page_size) (length cells)"
    using le unfolding p(3) by (simp add: saturating_add_def page_size_def i64_max_def u64_max_def)
  obtain r d' where r: "run_transaction B (db_read_page B K list start page_size) True d = (r, d')" by force
  with run_simulated [OF assms(1) simulates_read_page [OF assms] Suc.prems(1) r] p(1)
  have d': "r = Inr page" "db_ok view B d'" "store_of B (db_connection d') = ?s" by simp_all
  show ?case
  proof (cases "start = length cells")
    case True
    have "items = []" using read_from_end [OF Suc.prems(2)] Suc.prems(3) True by simp
    then show ?thesis using r d' p(2) stop True by (intro exI [of _ "[]"] exI [of _ d']) (simp add: pages_next_def)
  next
    case False
    then have ne: "start \<noteq> pg_end page" using stop Suc.prems(4) by (simp add: page_size_def)
    have short: "pg_end page - pg_start page \<le> page_size" using stop p(2) by simp
    show ?thesis
    proof (cases "pg_end page < length cells")
      case True
      then have e: "pg_end page = start + page_size" using stop by simp
      have "\<exists>pages d''. take_pages B K list (Suc n) (d', Some (pg_end page)) = Some (map Inr pages, d'') \<and> concat (map pg_items pages) = rest
          \<and> (\<forall>page \<in> set pages. pg_end page - pg_start page \<le> page_size)
          \<and> db_ok view B d'' \<and> store_of B (db_connection d'') = store_of B (db_connection d')"
        using True Suc.prems(2,5) p(5) e d' by (intro Suc.IH) simp_all
      then obtain pages d'' where "take_pages B K list (Suc n) (d', Some (pg_end page)) = Some (map Inr pages, d'')"
        "concat (map pg_items pages) = rest" "\<forall>page \<in> set pages. pg_end page - pg_start page \<le> page_size"
        "db_ok view B d''" "store_of B (db_connection d'') = ?s" using d'(3) by auto
      with r d'(1) p(2,4,6) ne True short show ?thesis
        by (intro exI [of _ "page # pages"] exI [of _ d'']) (simp add: pages_next_def)
    next
      case False
      then have "pg_end page = length cells" using stop by simp
      then have "rest = []" using read_from_end [OF Suc.prems(2)] p(5) by simp
      with r d' p(2,4,6) ne False short show ?thesis
        by (intro exI [of _ "[page]"] exI [of _ d']) (simp add: pages_next_def)
    qed
  qed
qed simp

subsection \<open>Properties\<close>

text \<open>
  C36: one transaction. Whatever a client asks for, the database answers what the store of plain
  objects and lists answers: the same result or the same error. What a committed edit leaves in the
  tables is what it leaves in the store; an edit that fails, or is not to be committed, leaves the
  tables as they were. And the cache stays true: it holds no value the tables do not hold, keeps
  count of the bytes it has, and has no more of them than it may.
\<close>

theorem transaction_refines_store:
  assumes "lru_laws view (bk_lru B)" and "encoding_laws B typed" and "edit_typed typed e" and "db_ok view B d"
    and "run_transaction B (edit_db B typed row_size e) commit d = (r, d')"
  shows "db_ok view B d'
     \<and> (case edit_store (\<lambda>v. length (bk_to_vec B v)) typed row_size e (store_of B (db_connection d)) of
          Inl err \<Rightarrow> r = Inl err \<and> store_of B (db_connection d') = store_of B (db_connection d)
        | Inr (x, s') \<Rightarrow> r = Inr x
            \<and> store_of B (db_connection d') = (if commit then s' else store_of B (db_connection d)))"
  by (rule run_transaction_ok [OF assms])

text \<open>
  C37: a database from its opening on. Any transactions run one after the other on a new database give
  the results the plain store gives from its empty state, and the cache never outgrows its capacity.
\<close>

theorem database_implements_store:
  assumes "lru_laws view (bk_lru B)" and "encoding_laws B typed" and "\<forall>e \<in> set es. edit_typed typed (fst e)"
  shows "fst (run_transactions B typed row_size es (database_open B capacity))
       = fst (store_transactions (\<lambda>v. length (bk_to_vec B v)) typed row_size es empty_store)
     \<and> held_weight (view (ca_values (db_cache (snd (run_transactions B typed row_size es (database_open B capacity)))))) \<le> capacity"
proof -
  obtain rs d where r: "run_transactions B typed row_size es (database_open B capacity) = (rs, d)" by force
  note o = database_open_ok [OF assms(1), of capacity]
  from run_transactions_ok [OF assms o(1) r] o(2) r show ?thesis
    by (simp add: db_ok_def cache_fits_def) (simp add: database_open_def cache_new_def)
qed

text \<open>
  C38: a list read page by page. Taking pages from a position of the list on comes to an end, after
  one round for every page and one to find that there is no more, and the pages together hold the
  items from there to the end, in order, each page at most 128 positions; no error comes up on the way.
\<close>

theorem pages_reach_the_end:
  assumes "lru_laws view (bk_lru B)" and "storable B K" and "db_ok view B d"
    and "list_len K list (store_of B (db_connection d)) = Inr (len, s)"
    and "read_from K list start (store_of B (db_connection d)) = Inr (items, s')" and "start \<le> len"
  shows "\<exists>pages d'. take_pages B K list ((len - start) div page_size + 2) (d, Some start) = Some (map Inr pages, d')
     \<and> concat (map pg_items pages) = items \<and> (\<forall>page \<in> set pages. pg_end page - pg_start page \<le> page_size)
     \<and> db_ok view B d' \<and> store_of B (db_connection d') = store_of B (db_connection d)"
proof -
  from assms(4) obtain cells where c: "st_lists (store_of B (db_connection d)) list = Some (sv_kind K, cells)" "len = length cells"
    unfolding list_len_Inr by blast
  have "length cells - start < ((len - start) div page_size + 1) * page_size"
    using dividend_less_div_times [of page_size "len - start"] by (simp add: c(2) page_size_def)
  from take_pages_run [OF assms(1-3) c(1) assms(5) assms(6) [unfolded c(2)] this] show ?thesis by simp
qed

subsection \<open>Witnesses\<close>

definition sample_lru :: "((cache_key \<times> 'v cached_value) list, 'v) lru" where
  "sample_lru = \<lparr>lru_unbounded = [],
     lru_len = (\<lambda>l. length (remdups (map fst l))),
     lru_get = (\<lambda>k l. (map_of l k, case map_of l k of None \<Rightarrow> l | Some w \<Rightarrow> (k, w) # filter (\<lambda>(j, _). j \<noteq> k) l)),
     lru_pop = (\<lambda>k l. (map_of l k, filter (\<lambda>(j, _). j \<noteq> k) l)),
     lru_pop_lru = (\<lambda>l. if l = [] then (None, []) else
       (Some (fst (last l), the (map_of l (fst (last l)))), filter (\<lambda>(j, _). j \<noteq> fst (last l)) l)),
     lru_put = (\<lambda>k w l. (k, w) # filter (\<lambda>(j, _). j \<noteq> k) l),
     lru_clear = (\<lambda>_. [])\<rparr>"

lemma sample_lru_laws: "lru_laws map_of sample_lru"
proof -
  have f: "map_of (filter (\<lambda>(j, _). j \<noteq> k) l) = (map_of l)(k := None)" for k :: cache_key and l :: "(cache_key \<times> 'v cached_value) list"
    by (rule ext) (simp add: map_of_filter_key)
  have len: "length (remdups (map fst l)) = card (dom (map_of l))" for l :: "(cache_key \<times> 'v cached_value) list"
    by (simp add: dom_map_of_conv_image_fst length_remdups_card_conv)
  have last: "map_of l (fst (last l)) = Some (the (map_of l (fst (last l))))" if "l \<noteq> []" for l :: "(cache_key \<times> 'v cached_value) list"
    using that by (metis last_in_set map_of_eq_None_iff option.collapse imageI)
  show ?thesis
    unfolding lru_laws_def sample_lru_def
    using last by (auto simp: f len finite_dom_map_of fun_eq_iff split: option.split)
qed

definition sample_typed :: "string \<Rightarrow> string \<times> string \<Rightarrow> bool" where
  "sample_typed k v \<longleftrightarrow> fst v = k"

definition sample_backend :: "((cache_key \<times> (string \<times> string) cached_value) list, string \<times> string) backend" where
  "sample_backend = \<lparr>bk_lru = sample_lru, bk_to_vec = (\<lambda>v. CHR ''x'' # snd v),
     bk_from_slice = (\<lambda>k b. case b of CHR ''x'' # p \<Rightarrow> Some (k, p) | _ \<Rightarrow> None)\<rparr>"

lemma sample_encoding_laws: "encoding_laws sample_backend sample_typed"
  unfolding encoding_laws_def sample_backend_def sample_typed_def by (auto split: list.splits char.splits bool.splits)

definition sample_edit :: "(string \<times> string, nat) edit" where
  "sample_edit = Ask (CreateList ''log'' ''s/1'') (\<lambda>_. Ask (AppendItems ''log'' ''s/1'' [(''log'', ''a''), (''log'', ''b'')])
     (\<lambda>_. Ask (RemoveItem ''log'' ''s/1'' 0) (\<lambda>_. Ask (ReadFrom ''log'' ''s/1'' 0)
     (\<lambda>a. case a of Items vs \<Rightarrow> Finish (length vs) | _ \<Rightarrow> Fail Sqlite))))"

lemma sample_edit_typed: "edit_typed sample_typed sample_edit"
  by (simp add: sample_edit_def sample_typed_def split: store_answer.split)

lemma sample_edit_run:
  obtains s where
    "edit_store (\<lambda>v. length (bk_to_vec sample_backend v)) sample_typed (\<lambda>_. 0) sample_edit empty_store = Inr (1, s)"
    "edit_store (\<lambda>v. length (bk_to_vec sample_backend v)) sample_typed (\<lambda>_. 0) sample_edit s = Inl (AlreadyExists ''s/1'')"
    "st_lists s ''s/1'' = Some (''log'', [Some (''log'', ''b'')])"
  by (simp add: sample_edit_def empty_store_def kind_value_def create_list_def append_items_def remove_item_def read_from_def
    list_cells_def put_cells_def bindS_def thenS_def returnS_def modifyS_def i64_max_def remove_at_def decode_def expectS_def
    sample_typed_def map_filter_simps)

lemma sample_laws: "lru_laws map_of (bk_lru sample_backend)"
  by (simp add: sample_backend_def sample_lru_laws)

theorem transaction_refines_store_witness:
  "fst (run_transaction sample_backend (edit_db sample_backend sample_typed (\<lambda>_. 0) sample_edit) True (database_open sample_backend 1000)) = Inr 1"
proof -
  note o = database_open_ok [OF sample_laws, of 1000]
  obtain s where "edit_store (\<lambda>v. length (bk_to_vec sample_backend v)) sample_typed (\<lambda>_. 0) sample_edit empty_store = Inr (1, s)"
    by (rule sample_edit_run)
  with transaction_refines_store [OF sample_laws sample_encoding_laws sample_edit_typed o(1) prod.collapse [symmetric],
      of "\<lambda>_. 0" True]
  show ?thesis unfolding o(2) by auto
qed

theorem database_implements_store_witness:
  "fst (run_transactions sample_backend sample_typed (\<lambda>_. 0) [(sample_edit, False), (sample_edit, True), (sample_edit, True)]
     (database_open sample_backend 1000)) = [Inr 1, Inr 1, Inl (AlreadyExists ''s/1'')]"
proof -
  obtain s where s: "edit_store (\<lambda>v. length (bk_to_vec sample_backend v)) sample_typed (\<lambda>_. 0) sample_edit empty_store = Inr (1, s)"
    "edit_store (\<lambda>v. length (bk_to_vec sample_backend v)) sample_typed (\<lambda>_. 0) sample_edit s = Inl (AlreadyExists ''s/1'')"
    by (rule sample_edit_run)
  from database_implements_store [OF sample_laws sample_encoding_laws,
      of "[(sample_edit, False), (sample_edit, True), (sample_edit, True)]" "\<lambda>_. 0" 1000] sample_edit_typed s
  show ?thesis by simp
qed

theorem pages_reach_the_end_witness:
  "\<exists>pages d'. take_pages sample_backend (kind_value sample_typed ''log'') ''s/1'' 2
       (snd (run_transaction sample_backend (edit_db sample_backend sample_typed (\<lambda>_. 0) sample_edit) True (database_open sample_backend 1000)), Some 0)
     = Some (map Inr pages, d') \<and> concat (map pg_items pages) = [(''log'', ''b'')]"
proof -
  let ?K = "kind_value sample_typed ''log''"
  let ?d = "snd (run_transaction sample_backend (edit_db sample_backend sample_typed (\<lambda>_. 0) sample_edit) True (database_open sample_backend 1000))"
  note o = database_open_ok [OF sample_laws, of 1000]
  obtain s where s: "edit_store (\<lambda>v. length (bk_to_vec sample_backend v)) sample_typed (\<lambda>_. 0) sample_edit empty_store = Inr (1, s)"
    "st_lists s ''s/1'' = Some (''log'', [Some (''log'', ''b'')])"
    by (rule sample_edit_run)
  from run_transaction_ok [OF sample_laws sample_encoding_laws sample_edit_typed o(1) prod.collapse [symmetric], of "\<lambda>_. 0" True] s(1)
  have d: "db_ok map_of sample_backend ?d" "store_of sample_backend (db_connection ?d) = s" unfolding o(2) by simp_all
  have "list_len ?K ''s/1'' s = Inr (1, s)" "read_from ?K ''s/1'' 0 s = Inr ([(''log'', ''b'')], s)"
    using s(2) by (auto simp: list_len_Inr read_from_Inr kind_value_def sample_typed_def map_filter_simps)
  moreover have "(1 - 0) div page_size + 2 = 2" by (simp add: page_size_def)
  ultimately show ?thesis
    using pages_reach_the_end [OF sample_laws encoding_storable [OF sample_encoding_laws] d(1), of "''log''" "''s/1''" 1 s 0]
    unfolding d(2) by (metis zero_le)
qed

end
