(* ===== verification/Executor_Tools.thy ===== *)
theory Executor_Tools
  imports Session_Contracts Storage_Db "HOL-Library.Sublist"
begin

text \<open>
  The executor's tool batches (\<open>executor/tool.rs\<close>) and the delivery of committed events to a run's
  observer (\<open>executor/observe.rs\<close>).

  A batch is executed while the world goes on: the run may be cancelled, senders work on the queue of
  the session, and tools take their time. The record \<open>exec_env\<close> says what the world does, by the
  number of looks at it so far: a look is a reading of the cancellation, of the clock, or a wait. The
  trait \<open>ToolExecutor\<close> is a parameter of the code and of the model. The state keeps, for the
  statements, a trace of the calls handed to tools, with whether the stored batch says by then that the
  call was started, and of the outcomes recorded.
\<close>

record exec_env =
  ee_cancelled :: "nat \<Rightarrow> bool"
  ee_clock :: "nat \<Rightarrow> timestamp"
  ee_senders :: "nat \<Rightarrow> (timestamp \<times> operation) list"
  ee_accepts_unadvertised_call :: "string \<Rightarrow> bool"
  ee_execute :: "tool_call \<Rightarrow> nat \<Rightarrow> tool_outcome"
  ee_polled :: "nat \<Rightarrow> nat list"
  ee_first_ready :: "nat \<Rightarrow> nat"

datatype tool_trace = Executed tool_call bool | Recorded tool_call tool_outcome

record exec_state =
  xs_session :: session
  xs_delivered :: nat
  xs_observed :: "session_event list"
  xs_looks :: nat
  xs_trace :: "tool_trace list"

type_synonym 'a exec_op = "(session_error, exec_state, 'a) st"

subsection \<open>The world\<close>

text \<open>What the senders of a session may do beside its owner; a call of theirs that fails changes nothing.\<close>

fun is_sender :: "operation \<Rightarrow> bool" where
  "is_sender (EnqueueMessage _) = True"
| "is_sender (RecordApplicationEvent _) = True"
| "is_sender (RecordApplicationInput _ _) = True"
| "is_sender (EnqueueInstructionUpdate _ _ _) = True"
| "is_sender (MoveQueuedInput _ _) = True"
| "is_sender (CancelQueuedInput _) = True"
| "is_sender _ = False"

fun perform_senders :: "(timestamp \<times> operation) list \<Rightarrow> session \<Rightarrow> session" where
  "perform_senders [] s = s"
| "perform_senders ((now, op) # ops) s =
     (if is_sender op then case perform now op s of Inl _ \<Rightarrow> perform_senders ops s | Inr (_, s') \<Rightarrow> perform_senders ops s'
      else perform_senders ops s)"

definition look :: "exec_env \<Rightarrow> nat exec_op" where
  "look env = (\<lambda>x. Inr (xs_looks x, x\<lparr>xs_looks := Suc (xs_looks x),
     xs_session := perform_senders (ee_senders env (xs_looks x)) (xs_session x)\<rparr>))"

definition is_cancelled :: "exec_env \<Rightarrow> bool exec_op" where
  "is_cancelled env = bindS (look env) (\<lambda>n. returnS (ee_cancelled env n))"

definition on_session :: "exec_env \<Rightarrow> (timestamp \<Rightarrow> 'a session_op) \<Rightarrow> 'a exec_op" where
  "on_session env op = bindS (look env) (\<lambda>n x. case op (ee_clock env n) (xs_session x) of
     Inl e \<Rightarrow> Inl e
   | Inr (r, s) \<Rightarrow> Inr (r, x\<lparr>xs_session := s\<rparr>))"

definition note_trace :: "tool_trace \<Rightarrow> unit exec_op" where
  "note_trace what = modifyS (\<lambda>x. x\<lparr>xs_trace := xs_trace x @ [what]\<rparr>)"

definition marked_started :: "tool_call \<Rightarrow> session \<Rightarrow> bool" where
  "marked_started call s = (case sr_state (se_record s) of
     ExecutingTools _ batch \<Rightarrow>
       (case st_lists (se_store s) batch of
          None \<Rightarrow> False
        | Some (_, cells) \<Rightarrow> list_ex (\<lambda>cell. case cell of Some (StTool x) \<Rightarrow> te_call x = call \<and> te_started x | _ \<Rightarrow> False) cells)
   | _ \<Rightarrow> False)"

definition hand_to_tool :: "tool_call \<Rightarrow> unit exec_op" where
  "hand_to_tool call =
     bindS (getS (\<lambda>x. marked_started call (xs_session x))) (\<lambda>marked. note_trace (Executed call marked))"

subsection \<open>Events\<close>

definition is_stream_event :: "session_event \<Rightarrow> bool" where
  "is_stream_event event = (case event of ModelStream _ \<Rightarrow> True | _ \<Rightarrow> False)"

text \<open>The events of a page of history records, those that stream left out.\<close>

fun page_events :: "session \<Rightarrow> history_record list \<Rightarrow> session_error + session_event list" where
  "page_events s [] = Inr []"
| "page_events s (r # rs) =
     bindR (case hr_item r of
         ItemMessage _ \<Rightarrow> Inr []
       | ItemEvent id' \<Rightarrow>
           (case get_item kind_event (sr_events (se_record s)) id' (se_store s) of
              Inl e \<Rightarrow> Inl (Storage e)
            | Inr (None, _) \<Rightarrow> Inl (Storage (Corrupt ''missing event''))
            | Inr (Some event, _) \<Rightarrow> Inr (if is_stream_event event then [] else [event]))) (\<lambda>es.
     bindR (page_events s rs) (\<lambda>rest. Inr (es @ rest)))"

text \<open>
  The pages of the history from a position on, as one step; \<open>n\<close> bounds the rounds, and a round takes
  at least one record of the history, so that its length is enough.
\<close>

fun deliver_pages :: "session \<Rightarrow> nat \<Rightarrow> nat \<Rightarrow> session_error + session_event list \<times> nat" where
  "deliver_pages s 0 pos = Inr ([], pos)"
| "deliver_pages s (Suc n) pos =
     (case read_page kind_history (sr_history (se_record s)) pos page_size (se_store s) of
        Inl e \<Rightarrow> Inl (Storage e)
      | Inr (page, _) \<Rightarrow>
          if pg_start page = pg_end page then Inr ([], pos)
          else bindR (page_events s (pg_items page)) (\<lambda>es.
            case pg_next page of
              None \<Rightarrow> Inr (es, pg_end page)
            | Some start \<Rightarrow> bindR (deliver_pages s n start) (\<lambda>(rest, pos). Inr (es @ rest, pos))))"

definition deliver_new_events :: "unit exec_op" where
  "deliver_new_events = (\<lambda>x.
     case list_len kind_history (sr_history (se_record (xs_session x))) (se_store (xs_session x)) of
       Inl e \<Rightarrow> Inl (Storage e)
     | Inr (len, _) \<Rightarrow>
         (case deliver_pages (xs_session x) (Suc len) (xs_delivered x) of
            Inl e \<Rightarrow> Inl e
          | Inr (es, pos) \<Rightarrow> Inr ((), x\<lparr>xs_observed := xs_observed x @ es, xs_delivered := pos\<rparr>)))"

definition record_and_deliver :: "exec_env \<Rightarrow> session_event \<Rightarrow> unit exec_op" where
  "record_and_deliver env event =
     bindS (look env) (\<lambda>n.
     thenS (on_session env (\<lambda>now. record_events now [(ee_clock env n, event)])) deliver_new_events)"

subsection \<open>One call\<close>

definition is_registered :: "tool_call \<Rightarrow> bool exec_op" where
  "is_registered call = getS (\<lambda>x. list_ex (\<lambda>tool. tool_name tool = tc_name call) (cf_tools (sr_config (se_record (xs_session x)))))"

definition unknown_tool :: "tool_call \<Rightarrow> tool_outcome" where
  "unknown_tool call = Failed (''unknown tool: '' @ tc_name call)"

definition deferred :: tool_outcome where
  "deferred = Report (''Not executed: earlier work continues in background and new input is waiting. ''
       @ ''Reconsider this call after reading the new input.'')
     (JObject [(''status'', JString ''deferred''), (''executed'', JBool False)]) JNull False"

definition yields_for_input :: "tool_outcome \<Rightarrow> bool" where
  "yields_for_input outcome = (case outcome of
     Report _ output _ _ \<Rightarrow> json_get output ''yielded_for_input'' = Some (JBool True)
   | _ \<Rightarrow> False)"

definition is_unknown :: "tool_outcome \<Rightarrow> bool" where
  "is_unknown outcome = (case outcome of Unknown _ \<Rightarrow> True | _ \<Rightarrow> False)"

text \<open>A started call that reaches the tool: what the tool answers is looked up when it is done.\<close>

definition execute_call :: "exec_env \<Rightarrow> tool_call \<Rightarrow> tool_outcome exec_op" where
  "execute_call env call =
     thenS (hand_to_tool call) (bindS (look env) (\<lambda>n. returnS (ee_execute env call n)))"

definition start_and_deliver :: "exec_env \<Rightarrow> tool_call \<Rightarrow> unit exec_op" where
  "start_and_deliver env call = thenS (on_session env (\<lambda>now. start_tool now call)) deliver_new_events"

definition settle_call :: "exec_env \<Rightarrow> tool_call \<Rightarrow> tool_outcome \<Rightarrow> unit exec_op" where
  "settle_call env call outcome =
     thenS (on_session env (\<lambda>now. accept_tool_outcome now call outcome))
    (thenS (note_trace (Recorded call outcome)) deliver_new_events)"

subsection \<open>One after the other\<close>

definition serial_outcome :: "exec_env \<Rightarrow> tool_call \<Rightarrow> bool \<Rightarrow> bool \<Rightarrow> tool_outcome exec_op" where
  "serial_outcome env call unknown yielded =
     bindS (if unknown then returnS True else is_cancelled env) (\<lambda>stop.
     if stop then returnS Cancelled
     else if yielded then returnS deferred
     else bindS (is_registered call) (\<lambda>registered.
       if \<not> registered \<and> \<not> ee_accepts_unadvertised_call env (tc_name call) then returnS (unknown_tool call)
       else thenS (start_and_deliver env call)
         (bindS (is_cancelled env) (\<lambda>cancelled.
          if cancelled then returnS Cancelled else execute_call env call))))"

fun serial_tools :: "exec_env \<Rightarrow> tool_call list \<Rightarrow> bool \<Rightarrow> bool \<Rightarrow> unit exec_op" where
  "serial_tools env [] unknown yielded = returnS ()"
| "serial_tools env (call # calls) unknown yielded =
     bindS (serial_outcome env call unknown yielded) (\<lambda>outcome.
     thenS (settle_call env call outcome)
       (serial_tools env calls (unknown \<or> is_unknown outcome) (yielded \<or> yields_for_input outcome)))"

subsection \<open>Several at a time\<close>

definition max_parallel_tools :: nat where "max_parallel_tools = 8"

text \<open>
  A future of \<open>FuturesUnordered\<close>: not polled yet, waiting for its tool, or ready. The world says which
  futures are polled in a round and which one is ready first.
\<close>

datatype future_state = Unpolled | Running | Done tool_outcome

record tool_future =
  tf_call :: tool_call
  tf_registered :: bool
  tf_state :: future_state

definition poll :: "exec_env \<Rightarrow> tool_future \<Rightarrow> tool_future exec_op" where
  "poll env f = (case tf_state f of
     Unpolled \<Rightarrow>
       bindS (is_cancelled env) (\<lambda>cancelled.
       if cancelled then returnS (f\<lparr>tf_state := Done Cancelled\<rparr>)
       else if \<not> tf_registered f then returnS (f\<lparr>tf_state := Done (unknown_tool (tf_call f))\<rparr>)
       else thenS (hand_to_tool (tf_call f)) (returnS (f\<lparr>tf_state := Running\<rparr>)))
   | _ \<Rightarrow> returnS f)"

fun poll_some :: "exec_env \<Rightarrow> nat list \<Rightarrow> tool_future list \<Rightarrow> tool_future list exec_op" where
  "poll_some env [] fs = returnS fs"
| "poll_some env (i # is) fs =
     (if i < length fs then bindS (poll env (fs ! i)) (\<lambda>f. poll_some env is (fs[i := f])) else poll_some env is fs)"

definition next_ready :: "exec_env \<Rightarrow> tool_future list \<Rightarrow> (tool_call \<times> tool_outcome \<times> tool_future list) exec_op" where
  "next_ready env fs =
     bindS (look env) (\<lambda>n.
     bindS (poll_some env (ee_polled env n) fs) (\<lambda>fs.
     let i = ee_first_ready env n mod length fs in
     bindS (poll env (fs ! i)) (\<lambda>f.
     bindS (look env) (\<lambda>m.
     returnS (tf_call f,
       (case tf_state f of Done outcome \<Rightarrow> outcome | _ \<Rightarrow> ee_execute env (tf_call f) m),
       remove_at i fs)))))"

fun admit :: "exec_env \<Rightarrow> tool_call list \<Rightarrow> tool_future list \<Rightarrow> (tool_call list \<times> tool_future list) exec_op" where
  "admit env [] fs = returnS ([], fs)"
| "admit env (call # calls) fs =
     (if length fs < max_parallel_tools
      then bindS (is_registered call) (\<lambda>registered.
        let registered = registered \<or> ee_accepts_unadvertised_call env (tc_name call) in
        bindS (if registered then is_cancelled env else returnS True) (\<lambda>hold.
        thenS (if hold then returnS () else start_and_deliver env call)
          (admit env calls (fs @ [\<lparr>tf_call = call, tf_registered = registered, tf_state = Unpolled\<rparr>]))))
      else returnS (call # calls, fs))"

text \<open>A round settles one call, so that one more round than there are calls is enough.\<close>

fun parallel_tools :: "exec_env \<Rightarrow> nat \<Rightarrow> tool_call list \<Rightarrow> tool_future list \<Rightarrow> unit exec_op" where
  "parallel_tools env 0 calls fs = returnS ()"
| "parallel_tools env (Suc n) calls fs =
     bindS (admit env calls fs) (\<lambda>(calls, fs).
     if fs = [] then returnS ()
     else bindS (next_ready env fs) (\<lambda>(call, outcome, fs).
       thenS (settle_call env call outcome) (parallel_tools env n calls fs)))"

definition execute_tools :: "exec_env \<Rightarrow> tool_call list \<Rightarrow> unit exec_op" where
  "execute_tools env calls =
     bindS (getS (\<lambda>x. ro_tools (cf_run (sr_config (se_record (xs_session x)))))) (\<lambda>mode.
     case mode of
       Serial \<Rightarrow> serial_tools env calls False False
     | Parallel \<Rightarrow> parallel_tools env (Suc (length calls)) calls [])"

subsection \<open>What the world leaves alone\<close>

lemma sender_transact:
  assumes "session_view v s" and "transact now m s = Inr (x, s')" and "steps same_record m" and "steps evolves m"
    and "\<And>t. shows_view v (begin_tx (se_record s) now s) \<Longrightarrow> m (begin_tx (se_record s) now s) = Inr (x, t) \<Longrightarrow>
       \<exists>q. shows_view (see_queue q v) t"
  shows "\<exists>q. session_view (see_queue q v) s'"
  using session_view_transact [OF assms(1-4)] assms(5) by metis

lemma requeue_view:
  assumes "shows_view v s" "only_list (sr_queue (tx_record s)) s t" "waiting ids t" "set ids \<subseteq> set (map fst (vw_queue v))"
  shows "\<exists>q. shows_view (see_queue q v) t"
proof -
  let ?q = "map (\<lambda>i. (i, the (map_of (vw_queue v) i))) ids"
  have "(i, the (map_of (vw_queue v) i)) \<in> set (vw_queue v)" if "i \<in> set ids" for i
    using that assms(4) by (metis (no_types, lifting) map_of_SomeD map_of_eq_None_iff option.collapse set_map subsetD)
  then have "set ?q \<subseteq> set (vw_queue v)" by auto
  from view_requeue [OF assms(1,2) _ this] assms(3) show ?thesis by (auto simp: comp_def)
qed

lemma see_queue_same: "shows_view v t \<Longrightarrow> \<exists>q. shows_view (see_queue q v) t"
  by (rule exI [of _ "vw_queue v"]) (simp add: see_queue_def)

lemma sender_input:
  assumes "session_view v s" "transact now (thenS n (append_input m)) s = Inr (x, s')"
    and "steps unseen n" "steps same_record n" "steps evolves n"
  shows "\<exists>q. session_view (see_queue q v) s'"
proof (rule sender_transact [OF assms(1,2)])
  show "steps same_record (thenS n (append_input m))" using assms(4) by (intro same_record.steps_thenS) simp_all
  show "steps evolves (thenS n (append_input m))" using assms(5) by (intro ev.steps_thenS) simp_all
  fix t assume v: "shows_view v (begin_tx (se_record s) now s)"
    and "thenS n (append_input m) (begin_tx (se_record s) now s) = Inr (x, t)"
  then obtain y u where u: "n (begin_tx (se_record s) now s) = Inr (y, u)" "append_input m u = Inr (x, t)"
    by (auto simp: thenS_Inr)
  from view_append_input(1) [OF unseen_view [OF stepsD [OF assms(3) u(1)] v] u(2)]
  show "\<exists>q. shows_view (see_queue q v) t" by blast
qed

lemma sender_enqueue:
  assumes "session_view v s" "enqueue_message now m s = Inr (x, s')"
  shows "\<exists>q. session_view (see_queue q v) s'"
proof -
  have eq: "thenS (returnS ()) (append_input m) = append_input m" by (simp add: thenS_def)
  from assms(2) have "transact now (append_input m) s = Inr (x, s')"
    by (auto simp: enqueue_message_def split: if_splits)
  then show ?thesis using sender_input [OF assms(1), of now "returnS ()" m] by (simp add: eq)
qed

lemma sender_move:
  assumes "shows_view v s" "move_pending e b s = Inr (x, t)"
  shows "\<exists>q. shows_view (see_queue q v) t"
proof -
  let ?q = "map fst (vw_queue v)"
  from validD [OF waiting_move_pending shows_view_waiting [OF assms(1)] assms(2)]
  have e: "e \<in> set ?q" and w: "waiting (if b = Some e then ?q else move_in ?q (the (position (\<lambda>x. x = e) ?q)) e b) t"
    by blast+
  from e obtain i where i: "position (\<lambda>x. x = e) ?q = Some i" using position_mem [of e ?q "\<lambda>x. x = e"] by auto
  show ?thesis
    by (rule requeue_view [OF assms(1) only_list_edits(1) [OF assms(2)] w])
      (use mset_eq_setD [OF mset_move_in [OF i, of b]] i in auto)
qed

lemma sender_cancel:
  assumes "shows_view v s" "cancel_pending e s = Inr (x, t)"
  shows "\<exists>q. shows_view (see_queue q v) t"
  by (rule requeue_view [OF assms(1) only_list_edits(2) [OF assms(2)], of "remove1 e (map fst (vw_queue v))"])
    (use validD [OF waiting_cancel_pending shows_view_waiting [OF assms(1)] assms(2)]
        set_remove1_subset [of e "map fst (vw_queue v)"] in auto)

text \<open>A sender changes the queue and nothing else of what a session shows.\<close>

lemma sender_view:
  assumes "session_view v s" and "is_sender op" and "perform now op s = Inr (x, s')"
  shows "\<exists>q. session_view (see_queue q v) s'"
proof (cases op)
  case (EnqueueMessage m)
  with assms(1,3) show ?thesis by (auto simp: discard_def thenS_Inr intro: sender_enqueue)
next
  case (EnqueueInstructionUpdate a b c)
  with assms(1,3) show ?thesis
    by (auto simp: discard_def thenS_Inr enqueue_instruction_update_def intro: sender_enqueue)
next
  case (RecordApplicationEvent e)
  with assms(3) show ?thesis
    by (auto simp: discard_def thenS_Inr record_application_event_def
        intro!: sender_transact [OF assms(1)] intro: see_queue_same unseen_view stepsD [OF unseen_steps(1)])
next
  case (RecordApplicationInput e m)
  with assms(3) show ?thesis
    by (auto simp: discard_def thenS_Inr record_application_input_def split: if_splits intro!: sender_input [OF assms(1)])
next
  case (MoveQueuedInput e b)
  with assms(3) show ?thesis
    by (auto simp: move_queued_input_def intro!: sender_transact [OF assms(1)] intro: sender_move)
next
  case (CancelQueuedInput e)
  with assms(3) show ?thesis
    by (auto simp: cancel_queued_input_def intro!: sender_transact [OF assms(1)] intro: sender_cancel)
qed (use assms(2) in simp_all)

lemma senders_view: "session_view v s \<Longrightarrow> \<exists>q. session_view (see_queue q v) (perform_senders ops s)"
proof (induction ops s arbitrary: v rule: perform_senders.induct)
  case (1 s)
  then show ?case by (intro exI [of _ "vw_queue v"]) (simp add: see_queue_def)
next
  case (2 now op ops s)
  show ?case
  proof (cases "is_sender op \<and> (\<exists>s'. perform now op s = Inr ((), s'))")
    case True
    then obtain s' where s': "is_sender op" "perform now op s = Inr ((), s')" by blast
    from sender_view [OF "2.prems" s'] obtain q where "session_view (see_queue q v) s'" by blast
    from "2.IH"(2) [OF s'(1) _ _ this] s' show ?thesis by (auto simp: see_queue_def)
  next
    case False
    then show ?thesis using "2.IH"(1,3) "2.prems" by (auto split: sum.split)
  qed
qed

subsection \<open>The batch as the executor sees it\<close>

definition at_batch :: "nat \<Rightarrow> list_id \<Rightarrow> message list \<Rightarrow> tool_execution list \<Rightarrow> exec_state \<Rightarrow> bool" where
  "at_batch n b ctx xs x \<longleftrightarrow> (\<exists>q. session_view
     \<lparr>vw_queue = q, vw_context = ctx, vw_state = ExecutingTools n b, vw_batch = xs\<rparr> (xs_session x))"

text \<open>Steps that leave the batch and the trace as they are; the number of looks only grows.\<close>

definition idle_step :: "exec_state \<Rightarrow> exec_state \<Rightarrow> bool" where
  "idle_step x y \<longleftrightarrow> (\<forall>n b ctx xs. at_batch n b ctx xs x \<longrightarrow> at_batch n b ctx xs y)
     \<and> xs_trace y = xs_trace x \<and> xs_looks x \<le> xs_looks y"

lemma idle_step_refl [simp]: "idle_step x x"
  by (simp add: idle_step_def)

lemma idle_step_trans: "idle_step x y \<Longrightarrow> idle_step y z \<Longrightarrow> idle_step x z"
  by (simp add: idle_step_def)

lemma look_Inr: "look env x = Inr (k, y) \<Longrightarrow> idle_step x y \<and> k = xs_looks x \<and> xs_looks y = Suc k"
  using senders_view by (fastforce simp: look_def idle_step_def at_batch_def see_queue_def)

lemma is_cancelled_Inr:
  "is_cancelled env x = Inr (c, y) \<Longrightarrow> idle_step x y \<and> c = ee_cancelled env (xs_looks x) \<and> xs_looks y = Suc (xs_looks x)"
  by (auto simp: is_cancelled_def bindS_Inr dest!: look_Inr)

lemma deliver_new_events_Inr: "deliver_new_events x = Inr (u, y) \<Longrightarrow> idle_step x y"
  by (auto simp: deliver_new_events_def idle_step_def at_batch_def split: sum.splits prod.splits)

lemma is_registered_Inr [simp]: "is_registered call x = Inr (r, y) \<Longrightarrow> y = x"
  by (simp add: is_registered_def)

lemma on_session_Inr:
  assumes "on_session env op x = Inr (r, y)"
  obtains k z s where "look env x = Inr (k, z)" "op (ee_clock env k) (xs_session z) = Inr (r, s)" "y = z\<lparr>xs_session := s\<rparr>"
proof -
  from assms obtain k z where z: "look env x = Inr (k, z)"
    "(case op (ee_clock env k) (xs_session z) of Inl e \<Rightarrow> Inl e | Inr (r, s) \<Rightarrow> Inr (r, z\<lparr>xs_session := s\<rparr>)) = Inr (r, y)"
    unfolding on_session_def bindS_Inr by blast
  then show thesis using that by (cases "op (ee_clock env k) (xs_session z)") auto
qed

lemma on_session_update:
  assumes "on_session env (\<lambda>now. update now (thenS (update_execution call f) (thenS (record_event ev) (returnS ())))) x = Inr (u, y)"
    and "at_batch n b ctx xs x"
  obtains p where "call_position call xs = Some p" "at_batch n b ctx (xs[p := f (xs ! p)]) y" "xs_trace y = xs_trace x"
    "xs_looks x \<le> xs_looks y"
proof -
  from assms(1) obtain k z s where z: "look env x = Inr (k, z)"
    "update (ee_clock env k) (thenS (update_execution call f) (thenS (record_event ev) (returnS ()))) (xs_session z) = Inr (u, s)"
    "y = z\<lparr>xs_session := s\<rparr>"
    by (rule on_session_Inr)
  note l = look_Inr [OF z(1)]
  from l assms(2) have "at_batch n b ctx xs z" by (simp add: idle_step_def)
  then obtain q where v: "session_view \<lparr>vw_queue = q, vw_context = ctx, vw_state = ExecutingTools n b, vw_batch = xs\<rparr> (xs_session z)"
    by (auto simp: at_batch_def)
  from validD [OF session_update_execution v z(2)] z(3) l that show thesis
    by (auto simp: see_batch_def at_batch_def idle_step_def)
qed

lemma start_and_deliver_Inr:
  assumes "start_and_deliver env call x = Inr (u, y)" and "at_batch n b ctx xs x"
  obtains p where "call_position call xs = Some p" "at_batch n b ctx (xs[p := (xs ! p)\<lparr>te_started := True\<rparr>]) y"
    "xs_trace y = xs_trace x" "xs_looks x \<le> xs_looks y"
proof -
  from assms(1) obtain v z where z: "on_session env (\<lambda>now. start_tool now call) x = Inr (v, z)" "deliver_new_events z = Inr (u, y)"
    by (auto simp: start_and_deliver_def thenS_Inr)
  from on_session_update [OF z(1) [unfolded start_tool_def mark_tool_started_def] assms(2)] obtain p where
    "call_position call xs = Some p" "at_batch n b ctx (xs[p := (xs ! p)\<lparr>te_started := True\<rparr>]) z" "xs_trace z = xs_trace x"
    "xs_looks x \<le> xs_looks z" by auto
  with deliver_new_events_Inr [OF z(2)] that show thesis by (auto simp: idle_step_def)
qed

lemma settle_call_Inr:
  assumes "settle_call env call outcome x = Inr (u, y)" and "at_batch n b ctx xs x"
  obtains p where "call_position call xs = Some p" "at_batch n b ctx (xs[p := (xs ! p)\<lparr>te_outcome := Some outcome\<rparr>]) y"
    "xs_trace y = xs_trace x @ [Recorded call outcome]" "xs_looks x \<le> xs_looks y"
proof -
  from assms(1) obtain v z where z: "on_session env (\<lambda>now. accept_tool_outcome now call outcome) x = Inr (v, z)"
    "deliver_new_events (z\<lparr>xs_trace := xs_trace z @ [Recorded call outcome]\<rparr>) = Inr (u, y)"
    by (auto simp: settle_call_def note_trace_def thenS_Inr)
  from on_session_update [OF z(1) [unfolded accept_tool_outcome_def record_tool_outcome_def] assms(2)] obtain p where
    p: "call_position call xs = Some p" "at_batch n b ctx (xs[p := (xs ! p)\<lparr>te_outcome := Some outcome\<rparr>]) z" "xs_trace z = xs_trace x"
    "xs_looks x \<le> xs_looks z" by auto
  from p(2) have "at_batch n b ctx (xs[p := (xs ! p)\<lparr>te_outcome := Some outcome\<rparr>]) (z\<lparr>xs_trace := xs_trace z @ [Recorded call outcome]\<rparr>)"
    by (simp add: at_batch_def)
  with p deliver_new_events_Inr [OF z(2)] that show thesis by (auto simp: idle_step_def)
qed

subsection \<open>Batches that go forward\<close>

text \<open>
  From one batch to a later one: the same calls, what is started stays started, what is settled stays
  settled, and only calls of the given ids change.
\<close>

definition advances :: "string set \<Rightarrow> tool_execution list \<Rightarrow> tool_execution list \<Rightarrow> bool" where
  "advances ids xs ys \<longleftrightarrow> list_all2 (\<lambda>x y. te_call y = te_call x \<and> (te_started x \<longrightarrow> te_started y)
     \<and> (te_outcome x \<noteq> None \<longrightarrow> te_outcome y \<noteq> None) \<and> (tc_call_id (te_call x) \<notin> ids \<longrightarrow> y = x)) xs ys"

definition started :: "tool_call \<Rightarrow> tool_execution list \<Rightarrow> bool" where
  "started call xs \<longleftrightarrow> (\<exists>x \<in> set xs. te_call x = call \<and> te_started x)"

definition settled :: "tool_call \<Rightarrow> tool_execution list \<Rightarrow> bool" where
  "settled call xs \<longleftrightarrow> (\<exists>x \<in> set xs. te_call x = call \<and> te_outcome x \<noteq> None)"

lemma advances_refl [simp]: "advances ids xs xs"
  by (simp add: advances_def list_all2_same)

lemma advances_mono: "advances ids xs ys \<Longrightarrow> ids \<subseteq> ids' \<Longrightarrow> advances ids' xs ys"
  unfolding advances_def by (erule list_all2_mono) auto

lemma advances_trans: "advances ids xs ys \<Longrightarrow> advances ids ys zs \<Longrightarrow> advances ids xs zs"
  unfolding advances_def list_all2_conv_all_nth by auto

lemma advances_calls: "advances ids xs ys \<Longrightarrow> map te_call ys = map te_call xs"
  unfolding advances_def by (induction rule: list_all2_induct) auto

lemma advances_keeps:
  assumes "advances ids xs ys"
  shows "started call xs \<Longrightarrow> started call ys" and "settled call xs \<Longrightarrow> settled call ys"
proof -
  have later: "\<exists>y \<in> set ys. te_call y = te_call x \<and> (te_started x \<longrightarrow> te_started y) \<and> (te_outcome x \<noteq> None \<longrightarrow> te_outcome y \<noteq> None)"
    if "x \<in> set xs" for x
    using assms that unfolding advances_def list_all2_conv_all_nth in_set_conv_nth by (metis nth_mem)
  then show "started call xs \<Longrightarrow> started call ys" and "settled call xs \<Longrightarrow> settled call ys"
    unfolding started_def settled_def by metis+
qed

text \<open>The update of the execution of a call, where the ids of a batch are distinct.\<close>

lemma advances_update:
  assumes "call_position call xs = Some p" and "te_call (f (xs ! p)) = te_call (xs ! p)"
    and "te_started (xs ! p) \<longrightarrow> te_started (f (xs ! p))" and "te_outcome (xs ! p) \<noteq> None \<longrightarrow> te_outcome (f (xs ! p)) \<noteq> None"
  shows "advances {tc_call_id call} xs (xs[p := f (xs ! p)])"
proof -
  have "p < length xs" "tc_call_id (te_call (xs ! p)) = tc_call_id call"
    using position_SomeD [of _ xs p] assms(1) by (auto simp: call_position_def)
  with assms(2-4) show ?thesis by (auto simp: advances_def list_all2_conv_all_nth nth_list_update)
qed

lemma call_position_call:
  assumes "call_position call xs = Some p" and "call \<in> te_call ` set xs" and "distinct (map (tc_call_id \<circ> te_call) xs)"
  shows "p < length xs" and "te_call (xs ! p) = call"
proof -
  from assms(1) show p: "p < length xs" using position_length by (auto simp: call_position_def)
  from assms(2) obtain i where i: "i < length xs" "te_call (xs ! i) = call" by (auto simp: in_set_conv_nth)
  have "tc_call_id (te_call (xs ! p)) = tc_call_id call"
    using position_SomeD [of _ xs p] assms(1) by (auto simp: call_position_def)
  with i p nth_eq_iff_index_eq [OF assms(3), of p i] have "p = i" by simp
  with i(2) show "te_call (xs ! p) = call" by simp
qed

lemma settle_step:
  assumes "settle_call env call outcome x = Inr (u, y)" and "at_batch n b ctx xs x"
    and "call \<in> te_call ` set xs" and "distinct (map (tc_call_id \<circ> te_call) xs)"
  obtains ys where "at_batch n b ctx ys y" "advances {tc_call_id call} xs ys" "settled call ys"
    "xs_trace y = xs_trace x @ [Recorded call outcome]" "xs_looks x \<le> xs_looks y"
proof -
  from settle_call_Inr [OF assms(1,2)] obtain p where p: "call_position call xs = Some p"
    "at_batch n b ctx (xs[p := (xs ! p)\<lparr>te_outcome := Some outcome\<rparr>]) y" "xs_trace y = xs_trace x @ [Recorded call outcome]"
    "xs_looks x \<le> xs_looks y" .
  note c = call_position_call [OF p(1) assms(3,4)]
  have "advances {tc_call_id call} xs (xs[p := (xs ! p)\<lparr>te_outcome := Some outcome\<rparr>])"
    using advances_update [OF p(1), of "\<lambda>x. x\<lparr>te_outcome := Some outcome\<rparr>"] by simp
  moreover have "settled call (xs[p := (xs ! p)\<lparr>te_outcome := Some outcome\<rparr>])"
    unfolding settled_def using c
    by (intro bexI [of _ "(xs ! p)\<lparr>te_outcome := Some outcome\<rparr>"]) (simp_all add: set_update_memI)
  ultimately show thesis using p(2-4) that by blast
qed

lemma start_step:
  assumes "start_and_deliver env call x = Inr (u, y)" and "at_batch n b ctx xs x"
    and "call \<in> te_call ` set xs" and "distinct (map (tc_call_id \<circ> te_call) xs)"
  obtains ys where "at_batch n b ctx ys y" "advances {tc_call_id call} xs ys" "started call ys" "xs_trace y = xs_trace x"
    "xs_looks x \<le> xs_looks y"
proof -
  from start_and_deliver_Inr [OF assms(1,2)] obtain p where p: "call_position call xs = Some p"
    "at_batch n b ctx (xs[p := (xs ! p)\<lparr>te_started := True\<rparr>]) y" "xs_trace y = xs_trace x" "xs_looks x \<le> xs_looks y" .
  note c = call_position_call [OF p(1) assms(3,4)]
  have "advances {tc_call_id call} xs (xs[p := (xs ! p)\<lparr>te_started := True\<rparr>])"
    using advances_update [OF p(1), of "\<lambda>x. x\<lparr>te_started := True\<rparr>"] by simp
  moreover have "started call (xs[p := (xs ! p)\<lparr>te_started := True\<rparr>])"
    unfolding started_def using c by (intro bexI [of _ "(xs ! p)\<lparr>te_started := True\<rparr>"]) (simp_all add: set_update_memI)
  ultimately show thesis using p(2-4) that by blast
qed

lemma hand_to_tool_Inr:
  assumes "hand_to_tool call x = Inr (u, y)" and "at_batch n b ctx xs x" and "started call xs"
  shows "y = x\<lparr>xs_trace := xs_trace x @ [Executed call True]\<rparr>"
proof -
  from assms(2) have "sr_state (se_record (xs_session x)) = ExecutingTools n b"
    "st_lists (se_store (xs_session x)) b = Some (sv_kind kind_tool, map (Some \<circ> StTool) xs)"
    by (auto simp: at_batch_def session_view_def shows_view_def batch_shown_def holds_batch_def as_tx_def)
  with assms(3) have "marked_started call (xs_session x)"
    by (auto simp: marked_started_def started_def list_ex_iff)
  with assms(1) show ?thesis by (simp add: hand_to_tool_def note_trace_def bindS_Inr)
qed

subsection \<open>Traces\<close>

primrec executed :: "tool_trace list \<Rightarrow> tool_call list" where
  "executed [] = []"
| "executed (t # ts) = (case t of Executed c _ \<Rightarrow> c # executed ts | Recorded _ _ \<Rightarrow> executed ts)"

primrec recorded :: "tool_trace list \<Rightarrow> tool_call list" where
  "recorded [] = []"
| "recorded (t # ts) = (case t of Executed _ _ \<Rightarrow> recorded ts | Recorded c _ \<Rightarrow> c # recorded ts)"

definition all_marked :: "tool_trace list \<Rightarrow> bool" where
  "all_marked ts \<longleftrightarrow> list_all (\<lambda>t. case t of Executed _ marked \<Rightarrow> marked | Recorded _ _ \<Rightarrow> True) ts"

lemma all_marked_simps [simp]:
  "all_marked []" "all_marked (ts @ us) \<longleftrightarrow> all_marked ts \<and> all_marked us"
  "all_marked (Executed c marked # ts) \<longleftrightarrow> marked \<and> all_marked ts" "all_marked (Recorded c outcome # ts) \<longleftrightarrow> all_marked ts"
  by (simp_all add: all_marked_def)

lemma trace_append [simp]:
  "executed (ts @ us) = executed ts @ executed us" "recorded (ts @ us) = recorded ts @ recorded us"
  by (induction ts) (auto split: tool_trace.split)

text \<open>
  The trace of calls one after the other: each is recorded, right after it was executed if it was, and
  none is executed once an outcome is unknown.
\<close>

fun serial_trace :: "bool \<Rightarrow> tool_call list \<Rightarrow> tool_trace list \<Rightarrow> bool" where
  "serial_trace unknown [] ts \<longleftrightarrow> ts = []"
| "serial_trace unknown (c # cs) ts \<longleftrightarrow> (\<exists>outcome rest.
     (ts = Recorded c outcome # rest \<or> \<not> unknown \<and> ts = Executed c True # Recorded c outcome # rest)
     \<and> serial_trace (unknown \<or> is_unknown outcome) cs rest)"

lemma serial_trace_calls:
  "serial_trace unknown cs ts \<Longrightarrow> recorded ts = cs \<and> subseq (executed ts) cs \<and> all_marked ts"
  by (induction cs arbitrary: unknown ts) auto

lemma serial_outcome_run:
  assumes "serial_outcome env call unknown yielded x = Inr (outcome, y)" and "at_batch n b ctx xs x"
    and "call \<in> te_call ` set xs" and "distinct (map (tc_call_id \<circ> te_call) xs)"
  obtains ys ts where "at_batch n b ctx ys y" "advances {tc_call_id call} xs ys" "xs_trace y = xs_trace x @ ts"
    "ts = [] \<or> \<not> unknown \<and> ts = [Executed call True]"
proof -
  from assms(1) obtain stop z where z: "(if unknown then returnS True else is_cancelled env) x = Inr (stop, z)"
    and rest: "(if stop then returnS Cancelled else if yielded then returnS deferred
     else bindS (is_registered call) (\<lambda>registered.
       if \<not> registered \<and> \<not> ee_accepts_unadvertised_call env (tc_name call) then returnS (unknown_tool call)
       else thenS (start_and_deliver env call)
         (bindS (is_cancelled env) (\<lambda>cancelled.
          if cancelled then returnS Cancelled else execute_call env call)))) z = Inr (outcome, y)"
    unfolding serial_outcome_def bindS_Inr by blast
  have zx: "idle_step x z" and unk: "unknown \<Longrightarrow> stop"
    using z by (auto split: if_splits dest: is_cancelled_Inr)
  then have zb: "at_batch n b ctx xs z" "xs_trace z = xs_trace x" using assms(2) by (auto simp: idle_step_def)
  show thesis
  proof (cases "y = z")
    case True
    with zb show thesis by (intro that [of xs "[]"]) simp_all
  next
    case False
    with rest have ns: "\<not> stop" "\<not> yielded" by (auto split: if_splits)
    from rest ns False obtain r w u c v where
      w: "start_and_deliver env call z = Inr (u, w)" "is_cancelled env w = Inr (c, v)"
        "(if c then returnS Cancelled else execute_call env call) v = Inr (outcome, y)"
      by (auto simp: bindS_Inr thenS_Inr is_registered_def split: if_splits)
    from start_step [OF w(1) zb(1) assms(3,4)] obtain ys where ys: "at_batch n b ctx ys w" "advances {tc_call_id call} xs ys"
      "started call ys" "xs_trace w = xs_trace z" .
    have vb: "at_batch n b ctx ys v" "xs_trace v = xs_trace x"
      using is_cancelled_Inr [OF w(2)] ys(1,4) zb(2) by (auto simp: idle_step_def)
    show thesis
    proof (cases c)
      case True
      with w(3) vb ys(2) show thesis by (intro that [of ys "[]"]) simp_all
    next
      case False
      with w(3) obtain a v' k where k: "hand_to_tool call v = Inr (a, v')" "look env v' = Inr (k, y)"
        by (auto simp: execute_call_def thenS_Inr bindS_Inr)
      note v' = hand_to_tool_Inr [OF k(1) vb(1) ys(3)]
      have "at_batch n b ctx ys (v\<lparr>xs_trace := xs_trace v @ [Executed call True]\<rparr>)" using vb(1) by (simp add: at_batch_def)
      with look_Inr [OF k(2)] v' vb(2) ys(2,3) unk ns(1) show thesis
        by (intro that [of ys "[Executed call True]"]) (auto simp: idle_step_def)
    qed
  qed
qed

lemma advances_ids:
  assumes "advances ids xs ys"
  shows "map (tc_call_id \<circ> te_call) ys = map (tc_call_id \<circ> te_call) xs" and "te_call ` set ys = te_call ` set xs"
  using arg_cong [OF advances_calls [OF assms], of "map tc_call_id"] arg_cong [OF advances_calls [OF assms], of set]
  by (simp_all add: comp_def)

lemma serial_tools_run:
  assumes "serial_tools env cs unknown yielded x = Inr (u, y)" and "at_batch n b ctx xs x"
    and "set cs \<subseteq> te_call ` set xs" and "distinct (map (tc_call_id \<circ> te_call) xs)"
  shows "\<exists>ys ts. at_batch n b ctx ys y \<and> advances (tc_call_id ` set cs) xs ys \<and> (\<forall>c \<in> set cs. settled c ys)
     \<and> xs_trace y = xs_trace x @ ts \<and> serial_trace unknown cs ts"
  using assms
proof (induction cs arbitrary: unknown yielded x xs)
  case Nil
  then show ?case by (intro exI [of _ xs] exI [of _ "[]"]) simp
next
  case (Cons c cs)
  from Cons.prems(1) obtain outcome z v w where z: "serial_outcome env c unknown yielded x = Inr (outcome, z)"
    "settle_call env c outcome z = Inr (v, w)"
    "serial_tools env cs (unknown \<or> is_unknown outcome) (yielded \<or> yields_for_input outcome) w = Inr (u, y)"
    by (auto simp: bindS_Inr thenS_Inr)
  have c: "c \<in> te_call ` set xs" using Cons.prems(3) by simp
  from serial_outcome_run [OF z(1) Cons.prems(2) c Cons.prems(4)] obtain as t where
    as: "at_batch n b ctx as z" "advances {tc_call_id c} xs as" "xs_trace z = xs_trace x @ t"
      "t = [] \<or> \<not> unknown \<and> t = [Executed c True]" .
  note ia = advances_ids [OF as(2)]
  from settle_step [OF z(2) as(1)] c Cons.prems(4) ia obtain bs where
    bs: "at_batch n b ctx bs w" "advances {tc_call_id c} as bs" "settled c bs" "xs_trace w = xs_trace z @ [Recorded c outcome]"
    by metis
  note ib = advances_ids [OF bs(2)]
  have "set cs \<subseteq> te_call ` set bs" using Cons.prems(3) unfolding ia(2) ib(2) by simp
  moreover have "distinct (map (tc_call_id \<circ> te_call) bs)" using Cons.prems(4) unfolding ia(1) ib(1) .
  ultimately obtain ys ts where
    ys: "at_batch n b ctx ys y" "advances (tc_call_id ` set cs) bs ys" "\<forall>c \<in> set cs. settled c ys" "xs_trace y = xs_trace w @ ts"
      "serial_trace (unknown \<or> is_unknown outcome) cs ts"
    using Cons.IH [OF z(3) bs(1)] by blast
  have "advances (tc_call_id ` set (c # cs)) xs ys"
    by (rule advances_trans [OF advances_trans [OF advances_mono [OF as(2)] advances_mono [OF bs(2)]] advances_mono [OF ys(2)]]) auto
  moreover have "settled c ys" by (rule advances_keeps(2) [OF ys(2) bs(3)])
  moreover have "serial_trace unknown (c # cs) (t @ Recorded c outcome # ts)" using as(4) ys(5) by auto
  moreover have "xs_trace y = xs_trace x @ (t @ Recorded c outcome # ts)" using as(3) bs(4) ys(4) by simp
  ultimately show ?case using ys(1,3) by (intro exI [of _ ys] exI [of _ "t @ Recorded c outcome # ts"]) auto
qed

subsection \<open>Futures\<close>

definition running :: "tool_future list \<Rightarrow> tool_call set" where
  "running fs = tf_call ` {f \<in> set fs. tf_state f = Running}"

definition unpolled :: "tool_future list \<Rightarrow> tool_call set" where
  "unpolled fs = tf_call ` {f \<in> set fs. tf_state f = Unpolled}"

text \<open>
  A call is handed to its tool only when it was started: one that was not, because the run was
  cancelled by then, finds the run cancelled when it is polled.
\<close>

definition future_ok :: "exec_env \<Rightarrow> tool_execution list \<Rightarrow> exec_state \<Rightarrow> tool_future \<Rightarrow> bool" where
  "future_ok env xs x f \<longleftrightarrow> (tf_state f = Running \<longrightarrow> started (tf_call f) xs)
     \<and> (tf_state f = Unpolled \<longrightarrow> tf_registered f \<longrightarrow> started (tf_call f) xs \<or> (\<exists>m < xs_looks x. ee_cancelled env m))"

definition sticky :: "exec_env \<Rightarrow> bool" where
  "sticky env \<longleftrightarrow> (\<forall>m k. m \<le> k \<longrightarrow> ee_cancelled env m \<longrightarrow> ee_cancelled env k)"

lemma future_ok_later:
  "future_ok env xs x f \<Longrightarrow> advances ids xs ys \<Longrightarrow> xs_looks x \<le> xs_looks y \<Longrightarrow> future_ok env ys y f"
  unfolding future_ok_def using advances_keeps(1) [of ids xs ys] by (meson less_le_trans)

text \<open>The calls in flight along a trace: executed and not yet recorded.\<close>

fun flight_after :: "tool_call set \<Rightarrow> tool_trace list \<Rightarrow> tool_call set" where
  "flight_after R [] = R"
| "flight_after R (Executed c _ # ts) = flight_after (insert c R) ts"
| "flight_after R (Recorded c _ # ts) = flight_after (R - {c}) ts"

fun flight_ok :: "nat \<Rightarrow> tool_call set \<Rightarrow> tool_trace list \<Rightarrow> bool" where
  "flight_ok k R [] \<longleftrightarrow> card R \<le> k"
| "flight_ok k R (Executed c _ # ts) \<longleftrightarrow> card R \<le> k \<and> flight_ok k (insert c R) ts"
| "flight_ok k R (Recorded c _ # ts) \<longleftrightarrow> card R \<le> k \<and> flight_ok k (R - {c}) ts"

lemma flight_append:
  "flight_after R (ts @ us) = flight_after (flight_after R ts) us"
  "flight_ok k R (ts @ us) \<longleftrightarrow> flight_ok k R ts \<and> flight_ok k (flight_after R ts) us"
proof -
  show "flight_after R (ts @ us) = flight_after (flight_after R ts) us" by (induction R ts rule: flight_after.induct) auto
  have "flight_ok k R us \<Longrightarrow> card R \<le> k" for R us by (cases us rule: list.exhaust) (auto elim: flight_ok.elims)
  then show "flight_ok k R (ts @ us) \<longleftrightarrow> flight_ok k R ts \<and> flight_ok k (flight_after R ts) us"
    by (induction k R ts rule: flight_ok.induct) auto
qed

lemma poll_run:
  assumes "poll env f x = Inr (g, y)" and "at_batch n b ctx xs x" and "sticky env" and "future_ok env xs x f"
  obtains ts where "at_batch n b ctx xs y" "tf_call g = tf_call f" "tf_state g \<noteq> Unpolled" "xs_looks x \<le> xs_looks y"
    "future_ok env xs y g" "xs_trace y = xs_trace x @ ts"
    "ts = [] \<and> (tf_state g = Running \<longleftrightarrow> tf_state f = Running) \<or> ts = [Executed (tf_call f) True] \<and> tf_state f = Unpolled \<and> tf_state g = Running"
proof (cases "tf_state f = Unpolled")
  case False
  with assms(1) have "g = f" "y = x" by (auto simp: poll_def split: future_state.splits)
  with assms(2,4) False show thesis by (intro that [of "[]"]) simp_all
next
  case True
  with assms(1) obtain c z where z: "is_cancelled env x = Inr (c, z)"
    "(if c then returnS (f\<lparr>tf_state := Done Cancelled\<rparr>)
      else if \<not> tf_registered f then returnS (f\<lparr>tf_state := Done (unknown_tool (tf_call f))\<rparr>)
      else thenS (hand_to_tool (tf_call f)) (returnS (f\<lparr>tf_state := Running\<rparr>))) z = Inr (g, y)"
    by (auto simp: poll_def bindS_Inr)
  note l = is_cancelled_Inr [OF z(1)]
  have zb: "at_batch n b ctx xs z" "xs_trace z = xs_trace x" "xs_looks x \<le> xs_looks z" using l assms(2) by (auto simp: idle_step_def)
  show thesis
  proof (cases "c \<or> \<not> tf_registered f")
    case over: True
    with z(2) have "y = z" "tf_call g = tf_call f" "tf_state g \<noteq> Unpolled" "tf_state g \<noteq> Running" by (auto split: if_splits)
    with zb True show thesis by (intro that [of "[]"]) (simp_all add: future_ok_def)
  next
    case False
    have "\<not> ee_cancelled env (xs_looks x)" using l False by simp
    then have st: "started (tf_call f) xs"
      using assms(3,4) True False unfolding future_ok_def sticky_def by (meson less_imp_le)
    from z(2) False obtain u where "hand_to_tool (tf_call f) z = Inr (u, y)" "g = f\<lparr>tf_state := Running\<rparr>"
      by (auto simp: thenS_Inr)
    with hand_to_tool_Inr [OF _ zb(1) st] have g: "g = f\<lparr>tf_state := Running\<rparr>"
      "y = z\<lparr>xs_trace := xs_trace z @ [Executed (tf_call f) True]\<rparr>" by auto
    with g st zb True show thesis by (intro that [of "[Executed (tf_call f) True]"]) (simp_all add: future_ok_def at_batch_def)
  qed
qed

text \<open>What polling does to the futures: a call handed out is one that was not polled before.\<close>

definition polled :: "tool_future list \<Rightarrow> tool_trace list \<Rightarrow> tool_future list \<Rightarrow> bool" where
  "polled fs ts gs \<longleftrightarrow> map tf_call gs = map tf_call fs \<and> recorded ts = [] \<and> all_marked ts \<and> distinct (executed ts)
     \<and> set (executed ts) \<subseteq> unpolled fs \<and> unpolled gs \<subseteq> unpolled fs - set (executed ts)
     \<and> flight_after (running fs) ts = running gs"

lemma polled_refl: "polled fs [] fs"
  by (simp add: polled_def)

lemma polled_trans: "polled fs ts gs \<Longrightarrow> polled gs us hs \<Longrightarrow> polled fs (ts @ us) hs"
  unfolding polled_def by (auto simp: flight_append)

lemma unpolled_nth: "unpolled fs = {c. \<exists>j < length fs. tf_call (fs ! j) = c \<and> tf_state (fs ! j) = Unpolled}"
  unfolding unpolled_def by (auto simp: in_set_conv_nth)

lemma running_nth: "running fs = {c. \<exists>j < length fs. tf_call (fs ! j) = c \<and> tf_state (fs ! j) = Running}"
  unfolding running_def by (auto simp: in_set_conv_nth)

lemma polled_one:
  assumes "i < length fs" and "distinct (map tf_call fs)" and "tf_call g = tf_call (fs ! i)" and "tf_state g \<noteq> Unpolled"
    and "ts = [] \<and> (tf_state g = Running \<longleftrightarrow> tf_state (fs ! i) = Running)
       \<or> ts = [Executed (tf_call (fs ! i)) True] \<and> tf_state (fs ! i) = Unpolled \<and> tf_state g = Running"
  shows "polled fs ts (fs[i := g])"
proof -
  have calls: "map tf_call (fs[i := g]) = map tf_call fs"
    using assms(1,3) by (simp add: map_update list_update_same_conv)
  have eq: "tf_call (fs ! j) = tf_call (fs ! i) \<longleftrightarrow> j = i" if "j < length fs" for j
    using nth_eq_iff_index_eq [OF assms(2), of j i] that assms(1) by simp
  have un: "unpolled (fs[i := g]) = unpolled fs - {tf_call (fs ! i)}"
    unfolding unpolled_nth using assms(1,3,4) eq by (auto simp: nth_list_update) metis
  show ?thesis
    using assms(5)
  proof
    assume a: "ts = [] \<and> (tf_state g = Running \<longleftrightarrow> tf_state (fs ! i) = Running)"
    then have "running (fs[i := g]) = running fs"
      unfolding running_nth using assms(1,3) by (auto simp: nth_list_update split: if_splits)
    with a calls un show ?thesis by (auto simp: polled_def)
  next
    assume a: "ts = [Executed (tf_call (fs ! i)) True] \<and> tf_state (fs ! i) = Unpolled \<and> tf_state g = Running"
    then have "running (fs[i := g]) = insert (tf_call (fs ! i)) (running fs)"
      unfolding running_nth using assms(1,3) by (auto simp: nth_list_update split: if_splits)
    moreover have "tf_call (fs ! i) \<in> unpolled fs" using a assms(1) by (auto simp: unpolled_nth)
    ultimately show ?thesis using a calls un by (auto simp: polled_def)
  qed
qed

lemma poll_at:
  assumes "poll env (fs ! i) x = Inr (g, y)" and "i < length fs" and "at_batch n b ctx xs x" and "sticky env"
    and "\<forall>f \<in> set fs. future_ok env xs x f" and "distinct (map tf_call fs)"
  obtains ts where "at_batch n b ctx xs y" "xs_looks x \<le> xs_looks y" "\<forall>f \<in> set (fs[i := g]). future_ok env xs y f"
    "xs_trace y = xs_trace x @ ts" "polled fs ts (fs[i := g])"
proof -
  have "future_ok env xs x (fs ! i)" using assms(2,5) by simp
  from poll_run [OF assms(1,3,4) this] obtain ts where p: "at_batch n b ctx xs y" "tf_call g = tf_call (fs ! i)"
    "tf_state g \<noteq> Unpolled" "xs_looks x \<le> xs_looks y" "future_ok env xs y g" "xs_trace y = xs_trace x @ ts"
    "ts = [] \<and> (tf_state g = Running \<longleftrightarrow> tf_state (fs ! i) = Running)
       \<or> ts = [Executed (tf_call (fs ! i)) True] \<and> tf_state (fs ! i) = Unpolled \<and> tf_state g = Running" .
  have "\<forall>f \<in> set (fs[i := g]). future_ok env xs y f"
    using assms(5) p(4,5) future_ok_later [OF _ advances_refl] set_update_subset_insert [of fs i g] by blast
  with p polled_one [OF assms(2,6) p(2,3,7)] that show thesis by blast
qed

lemma poll_some_run:
  assumes "poll_some env is fs x = Inr (gs, y)" and "at_batch n b ctx xs x" and "sticky env"
    and "\<forall>f \<in> set fs. future_ok env xs x f" and "distinct (map tf_call fs)"
  shows "\<exists>ts. at_batch n b ctx xs y \<and> xs_looks x \<le> xs_looks y \<and> (\<forall>f \<in> set gs. future_ok env xs y f)
     \<and> xs_trace y = xs_trace x @ ts \<and> polled fs ts gs"
  using assms
proof (induction env "is" fs arbitrary: x rule: poll_some.induct)
  case (1 env fs)
  then show ?case using polled_refl by (intro exI [of _ "[]"]) auto
next
  case (2 env i "is" fs)
  show ?case
  proof (cases "i < length fs")
    case False
    with 2 show ?thesis by simp
  next
    case True
    with "2.prems"(1) obtain g z where z: "poll env (fs ! i) x = Inr (g, z)" "poll_some env is (fs[i := g]) z = Inr (gs, y)"
      by (auto simp: bindS_Inr)
    from poll_at [OF z(1) True "2.prems"(2-5)] obtain ts where
      ts: "at_batch n b ctx xs z" "xs_looks x \<le> xs_looks z" "\<forall>f \<in> set (fs[i := g]). future_ok env xs z f"
        "xs_trace z = xs_trace x @ ts" "polled fs ts (fs[i := g])" .
    have "distinct (map tf_call (fs[i := g]))" using ts(5) "2.prems"(5) by (simp add: polled_def)
    from "2.IH"(1) [OF True z(2) ts(1) "2.prems"(3) ts(3) this] obtain us where
      "at_batch n b ctx xs y" "xs_looks z \<le> xs_looks y" "\<forall>f \<in> set gs. future_ok env xs y f"
        "xs_trace y = xs_trace z @ us" "polled (fs[i := g]) us gs" by blast
    with ts polled_trans [OF ts(5)] show ?thesis by (intro exI [of _ "ts @ us"]) auto
  qed
qed

lemma flight_ok_polled:
  assumes "recorded ts = []" and "R \<union> set (executed ts) \<subseteq> S" and "finite S" and "card S \<le> k"
  shows "flight_ok k R ts"
  using assms
proof (induction k R ts rule: flight_ok.induct)
  case (1 k R)
  then show ?case using card_mono [of S R] by simp
next
  case (2 k R c ts)
  then show ?case using card_mono [of S R] by simp
qed simp

lemma flight_after_polled: "recorded ts = [] \<Longrightarrow> flight_after R ts = R \<union> set (executed ts)"
  by (induction R ts rule: flight_after.induct) auto

lemma remove_future:
  assumes "i < length fs" and "distinct (map tf_call fs)"
  shows "map tf_call fs = take i (map tf_call fs) @ tf_call (fs ! i) # drop (Suc i) (map tf_call fs)"
    and "map tf_call (remove_at i fs) = take i (map tf_call fs) @ drop (Suc i) (map tf_call fs)"
    and "running (remove_at i fs) = running fs - {tf_call (fs ! i)}"
    and "unpolled (remove_at i fs) \<subseteq> unpolled fs"
proof -
  show m: "map tf_call fs = take i (map tf_call fs) @ tf_call (fs ! i) # drop (Suc i) (map tf_call fs)"
    using id_take_nth_drop [of i "map tf_call fs"] assms(1) by simp
  show "map tf_call (remove_at i fs) = take i (map tf_call fs) @ drop (Suc i) (map tf_call fs)"
    by (simp add: remove_at_def take_map drop_map)
  have fs: "set fs = insert (fs ! i) (set (remove_at i fs))"
    using arg_cong [OF id_take_nth_drop [OF assms(1)], of set] by (auto simp: remove_at_def)
  have "tf_call (fs ! i) \<notin> tf_call ` set (remove_at i fs)"
    using assms(2) by (subst (asm) m) (auto simp: remove_at_def take_map drop_map)
  then show "running (remove_at i fs) = running fs - {tf_call (fs ! i)}"
    unfolding running_def fs by (auto simp: image_iff)
  show "unpolled (remove_at i fs) \<subseteq> unpolled fs" unfolding unpolled_def fs by auto
qed

text \<open>The futures a run holds, and what is still to be done.\<close>

definition flying :: "exec_env \<Rightarrow> tool_call list \<Rightarrow> tool_future list \<Rightarrow> tool_execution list \<Rightarrow> exec_state \<Rightarrow> bool" where
  "flying env calls fs xs x \<longleftrightarrow> sticky env \<and> distinct (map (tc_call_id \<circ> te_call) xs) \<and> distinct (calls @ map tf_call fs)
     \<and> set (calls @ map tf_call fs) \<subseteq> te_call ` set xs \<and> length fs \<le> max_parallel_tools
     \<and> (\<forall>f \<in> set fs. future_ok env xs x f)"

lemma flying_later:
  assumes "flying env calls fs xs x" and "advances ids xs ys" and "xs_looks x \<le> xs_looks y"
  shows "flying env calls fs ys y"
proof -
  note i = advances_ids [OF assms(2)]
  have "\<forall>f \<in> set fs. future_ok env ys y f" using assms future_ok_later [OF _ assms(2,3)] by (auto simp: flying_def)
  with assms(1) show ?thesis unfolding flying_def i by blast
qed

lemma next_ready_run:
  assumes "next_ready env fs x = Inr ((call, outcome, rest), y)" and "at_batch n b ctx xs x" and "flying env calls fs xs x" and "fs \<noteq> []"
  obtains ts where "at_batch n b ctx xs y" "flying env calls rest xs y" "call \<in> set (map tf_call fs)"
    "mset (map tf_call fs) = add_mset call (mset (map tf_call rest))" "xs_trace y = xs_trace x @ ts" "recorded ts = []"
    "distinct (executed ts)" "set (executed ts) \<subseteq> unpolled fs" "unpolled rest \<subseteq> unpolled fs - set (executed ts)"
    "flight_ok max_parallel_tools (running fs) ts" "flight_after (running fs) ts - {call} = running rest"
    "all_marked ts"
proof -
  from assms(1) obtain k z gs i w g v m where z: "look env x = Inr (k, z)" "poll_some env (ee_polled env k) fs z = Inr (gs, w)"
    "i = ee_first_ready env k mod length gs" "poll env (gs ! i) w = Inr (g, v)" "look env v = Inr (m, y)"
    "call = tf_call g" "rest = remove_at i gs"
    by (auto simp: next_ready_def bindS_Inr Let_def)
  note l = look_Inr [OF z(1)] and fl = assms(3) [unfolded flying_def]
  have zb: "at_batch n b ctx xs z" "\<forall>f \<in> set fs. future_ok env xs z f"
    using l assms(2) fl future_ok_later [OF _ advances_refl] by (auto simp: idle_step_def)
  have st: "sticky env" and dfs: "distinct (map tf_call fs)" using fl by auto
  from poll_some_run [OF z(2) zb(1) st zb(2) dfs] obtain ts where
    ts: "at_batch n b ctx xs w" "xs_looks z \<le> xs_looks w" "\<forall>f \<in> set gs. future_ok env xs w f" "xs_trace w = xs_trace z @ ts" "polled fs ts gs"
    by blast
  have calls: "map tf_call gs = map tf_call fs" using ts(5) by (simp add: polled_def)
  then have "length gs = length fs" by (rule map_eq_imp_length_eq)
  with assms(4) z(3) have i: "i < length gs" by simp
  have dgs: "distinct (map tf_call gs)" using dfs calls by simp
  from poll_at [OF z(4) i ts(1) st ts(3) dgs] obtain us where
    us: "at_batch n b ctx xs v" "xs_looks w \<le> xs_looks v" "\<forall>f \<in> set (gs[i := g]). future_ok env xs v f"
      "xs_trace v = xs_trace w @ us" "polled gs us (gs[i := g])" .
  let ?hs = "gs[i := g]"
  have p: "polled fs (ts @ us) ?hs" by (rule polled_trans [OF ts(5) us(5)])
  have r: "rest = remove_at i ?hs" using z(7) i by (simp add: remove_at_def)
  have hs: "map tf_call ?hs = map tf_call fs" "?hs ! i = g" "i < length ?hs" using p i by (simp_all add: polled_def)
  have dhs: "distinct (map tf_call ?hs)" using dfs hs(1) by simp
  note rf = remove_future [OF hs(3) dhs, unfolded hs(1,2), folded z(6) r]
  have pd: "recorded (ts @ us) = []" "all_marked (ts @ us)" "distinct (executed (ts @ us))" "set (executed (ts @ us)) \<subseteq> unpolled fs"
    "unpolled ?hs \<subseteq> unpolled fs - set (executed (ts @ us))" "flight_after (running fs) (ts @ us) = running ?hs"
    using p by (simp_all add: polled_def)
  note l2 = look_Inr [OF z(5)]
  have sub: "set (map tf_call rest) \<subseteq> set (map tf_call fs)" using rf(1,2) by (metis Un_iff insert_iff list.set(2) set_append subsetI)
  have "distinct (calls @ map tf_call rest)"
  proof -
    have "distinct (calls @ take i (map tf_call fs) @ call # drop (Suc i) (map tf_call fs))"
      unfolding rf(1) [symmetric] using fl by simp
    then show ?thesis unfolding rf(2) by simp
  qed
  moreover have "length rest \<le> max_parallel_tools"
    using fl hs(1,3) r by (metis One_nat_def diff_le_self le_trans length_map length_remove_at)
  moreover have "\<forall>f \<in> set rest. future_ok env xs y f"
  proof -
    have "set (remove_at i l) \<subseteq> set l" for l :: "tool_future list" by (auto simp: remove_at_def dest: in_set_takeD in_set_dropD)
    then have "set rest \<subseteq> set ?hs" unfolding r .
    moreover have "future_ok env xs y f" if "f \<in> set ?hs" for f
      by (rule future_ok_later [OF _ advances_refl]) (use us(3) l2 that in \<open>auto simp: idle_step_def\<close>)
    ultimately show ?thesis by blast
  qed
  moreover have "set (calls @ map tf_call rest) \<subseteq> te_call ` set xs"
    using sub fl by (metis le_sup_iff order_trans set_append)
  ultimately have "flying env calls rest xs y" using fl by (simp add: flying_def)
  moreover have "flight_ok max_parallel_tools (running fs) (ts @ us)"
  proof (rule flight_ok_polled [OF pd(1)])
    show "running fs \<union> set (executed (ts @ us)) \<subseteq> set (map tf_call fs)" using pd(4) by (auto simp: running_def unpolled_def)
    show "card (set (map tf_call fs)) \<le> max_parallel_tools" using card_length [of "map tf_call fs"] fl by simp
  qed simp
  moreover have "at_batch n b ctx xs y" "xs_trace y = xs_trace x @ (ts @ us)"
    using l2 us(1,4) ts(4) l by (auto simp: idle_step_def)
  moreover have "mset (map tf_call fs) = add_mset call (mset (map tf_call rest))"
    by (subst rf(1), subst rf(2)) simp
  moreover have "call \<in> set (map tf_call fs)" by (subst rf(1)) simp
  ultimately show thesis using that [of "ts @ us"] pd rf(3,4) by auto
qed

lemma admit_run:
  assumes "admit env calls fs x = Inr ((left, gs), y)" and "at_batch n b ctx xs x" and "flying env calls fs xs x"
  shows "\<exists>ys new. at_batch n b ctx ys y \<and> advances (tc_call_id ` set calls) xs ys \<and> xs_trace y = xs_trace x
     \<and> flying env left gs ys y \<and> gs = fs @ new \<and> map tf_call new @ left = calls
     \<and> running gs = running fs \<and> (fs \<noteq> [] \<or> calls \<noteq> [] \<longrightarrow> gs \<noteq> [])"
  using assms
proof (induction env calls fs arbitrary: x xs rule: admit.induct)
  case (1 env fs)
  then show ?case by (intro exI [of _ xs] exI [of _ "[]"]) auto
next
  case (2 env call calls fs)
  show ?case
  proof (cases "length fs < max_parallel_tools")
    case False
    then have "fs \<noteq> []" by (auto simp: max_parallel_tools_def)
    with False "2.prems" show ?thesis by (intro exI [of _ xs] exI [of _ "[]"]) auto
  next
    case True
    from "2.prems"(1) True obtain r0 where
      "(let reg = r0 \<or> ee_accepts_unadvertised_call env (tc_name call) in
        bindS (if reg then is_cancelled env else returnS True) (\<lambda>hold.
         thenS (if hold then returnS () else start_and_deliver env call)
           (admit env calls (fs @ [\<lparr>tf_call = call, tf_registered = reg, tf_state = Unpolled\<rparr>])))) x = Inr ((left, gs), y)"
      by (auto simp: bindS_Inr is_registered_def)
    then obtain reg hold z w u where reg: "reg = (r0 \<or> ee_accepts_unadvertised_call env (tc_name call))" and
      z: "(if reg then is_cancelled env else returnS True) x = Inr (hold, z)"
        "(if hold then returnS () else start_and_deliver env call) z = Inr (u, w)"
        "admit env calls (fs @ [\<lparr>tf_call = call, tf_registered = reg, tf_state = Unpolled\<rparr>]) w = Inr ((left, gs), y)"
      unfolding bindS_Inr thenS_Inr Let_def by blast
    let ?f = "\<lparr>tf_call = call, tf_registered = reg, tf_state = Unpolled\<rparr>"
    note fl = "2.prems"(3) [unfolded flying_def]
    have c: "call \<in> te_call ` set xs" and d: "distinct (map (tc_call_id \<circ> te_call) xs)" using fl by auto
    have zx: "idle_step x z" using z(1) by (auto split: if_splits dest: is_cancelled_Inr)
    then have zb: "at_batch n b ctx xs z" "xs_trace z = xs_trace x" "xs_looks x \<le> xs_looks z"
      using "2.prems"(2) by (auto simp: idle_step_def)
    obtain as where as: "at_batch n b ctx as w" "advances {tc_call_id call} xs as" "xs_trace w = xs_trace x"
      "xs_looks x \<le> xs_looks w" "future_ok env as w ?f"
    proof (cases hold)
      case True
      with z(1) have "reg \<Longrightarrow> ee_cancelled env (xs_looks x) \<and> xs_looks z = Suc (xs_looks x)"
        by (auto dest: is_cancelled_Inr)
      then have "future_ok env xs z ?f" by (auto simp: future_ok_def)
      with True z(2) zb show thesis by (intro that [of xs]) simp_all
    next
      case False
      with z(2) have "start_and_deliver env call z = Inr (u, w)" by simp
      from start_step [OF this zb(1) c d] obtain as where "at_batch n b ctx as w" "advances {tc_call_id call} xs as"
        "started call as" "xs_trace w = xs_trace z" "xs_looks z \<le> xs_looks w" .
      with zb show thesis by (intro that [of as]) (simp_all add: future_ok_def)
    qed
    note later = flying_later [OF "2.prems"(3) as(2,4), unfolded flying_def]
    have "flying env calls (fs @ [?f]) as w"
      using later as(5) True unfolding flying_def by auto
    from "2.IH" [OF True reg z(3) as(1) this] obtain ys new where
      ys: "at_batch n b ctx ys y" "advances (tc_call_id ` set calls) as ys" "xs_trace y = xs_trace w" "flying env left gs ys y"
        "gs = (fs @ [?f]) @ new" "map tf_call new @ left = calls" "running gs = running (fs @ [?f])" by blast
    have "advances (tc_call_id ` set (call # calls)) xs ys"
      by (rule advances_trans [OF advances_mono [OF as(2)] advances_mono [OF ys(2)]]) auto
    moreover have "running (fs @ [?f]) = running fs" by (auto simp: running_def)
    ultimately show ?thesis using ys as(3) by (intro exI [of _ ys] exI [of _ "?f # new"]) simp
  qed
qed

text \<open>What a run does to a batch, in terms of the calls it settles and the futures it starts from.\<close>

definition carried_out :: "tool_call list \<Rightarrow> tool_call set \<Rightarrow> tool_call set \<Rightarrow> tool_trace list \<Rightarrow> tool_execution list \<Rightarrow> tool_execution list \<Rightarrow> bool" where
  "carried_out calls fresh flight ts xs ys \<longleftrightarrow> advances (tc_call_id ` set calls) xs ys \<and> (\<forall>c \<in> set calls. settled c ys)
     \<and> mset (recorded ts) = mset calls \<and> distinct (executed ts) \<and> set (executed ts) \<subseteq> fresh
     \<and> all_marked ts \<and> flight_ok max_parallel_tools flight ts"

lemma flight_ok_after: "flight_ok k R ts \<Longrightarrow> card (flight_after R ts) \<le> k"
  by (induction k R ts rule: flight_ok.induct) auto

lemma carried_out_round:
  assumes "carried_out rest fresh (flight_after flight ts - {call}) us ys zs"
    and "advances (tc_call_id ` set (call # rest)) xs ys" and "settled call ys" and "recorded ts = []"
    and "distinct (executed ts)" and "set (executed ts) \<inter> fresh = {}" and "all_marked ts"
    and "flight_ok max_parallel_tools flight ts"
  shows "carried_out (call # rest) (set (executed ts) \<union> fresh) flight (ts @ Recorded call outcome # us) xs zs"
proof -
  from assms(1) have a: "advances (tc_call_id ` set rest) ys zs" by (simp add: carried_out_def)
  have "advances (tc_call_id ` set (call # rest)) xs zs"
    by (rule advances_trans [OF assms(2) advances_mono [OF a]]) auto
  moreover have "settled call zs" by (rule advances_keeps(2) [OF a assms(3)])
  moreover have "flight_ok max_parallel_tools flight (ts @ Recorded call outcome # us)"
    using assms(1,8) flight_ok_after [OF assms(8)] by (simp add: flight_append carried_out_def)
  ultimately show ?thesis using assms(1,4-7) by (auto simp: carried_out_def)
qed

lemma carried_out_calls:
  "carried_out calls fresh flight ts xs ys \<Longrightarrow> mset calls = mset calls' \<Longrightarrow> fresh \<subseteq> fresh' \<Longrightarrow> carried_out calls' fresh' flight ts xs ys"
  by (auto simp: carried_out_def dest!: mset_eq_setD)

lemma parallel_run:
  assumes "parallel_tools env k calls fs x = Inr (u, y)" and "at_batch n b ctx xs x" and "flying env calls fs xs x"
    and "length calls + length fs < k"
  shows "\<exists>ys ts. at_batch n b ctx ys y \<and> xs_trace y = xs_trace x @ ts
     \<and> carried_out (calls @ map tf_call fs) (set calls \<union> unpolled fs) (running fs) ts xs ys"
  using assms
proof (induction k arbitrary: calls fs x xs)
  case 0
  then show ?case by simp
next
  case (Suc k)
  from Suc.prems(1) obtain left gs z where z: "admit env calls fs x = Inr ((left, gs), z)"
    and rest: "(if gs = [] then returnS () else bindS (next_ready env gs) (\<lambda>(call, outcome, hs).
       thenS (settle_call env call outcome) (parallel_tools env k left hs))) z = Inr (u, y)"
    by (auto simp: bindS_Inr)
  from admit_run [OF z Suc.prems(2,3)] obtain as new where
    as: "at_batch n b ctx as z" "advances (tc_call_id ` set calls) xs as" "xs_trace z = xs_trace x" "flying env left gs as z"
      "gs = fs @ new" "map tf_call new @ left = calls" "running gs = running fs" "fs \<noteq> [] \<or> calls \<noteq> [] \<longrightarrow> gs \<noteq> []" by blast
  show ?case
  proof (cases "gs = []")
    case True
    with as(8) have "calls = []" "fs = []" by auto
    with True rest as(1,2,3) show ?thesis
      by (intro exI [of _ as] exI [of _ "[]"]) (auto simp: carried_out_def running_def)
  next
    case False
    with rest obtain call outcome hs w v u' where w: "next_ready env gs z = Inr ((call, outcome, hs), w)"
      "settle_call env call outcome w = Inr (u', v)" "parallel_tools env k left hs v = Inr (u, y)"
      by (auto simp: bindS_Inr thenS_Inr)
    from next_ready_run [OF w(1) as(1,4) False] obtain ts where
      ts: "at_batch n b ctx as w" "flying env left hs as w" "call \<in> set (map tf_call gs)"
        "mset (map tf_call gs) = add_mset call (mset (map tf_call hs))" "xs_trace w = xs_trace z @ ts" "recorded ts = []"
        "distinct (executed ts)" "set (executed ts) \<subseteq> unpolled gs" "unpolled hs \<subseteq> unpolled gs - set (executed ts)"
        "flight_ok max_parallel_tools (running gs) ts" "flight_after (running gs) ts - {call} = running hs"
        "all_marked ts" .
    have call: "call \<in> te_call ` set as" and d: "distinct (map (tc_call_id \<circ> te_call) as)"
      using as(4) ts(3) by (auto simp: flying_def)
    from settle_step [OF w(2) ts(1) call d] obtain bs where
      bs: "at_batch n b ctx bs v" "advances {tc_call_id call} as bs" "settled call bs"
        "xs_trace v = xs_trace w @ [Recorded call outcome]" "xs_looks w \<le> xs_looks v" .
    have len: "length left + length hs < k"
      using Suc.prems(4) as(5,6) arg_cong [OF ts(4), of size] by auto
    from Suc.IH [OF w(3) bs(1) flying_later [OF ts(2) bs(2,5)] len] obtain ys us where
      ys: "at_batch n b ctx ys y" "xs_trace y = xs_trace v @ us"
        "carried_out (left @ map tf_call hs) (set left \<union> unpolled hs) (running hs) us bs ys" by blast
    let ?rest = "left @ map tf_call hs"
    have ms: "mset (call # ?rest) = mset (calls @ map tf_call fs)"
      using ts(4) unfolding as(5) as(6) [symmetric] by (simp add: add.commute)
    have "advances (tc_call_id ` set (call # ?rest)) xs bs"
    proof (rule advances_trans [OF advances_mono [OF as(2)] advances_mono [OF bs(2)]])
      show "tc_call_id ` set calls \<subseteq> tc_call_id ` set (call # ?rest)" unfolding mset_eq_setD [OF ms] by auto
    qed simp
    moreover have "set (executed ts) \<inter> (set left \<union> unpolled hs) = {}"
    proof -
      have "set left \<inter> set (map tf_call gs) = {}" using as(4) by (simp add: flying_def)
      moreover have "unpolled gs \<subseteq> set (map tf_call gs)" by (auto simp: unpolled_def)
      ultimately show ?thesis using ts(8,9) by blast
    qed
    ultimately have "carried_out (call # ?rest) (set (executed ts) \<union> (set left \<union> unpolled hs)) (running gs)
        (ts @ Recorded call outcome # us) xs ys"
      using carried_out_round [of ?rest _ "running gs" ts call us bs ys] ys(3) ts(6,7,10-12) bs(3) by metis
    moreover have "unpolled gs \<subseteq> set calls \<union> unpolled fs"
      using as(5) arg_cong [OF as(6), of set] by (auto simp: unpolled_def)
    ultimately have "carried_out (calls @ map tf_call fs) (set calls \<union> unpolled fs) (running fs) (ts @ Recorded call outcome # us) xs ys"
      unfolding as(7) by (elim carried_out_calls [OF _ ms]) (use ts(8,9) as(6) in auto)
    with ys(1,2) bs(4) ts(5) as(3) show ?thesis by auto
  qed
qed

subsection \<open>A batch\<close>

lemma flight_ok_mono: "flight_ok k R ts \<Longrightarrow> k \<le> m \<Longrightarrow> flight_ok m R ts"
  by (induction k R ts rule: flight_ok.induct) auto

lemma serial_flight: "serial_trace unknown cs ts \<Longrightarrow> flight_ok 1 {} ts"
  by (induction cs arbitrary: unknown ts) auto

lemma execute_tools_run:
  assumes "execute_tools env calls x = Inr (u, y)" and "at_batch n b ctx xs x" and "sticky env"
    and "distinct (map (tc_call_id \<circ> te_call) xs)" and "distinct calls" and "set calls \<subseteq> te_call ` set xs"
  shows "\<exists>ys ts. at_batch n b ctx ys y \<and> xs_trace y = xs_trace x @ ts \<and> carried_out calls (set calls) {} ts xs ys
     \<and> (ro_tools (cf_run (sr_config (se_record (xs_session x)))) = Serial \<longrightarrow> serial_trace False calls ts)"
proof (cases "ro_tools (cf_run (sr_config (se_record (xs_session x))))")
  case Serial
  with assms(1) have "serial_tools env calls False False x = Inr (u, y)" by (simp add: execute_tools_def bindS_Inr)
  from serial_tools_run [OF this assms(2,6,4)] obtain ys ts where
    ys: "at_batch n b ctx ys y" "advances (tc_call_id ` set calls) xs ys" "\<forall>c \<in> set calls. settled c ys"
      "xs_trace y = xs_trace x @ ts" "serial_trace False calls ts" by blast
  note t = serial_trace_calls [OF ys(5)]
  have "flight_ok max_parallel_tools {} ts" by (rule flight_ok_mono [OF serial_flight [OF ys(5)]]) (simp add: max_parallel_tools_def)
  moreover have "distinct (executed ts)" "set (executed ts) \<subseteq> set calls"
    using t assms(5) by (auto simp: subseq_conv_nths intro: distinct_nthsI dest: in_set_nthsD)
  ultimately show ?thesis using ys t by (auto simp: carried_out_def)
next
  case Parallel
  with assms(1) have p: "parallel_tools env (Suc (length calls)) calls [] x = Inr (u, y)" by (simp add: execute_tools_def bindS_Inr)
  have "flying env calls [] xs x" using assms(3-6) by (simp add: flying_def)
  from parallel_run [OF p assms(2) this] Parallel show ?thesis by (auto simp: unpolled_def running_def)
qed

end
