(* ===== verification/Executor_Properties.thy ===== *)
theory Executor_Properties
  imports Executor_Tools Session_Properties
begin

text \<open>
  What the executor guarantees of a tool batch, whatever the tools answer, whenever the run is
  cancelled and whatever senders do to the queue meanwhile.
\<close>

definition pending :: "view \<Rightarrow> tool_call list" where
  "pending v = map te_call (filter (\<lambda>x. te_outcome x = None) (vw_batch v))"

subsection \<open>From the trace to the batch\<close>

lemma view_at_batch:
  assumes "session_view v (xs_session x)" and "vw_state v = ExecutingTools n b"
  shows "at_batch n b (vw_context v) (vw_batch v) x"
  unfolding at_batch_def using assms by (intro exI [of _ "vw_queue v"]) (cases v, simp)

lemma at_batch_view:
  assumes "at_batch n b (vw_context v) ys y" and "vw_state v = ExecutingTools n b"
  shows "\<exists>q. session_view (v\<lparr>vw_queue := q, vw_batch := ys\<rparr>) (xs_session y)"
  using assms unfolding at_batch_def by (cases v) auto

lemma pending_calls:
  assumes "distinct (map (tc_call_id \<circ> te_call) (vw_batch v))"
  shows "distinct (pending v)" and "set (pending v) \<subseteq> te_call ` set (vw_batch v)"
proof -
  from assms have "distinct (map te_call (vw_batch v))" by (metis distinct_map map_map)
  then show "distinct (pending v)" unfolding pending_def by (rule distinct_map_filter)
qed (auto simp: pending_def)

lemma carried_out_settles:
  assumes "carried_out (pending v) fresh flight ts (vw_batch v) ys" and "distinct (map (tc_call_id \<circ> te_call) (vw_batch v))"
  shows "batch_settled ys" and "map te_call ys = map te_call (vw_batch v)"
    and "\<forall>i < length ys. te_outcome (vw_batch v ! i) \<noteq> None \<longrightarrow> ys ! i = vw_batch v ! i"
proof -
  let ?xs = "vw_batch v"
  from assms(1) have a: "advances (tc_call_id ` set (pending v)) ?xs ys" and s: "\<forall>c \<in> set (pending v). settled c ys"
    by (auto simp: carried_out_def)
  then have len: "length ys = length ?xs" by (simp add: advances_def list_all2_lengthD)
  show m: "map te_call ys = map te_call ?xs" by (rule advances_calls [OF a])
  have d: "distinct (map (tc_call_id \<circ> te_call) ys)" using assms(2) advances_ids(1) [OF a] by simp
  have step: "te_call (ys ! i) = te_call (?xs ! i)" "te_outcome (?xs ! i) \<noteq> None \<longrightarrow> te_outcome (ys ! i) \<noteq> None"
    "tc_call_id (te_call (?xs ! i)) \<notin> tc_call_id ` set (pending v) \<longrightarrow> ys ! i = ?xs ! i" if "i < length ys" for i
    using a that len unfolding advances_def list_all2_conv_all_nth by auto
  have "te_outcome (ys ! i) \<noteq> None" if i: "i < length ys" for i
  proof (cases "te_outcome (?xs ! i) = None")
    case True
    then have "te_call (ys ! i) \<in> set (pending v)" using i len step(1) [OF i] by (auto simp: pending_def)
    with s have "settled (te_call (ys ! i)) ys" by blast
    then obtain j where j: "j < length ys" "te_call (ys ! j) = te_call (ys ! i)" "te_outcome (ys ! j) \<noteq> None"
      by (auto simp: settled_def in_set_conv_nth)
    with nth_eq_iff_index_eq [OF d, of j i] i have "j = i" by simp
    with j(3) show ?thesis by simp
  qed (use step(2) [OF i] in simp)
  then show "batch_settled ys" by (auto simp: batch_settled_def list_all_length)
  show "\<forall>i < length ys. te_outcome (?xs ! i) \<noteq> None \<longrightarrow> ys ! i = ?xs ! i"
  proof (intro allI impI)
    fix i assume i: "i < length ys" and o: "te_outcome (?xs ! i) \<noteq> None"
    have "tc_call_id (te_call (?xs ! i)) \<notin> tc_call_id ` set (pending v)"
    proof
      assume "tc_call_id (te_call (?xs ! i)) \<in> tc_call_id ` set (pending v)"
      then obtain j where "j < length ?xs" "te_outcome (?xs ! j) = None" "tc_call_id (te_call (?xs ! j)) = tc_call_id (te_call (?xs ! i))"
        by (auto simp: pending_def in_set_conv_nth)
      with nth_eq_iff_index_eq [OF assms(2), of j i] i len o show False by simp
    qed
    with step(3) [OF i] show "ys ! i = ?xs ! i" by simp
  qed
qed

lemma batch_run:
  assumes "session_view v (xs_session x)" and "vw_state v = ExecutingTools n b"
    and "distinct (map (tc_call_id \<circ> te_call) (vw_batch v))" and "sticky env"
    and "execute_tools env (pending v) x = Inr (u, y)"
  obtains q ys ts where "session_view (v\<lparr>vw_queue := q, vw_batch := ys\<rparr>) (xs_session y)" "xs_trace y = xs_trace x @ ts"
    "carried_out (pending v) (set (pending v)) {} ts (vw_batch v) ys"
    "ro_tools (cf_run (sr_config (se_record (xs_session x)))) = Serial \<longrightarrow> serial_trace False (pending v) ts"
  using execute_tools_run [OF assms(5) view_at_batch [OF assms(1,2)] assms(4,3) pending_calls [OF assms(3)]]
    at_batch_view [OF _ assms(2)] by metis

subsection \<open>A batch under way\<close>

definition lookup_call :: tool_call where
  "lookup_call = \<lparr>tc_call_id = ''c1'', tc_name = ''look'', tc_arguments = JNull\<rparr>"

definition busy_record :: session_record where
  "busy_record = sample_record\<lparr>sr_state := ExecutingTools 1 ''k/lists/2'', sr_next_list_id := 3\<rparr>"

definition busy_session :: session where
  "busy_session = sample\<lparr>se_record := busy_record,
     se_store := (se_store sample)\<lparr>
       st_objects := [''k'' \<mapsto> (sv_kind kind_record, StRecord busy_record)],
       st_lists := (st_lists (se_store sample))(''k/lists/2'' \<mapsto> (sv_kind kind_tool, [Some (StTool (new_execution lookup_call))]))\<rparr>\<rparr>"

definition busy_view :: view where
  "busy_view = \<lparr>vw_queue = [], vw_context = [], vw_state = ExecutingTools 1 ''k/lists/2'', vw_batch = [new_execution lookup_call]\<rparr>"

definition calm_env :: exec_env where
  "calm_env = \<lparr>ee_cancelled = (\<lambda>_. False), ee_clock = (\<lambda>n. n), ee_senders = (\<lambda>_. []),
     ee_accepts_unadvertised_call = (\<lambda>_. True), ee_execute = (\<lambda>_ _. Success JNull), ee_polled = (\<lambda>_. []), ee_first_ready = (\<lambda>_. 0)\<rparr>"

definition busy_state :: exec_state where
  "busy_state = \<lparr>xs_session = busy_session, xs_delivered = 0, xs_observed = [], xs_looks = 0, xs_trace = []\<rparr>"

lemmas busy_defs = busy_state_def busy_session_def busy_record_def busy_view_def calm_env_def new_execution_def lookup_call_def

lemma busy_session_view: "session_view busy_view busy_session"
proof -
  have "waiting [] (as_tx busy_session)" by (simp add: waiting_def busy_defs sample_defs)
  moreover have "holds_context [] (as_tx busy_session)"
    by (simp add: holds_context_def active_list_def busy_defs sample_defs cell_at_def show_nat.simps digit_chars)
  moreover have "entries_placed (as_tx busy_session)" by (simp add: entries_placed_def busy_defs sample_defs cell_at_def)
  ultimately have "consumable [] [] (as_tx busy_session)" by (simp add: consumable_def busy_defs sample_defs)
  then show ?thesis
    by (auto simp: session_view_def shows_view_def shows_talk_def coherent_def messages_of_def
        batch_shown_def holds_batch_def busy_defs sample_defs)
qed

lemma busy_facts:
  "session_view busy_view (xs_session busy_state)" "vw_state busy_view = ExecutingTools 1 ''k/lists/2''"
  "distinct (map (tc_call_id \<circ> te_call) (vw_batch busy_view))" "sticky calm_env"
  "map te_call (vw_batch busy_view) = [lookup_call]" "xs_trace busy_state = []"
  using busy_session_view by (simp_all add: busy_defs sticky_def)

lemma busy_run: "\<exists>y. execute_tools calm_env (pending busy_view) busy_state = Inr ((), y)"
  by (simp add: execute_tools_def pending_def max_parallel_tools_def next_ready_def poll_def is_registered_def is_cancelled_def
      look_def on_session_def hand_to_tool_def note_trace_def start_and_deliver_def settle_call_def start_tool_def
      mark_tool_started_def accept_tool_outcome_def record_tool_outcome_def update_execution_def
      deliver_new_events_def read_page_def page_size_def is_stream_event_def remove_at_def marked_started_def
      busy_defs sample_defs run run_defs norm_record_def norm_config_def cong: later)

subsection \<open>The properties\<close>

text \<open>
  C39: when the executor returns from the open calls of a batch, every call of the batch has an outcome,
  each open call was answered exactly once, what was settled before is untouched, and so are the
  conversation and the state of the run: the batch can be completed. This holds in both modes, whatever
  the tools answer, whenever the run is cancelled (a cancelled run stays cancelled) and whatever senders
  do to the queue of the session meanwhile.
\<close>

theorem execute_tools_settles_batch:
  assumes "session_view v (xs_session x)" and "vw_state v = ExecutingTools n b"
    and "distinct (map (tc_call_id \<circ> te_call) (vw_batch v))" and "sticky env"
    and "execute_tools env (pending v) x = Inr (u, y)"
  shows "\<exists>q ys ts. session_view (v\<lparr>vw_queue := q, vw_batch := ys\<rparr>) (xs_session y) \<and> batch_settled ys
     \<and> map te_call ys = map te_call (vw_batch v)
     \<and> (\<forall>i < length ys. te_outcome (vw_batch v ! i) \<noteq> None \<longrightarrow> ys ! i = vw_batch v ! i)
     \<and> xs_trace y = xs_trace x @ ts \<and> mset (recorded ts) = mset (pending v)"
proof -
  from batch_run [OF assms] obtain q ys ts where
    ys: "session_view (v\<lparr>vw_queue := q, vw_batch := ys\<rparr>) (xs_session y)" "xs_trace y = xs_trace x @ ts"
      "carried_out (pending v) (set (pending v)) {} ts (vw_batch v) ys" .
  with carried_out_settles [OF ys(3) assms(3)] show ?thesis by (auto simp: carried_out_def)
qed

theorem execute_tools_settles_batch_witness:
  "\<exists>y q ys. execute_tools calm_env (pending busy_view) busy_state = Inr ((), y)
     \<and> session_view (busy_view\<lparr>vw_queue := q, vw_batch := ys\<rparr>) (xs_session y) \<and> batch_settled ys
     \<and> map te_call ys = [lookup_call]"
proof -
  from busy_run obtain y where y: "execute_tools calm_env (pending busy_view) busy_state = Inr ((), y)" by blast
  from execute_tools_settles_batch [OF busy_facts(1-4) y] obtain q ys where
    "session_view (busy_view\<lparr>vw_queue := q, vw_batch := ys\<rparr>) (xs_session y)" "batch_settled ys"
    "map te_call ys = [lookup_call]" unfolding busy_facts(5) by (elim exE conjE) (rule that)
  with y show ?thesis by (intro exI conjI)
qed

text \<open>
  C40: a call is handed to its tool at most once, and only when the stored batch says by then that it was
  started, so that a crash never makes the session take a call that ran for one that did not. At most
  eight calls are under way at a time, and in serial mode one: there the calls are settled in their order
  and none is handed out once the outcome of an earlier one is unknown.
\<close>

theorem execute_tools_starts_before_it_runs:
  assumes "session_view v (xs_session x)" and "vw_state v = ExecutingTools n b"
    and "distinct (map (tc_call_id \<circ> te_call) (vw_batch v))" and "sticky env"
    and "execute_tools env (pending v) x = Inr (u, y)"
  shows "\<exists>ts. xs_trace y = xs_trace x @ ts \<and> all_marked ts \<and> distinct (executed ts) \<and> set (executed ts) \<subseteq> set (pending v)
     \<and> flight_ok 8 {} ts
     \<and> (ro_tools (cf_run (sr_config (se_record (xs_session x)))) = Serial \<longrightarrow> flight_ok 1 {} ts \<and> serial_trace False (pending v) ts)"
proof -
  from batch_run [OF assms] obtain q ys ts where
    "xs_trace y = xs_trace x @ ts" "carried_out (pending v) (set (pending v)) {} ts (vw_batch v) ys"
    "ro_tools (cf_run (sr_config (se_record (xs_session x)))) = Serial \<longrightarrow> serial_trace False (pending v) ts" .
  then show ?thesis by (auto simp: carried_out_def max_parallel_tools_def dest: serial_flight)
qed

theorem execute_tools_starts_before_it_runs_witness:
  "\<exists>y. execute_tools calm_env (pending busy_view) busy_state = Inr ((), y) \<and> all_marked (xs_trace y)
     \<and> distinct (executed (xs_trace y)) \<and> flight_ok 8 {} (xs_trace y)"
proof -
  from busy_run obtain y where y: "execute_tools calm_env (pending busy_view) busy_state = Inr ((), y)" by blast
  from execute_tools_starts_before_it_runs [OF busy_facts(1-4) y] y busy_facts(5,6) show ?thesis by auto
qed

end
