(* ===== verification/Wire.thy ===== *)
theory Wire
  imports Stream_Accumulator
begin

text \<open>
  What the wires of the model providers share: reading JSON values, the protocols and their modes
  (\<open>protocol/model_use.rs\<close>, \<open>protocol/model_use/mode.rs\<close>), what the request renderers agree on
  (\<open>protocol/model_use/request.rs\<close>) and errors reported inside a reply (\<open>protocol/http_error.rs\<close>).

  A JSON object under construction is the list of its members. Rendering a JSON value as text and
  lowering the case of a text beyond ASCII are arguments of the renderers.
\<close>

subsection \<open>Reading values\<close>

definition digits_value :: "string \<Rightarrow> nat" where
  "digits_value text = foldl (\<lambda>n c. n * 10 + (of_char c - 48)) 0 text"

definition is_digit :: "char \<Rightarrow> bool" where
  "is_digit c \<longleftrightarrow> 48 \<le> (of_char c :: nat) \<and> (of_char c :: nat) \<le> 57"

text \<open>A number read without a sign, a fraction or an exponent that fits in 64 bits.\<close>

definition as_u64 :: "json \<Rightarrow> nat option" where
  "as_u64 value = (case value of
     JNumber text \<Rightarrow>
       if text \<noteq> [] \<and> list_all is_digit text \<and> digits_value text \<le> u64_max then Some (digits_value text) else None
   | _ \<Rightarrow> None)"

text \<open>An integer literal that fits in 64 bits with a sign; it is its own text.\<close>

definition as_i64_text :: "json \<Rightarrow> string option" where
  "as_i64_text v = (case v of
     JNumber text \<Rightarrow>
       (let digits = (case text of c # rest \<Rightarrow> if c = CHR ''-'' then rest else text | [] \<Rightarrow> []);
            negative = text \<noteq> digits
        in if digits \<noteq> [] \<and> list_all is_digit digits \<and> digits_value digits \<le> (if negative then 2 ^ 63 else 2 ^ 63 - 1)
             \<and> (negative \<longrightarrow> digits_value digits \<noteq> 0)
           then Some text else None)
   | _ \<Rightarrow> None)"

definition as_array :: "json \<Rightarrow> json list option" where
  "as_array value = (case value of JArray items \<Rightarrow> Some items | _ \<Rightarrow> None)"

definition get_str :: "json \<Rightarrow> string \<Rightarrow> string option" where
  "get_str value key = Option.bind (json_get value key) as_str"

definition or_empty :: "string option \<Rightarrow> string" where
  "or_empty text = (case text of None \<Rightarrow> [] | Some t \<Rightarrow> t)"

definition jnat :: "nat \<Rightarrow> json" where
  "jnat n = JNumber (show_nat n)"

text \<open>\<open>Map::insert\<close>, and a change to the value of a field that is there.\<close>

fun put_field :: "string \<Rightarrow> json \<Rightarrow> (string \<times> json) list \<Rightarrow> (string \<times> json) list" where
  "put_field key value [] = [(key, value)]"
| "put_field key value ((k, v) # members) = (if k = key then (key, value) # members else (k, v) # put_field key value members)"

fun change_field :: "string \<Rightarrow> (json \<Rightarrow> json) \<Rightarrow> (string \<times> json) list \<Rightarrow> (string \<times> json) list" where
  "change_field key f [] = []"
| "change_field key f ((k, v) # members) = (if k = key then (k, f v) # members else (k, v) # change_field key f members)"

definition put_fields :: "(string \<times> json) list \<Rightarrow> (string \<times> json) list \<Rightarrow> (string \<times> json) list" where
  "put_fields new members = foldl (\<lambda>members (k, v). put_field k v members) members new"

fun set_member :: "string \<Rightarrow> json \<Rightarrow> json \<Rightarrow> json" where
  "set_member key value (JObject members) = JObject (put_field key value members)"
| "set_member key value other = other"

definition join_with_newlines :: "string list \<Rightarrow> string" where
  "join_with_newlines texts = (case texts of [] \<Rightarrow> [] | t # ts \<Rightarrow> t @ concat (map (\<lambda>u. CHR 0x0A # u) ts))"

definition flat_text :: "(json \<Rightarrow> string) \<Rightarrow> rendered_text \<Rightarrow> string" where
  "flat_text show_json pieces = concat (map (\<lambda>p. case p of Lit t \<Rightarrow> t | Rendered v \<Rightarrow> show_json v) pieces)"

subsection \<open>Protocols and modes\<close>

datatype chat_mode = ChatOfficial | ChatCompatible | ChatDeepSeek | ChatZai | ChatKimiK2 | ChatKimiK3 | ChatQwen
  | ChatMiniMax | ChatMimo | ChatTokenHub | ChatMistral

datatype messages_mode = MessagesOfficial | MessagesDeepSeek | MessagesZai | MessagesKimi | MessagesQwen
  | MessagesMiniMax | MessagesMimo | MessagesTokenHub

datatype reasoning_form = FormPlaintext | FormCiphertext

datatype responses_deployment = Platform | Codex

record responses_mode =
  rm_reasoning_form :: reasoning_form
  rm_deployment :: responses_deployment

datatype model_use_protocol = AnthropicMessages messages_mode | OpenAiChat chat_mode | OpenAiResponses responses_mode
  | GoogleGenerateContent | GoogleVertexGenerateContent | GoogleAntigravityGenerateContent | GoogleInteractions
  | BedrockConverse | MistralConversations

definition is_mistral :: "chat_mode \<Rightarrow> bool" where
  "is_mistral mode \<longleftrightarrow> mode = ChatMistral"

definition is_plain :: "chat_mode \<Rightarrow> bool" where
  "is_plain mode \<longleftrightarrow> mode = ChatOfficial \<or> mode = ChatCompatible"

definition has_reasoning_field :: "chat_mode \<Rightarrow> bool" where
  "has_reasoning_field mode \<longleftrightarrow> \<not> is_plain mode \<and> \<not> is_mistral mode"

fun get_reasoning_replay :: "model_use_protocol \<Rightarrow> reasoning_replay" where
  "get_reasoning_replay (AnthropicMessages mode) = \<lparr>rr_material = Some AnthropicSignature,
     rr_transparent = (mode \<noteq> MessagesOfficial), rr_proof = ProofSignatureOrCiphertext, rr_seals_next_part = False\<rparr>"
| "get_reasoning_replay BedrockConverse = \<lparr>rr_material = Some BedrockSignature, rr_transparent = False,
     rr_proof = ProofSignatureOrCiphertext, rr_seals_next_part = False\<rparr>"
| "get_reasoning_replay GoogleGenerateContent = \<lparr>rr_material = Some GoogleSignature, rr_transparent = False,
     rr_proof = ProofSignature, rr_seals_next_part = True\<rparr>"
| "get_reasoning_replay GoogleVertexGenerateContent = \<lparr>rr_material = Some GoogleSignature, rr_transparent = False,
     rr_proof = ProofSignature, rr_seals_next_part = True\<rparr>"
| "get_reasoning_replay GoogleAntigravityGenerateContent = \<lparr>rr_material = Some GoogleSignature, rr_transparent = False,
     rr_proof = ProofSignature, rr_seals_next_part = True\<rparr>"
| "get_reasoning_replay GoogleInteractions = \<lparr>rr_material = Some GoogleInteractionsThought, rr_transparent = False,
     rr_proof = ProofSignature, rr_seals_next_part = False\<rparr>"
| "get_reasoning_replay (OpenAiResponses mode) = (case rm_reasoning_form mode of
     FormPlaintext \<Rightarrow> \<lparr>rr_material = Some OpenAiEncrypted, rr_transparent = True, rr_proof = ProofPlaintext,
       rr_seals_next_part = False\<rparr>
   | FormCiphertext \<Rightarrow> \<lparr>rr_material = Some OpenAiEncrypted, rr_transparent = False, rr_proof = ProofCiphertext,
       rr_seals_next_part = False\<rparr>)"
| "get_reasoning_replay (OpenAiChat mode) =
     (if is_plain mode then \<lparr>rr_material = None, rr_transparent = False, rr_proof = ProofNever, rr_seals_next_part = False\<rparr>
      else \<lparr>rr_material = None, rr_transparent = True, rr_proof = ProofPlaintext, rr_seals_next_part = False\<rparr>)"
| "get_reasoning_replay MistralConversations = \<lparr>rr_material = None, rr_transparent = True, rr_proof = ProofPlaintext,
     rr_seals_next_part = False\<rparr>"

definition for_protocol :: "model_use_protocol \<Rightarrow> accumulator" where
  "for_protocol protocol = new_accumulator\<lparr>acc_replay := get_reasoning_replay protocol\<rparr>"

subsection \<open>Errors inside a reply\<close>

definition decode_in_band :: "json option \<Rightarrow> string list \<Rightarrow> string \<Rightarrow> error" where
  "decode_in_band error code_keys fallback =
     (let code = Option.bind (Option.bind error (\<lambda>e. fold (\<lambda>key found. if found \<noteq> None then found else json_get e key) code_keys None))
            as_str;
          message = Option.bind (Option.bind error (\<lambda>e. json_get e ''message'')) as_str
      in from_in_band code (case message of None \<Rightarrow> fallback | Some m \<Rightarrow> m))"

subsection \<open>Thinking\<close>

datatype tier_budget = Tokens nat | Adaptive

definition resolve_tier_budget :: "string \<Rightarrow> error + tier_budget" where
  "resolve_tier_budget effort =
     (if effort = ''low'' then Inr (Tokens 1024)
      else if effort = ''medium'' then Inr (Tokens 4096)
      else if effort = ''high'' then Inr (Tokens 16384)
      else if effort = ''max'' then Inr (Tokens 32768)
      else if effort = ''adaptive'' then Inr Adaptive
      else Inl (Build (''`'' @ effort
        @ ''` is not one of the budget tiers `low`, `medium`, `high`, `max` or `adaptive`'')))"

definition budgets_thinking :: "string \<Rightarrow> bool" where
  "budgets_thinking model = list_ex (contains model)
     [''claude-3'', ''claude-opus-4-0'', ''claude-opus-4-1'', ''claude-opus-4-2025'', ''claude-opus-4-5'',
      ''claude-sonnet-4-0'', ''claude-sonnet-4-2025'', ''claude-sonnet-4-5'', ''claude-haiku-4-5'']"

definition adaptive_thinking :: json where
  "adaptive_thinking = JObject [(''type'', JString ''adaptive'')]"

definition render_claude_thinking ::
  "(string \<Rightarrow> string) \<Rightarrow> string \<Rightarrow> reasoning_config \<Rightarrow> error + (string \<times> json) list" where
  "render_claude_thinking to_lowercase model config =
     (case rc_effort config of
        None \<Rightarrow> Inr (if rc_enabled config = Some True then [(''thinking'', adaptive_thinking)] else [])
      | Some effort \<Rightarrow>
          if budgets_thinking model
          then bindR (resolve_tier_budget effort) (\<lambda>budget. Inr [(''thinking'', case budget of
              Tokens n \<Rightarrow> JObject [(''type'', JString ''enabled''), (''budget_tokens'', jnat n)]
            | Adaptive \<Rightarrow> adaptive_thinking)])
          else Inr ((''thinking'', adaptive_thinking)
            # (if effort \<noteq> ''adaptive'' then [(''output_config'', JObject [(''effort'', JString (to_lowercase effort))])] else [])))"

definition answer_headroom :: nat where "answer_headroom = 4096"

text \<open>The budgets are those of the preset, so that the sum stays below 64 bits.\<close>

definition lift_cap_above_budget :: "nat \<Rightarrow> nat \<Rightarrow> nat" where
  "lift_cap_above_budget cap budget_tokens = (if cap > budget_tokens then cap else budget_tokens + answer_headroom)"

definition render_thinking_switch :: "bool \<Rightarrow> json" where
  "render_thinking_switch enabled = JObject [(''type'', JString (if enabled then ''enabled'' else ''disabled''))]"

subsection \<open>Instructions and turns\<close>

fun collect_instruction_text :: "content_block list \<Rightarrow> string \<Rightarrow> error + string list" where
  "collect_instruction_text [] refusal = Inr []"
| "collect_instruction_text (Text text # content) refusal =
     bindR (collect_instruction_text content refusal) (\<lambda>texts. Inr (text # texts))"
| "collect_instruction_text (_ # content) refusal = Inl (Build refusal)"

fun split_leading_instructions :: "message list \<Rightarrow> string \<Rightarrow> error + string list list \<times> message list" where
  "split_leading_instructions (System m content # tail) refusal =
     bindR (collect_instruction_text content refusal) (\<lambda>text.
     bindR (split_leading_instructions tail refusal) (\<lambda>(run, rest). Inr (text # run, rest)))"
| "split_leading_instructions (Developer m f content # tail) refusal =
     bindR (collect_instruction_text content refusal) (\<lambda>text.
     bindR (split_leading_instructions tail refusal) (\<lambda>(run, rest). Inr (text # run, rest)))"
| "split_leading_instructions rest refusal = Inr ([], rest)"

type_synonym turns = "(string \<times> json list) list"

definition push_turn :: "string \<Rightarrow> json list \<Rightarrow> turns \<Rightarrow> turns" where
  "push_turn role blocks turns =
     (if blocks = [] then turns
      else if turns \<noteq> [] \<and> fst (last turns) = role
      then butlast turns @ [(role, snd (last turns) @ blocks)]
      else turns @ [(role, blocks)])"

definition finish_turns :: "string \<Rightarrow> turns \<Rightarrow> json list" where
  "finish_turns blocks_key turns = map (\<lambda>(role, blocks). JObject [(''role'', JString role), (blocks_key, JArray blocks)]) turns"

definition finish_from_user :: "string \<Rightarrow> string \<Rightarrow> turns \<Rightarrow> error + json list" where
  "finish_from_user blocks_key refusal turns =
     (if turns \<noteq> [] \<and> fst (hd turns) \<noteq> ''user'' then Inl (Build refusal) else Inr (finish_turns blocks_key turns))"

subsection \<open>Completions\<close>

text \<open>The completions added to the events of a record change nothing when no block ends there.\<close>

lemma completions_none: "\<forall>i. BlockEnd i \<notin> set es \<Longrightarrow> append_block_completions es = es"
proof -
  assume a: "\<forall>i. BlockEnd i \<notin> set es"
  have "concat (map (\<lambda>event. case event of BlockEnd index \<Rightarrow> if n then [event, BlockComplete index] else [event] | _ \<Rightarrow> [event]) es) = es" for n
    using a by (induction es) (auto split: stream_event.split)
  then show ?thesis unfolding append_block_completions_def Let_def by blast
qed

end
