(* ===== verification/Anthropic.thy ===== *)
theory Anthropic
  imports Wire
begin

text \<open>
  The Anthropic Messages wire: reading a buffered body
  (\<open>protocol/model_use/response/anthropic_messages.rs\<close>), decoding a stream
  (\<open>protocol/model_use/stream/anthropic_messages.rs\<close>) and rendering a request
  (\<open>protocol/model_use/request/anthropic_messages.rs\<close>).
\<close>

subsection \<open>A buffered body\<close>

definition map_stop_reason :: "string option \<Rightarrow> stop_reason" where
  "map_stop_reason reason = (case reason of
     None \<Rightarrow> StopUnknown
   | Some r \<Rightarrow>
       if r \<in> {''end_turn'', ''stop_sequence'', ''pause_turn''} then Stop
       else if r = ''max_tokens'' then MaxOutputLengthExceeded
       else if r = ''model_context_window_exceeded'' then ContextLengthExceeded
       else if r = ''tool_use'' then StopToolUse
       else if r = ''refusal'' then ContentFilter
       else StopUnknown)"

definition usage_field :: "json \<Rightarrow> string \<Rightarrow> nat option" where
  "usage_field u name = Option.bind (json_get u name) as_u64"

definition or_zero :: "nat option \<Rightarrow> nat" where
  "or_zero n = (case n of None \<Rightarrow> 0 | Some k \<Rightarrow> k)"

definition or_keep :: "'a option \<Rightarrow> 'a option \<Rightarrow> 'a option" where
  "or_keep new old = (if new \<noteq> None then new else old)"

definition merge_usage :: "usage \<Rightarrow> json \<Rightarrow> usage" where
  "merge_usage running u =
     (let cached = usage_field u ''cache_read_input_tokens'';
          cache_write = usage_field u ''cache_creation_input_tokens'';
          thinking = Option.bind (Option.bind (json_get u ''output_tokens_details'') (\<lambda>d. json_get d ''thinking_tokens'')) as_u64;
          input = map_option (\<lambda>n. saturating_add (saturating_add n (or_zero cached)) (or_zero cache_write))
            (usage_field u ''input_tokens'');
          output = usage_field u ''output_tokens'';
          running = running\<lparr>cached_input_tokens := or_keep cached (cached_input_tokens running),
            cache_write_input_tokens := or_keep cache_write (cache_write_input_tokens running),
            input_tokens := or_keep input (input_tokens running),
            output_tokens := or_keep output (output_tokens running),
            reasoning_tokens := or_keep thinking (reasoning_tokens running)\<rparr>
      in case (input_tokens running, output_tokens running) of
           (Some i, Some out) \<Rightarrow> running\<lparr>total_tokens := Some (saturating_add i out)\<rparr>
         | _ \<Rightarrow> running)"

definition decode_usage :: "json \<Rightarrow> usage" where
  "decode_usage body = (case json_get body ''usage'' of None \<Rightarrow> default_usage | Some u \<Rightarrow> merge_usage default_usage u)"

definition decode_tool_use :: "json \<Rightarrow> error + message" where
  "decode_tool_use b =
     (case get_str b ''id'' of
        None \<Rightarrow> Inl (Malformed ''tool_use block is missing `id`'')
      | Some call_id \<Rightarrow>
          (case get_str b ''name'' of
             None \<Rightarrow> Inl (Malformed ''tool_use block is missing `name`'')
           | Some name \<Rightarrow>
               Inr (ToolUse JNull call_id name (case json_get b ''input'' of None \<Rightarrow> JObject [] | Some v \<Rightarrow> v))))"

definition flush_content :: "message list \<Rightarrow> content_block list \<Rightarrow> message list" where
  "flush_content messages content = (if content = [] then messages else messages @ [Assistant JNull content])"

text \<open>The loop over the blocks, with the messages so far and the text not flushed yet.\<close>

fun decode_blocks :: "stop_reason \<Rightarrow> json list \<Rightarrow> message list \<Rightarrow> content_block list \<Rightarrow> error + message list" where
  "decode_blocks stop [] messages content = Inr (flush_content messages content)"
| "decode_blocks stop (b # blocks) messages content =
     (let field = (\<lambda>name. or_empty (get_str b name)); kind = get_str b ''type'' in
      if kind = Some ''text'' then decode_blocks stop blocks messages (content @ [Text (field ''text'')])
      else if kind = Some ''thinking''
      then decode_blocks stop blocks
        (flush_content messages content @ [signed_reasoning (field ''thinking'') (field ''signature'') AnthropicSignature]) []
      else if kind = Some ''redacted_thinking''
      then decode_blocks stop blocks
        (flush_content messages content @ [redacted_reasoning (field ''data'') AnthropicRedacted]) []
      else if kind = Some ''tool_use'' \<and> stop \<noteq> MaxOutputLengthExceeded
      then bindR (decode_tool_use b) (\<lambda>call. decode_blocks stop blocks (flush_content messages content @ [call]) [])
      else decode_blocks stop blocks messages content)"

definition in_band_error :: "json \<Rightarrow> error" where
  "in_band_error payload = decode_in_band (json_get payload ''error'') [''type''] ''upstream reported an error without a message''"

definition anthropic_decode :: "json \<Rightarrow> error + response" where
  "anthropic_decode body =
     (if get_str body ''type'' = Some ''error'' then Inl (in_band_error body)
      else
        let stop = map_stop_reason (get_str body ''stop_reason'');
            blocks = (case Option.bind (json_get body ''content'') as_array of None \<Rightarrow> [] | Some bs \<Rightarrow> bs)
        in bindR (decode_blocks stop blocks [] []) (\<lambda>messages.
             Inr \<lparr>resp_messages = messages, resp_stop_reason = stop, resp_usage = decode_usage body,
               resp_account_state = None\<rparr>))"

subsection \<open>A stream\<close>

record anthropic_decoder =
  ad_usage :: usage
  ad_stop_reason :: "stop_reason option"

definition decoder_new :: anthropic_decoder where
  "decoder_new = \<lparr>ad_usage = default_usage, ad_stop_reason = None\<rparr>"

definition u32_max :: nat where "u32_max = 2 ^ 32 - 1"

definition parse_block_index :: "json \<Rightarrow> string \<Rightarrow> error + nat" where
  "parse_block_index payload event =
     (case Option.bind (json_get payload ''index'') as_u64 of
        Some index \<Rightarrow> if index \<le> u32_max then Inr index else Inl (Malformed (event @ '' is missing a usable `index`''))
      | None \<Rightarrow> Inl (Malformed (event @ '' is missing a usable `index`'')))"

definition block_started :: "json \<Rightarrow> nat \<Rightarrow> error + stream_event list" where
  "block_started payload index =
     (let field = (\<lambda>name. Option.bind (json_get payload ''content_block'') (\<lambda>b. get_str b name));
          kind = or_empty (field ''type'')
      in if kind = ''text'' then Inr [BlockStart index KindText]
         else if kind = ''thinking'' then Inr [BlockStart index KindReasoning]
         else if kind = ''redacted_thinking''
         then Inr [BlockStart index KindReasoning, ReasoningCiphertextDelta index (or_empty (field ''data''))]
         else if kind = ''tool_use''
         then (case field ''id'' of
             None \<Rightarrow> Inl (Malformed ''tool_use block is missing `id`'')
           | Some call_id \<Rightarrow>
               (case field ''name'' of
                  None \<Rightarrow> Inl (Malformed ''tool_use block is missing `name`'')
                | Some name \<Rightarrow> Inr [BlockStart index KindToolUse, ToolUseDelta index (Some call_id) (Some name) []]))
         else Inr [])"

definition block_delta :: "json \<Rightarrow> nat \<Rightarrow> stream_event list" where
  "block_delta payload index =
     (let field = (\<lambda>name. or_empty (Option.bind (json_get payload ''delta'') (\<lambda>d. get_str d name)));
          kind = field ''type''
      in if kind = ''text_delta'' then [TextDelta index (field ''text'')]
         else if kind = ''thinking_delta'' then [ReasoningDelta index (field ''thinking'')]
         else if kind = ''signature_delta'' then [ReasoningSignatureDelta index (field ''signature'')]
         else if kind = ''input_json_delta'' then [ToolUseDelta index None None (field ''partial_json'')]
         else [])"

definition note_wire_usage :: "json option \<Rightarrow> anthropic_decoder \<Rightarrow> anthropic_decoder \<times> stream_event list" where
  "note_wire_usage u d = (case u of
     None \<Rightarrow> (d, [])
   | Some u \<Rightarrow> let running = merge_usage (ad_usage d) u in (d\<lparr>ad_usage := running\<rparr>, [UsageEvent running]))"

definition feed_payload :: "anthropic_decoder \<Rightarrow> string option \<Rightarrow> json \<Rightarrow> error + anthropic_decoder \<times> stream_event list" where
  "feed_payload d event payload =
     (let kind = (case get_str payload ''type'' of Some k \<Rightarrow> k | None \<Rightarrow> or_empty event) in
      if kind = ''message_start''
      then Inr (note_wire_usage (Option.bind (json_get payload ''message'') (\<lambda>m. json_get m ''usage'')) d)
      else if kind = ''content_block_start''
      then bindR (parse_block_index payload kind) (\<lambda>index. bindR (block_started payload index) (\<lambda>events. Inr (d, events)))
      else if kind = ''content_block_delta''
      then bindR (parse_block_index payload kind) (\<lambda>index. Inr (d, block_delta payload index))
      else if kind = ''content_block_stop''
      then bindR (parse_block_index payload kind) (\<lambda>index. Inr (d, [BlockEnd index]))
      else if kind = ''message_delta''
      then let d = (case Option.bind (json_get payload ''delta'') (\<lambda>x. get_str x ''stop_reason'') of
                 None \<Rightarrow> d
               | Some reason \<Rightarrow> d\<lparr>ad_stop_reason := Some (map_stop_reason (Some reason))\<rparr>)
           in Inr (note_wire_usage (json_get payload ''usage'') d)
      else if kind = ''message_stop''
      then Inr (d\<lparr>ad_stop_reason := None\<rparr>,
        [StopEvent (case ad_stop_reason d of None \<Rightarrow> map_stop_reason None | Some reason \<Rightarrow> reason)])
      else if kind = ''error'' then Inl (in_band_error payload)
      else Inr (d, []))"

text \<open>
  \<open>read_json\<close> is the JSON library's reader, with the text of its error. \<open>StreamDecoder::feed\<close> adds the
  completions of the blocks a record closed.
\<close>

definition anthropic_feed ::
  "(string \<Rightarrow> string + json) \<Rightarrow> anthropic_decoder \<Rightarrow> string option \<Rightarrow> string \<Rightarrow> error + anthropic_decoder \<times> stream_event list" where
  "anthropic_feed read_json d event data =
     (case read_json data of
        Inl e \<Rightarrow> Inl (Malformed (''anthropic event is not JSON: '' @ e))
      | Inr payload \<Rightarrow> feed_payload d event payload)"

definition decoder_feed ::
  "(string \<Rightarrow> string + json) \<Rightarrow> anthropic_decoder \<Rightarrow> string option \<Rightarrow> string \<Rightarrow> error + anthropic_decoder \<times> stream_event list" where
  "decoder_feed read_json d event data =
     bindR (anthropic_feed read_json d event data) (\<lambda>(d, events). Inr (d, append_block_completions events))"

fun decode_records ::
  "(string \<Rightarrow> string + json) \<Rightarrow> anthropic_decoder \<Rightarrow> (string option \<times> string) list \<Rightarrow> error + stream_event list" where
  "decode_records read_json d [] = Inr []"
| "decode_records read_json d ((event, data) # records) =
     bindR (decoder_feed read_json d event data) (\<lambda>(d, events).
     bindR (decode_records read_json d records) (\<lambda>rest. Inr (events @ rest)))"

end
