(* ===== verification/Anthropic_Stream.thy ===== *)
theory Anthropic_Stream
  imports Anthropic Stream_Contract
begin

text \<open>
  A message of the Anthropic wire in its two forms, as one body and as the records of a stream, and
  what the program makes of either: the stream, decoded and accumulated, is the response the body
  decodes to.
\<close>

subsection \<open>A message in both forms\<close>

datatype wire_block =
    WText "string list"
  | WThinking "string list" "string list"
  | WRedacted string
  | WTool string string "string list" json

fun body_block :: "wire_block \<Rightarrow> json" where
  "body_block (WText ds) = JObject [(''type'', JString ''text''), (''text'', JString (concat ds))]"
| "body_block (WThinking ts ss) = JObject [(''type'', JString ''thinking''), (''thinking'', JString (concat ts)),
     (''signature'', JString (concat ss))]"
| "body_block (WRedacted data) = JObject [(''type'', JString ''redacted_thinking''), (''data'', JString data)]"
| "body_block (WTool call_id name fs input) = JObject [(''type'', JString ''tool_use''), (''id'', JString call_id),
     (''name'', JString name), (''input'', input)]"

definition message_body :: "wire_block list \<Rightarrow> string \<Rightarrow> json \<Rightarrow> json" where
  "message_body bs reason u = JObject [(''type'', JString ''message''), (''content'', JArray (map body_block bs)),
     (''stop_reason'', JString reason), (''usage'', u)]"

fun start_block :: "wire_block \<Rightarrow> json" where
  "start_block (WText ds) = JObject [(''type'', JString ''text''), (''text'', JString [])]"
| "start_block (WThinking ts ss) = JObject [(''type'', JString ''thinking''), (''thinking'', JString [])]"
| "start_block (WRedacted data) = JObject [(''type'', JString ''redacted_thinking''), (''data'', JString data)]"
| "start_block (WTool call_id name fs input) = JObject [(''type'', JString ''tool_use''), (''id'', JString call_id),
     (''name'', JString name), (''input'', JObject [])]"

definition delta_block :: "string \<Rightarrow> string \<Rightarrow> string \<Rightarrow> json" where
  "delta_block kind key text = JObject [(''type'', JString kind), (key, JString text)]"

fun delta_blocks :: "wire_block \<Rightarrow> json list" where
  "delta_blocks (WText ds) = map (delta_block ''text_delta'' ''text'') ds"
| "delta_blocks (WThinking ts ss) =
     map (delta_block ''thinking_delta'' ''thinking'') ts @ map (delta_block ''signature_delta'' ''signature'') ss"
| "delta_blocks (WRedacted data) = []"
| "delta_blocks (WTool call_id name fs input) = map (delta_block ''input_json_delta'' ''partial_json'') fs"

definition block_payloads :: "nat \<Rightarrow> wire_block \<Rightarrow> json list" where
  "block_payloads i b =
     [JObject [(''type'', JString ''content_block_start''), (''index'', jnat i), (''content_block'', start_block b)]]
     @ map (\<lambda>d. JObject [(''type'', JString ''content_block_delta''), (''index'', jnat i), (''delta'', d)]) (delta_blocks b)
     @ [JObject [(''type'', JString ''content_block_stop''), (''index'', jnat i)]]"

fun blocks_payloads :: "nat \<Rightarrow> wire_block list \<Rightarrow> json list" where
  "blocks_payloads i [] = []"
| "blocks_payloads i (b # bs) = block_payloads i b @ blocks_payloads (Suc i) bs"

definition message_payloads :: "wire_block list \<Rightarrow> string \<Rightarrow> json \<Rightarrow> json \<Rightarrow> json list" where
  "message_payloads bs reason u1 u2 =
     [JObject [(''type'', JString ''message_start''), (''message'', JObject [(''usage'', u1)])]]
     @ blocks_payloads 0 bs
     @ [JObject [(''type'', JString ''message_delta''), (''delta'', JObject [(''stop_reason'', JString reason)]), (''usage'', u2)],
        JObject [(''type'', JString ''message_stop'')]]"

definition is_ping :: "json \<Rightarrow> bool" where
  "is_ping payload \<longleftrightarrow> get_str payload ''type'' = Some ''ping''"

subsection \<open>Numbers on the wire\<close>

lemma digits_show: "digits_value (show_nat n) = n \<and> show_nat n \<noteq> [] \<and> list_all is_digit (show_nat n)"
proof (induction n rule: show_nat.induct)
  case (1 n)
  have d: "of_char (digit_char k) = 48 + k" "is_digit (digit_char k)" if "k < 10" for k
    using that by (auto simp: digit_char_def is_digit_def of_char_of)
  show ?case
  proof (cases "n < 10")
    case True
    with d show ?thesis by (simp add: show_nat.simps [of n] digits_value_def)
  next
    case False
    with 1 d [of "n mod 10"] show ?thesis by (subst (1 2 3) show_nat.simps) (simp add: digits_value_def)
  qed
qed

lemma as_u64_jnat [simp]: "n \<le> u64_max \<Longrightarrow> as_u64 (jnat n) = Some n"
  using digits_show [of n] by (simp add: as_u64_def jnat_def)

lemma u32_u64: "n \<le> u32_max \<Longrightarrow> n \<le> u64_max"
  by (simp add: u32_max_def u64_max_def)

subsection \<open>Records, payloads and heartbeats\<close>

fun run_payloads :: "anthropic_decoder \<Rightarrow> json list \<Rightarrow> error + anthropic_decoder \<times> stream_event list" where
  "run_payloads d [] = Inr (d, [])"
| "run_payloads d (p # ps) =
     bindR (feed_payload d None p) (\<lambda>(d, es).
     bindR (run_payloads d ps) (\<lambda>(d, rest). Inr (d, append_block_completions es @ rest)))"

lemma run_payloads_append:
  "run_payloads d (ps @ qs) = bindR (run_payloads d ps) (\<lambda>(d, es).
     bindR (run_payloads d qs) (\<lambda>(d, fs). Inr (d, es @ fs)))"
proof (induction ps arbitrary: d)
  case Nil
  then show ?case by (cases "run_payloads d qs") auto
next
  case (Cons p ps)
  show ?case
  proof (cases "feed_payload d None p")
    case (Inr r)
    obtain d' es where r: "r = (d', es)" by (cases r)
    show ?thesis using Inr r Cons.IH [of d']
      by (cases "run_payloads d' ps") (auto simp: bindR_def split: sum.split prod.split)
  qed simp
qed

text \<open>The payload names its type, so the name of the record does not matter.\<close>

lemma feed_payload_event: "get_str p ''type'' \<noteq> None \<Longrightarrow> feed_payload d ev p = feed_payload d None p"
  by (auto simp: feed_payload_def)

lemma decode_records_payloads:
  assumes "list_all2 (\<lambda>(ev, data) p. read_json data = Inr p) records ps" and "\<forall>p \<in> set ps. get_str p ''type'' \<noteq> None"
  shows "decode_records read_json d records = bindR (run_payloads d ps) (\<lambda>(_, es). Inr es)"
  using assms
proof (induction records ps arbitrary: d rule: list_all2_induct)
  case (Cons r records p ps)
  obtain ev data where r: "r = (ev, data)" by (cases r)
  with Cons have p: "read_json data = Inr p" "feed_payload d ev p = feed_payload d None p"
    using feed_payload_event [of p d ev] by auto
  show ?case
  proof (cases "feed_payload d None p")
    case (Inr x)
    obtain d' es where x: "x = (d', es)" by (cases x)
    from Cons.IH [of d'] Cons.prems Inr x p r show ?thesis
      by (cases "run_payloads d' ps") (auto simp: decoder_feed_def anthropic_feed_def)
  qed (use p r in \<open>simp add: decoder_feed_def anthropic_feed_def\<close>)
qed simp

lemma run_payloads_pings: "run_payloads d ps = run_payloads d (filter (\<lambda>p. \<not> is_ping p) ps)"
proof (induction ps arbitrary: d)
  case (Cons p ps)
  show ?case
  proof (cases "is_ping p")
    case True
    then have "feed_payload d None p = Inr (d, [])" by (simp add: is_ping_def feed_payload_def)
    with True Cons show ?thesis
      by (cases "run_payloads d (filter (\<lambda>p. \<not> is_ping p) ps)") (auto simp: append_block_completions_def)
  next
    case False
    then show ?thesis using Cons by simp
  qed
qed simp

subsection \<open>The events of a block\<close>

fun block_events :: "nat \<Rightarrow> wire_block \<Rightarrow> stream_event list" where
  "block_events i (WText ds) = BlockStart i KindText # map (TextDelta i) ds"
| "block_events i (WThinking ts ss) =
     BlockStart i KindReasoning # map (ReasoningDelta i) ts @ map (ReasoningSignatureDelta i) ss"
| "block_events i (WRedacted data) = [BlockStart i KindReasoning, ReasoningCiphertextDelta i data]"
| "block_events i (WTool call_id name fs input) =
     BlockStart i KindToolUse # ToolUseDelta i (Some call_id) (Some name) [] # map (ToolUseDelta i None None) fs"

definition closed_events :: "nat \<Rightarrow> wire_block \<Rightarrow> stream_event list" where
  "closed_events i b = block_events i b @ [BlockEnd i, BlockComplete i]"

lemma run_deltas:
  assumes "i \<le> u32_max" and "\<And>x. x \<in> set xs \<Longrightarrow> \<exists>e. (\<forall>j. e \<noteq> BlockEnd j) \<and> E x = [e]
     \<and> block_delta (JObject [(''type'', JString ''content_block_delta''), (''index'', jnat i), (''delta'', x)]) i = [e]"
  shows "run_payloads d (map (\<lambda>x. JObject [(''type'', JString ''content_block_delta''), (''index'', jnat i), (''delta'', x)]) xs)
     = Inr (d, concat (map E xs))"
  using assms(2)
proof (induction xs)
  case (Cons x xs)
  from Cons.prems [of x] obtain e where e: "\<forall>j. e \<noteq> BlockEnd j" "E x = [e]"
    "block_delta (JObject [(''type'', JString ''content_block_delta''), (''index'', jnat i), (''delta'', x)]) i = [e]" by auto
  have "append_block_completions [e] = [e]" by (rule completions_none) (use e(1) in auto)
  with e Cons.IH Cons.prems show ?case
    using assms(1) u32_u64 [OF assms(1)] by (simp add: feed_payload_def get_str_def parse_block_index_def)
qed simp

lemma block_delta_simps:
  "block_delta (JObject [(''type'', JString ''content_block_delta''), (''index'', jnat i), (''delta'', delta_block ''text_delta'' ''text'' t)]) i
     = [TextDelta i t]"
  "block_delta (JObject [(''type'', JString ''content_block_delta''), (''index'', jnat i), (''delta'', delta_block ''thinking_delta'' ''thinking'' t)]) i
     = [ReasoningDelta i t]"
  "block_delta (JObject [(''type'', JString ''content_block_delta''), (''index'', jnat i), (''delta'', delta_block ''signature_delta'' ''signature'' t)]) i
     = [ReasoningSignatureDelta i t]"
  "block_delta (JObject [(''type'', JString ''content_block_delta''), (''index'', jnat i), (''delta'', delta_block ''input_json_delta'' ''partial_json'' t)]) i
     = [ToolUseDelta i None None t]"
  by (simp_all add: block_delta_def delta_block_def get_str_def or_empty_def)

lemma run_block_deltas:
  assumes "i \<le> u32_max"
  shows "run_payloads d (map (\<lambda>x. JObject [(''type'', JString ''content_block_delta''), (''index'', jnat i), (''delta'', x)]) (delta_blocks b))
     = Inr (d, concat (map (\<lambda>x. block_delta (JObject [(''type'', JString ''content_block_delta''), (''index'', jnat i), (''delta'', x)]) i) (delta_blocks b)))"
  by (rule run_deltas [OF assms]) (cases b; auto simp: block_delta_simps)

lemma run_block:
  assumes "i \<le> u32_max"
  shows "run_payloads d (block_payloads i b) = Inr (d, closed_events i b)"
proof -
  note u = u32_u64 [OF assms]
  have stop: "append_block_completions [BlockEnd i] = [BlockEnd i, BlockComplete i]"
    by (simp add: append_block_completions_def is_abnormal_stop_def)
  have "run_payloads d [JObject [(''type'', JString ''content_block_stop''), (''index'', jnat i)]] = Inr (d, [BlockEnd i, BlockComplete i])"
    using assms u stop by (simp add: feed_payload_def get_str_def parse_block_index_def)
  moreover have "\<exists>es. run_payloads d [JObject [(''type'', JString ''content_block_start''), (''index'', jnat i), (''content_block'', start_block b)]]
      = Inr (d, es) \<and> es @ concat (map (\<lambda>x. block_delta (JObject [(''type'', JString ''content_block_delta''), (''index'', jnat i), (''delta'', x)]) i)
        (delta_blocks b)) = block_events i b"
    using assms u by (cases b) (simp_all add: feed_payload_def get_str_def parse_block_index_def block_started_def or_empty_def
        append_block_completions_def block_delta_simps comp_def concat_map_singleton)
  ultimately show ?thesis
    unfolding block_payloads_def closed_events_def run_payloads_append run_block_deltas [OF assms] by (elim exE conjE) simp
qed

fun blocks_events :: "nat \<Rightarrow> wire_block list \<Rightarrow> stream_event list" where
  "blocks_events i [] = []"
| "blocks_events i (b # bs) = closed_events i b @ blocks_events (Suc i) bs"

lemma run_blocks: "i + length bs \<le> Suc u32_max \<Longrightarrow> run_payloads d (blocks_payloads i bs) = Inr (d, blocks_events i bs)"
  by (induction bs arbitrary: i) (simp_all add: run_payloads_append run_block)

subsection \<open>The accumulator\<close>

lemma bt_insert_end:
  assumes "\<forall>k \<in> fst ` set bs. k < (i :: nat)"
  shows "bt_insert i v bs = bs @ [(i, v)]" and "bt_insert i v (bs @ [(i, w)]) = bs @ [(i, v)]"
    and "map_of (bs @ [(i, w)]) i = Some w" and "map_of bs i = None"
proof -
  show "bt_insert i v bs = bs @ [(i, v)]" "bt_insert i v (bs @ [(i, w)]) = bs @ [(i, v)]"
    using assms by (induction bs) auto
  have "i \<notin> fst ` set bs" using assms by blast
  then show n: "map_of bs i = None" by (simp add: map_of_eq_None_iff)
  then show "map_of (bs @ [(i, w)]) i = Some w" by (simp add: map_add_def)
qed

lemma feed_deltas:
  assumes "\<And>d a. feed_open (E d) a = edit_block i k (g d) a" and "\<And>d b. bl_kind (g d b) = bl_kind b" "\<And>d b. bl_closed (g d b) = bl_closed b"
    and "acc_stop_reason acc = None" and "\<forall>k \<in> fst ` set bs. k < i" and "bl_kind b = k" and "\<not> bl_closed b"
  shows "feed_all (map E ds) (acc\<lparr>acc_blocks := bs @ [(i, b)]\<rparr>) = Inr (acc\<lparr>acc_blocks := bs @ [(i, foldl (\<lambda>b d. g d b) b ds)]\<rparr>)"
  using assms(6,7)
proof (induction ds arbitrary: b)
  case (Cons d ds)
  have "edit_block i k (g d) (acc\<lparr>acc_blocks := bs @ [(i, b)]\<rparr>) = Inr (acc\<lparr>acc_blocks := bs @ [(i, g d b)]\<rparr>)"
    using Cons.prems bt_insert_end [OF assms(5)] by (simp add: edit_block_Inr)
  then have "feed (acc\<lparr>acc_blocks := bs @ [(i, b)]\<rparr>) (E d) = Inr (acc\<lparr>acc_blocks := bs @ [(i, g d b)]\<rparr>)"
    using assms(1,4) by (simp add: feed_def)
  with Cons.IH [of "g d b"] Cons.prems assms(2,3) show ?case by simp
qed simp

lemma foldl_parts:
  "foldl (\<lambda>b d. b\<lparr>bl_text := bl_text b @ d\<rparr>) b ds = b\<lparr>bl_text := bl_text b @ concat ds\<rparr>"
  "foldl (\<lambda>b d. b\<lparr>bl_plaintext := bl_plaintext b @ d\<rparr>) b ds = b\<lparr>bl_plaintext := bl_plaintext b @ concat ds\<rparr>"
  "foldl (\<lambda>b d. b\<lparr>bl_signature := bl_signature b @ d\<rparr>) b ds = b\<lparr>bl_signature := bl_signature b @ concat ds\<rparr>"
  "foldl (\<lambda>b d. push_tool_delta None None d b) b ds = b\<lparr>bl_arguments := bl_arguments b @ concat ds\<rparr>"
  by (induction ds arbitrary: b) (simp_all add: push_tool_delta_def)

fun streamed_block :: "wire_block \<Rightarrow> block" where
  "streamed_block (WText ds) = (new_block KindText)\<lparr>bl_text := concat ds\<rparr>"
| "streamed_block (WThinking ts ss) = (new_block KindReasoning)\<lparr>bl_plaintext := concat ts, bl_signature := concat ss\<rparr>"
| "streamed_block (WRedacted data) = (new_block KindReasoning)\<lparr>bl_ciphertext := data\<rparr>"
| "streamed_block (WTool call_id name fs input) =
     (new_block KindToolUse)\<lparr>bl_call_id := Some call_id, bl_name := Some name, bl_arguments := concat fs\<rparr>"

definition finished_block :: "wire_block \<Rightarrow> block" where
  "finished_block b = (streamed_block b)\<lparr>bl_closed := True, bl_complete := True\<rparr>"

lemma feed_block_events:
  assumes "acc_stop_reason acc = None" and "acc_blocks acc = bs" and "\<forall>k \<in> fst ` set bs. k < i"
  shows "feed_all (block_events i b) acc = Inr (acc\<lparr>acc_blocks := bs @ [(i, streamed_block b)]\<rparr>)"
proof -
  note e = bt_insert_end [OF assms(3)]
  have start: "feed acc (BlockStart i k) = Inr (acc\<lparr>acc_blocks := bs @ [(i, new_block k)]\<rparr>)" for k
    using assms(1,2) e by (simp add: feed_def open_block_def)
  note fd = feed_deltas [OF _ _ _ assms(1,3)]
  show ?thesis
  proof (cases b)
    case (WText ds)
    with start fd [of "TextDelta i" KindText "\<lambda>d b. b\<lparr>bl_text := bl_text b @ d\<rparr>" "new_block KindText" ds] foldl_parts(1)
    show ?thesis by (simp add: new_block_def)
  next
    case (WThinking ts ss)
    let ?b = "(new_block KindReasoning)\<lparr>bl_plaintext := concat ts\<rparr>"
    have "feed_all (map (ReasoningDelta i) ts) (acc\<lparr>acc_blocks := bs @ [(i, new_block KindReasoning)]\<rparr>)
        = Inr (acc\<lparr>acc_blocks := bs @ [(i, ?b)]\<rparr>)"
      using fd [of "ReasoningDelta i" KindReasoning "\<lambda>d b. b\<lparr>bl_plaintext := bl_plaintext b @ d\<rparr>" "new_block KindReasoning" ts] foldl_parts(2)
      by (simp add: new_block_def)
    moreover have "feed_all (map (ReasoningSignatureDelta i) ss) (acc\<lparr>acc_blocks := bs @ [(i, ?b)]\<rparr>)
        = Inr (acc\<lparr>acc_blocks := bs @ [(i, streamed_block b)]\<rparr>)"
      using fd [of "ReasoningSignatureDelta i" KindReasoning "\<lambda>d b. b\<lparr>bl_signature := bl_signature b @ d\<rparr>" ?b ss] foldl_parts(3) WThinking
      by (simp add: new_block_def)
    ultimately show ?thesis using start WThinking by (simp add: feed_all_append)
  next
    case (WRedacted data)
    have "feed (acc\<lparr>acc_blocks := bs @ [(i, new_block KindReasoning)]\<rparr>) (ReasoningCiphertextDelta i data)
        = Inr (acc\<lparr>acc_blocks := bs @ [(i, streamed_block b)]\<rparr>)"
      using assms(1) e WRedacted by (simp add: feed_def edit_block_Inr new_block_def)
    with start WRedacted show ?thesis by simp
  next
    case (WTool call_id name fs input)
    let ?b = "(new_block KindToolUse)\<lparr>bl_call_id := Some call_id, bl_name := Some name\<rparr>"
    have "feed (acc\<lparr>acc_blocks := bs @ [(i, new_block KindToolUse)]\<rparr>) (ToolUseDelta i (Some call_id) (Some name) [])
        = Inr (acc\<lparr>acc_blocks := bs @ [(i, ?b)]\<rparr>)"
      using assms(1) e by (simp add: feed_def edit_block_Inr new_block_def push_tool_delta_def)
    moreover have "feed_all (map (ToolUseDelta i None None) fs) (acc\<lparr>acc_blocks := bs @ [(i, ?b)]\<rparr>)
        = Inr (acc\<lparr>acc_blocks := bs @ [(i, streamed_block b)]\<rparr>)"
      using fd [of "ToolUseDelta i None None" KindToolUse "push_tool_delta None None" ?b fs] foldl_parts(4) [of ?b fs] WTool
      by (simp add: new_block_def push_tool_delta_def)
    ultimately show ?thesis using start WTool by simp
  qed
qed

lemma feed_closed_events:
  assumes "acc_stop_reason acc = None" and "acc_blocks acc = bs" and "\<forall>k \<in> fst ` set bs. k < i"
  shows "feed_all (closed_events i b) acc = Inr (acc\<lparr>acc_blocks := bs @ [(i, finished_block b)]\<rparr>)"
proof -
  note e = bt_insert_end [OF assms(3)]
  have "feed_all [BlockEnd i, BlockComplete i] (acc\<lparr>acc_blocks := bs @ [(i, streamed_block b)]\<rparr>)
      = Inr (acc\<lparr>acc_blocks := bs @ [(i, finished_block b)]\<rparr>)"
    using assms(1) e by (cases b) (simp_all add: feed_def close_block_def complete_block_def new_block_def finished_block_def)
  with feed_block_events [OF assms] show ?thesis by (simp add: closed_events_def feed_all_append)
qed

lemma feed_blocks_events:
  assumes "acc_stop_reason acc = None" and "acc_blocks acc = bs" and "\<forall>k \<in> fst ` set bs. k < i"
  shows "feed_all (blocks_events i ws) acc = Inr (acc\<lparr>acc_blocks := bs @ enumerate i (map finished_block ws)\<rparr>)"
  using assms
proof (induction ws arbitrary: i acc bs)
  case (Cons w ws)
  let ?acc = "acc\<lparr>acc_blocks := bs @ [(i, finished_block w)]\<rparr>"
  have "feed_all (blocks_events (Suc i) ws) ?acc = Inr (?acc\<lparr>acc_blocks := (bs @ [(i, finished_block w)]) @ enumerate (Suc i) (map finished_block ws)\<rparr>)"
    by (rule Cons.IH) (use Cons.prems in \<open>auto simp: less_Suc_eq\<close>)
  with feed_closed_events [OF Cons.prems] show ?case by (simp add: feed_all_append)
qed (cases acc, simp)

subsection \<open>The end of a stream and the body\<close>

fun wire_ok :: "(string \<Rightarrow> json option) \<Rightarrow> wire_block \<Rightarrow> bool" where
  "wire_ok pj (WRedacted data) \<longleftrightarrow> data \<noteq> []"
| "wire_ok pj (WTool call_id name fs input) \<longleftrightarrow> parse_tool_arguments pj (concat fs) = Some input"
| "wire_ok pj _ \<longleftrightarrow> True"

definition ends_open :: "message list \<Rightarrow> bool" where
  "ends_open messages \<longleftrightarrow> (\<forall>m content. messages \<noteq> [] \<longrightarrow> last messages \<noteq> Assistant m content)"

lemma ends_open_simps [simp]:
  "ends_open []" "ends_open (ms @ [signed_reasoning t g k])" "ends_open (ms @ [redacted_reasoning c k])"
  "ends_open (ms @ [ToolUse m c n a])"
  by (simp_all add: ends_open_def signed_reasoning_def redacted_reasoning_def)

lemma push_text_flushed:
  assumes "ends_open messages"
  shows "push_text_block t (flush_content messages content) = flush_content messages (content @ [Text t])"
proof (cases "content = []")
  case True
  with assms show ?thesis
    by (cases messages rule: rev_cases) (auto simp: push_text_block_def flush_content_def ends_open_def split: message.split)
qed (simp add: push_text_block_def flush_content_def)

lemma finished_block_simps:
  "bl_closed (finished_block b)" "bl_kind (finished_block (WText ds)) = KindText"
  "bl_text (finished_block (WText ds)) = concat ds"
  "bl_kind (finished_block (WThinking ts ss)) = KindReasoning" "bl_kind (finished_block (WRedacted data)) = KindReasoning"
  "bl_kind (finished_block (WTool call_id name fs input)) = KindToolUse"
  by (simp_all add: finished_block_def new_block_def)

lemma into_reasoning_finished:
  assumes "rr_material rules = Some AnthropicSignature"
  shows "into_reasoning rules (finished_block (WThinking ts ss)) = signed_reasoning (concat ts) (concat ss) AnthropicSignature"
    and "data \<noteq> [] \<Longrightarrow> into_reasoning rules (finished_block (WRedacted data)) = redacted_reasoning data AnthropicRedacted"
  using assms by (auto simp: into_reasoning_def finished_block_def new_block_def classify_material_def has_material_def
      signed_reasoning_def redacted_reasoning_def)

lemma finish_tool_finished:
  "parse_tool_arguments pj (concat fs) = Some input \<Longrightarrow>
     finish_tool_block pj i (finished_block (WTool call_id name fs input)) = Inr (ToolUse JNull call_id name input)"
  by (simp add: finish_tool_block_def finished_block_def new_block_def)

lemma finish_is_decode:
  assumes "list_all (wire_ok pj) ws" and "rr_material rules = Some AnthropicSignature" and "stop \<noteq> MaxOutputLengthExceeded"
    and "ends_open messages"
  shows "finish_blocks pj rules (enumerate i (map finished_block ws)) [] (flush_content messages content)
     = bindR (decode_blocks stop (map body_block ws) messages content) (\<lambda>ms. Inr (ms, []))"
  using assms
proof (induction ws arbitrary: i messages content)
  case (Cons w ws)
  note IH = Cons.IH [OF _ Cons.prems(2,3)]
  have ok: "list_all (wire_ok pj) ws" using Cons.prems(1) by simp
  show ?case
  proof (cases w)
    case (WText ds)
    then show ?thesis using IH [OF ok Cons.prems(4), of "Suc i" "content @ [Text (concat ds)]"] push_text_flushed [OF Cons.prems(4)]
      by (simp add: finished_block_simps get_str_def or_empty_def)
  next
    case (WThinking ts ss)
    then show ?thesis
      using IH [OF ok, of "flush_content messages content @ [signed_reasoning (concat ts) (concat ss) AnthropicSignature]" "Suc i" "[]"]
        into_reasoning_finished(1) [OF Cons.prems(2)]
      by (simp add: finished_block_simps get_str_def or_empty_def flush_content_def)
  next
    case (WRedacted data)
    then show ?thesis
      using IH [OF ok, of "flush_content messages content @ [redacted_reasoning data AnthropicRedacted]" "Suc i" "[]"]
        into_reasoning_finished(2) [OF Cons.prems(2), of data] Cons.prems(1)
      by (simp add: finished_block_simps get_str_def or_empty_def flush_content_def)
  next
    case (WTool call_id name fs input)
    then show ?thesis
      using IH [OF ok, of "flush_content messages content @ [ToolUse JNull call_id name input]" "Suc i" "[]"]
        finish_tool_finished [of pj fs input i call_id name] Cons.prems(1,3)
      by (simp add: finished_block_simps get_str_def or_empty_def flush_content_def decode_tool_use_def)
  qed
qed simp

subsection \<open>Usage\<close>

text \<open>
  The counters at the start of a stream and those at its end, and the counters of the body they come
  from: the later ones replace the earlier ones, and the input, where it is counted again, is counted
  with its cached parts.
\<close>

definition counter_keys :: "string list" where
  "counter_keys = [''cache_read_input_tokens'', ''cache_creation_input_tokens'', ''input_tokens'', ''output_tokens'']"

definition splits_usage :: "(string \<times> json) list \<Rightarrow> (string \<times> json) list \<Rightarrow> bool" where
  "splits_usage early late \<longleftrightarrow>
     list_all (\<lambda>key. map_of late key = None \<or> usage_field (JObject late) key \<noteq> None) counter_keys
     \<and> map_of late ''output_tokens_details'' = None
     \<and> list_all (\<lambda>key. if usage_field (JObject late) ''input_tokens'' = None then map_of late key = None
          else map_of late key \<noteq> None \<or> usage_field (JObject early) key = None)
        [''cache_read_input_tokens'', ''cache_creation_input_tokens'']"

lemma usage_field_append:
  "map_of late key = None \<or> usage_field (JObject late) key \<noteq> None \<Longrightarrow>
     usage_field (JObject (late @ early)) key = or_keep (usage_field (JObject late) key) (usage_field (JObject early) key)"
  by (auto simp: usage_field_def or_keep_def map_add_def split: option.splits)

definition merge_counts :: "usage \<Rightarrow> nat option \<Rightarrow> nat option \<Rightarrow> nat option \<Rightarrow> nat option \<Rightarrow> nat option \<Rightarrow> usage" where
  "merge_counts u c w i out t =
     (let input = or_keep (map_option (\<lambda>n. saturating_add (saturating_add n (or_zero c)) (or_zero w)) i) (input_tokens u);
          output = or_keep out (output_tokens u)
      in \<lparr>input_tokens = input, cached_input_tokens = or_keep c (cached_input_tokens u),
        cache_write_input_tokens = or_keep w (cache_write_input_tokens u), output_tokens = output,
        reasoning_tokens = or_keep t (reasoning_tokens u),
        total_tokens = (case (input, output) of (Some a, Some b) \<Rightarrow> Some (saturating_add a b) | _ \<Rightarrow> total_tokens u)\<rparr>)"

definition thinking_count :: "json \<Rightarrow> nat option" where
  "thinking_count u = Option.bind (Option.bind (json_get u ''output_tokens_details'') (\<lambda>d. json_get d ''thinking_tokens'')) as_u64"

lemma merge_usage_counts:
  "merge_usage u v = merge_counts u (usage_field v ''cache_read_input_tokens'') (usage_field v ''cache_creation_input_tokens'')
     (usage_field v ''input_tokens'') (usage_field v ''output_tokens'') (thinking_count v)"
  by (cases u) (simp add: merge_usage_def merge_counts_def thinking_count_def Let_def split: option.split)

lemma merge_counts_twice:
  assumes "i2 = None \<Longrightarrow> c2 = None \<and> w2 = None" and "i2 \<noteq> None \<Longrightarrow> (c2 \<noteq> None \<or> c1 = None) \<and> (w2 \<noteq> None \<or> w1 = None)"
  shows "merge_counts (merge_counts default_usage c1 w1 i1 o1 t1) c2 w2 i2 o2 None
     = merge_counts default_usage (or_keep c2 c1) (or_keep w2 w1) (or_keep i2 i1) (or_keep o2 o1) t1"
proof (cases i2)
  case None
  with assms(1) have "c2 = None" "w2 = None" by simp_all
  with None show ?thesis
    by (cases i1; cases o1; cases o2) (simp_all add: merge_counts_def default_usage_def or_keep_def Let_def)
next
  case (Some n)
  with assms(2) have "c2 \<noteq> None \<or> c1 = None" "w2 \<noteq> None \<or> w1 = None" by simp_all
  with Some show ?thesis
    by (cases c1; cases c2; cases w1; cases w2; cases o1; cases o2; cases i1)
      (simp_all add: merge_counts_def default_usage_def or_keep_def Let_def)
qed

lemma usage_of_both:
  assumes "splits_usage early late"
  shows "merge_usage (merge_usage default_usage (JObject early)) (JObject late) = merge_usage default_usage (JObject (late @ early))"
proof -
  have both: "usage_field (JObject (late @ early)) key = or_keep (usage_field (JObject late) key) (usage_field (JObject early) key)"
    if "key \<in> set counter_keys" for key
    by (rule usage_field_append) (use assms that in \<open>auto simp: splits_usage_def list_all_iff\<close>)
  have details: "thinking_count (JObject (late @ early)) = thinking_count (JObject early)" "thinking_count (JObject late) = None"
    using assms by (simp_all add: splits_usage_def thinking_count_def map_add_def)
  have "usage_field (JObject late) key = None" if "map_of late key = None" for key
    using that by (simp add: usage_field_def)
  with assms show ?thesis
    unfolding merge_usage_counts details
    by (subst merge_counts_twice) (auto simp: both counter_keys_def splits_usage_def)
qed

subsection \<open>A whole message\<close>

lemma run_message:
  assumes "length bs \<le> Suc u32_max"
  shows "run_payloads decoder_new (message_payloads bs reason u1 u2) = Inr (\<lparr>ad_usage = merge_usage (merge_usage default_usage u1) u2, ad_stop_reason = None\<rparr>,
     [UsageEvent (merge_usage default_usage u1)] @ blocks_events 0 bs
       @ [UsageEvent (merge_usage (merge_usage default_usage u1) u2), StopEvent (map_stop_reason (Some reason))])"
  using assms unfolding message_payloads_def run_payloads_append
  by (simp add: run_blocks feed_payload_def get_str_def note_wire_usage_def decoder_new_def append_block_completions_def Let_def)

lemma typed_payloads:
  "p \<in> set (message_payloads bs reason u1 u2) \<Longrightarrow> get_str p ''type'' \<noteq> None"
proof -
  have "p \<in> set (block_payloads i b) \<Longrightarrow> get_str p ''type'' \<noteq> None" for i b
    by (auto simp: block_payloads_def get_str_def)
  then have "p \<in> set (blocks_payloads i bs) \<Longrightarrow> get_str p ''type'' \<noteq> None" for i
    by (induction bs arbitrary: i) auto
  then show "p \<in> set (message_payloads bs reason u1 u2) \<Longrightarrow> get_str p ''type'' \<noteq> None"
    by (auto simp: message_payloads_def get_str_def)
qed

lemma decode_message:
  assumes "list_all2 (\<lambda>(ev, data) p. read_json data = Inr p) records ps"
    and "filter (\<lambda>p. \<not> is_ping p) ps = message_payloads bs reason u1 u2" and "length bs \<le> Suc u32_max"
  shows "decode_records read_json decoder_new records = Inr ([UsageEvent (merge_usage default_usage u1)] @ blocks_events 0 bs
       @ [UsageEvent (merge_usage (merge_usage default_usage u1) u2), StopEvent (map_stop_reason (Some reason))])"
proof -
  have "get_str p ''type'' \<noteq> None" if "p \<in> set ps" for p
    using that typed_payloads [of p bs reason u1 u2] by (cases "is_ping p") (auto simp: is_ping_def simp flip: assms(2))
  then have "decode_records read_json decoder_new records = bindR (run_payloads decoder_new ps) (\<lambda>(_, es). Inr es)"
    by (intro decode_records_payloads [OF assms(1)]) blast
  then show ?thesis unfolding run_payloads_pings [of _ ps] assms(2) run_message [OF assms(3)] by simp
qed

lemma feed_message:
  assumes "acc = for_protocol protocol"
  shows "feed_all ([UsageEvent u] @ blocks_events 0 bs @ [UsageEvent v, StopEvent r]) acc
     = Inr (acc\<lparr>acc_blocks := enumerate 0 (map finished_block bs), acc_usage := Some v, acc_stop_reason := Some r\<rparr>)"
proof -
  have a: "acc_stop_reason acc = None" "acc_blocks acc = []" using assms by (simp_all add: for_protocol_def new_accumulator_def)
  have "feed_all (blocks_events 0 bs) (acc\<lparr>acc_usage := Some u\<rparr>) = Inr (acc\<lparr>acc_usage := Some u, acc_blocks := enumerate 0 (map finished_block bs)\<rparr>)"
    using feed_blocks_events [of "acc\<lparr>acc_usage := Some u\<rparr>" "[]" 0 bs] a by simp
  then show ?thesis using a by (simp add: feed_all_append feed_def)
qed

lemma message_end:
  assumes "list_all (wire_ok pj) bs" and "map_stop_reason (Some reason) \<noteq> MaxOutputLengthExceeded"
    and "protocol = AnthropicMessages mode"
  shows "finish pj ((for_protocol protocol)\<lparr>acc_blocks := enumerate 0 (map finished_block bs),
       acc_usage := Some (merge_usage default_usage u), acc_stop_reason := Some (map_stop_reason (Some reason))\<rparr>)
     = anthropic_decode (message_body bs reason u)"
proof -
  have "rr_material (get_reasoning_replay protocol) = Some AnthropicSignature" using assms(3) by simp
  from finish_is_decode [OF assms(1) this assms(2), of "[]" 0 "[]"]
  have f: "finish_blocks pj (get_reasoning_replay protocol) (enumerate 0 (map finished_block bs)) [] []
      = bindR (decode_blocks (map_stop_reason (Some reason)) (map body_block bs) [] []) (\<lambda>ms. Inr (ms, []))"
    by (simp add: flush_content_def)
  show ?thesis
    by (cases "decode_blocks (map_stop_reason (Some reason)) (map body_block bs) [] []")
      (simp_all add: finish_def for_protocol_def new_accumulator_def f anthropic_decode_def message_body_def get_str_def as_array_def
        decode_usage_def)
qed

end
