(* ===== verification/Anthropic_Request.thy ===== *)
theory Anthropic_Request
  imports Wire
begin

text \<open>
  Rendering a request on the Anthropic Messages wire
  (\<open>protocol/model_use/request/anthropic_messages.rs\<close>). \<open>show_json\<close> renders a JSON value as text and
  \<open>to_lowercase\<close> lowers the case of a text.
\<close>

subsection \<open>Blocks\<close>

definition text_block :: "string \<Rightarrow> json" where
  "text_block text = JObject [(''type'', JString ''text''), (''text'', JString text)]"

fun render_user_blocks :: "content_block list \<Rightarrow> error + json list" where
  "render_user_blocks [] = Inr []"
| "render_user_blocks (Text text # content) =
     bindR (render_user_blocks content) (\<lambda>blocks. Inr (text_block text # blocks))"
| "render_user_blocks (ImageRef _ _ _ # content) = Inl (Build ''unresolved image reference'')"
| "render_user_blocks (Image mime data # content) =
     bindR (render_user_blocks content) (\<lambda>blocks. Inr (JObject [(''type'', JString ''image''),
       (''source'', JObject [(''type'', JString ''base64''), (''media_type'', JString mime), (''data'', JString data)])] # blocks))"

fun render_assistant_blocks :: "content_block list \<Rightarrow> error + json list" where
  "render_assistant_blocks [] = Inr []"
| "render_assistant_blocks (Text text # content) =
     bindR (render_assistant_blocks content) (\<lambda>blocks. Inr (text_block text # blocks))"
| "render_assistant_blocks (_ # content) =
     Inl (Build ''an assistant message cannot carry images on the anthropic messages wire'')"

definition render_reasoning_block :: "string \<Rightarrow> string \<Rightarrow> string \<Rightarrow> json option" where
  "render_reasoning_block plain sig cipher =
     (if cipher \<noteq> [] then Some (JObject [(''type'', JString ''redacted_thinking''), (''data'', JString cipher)])
      else if plain = [] \<and> sig = [] then None
      else Some (JObject ([(''type'', JString ''thinking''), (''thinking'', JString plain)]
        @ (if sig \<noteq> [] then [(''signature'', JString sig)] else []))))"

definition render_replayed_reasoning ::
  "string \<Rightarrow> string \<Rightarrow> string \<Rightarrow> reasoning_opaque_kind option \<Rightarrow> json option" where
  "render_replayed_reasoning plain sig cipher kind =
     (let unsigned_plaintext = kind = None \<and> sig = [] \<and> cipher = []
      in render_reasoning_block
           (if unsigned_plaintext \<or> kind = Some AnthropicSignature then plain else [])
           (material_if_kind kind AnthropicSignature sig)
           (material_if_kind kind AnthropicRedacted cipher))"

definition render_tool_result :: "(json \<Rightarrow> string) \<Rightarrow> string \<Rightarrow> json \<Rightarrow> json" where
  "render_tool_result show_json call_id content =
     JObject ([(''type'', JString ''tool_result''), (''tool_use_id'', JString call_id),
       (''content'', JString (flat_text show_json (tool_result_text content)))]
       @ (if json_get content ''model_text'' \<noteq> None \<and> tool_result_is_error content then [(''is_error'', JBool True)] else []))"

definition tool_use_block :: "string \<Rightarrow> string \<Rightarrow> json \<Rightarrow> json" where
  "tool_use_block call_id name arguments = JObject [(''type'', JString ''tool_use''), (''id'', JString call_id),
     (''name'', JString name), (''input'', arguments)]"

text \<open>The text of a continued response joins the text it continues.\<close>

definition append_continued_text :: "json list \<Rightarrow> json list \<Rightarrow> json list" where
  "append_continued_text blocks new =
     (if blocks \<noteq> [] \<and> new \<noteq> [] \<and> json_index (last blocks) ''type'' = JString ''text''
         \<and> json_index (hd new) ''type'' = JString ''text''
      then butlast blocks @ [set_member ''text'' (JString (or_empty (as_str (json_index (last blocks) ''text''))
             @ or_empty (as_str (json_index (hd new) ''text'')))) (last blocks)] @ tl new
      else blocks @ new)"

subsection \<open>Turns\<close>

record assistant_turn =
  at_blocks :: "json list"
  at_used :: nat
  at_seen_content :: bool
  at_opens_with_thinking :: bool
  at_pending :: "string list"

definition add_thinking :: "json \<Rightarrow> assistant_turn \<Rightarrow> assistant_turn" where
  "add_thinking b t =
     (if \<not> at_seen_content t then t\<lparr>at_blocks := at_blocks t @ [b], at_opens_with_thinking := True\<rparr>
      else if \<not> at_opens_with_thinking t then t\<lparr>at_blocks := b # at_blocks t, at_opens_with_thinking := True\<rparr>
      else t)"

definition one_more :: "assistant_turn \<Rightarrow> assistant_turn" where
  "one_more t = t\<lparr>at_used := at_used t + 1\<rparr>"

fun render_assistant_run :: "message list \<Rightarrow> assistant_turn \<Rightarrow> error + assistant_turn" where
  "render_assistant_run (Reasoning _ _ kind plain _ sig cipher # messages) t =
     render_assistant_run messages (one_more
       (case render_replayed_reasoning plain sig cipher kind of None \<Rightarrow> t | Some b \<Rightarrow> add_thinking b t))"
| "render_assistant_run (Assistant _ content # messages) t =
     bindR (render_assistant_blocks content) (\<lambda>blocks.
     render_assistant_run messages (one_more
       (t\<lparr>at_seen_content := True, at_blocks := append_continued_text (at_blocks t) blocks\<rparr>)))"
| "render_assistant_run (ToolUse _ call_id name arguments # messages) t =
     render_assistant_run messages (one_more
       (t\<lparr>at_seen_content := True, at_pending := at_pending t @ [call_id],
         at_blocks := at_blocks t @ [tool_use_block call_id name arguments]\<rparr>))"
| "render_assistant_run messages t = Inr t"

definition render_assistant_turn :: "message list \<Rightarrow> string list \<Rightarrow> error + assistant_turn" where
  "render_assistant_turn messages pending = render_assistant_run messages
     \<lparr>at_blocks = [], at_used = 0, at_seen_content = False, at_opens_with_thinking = False, at_pending = pending\<rparr>"

definition build_missing_result_error :: "string \<Rightarrow> error" where
  "build_missing_result_error call_id =
     Build (''tool call `'' @ call_id @ ''` is not followed by its tool result on the anthropic messages wire'')"

text \<open>The results at the head, against the calls still waiting.\<close>

fun render_results_loop :: "(json \<Rightarrow> string) \<Rightarrow> message list \<Rightarrow> string list \<Rightarrow> json list \<Rightarrow> error + json list" where
  "render_results_loop show_json (ToolResult _ call_id _ content # results) pending blocks =
     (case pending of
        expected # later \<Rightarrow>
          if expected = call_id
          then render_results_loop show_json results later (blocks @ [render_tool_result show_json call_id content])
          else Inl (Build (''tool result for `'' @ call_id @ ''` does not match the expected tool call `'' @ expected
            @ ''` on the anthropic messages wire''))
      | [] \<Rightarrow> Inl (Build (''tool result for `'' @ call_id @ ''` has no matching tool call on the anthropic messages wire'')))"
| "render_results_loop show_json results pending blocks =
     (case pending of [] \<Rightarrow> Inr blocks | expected # _ \<Rightarrow> Inl (build_missing_result_error expected))"

definition render_tool_results :: "(json \<Rightarrow> string) \<Rightarrow> message list \<Rightarrow> string list \<Rightarrow> error + json list" where
  "render_tool_results show_json results pending =
     (if pending = [] then Inl (Build ''a tool result has no matching tool call on the anthropic messages wire'')
      else render_results_loop show_json results pending [])"

fun instruction_content :: "message \<Rightarrow> content_block list" where
  "instruction_content (System _ content) = content"
| "instruction_content (Developer _ _ content) = content"
| "instruction_content (User _ content) = content"
| "instruction_content _ = []"

text \<open>
  One step takes \<open>used\<close> messages, at least the one it looked at, so the rest is \<open>used - 1\<close> past it.
\<close>

function render_loop :: "(json \<Rightarrow> string) \<Rightarrow> message list \<Rightarrow> string list \<Rightarrow> turns \<Rightarrow> error + string list \<times> turns" where
  "render_loop show_json [] pending turns = Inr (pending, turns)"
| "render_loop show_json (m # rest) pending turns =
     (case m of
        UpstreamCompaction _ _ _ \<Rightarrow> Inl (Build ''the anthropic messages wire cannot carry a compacted conversation'')
      | ToolResult _ _ _ _ \<Rightarrow>
          bindR (render_tool_results show_json (m # rest) pending) (\<lambda>blocks.
          render_loop show_json (drop (length blocks - 1) rest) [] (push_turn ''user'' blocks turns))
      | Reasoning _ _ _ _ _ _ _ \<Rightarrow>
          if pending \<noteq> [] then Inl (build_missing_result_error (hd pending))
          else bindR (render_assistant_turn (m # rest) pending) (\<lambda>t.
            render_loop show_json (drop (at_used t - 1) rest) (at_pending t) (push_turn ''assistant'' (at_blocks t) turns))
      | Assistant _ _ \<Rightarrow>
          if pending \<noteq> [] then Inl (build_missing_result_error (hd pending))
          else bindR (render_assistant_turn (m # rest) pending) (\<lambda>t.
            render_loop show_json (drop (at_used t - 1) rest) (at_pending t) (push_turn ''assistant'' (at_blocks t) turns))
      | ToolUse _ _ _ _ \<Rightarrow>
          if pending \<noteq> [] then Inl (build_missing_result_error (hd pending))
          else bindR (render_assistant_turn (m # rest) pending) (\<lambda>t.
            render_loop show_json (drop (at_used t - 1) rest) (at_pending t) (push_turn ''assistant'' (at_blocks t) turns))
      | _ \<Rightarrow>
          if pending \<noteq> [] then Inl (build_missing_result_error (hd pending))
          else bindR (render_user_blocks (instruction_content m)) (\<lambda>blocks.
            render_loop show_json rest pending (push_turn ''user'' blocks turns)))"
  by pat_completeness auto
termination by (relation "measure (\<lambda>(_, ms, _, _). length ms)") auto

definition render_messages :: "(json \<Rightarrow> string) \<Rightarrow> message list \<Rightarrow> error + json list" where
  "render_messages show_json conversation =
     bindR (render_loop show_json conversation [] []) (\<lambda>(pending, turns).
     if pending \<noteq> [] then Inl (build_missing_result_error (hd pending))
     else finish_from_user ''content'' ''the first turn must be a user message on the anthropic messages wire'' turns)"

subsection \<open>The body\<close>

definition put_output_effort :: "(string \<Rightarrow> string) \<Rightarrow> reasoning_config \<Rightarrow> (string \<times> json) list \<Rightarrow> (string \<times> json) list" where
  "put_output_effort to_lowercase config body = (case rc_effort config of
     None \<Rightarrow> body
   | Some effort \<Rightarrow> put_field ''output_config'' (JObject [(''effort'', JString (to_lowercase effort))]) body)"

definition put_switch :: "reasoning_config \<Rightarrow> (string \<times> json) list \<Rightarrow> (string \<times> json) list" where
  "put_switch config body = (case rc_enabled config of
     None \<Rightarrow> body | Some enabled \<Rightarrow> put_field ''thinking'' (render_thinking_switch enabled) body)"

definition render_reasoning ::
  "(string \<Rightarrow> string) \<Rightarrow> messages_mode \<Rightarrow> string \<Rightarrow> reasoning_config \<Rightarrow> (string \<times> json) list \<Rightarrow> error + (string \<times> json) list" where
  "render_reasoning to_lowercase mode model config body =
     (if rc_summary config \<noteq> None then Inl (Build ''the anthropic messages wire has no reasoning summary axis'')
      else if rc_enabled config = Some False \<and> rc_effort config \<noteq> None
      then Inl (Build ''reasoning cannot be both disabled and given an effort on the anthropic messages wire'')
      else case mode of
        MessagesOfficial \<Rightarrow> bindR (render_claude_thinking to_lowercase model config) (\<lambda>new. Inr (put_fields new body))
      | MessagesDeepSeek \<Rightarrow> Inr (put_output_effort to_lowercase config (put_switch config body))
      | MessagesZai \<Rightarrow>
          if rc_effort config \<noteq> None then Inl (Build ''a `thinking.type` messages wire has no effort axis'')
          else Inr (put_switch config body)
      | MessagesMimo \<Rightarrow>
          if rc_effort config \<noteq> None then Inl (Build ''a `thinking.type` messages wire has no effort axis'')
          else Inr (put_switch config body)
      | MessagesMiniMax \<Rightarrow>
          if rc_effort config \<noteq> None then Inl (Build ''the minimax messages wire takes no effort'')
          else Inr (case rc_enabled config of
              None \<Rightarrow> body
            | Some True \<Rightarrow> put_field ''thinking'' adaptive_thinking body
            | Some False \<Rightarrow> put_field ''thinking'' (JObject [(''type'', JString ''disabled'')]) body)
      | MessagesKimi \<Rightarrow>
          if rc_enabled config \<noteq> None then Inl (Build ''the kimi messages wire keeps thinking on at all times'')
          else Inr (put_output_effort to_lowercase config body)
      | MessagesQwen \<Rightarrow>
          if rc_enabled config \<noteq> None
          then Inl (Build ''the bailian messages wire steers thinking with `output_config.effort` alone'')
          else Inr (put_output_effort to_lowercase config body)
      | MessagesTokenHub \<Rightarrow>
          if rc_enabled config \<noteq> None \<or> rc_effort config \<noteq> None
          then Inl (Build ''the tokenhub messages wire has no reasoning controls'')
          else Inr body)"

definition render_tool :: "tool \<Rightarrow> json" where
  "render_tool t = JObject [(''name'', JString (tool_name t)), (''description'', JString (tool_description t)),
     (''input_schema'', tool_input_schema t)]"

text \<open>\<open>ToolChoiceNone\<close> is rejected before the choice is rendered.\<close>

definition render_tool_choice :: "tool_choice \<Rightarrow> json" where
  "render_tool_choice choice = JObject [(''type'', JString (case choice of
     ToolChoiceAuto \<Rightarrow> ''auto'' | ToolChoiceRequired \<Rightarrow> ''any'' | ToolChoiceNone \<Rightarrow> []))]"

definition mark_tail :: "json \<Rightarrow> json" where
  "mark_tail value = (case value of
     JArray items \<Rightarrow>
       (case rev items of
          JObject members # prior \<Rightarrow>
            JArray (rev (JObject (put_field ''cache_control'' (JObject [(''type'', JString ''ephemeral'')]) members) # prior))
        | _ \<Rightarrow> value)
   | _ \<Rightarrow> value)"

definition mark_last_message :: "json \<Rightarrow> json" where
  "mark_last_message value = (case value of
     JArray items \<Rightarrow>
       (case rev items of
          JObject members # prior \<Rightarrow> JArray (rev (JObject (change_field ''content'' mark_tail members) # prior))
        | _ \<Rightarrow> value)
   | _ \<Rightarrow> value)"

definition mark_breakpoints :: "(string \<times> json) list \<Rightarrow> (string \<times> json) list" where
  "mark_breakpoints body =
     change_field ''messages'' mark_last_message (change_field ''tools'' mark_tail (change_field ''system'' mark_tail body))"

definition render_system :: "string list list \<Rightarrow> bool \<Rightarrow> (string \<times> json) list" where
  "render_system system breakpoints =
     (if system = [] then []
      else let text = join_with_newlines (map join_with_newlines system)
           in [(''system'', if breakpoints then JArray [text_block text] else JString text)])"

definition thinking_budget :: "(string \<times> json) list \<Rightarrow> nat option" where
  "thinking_budget body =
     Option.bind (Option.bind (map_of body ''thinking'') (\<lambda>t. json_get t ''budget_tokens'')) as_u64"

definition lift_cap :: "nat option \<Rightarrow> (string \<times> json) list \<Rightarrow> (string \<times> json) list" where
  "lift_cap max_tokens body = (case (max_tokens, thinking_budget body) of
     (Some cap, Some budget) \<Rightarrow> put_field ''max_tokens'' (jnat (lift_cap_above_budget cap budget)) body
   | _ \<Rightarrow> body)"

definition put_tools :: "request \<Rightarrow> (string \<times> json) list \<Rightarrow> (string \<times> json) list" where
  "put_tools rq body =
     (if rq_tools rq = [] then body
      else let body = put_field ''tools'' (JArray (map render_tool (rq_tools rq))) body
           in case rq_tool_choice rq of None \<Rightarrow> body | Some choice \<Rightarrow> put_field ''tool_choice'' (render_tool_choice choice) body)"

definition render_body ::
  "(json \<Rightarrow> string) \<Rightarrow> (string \<Rightarrow> string) \<Rightarrow> request \<Rightarrow> messages_mode \<Rightarrow> nat option \<Rightarrow> error + json" where
  "render_body show_json to_lowercase rq mode max_tokens =
     (if rq_tool_choice rq = Some ToolChoiceNone
      then Inl (Build ''tool_choice `none` cannot be expressed on the anthropic messages wire'')
      else
        bindR (split_leading_instructions (rq_conversation rq)
                 ''a system instruction can only carry text blocks on the anthropic messages wire'') (\<lambda>(system, rest).
        let alone = rest = [] \<and> system \<noteq> [];
            system = (if alone then butlast system else system);
            rest = (if alone then drop (length (rq_conversation rq) - 1) (rq_conversation rq) else rest)
        in bindR (render_messages show_json rest) (\<lambda>messages.
           if messages = [] then Inl (Build ''request has no messages'')
           else
             let breakpoints = (case rq_cache rq of None \<Rightarrow> False | Some cache \<Rightarrow> pc_breakpoints cache);
                 body = (''model'', JString (rq_model rq))
                   # (case max_tokens of None \<Rightarrow> [] | Some n \<Rightarrow> [(''max_tokens'', jnat n)])
                   @ render_system system breakpoints
                   @ [(''messages'', JArray messages)]
                   @ (if rq_stream rq \<and> max_tokens \<noteq> None then [(''stream'', JBool True)] else [])
             in bindR (case rq_reasoning rq of
                    None \<Rightarrow> Inr body
                  | Some config \<Rightarrow> render_reasoning to_lowercase mode (rq_model rq) config body) (\<lambda>body.
                let body = put_tools rq (lift_cap max_tokens body)
                in Inr (JObject (if breakpoints then mark_breakpoints body else body))))))"

definition render :: "(json \<Rightarrow> string) \<Rightarrow> (string \<Rightarrow> string) \<Rightarrow> request \<Rightarrow> messages_mode \<Rightarrow> error + json" where
  "render show_json to_lowercase rq mode =
     (case rq_max_output_tokens rq of
        None \<Rightarrow> Inl (Build ''max_tokens is required on the anthropic messages wire'')
      | Some n \<Rightarrow> render_body show_json to_lowercase rq mode (Some n))"

definition render_for_token_count :: "(json \<Rightarrow> string) \<Rightarrow> (string \<Rightarrow> string) \<Rightarrow> request \<Rightarrow> error + json" where
  "render_for_token_count show_json to_lowercase rq = render_body show_json to_lowercase rq MessagesOfficial None"

end
