(* ===== verification/Anthropic_Turns.thy ===== *)
theory Anthropic_Turns
  imports Anthropic_Request
begin

text \<open>
  What the turns of a rendered request are like: they alternate from a turn of the user, each turn of
  the assistant opens with its thinking, and the calls of a turn are answered, in their order, at the
  head of the turn that follows.
\<close>

subsection \<open>Reading a turn\<close>

definition is_kind :: "string \<Rightarrow> json \<Rightarrow> bool" where
  "is_kind kind b \<longleftrightarrow> get_str b ''type'' = Some kind"

definition is_thinking :: "json \<Rightarrow> bool" where
  "is_thinking b \<longleftrightarrow> is_kind ''thinking'' b \<or> is_kind ''redacted_thinking'' b"

definition use_ids :: "json list \<Rightarrow> string list" where
  "use_ids blocks = map (\<lambda>b. or_empty (get_str b ''id'')) (filter (is_kind ''tool_use'') blocks)"

definition result_ids :: "json list \<Rightarrow> string list" where
  "result_ids blocks = map (\<lambda>b. or_empty (get_str b ''tool_use_id'')) (filter (is_kind ''tool_result'') blocks)"

definition leads :: "(json \<Rightarrow> bool) \<Rightarrow> json list \<Rightarrow> bool" where
  "leads P blocks \<longleftrightarrow> list_all (\<lambda>b. \<not> P b) (dropWhile P blocks)"

definition read_turn :: "json \<Rightarrow> string \<times> json list" where
  "read_turn m = (or_empty (get_str m ''role''),
     case Option.bind (json_get m ''content'') as_array of None \<Rightarrow> [] | Some blocks \<Rightarrow> blocks)"

text \<open>
  The turns read one by one: whether a turn of the user is due, and the calls it has to answer. The
  flag \<open>strict\<close> asks for thinking to lead as well.
\<close>

definition turn_ok :: "bool \<Rightarrow> bool \<Rightarrow> string list \<Rightarrow> string \<times> json list \<Rightarrow> bool" where
  "turn_ok strict user pending turn \<longleftrightarrow> snd turn \<noteq> []
     \<and> (if user
        then fst turn = ''user'' \<and> result_ids (snd turn) = pending \<and> leads (is_kind ''tool_result'') (snd turn)
          \<and> use_ids (snd turn) = []
        else fst turn = ''assistant'' \<and> pending = [] \<and> result_ids (snd turn) = [] \<and> (strict \<longrightarrow> leads is_thinking (snd turn)))"

fun read_turns :: "bool \<Rightarrow> bool \<Rightarrow> string list \<Rightarrow> turns \<Rightarrow> (bool \<times> string list) option" where
  "read_turns strict user pending [] = Some (user, pending)"
| "read_turns strict user pending (turn # turns) =
     (if turn_ok strict user pending turn then read_turns strict (\<not> user) (use_ids (snd turn)) turns else None)"

definition turns_answer :: "bool \<Rightarrow> turns \<Rightarrow> bool" where
  "turns_answer strict turns \<longleftrightarrow> (\<exists>user. read_turns strict True [] turns = Some (user, []))"

lemma ids_append [simp]:
  "use_ids (xs @ ys) = use_ids xs @ use_ids ys" "result_ids (xs @ ys) = result_ids xs @ result_ids ys"
  by (simp_all add: use_ids_def result_ids_def)

lemma ids_nil [simp]: "use_ids [] = []" "result_ids [] = []"
  by (simp_all add: use_ids_def result_ids_def)

lemma leads_append_none:
  assumes "leads P xs" and "list_all (\<lambda>b. \<not> P b) ys"
  shows "leads P (xs @ ys)"
proof (cases "list_all P xs")
  case True
  then have "dropWhile P (xs @ ys) = dropWhile P ys" by (induction xs) auto
  moreover have "dropWhile P ys = ys" using assms(2) by (cases ys) auto
  ultimately show ?thesis using assms(2) by (simp add: leads_def)
next
  case False
  then have "dropWhile P (xs @ ys) = dropWhile P xs @ ys" by (induction xs) auto
  with assms show ?thesis by (simp add: leads_def)
qed

lemma leads_all: "list_all P xs \<Longrightarrow> leads P (xs @ ys) = leads P ys"
  unfolding leads_def by (induction xs) auto

lemma leads_prefix: "leads P (xs @ ys) \<Longrightarrow> leads P xs"
  unfolding leads_def by (induction xs) auto

lemma leads_none: "list_all (\<lambda>b. \<not> P b) xs \<Longrightarrow> leads P xs"
  unfolding leads_def by (cases xs) auto

lemma read_turns_append:
  "read_turns strict user pending (ts @ us) = Option.bind (read_turns strict user pending ts) (\<lambda>(u, p). read_turns strict u p us)"
  by (induction strict user pending ts rule: read_turns.induct) simp_all

lemma read_turns_snoc:
  "read_turns strict user pending (ts @ [t]) = Some (u, p) \<longleftrightarrow>
     (\<exists>q. read_turns strict user pending ts = Some (\<not> u, q) \<and> turn_ok strict (\<not> u) q t \<and> p = use_ids (snd t))"
  by (cases "read_turns strict user pending ts") (auto simp: read_turns_append split: if_splits)

lemma turn_ok_role: "turn_ok strict user pending t \<Longrightarrow> fst t = (if user then ''user'' else ''assistant'')"
  by (simp add: turn_ok_def split: if_splits)

text \<open>The turns so far: they read well from the role they open with.\<close>

definition opens_user :: "turns \<Rightarrow> bool" where
  "opens_user turns \<longleftrightarrow> turns = [] \<or> fst (hd turns) = ''user''"

definition good_turns :: "bool \<Rightarrow> turns \<Rightarrow> bool \<Rightarrow> string list \<Rightarrow> bool" where
  "good_turns strict turns user pending \<longleftrightarrow> read_turns strict (opens_user turns) [] turns = Some (user, pending)"

lemma good_turns_nil [simp]: "good_turns strict [] user pending \<longleftrightarrow> user \<and> pending = []"
  by (auto simp: good_turns_def opens_user_def)

lemma opens_user_snoc: "ts \<noteq> [] \<Longrightarrow> opens_user (ts @ us) = opens_user ts"
  by (simp add: opens_user_def)

lemma good_turns_snoc:
  "ts \<noteq> [] \<Longrightarrow> good_turns strict (ts @ [t]) u p \<longleftrightarrow>
     (\<exists>q. good_turns strict ts (\<not> u) q \<and> turn_ok strict (\<not> u) q t \<and> p = use_ids (snd t))"
  by (simp add: good_turns_def opens_user_snoc read_turns_snoc)

lemma good_turns_one:
  "good_turns strict [t] u p \<longleftrightarrow> turn_ok strict (fst t = ''user'') [] t \<and> u = (fst t \<noteq> ''user'') \<and> p = use_ids (snd t)"
  by (auto simp: good_turns_def opens_user_def)

text \<open>The last turn: where it is a turn of the user, no calls wait.\<close>

lemma good_turns_last:
  assumes "good_turns strict (ts @ [t]) u p"
  shows "p = use_ids (snd t)" and "\<exists>q. turn_ok strict (\<not> u) q t"
  using assms by (cases "ts = []"; auto simp: good_turns_one good_turns_snoc)+

text \<open>A turn grows by blocks that keep it readable, or a turn is added.\<close>

lemma good_turns_grow:
  assumes "good_turns strict (ts @ [t]) u p"
    and "\<And>q. turn_ok strict (\<not> u) q t \<Longrightarrow> turn_ok strict (\<not> u) q (fst t, snd t @ blocks)"
  shows "good_turns strict (ts @ [(fst t, snd t @ blocks)]) u (p @ use_ids blocks)"
proof (cases "ts = []")
  case True
  with assms(1) have g: "turn_ok strict (fst t = ''user'') [] t" "u = (fst t \<noteq> ''user'')" "p = use_ids (snd t)"
    by (simp_all add: good_turns_one)
  with assms(2) [of "[]"] True show ?thesis by (simp add: good_turns_one)
next
  case False
  with assms show ?thesis by (auto simp: good_turns_snoc)
qed

lemma good_turns_add:
  assumes "good_turns strict ts u p" and "ts \<noteq> [] \<Longrightarrow> turn_ok strict u p t" and "ts = [] \<Longrightarrow> turn_ok strict (fst t = ''user'') [] t"
  shows "good_turns strict (ts @ [t]) (if ts = [] then fst t \<noteq> ''user'' else \<not> u) (use_ids (snd t))"
  using assms by (cases "ts = []") (auto simp: good_turns_one good_turns_snoc)

subsection \<open>The blocks of a turn\<close>

lemma map_of_put_field: "map_of (put_field key v members) = (map_of members)(key \<mapsto> v)"
  by (induction key v members rule: put_field.induct) auto

lemma kind_set_member: "key \<noteq> ''type'' \<Longrightarrow> is_kind kind (set_member key v b) = is_kind kind b"
  by (cases b) (simp_all add: is_kind_def get_str_def map_of_put_field)

lemma kind_simps [simp]:
  "is_kind kind (text_block t) \<longleftrightarrow> kind = ''text''" "is_kind kind (tool_use_block c n a) \<longleftrightarrow> kind = ''tool_use''"
  "is_kind kind (render_tool_result show_json c v) \<longleftrightarrow> kind = ''tool_result''"
  by (auto simp: is_kind_def get_str_def text_block_def tool_use_block_def render_tool_result_def)

lemma id_simps [simp]:
  "get_str (tool_use_block c n a) ''id'' = Some c" "get_str (render_tool_result show_json c v) ''tool_use_id'' = Some c"
  by (simp_all add: get_str_def tool_use_block_def render_tool_result_def)

definition plain_block :: "json \<Rightarrow> bool" where
  "plain_block b \<longleftrightarrow> \<not> is_kind ''tool_use'' b \<and> \<not> is_kind ''tool_result'' b \<and> \<not> is_thinking b"

lemma plain_ids: "list_all plain_block bs \<Longrightarrow> use_ids bs = [] \<and> result_ids bs = [] \<and> list_all (\<lambda>b. \<not> is_thinking b) bs
    \<and> list_all (\<lambda>b. \<not> is_kind ''tool_result'' b) bs"
  by (induction bs) (auto simp: plain_block_def use_ids_def result_ids_def)

lemma user_blocks_plain: "render_user_blocks content = Inr bs \<Longrightarrow> list_all plain_block bs"
  by (induction content arbitrary: bs rule: render_user_blocks.induct)
    (auto simp: bindR_Inr_iff plain_block_def is_thinking_def is_kind_def get_str_def text_block_def)

lemma assistant_blocks_text: "render_assistant_blocks content = Inr bs \<Longrightarrow> list_all (is_kind ''text'') bs \<and> list_all plain_block bs"
  by (induction content arbitrary: bs rule: render_assistant_blocks.induct)
    (auto simp: bindR_Inr_iff plain_block_def is_thinking_def)

lemma render_replayed_thinking: "render_replayed_reasoning p g c k = Some b \<Longrightarrow> is_thinking b \<and> \<not> is_kind ''tool_use'' b \<and> \<not> is_kind ''tool_result'' b"
  by (auto simp: render_replayed_reasoning_def render_reasoning_block_def is_thinking_def is_kind_def get_str_def Let_def split: if_splits)

lemma results_loop_blocks:
  "render_results_loop show_json results pending blocks = Inr bs \<Longrightarrow>
     \<exists>new. bs = blocks @ new \<and> result_ids new = pending \<and> list_all (is_kind ''tool_result'') new \<and> length new = length pending"
proof (induction show_json results pending blocks rule: render_results_loop.induct)
  case (1 show_json m call_id n content results pending blocks)
  then obtain later where p: "pending = call_id # later"
    "render_results_loop show_json results later (blocks @ [render_tool_result show_json call_id content]) = Inr bs"
    by (auto split: list.splits if_splits)
  from "1.IH" [OF p(1) refl p(2)] obtain new where
    "bs = (blocks @ [render_tool_result show_json call_id content]) @ new" "result_ids new = later"
    "list_all (is_kind ''tool_result'') new" "length new = length later" by blast
  with p(1) show ?case
    by (intro exI [of _ "render_tool_result show_json call_id content # new"]) (simp add: result_ids_def or_empty_def)
qed (auto split: list.splits)

lemma tool_results_blocks:
  assumes "render_tool_results show_json results pending = Inr bs"
  shows "bs \<noteq> []" and "result_ids bs = pending" and "leads (is_kind ''tool_result'') bs" and "use_ids bs = []" and "length bs = length pending"
proof -
  from assms have "pending \<noteq> []" "render_results_loop show_json results pending [] = Inr bs"
    by (auto simp: render_tool_results_def split: if_splits)
  with results_loop_blocks [OF this(2)] have r: "result_ids bs = pending" "list_all (is_kind ''tool_result'') bs" "length bs = length pending" "pending \<noteq> []"
    by auto
  then show "bs \<noteq> []" "result_ids bs = pending" "length bs = length pending" by auto
  from leads_all [OF r(2), of "[]"] show "leads (is_kind ''tool_result'') bs" by (simp add: leads_def)
  from r(2) have "filter (is_kind ''tool_use'') bs = []" by (auto simp: filter_empty_conv list_all_iff is_kind_def)
  then show "use_ids bs = []" by (simp add: use_ids_def)
qed

subsection \<open>A turn of the assistant\<close>

definition turn_shape :: "assistant_turn \<Rightarrow> bool" where
  "turn_shape t \<longleftrightarrow> at_pending t = use_ids (at_blocks t) \<and> result_ids (at_blocks t) = [] \<and> leads is_thinking (at_blocks t)
     \<and> (\<not> at_seen_content t \<longrightarrow> list_all is_thinking (at_blocks t))
     \<and> (\<not> at_opens_with_thinking t \<longrightarrow> list_all (\<lambda>b. \<not> is_thinking b) (at_blocks t))"

lemma continued_shape:
  assumes "list_all (is_kind ''text'') new" and "list_all plain_block new"
  shows "use_ids (append_continued_text blocks new) = use_ids blocks" and "result_ids (append_continued_text blocks new) = result_ids blocks"
    and "leads is_thinking blocks \<Longrightarrow> leads is_thinking (append_continued_text blocks new)"
    and "list_all (\<lambda>b. \<not> is_thinking b) blocks \<Longrightarrow> list_all (\<lambda>b. \<not> is_thinking b) (append_continued_text blocks new)"
proof -
  note n = plain_ids [OF assms(2)]
  have "use_ids (append_continued_text blocks new) = use_ids blocks \<and> result_ids (append_continued_text blocks new) = result_ids blocks
    \<and> (leads is_thinking blocks \<longrightarrow> leads is_thinking (append_continued_text blocks new))
    \<and> (list_all (\<lambda>b. \<not> is_thinking b) blocks \<longrightarrow> list_all (\<lambda>b. \<not> is_thinking b) (append_continued_text blocks new))"
  proof (cases "blocks \<noteq> [] \<and> new \<noteq> [] \<and> json_index (last blocks) ''type'' = JString ''text'' \<and> json_index (hd new) ''type'' = JString ''text''")
    case True
    then obtain bl l f rest where eq: "blocks = bl @ [l]" "new = f # rest" by (metis append_butlast_last_id list.exhaust)
    define l' where "l' = set_member ''text'' (JString (or_empty (as_str (json_index l ''text'')) @ or_empty (as_str (json_index f ''text'')))) l"
    from True eq have "is_kind ''text'' l" by (auto simp: json_index_def is_kind_def get_str_def split: option.splits)
    then have p: "plain_block l" by (auto simp: plain_block_def is_thinking_def is_kind_def)
    then have p': "plain_block l'" by (simp add: plain_block_def is_thinking_def l'_def kind_set_member)
    have a: "append_continued_text blocks new = bl @ l' # rest" using True eq by (simp add: append_continued_text_def l'_def)
    have r: "list_all plain_block rest" using assms(2) eq(2) by simp
    have i: "use_ids [l] = []" "result_ids [l] = []" "use_ids (l' # rest) = []" "result_ids (l' # rest) = []"
      "list_all (\<lambda>b. \<not> is_thinking b) (l' # rest)"
      using plain_ids [of "[l]"] plain_ids [of "l' # rest"] p p' r by auto
    show ?thesis unfolding a unfolding eq(1) using i
      by (auto intro: leads_append_none dest: leads_prefix)
  next
    case False
    then have "append_continued_text blocks new = blocks @ new" unfolding append_continued_text_def by (rule if_not_P)
    with n show ?thesis by (auto intro: leads_append_none)
  qed
  then show "use_ids (append_continued_text blocks new) = use_ids blocks" "result_ids (append_continued_text blocks new) = result_ids blocks"
    "leads is_thinking blocks \<Longrightarrow> leads is_thinking (append_continued_text blocks new)"
    "list_all (\<lambda>b. \<not> is_thinking b) blocks \<Longrightarrow> list_all (\<lambda>b. \<not> is_thinking b) (append_continued_text blocks new)"
    by blast+
qed

lemma thinking_shape:
  assumes "turn_shape t" and "is_thinking b \<and> \<not> is_kind ''tool_use'' b \<and> \<not> is_kind ''tool_result'' b"
  shows "turn_shape (one_more (add_thinking b t))"
proof -
  have b: "use_ids [b] = []" "result_ids [b] = []" "use_ids (b # bs) = use_ids bs" "result_ids (b # bs) = result_ids bs" for bs
    using assms(2) by (simp_all add: use_ids_def result_ids_def)
  have l: "leads is_thinking (bs @ [b])" if "list_all is_thinking bs" for bs
    using that assms(2) by (simp add: leads_all) (simp add: leads_def)
  have f: "leads is_thinking (b # bs) = leads is_thinking bs" for bs using assms(2) by (simp add: leads_def)
  show ?thesis using assms(1) assms(2) b l f by (auto simp: turn_shape_def add_thinking_def one_more_def)
qed

lemma assistant_run_shape:
  "render_assistant_run messages t = Inr t' \<Longrightarrow> turn_shape t \<Longrightarrow> turn_shape t'"
proof (induction messages t rule: render_assistant_run.induct)
  case (1 m i k p d g c messages t)
  show ?case
  proof (cases "render_replayed_reasoning p g c k")
    case None
    have "turn_shape (one_more t)" using "1.prems"(2) by (simp add: turn_shape_def one_more_def)
    with 1 None show ?thesis by simp
  next
    case (Some b)
    with 1 thinking_shape [OF "1.prems"(2) render_replayed_thinking [OF Some]] show ?thesis by simp
  qed
next
  case (2 m content messages t)
  from "2.prems"(1) obtain bs where bs: "render_assistant_blocks content = Inr bs" by (auto simp: bindR_Inr_iff)
  note c = continued_shape [OF conjunct1 [OF assistant_blocks_text [OF bs]] conjunct2 [OF assistant_blocks_text [OF bs]], of "at_blocks t"]
  have "turn_shape (one_more (t\<lparr>at_seen_content := True, at_blocks := append_continued_text (at_blocks t) bs\<rparr>))"
    using "2.prems"(2) c by (auto simp: turn_shape_def one_more_def)
  with 2 bs show ?case by (auto simp: bindR_Inr_iff)
next
  case (3 m call_id name args messages t)
  have "\<not> is_thinking (tool_use_block call_id name args)" by (simp add: is_thinking_def)
  then have "turn_shape (one_more (t\<lparr>at_seen_content := True, at_pending := at_pending t @ [call_id],
      at_blocks := at_blocks t @ [tool_use_block call_id name args]\<rparr>))"
    using "3.prems"(2) by (auto simp: turn_shape_def one_more_def use_ids_def result_ids_def or_empty_def intro: leads_append_none)
  with 3 show ?case by simp
qed auto

fun in_run :: "message \<Rightarrow> bool" where
  "in_run (Reasoning _ _ _ _ _ _ _) = True"
| "in_run (Assistant _ _) = True"
| "in_run (ToolUse _ _ _ _) = True"
| "in_run _ = False"

lemma assistant_run_used:
  "render_assistant_run messages t = Inr t' \<Longrightarrow> at_used t' = at_used t + length (takeWhile in_run messages)"
  by (induction messages t rule: render_assistant_run.induct)
    (auto simp: bindR_Inr_iff one_more_def add_thinking_def split: option.splits)

lemma assistant_turn_shape:
  assumes "render_assistant_turn (m # rest) [] = Inr t" and "in_run m"
  shows "at_pending t = use_ids (at_blocks t)" and "result_ids (at_blocks t) = []" and "leads is_thinking (at_blocks t)"
    and "drop (at_used t - 1) rest = dropWhile in_run rest"
proof -
  have "turn_shape t"
    by (rule assistant_run_shape [OF assms(1) [unfolded render_assistant_turn_def]]) (simp add: turn_shape_def leads_def)
  then show "at_pending t = use_ids (at_blocks t)" "result_ids (at_blocks t) = []" "leads is_thinking (at_blocks t)"
    by (simp_all add: turn_shape_def)
  from assistant_run_used [OF assms(1) [unfolded render_assistant_turn_def]] assms(2)
  show "drop (at_used t - 1) rest = dropWhile in_run rest" by (simp add: dropWhile_eq_drop)
qed

subsection \<open>The turns of a conversation\<close>

lemma good_turns_role:
  assumes "good_turns strict turns u p" and "turns \<noteq> []"
  shows "fst (last turns) = (if u then ''assistant'' else ''user'')" and "\<not> u \<Longrightarrow> p = []"
proof -
  from assms(2) obtain ts t where eq: "turns = ts @ [t]" by (metis rev_exhaust)
  from good_turns_last [OF assms(1) [unfolded eq]] obtain q where q: "p = use_ids (snd t)" "turn_ok strict (\<not> u) q t" by blast
  from turn_ok_role [OF q(2)] eq show "fst (last turns) = (if u then ''assistant'' else ''user'')" by simp
  show "\<not> u \<Longrightarrow> p = []" using q by (simp add: turn_ok_def)
qed

lemma push_turn_cases:
  assumes "good_turns strict turns u p" and "bs \<noteq> []"
  shows "turns = [] \<Longrightarrow> turn_ok strict (role = ''user'') [] (role, bs) \<Longrightarrow> good_turns strict (push_turn role bs turns) (role \<noteq> ''user'') (use_ids bs)"
    and "turns \<noteq> [] \<Longrightarrow> fst (last turns) \<noteq> role \<Longrightarrow> turn_ok strict u p (role, bs) \<Longrightarrow>
       good_turns strict (push_turn role bs turns) (\<not> u) (use_ids bs)"
    and "turns \<noteq> [] \<Longrightarrow> fst (last turns) = role \<Longrightarrow>
       (\<And>q. turn_ok strict (\<not> u) q (last turns) \<Longrightarrow> turn_ok strict (\<not> u) q (role, snd (last turns) @ bs)) \<Longrightarrow>
       good_turns strict (push_turn role bs turns) u (p @ use_ids bs)"
proof -
  show "turns = [] \<Longrightarrow> turn_ok strict (role = ''user'') [] (role, bs) \<Longrightarrow> good_turns strict (push_turn role bs turns) (role \<noteq> ''user'') (use_ids bs)"
    using assms(2) by (simp add: push_turn_def good_turns_one)
  show "good_turns strict (push_turn role bs turns) (\<not> u) (use_ids bs)"
    if "turns \<noteq> []" "fst (last turns) \<noteq> role" "turn_ok strict u p (role, bs)"
    using good_turns_add [OF assms(1), of "(role, bs)"] that assms(2) by (simp add: push_turn_def)
  show "good_turns strict (push_turn role bs turns) u (p @ use_ids bs)"
    if t: "turns \<noteq> []" "fst (last turns) = role" "\<And>q. turn_ok strict (\<not> u) q (last turns) \<Longrightarrow> turn_ok strict (\<not> u) q (role, snd (last turns) @ bs)"
  proof -
    have "good_turns strict (butlast turns @ [last turns]) u p" using assms(1) t(1) by simp
    from good_turns_grow [OF this, of bs] t assms(2) show ?thesis by (simp add: push_turn_def)
  qed
qed

lemma push_user:
  assumes "good_turns strict turns u []" and "list_all plain_block bs"
  shows "\<exists>u'. good_turns strict (push_turn ''user'' bs turns) u' [] \<and> (bs \<noteq> [] \<longrightarrow> \<not> u')"
proof (cases "bs = []")
  case True
  with assms(1) show ?thesis by (auto simp: push_turn_def)
next
  case False
  note c = push_turn_cases [OF assms(1) False, of "''user''"] and p = plain_ids [OF assms(2)]
  have ok: "turn_ok strict True [] (''user'', bs)" using p False by (simp add: turn_ok_def leads_none)
  show ?thesis
  proof (cases "turns = [] \<or> u")
    case True
    with c(1,2) ok p good_turns_role(1) [OF assms(1)] show ?thesis by (cases "turns = []") auto
  next
    case g: False
    then have "turn_ok strict (\<not> u) q (''user'', snd (last turns) @ bs)" if "turn_ok strict (\<not> u) q (last turns)" for q
      using that p by (auto simp: turn_ok_def intro: leads_append_none)
    with c(3) g p good_turns_role(1) [OF assms(1)] show ?thesis by auto
  qed
qed

lemma push_results:
  assumes "good_turns strict turns u pending" and "render_tool_results show_json results pending = Inr bs"
  shows "good_turns strict (push_turn ''user'' bs turns) False []"
proof -
  note t = tool_results_blocks [OF assms(2)]
  have "pending \<noteq> []" using t(1,5) by auto
  then have "turns \<noteq> []" using assms(1) by auto
  with good_turns_role [OF assms(1)] \<open>pending \<noteq> []\<close> have "u" "fst (last turns) = ''assistant''" by auto
  then show ?thesis using push_turn_cases(2) [OF assms(1) t(1) \<open>turns \<noteq> []\<close>, of "''user''"] t by (auto simp: turn_ok_def)
qed

lemma push_assistant:
  assumes "good_turns strict turns u []" and "result_ids bs = []" and "leads is_thinking bs"
    and "strict \<Longrightarrow> turns = [] \<or> \<not> u"
  shows "\<exists>u'. good_turns strict (push_turn ''assistant'' bs turns) u' (use_ids bs) \<and> (bs = [] \<longrightarrow> u' = u)"
proof (cases "bs = []")
  case True
  with assms(1) show ?thesis by (auto simp: push_turn_def)
next
  case False
  note c = push_turn_cases [OF assms(1) False, of "''assistant''"]
  have ok: "turn_ok strict False [] (''assistant'', bs)" using assms(2,3) False by (simp add: turn_ok_def)
  show ?thesis
  proof (cases "turns = [] \<or> \<not> u")
    case True
    with c(1,2) ok False good_turns_role(1) [OF assms(1)] show ?thesis by (cases "turns = []") auto
  next
    case g: False
    with assms(4) have "\<not> strict" by blast
    then have "turn_ok strict (\<not> u) q (''assistant'', snd (last turns) @ bs)" if "turn_ok strict (\<not> u) q (last turns)" for q
      using that g assms(2) by (auto simp: turn_ok_def)
    with c(3) g good_turns_role(1) [OF assms(1)] False show ?thesis by auto
  qed
qed

text \<open>Messages with something to say: the turns of the assistant they separate stay apart.\<close>

fun speaks :: "message \<Rightarrow> bool" where
  "speaks (System _ content) \<longleftrightarrow> content \<noteq> []"
| "speaks (Developer _ _ content) \<longleftrightarrow> content \<noteq> []"
| "speaks (User _ content) \<longleftrightarrow> content \<noteq> []"
| "speaks _ \<longleftrightarrow> True"

lemma user_blocks_speak: "render_user_blocks content = Inr bs \<Longrightarrow> content \<noteq> [] \<Longrightarrow> bs \<noteq> []"
  by (cases content rule: render_user_blocks.cases) (auto simp: bindR_Inr_iff)

definition apart :: "bool \<Rightarrow> bool \<Rightarrow> turns \<Rightarrow> message list \<Rightarrow> bool" where
  "apart strict u turns ms \<longleftrightarrow> (strict \<longrightarrow> list_all speaks ms \<and> (turns = [] \<or> \<not> u \<or> ms = [] \<or> \<not> in_run (hd ms)))"

lemma run_step:
  assumes "good_turns strict turns u []" and "apart strict u turns (m # rest)" and "in_run m"
    and "render_assistant_turn (m # rest) [] = Inr t"
  shows "\<exists>u'. good_turns strict (push_turn ''assistant'' (at_blocks t) turns) u' (at_pending t)
     \<and> apart strict u' (push_turn ''assistant'' (at_blocks t) turns) (drop (at_used t - 1) rest)"
proof -
  note a = assistant_turn_shape [OF assms(4,3)]
  from push_assistant [OF assms(1) a(2,3)] assms(2,3) obtain u' where
    u': "good_turns strict (push_turn ''assistant'' (at_blocks t) turns) u' (use_ids (at_blocks t))" by (auto simp: apart_def)
  have "dropWhile in_run rest = [] \<or> \<not> in_run (hd (dropWhile in_run rest))" using hd_dropWhile by blast
  moreover have "list_all speaks rest \<Longrightarrow> list_all speaks (dropWhile in_run rest)" by (auto simp: list_all_iff dest: set_dropWhileD)
  ultimately show ?thesis using u' assms(2) a(1,4) by (auto simp: apart_def)
qed

lemma user_step:
  assumes "good_turns strict turns u []" and "apart strict u turns (m # rest)" and "speaks m \<Longrightarrow> instruction_content m \<noteq> []"
    and "render_user_blocks (instruction_content m) = Inr bs"
  shows "\<exists>u'. good_turns strict (push_turn ''user'' bs turns) u' [] \<and> apart strict u' (push_turn ''user'' bs turns) rest"
proof -
  from push_user [OF assms(1) user_blocks_plain [OF assms(4)]] obtain u' where
    "good_turns strict (push_turn ''user'' bs turns) u' []" "bs \<noteq> [] \<longrightarrow> \<not> u'" by blast
  moreover have "bs \<noteq> []" if strict
    using that assms(2,3) user_blocks_speak [OF assms(4)] by (simp add: apart_def)
  ultimately show ?thesis using assms(2) by (auto simp: apart_def)
qed

lemma loop_turns:
  assumes "render_loop show_json ms pending turns = Inr (p, ts)" and "good_turns strict turns u pending" and "apart strict u turns ms"
  shows "\<exists>u'. good_turns strict ts u' p"
  using assms
proof (induction show_json ms pending turns arbitrary: u rule: render_loop.induct)
  case (1 show_json pending turns)
  then show ?case by auto
next
  case (2 show_json m rest pending turns)
  have run: ?case if "in_run m" "pending = []" "render_assistant_turn (m # rest) pending = Inr t"
    "\<And>u. render_loop show_json (drop (at_used t - 1) rest) (at_pending t) (push_turn ''assistant'' (at_blocks t) turns) = Inr (p, ts) \<Longrightarrow>
       good_turns strict (push_turn ''assistant'' (at_blocks t) turns) u (at_pending t) \<Longrightarrow>
       apart strict u (push_turn ''assistant'' (at_blocks t) turns) (drop (at_used t - 1) rest) \<Longrightarrow> \<exists>u'. good_turns strict ts u' p"
    "render_loop show_json (drop (at_used t - 1) rest) (at_pending t) (push_turn ''assistant'' (at_blocks t) turns) = Inr (p, ts)" for t
    using run_step [of strict turns u m rest t] that "2.prems"(2,3) by blast
  have user: ?case if "speaks m \<Longrightarrow> instruction_content m \<noteq> []" "pending = []" "render_user_blocks (instruction_content m) = Inr bs"
    "\<And>u. render_loop show_json rest pending (push_turn ''user'' bs turns) = Inr (p, ts) \<Longrightarrow>
       good_turns strict (push_turn ''user'' bs turns) u pending \<Longrightarrow> apart strict u (push_turn ''user'' bs turns) rest \<Longrightarrow>
       \<exists>u'. good_turns strict ts u' p"
    "render_loop show_json rest pending (push_turn ''user'' bs turns) = Inr (p, ts)" for bs
    using user_step [of strict turns u m rest bs] that "2.prems"(2,3) by blast
  show ?case
  proof (cases m)
    case (ToolResult md c n v)
    with "2.prems"(1) obtain bs where bs: "render_tool_results show_json (m # rest) pending = Inr bs"
      "render_loop show_json (drop (length bs - 1) rest) [] (push_turn ''user'' bs turns) = Inr (p, ts)"
      by (auto simp: bindR_Inr_iff)
    have "apart strict False (push_turn ''user'' bs turns) (drop (length bs - 1) rest)"
      using "2.prems"(3) by (auto simp: apart_def list_all_iff dest: in_set_dropD)
    with "2.IH"(7) [OF ToolResult] bs push_results [OF "2.prems"(2) bs(1)] ToolResult show ?thesis by auto
  next
    case (Reasoning a b c d e f g)
    with "2.prems"(1) "2.IH"(5) run show ?thesis by (auto simp: bindR_Inr_iff split: if_splits)
  next
    case (Assistant a b)
    with "2.prems"(1) "2.IH"(4) run show ?thesis by (auto simp: bindR_Inr_iff split: if_splits)
  next
    case (ToolUse a b c d)
    with "2.prems"(1) "2.IH"(6) run show ?thesis by (auto simp: bindR_Inr_iff split: if_splits)
  next
    case (System a b)
    with "2.prems"(1) "2.IH"(1) user show ?thesis by (auto simp: bindR_Inr_iff split: if_splits)
  next
    case (Developer a b c)
    with "2.prems"(1) "2.IH"(2) user show ?thesis by (auto simp: bindR_Inr_iff split: if_splits)
  next
    case (User a b)
    with "2.prems"(1) "2.IH"(3) user show ?thesis by (auto simp: bindR_Inr_iff split: if_splits)
  next
    case (UpstreamCompaction a b c)
    with "2.prems"(1) show ?thesis by simp
  qed
qed

lemma read_finished: "map read_turn (finish_turns ''content'' turns) = turns"
  by (induction turns) (auto simp: finish_turns_def read_turn_def get_str_def as_array_def or_empty_def)

lemma rendered_turns:
  assumes "render_messages show_json ms = Inr out" and "strict \<Longrightarrow> list_all speaks ms"
  shows "turns_answer strict (map read_turn out)"
proof -
  from assms(1) obtain ts where ts: "render_loop show_json ms [] [] = Inr ([], ts)"
    "finish_from_user ''content'' ''the first turn must be a user message on the anthropic messages wire'' ts = Inr out"
    by (auto simp: render_messages_def bindR_Inr_iff split: if_splits)
  then have o: "opens_user ts" "out = finish_turns ''content'' ts" by (auto simp: finish_from_user_def opens_user_def split: if_splits)
  have "good_turns strict [] True []" "apart strict True [] ms" using assms(2) by (auto simp: apart_def)
  from loop_turns [OF ts(1) this] o show ?thesis by (auto simp: good_turns_def turns_answer_def read_finished)
qed

end
