(* ===== verification/Anthropic_Replay.thy ===== *)
theory Anthropic_Replay
  imports Anthropic_Stream Anthropic_Turns
begin

text \<open>
  A response goes back as it came: the messages a body decodes to render as the blocks the body had,
  thinking with its signature and redacted thinking included.
\<close>

fun is_sealed :: "wire_block \<Rightarrow> bool" where
  "is_sealed (WThinking ts ss) \<longleftrightarrow> concat ss \<noteq> []"
| "is_sealed (WRedacted data) \<longleftrightarrow> data \<noteq> []"
| "is_sealed _ \<longleftrightarrow> False"

fun is_spoken :: "wire_block \<Rightarrow> bool" where
  "is_spoken (WText _) \<longleftrightarrow> True"
| "is_spoken (WTool _ _ _ _) \<longleftrightarrow> True"
| "is_spoken _ \<longleftrightarrow> False"

text \<open>The messages of a body, with the text that comes before it.\<close>

fun wire_messages :: "wire_block list \<Rightarrow> content_block list \<Rightarrow> message list" where
  "wire_messages [] c = flush_content [] c"
| "wire_messages (WText ds # ws) c = wire_messages ws (c @ [Text (concat ds)])"
| "wire_messages (WThinking ts ss # ws) c =
     flush_content [] c @ signed_reasoning (concat ts) (concat ss) AnthropicSignature # wire_messages ws []"
| "wire_messages (WRedacted data # ws) c = flush_content [] c @ redacted_reasoning data AnthropicRedacted # wire_messages ws []"
| "wire_messages (WTool call_id name fs input # ws) c = flush_content [] c @ ToolUse JNull call_id name input # wire_messages ws []"

lemma decode_wire:
  "stop \<noteq> MaxOutputLengthExceeded \<Longrightarrow> decode_blocks stop (map body_block ws) messages c = Inr (messages @ wire_messages ws c)"
  by (induction ws c arbitrary: messages rule: wire_messages.induct)
    (simp_all add: get_str_def or_empty_def decode_tool_use_def flush_content_def)

lemma sealed_blocks:
  "concat ss \<noteq> [] \<Longrightarrow> render_replayed_reasoning (concat ts) (concat ss) [] (Some AnthropicSignature) = Some (body_block (WThinking ts ss))"
  "data \<noteq> [] \<Longrightarrow> render_replayed_reasoning [] [] data (Some AnthropicRedacted) = Some (body_block (WRedacted data))"
  by (simp_all add: render_replayed_reasoning_def render_reasoning_block_def material_if_kind_def)

lemma render_sealed:
  assumes "list_all is_sealed ws" and "\<not> at_seen_content t"
  shows "\<exists>t'. render_assistant_run (wire_messages (ws @ rest) [] @ tail) t = render_assistant_run (wire_messages rest [] @ tail) t'
     \<and> at_blocks t' = at_blocks t @ map body_block ws \<and> \<not> at_seen_content t'"
  using assms
proof (induction ws arbitrary: t)
  case (Cons w ws)
  let ?t = "one_more (add_thinking (body_block w) t)"
  have t: "at_blocks ?t = at_blocks t @ [body_block w]" "\<not> at_seen_content ?t"
    using Cons.prems(2) by (simp_all add: one_more_def add_thinking_def)
  have "render_assistant_run (wire_messages ((w # ws) @ rest) [] @ tail) t = render_assistant_run (wire_messages (ws @ rest) [] @ tail) ?t"
    using Cons.prems(1) by (cases w) (simp_all add: flush_content_def signed_reasoning_def redacted_reasoning_def sealed_blocks del: body_block.simps)
  with Cons.IH [of ?t] Cons.prems(1) t show ?case by auto
qed (auto simp: exI [of _ t])

lemma render_text_blocks: "render_assistant_blocks (map Text ts) = Inr (map text_block ts)"
  by (induction ts) simp_all

definition ends_in_text :: "json list \<Rightarrow> bool" where
  "ends_in_text blocks \<longleftrightarrow> blocks \<noteq> [] \<and> json_index (last blocks) ''type'' = JString ''text''"

lemma append_new_text: "\<not> ends_in_text blocks \<Longrightarrow> append_continued_text blocks new = blocks @ new"
  unfolding append_continued_text_def ends_in_text_def by (rule if_not_P) blast

lemma render_flushed:
  assumes "\<not> ends_in_text (at_blocks t)"
  shows "\<exists>t'. render_assistant_run (flush_content [] (map Text ts) @ more_messages) t = render_assistant_run more_messages t'
     \<and> at_blocks t' = at_blocks t @ map text_block ts"
proof (cases "ts = []")
  case True
  then show ?thesis by (auto simp: flush_content_def)
next
  case False
  then show ?thesis
    using append_new_text [OF assms]
    by (auto simp: flush_content_def render_text_blocks one_more_def
        intro!: exI [of _ "one_more (t\<lparr>at_seen_content := True, at_blocks := append_continued_text (at_blocks t) (map text_block ts)\<rparr>)"])
qed

lemma render_spoken:
  assumes "list_all is_spoken ws" and "\<not> ends_in_text (at_blocks t)"
  shows "\<exists>t'. render_assistant_run (wire_messages ws (map Text ts) @ tail) t = render_assistant_run tail t'
     \<and> at_blocks t' = at_blocks t @ map text_block ts @ map body_block ws"
  using assms
proof (induction ws arbitrary: ts t)
  case Nil
  then show ?case using render_flushed [of t ts tail] by simp
next
  case (Cons w ws)
  show ?case
  proof (cases w)
    case (WText ds)
    then show ?thesis using Cons.IH [of t "ts @ [concat ds]"] Cons.prems by (simp add: text_block_def)
  next
    case (WTool call_id name fs input)
    from render_flushed [OF Cons.prems(2), of ts "ToolUse JNull call_id name input # wire_messages ws [] @ tail"] obtain t1 where
      t1: "render_assistant_run (flush_content [] (map Text ts) @ ToolUse JNull call_id name input # wire_messages ws [] @ tail) t
          = render_assistant_run (ToolUse JNull call_id name input # wire_messages ws [] @ tail) t1"
        "at_blocks t1 = at_blocks t @ map text_block ts" by blast
    define t2 where "t2 = one_more (t1\<lparr>at_seen_content := True, at_pending := at_pending t1 @ [call_id],
      at_blocks := at_blocks t1 @ [tool_use_block call_id name input]\<rparr>)"
    have b: "at_blocks t2 = at_blocks t @ map text_block ts @ [body_block w]"
      using t1(2) WTool by (simp add: t2_def one_more_def tool_use_block_def)
    then have "\<not> ends_in_text (at_blocks t2)" using WTool by (simp add: ends_in_text_def json_index_def)
    from Cons.IH [OF _ this, of "[]"] Cons.prems(1) obtain t3 where
      "render_assistant_run (wire_messages ws [] @ tail) t2 = render_assistant_run tail t3" "at_blocks t3 = at_blocks t2 @ map body_block ws" by auto
    with t1 b WTool show ?thesis by (intro exI [of _ t3]) (simp add: t2_def)
  qed (use Cons.prems(1) in simp_all)
qed

lemma run_stops: "tail = [] \<or> \<not> in_run (hd tail) \<Longrightarrow> render_assistant_run tail t = Inr t"
  by (cases tail; cases "hd tail") auto

lemma wire_messages_in_run: "list_all in_run (wire_messages ws c)"
  by (induction ws c rule: wire_messages.induct) (auto simp: flush_content_def signed_reasoning_def redacted_reasoning_def)

lemma replayed_blocks:
  assumes "list_all is_sealed ws" and "list_all is_spoken us" and "tail = [] \<or> \<not> in_run (hd tail)"
  shows "\<exists>t. render_assistant_turn (wire_messages (ws @ us) [] @ tail) pending = Inr t \<and> at_blocks t = map body_block (ws @ us)
     \<and> at_used t = length (wire_messages (ws @ us) [])"
proof -
  let ?t = "\<lparr>at_blocks = [], at_used = 0, at_seen_content = False, at_opens_with_thinking = False, at_pending = pending\<rparr>"
  from render_sealed [OF assms(1), of ?t us tail] obtain t1 where
    t1: "render_assistant_run (wire_messages (ws @ us) [] @ tail) ?t = render_assistant_run (wire_messages us [] @ tail) t1"
      "at_blocks t1 = map body_block ws" by auto
  have "\<not> ends_in_text (map body_block ws)"
    using assms(1) by (cases ws rule: rev_cases) (auto simp: ends_in_text_def json_index_def elim!: is_sealed.elims(2))
  from render_spoken [OF assms(2) this [folded t1(2)], of "[]" tail] obtain t2 where
    t2: "render_assistant_run (wire_messages us [] @ tail) t1 = render_assistant_run tail t2" "at_blocks t2 = map body_block (ws @ us)"
    using t1(2) by auto
  have r: "render_assistant_run (wire_messages (ws @ us) [] @ tail) ?t = Inr t2" using t1(1) t2(1) run_stops [OF assms(3)] by simp
  have "takeWhile in_run tail = []" using assms(3) by (cases tail) auto
  moreover have "takeWhile in_run (ms @ tail) = ms @ takeWhile in_run tail" if "list_all in_run ms" for ms
    using that by (induction ms) auto
  ultimately have "at_used t2 = length (wire_messages (ws @ us) [])"
    using assistant_run_used [OF r] wire_messages_in_run [of "ws @ us" "[]"] by simp
  with r t2(2) show ?thesis by (simp add: render_assistant_turn_def)
qed

end
