(* ===== verification/Chat.thy ===== *)
theory Chat
  imports Wire
begin

text \<open>
  The OpenAI chat completions wire and its vendors' modes: reading a buffered body
  (\<open>protocol/model_use/response/openai_chat.rs\<close>), decoding a stream
  (\<open>protocol/model_use/stream/openai_chat.rs\<close>, with the block bookkeeping of
  \<open>protocol/model_use/stream/blocks.rs\<close>), and Mistral's content chunks
  (\<open>protocol/model_use/mistral_chunks.rs\<close>).
\<close>

subsection \<open>Content chunks\<close>

definition chunk_type :: "json \<Rightarrow> string option" where
  "chunk_type chunk = get_str chunk ''type''"

definition is_thinking_chunk :: "json \<Rightarrow> bool" where
  "is_thinking_chunk chunk \<longleftrightarrow> chunk_type chunk \<in> {Some ''thinking'', Some ''think''}"

definition render_thinking_chunk :: "string \<Rightarrow> json" where
  "render_thinking_chunk reasoning = JObject [(''type'', JString ''thinking''), (''closed'', JBool True),
     (''thinking'', JArray [JObject [(''type'', JString ''text''), (''text'', JString reasoning)]])]"

datatype chunk_text = ChunkText string | ChunkThought string

text \<open>What is visited, in order.\<close>

fun visit_chunks :: "json list \<Rightarrow> error + chunk_text list" where
  "visit_chunks [] = Inr []"
| "visit_chunks (chunk # chunks) =
     (if chunk_type chunk = Some ''text''
      then bindR (visit_chunks chunks) (\<lambda>rest.
        Inr ((case get_str chunk ''text'' of None \<Rightarrow> [] | Some text \<Rightarrow> [ChunkText text]) @ rest))
      else if \<not> is_thinking_chunk chunk then visit_chunks chunks
      else case Option.bind (json_get chunk ''thinking'') as_array of
        None \<Rightarrow> Inl (Malformed ''`thinking` chunk carries no `thinking` list'')
      | Some parts \<Rightarrow> bindR (visit_chunks chunks) (\<lambda>rest.
          Inr (map ChunkThought (List.map_filter (\<lambda>part. get_str part ''text'') parts) @ rest)))"

definition join_text_chunks :: "json list \<Rightarrow> string" where
  "join_text_chunks chunks =
     concat (List.map_filter (\<lambda>chunk. if chunk_type chunk = Some ''text'' then get_str chunk ''text'' else None) chunks)"

definition join_thinking_chunks :: "json list \<Rightarrow> error + string" where
  "join_thinking_chunks chunks = bindR (visit_chunks chunks) (\<lambda>texts.
     Inr (concat (map (\<lambda>t. case t of ChunkThought text \<Rightarrow> text | ChunkText _ \<Rightarrow> []) texts)))"

subsection \<open>A buffered body\<close>

definition reasoning_field :: string where "reasoning_field = ''reasoning_content''"

definition chat_stop_reason :: "string option \<Rightarrow> chat_mode \<Rightarrow> stop_reason" where
  "chat_stop_reason finish_reason mode = (case finish_reason of
     None \<Rightarrow> StopUnknown
   | Some r \<Rightarrow>
       if r = ''stop'' then Stop
       else if r = ''length'' then MaxOutputLengthExceeded
       else if r \<in> {''tool_calls'', ''function_call''} then StopToolUse
       else if r \<in> {''content_filter'', ''sensitive''} then ContentFilter
       else if r = ''model_length'' \<and> is_mistral mode then ContextLengthExceeded
       else if r = ''model_context_window_exceeded'' then ContextLengthExceeded
       else StopUnknown)"

fun json_path :: "string list \<Rightarrow> json option \<Rightarrow> json option" where
  "json_path [] node = node"
| "json_path (key # keys) node = json_path keys (Option.bind node (\<lambda>v. json_get v key))"

definition chat_decode_usage :: "json \<Rightarrow> usage" where
  "chat_decode_usage body =
     (let field = (\<lambda>path. Option.bind (json_path path (json_get body ''usage'')) as_u64)
      in \<lparr>input_tokens = field [''prompt_tokens''], cached_input_tokens = field [''prompt_tokens_details'', ''cached_tokens''],
        cache_write_input_tokens = None, output_tokens = field [''completion_tokens''],
        reasoning_tokens = field [''completion_tokens_details'', ''reasoning_tokens''], total_tokens = field [''total_tokens'']\<rparr>)"

definition decode_refusal_error :: "json \<Rightarrow> error option" where
  "decode_refusal_error payload =
     Option.bind (json_get payload ''base_resp'') (\<lambda>base.
     Option.bind (Option.bind (json_get base ''status_code'') as_i64_text) (\<lambda>status.
     if status = ''0'' then None
     else let message = or_empty (get_str base ''status_msg'')
          in Some (from_in_band (Some status)
               (if message = [] then ''the service refused the call without a message'' else message))))"

definition first_choice :: "json \<Rightarrow> json option" where
  "first_choice payload = (case json_get payload ''choices'' of
     Some (JArray (choice # _)) \<Rightarrow> Some choice
   | Some (JObject members) \<Rightarrow> map_of members ''0''
   | _ \<Rightarrow> None)"

definition chat_decode_tool_use :: "(string \<Rightarrow> json option) \<Rightarrow> json \<Rightarrow> error + message" where
  "chat_decode_tool_use parse_json call =
     (case get_str call ''id'' of
        None \<Rightarrow> Inl (Malformed ''tool call is missing `id`'')
      | Some call_id \<Rightarrow> (case json_get call ''function'' of
          None \<Rightarrow> Inl (Malformed ''tool call is missing `function`'')
        | Some f \<Rightarrow> (case get_str f ''name'' of
            None \<Rightarrow> Inl (Malformed ''tool call function is missing `name`'')
          | Some name \<Rightarrow> (case parse_tool_arguments parse_json (or_empty (get_str f ''arguments'')) of
              None \<Rightarrow> Inl (Malformed ''tool call arguments are not valid JSON'')
            | Some arguments \<Rightarrow> Inr (ToolUse JNull call_id name arguments)))))"

fun chat_decode_calls :: "(string \<Rightarrow> json option) \<Rightarrow> json list \<Rightarrow> error + message list" where
  "chat_decode_calls parse_json [] = Inr []"
| "chat_decode_calls parse_json (call # calls) =
     bindR (chat_decode_tool_use parse_json call) (\<lambda>m. bindR (chat_decode_calls parse_json calls) (\<lambda>ms. Inr (m # ms)))"

definition is_null :: "json \<Rightarrow> bool" where
  "is_null v \<longleftrightarrow> v = JNull"

definition chat_decode_reasoning :: "json \<Rightarrow> chat_mode \<Rightarrow> error + message option" where
  "chat_decode_reasoning message mode =
     (if \<not> has_reasoning_field mode then Inr None
      else case json_get message reasoning_field of
        None \<Rightarrow> Inr None
      | Some v \<Rightarrow>
          if is_null v then Inr None
          else (case as_str v of
            None \<Rightarrow> Inl (Malformed (''`'' @ reasoning_field @ ''` is not a string''))
          | Some text \<Rightarrow> Inr (if text = [] then None else Some (reasoning_text text))))"

definition decode_thinking_chunks :: "json \<Rightarrow> chat_mode \<Rightarrow> error + message option" where
  "decode_thinking_chunks message mode =
     (if \<not> is_mistral mode then Inr None
      else case Option.bind (json_get message ''content'') as_array of
        None \<Rightarrow> Inr None
      | Some chunks \<Rightarrow> bindR (join_thinking_chunks chunks) (\<lambda>text.
          Inr (if text = [] then None else Some (reasoning_text text))))"

definition chat_content :: "json \<Rightarrow> chat_mode \<Rightarrow> content_block list" where
  "chat_content message mode = (case json_get message ''content'' of
     Some (JString text) \<Rightarrow> if text = [] then [] else [Text text]
   | Some (JArray chunks) \<Rightarrow>
       if is_mistral mode \<and> join_text_chunks chunks \<noteq> [] then [Text (join_text_chunks chunks)] else []
   | _ \<Rightarrow> [])"

definition chat_decode :: "(string \<Rightarrow> json option) \<Rightarrow> json \<Rightarrow> chat_mode \<Rightarrow> error + response" where
  "chat_decode parse_json body mode =
     (if json_get body ''error'' \<noteq> None
      then Inl (decode_in_band (json_get body ''error'') [''code''] ''upstream reported an error without a message'')
      else case (if mode = ChatMiniMax then decode_refusal_error body else None) of
        Some e \<Rightarrow> Inl e
      | None \<Rightarrow> (case first_choice body of
          None \<Rightarrow> Inl (Malformed ''response carries no choices'')
        | Some choice \<Rightarrow> (case json_get choice ''message'' of
            None \<Rightarrow> Inl (Malformed ''choice carries no message'')
          | Some message \<Rightarrow>
              let stop = chat_stop_reason (get_str choice ''finish_reason'') mode;
                  content = chat_content message mode
              in bindR (case Option.bind (json_get message ''tool_calls'') as_array of
                    Some calls \<Rightarrow> if stop \<noteq> MaxOutputLengthExceeded then chat_decode_calls parse_json calls else Inr []
                  | None \<Rightarrow> Inr []) (\<lambda>tool_uses.
                 bindR (chat_decode_reasoning message mode) (\<lambda>reasoning.
                 bindR (if reasoning \<noteq> None then Inr reasoning else decode_thinking_chunks message mode) (\<lambda>reasoning.
                 Inr \<lparr>resp_messages = (case reasoning of None \<Rightarrow> [] | Some m \<Rightarrow> [m])
                     @ (if content = [] then [] else [Assistant JNull content]) @ tool_uses,
                   resp_stop_reason = stop, resp_usage = chat_decode_usage body, resp_account_state = None\<rparr>))))))"

subsection \<open>Blocks opened as they come\<close>

record lazy_blocks =
  lb_next :: nat
  lb_text :: "nat option"
  lb_reasoning :: "nat option"

text \<open>
  The counter is a 32-bit number; a stream has fewer blocks than that, since each costs bytes of a body
  whose size is limited.
\<close>

definition counter_open :: "block_kind \<Rightarrow> lazy_blocks \<Rightarrow> nat \<times> lazy_blocks \<times> stream_event list" where
  "counter_open kind b = (lb_next b, b\<lparr>lb_next := lb_next b + 1\<rparr>, [BlockStart (lb_next b) kind])"

definition push_text :: "string \<Rightarrow> lazy_blocks \<Rightarrow> lazy_blocks \<times> stream_event list" where
  "push_text text b =
     (if text = [] then (b, [])
      else case lb_text b of
        Some index \<Rightarrow> (b, [TextDelta index text])
      | None \<Rightarrow> (case counter_open KindText b of
          (index, b, out) \<Rightarrow> (b\<lparr>lb_text := Some index\<rparr>, out @ [TextDelta index text])))"

definition push_reasoning :: "string \<Rightarrow> lazy_blocks \<Rightarrow> lazy_blocks \<times> stream_event list" where
  "push_reasoning text b =
     (if text = [] then (b, [])
      else case lb_reasoning b of
        Some index \<Rightarrow> (b, [ReasoningDelta index text])
      | None \<Rightarrow> (case counter_open KindReasoning b of
          (index, b, out) \<Rightarrow> (b\<lparr>lb_reasoning := Some index\<rparr>, out @ [ReasoningDelta index text])))"

fun push_texts :: "chunk_text list \<Rightarrow> lazy_blocks \<Rightarrow> lazy_blocks \<times> stream_event list" where
  "push_texts [] b = (b, [])"
| "push_texts (ChunkText text # texts) b =
     (case push_text text b of (b, out) \<Rightarrow> case push_texts texts b of (b, rest) \<Rightarrow> (b, out @ rest))"
| "push_texts (ChunkThought text # texts) b =
     (case push_reasoning text b of (b, out) \<Rightarrow> case push_texts texts b of (b, rest) \<Rightarrow> (b, out @ rest))"

definition push_chunks :: "json list \<Rightarrow> lazy_blocks \<Rightarrow> error + lazy_blocks \<times> stream_event list" where
  "push_chunks chunks b = bindR (visit_chunks chunks) (\<lambda>texts. Inr (push_texts texts b))"

definition get_opened :: "lazy_blocks \<Rightarrow> nat list" where
  "get_opened b = (case lb_text b of None \<Rightarrow> [] | Some i \<Rightarrow> [i]) @ (case lb_reasoning b of None \<Rightarrow> [] | Some i \<Rightarrow> [i])"

definition end_blocks_in_order :: "nat list \<Rightarrow> stream_event list" where
  "end_blocks_in_order indices = map BlockEnd (remdups_adj (sort indices))"

subsection \<open>A stream\<close>

text \<open>The map from the wire's call index to the block index: its order is never observed.\<close>

record chat_decoder =
  cd_mode :: chat_mode
  cd_blocks :: lazy_blocks
  cd_tool_blocks :: "(nat \<times> nat) list"
  cd_finish_reason :: "string option"
  cd_done :: bool

definition chat_decoder_new :: "chat_mode \<Rightarrow> chat_decoder" where
  "chat_decoder_new mode = \<lparr>cd_mode = mode, cd_blocks = \<lparr>lb_next = 0, lb_text = None, lb_reasoning = None\<rparr>,
     cd_tool_blocks = [], cd_finish_reason = None, cd_done = False\<rparr>"

definition terminate :: "chat_decoder \<Rightarrow> error + chat_decoder \<times> stream_event list" where
  "terminate d =
     (case cd_finish_reason d of
        None \<Rightarrow> Inl (Malformed ''stream ended without a finish_reason'')
      | Some r \<Rightarrow> Inr (d\<lparr>cd_done := True\<rparr>,
          end_blocks_in_order (map snd (cd_tool_blocks d) @ get_opened (cd_blocks d))
            @ [StopEvent (chat_stop_reason (Some r) (cd_mode d))]))"

definition wire_call_index :: "json \<Rightarrow> chat_decoder \<Rightarrow> error + nat" where
  "wire_call_index fragment d =
     (case Option.bind (json_get fragment ''index'') as_u64 of
        Some index \<Rightarrow>
          if index \<le> 2 ^ 32 - 1 then Inr index
          else Inl (Malformed (''tool_calls delta index '' @ show_nat index @ '' does not fit u32''))
      | None \<Rightarrow> (case cd_tool_blocks d of
          [(upstream, _)] \<Rightarrow> Inr upstream
        | _ \<Rightarrow> Inl (Malformed ''tool_calls delta without an index while it is ambiguous'')))"

definition non_empty :: "string option \<Rightarrow> string option" where
  "non_empty text = (case text of Some (c # cs) \<Rightarrow> text | _ \<Rightarrow> None)"

definition decode_tool_fragment :: "json \<Rightarrow> chat_decoder \<Rightarrow> error + chat_decoder \<times> stream_event list" where
  "decode_tool_fragment fragment d =
     bindR (wire_call_index fragment d) (\<lambda>upstream.
     let (index, d, out) = (case map_of (cd_tool_blocks d) upstream of
           Some index \<Rightarrow> (index, d, [])
         | None \<Rightarrow> (case counter_open KindToolUse (cd_blocks d) of
             (index, b, out) \<Rightarrow> (index, d\<lparr>cd_blocks := b, cd_tool_blocks := cd_tool_blocks d @ [(upstream, index)]\<rparr>, out)));
         field = (\<lambda>name. Option.bind (json_get fragment ''function'') (\<lambda>f. get_str f name))
     in Inr (d, out @ [ToolUseDelta index (non_empty (get_str fragment ''id'')) (non_empty (field ''name''))
          (or_empty (field ''arguments''))]))"

fun decode_tool_fragments :: "json list \<Rightarrow> chat_decoder \<Rightarrow> error + chat_decoder \<times> stream_event list" where
  "decode_tool_fragments [] d = Inr (d, [])"
| "decode_tool_fragments (f # fs) d =
     bindR (decode_tool_fragment f d) (\<lambda>(d, out). bindR (decode_tool_fragments fs d) (\<lambda>(d, rest). Inr (d, out @ rest)))"

definition content_delta :: "json \<Rightarrow> chat_decoder \<Rightarrow> error + chat_decoder \<times> stream_event list" where
  "content_delta delta d = (case json_get delta ''content'' of
     None \<Rightarrow> Inr (d, [])
   | Some JNull \<Rightarrow> Inr (d, [])
   | Some (JString text) \<Rightarrow> (case push_text text (cd_blocks d) of (b, out) \<Rightarrow> Inr (d\<lparr>cd_blocks := b\<rparr>, out))
   | Some (JArray chunks) \<Rightarrow>
       if is_mistral (cd_mode d)
       then bindR (push_chunks chunks (cd_blocks d)) (\<lambda>(b, out). Inr (d\<lparr>cd_blocks := b\<rparr>, out))
       else Inl (Malformed ''`content` is a chunk list, which this variant does not read'')
   | _ \<Rightarrow> Inl (Malformed ''`content` delta is not a string''))"

definition reasoning_delta :: "json \<Rightarrow> chat_decoder \<Rightarrow> error + chat_decoder \<times> stream_event list" where
  "reasoning_delta delta d =
     (if \<not> has_reasoning_field (cd_mode d) then Inr (d, [])
      else case json_get delta reasoning_field of
        None \<Rightarrow> Inr (d, [])
      | Some v \<Rightarrow>
          if is_null v then Inr (d, [])
          else (case as_str v of
            None \<Rightarrow> Inl (Malformed (''`'' @ reasoning_field @ ''` delta is not a string''))
          | Some text \<Rightarrow> (case push_reasoning text (cd_blocks d) of (b, out) \<Rightarrow> Inr (d\<lparr>cd_blocks := b\<rparr>, out))))"

definition chat_delta :: "json \<Rightarrow> chat_decoder \<Rightarrow> error + chat_decoder \<times> stream_event list" where
  "chat_delta delta d =
     bindR (content_delta delta d) (\<lambda>(d, out1).
     bindR (reasoning_delta delta d) (\<lambda>(d, out2).
     bindR (case Option.bind (json_get delta ''tool_calls'') as_array of
         None \<Rightarrow> Inr (d, []) | Some fragments \<Rightarrow> decode_tool_fragments fragments d) (\<lambda>(d, out3).
     Inr (d, out1 @ out2 @ out3))))"

definition chat_feed_payload :: "chat_decoder \<Rightarrow> json \<Rightarrow> error + chat_decoder \<times> stream_event list" where
  "chat_feed_payload d payload =
     (case json_get payload ''error'' of
        Some (JObject members) \<Rightarrow> Inl (decode_in_band (Some (JObject members)) [''code'', ''type'']
          ''upstream reported an error without a message'')
      | _ \<Rightarrow>
          let out = (case json_get payload ''usage'' of
                None \<Rightarrow> [] | Some u \<Rightarrow> if is_null u then [] else [UsageEvent (chat_decode_usage payload)])
          in case (if cd_mode d = ChatMiniMax then decode_refusal_error payload else None) of
               Some e \<Rightarrow> Inl e
             | None \<Rightarrow> (case first_choice payload of
                 None \<Rightarrow> Inr (d, out)
               | Some choice \<Rightarrow>
                   let d = (case get_str choice ''finish_reason'' of
                         None \<Rightarrow> d | Some r \<Rightarrow> d\<lparr>cd_finish_reason := Some r\<rparr>)
                   in case json_get choice ''delta'' of
                        Some (JObject members) \<Rightarrow> bindR (chat_delta (JObject members) d) (\<lambda>(d, rest). Inr (d, out @ rest))
                      | _ \<Rightarrow> Inr (d, out)))"

text \<open>\<open>data.trim() == "[DONE]"\<close>.\<close>

definition is_done :: "string \<Rightarrow> bool" where
  "is_done data = list_ex (\<lambda>i. is_blank (take i data) \<and> take 6 (drop i data) = ''[DONE]'' \<and> is_blank (drop (i + 6) data))
     [0..<Suc (length data)]"

definition chat_feed ::
  "(string \<Rightarrow> string + json) \<Rightarrow> chat_decoder \<Rightarrow> string \<Rightarrow> error + chat_decoder \<times> stream_event list" where
  "chat_feed read_json d data =
     (if cd_done d then Inl (Malformed ''chunk after [DONE]'')
      else if is_done data then terminate d
      else case read_json data of
        Inl e \<Rightarrow> Inl (Malformed (''chat chunk is not JSON: '' @ e))
      | Inr payload \<Rightarrow> chat_feed_payload d payload)"

definition chat_decoder_feed ::
  "(string \<Rightarrow> string + json) \<Rightarrow> chat_decoder \<Rightarrow> string \<Rightarrow> error + chat_decoder \<times> stream_event list" where
  "chat_decoder_feed read_json d data =
     bindR (chat_feed read_json d data) (\<lambda>(d, events). Inr (d, append_block_completions events))"

fun chat_decode_records ::
  "(string \<Rightarrow> string + json) \<Rightarrow> chat_decoder \<Rightarrow> string list \<Rightarrow> error + chat_decoder \<times> stream_event list" where
  "chat_decode_records read_json d [] = Inr (d, [])"
| "chat_decode_records read_json d (data # records) =
     bindR (chat_decoder_feed read_json d data) (\<lambda>(d, events).
     bindR (chat_decode_records read_json d records) (\<lambda>(d, rest). Inr (d, events @ rest)))"

end
