(* ===== verification/Chat_Stream.thy ===== *)
theory Chat_Stream
  imports Chat Stream_Contract
begin

text \<open>
  A chat completions stream and the contract of the accumulator it is fed to. The wire has no block
  events, so the decoder of \<open>protocol/model_use/stream/openai_chat.rs\<close> makes the blocks up as kinds
  appear. Whatever the upstream sends, the accumulator refuses none of the events the decoder makes
  before the end; at the end every block is closed once, in index order, and the only thing that can be
  refused is a tool block that never got its id or its name.
\<close>

subsection \<open>What the decoder knows of the accumulator\<close>

definition kind_at :: "accumulator \<Rightarrow> nat \<Rightarrow> block_kind option" where
  "kind_at acc i = map_option bl_kind (map_of (acc_blocks acc) i)"

text \<open>Every block the decoder opened is open in the accumulator, and no other is.\<close>

definition in_step :: "lazy_blocks \<Rightarrow> (nat \<times> nat) list \<Rightarrow> accumulator \<Rightarrow> bool" where
  "in_step b tools acc \<longleftrightarrow>
     acc_stop_reason acc = None \<and> bt_wf (acc_blocks acc)
     \<and> (\<forall>(i, bl) \<in> set (acc_blocks acc). \<not> bl_closed bl \<and> \<not> bl_complete bl)
     \<and> dom (map_of (acc_blocks acc)) = {..<lb_next b}
     \<and> set (map snd tools) \<union> set (get_opened b) = {..<lb_next b}
     \<and> (\<forall>i. lb_text b = Some i \<longrightarrow> kind_at acc i = Some KindText)
     \<and> (\<forall>i. lb_reasoning b = Some i \<longrightarrow> kind_at acc i = Some KindReasoning)
     \<and> (\<forall>i \<in> set (map snd tools). kind_at acc i = Some KindToolUse)"

text \<open>The events take an accumulator in step with one state to one in step with the next.\<close>

definition keeps_step ::
  "lazy_blocks \<times> (nat \<times> nat) list \<Rightarrow> stream_event list \<Rightarrow> lazy_blocks \<times> (nat \<times> nat) list \<Rightarrow> bool" where
  "keeps_step s es s' \<longleftrightarrow> (\<forall>i. BlockEnd i \<notin> set es)
     \<and> (\<forall>acc. in_step (fst s) (snd s) acc \<longrightarrow> (\<exists>acc'. feed_all es acc = Inr acc' \<and> in_step (fst s') (snd s') acc'))"

lemma keeps_step_Nil [simp]: "keeps_step s [] s"
  by (simp add: keeps_step_def)

lemma keeps_step_append: "keeps_step s es s1 \<Longrightarrow> keeps_step s1 es' s2 \<Longrightarrow> keeps_step s (es @ es') s2"
  unfolding keeps_step_def by (fastforce simp: feed_all_append)

lemma bt_insert_open:
  assumes "bt_wf m" and "\<forall>(i, bl) \<in> set m. P bl" and "P v"
  shows "\<forall>(i, bl) \<in> set (bt_insert k v m). P bl"
  using assms(2,3) set_bt_insert [of k v m] by fastforce

subsection \<open>Opening and filling blocks\<close>

text \<open>A delta to a block of its kind that is open.\<close>

lemma fill_block:
  assumes "in_step b tools acc" and "kind_at acc i = Some k" and "\<And>a. feed_open e a = edit_block i k f a"
    and "\<And>bl. bl_kind (f bl) = bl_kind bl \<and> bl_closed (f bl) = bl_closed bl \<and> bl_complete (f bl) = bl_complete bl"
  shows "\<exists>acc'. feed acc e = Inr acc' \<and> in_step b tools acc'"
proof -
  from assms(2) obtain bl where bl: "map_of (acc_blocks acc) i = Some bl" "bl_kind bl = k" by (auto simp: kind_at_def)
  then have mem: "(i, bl) \<in> set (acc_blocks acc)" by (simp add: map_of_SomeD)
  from assms(1) have wf: "bt_wf (acc_blocks acc)"
    and op: "\<forall>(i, bl) \<in> set (acc_blocks acc). \<not> bl_closed bl \<and> \<not> bl_complete bl" by (simp_all add: in_step_def)
  from op mem have o: "\<not> bl_closed bl" "\<not> bl_complete bl" by auto
  define acc' where "acc' = acc\<lparr>acc_blocks := bt_insert i (f bl) (acc_blocks acc)\<rparr>"
  have "feed acc e = Inr acc'"
    using bl o assms(1,3) by (simp add: feed_def in_step_def acc'_def edit_block_Inr)
  moreover have "\<forall>(j, bl) \<in> set (acc_blocks acc'). \<not> bl_closed bl \<and> \<not> bl_complete bl"
    unfolding acc'_def using bt_insert_open [OF wf op, of "f bl" i] assms(4) [of bl] o by simp
  moreover have "kind_at acc' = kind_at acc"
    using bl assms(4) [of bl] by (auto simp: kind_at_def acc'_def map_of_bt_insert [OF wf] fun_eq_iff)
  moreover have "dom (map_of (acc_blocks acc')) = dom (map_of (acc_blocks acc))"
    using bl by (auto simp: acc'_def map_of_bt_insert [OF wf])
  moreover have "bt_wf (acc_blocks acc')" "acc_stop_reason acc' = acc_stop_reason acc"
    by (simp_all add: acc'_def bt_wf_insert [OF wf])
  ultimately show ?thesis using assms(1) by (auto simp: in_step_def)
qed

text \<open>A new block takes the next index, which the caller then remembers.\<close>

lemma open_next:
  assumes "in_step b tools acc"
  shows "\<exists>acc'. feed acc (BlockStart (lb_next b) k) = Inr acc'
    \<and> kind_at acc' (lb_next b) = Some k
    \<and> (k = KindText \<longrightarrow> lb_text b = None \<longrightarrow> in_step (b\<lparr>lb_next := lb_next b + 1, lb_text := Some (lb_next b)\<rparr>) tools acc')
    \<and> (k = KindReasoning \<longrightarrow> lb_reasoning b = None
        \<longrightarrow> in_step (b\<lparr>lb_next := lb_next b + 1, lb_reasoning := Some (lb_next b)\<rparr>) tools acc')
    \<and> (k = KindToolUse \<longrightarrow> in_step (b\<lparr>lb_next := lb_next b + 1\<rparr>) (tools @ [(u, lb_next b)]) acc')"
proof -
  let ?n = "lb_next b"
  from assms have wf: "bt_wf (acc_blocks acc)"
    and op: "\<forall>(i, bl) \<in> set (acc_blocks acc). \<not> bl_closed bl \<and> \<not> bl_complete bl"
    and d: "dom (map_of (acc_blocks acc)) = {..<?n}" "set (map snd tools) \<union> set (get_opened b) = {..<?n}"
    and s: "acc_stop_reason acc = None" by (simp_all add: in_step_def)
  from d(1) have new: "map_of (acc_blocks acc) ?n = None" by (auto simp: domIff)
  define acc' where "acc' = acc\<lparr>acc_blocks := bt_insert ?n (new_block k) (acc_blocks acc)\<rparr>"
  have f: "feed acc (BlockStart ?n k) = Inr acc'" using new s by (simp add: feed_def open_block_def acc'_def)
  have o': "\<forall>(j, bl) \<in> set (acc_blocks acc'). \<not> bl_closed bl \<and> \<not> bl_complete bl"
    unfolding acc'_def using bt_insert_open [OF wf op, of "new_block k" ?n] by (simp add: new_block_def)
  have k': "kind_at acc' = (kind_at acc)(?n \<mapsto> k)"
    by (auto simp: kind_at_def acc'_def map_of_bt_insert [OF wf] fun_eq_iff new_block_def)
  have d': "dom (map_of (acc_blocks acc')) = {..<Suc ?n}"
    using d(1) by (simp add: acc'_def map_of_bt_insert [OF wf] lessThan_Suc)
  have w': "bt_wf (acc_blocks acc')" "acc_stop_reason acc' = None"
    by (simp_all add: acc'_def bt_wf_insert [OF wf] s)
  have old: "i < ?n" if "i \<in> set (map snd tools) \<union> set (get_opened b)" for i using that d(2) by blast
  have t: "lb_text b = Some i \<Longrightarrow> i < ?n" "lb_reasoning b = Some i \<Longrightarrow> i < ?n" for i
    using old by (auto simp: get_opened_def)
  have kinds: "lb_text b = Some i \<Longrightarrow> kind_at acc' i = Some KindText"
    "lb_reasoning b = Some i \<Longrightarrow> kind_at acc' i = Some KindReasoning"
    "i \<in> set (map snd tools) \<Longrightarrow> kind_at acc' i = Some KindToolUse" for i
  proof -
    have same: "kind_at acc' i = kind_at acc i" if "i < ?n" using that by (simp add: k')
    from assms have "lb_text b = Some i \<Longrightarrow> kind_at acc i = Some KindText"
      "lb_reasoning b = Some i \<Longrightarrow> kind_at acc i = Some KindReasoning"
      "i \<in> set (map snd tools) \<Longrightarrow> kind_at acc i = Some KindToolUse" unfolding in_step_def by blast+
    with same t [of i] old [of i] show "lb_text b = Some i \<Longrightarrow> kind_at acc' i = Some KindText"
      "lb_reasoning b = Some i \<Longrightarrow> kind_at acc' i = Some KindReasoning"
      "i \<in> set (map snd tools) \<Longrightarrow> kind_at acc' i = Some KindToolUse" by auto
  qed
  show ?thesis
    by (rule exI [of _ acc'], intro conjI impI)
       (use f o' d' w' kinds k' d(2) in \<open>auto simp: in_step_def get_opened_def lessThan_Suc\<close>)
qed

lemma in_step_text: "in_step b tools acc \<Longrightarrow> lb_text b = Some i \<Longrightarrow> kind_at acc i = Some KindText"
  and in_step_reasoning: "in_step b tools acc \<Longrightarrow> lb_reasoning b = Some i \<Longrightarrow> kind_at acc i = Some KindReasoning"
  and in_step_tool: "in_step b tools acc \<Longrightarrow> (u, i) \<in> set tools \<Longrightarrow> kind_at acc i = Some KindToolUse"
  by (force simp: in_step_def)+

lemma keeps_step_fill:
  assumes "\<And>acc. in_step b tools acc \<Longrightarrow> kind_at acc i = Some k" and "\<And>a. feed_open e a = edit_block i k f a"
    and "\<And>bl. bl_kind (f bl) = bl_kind bl \<and> bl_closed (f bl) = bl_closed bl \<and> bl_complete (f bl) = bl_complete bl"
    and "\<forall>i. e \<noteq> BlockEnd i"
  shows "keeps_step (b, tools) [e] (b, tools)"
  unfolding keeps_step_def using assms(4) fill_block [OF _ assms(1) assms(2,3)] by fastforce

lemma keeps_step_open:
  shows "lb_text b = None \<Longrightarrow> keeps_step (b, tools) [BlockStart (lb_next b) KindText]
      (b\<lparr>lb_next := lb_next b + 1, lb_text := Some (lb_next b)\<rparr>, tools)"
    and "lb_reasoning b = None \<Longrightarrow> keeps_step (b, tools) [BlockStart (lb_next b) KindReasoning]
      (b\<lparr>lb_next := lb_next b + 1, lb_reasoning := Some (lb_next b)\<rparr>, tools)"
    and "keeps_step (b, tools) [BlockStart (lb_next b) KindToolUse] (b\<lparr>lb_next := lb_next b + 1\<rparr>, tools @ [(u, lb_next b)])"
  using open_next [of b tools _ KindText] open_next [of b tools _ KindReasoning] open_next [of b tools _ KindToolUse u]
  by (fastforce simp: keeps_step_def)+

lemma push_text_keeps_step:
  assumes "push_text text b = (b', es)"
  shows "keeps_step (b, tools) es (b', tools)"
proof -
  have fill: "keeps_step (c, tools) [TextDelta i text] (c, tools)" if "lb_text c = Some i" for c i
    by (rule keeps_step_fill [where f = "\<lambda>b. b\<lparr>bl_text := bl_text b @ text\<rparr>", OF in_step_text]) (use that in auto)
  show ?thesis
  proof (cases "text = [] \<or> lb_text b \<noteq> None")
    case True
    then show ?thesis using assms fill by (auto simp: push_text_def split: if_splits option.splits)
  next
    case False
    then have e: "es = [BlockStart (lb_next b) KindText] @ [TextDelta (lb_next b) text]"
      "b' = b\<lparr>lb_next := lb_next b + 1, lb_text := Some (lb_next b)\<rparr>"
      using assms by (auto simp: push_text_def counter_open_def)
    show ?thesis unfolding e
      by (rule keeps_step_append [OF keeps_step_open(1) fill]) (use False in auto)
  qed
qed

lemma push_reasoning_keeps_step:
  assumes "push_reasoning text b = (b', es)"
  shows "keeps_step (b, tools) es (b', tools)"
proof -
  have fill: "keeps_step (c, tools) [ReasoningDelta i text] (c, tools)" if "lb_reasoning c = Some i" for c i
    by (rule keeps_step_fill [where f = "\<lambda>b. b\<lparr>bl_plaintext := bl_plaintext b @ text\<rparr>", OF in_step_reasoning]) (use that in auto)
  show ?thesis
  proof (cases "text = [] \<or> lb_reasoning b \<noteq> None")
    case True
    then show ?thesis using assms fill by (auto simp: push_reasoning_def split: if_splits option.splits)
  next
    case False
    then have e: "es = [BlockStart (lb_next b) KindReasoning] @ [ReasoningDelta (lb_next b) text]"
      "b' = b\<lparr>lb_next := lb_next b + 1, lb_reasoning := Some (lb_next b)\<rparr>"
      using assms by (auto simp: push_reasoning_def counter_open_def)
    show ?thesis unfolding e
      by (rule keeps_step_append [OF keeps_step_open(2) fill]) (use False in auto)
  qed
qed

lemma push_texts_keeps_step: "push_texts ts b = (b', es) \<Longrightarrow> keeps_step (b, tools) es (b', tools)"
proof (induction ts b arbitrary: b' es rule: push_texts.induct)
  case (2 t ts b)
  then show ?case by (auto split: prod.splits intro: keeps_step_append push_text_keeps_step)
next
  case (3 t ts b)
  then show ?case by (auto split: prod.splits intro: keeps_step_append push_reasoning_keeps_step)
qed simp

lemma push_chunks_keeps_step: "push_chunks chunks b = Inr (b', es) \<Longrightarrow> keeps_step (b, tools) es (b', tools)"
  by (auto simp: push_chunks_def bindR_Inr_iff intro: push_texts_keeps_step)

subsection \<open>A payload\<close>

definition state_of :: "chat_decoder \<Rightarrow> lazy_blocks \<times> (nat \<times> nat) list" where
  "state_of d = (cd_blocks d, cd_tool_blocks d)"

lemma fragment_keeps_step:
  assumes "decode_tool_fragment fragment d = Inr (d', es)"
  shows "keeps_step (state_of d) es (state_of d') \<and> cd_done d' = cd_done d \<and> cd_mode d' = cd_mode d"
proof -
  from assms obtain u where u: "wire_call_index fragment d = Inr u" by (auto simp: decode_tool_fragment_def bindR_Inr_iff)
  have fill: "keeps_step (b, tools) [ToolUseDelta i c n a] (b, tools)" if "(u, i) \<in> set tools" for b tools i c n a
    by (rule keeps_step_fill [where f = "push_tool_delta c n a", OF in_step_tool]) (use that in \<open>auto simp: push_tool_delta_def\<close>)
  show ?thesis
  proof (cases "map_of (cd_tool_blocks d) u")
    case (Some i)
    then have "(u, i) \<in> set (cd_tool_blocks d)" by (rule map_of_SomeD)
    then show ?thesis using assms u Some fill by (auto simp: decode_tool_fragment_def state_of_def Let_def)
  next
    case None
    let ?i = "lb_next (cd_blocks d)"
    from None assms u obtain c n a where e: "es = [BlockStart ?i KindToolUse] @ [ToolUseDelta ?i c n a]"
      "state_of d' = ((cd_blocks d)\<lparr>lb_next := ?i + 1\<rparr>, cd_tool_blocks d @ [(u, ?i)])" "cd_done d' = cd_done d" "cd_mode d' = cd_mode d"
      by (auto simp: decode_tool_fragment_def state_of_def Let_def counter_open_def)
    show ?thesis unfolding e state_of_def [of d]
      by (intro conjI keeps_step_append [OF keeps_step_open(3) fill]) simp_all
  qed
qed

lemma fragments_keep_step:
  "decode_tool_fragments fs d = Inr (d', es) \<Longrightarrow> keeps_step (state_of d) es (state_of d') \<and> cd_done d' = cd_done d \<and> cd_mode d' = cd_mode d"
proof (induction fs arbitrary: d es)
  case (Cons f fs)
  then show ?case by (fastforce simp: bindR_Inr_iff dest: fragment_keeps_step intro: keeps_step_append)
qed simp

lemma content_keeps_step:
  "content_delta delta d = Inr (d', es) \<Longrightarrow> keeps_step (state_of d) es (state_of d') \<and> cd_done d' = cd_done d \<and> cd_mode d' = cd_mode d"
  by (auto simp: content_delta_def state_of_def bindR_Inr_iff push_text_keeps_step push_chunks_keeps_step
      split: option.splits json.splits prod.splits if_splits)

lemma reasoning_keeps_step:
  "reasoning_delta delta d = Inr (d', es) \<Longrightarrow> keeps_step (state_of d) es (state_of d') \<and> cd_done d' = cd_done d \<and> cd_mode d' = cd_mode d"
  by (auto simp: reasoning_delta_def state_of_def push_reasoning_keeps_step
      split: option.splits prod.splits if_splits)

lemma delta_keeps_step:
  assumes "chat_delta delta d = Inr (d', es)"
  shows "keeps_step (state_of d) es (state_of d') \<and> cd_done d' = cd_done d \<and> cd_mode d' = cd_mode d"
proof -
  from assms obtain d1 e1 d2 e2 e3 where s: "content_delta delta d = Inr (d1, e1)" "reasoning_delta delta d1 = Inr (d2, e2)"
    "(case Option.bind (json_get delta ''tool_calls'') as_array of
         None \<Rightarrow> Inr (d2, []) | Some fragments \<Rightarrow> decode_tool_fragments fragments d2) = Inr (d', e3)" "es = e1 @ e2 @ e3"
    by (auto simp: chat_delta_def bindR_Inr_iff)
  from s(3) have "keeps_step (state_of d2) e3 (state_of d') \<and> cd_done d' = cd_done d2 \<and> cd_mode d' = cd_mode d2"
    by (auto split: option.splits dest: fragments_keep_step)
  with content_keeps_step [OF s(1)] reasoning_keeps_step [OF s(2)] s(4) show ?thesis
    by (auto intro: keeps_step_append)
qed

lemma usage_keeps_step: "keeps_step s [UsageEvent u] s"
  by (auto simp: keeps_step_def feed_def in_step_def kind_at_def)

text \<open>What a payload says of the tokens used, which goes first.\<close>

definition usage_events :: "json \<Rightarrow> stream_event list" where
  "usage_events payload = (case json_get payload ''usage'' of
     None \<Rightarrow> [] | Some u \<Rightarrow> if is_null u then [] else [UsageEvent (chat_decode_usage payload)])"

lemma payload_parts:
  assumes "chat_feed_payload d payload = Inr (d', es)"
  shows "\<exists>r. d' = d\<lparr>cd_finish_reason := r\<rparr> \<and> es = usage_events payload
    \<or> (\<exists>delta rest. chat_delta delta (d\<lparr>cd_finish_reason := r\<rparr>) = Inr (d', rest) \<and> es = usage_events payload @ rest)"
proof (cases "first_choice payload")
  case None
  with assms have "d' = d\<lparr>cd_finish_reason := cd_finish_reason d\<rparr>" "es = usage_events payload"
    unfolding chat_feed_payload_def Let_def usage_events_def by (auto split: option.splits json.splits if_splits)
  then show ?thesis by blast
next
  case (Some choice)
  define r where "r = (case get_str choice ''finish_reason'' of None \<Rightarrow> cd_finish_reason d | Some r \<Rightarrow> Some r)"
  have r: "(case get_str choice ''finish_reason'' of None \<Rightarrow> d | Some r \<Rightarrow> d\<lparr>cd_finish_reason := Some r\<rparr>)
    = d\<lparr>cd_finish_reason := r\<rparr>" by (simp add: r_def split: option.split)
  from assms Some have "(case json_get choice ''delta'' of
      Some (JObject members) \<Rightarrow>
        bindR (chat_delta (JObject members) (d\<lparr>cd_finish_reason := r\<rparr>)) (\<lambda>(d, rest). Inr (d, usage_events payload @ rest))
    | _ \<Rightarrow> Inr (d\<lparr>cd_finish_reason := r\<rparr>, usage_events payload)) = Inr (d', es)"
    unfolding chat_feed_payload_def Let_def usage_events_def [symmetric]
    by (cases "json_get payload ''error''") (simp_all add: r split: json.splits option.splits if_splits)
  then show ?thesis
    by (intro exI [of _ r]) (auto simp: bindR_Inr_iff split: option.splits json.splits)
qed

lemma payload_keeps_step:
  assumes "chat_feed_payload d payload = Inr (d', es)"
  shows "keeps_step (state_of d) es (state_of d') \<and> cd_done d' = cd_done d \<and> cd_mode d' = cd_mode d"
proof -
  have out: "keeps_step (state_of d) (usage_events payload) (state_of d)"
    by (auto simp: usage_events_def usage_keeps_step split: option.splits)
  have st: "state_of (d\<lparr>cd_finish_reason := r\<rparr>) = state_of d" for r by (simp add: state_of_def)
  from payload_parts [OF assms] consider r where "d' = d\<lparr>cd_finish_reason := r\<rparr>" "es = usage_events payload"
    | delta r rest where "chat_delta delta (d\<lparr>cd_finish_reason := r\<rparr>) = Inr (d', rest)" "es = usage_events payload @ rest" by blast
  then show ?thesis
  proof cases
    case 1
    then show ?thesis using out by (simp add: st)
  next
    case 2
    with delta_keeps_step [OF 2(1)] out show ?thesis by (auto simp: st intro: keeps_step_append)
  qed
qed

subsection \<open>The end\<close>

text \<open>What the end of a block is refused for.\<close>

definition ending_error :: "nat \<times> block \<Rightarrow> error option" where
  "ending_error = (\<lambda>(i, b).
     if bl_kind b = KindToolUse \<and> bl_call_id b = None
     then Some (build_violation_error (''tool block '' @ show_nat i @ '' closed without a call id''))
     else if bl_kind b = KindToolUse \<and> bl_name b = None
     then Some (build_violation_error (''tool block '' @ show_nat i @ '' closed without a name''))
     else None)"

definition ended_block :: "bool \<Rightarrow> nat \<times> block \<Rightarrow> nat \<times> block" where
  "ended_block normal = (\<lambda>(i, b). (i, b\<lparr>bl_closed := True, bl_complete := normal\<rparr>))"

definition endings :: "bool \<Rightarrow> nat list \<Rightarrow> stream_event list" where
  "endings normal indices = concat (map (\<lambda>i. if normal then [BlockEnd i, BlockComplete i] else [BlockEnd i]) indices)"

lemma endings_completions:
  "append_block_completions (map BlockEnd indices @ [StopEvent r]) = endings (r = Stop \<or> r = StopToolUse) indices @ [StopEvent r]"
proof -
  have "list_ex is_abnormal_stop (map BlockEnd indices @ [StopEvent r]) \<longleftrightarrow> \<not> (r = Stop \<or> r = StopToolUse)"
    by (auto simp: is_abnormal_stop_def list_ex_iff)
  then show ?thesis by (simp add: append_block_completions_def endings_def comp_def Let_def)
qed

lemma bt_insert_middle:
  assumes "bt_wf (xs @ (k, b) # ys)"
  shows "bt_insert k v (xs @ (k, b) # ys) = xs @ (k, v) # ys" and "map_of (xs @ (k, b) # ys) k = Some b"
proof -
  have below: "\<forall>x \<in> set (map fst xs). x < k" using assms by (auto simp: bt_wf_def sorted_wrt_append)
  then show "bt_insert k v (xs @ (k, b) # ys) = xs @ (k, v) # ys" by (induction xs) auto
  from below have "k \<notin> fst ` set xs" by auto
  then have "map_of xs k = None" by (simp add: map_of_eq_None_iff)
  then show "map_of (xs @ (k, b) # ys) k = Some b" by (simp add: map_add_def)
qed

lemma end_block:
  assumes "acc_stop_reason acc = None" and "acc_blocks acc = xs @ (i, b) # ys" and "bt_wf (acc_blocks acc)"
    and "\<not> bl_closed b" "\<not> bl_complete b"
  shows "feed_all (endings normal [i]) acc = (case ending_error (i, b) of
      Some e \<Rightarrow> Inl e
    | None \<Rightarrow> Inr (acc\<lparr>acc_blocks := xs @ ended_block normal (i, b) # ys\<rparr>))"
proof -
  note m = bt_insert_middle [OF assms(3) [unfolded assms(2)]]
  have w: "bt_wf (xs @ (i, b\<lparr>bl_closed := True\<rparr>) # ys)" using assms(2,3) by (simp add: bt_wf_def)
  note m' = bt_insert_middle [OF w]
  from assms(5) have open_end: "ended_block False (i, b) = (i, b\<lparr>bl_closed := True\<rparr>)"
    by (cases b) (simp add: ended_block_def)
  show ?thesis
    using assms m m' open_end by (cases normal)
      (simp_all add: endings_def feed_def close_block_def complete_block_def ending_error_def, simp add: ended_block_def)
qed

lemma end_blocks:
  assumes "acc_stop_reason acc = None" and "acc_blocks acc = xs @ ys" and "bt_wf (acc_blocks acc)"
    and "\<forall>(i, b) \<in> set ys. \<not> bl_closed b \<and> \<not> bl_complete b"
  shows "feed_all (endings normal (map fst ys)) acc = (case List.map_filter ending_error ys of
      e # _ \<Rightarrow> Inl e
    | [] \<Rightarrow> Inr (acc\<lparr>acc_blocks := xs @ map (ended_block normal) ys\<rparr>))"
  using assms
proof (induction ys arbitrary: xs acc)
  case Nil
  then show ?case by (simp add: endings_def map_filter_simps)
next
  case (Cons y ys)
  obtain i b where y: "y = (i, b)" by (cases y)
  have "endings normal (map fst (y # ys)) = endings normal [i] @ endings normal (map fst ys)"
    by (simp add: endings_def y)
  then have split: "feed_all (endings normal (map fst (y # ys))) acc
      = bindR (feed_all (endings normal [i]) acc) (feed_all (endings normal (map fst ys)))"
    by (simp only: feed_all_append)
  let ?acc = "acc\<lparr>acc_blocks := (xs @ [ended_block normal y]) @ ys\<rparr>"
  have "bt_wf (acc_blocks ?acc)" using Cons.prems(2,3) by (simp add: bt_wf_def ended_block_def y)
  with Cons.IH [of ?acc "xs @ [ended_block normal y]"] Cons.prems end_block [of acc xs i b ys normal]
  show ?case unfolding split by (auto simp: y map_filter_simps split: option.split list.split)
qed

subsection \<open>A whole stream\<close>

lemma distinct_remdups_adj_sorted: "sorted xs \<Longrightarrow> distinct (remdups_adj xs)"
  by (induction xs rule: remdups_adj.induct) (auto simp: less_le)

lemma end_blocks_in_order_all: "set is = {..<n} \<Longrightarrow> end_blocks_in_order is = map BlockEnd [0..<n]"
  unfolding end_blocks_in_order_def
  by (rule arg_cong [where f = "map BlockEnd"], rule sorted_distinct_set_unique)
     (auto simp: distinct_remdups_adj_sorted sorted_remdups_adj atLeast0LessThan)

lemma in_step_keys: "in_step b tools acc \<Longrightarrow> map fst (acc_blocks acc) = [0..<lb_next b]"
  by (rule sorted_distinct_set_unique)
     (auto simp: in_step_def bt_wf_def strict_sorted_iff dom_map_of_conv_image_fst atLeast0LessThan)

definition last_events :: "chat_decoder \<Rightarrow> stream_event list" where
  "last_events d = (let r = chat_stop_reason (cd_finish_reason d) (cd_mode d)
     in endings (r = Stop \<or> r = StopToolUse) [0..<lb_next (cd_blocks d)] @ [StopEvent r])"

lemma records_in_step:
  assumes "chat_decode_records read_json d records = Inr (d', es)" and "\<not> cd_done d"
    and "in_step (cd_blocks d) (cd_tool_blocks d) acc"
  shows "\<exists>es1 acc'. feed_all es1 acc = Inr acc' \<and> in_step (cd_blocks d') (cd_tool_blocks d') acc'
    \<and> es = es1 @ (if cd_done d' then last_events d' else []) \<and> cd_mode d' = cd_mode d"
  using assms
proof (induction records arbitrary: d es acc)
  case (Cons data records)
  from Cons.prems(1) obtain d1 e1 rest where s: "chat_feed read_json d data = Inr (d1, e1)"
    "chat_decode_records read_json d1 records = Inr (d', rest)" "es = append_block_completions e1 @ rest"
    by (auto simp: chat_decoder_feed_def bindR_Inr_iff)
  show ?case
  proof (cases "is_done data")
    case True
    with s(1) Cons.prems(2) obtain r where r: "cd_finish_reason d = Some r" "d1 = d\<lparr>cd_done := True\<rparr>"
      "e1 = end_blocks_in_order (map snd (cd_tool_blocks d) @ get_opened (cd_blocks d)) @ [StopEvent (chat_stop_reason (Some r) (cd_mode d))]"
      by (auto simp: chat_feed_def terminate_def split: option.splits)
    from s(2) r(2) have last: "rest = []" "d' = d1"
      by (cases records; simp add: chat_decoder_feed_def chat_feed_def)+
    have "set (map snd (cd_tool_blocks d) @ get_opened (cd_blocks d)) = {..<lb_next (cd_blocks d)}"
      using Cons.prems(3) by (simp add: in_step_def)
    then have "append_block_completions e1 = last_events d'"
      using r last by (simp add: end_blocks_in_order_all endings_completions last_events_def Let_def)
    then show ?thesis using s(3) last r Cons.prems(3) by (intro exI [of _ "[]"]) simp
  next
    case False
    with s(1) Cons.prems(2) obtain payload where p: "chat_feed_payload d payload = Inr (d1, e1)"
      by (auto simp: chat_feed_def split: sum.splits)
    note k = payload_keeps_step [OF p]
    from k Cons.prems(3) obtain acc1 where a: "feed_all e1 acc = Inr acc1" "in_step (cd_blocks d1) (cd_tool_blocks d1) acc1"
      by (auto simp: keeps_step_def state_of_def)
    from k have e: "append_block_completions e1 = e1" by (intro completions_none) (simp add: keeps_step_def)
    from Cons.IH [OF s(2) _ a(2)] k Cons.prems(2) obtain es1 acc' where
      i: "feed_all es1 acc1 = Inr acc'" "in_step (cd_blocks d') (cd_tool_blocks d') acc'"
        "rest = es1 @ (if cd_done d' then last_events d' else [])" "cd_mode d' = cd_mode d1" by auto
    show ?thesis
      by (rule exI [of _ "e1 @ es1"], rule exI [of _ acc']) (use a i e s(3) k in \<open>simp add: feed_all_append\<close>)
  qed
qed (use assms in auto)

text \<open>The two refusals a tool block can meet at its end.\<close>

definition nameless_tool :: "nat \<Rightarrow> error set" where
  "nameless_tool i = {build_violation_error (''tool block '' @ show_nat i @ '' closed without a call id''),
     build_violation_error (''tool block '' @ show_nat i @ '' closed without a name'')}"

definition named_if_tool :: "block \<Rightarrow> bool" where
  "named_if_tool b \<longleftrightarrow> bl_kind b = KindToolUse \<longrightarrow> bl_call_id b \<noteq> None \<and> bl_name b \<noteq> None"

lemma in_step_kind_tool:
  assumes "in_step b tools acc" and "(i, bl) \<in> set (acc_blocks acc)" and "bl_kind bl = KindToolUse"
  shows "i \<in> snd ` set tools"
proof -
  from assms(1) have "distinct (map fst (acc_blocks acc))" by (simp add: in_step_def bt_wf_def strict_sorted_iff)
  with assms(2) have m: "map_of (acc_blocks acc) i = Some bl" by simp
  with assms(3) have k: "kind_at acc i = Some KindToolUse" by (simp add: kind_at_def)
  from m assms(1) have "i \<in> set (map snd tools) \<union> set (get_opened b)" unfolding in_step_def by blast
  moreover have "i \<notin> set (get_opened b)"
    using k in_step_text [OF assms(1)] in_step_reasoning [OF assms(1)] by (auto simp: get_opened_def split: option.splits)
  ultimately show ?thesis by simp
qed

lemma ending_errors:
  assumes "\<forall>(i, b) \<in> set bs. bl_kind b = KindToolUse \<longrightarrow> i \<in> T"
  shows "case List.map_filter ending_error bs of
      e # _ \<Rightarrow> \<exists>i \<in> T. e \<in> nameless_tool i
    | [] \<Rightarrow> \<forall>(i, b) \<in> set bs. named_if_tool b"
  using assms
proof (induction bs)
  case (Cons x bs)
  then show ?case
    by (cases x) (auto simp: map_filter_simps ending_error_def nameless_tool_def named_if_tool_def split: list.splits)
qed (simp add: map_filter_simps)

lemma ended_blocks:
  "map fst (map (ended_block normal) bs) = map fst bs"
  "(\<forall>(i, b) \<in> set (map (ended_block normal) bs). bl_closed b \<and> bl_complete b = normal \<and> named_if_tool b)
    \<longleftrightarrow> (\<forall>(i, b) \<in> set bs. named_if_tool b)"
  by (auto simp: ended_block_def case_prod_beta named_if_tool_def)

lemma end_of_stream:
  assumes "in_step b tools acc"
  shows "case feed_all (endings normal [0..<lb_next b] @ [StopEvent r]) acc of
      Inl e \<Rightarrow> \<exists>i \<in> snd ` set tools. e \<in> nameless_tool i
    | Inr acc' \<Rightarrow> acc_stop_reason acc' = Some r \<and> map fst (acc_blocks acc') = [0..<lb_next b]
        \<and> (\<forall>(i, b) \<in> set (acc_blocks acc'). bl_closed b \<and> bl_complete b = normal \<and> named_if_tool b)"
proof -
  from assms have s: "acc_stop_reason acc = None" "bt_wf (acc_blocks acc)"
    "\<forall>(i, bl) \<in> set (acc_blocks acc). \<not> bl_closed bl \<and> \<not> bl_complete bl" by (simp_all add: in_step_def)
  have "\<forall>(i, bl) \<in> set (acc_blocks acc). bl_kind bl = KindToolUse \<longrightarrow> i \<in> snd ` set tools"
    using in_step_kind_tool [OF assms] by blast
  from ending_errors [OF this] end_blocks [OF s(1) _ s(2,3), of "[]" normal] s(1) in_step_keys [OF assms]
    ended_blocks [of normal "acc_blocks acc"]
  show ?thesis by (simp add: feed_all_append feed_def del: list.set_map list.map_comp split: list.splits)
qed

text \<open>A response is put together from closed blocks unless the arguments of a call are not JSON.\<close>

lemma finish_blocks_closed:
  assumes "\<forall>(i, b) \<in> set blocks. bl_closed b \<and> named_if_tool b"
    and "finish_blocks parse_json rules blocks items messages = Inl e"
  shows "\<exists>(i, b) \<in> set blocks. bl_kind b = KindToolUse \<and> parse_tool_arguments parse_json (bl_arguments b) = None
    \<and> e = Malformed (''arguments of streamed tool block '' @ show_nat i @ '' are not valid JSON'')"
  using assms
proof (induction parse_json rules blocks items messages rule: finish_blocks.induct)
  case (2 parse_json rules index b blocks items messages)
  show ?case
  proof (cases "bl_kind b")
    case KindToolUse
    with 2 show ?thesis
      by (cases "finish_tool_block parse_json index b")
         (fastforce simp: Let_def named_if_tool_def finish_tool_block_def split: option.splits)+
  qed (use 2 in \<open>fastforce simp: Let_def\<close>)+
qed simp

lemma finish_closed:
  assumes "acc_stop_reason acc = Some r" and "\<forall>(i, b) \<in> set (acc_blocks acc). bl_closed b \<and> named_if_tool b"
    and "finish parse_json acc = Inl e"
  shows "\<exists>(i, b) \<in> set (acc_blocks acc). bl_kind b = KindToolUse \<and> parse_tool_arguments parse_json (bl_arguments b) = None
    \<and> e = Malformed (''arguments of streamed tool block '' @ show_nat i @ '' are not valid JSON'')"
proof (rule finish_blocks_closed [OF assms(2)])
  from assms(1,3) show "finish_blocks parse_json (acc_replay acc) (acc_blocks acc) (acc_items acc) [] = Inl e"
    by (cases "finish_blocks parse_json (acc_replay acc) (acc_blocks acc) (acc_items acc) []") (auto simp: finish_def)
qed

end
