(* ===== verification/Chat_Replies.thy ===== *)
theory Chat_Replies
  imports Chat_Stream Anthropic_Stream
begin

text \<open>
  A reply of the chat completions wire in its two forms: the chunks of a stream and the buffered body.
  Decoding and accumulating the one gives what decoding the other gives, in every mode of the wire. The
  blocks a stream is accumulated to are those of \<open>Anthropic_Stream\<close>.
\<close>

subsection \<open>A reply in both forms\<close>

text \<open>A call: its id, its name, the pieces of its arguments and what they read as.\<close>

type_synonym chat_call = "string \<times> string \<times> string list \<times> json"

definition chat_chunk :: "(string \<times> json) list \<Rightarrow> json" where
  "chat_chunk delta = JObject [(''choices'', JArray [JObject [(''delta'', JObject delta), (''finish_reason'', JNull)]])]"

definition call_chunk :: "nat \<Rightarrow> (string \<times> json) list \<Rightarrow> (string \<times> json) list \<Rightarrow> json" where
  "call_chunk k own f = chat_chunk [(''tool_calls'', JArray [JObject ((''index'', jnat k) # own @ [(''function'', JObject f)])])]"

fun call_payloads :: "nat \<Rightarrow> chat_call \<Rightarrow> json list" where
  "call_payloads k (call_id, name, fs, arguments) =
     call_chunk k [(''id'', JString call_id)] [(''name'', JString name), (''arguments'', JString [])]
     # map (\<lambda>f. call_chunk k [] [(''arguments'', JString f)]) fs"

fun calls_payloads :: "nat \<Rightarrow> chat_call list \<Rightarrow> json list" where
  "calls_payloads k [] = []"
| "calls_payloads k (c # cs) = call_payloads k c @ calls_payloads (Suc k) cs"

definition chat_payloads :: "string list \<Rightarrow> string list \<Rightarrow> chat_call list \<Rightarrow> string \<Rightarrow> json \<Rightarrow> json list" where
  "chat_payloads thoughts texts calls reason u =
     map (\<lambda>d. chat_chunk [(reasoning_field, JString d)]) thoughts @ map (\<lambda>d. chat_chunk [(''content'', JString d)]) texts
     @ calls_payloads 0 calls
     @ [JObject [(''choices'', JArray [JObject [(''delta'', JObject []), (''finish_reason'', JString reason)]])],
        JObject [(''choices'', JArray []), (''usage'', u)]]"

fun call_body :: "chat_call \<Rightarrow> json" where
  "call_body (call_id, name, fs, arguments) = JObject [(''id'', JString call_id),
     (''function'', JObject [(''name'', JString name), (''arguments'', JString (concat fs))])]"

definition chat_body :: "string list \<Rightarrow> string list \<Rightarrow> chat_call list \<Rightarrow> string \<Rightarrow> json \<Rightarrow> json" where
  "chat_body thoughts texts calls reason u = JObject [(''choices'', JArray [JObject [(''message'', JObject [
       (reasoning_field, JString (concat thoughts)), (''content'', JString (concat texts)),
       (''tool_calls'', JArray (map call_body calls))]), (''finish_reason'', JString reason)]]), (''usage'', u)]"

fun call_ok :: "(string \<Rightarrow> json option) \<Rightarrow> chat_call \<Rightarrow> bool" where
  "call_ok parse_json (call_id, name, fs, arguments) \<longleftrightarrow>
     call_id \<noteq> [] \<and> name \<noteq> [] \<and> parse_tool_arguments parse_json (concat fs) = Some arguments"

fun call_message :: "chat_call \<Rightarrow> message" where
  "call_message (call_id, name, fs, arguments) = ToolUse JNull call_id name arguments"

subsection \<open>The chunks\<close>

fun chat_run :: "chat_decoder \<Rightarrow> json list \<Rightarrow> error + chat_decoder \<times> stream_event list" where
  "chat_run d [] = Inr (d, [])"
| "chat_run d (p # ps) =
     bindR (chat_feed_payload d p) (\<lambda>(d, es). bindR (chat_run d ps) (\<lambda>(d, rest). Inr (d, es @ rest)))"

lemma bindR_return [simp]: "bindR r Inr = r"
  by (cases r) simp_all

lemma chat_run_append:
  "chat_run d (ps @ qs) = bindR (chat_run d ps) (\<lambda>(d, es). bindR (chat_run d qs) (\<lambda>(d, rest). Inr (d, es @ rest)))"
proof (induction ps arbitrary: d)
  case Nil
  then show ?case by (cases "chat_run d qs") auto
next
  case (Cons p ps)
  show ?case
  proof (cases "chat_feed_payload d p")
    case (Inr x)
    obtain d1 e1 where x: "x = (d1, e1)" by (cases x)
    show ?thesis
      using Inr x Cons.IH [of d1] by (cases "chat_run d1 ps"; cases "chat_run (fst (projr (chat_run d1 ps))) qs") auto
  qed simp
qed

lemma chunk_fed: "chat_feed_payload d (chat_chunk delta) = chat_delta (JObject delta) d"
  by (cases "chat_delta (JObject delta) d")
     (auto simp: chat_feed_payload_def chat_chunk_def first_choice_def get_str_def decode_refusal_error_def Let_def)

lemma thought_fed:
  "chat_feed_payload d (chat_chunk [(reasoning_field, JString t)]) =
     (if has_reasoning_field (cd_mode d)
      then case push_reasoning t (cd_blocks d) of (b, out) \<Rightarrow> Inr (d\<lparr>cd_blocks := b\<rparr>, out) else Inr (d, []))"
  by (simp add: chunk_fed chat_delta_def content_delta_def reasoning_delta_def reasoning_field_def is_null_def split: prod.split)

lemma text_fed:
  "chat_feed_payload d (chat_chunk [(''content'', JString t)]) =
     (case push_text t (cd_blocks d) of (b, out) \<Rightarrow> Inr (d\<lparr>cd_blocks := b\<rparr>, out))"
  by (simp add: chunk_fed chat_delta_def content_delta_def reasoning_delta_def reasoning_field_def is_null_def split: prod.split)

lemma thoughts_open:
  "lb_reasoning (cd_blocks d) = Some i \<Longrightarrow> has_reasoning_field (cd_mode d) \<Longrightarrow>
     chat_run d (map (\<lambda>d. chat_chunk [(reasoning_field, JString d)]) ts) = Inr (d, map (ReasoningDelta i) (filter (\<lambda>t. t \<noteq> []) ts))"
  by (induction ts) (simp_all add: thought_fed push_reasoning_def)

lemma texts_open:
  "lb_text (cd_blocks d) = Some i \<Longrightarrow>
     chat_run d (map (\<lambda>d. chat_chunk [(''content'', JString d)]) ts) = Inr (d, map (TextDelta i) (filter (\<lambda>t. t \<noteq> []) ts))"
  by (induction ts) (simp_all add: text_fed push_text_def)

definition thought_items :: "string list \<Rightarrow> wire_block list" where
  "thought_items ts = (if concat ts = [] then [] else [WThinking (filter (\<lambda>t. t \<noteq> []) ts) []])"

definition text_items :: "string list \<Rightarrow> wire_block list" where
  "text_items ts = (if concat ts = [] then [] else [WText (filter (\<lambda>t. t \<noteq> []) ts)])"

lemma items_skip [simp]: "thought_items ([] # ts) = thought_items ts" "text_items ([] # ts) = text_items ts"
  by (simp_all add: thought_items_def text_items_def)

text \<open>The events of blocks that all stay open.\<close>

fun open_events :: "nat \<Rightarrow> wire_block list \<Rightarrow> stream_event list" where
  "open_events i [] = []"
| "open_events i (b # bs) = block_events i b @ open_events (Suc i) bs"

lemma open_events_append: "open_events i (bs @ cs) = open_events i bs @ open_events (i + length bs) cs"
  by (induction bs arbitrary: i) simp_all

lemma run_thoughts:
  assumes "lb_reasoning (cd_blocks d) = None" and "has_reasoning_field (cd_mode d)"
  shows "\<exists>b. chat_run d (map (\<lambda>d. chat_chunk [(reasoning_field, JString d)]) ts)
      = Inr (d\<lparr>cd_blocks := b\<rparr>, open_events (lb_next (cd_blocks d)) (thought_items ts))
    \<and> lb_next b = lb_next (cd_blocks d) + length (thought_items ts) \<and> lb_text b = lb_text (cd_blocks d)"
  using assms(1)
proof (induction ts)
  case (Cons t ts)
  show ?case
  proof (cases "t = []")
    case True
    then show ?thesis using Cons.IH [OF Cons.prems] assms(2) by (simp add: thought_fed push_reasoning_def)
  next
    case False
    let ?b = "(cd_blocks d)\<lparr>lb_next := lb_next (cd_blocks d) + 1, lb_reasoning := Some (lb_next (cd_blocks d))\<rparr>"
    have "chat_run (d\<lparr>cd_blocks := ?b\<rparr>) (map (\<lambda>d. chat_chunk [(reasoning_field, JString d)]) ts)
        = Inr (d\<lparr>cd_blocks := ?b\<rparr>, map (ReasoningDelta (lb_next (cd_blocks d))) (filter (\<lambda>t. t \<noteq> []) ts))"
      by (rule thoughts_open) (use assms(2) in simp_all)
    then show ?thesis using False Cons.prems assms(2)
      by (intro exI [of _ ?b]) (simp add: thought_fed push_reasoning_def counter_open_def thought_items_def)
  qed
qed (auto simp: thought_items_def intro: exI [of _ "cd_blocks d"])

lemma run_texts:
  assumes "lb_text (cd_blocks d) = None"
  shows "\<exists>b. chat_run d (map (\<lambda>d. chat_chunk [(''content'', JString d)]) ts)
      = Inr (d\<lparr>cd_blocks := b\<rparr>, open_events (lb_next (cd_blocks d)) (text_items ts))
    \<and> lb_next b = lb_next (cd_blocks d) + length (text_items ts)"
  using assms
proof (induction ts)
  case (Cons t ts)
  show ?case
  proof (cases "t = []")
    case True
    then show ?thesis using Cons.IH [OF Cons.prems] by (simp add: text_fed push_text_def)
  next
    case False
    let ?b = "(cd_blocks d)\<lparr>lb_next := lb_next (cd_blocks d) + 1, lb_text := Some (lb_next (cd_blocks d))\<rparr>"
    have "chat_run (d\<lparr>cd_blocks := ?b\<rparr>) (map (\<lambda>d. chat_chunk [(''content'', JString d)]) ts)
        = Inr (d\<lparr>cd_blocks := ?b\<rparr>, map (TextDelta (lb_next (cd_blocks d))) (filter (\<lambda>t. t \<noteq> []) ts))"
      by (rule texts_open) simp
    then show ?thesis using False Cons.prems
      by (intro exI [of _ ?b]) (simp add: text_fed push_text_def counter_open_def text_items_def)
  qed
qed (auto simp: text_items_def intro: exI [of _ "cd_blocks d"])

text \<open>The chunks of a call: its own block, under its own index.\<close>

fun call_item :: "chat_call \<Rightarrow> wire_block" where
  "call_item (call_id, name, fs, arguments) = WTool call_id name fs arguments"

lemma call_chunk_fed:
  "chat_feed_payload d (call_chunk k own f) = decode_tool_fragment (JObject ((''index'', jnat k) # own @ [(''function'', JObject f)])) d"
  by (cases "decode_tool_fragment (JObject ((''index'', jnat k) # own @ [(''function'', JObject f)])) d")
     (auto simp: call_chunk_def chunk_fed chat_delta_def content_delta_def reasoning_delta_def reasoning_field_def as_array_def)

lemma fragments_run:
  assumes "map_of (cd_tool_blocks d) k = Some i" and "k \<le> u32_max"
  shows "chat_run d (map (\<lambda>f. call_chunk k [] [(''arguments'', JString f)]) fs) = Inr (d, map (ToolUseDelta i None None) fs)"
proof (induction fs)
  case (Cons f fs)
  have "decode_tool_fragment (JObject [(''index'', jnat k), (''function'', JObject [(''arguments'', JString f)])]) d
      = Inr (d, [ToolUseDelta i None None f])"
    using assms u32_u64 [OF assms(2)]
    by (simp add: decode_tool_fragment_def wire_call_index_def u32_max_def get_str_def non_empty_def or_empty_def)
  with Cons show ?case by (simp add: call_chunk_fed)
qed simp

lemma call_run:
  assumes "map_of (cd_tool_blocks d) k = None" and "k \<le> u32_max" and "call_ok pj c"
  shows "chat_run d (call_payloads k c) = Inr (d\<lparr>cd_blocks := (cd_blocks d)\<lparr>lb_next := lb_next (cd_blocks d) + 1\<rparr>,
      cd_tool_blocks := cd_tool_blocks d @ [(k, lb_next (cd_blocks d))]\<rparr>, block_events (lb_next (cd_blocks d)) (call_item c))"
proof -
  obtain call_id name fs a where c: "c = (call_id, name, fs, a)" by (cases c)
  let ?n = "lb_next (cd_blocks d)"
  let ?d = "d\<lparr>cd_blocks := (cd_blocks d)\<lparr>lb_next := ?n + 1\<rparr>, cd_tool_blocks := cd_tool_blocks d @ [(k, ?n)]\<rparr>"
  from assms(3) c obtain x xs y ys where ne: "call_id = x # xs" "name = y # ys" by (auto simp: neq_Nil_conv)
  have "decode_tool_fragment (JObject [(''index'', jnat k), (''id'', JString call_id),
      (''function'', JObject [(''name'', JString name), (''arguments'', JString [])])]) d
    = Inr (?d, [BlockStart ?n KindToolUse, ToolUseDelta ?n (Some call_id) (Some name) []])"
    using assms(1,2) u32_u64 [OF assms(2)]
    by (simp add: decode_tool_fragment_def wire_call_index_def u32_max_def get_str_def non_empty_def or_empty_def counter_open_def ne)
  moreover have "chat_run ?d (map (\<lambda>f. call_chunk k [] [(''arguments'', JString f)]) fs) = Inr (?d, map (ToolUseDelta ?n None None) fs)"
    by (rule fragments_run) (use assms(1,2) in \<open>simp_all add: map_add_def\<close>)
  ultimately show ?thesis by (simp add: c call_chunk_fed)
qed

lemma calls_run:
  assumes "\<forall>k' \<in> fst ` set (cd_tool_blocks d). k' < k" and "k + length cs \<le> Suc u32_max" and "list_all (call_ok pj) cs"
  shows "\<exists>b tools. chat_run d (calls_payloads k cs)
      = Inr (d\<lparr>cd_blocks := b, cd_tool_blocks := tools\<rparr>, open_events (lb_next (cd_blocks d)) (map call_item cs))
    \<and> lb_next b = lb_next (cd_blocks d) + length cs"
  using assms
proof (induction cs arbitrary: k d)
  case Nil
  then show ?case by (intro exI [of _ "cd_blocks d"] exI [of _ "cd_tool_blocks d"]) simp
next
  case (Cons c cs)
  let ?n = "lb_next (cd_blocks d)"
  let ?d = "d\<lparr>cd_blocks := (cd_blocks d)\<lparr>lb_next := ?n + 1\<rparr>, cd_tool_blocks := cd_tool_blocks d @ [(k, ?n)]\<rparr>"
  have "map_of (cd_tool_blocks d) k = None" using Cons.prems(1) by (auto simp: map_of_eq_None_iff)
  then have c: "chat_run d (call_payloads k c) = Inr (?d, block_events ?n (call_item c))"
    using Cons.prems(2,3) by (intro call_run [where pj = pj]) simp_all
  have "\<forall>k' \<in> fst ` set (cd_tool_blocks ?d). k' < Suc k" using Cons.prems(1) by (auto simp: less_Suc_eq)
  from Cons.IH [OF this] Cons.prems(2,3) obtain b tools where
    r: "chat_run ?d (calls_payloads (Suc k) cs) = Inr (?d\<lparr>cd_blocks := b, cd_tool_blocks := tools\<rparr>, open_events (?n + 1) (map call_item cs))"
      "lb_next b = ?n + 1 + length cs" by auto
  show ?case by (rule exI [of _ b], rule exI [of _ tools]) (use c r in \<open>simp add: chat_run_append\<close>)
qed

subsection \<open>The whole stream\<close>

definition chat_items :: "chat_mode \<Rightarrow> string list \<Rightarrow> string list \<Rightarrow> chat_call list \<Rightarrow> wire_block list" where
  "chat_items mode thoughts texts calls =
     (if has_reasoning_field mode then thought_items thoughts else []) @ text_items texts @ map call_item calls"

lemma thoughts_ignored:
  "\<not> has_reasoning_field (cd_mode d) \<Longrightarrow> chat_run d (map (\<lambda>d. chat_chunk [(reasoning_field, JString d)]) ts) = Inr (d, [])"
  by (induction ts) (simp_all add: thought_fed)

lemma last_chunks:
  "chat_run d [JObject [(''choices'', JArray [JObject [(''delta'', JObject []), (''finish_reason'', JString reason)]])],
      JObject [(''choices'', JArray []), (''usage'', u)]]
    = Inr (d\<lparr>cd_finish_reason := Some reason\<rparr>, usage_events (JObject [(''choices'', JArray []), (''usage'', u)]))"
  by (simp add: chat_feed_payload_def first_choice_def get_str_def decode_refusal_error_def chat_delta_def content_delta_def
      reasoning_delta_def reasoning_field_def usage_events_def Let_def)

lemma payloads_run:
  assumes "length calls \<le> Suc u32_max" and "list_all (call_ok pj) calls"
  shows "\<exists>d. chat_run (chat_decoder_new mode) (chat_payloads thoughts texts calls reason u)
      = Inr (d, open_events 0 (chat_items mode thoughts texts calls) @ usage_events (JObject [(''choices'', JArray []), (''usage'', u)]))
    \<and> cd_finish_reason d = Some reason \<and> cd_mode d = mode \<and> lb_next (cd_blocks d) = length (chat_items mode thoughts texts calls)"
proof -
  let ?new = "chat_decoder_new mode"
  have new: "lb_reasoning (cd_blocks ?new) = None" "lb_text (cd_blocks ?new) = None" "cd_mode ?new = mode" "lb_next (cd_blocks ?new) = 0"
    "cd_tool_blocks ?new = []" by (simp_all add: chat_decoder_new_def)
  let ?r = "if has_reasoning_field mode then thought_items thoughts else []"
  have "\<exists>b. chat_run ?new (map (\<lambda>d. chat_chunk [(reasoning_field, JString d)]) thoughts) = Inr (?new\<lparr>cd_blocks := b\<rparr>, open_events 0 ?r)
      \<and> lb_next b = length ?r \<and> lb_text b = None"
    using run_thoughts [OF new(1), of thoughts] thoughts_ignored [of ?new thoughts] new
    by (cases "has_reasoning_field mode") (auto intro: exI [of _ "cd_blocks ?new"])
  then obtain b where b: "chat_run ?new (map (\<lambda>d. chat_chunk [(reasoning_field, JString d)]) thoughts) = Inr (?new\<lparr>cd_blocks := b\<rparr>, open_events 0 ?r)"
    "lb_next b = length ?r" "lb_text b = None" by blast
  let ?d1 = "?new\<lparr>cd_blocks := b\<rparr>"
  from run_texts [of ?d1 texts] b(2,3) obtain b2 where
    t: "chat_run ?d1 (map (\<lambda>d. chat_chunk [(''content'', JString d)]) texts) = Inr (?d1\<lparr>cd_blocks := b2\<rparr>, open_events (length ?r) (text_items texts))"
      "lb_next b2 = length ?r + length (text_items texts)" by auto
  let ?d2 = "?d1\<lparr>cd_blocks := b2\<rparr>"
  from calls_run [of ?d2 0 calls pj] assms new(5) t(2) obtain b3 tools where
    c: "chat_run ?d2 (calls_payloads 0 calls) = Inr (?d2\<lparr>cd_blocks := b3, cd_tool_blocks := tools\<rparr>,
        open_events (length ?r + length (text_items texts)) (map call_item calls))"
      "lb_next b3 = length ?r + length (text_items texts) + length calls" by auto
  let ?d3 = "?d2\<lparr>cd_blocks := b3, cd_tool_blocks := tools\<rparr>"
  show ?thesis
    by (rule exI [of _ "?d3\<lparr>cd_finish_reason := Some reason\<rparr>"])
       (use b t c new in \<open>simp add: chat_payloads_def chat_run_append last_chunks chat_items_def open_events_append del: chat_run.simps\<close>)
qed

subsection \<open>The accumulator\<close>

lemma feed_open_events:
  assumes "acc_stop_reason acc = None" and "acc_blocks acc = bs" and "\<forall>k \<in> fst ` set bs. k < i"
  shows "feed_all (open_events i ws) acc = Inr (acc\<lparr>acc_blocks := bs @ enumerate i (map streamed_block ws)\<rparr>)"
  using assms
proof (induction ws arbitrary: i acc bs)
  case (Cons w ws)
  let ?acc = "acc\<lparr>acc_blocks := bs @ [(i, streamed_block w)]\<rparr>"
  have "feed_all (open_events (Suc i) ws) ?acc = Inr (?acc\<lparr>acc_blocks := (bs @ [(i, streamed_block w)]) @ enumerate (Suc i) (map streamed_block ws)\<rparr>)"
    by (rule Cons.IH) (use Cons.prems in \<open>auto simp: less_Suc_eq\<close>)
  with feed_block_events [OF Cons.prems] show ?case by (simp add: feed_all_append)
qed (cases acc, simp)

lemma streamed_open: "\<not> bl_closed (streamed_block w) \<and> \<not> bl_complete (streamed_block w) \<and> ending_error (i, streamed_block w) = None"
  by (cases w) (simp_all add: new_block_def ending_error_def)

lemma enumerate_wf: "bt_wf (enumerate i xs)"
  by (simp add: bt_wf_def)

definition ended_acc :: "accumulator \<Rightarrow> bool \<Rightarrow> wire_block list \<Rightarrow> usage option \<Rightarrow> stop_reason \<Rightarrow> accumulator" where
  "ended_acc acc normal ws u r = acc\<lparr>acc_blocks := map (ended_block normal) (enumerate 0 (map streamed_block ws)),
     acc_usage := u, acc_stop_reason := Some r\<rparr>"

lemma feed_stream:
  assumes "acc_stop_reason acc = None" and "acc_blocks acc = []" and "acc_usage acc = None"
  shows "feed_all (open_events 0 ws @ usage_events p @ endings normal [0..<length ws] @ [StopEvent r]) acc
    = Inr (ended_acc acc normal ws (case usage_events p of UsageEvent u # _ \<Rightarrow> Some u | _ \<Rightarrow> None) r)"
proof -
  let ?bs = "enumerate 0 (map streamed_block ws)"
  let ?u = "case usage_events p of UsageEvent u # _ \<Rightarrow> Some u | _ \<Rightarrow> None"
  let ?acc = "acc\<lparr>acc_blocks := ?bs, acc_usage := ?u\<rparr>"
  have "feed_all (open_events 0 ws) acc = Inr (acc\<lparr>acc_blocks := ?bs\<rparr>)"
    using feed_open_events [of acc "[]" 0 ws] assms by simp
  moreover have "feed_all (usage_events p) (acc\<lparr>acc_blocks := ?bs\<rparr>) = Inr ?acc"
    using assms by (cases acc) (auto simp: usage_events_def feed_def split: option.splits)
  moreover have "feed_all (endings normal (map fst ?bs)) ?acc = Inr (?acc\<lparr>acc_blocks := map (ended_block normal) ?bs\<rparr>)"
  proof -
    have "List.map_filter ending_error ?bs = []"
      using streamed_open by (auto simp: map_filter_def filter_empty_conv in_set_enumerate_eq)
    moreover have "\<forall>(i, b) \<in> set ?bs. \<not> bl_closed b \<and> \<not> bl_complete b"
      using streamed_open by (auto simp: in_set_enumerate_eq)
    moreover have "acc_stop_reason ?acc = None" "acc_blocks ?acc = [] @ ?bs" "bt_wf (acc_blocks ?acc)"
      using assms(1) enumerate_wf [of 0 "map streamed_block ws"] by simp_all
    ultimately show ?thesis by (subst end_blocks) auto
  qed
  ultimately show ?thesis using assms(1) by (simp add: feed_all_append feed_def ended_acc_def)
qed

subsection \<open>The response\<close>

lemma concat_filter_Nil [simp]: "concat (filter (\<lambda>t. t \<noteq> []) ts) = concat ts"
  by (induction ts) simp_all

definition thought_messages :: "string list \<Rightarrow> message list" where
  "thought_messages ts = (if concat ts = [] then [] else [reasoning_text (concat ts)])"

definition text_messages :: "string list \<Rightarrow> message list" where
  "text_messages ts = (if concat ts = [] then [] else [Assistant JNull [Text (concat ts)]])"

definition chat_messages :: "chat_mode \<Rightarrow> string list \<Rightarrow> string list \<Rightarrow> chat_call list \<Rightarrow> message list" where
  "chat_messages mode thoughts texts calls =
     (if has_reasoning_field mode then thought_messages thoughts else []) @ text_messages texts @ map call_message calls"

lemma finish_calls:
  assumes "list_all (call_ok pj) calls"
  shows "finish_blocks pj rules (map (ended_block normal) (enumerate i (map streamed_block (map call_item calls)))) [] ms
    = Inr (ms @ map call_message calls, [])"
  using assms
proof (induction calls arbitrary: i ms)
  case (Cons c calls)
  obtain call_id name fs a where c: "c = (call_id, name, fs, a)" by (cases c)
  with Cons show ?case by (simp add: ended_block_def new_block_def finish_tool_block_def)
qed simp

lemma finish_items:
  assumes "list_all (call_ok pj) calls" and "rr_material rules = None"
  shows "finish_blocks pj rules (map (ended_block normal) (enumerate 0 (map streamed_block (chat_items mode thoughts texts calls)))) [] []
    = Inr (chat_messages mode thoughts texts calls, [])"
proof -
  have reasoning: "into_reasoning rules ((streamed_block (WThinking ts []))\<lparr>bl_closed := True, bl_complete := normal\<rparr>) = reasoning_text (concat ts)" for ts
    using assms(2) by (simp add: into_reasoning_def new_block_def classify_material_def reasoning_text_def)
  have spoken: "finish_blocks pj rules (map (ended_block normal) (enumerate i (map streamed_block (text_items texts @ map call_item calls)))) [] ms
      = Inr (ms @ text_messages texts @ map call_message calls, [])" if "ms = [] \<or> ms = [reasoning_text t]" for i ms t
    using that finish_calls [OF assms(1), of rules normal] 
    by (auto simp: text_items_def text_messages_def ended_block_def new_block_def push_text_block_def reasoning_text_def)
  show ?thesis
  proof (cases "has_reasoning_field mode \<and> concat thoughts \<noteq> []")
    case False
    then show ?thesis using spoken [of "[]" _ 0] by (auto simp: chat_items_def chat_messages_def thought_items_def thought_messages_def)
  next
    case True
    then show ?thesis
      using spoken [of "[reasoning_text (concat thoughts)]" "concat thoughts" 1] reasoning [of "filter (\<lambda>t. t \<noteq> []) thoughts"]
      by (auto simp: chat_items_def chat_messages_def thought_items_def thought_messages_def ended_block_def new_block_def)
  qed
qed

lemma decode_calls: "list_all (call_ok pj) calls \<Longrightarrow> chat_decode_calls pj (map call_body calls) = Inr (map call_message calls)"
proof (induction calls)
  case (Cons c calls)
  obtain call_id name fs a where c: "c = (call_id, name, fs, a)" by (cases c)
  with Cons show ?case by (simp add: chat_decode_tool_use_def get_str_def or_empty_def)
qed simp

lemma decode_body:
  assumes "list_all (call_ok pj) calls" and "chat_stop_reason (Some reason) mode \<noteq> MaxOutputLengthExceeded"
  shows "chat_decode pj (chat_body thoughts texts calls reason u) mode = Inr \<lparr>resp_messages = chat_messages mode thoughts texts calls,
    resp_stop_reason = chat_stop_reason (Some reason) mode, resp_usage = chat_decode_usage (JObject [(''usage'', u)]), resp_account_state = None\<rparr>"
proof -
  let ?m = "JObject [(reasoning_field, JString (concat thoughts)), (''content'', JString (concat texts)), (''tool_calls'', JArray (map call_body calls))]"
  have c: "chat_content ?m mode = (if concat texts = [] then [] else [Text (concat texts)])"
    by (simp add: chat_content_def reasoning_field_def)
  have r: "chat_decode_reasoning ?m mode = Inr (if has_reasoning_field mode \<and> concat thoughts \<noteq> [] then Some (reasoning_text (concat thoughts)) else None)"
    by (simp add: chat_decode_reasoning_def reasoning_field_def is_null_def)
  have t: "decode_thinking_chunks ?m mode = Inr None" by (simp add: decode_thinking_chunks_def reasoning_field_def as_array_def)
  have u: "chat_decode_usage (chat_body thoughts texts calls reason u) = chat_decode_usage (JObject [(''usage'', u)])"
    by (simp add: chat_decode_usage_def chat_body_def)
  have f: "first_choice (chat_body thoughts texts calls reason u) = Some (JObject [(''message'', ?m), (''finish_reason'', JString reason)])"
    "json_get (chat_body thoughts texts calls reason u) ''error'' = None" "decode_refusal_error (chat_body thoughts texts calls reason u) = None"
    by (simp_all add: first_choice_def chat_body_def decode_refusal_error_def)
  show ?thesis unfolding chat_decode_def f
    using c r t u decode_calls [OF assms(1)] assms(2)
    by (simp add: get_str_def as_array_def reasoning_field_def chat_messages_def thought_messages_def text_messages_def)
qed

subsection \<open>Records\<close>

lemma run_keeps_step:
  "chat_run d ps = Inr (d', es) \<Longrightarrow> keeps_step (state_of d) es (state_of d') \<and> cd_done d' = cd_done d"
proof (induction ps arbitrary: d es)
  case (Cons p ps)
  then obtain d1 e1 e2 where p: "chat_feed_payload d p = Inr (d1, e1)" "chat_run d1 ps = Inr (d', e2)" "es = e1 @ e2"
    by (auto simp: bindR_Inr_iff)
  with payload_keeps_step [OF p(1)] Cons.IH [OF p(2)] show ?case by (auto intro: keeps_step_append)
qed simp

lemma records_run:
  assumes "list_all2 (\<lambda>data p. \<not> is_done data \<and> read_json data = Inr p) records ps"
    and "chat_run d ps = Inr (d', es)" and "\<not> cd_done d"
  shows "chat_decode_records read_json d (records @ rest) = bindR (chat_decode_records read_json d' rest) (\<lambda>(d, more_events). Inr (d, es @ more_events))"
  using assms
proof (induction arbitrary: d es rule: list_all2_induct)
  case Nil
  then show ?case by (cases "chat_decode_records read_json d' rest") auto
next
  case (Cons data records p ps)
  from Cons.prems(1) obtain d1 e1 e2 where p: "chat_feed_payload d p = Inr (d1, e1)" "chat_run d1 ps = Inr (d', e2)" "es = e1 @ e2"
    by (auto simp: bindR_Inr_iff)
  note k = payload_keeps_step [OF p(1)]
  have "append_block_completions e1 = e1" by (rule completions_none) (use k in \<open>simp add: keeps_step_def\<close>)
  moreover have "chat_feed read_json d data = Inr (d1, e1)" using Cons.hyps(1) Cons.prems(2) p(1) by (simp add: chat_feed_def)
  ultimately show ?case using Cons.IH [OF p(2)] k Cons.prems(2) p(3)
    by (cases "chat_decode_records read_json d' rest") (auto simp: chat_decoder_feed_def)
qed

lemma stream_decoded:
  assumes read: "list_all2 (\<lambda>data p. \<not> is_done data \<and> read_json data = Inr p) records (chat_payloads thoughts texts calls reason u)"
    and done_record: "is_done last_record" and calls: "length calls \<le> Suc u32_max" "list_all (call_ok pj) calls"
    and r: "r = chat_stop_reason (Some reason) mode" and items: "items = chat_items mode thoughts texts calls"
  shows "\<exists>d. chat_decode_records read_json (chat_decoder_new mode) (records @ [last_record])
    = Inr (d, open_events 0 items @ usage_events (JObject [(''choices'', JArray []), (''usage'', u)])
        @ endings (r = Stop \<or> r = StopToolUse) [0..<length items] @ [StopEvent r])"
proof -
  let ?new = "chat_decoder_new mode"
  from payloads_run [OF calls, of mode thoughts texts reason u] obtain d es where
    run: "chat_run ?new (chat_payloads thoughts texts calls reason u) = Inr (d, es)"
      "es = open_events 0 items @ usage_events (JObject [(''choices'', JArray []), (''usage'', u)])"
      "cd_finish_reason d = Some reason" "cd_mode d = mode" "lb_next (cd_blocks d) = length items" by (auto simp: items)
  have "in_step (cd_blocks ?new) (cd_tool_blocks ?new) new_accumulator" "\<not> cd_done ?new"
    by (simp_all add: in_step_def chat_decoder_new_def new_accumulator_def bt_wf_def get_opened_def)
  with run_keeps_step [OF run(1)] obtain acc where "in_step (cd_blocks d) (cd_tool_blocks d) acc" and open_d: "\<not> cd_done d"
    by (auto simp: keeps_step_def state_of_def)
  then have "set (map snd (cd_tool_blocks d) @ get_opened (cd_blocks d)) = {..<length items}" by (simp add: in_step_def run(5))
  then have "chat_decode_records read_json d [last_record]
      = Inr (d\<lparr>cd_done := True\<rparr>, endings (r = Stop \<or> r = StopToolUse) [0..<length items] @ [StopEvent r])"
    using open_d done_record
    by (simp add: chat_decoder_feed_def chat_feed_def terminate_def run(3,4) end_blocks_in_order_all endings_completions r)
  with records_run [OF read run(1) \<open>\<not> cd_done ?new\<close>, of "[last_record]"] run(2) show ?thesis by auto
qed

lemma stream_finished:
  assumes "list_all (call_ok pj) calls" and "items = chat_items mode thoughts texts calls"
  shows "finish pj (ended_acc (for_protocol (OpenAiChat mode)) normal items
      (case usage_events (JObject [(''choices'', JArray []), (''usage'', u)]) of UsageEvent u # _ \<Rightarrow> Some u | _ \<Rightarrow> None) r)
    = Inr \<lparr>resp_messages = chat_messages mode thoughts texts calls, resp_stop_reason = r,
      resp_usage = chat_decode_usage (JObject [(''usage'', u)]), resp_account_state = None\<rparr>"
proof -
  have "rr_material (get_reasoning_replay (OpenAiChat mode)) = None" by simp
  note f = finish_items [OF assms(1) this, of normal mode thoughts texts]
  have "(case (case usage_events (JObject [(''choices'', JArray []), (''usage'', u)]) of UsageEvent u # _ \<Rightarrow> Some u | _ \<Rightarrow> None) of
      None \<Rightarrow> default_usage | Some u \<Rightarrow> u) = chat_decode_usage (JObject [(''usage'', u)])"
    by (cases u) (simp_all add: usage_events_def is_null_def chat_decode_usage_def default_usage_def)
  with f assms(2) show ?thesis by (simp add: finish_def ended_acc_def for_protocol_def new_accumulator_def)
qed

end
