(* ===== verification/Wire_Properties.thy ===== *)
theory Wire_Properties
  imports Transport_Properties Anthropic_Replay Chat_Replies
begin

text \<open>
  The properties of the wires: what the program reads of a reply and what it sends.
\<close>

section \<open>Reading a reply\<close>











section \<open>A chat stream\<close>

text \<open>
  C9: a chat completions stream keeps the accumulator's contract, whatever the upstream sends. The
  accumulator accepts every event the decoder makes up until \<open>[DONE]\<close>: the blocks are numbered from
  0 in the order they opened and are all open. At \<open>[DONE]\<close> every block is closed, completed when the
  stop is a normal one, and the stop reason is that of the last \<open>finish_reason\<close>; the only thing that is
  refused is a tool block that never got its id or its name. The response then fails only for
  the arguments of a call that are not JSON.
\<close>

theorem chat_streams_keep_the_contract:
  assumes "chat_decode_records read_json (chat_decoder_new mode) records = Inr (d, es)"
  shows "case feed_all es (for_protocol (OpenAiChat mode)) of
     Inl e \<Rightarrow> cd_done d \<and> (\<exists>i \<in> snd ` set (cd_tool_blocks d). e \<in> nameless_tool i)
   | Inr acc \<Rightarrow> map fst (acc_blocks acc) = [0..<lb_next (cd_blocks d)]
       \<and> acc_stop_reason acc = (if cd_done d then Some (chat_stop_reason (cd_finish_reason d) mode) else None)
       \<and> (\<forall>(i, b) \<in> set (acc_blocks acc). bl_closed b = cd_done d
           \<and> bl_complete b = (acc_stop_reason acc \<in> {Some Stop, Some StopToolUse}))
       \<and> (\<forall>e. cd_done d \<longrightarrow> finish parse_json acc = Inl e \<longrightarrow>
           (\<exists>(i, b) \<in> set (acc_blocks acc). bl_kind b = KindToolUse \<and> parse_tool_arguments parse_json (bl_arguments b) = None
             \<and> e = Malformed (''arguments of streamed tool block '' @ show_nat i @ '' are not valid JSON'')))"
proof -
  let ?new = "chat_decoder_new mode" and ?acc0 = "for_protocol (OpenAiChat mode)"
  have "in_step (cd_blocks ?new) (cd_tool_blocks ?new) ?acc0" "\<not> cd_done ?new"
    by (simp_all add: in_step_def chat_decoder_new_def for_protocol_def new_accumulator_def bt_wf_def get_opened_def)
  from records_in_step [OF assms this(2,1)] obtain es1 acc where
    a: "feed_all es1 ?acc0 = Inr acc" "in_step (cd_blocks d) (cd_tool_blocks d) acc" "cd_mode d = mode"
      "es = es1 @ (if cd_done d then last_events d else [])" by (auto simp: chat_decoder_new_def)
  from a(2) have op: "\<forall>(i, bl) \<in> set (acc_blocks acc). \<not> bl_closed bl \<and> \<not> bl_complete bl" "acc_stop_reason acc = None"
    by (simp_all add: in_step_def)
  show ?thesis
  proof (cases "cd_done d")
    case False
    then show ?thesis using a op in_step_keys [OF a(2)] by simp
  next
    case True
    define r where "r = chat_stop_reason (cd_finish_reason d) mode"
    define normal where "normal \<longleftrightarrow> r = Stop \<or> r = StopToolUse"
    have fed: "feed_all es ?acc0 = feed_all (endings normal [0..<lb_next (cd_blocks d)] @ [StopEvent r]) acc"
      using True a by (simp add: feed_all_append last_events_def r_def normal_def Let_def)
    note fin = end_of_stream [OF a(2), where normal = normal and r = r, folded fed]
    show ?thesis
    proof (cases "feed_all es ?acc0")
      case (Inl e)
      with fin True show ?thesis by simp
    next
      case (Inr acc')
      with fin have e: "acc_stop_reason acc' = Some r" "map fst (acc_blocks acc') = [0..<lb_next (cd_blocks d)]"
        "\<forall>(i, b) \<in> set (acc_blocks acc'). bl_closed b \<and> bl_complete b = normal \<and> named_if_tool b" by simp_all
      have "\<forall>(i, b) \<in> set (acc_blocks acc'). bl_closed b \<and> bl_complete b = normal" using e(3) by fast
      moreover have "\<forall>(i, b) \<in> set (acc_blocks acc'). bl_closed b \<and> named_if_tool b" using e(3) by fast
      note finish_closed [OF e(1) this, of parse_json]
      ultimately show ?thesis using Inr True e(1,2) by (simp add: normal_def r_def)
    qed
  qed
qed

definition chat_records :: "string list" where
  "chat_records = [''{}'', ''[DONE]'']"

definition chat_payload :: json where
  "chat_payload = JObject [(''choices'', JArray [JObject [(''finish_reason'', JString ''tool_calls''), (''delta'', JObject
     [(''content'', JString ''hi''), (''tool_calls'', JArray [JObject [(''index'', jnat 0), (''id'', JString ''c''),
       (''function'', JObject [(''name'', JString ''f''), (''arguments'', JString ''{}'')])]])])]])]"

definition chat_call :: stream_event where
  "chat_call = ToolUseDelta 1 (Some ''c'') (Some ''f'') ''{}''"

lemma chat_payload_read:
  "chat_feed_payload (chat_decoder_new ChatOfficial) chat_payload = Inr (\<lparr>cd_mode = ChatOfficial,
       cd_blocks = \<lparr>lb_next = 2, lb_text = Some 0, lb_reasoning = None\<rparr>, cd_tool_blocks = [(0, 1)],
       cd_finish_reason = Some ''tool_calls'', cd_done = False\<rparr>,
     [BlockStart 0 KindText, TextDelta 0 ''hi'', BlockStart 1 KindToolUse, chat_call])"
  by (simp add: chat_feed_payload_def chat_payload_def chat_decoder_new_def first_choice_def get_str_def chat_delta_def
      content_delta_def push_text_def counter_open_def reasoning_delta_def has_reasoning_field_def is_plain_def as_array_def
      decode_tool_fragment_def wire_call_index_def u64_max_def non_empty_def or_empty_def chat_call_def numeral_2_eq_2)

lemma chat_done: "is_done ''[DONE]''" "\<not> is_done ''{}''"
  by (simp_all add: is_done_def upt_rec)

theorem chat_streams_keep_the_contract_witness:
  "\<exists>d es acc. chat_decode_records (\<lambda>_. Inr chat_payload) (chat_decoder_new ChatOfficial) chat_records = Inr (d, es)
     \<and> feed_all es (for_protocol (OpenAiChat ChatOfficial)) = Inr acc
     \<and> map fst (acc_blocks acc) = [0, 1] \<and> acc_stop_reason acc = Some StopToolUse"
proof -
  let ?d = "\<lparr>cd_mode = ChatOfficial, cd_blocks = \<lparr>lb_next = 2, lb_text = Some 0, lb_reasoning = None\<rparr>,
    cd_tool_blocks = [(0, 1)], cd_finish_reason = Some ''tool_calls'', cd_done = True\<rparr>"
  let ?es = "[BlockStart 0 KindText, TextDelta 0 ''hi'', BlockStart 1 KindToolUse, chat_call,
    BlockEnd 0, BlockComplete 0, BlockEnd 1, BlockComplete 1, StopEvent StopToolUse]"
  have "\<not> cd_done (chat_decoder_new ChatOfficial)" by (simp add: chat_decoder_new_def)
  then have r: "chat_decode_records (\<lambda>_. Inr chat_payload) (chat_decoder_new ChatOfficial) chat_records = Inr (?d, ?es)"
    by (simp add: chat_records_def chat_decoder_feed_def chat_feed_def chat_done chat_payload_read terminate_def get_opened_def
        end_blocks_in_order_def append_block_completions_def is_abnormal_stop_def chat_stop_reason_def chat_call_def)
  have "\<exists>acc. feed_all ?es (for_protocol (OpenAiChat ChatOfficial)) = Inr acc"
    by (simp add: feed_def for_protocol_def new_accumulator_def open_block_def edit_block_def get_block_def new_block_def
        push_tool_delta_def close_block_def complete_block_def chat_call_def)
  then obtain acc where acc: "feed_all ?es (for_protocol (OpenAiChat ChatOfficial)) = Inr acc" by blast
  note c = chat_streams_keep_the_contract [OF r, unfolded acc sum.case]
  show ?thesis
    by (rule exI [of _ ?d], rule exI [of _ ?es], rule exI [of _ acc], intro conjI)
       (use r acc c in \<open>simp_all add: chat_stop_reason_def upt_rec\<close>)
qed









text \<open>
  The two readers of the wire disagree on an \<open>error\<close> that is null: a body that has one is refused, and
  a chunk of a stream that has one is read as if it had none.
\<close>

lemma null_error_is_refused:
  assumes "''error'' \<notin> fst ` set members"
  shows "\<exists>e. chat_decode parse_json (JObject ((''error'', JNull) # members)) mode = Inl e"
    and "chat_feed_payload d (JObject ((''error'', JNull) # members)) = chat_feed_payload d (JObject members)"
proof -
  have none: "map_of members ''error'' = None" using assms by (simp add: map_of_eq_None_iff)
  then show "\<exists>e. chat_decode parse_json (JObject ((''error'', JNull) # members)) mode = Inl e" by (simp add: chat_decode_def)
  have same: "first_choice (JObject ((''error'', JNull) # members)) = first_choice (JObject members)"
    "chat_decode_usage (JObject ((''error'', JNull) # members)) = chat_decode_usage (JObject members)"
    "decode_refusal_error (JObject ((''error'', JNull) # members)) = decode_refusal_error (JObject members)"
    by (simp_all add: first_choice_def chat_decode_usage_def decode_refusal_error_def)
  show "chat_feed_payload d (JObject ((''error'', JNull) # members)) = chat_feed_payload d (JObject members)"
    unfolding chat_feed_payload_def same using none by simp
qed

section \<open>Sending a request\<close>

text \<open>
  C16: what is sent keeps the rules of the wire. The turns of a rendered Anthropic request alternate
  from a turn of the user, none is empty, the calls of a turn of the assistant are answered at the head
  of the next turn, each once and in the order of the calls, and no turn has results that answer
  nothing; where every instruction and input has something to say, the thinking of a turn comes before
  everything else in it.
\<close>

theorem rendered_turns_keep_the_rules:
  assumes "render_messages show_json ms = Inr out"
  shows "turns_answer (list_all speaks ms) (map read_turn out)"
  using rendered_turns [OF assms] by simp

definition tool_conversation :: "message list" where
  "tool_conversation = [User JNull [Text ''q''], signed_reasoning ''t'' ''s'' AnthropicSignature, ToolUse JNull ''c'' ''f'' (JObject []),
     ToolResult JNull ''c'' ''f'' (JString ''r''), User JNull [Text ''go on'']]"

theorem rendered_turns_keep_the_rules_witness:
  "\<exists>out. render_messages (\<lambda>_. []) tool_conversation = Inr out \<and> length out = 3 \<and> turns_answer True (map read_turn out)"
proof -
  have "\<exists>out. render_messages (\<lambda>_. []) tool_conversation = Inr out \<and> length out = 3"
    by (simp add: render_messages_def tool_conversation_def render_assistant_turn_def signed_reasoning_def render_replayed_reasoning_def
        render_reasoning_block_def material_if_kind_def one_more_def add_thinking_def render_tool_results_def push_turn_def
        finish_from_user_def finish_turns_def)
  then obtain out where o: "render_messages (\<lambda>_. []) tool_conversation = Inr out" "length out = 3" by blast
  moreover have "list_all speaks tool_conversation" by (simp add: tool_conversation_def signed_reasoning_def)
  ultimately show ?thesis using rendered_turns_keep_the_rules [OF o(1)] by auto
qed



end
