(* ===== verification/Ask_Form.thy ===== *)
theory Ask_Form
  imports Wire Session_Types
begin

text \<open>
  The questions a model puts to the user: reading and checking the arguments of a built-in tool
  (\<open>tool/arguments.rs\<close>), the form of \<open>ask_user\<close>, the answers to it, and how both are shown
  (\<open>tool/ask_user.rs\<close>). Texts are UTF-8 bytes, as elsewhere.
\<close>

subsection \<open>Arguments of a tool\<close>

text \<open>\<open>str::trim\<close>: the longest blank prefix goes, then the longest blank suffix.\<close>

definition trim_start :: "string \<Rightarrow> string" where
  "trim_start text = drop (last (filter (\<lambda>i. is_blank (take i text)) [0..<Suc (length text)])) text"

definition trim_end :: "string \<Rightarrow> string" where
  "trim_end text = take (hd (filter (\<lambda>i. is_blank (drop i text)) [0..<Suc (length text)])) text"

definition trim :: "string \<Rightarrow> string" where
  "trim text = trim_end (trim_start text)"

definition empty_argument :: "json \<Rightarrow> bool" where
  "empty_argument v = (case v of JNull \<Rightarrow> True | JString text \<Rightarrow> is_blank text | _ \<Rightarrow> False)"

definition is_required :: "json \<Rightarrow> string \<Rightarrow> bool" where
  "is_required schema name = (case json_index schema ''required'' of
     JArray names \<Rightarrow> list_ex (\<lambda>n. n = JString name) names | _ \<Rightarrow> False)"

text \<open>
  Each field the schema declares is looked at once, so the fields of the object may be gone through
  instead of those of the schema.
\<close>

fun omit_optional :: "json \<Rightarrow> json \<Rightarrow> json"
  and omit_fields :: "(string \<times> json) list \<Rightarrow> (string \<times> json) list \<Rightarrow> json \<Rightarrow> (string \<times> json) list"
  and omit_items :: "json list \<Rightarrow> json \<Rightarrow> json list" where
  "omit_optional (JObject members) schema = (case json_index schema ''properties'' of
     JObject properties \<Rightarrow> JObject (omit_fields members properties schema)
   | _ \<Rightarrow> JObject members)"
| "omit_optional (JArray items) schema = JArray (omit_items items (json_index schema ''items''))"
| "omit_optional (JString text) schema = JString text"
| "omit_optional (JNumber text) schema = JNumber text"
| "omit_optional (JBool b) schema = JBool b"
| "omit_optional JNull schema = JNull"
| "omit_fields [] properties schema = []"
| "omit_fields ((name, v) # members) properties schema = (case map_of properties name of
     None \<Rightarrow> (name, v) # omit_fields members properties schema
   | Some field_schema \<Rightarrow>
       if \<not> is_required schema name
         \<and> (v = JNull \<or> json_index field_schema ''x-preserve-whitespace'' \<noteq> JBool True \<and> empty_argument v)
       then omit_fields members properties schema
       else (name, omit_optional v field_schema) # omit_fields members properties schema)"
| "omit_items [] schema = []"
| "omit_items (v # items) schema = omit_optional v schema # omit_items items schema"

definition has_type :: "string \<Rightarrow> json \<Rightarrow> bool" where
  "has_type expected v =
     (if expected = ''string'' then (case v of JString _ \<Rightarrow> True | _ \<Rightarrow> False)
      else if expected = ''boolean'' then (case v of JBool _ \<Rightarrow> True | _ \<Rightarrow> False)
      else if expected = ''number'' then (case v of JNumber _ \<Rightarrow> True | _ \<Rightarrow> False)
      else if expected = ''integer'' then as_i64_text v \<noteq> None \<or> as_u64 v \<noteq> None
      else if expected = ''array'' then is_array v
      else True)"

fun check_value_types :: "json \<Rightarrow> json \<Rightarrow> string \<Rightarrow> string + unit"
  and check_fields :: "(string \<times> json) list \<Rightarrow> (string \<times> json) list \<Rightarrow> string \<Rightarrow> string + unit"
  and check_items :: "nat \<Rightarrow> json list \<Rightarrow> json \<Rightarrow> string \<Rightarrow> string + unit" where
  "check_value_types v schema path =
     (let expected = or_empty (as_str (json_index schema ''type''))
      in if \<not> has_type expected v then Inl (''`'' @ path @ ''` must be '' @ expected)
         else case v of
           JObject members \<Rightarrow> (case json_index schema ''properties'' of
               JObject properties \<Rightarrow> check_fields members properties path | _ \<Rightarrow> Inr ())
         | JArray items \<Rightarrow> check_items 0 items (json_index schema ''items'') path
         | _ \<Rightarrow> Inr ())"
| "check_fields [] properties path = Inr ()"
| "check_fields ((name, v) # members) properties path =
     bindR (case map_of properties name of
         None \<Rightarrow> Inr () | Some field_schema \<Rightarrow> check_value_types v field_schema (path @ ''.'' @ name))
       (\<lambda>_. check_fields members properties path)"
| "check_items index [] schema path = Inr ()"
| "check_items index (v # items) schema path =
     bindR (check_value_types v schema (path @ ''['' @ show_nat index @ '']''))
       (\<lambda>_. check_items (Suc index) items schema path)"

definition normalize_arguments :: "json \<Rightarrow> json \<Rightarrow> string + json" where
  "normalize_arguments arguments schema =
     (let v = (if empty_argument arguments then JObject [] else arguments)
      in if \<not> is_object v then Inl ''arguments must be a JSON object, for example {}''
         else bindR (check_value_types (omit_optional v schema) schema ''arguments'') (\<lambda>_. Inr (omit_optional v schema)))"

definition arguments_error :: "string \<Rightarrow> string \<Rightarrow> string \<Rightarrow> string" where
  "arguments_error tool reason example = tool @ '': invalid arguments: '' @ reason
     @ ''. Correct the indicated field before retrying. Example: '' @ example"

subsection \<open>Questions\<close>

definition max_questions :: nat where "max_questions = 8"
definition max_options :: nat where "max_options = 8"
definition max_timeout_seconds :: nat where "max_timeout_seconds = 7 * 24 * 3600"

datatype question_kind = KindChoice | KindWritten

record choice =
  ch_label :: string
  ch_description :: "string option"

record question =
  qu_kind :: question_kind
  qu_question :: string
  qu_header :: "string option"
  qu_options :: "choice list"
  qu_multi_select :: bool
  qu_allow_other :: bool
  qu_placeholder :: "string option"
  qu_multiline :: bool

definition text_field :: "json \<Rightarrow> string \<Rightarrow> string + string option" where
  "text_field v key = (case json_get v key of
     None \<Rightarrow> Inr None
   | Some JNull \<Rightarrow> Inr None
   | Some (JString text) \<Rightarrow> Inr (if trim text = [] then None else Some (trim text))
   | Some _ \<Rightarrow> Inl (''`'' @ key @ ''` must be a string''))"

definition flag_field :: "json \<Rightarrow> string \<Rightarrow> string + bool option" where
  "flag_field v key = (case json_get v key of
     None \<Rightarrow> Inr None
   | Some JNull \<Rightarrow> Inr None
   | Some (JBool b) \<Rightarrow> Inr (Some b)
   | Some _ \<Rightarrow> Inl (''`'' @ key @ ''` must be true or false''))"

definition or_flag :: "bool \<Rightarrow> bool option \<Rightarrow> bool" where
  "or_flag fallback flag = (case flag of None \<Rightarrow> fallback | Some b \<Rightarrow> b)"

definition required_text :: "json \<Rightarrow> string \<Rightarrow> string \<Rightarrow> string + string" where
  "required_text v key missing = bindR (text_field v key) (\<lambda>t. case t of None \<Rightarrow> Inl missing | Some text \<Rightarrow> Inr text)"

definition parse_choice :: "json \<Rightarrow> string + choice" where
  "parse_choice v = (case as_str v of
     Some label \<Rightarrow>
       if trim label \<noteq> [] then Inr \<lparr>ch_label = trim label, ch_description = None\<rparr>
       else Inl ''each option must be an object with a `label`''
   | None \<Rightarrow>
       if \<not> is_object v then Inl ''each option must be an object with a `label`''
       else bindR (required_text v ''label'' ''each option needs a `label`'') (\<lambda>label.
            bindR (text_field v ''description'') (\<lambda>description.
            Inr \<lparr>ch_label = label, ch_description = description\<rparr>)))"

fun parse_choices :: "json list \<Rightarrow> string + choice list" where
  "parse_choices [] = Inr []"
| "parse_choices (v # vs) = bindR (parse_choice v) (\<lambda>c. bindR (parse_choices vs) (\<lambda>cs. Inr (c # cs)))"

text \<open>The first label that was there already.\<close>

fun repeated_label :: "string list \<Rightarrow> choice list \<Rightarrow> string option" where
  "repeated_label seen [] = None"
| "repeated_label seen (c # cs) =
     (if ch_label c \<in> set seen then Some (ch_label c) else repeated_label (ch_label c # seen) cs)"

definition parse_kind :: "json \<Rightarrow> string + question_kind" where
  "parse_kind v = (let kind = get_str v ''type''
     in if kind = Some ''choice'' then Inr KindChoice
        else if kind = Some ''text'' then Inr KindWritten
        else Inl ''`type` must be \"choice\" or \"text\"'')"

definition parse_options :: "question_kind \<Rightarrow> json option \<Rightarrow> string + choice list" where
  "parse_options kind options = (case kind of
     KindWritten \<Rightarrow>
       if options \<in> {None, Some JNull, Some (JArray [])} then Inr []
       else Inl ''a text question takes no `options`; use type \"choice\"''
   | KindChoice \<Rightarrow> (case options of
       Some (JArray items) \<Rightarrow> parse_choices items
     | _ \<Rightarrow> Inl ''a choice question needs `options`''))"

definition check_options :: "question_kind \<Rightarrow> choice list \<Rightarrow> string + unit" where
  "check_options kind options =
     (if kind \<noteq> KindChoice then Inr ()
      else if \<not> (2 \<le> length options \<and> length options \<le> max_options)
      then Inl (''a choice question needs 2 to '' @ show_nat max_options @ '' options'')
      else case repeated_label [] options of
        None \<Rightarrow> Inr () | Some label \<Rightarrow> Inl (''option `'' @ label @ ''` appears twice''))"

text \<open>A flag or text that does not belong to the kind of the question is not even read.\<close>

definition parse_question :: "json \<Rightarrow> string + question" where
  "parse_question v =
     (if \<not> is_object v then Inl ''must be an object''
      else bindR (parse_kind v) (\<lambda>kind.
           bindR (required_text v ''question'' ''`question` is required'') (\<lambda>question.
           bindR (parse_options kind (json_get v ''options'')) (\<lambda>options.
           bindR (check_options kind options) (\<lambda>_.
           let choice = (kind = KindChoice) in
           bindR (text_field v ''header'') (\<lambda>header.
           bindR (if choice then flag_field v ''multi_select'' else Inr (Some False)) (\<lambda>multi.
           bindR (if choice then flag_field v ''allow_other'' else Inr (Some False)) (\<lambda>other.
           bindR (if choice then Inr None else text_field v ''placeholder'') (\<lambda>placeholder.
           bindR (if choice then Inr (Some False) else flag_field v ''multiline'') (\<lambda>multiline.
           Inr \<lparr>qu_kind = kind, qu_question = question, qu_header = header, qu_options = options,
             qu_multi_select = or_flag False multi, qu_allow_other = or_flag True other,
             qu_placeholder = placeholder, qu_multiline = or_flag False multiline\<rparr>))))))))))"

fun parse_questions :: "nat \<Rightarrow> json list \<Rightarrow> string + question list" where
  "parse_questions index [] = Inr []"
| "parse_questions index (v # vs) =
     (case parse_question v of
        Inl message \<Rightarrow> Inl (''question '' @ show_nat (index + 1) @ '': '' @ message)
      | Inr q \<Rightarrow> bindR (parse_questions (Suc index) vs) (\<lambda>qs. Inr (q # qs)))"

definition parse_timeout :: "json option \<Rightarrow> string + nat option" where
  "parse_timeout timeout = (case timeout of
     None \<Rightarrow> Inr None
   | Some JNull \<Rightarrow> Inr None
   | Some v \<Rightarrow> (case as_u64 v of
       Some seconds \<Rightarrow>
         if 1 \<le> seconds \<and> seconds \<le> max_timeout_seconds then Inr (Some seconds)
         else Inl (''`timeout_seconds` must be a whole number from 1 to '' @ show_nat max_timeout_seconds)
     | None \<Rightarrow> Inl (''`timeout_seconds` must be a whole number from 1 to '' @ show_nat max_timeout_seconds)))"

definition parse_form :: "json \<Rightarrow> string + question list \<times> nat option" where
  "parse_form arguments =
     (case Option.bind (json_get arguments ''questions'') as_array of
        Some items \<Rightarrow>
          if 1 \<le> length items \<and> length items \<le> max_questions
          then bindR (parse_timeout (json_get arguments ''timeout_seconds'')) (\<lambda>timeout.
               bindR (parse_questions 0 items) (\<lambda>form. Inr (form, timeout)))
          else Inl (''`questions` must be an array of 1 to '' @ show_nat max_questions @ '' questions'')
      | None \<Rightarrow> Inl (''`questions` must be an array of 1 to '' @ show_nat max_questions @ '' questions''))"

subsection \<open>Answers\<close>

datatype answer_error = AnswerNotFound | AnswerInvalid string | AnswerClosed string

definition kind_json :: "question_kind \<Rightarrow> json" where
  "kind_json kind = JString (case kind of KindChoice \<Rightarrow> ''choice'' | KindWritten \<Rightarrow> ''text'')"

definition answer_entry :: "question \<Rightarrow> (string \<times> json) list \<Rightarrow> json" where
  "answer_entry q given = JObject ([(''question'', JString (qu_question q)), (''type'', kind_json (qu_kind q))] @ given)"

definition skipped_entry :: "question \<Rightarrow> json" where
  "skipped_entry q = answer_entry q [(''skipped'', JBool True)]"

fun all_strings :: "json list \<Rightarrow> string list option" where
  "all_strings [] = Some []"
| "all_strings (v # vs) = Option.bind (as_str v) (\<lambda>t. map_option (Cons t) (all_strings vs))"

definition read_selected :: "json \<Rightarrow> string + string list" where
  "read_selected answer = (case json_get answer ''selected'' of
     None \<Rightarrow> Inr []
   | Some JNull \<Rightarrow> Inr []
   | Some (JArray items) \<Rightarrow> (case all_strings items of
       None \<Rightarrow> Inl ''`selected` must list option labels'' | Some labels \<Rightarrow> Inr labels)
   | Some _ \<Rightarrow> Inl ''`selected` must be an array'')"

text \<open>One answer: its entry, and whether anything was given.\<close>

definition read_choice :: "question \<Rightarrow> json \<Rightarrow> string option \<Rightarrow> string + json \<times> bool" where
  "read_choice q answer other =
     bindR (read_selected answer) (\<lambda>selected.
     case find (\<lambda>label. \<not> list_ex (\<lambda>c. ch_label c = label) (qu_options q)) selected of
       Some label \<Rightarrow> Inl (''`'' @ label @ ''` is not one of the options'')
     | None \<Rightarrow>
         if length selected > 1 \<and> \<not> qu_multi_select q then Inl ''this question takes one option''
         else if other \<noteq> None \<and> \<not> qu_allow_other q then Inl ''this question takes only its options''
         else if selected = [] \<and> other = None then Inr (skipped_entry q, False)
         else Inr (answer_entry q ((''selected'', JArray (map JString selected))
                # (case other of None \<Rightarrow> [] | Some text \<Rightarrow> [(''other'', JString text)])), True))"

definition read_answer :: "question \<Rightarrow> json \<Rightarrow> string + json \<times> bool" where
  "read_answer q answer =
     (if json_get answer ''skipped'' = Some (JBool True) then Inr (skipped_entry q, False)
      else bindR (text_field answer ''other'') (\<lambda>other.
           bindR (text_field answer ''text'') (\<lambda>written.
           case qu_kind q of
             KindChoice \<Rightarrow> read_choice q answer other
           | KindWritten \<Rightarrow> Inr (case written of
               Some text \<Rightarrow> (answer_entry q [(''text'', JString text)], True)
             | None \<Rightarrow> (skipped_entry q, False)))))"

fun read_each :: "nat \<Rightarrow> question list \<Rightarrow> json list \<Rightarrow> answer_error + (json \<times> bool) list" where
  "read_each index (q # form) (answer # answers) =
     (case read_answer q answer of
        Inl message \<Rightarrow> Inl (AnswerInvalid (''answer '' @ show_nat (index + 1) @ '': '' @ message))
      | Inr entry \<Rightarrow> bindR (read_each (Suc index) form answers) (\<lambda>entries. Inr (entry # entries)))"
| "read_each index _ _ = Inr []"

definition read_answers :: "question list \<Rightarrow> json list \<Rightarrow> answer_error + json list" where
  "read_answers form answers =
     (if length answers \<noteq> length form
      then Inl (AnswerInvalid (''give '' @ show_nat (length form) @ '' answers, one per question''))
      else bindR (read_each 0 form answers) (\<lambda>entries.
           if \<not> list_ex snd entries then Inl (AnswerInvalid ''answer at least one question, or skip the form'')
           else Inr (map fst entries)))"

subsection \<open>Shown to the model\<close>

definition selected_lines :: "json \<Rightarrow> string" where
  "selected_lines answer = (case json_index answer ''selected'' of
     JArray items \<Rightarrow> concat (map (\<lambda>v. case as_str v of None \<Rightarrow> [] | Some label \<Rightarrow> ''- '' @ label @ [CHR 0x0A]) items)
   | _ \<Rightarrow> [])"

definition written_line :: "json \<Rightarrow> string \<Rightarrow> string" where
  "written_line answer field = (case get_str answer field of None \<Rightarrow> [] | Some text \<Rightarrow> text @ [CHR 0x0A])"

definition render_answer :: "nat \<Rightarrow> json \<Rightarrow> string" where
  "render_answer index answer =
     show_nat (index + 1) @ ''. '' @ or_empty (get_str answer ''question'') @ [CHR 0x0A]
     @ (if json_index answer ''skipped'' = JBool True then ''Skipped by user.''
        else selected_lines answer @ written_line answer ''text'' @ written_line answer ''other'')"

definition render_output :: "json \<Rightarrow> string" where
  "render_output output =
     (if json_index output ''status'' \<noteq> JString ''answered''
      then (case get_str output ''status'' of None \<Rightarrow> ''unknown'' | Some status \<Rightarrow> status) @ '': ''
           @ or_empty (get_str output ''note'')
      else join_with_newlines (case json_index output ''answers'' of
             JArray answers \<Rightarrow> map (\<lambda>(i, a). render_answer i a) (enumerate 0 answers) | _ \<Rightarrow> []))"

definition optional_text :: "string \<Rightarrow> string option \<Rightarrow> (string \<times> json) list" where
  "optional_text key text = (case text of None \<Rightarrow> [] | Some t \<Rightarrow> [(key, JString t)])"

definition choice_json :: "choice \<Rightarrow> json" where
  "choice_json c = JObject ((''label'', JString (ch_label c)) # optional_text ''description'' (ch_description c))"

definition question_json :: "question \<Rightarrow> json" where
  "question_json q = JObject ([(''type'', kind_json (qu_kind q)), (''question'', JString (qu_question q))]
     @ optional_text ''header'' (qu_header q)
     @ (if qu_options q = [] then [] else [(''options'', JArray (map choice_json (qu_options q)))])
     @ [(''multi_select'', JBool (qu_multi_select q)), (''allow_other'', JBool (qu_allow_other q))]
     @ optional_text ''placeholder'' (qu_placeholder q) @ [(''multiline'', JBool (qu_multiline q))])"

definition answered_output :: "json list \<Rightarrow> json" where
  "answered_output answers = JObject [(''status'', JString ''answered''), (''answers'', JArray answers)]"

definition late_answer_message :: "string \<Rightarrow> json \<Rightarrow> json list \<Rightarrow> message" where
  "late_answer_message call_id questions answers =
     Developer (JObject [(''source'', JString ''ask_user_answer''), (''call_id'', JString call_id),
         (''questions'', questions), (''answers'', JArray answers)]) (Some False)
       [Text (''The user answered the questions you asked earlier (ask_user call '' @ call_id
         @ ''), after they had timed out:'' @ [CHR 0x0A] @ render_output (answered_output answers))]"

end
