(* ===== verification/Ask_User.thy ===== *)
theory Ask_User
  imports Ask_Form
begin

text \<open>
  The tool \<open>ask_user\<close> (\<open>tool/ask_user.rs\<close>): the open forms of a session and the calls that wait
  for them. A call and the requests that answer it run on different threads; what they share is the map
  of forms, behind a lock, and one channel per call, so the tool is a machine of steps: each step is
  what one side does while it holds the lock, or between two looks at the channel.

  Calls are numbered in the order they came. A form remembers the number of the call that put it, whose
  channel its sender feeds; the order of the list of forms stands for the iteration order of the map.
\<close>

subsection \<open>The tool's schema\<close>

definition described :: "string \<Rightarrow> (string \<times> json) list \<Rightarrow> string \<Rightarrow> json" where
  "described kind more_fields description =
     JObject ((''type'', JString kind) # more_fields @ (if description = [] then [] else [(''description'', JString description)]))"

definition option_schema :: json where
  "option_schema = JObject [(''type'', JString ''object''), (''additionalProperties'', JBool False),
     (''required'', JArray [JString ''label'']), (''properties'', JObject [
       (''label'', described ''string'' [] ''The choice, short.''),
       (''description'', described ''string'' [] ''What choosing it means, when the label alone does not say.'')])]"

definition question_schema :: json where
  "question_schema = JObject [(''type'', JString ''object''), (''additionalProperties'', JBool False),
     (''required'', JArray [JString ''type'', JString ''question'']), (''properties'', JObject [
       (''type'', described ''string'' [(''enum'', JArray [JString ''choice'', JString ''text''])]
          ''`choice` to pick from options, `text` for a written answer.''),
       (''question'', described ''string'' [] ''The full question. Markdown is allowed.''),
       (''header'', described ''string'' [] ''A very short label shown above the question, a few words at most.''),
       (''options'', described ''array'' [(''minItems'', jnat 2), (''maxItems'', jnat max_options), (''items'', option_schema)]
          ''The choices of a `choice` question. Put the one you recommend first.''),
       (''multi_select'', described ''boolean'' [] ''For `choice`: allow picking several options. Default false.''),
       (''allow_other'', described ''boolean'' []
          ''For `choice`: allow an answer of the user's own besides the options. Default true.''),
       (''placeholder'', described ''string'' [] ''For `text`: a hint shown in the empty answer field.''),
       (''multiline'', described ''boolean'' [] ''For `text`: offer a larger field for a longer answer.'')])]"

definition input_schema :: json where
  "input_schema = JObject [(''type'', JString ''object''), (''additionalProperties'', JBool False),
     (''required'', JArray [JString ''questions'']), (''properties'', JObject [
       (''questions'', described ''array'' [(''minItems'', jnat 1), (''maxItems'', jnat max_questions), (''items'', question_schema)] []),
       (''timeout_seconds'', described ''integer'' [(''minimum'', jnat 1), (''maximum'', jnat max_timeout_seconds)]
          ''How long to wait before continuing without the answers.'')])]"

subsection \<open>Forms\<close>

datatype form_reply = Answered "json list" | Skipped

datatype delivery = DeliveredNow | DeliveredLater json "json list" | DeliveredDropped

record open_form =
  of_questions :: "question list"
  of_asked_at :: nat
  of_timeout :: "nat option"
  of_reply :: bool
  of_timed_out :: bool
  of_call :: nat

type_synonym forms = "(string \<times> open_form) list"

definition snapshot_forms :: "forms \<Rightarrow> json list" where
  "snapshot_forms forms = map (\<lambda>(call_id, form). JObject [(''call_id'', JString call_id),
       (''questions'', JArray (map question_json (of_questions form))), (''asked_at'', jnat (of_asked_at form)),
       (''timeout_seconds'', case of_timeout form of None \<Rightarrow> JNull | Some seconds \<Rightarrow> jnat seconds),
       (''timed_out'', JBool (of_timed_out form))]) (sort_key (of_asked_at \<circ> snd) forms)"

definition remove_form :: "string \<Rightarrow> forms \<Rightarrow> forms" where
  "remove_form call_id forms = filter (\<lambda>(id, _). id \<noteq> call_id) forms"

definition put_form :: "string \<Rightarrow> open_form \<Rightarrow> forms \<Rightarrow> forms" where
  "put_form call_id form forms = map (\<lambda>(id, f). (id, if id = call_id then form else f)) forms"

text \<open>\<open>min_by_key\<close>: the first of the least.\<close>

definition oldest_timed_out :: "forms \<Rightarrow> string option" where
  "oldest_timed_out forms = (case sort_key (of_asked_at \<circ> snd) (filter (of_timed_out \<circ> snd) forms) of
     [] \<Rightarrow> None | (call_id, _) # _ \<Rightarrow> Some call_id)"

lemma oldest_timed_out_Some: "oldest_timed_out forms = Some cid \<Longrightarrow> \<exists>form. (cid, form) \<in> set forms \<and> of_timed_out form"
proof -
  assume "oldest_timed_out forms = Some cid"
  then obtain form rest where "sort_key (of_asked_at \<circ> snd) (filter (of_timed_out \<circ> snd) forms) = (cid, form) # rest"
    by (auto simp: oldest_timed_out_def split: list.splits)
  then have "(cid, form) \<in> set (sort_key (of_asked_at \<circ> snd) (filter (of_timed_out \<circ> snd) forms))" by simp
  then show ?thesis by auto
qed

definition max_forms :: nat where "max_forms = 128"

text \<open>Room for one more form: the map, and whether there is.\<close>

function make_form_room :: "forms \<Rightarrow> forms \<times> bool" where
  "make_form_room forms =
     (if length forms < max_forms then (forms, True)
      else case oldest_timed_out forms of
        None \<Rightarrow> (forms, False)
      | Some call_id \<Rightarrow> make_form_room (remove_form call_id forms))"
  by pat_completeness auto
termination
  by (relation "measure length") (auto simp: remove_form_def dest!: oldest_timed_out_Some intro!: length_filter_less)

declare make_form_room.simps [simp del]

definition ask_example :: string where
  "ask_example = ''{\"questions\":[{\"type\":\"text\",\"question\":\"Which directory?\"}]}''"

text \<open>What \<open>ask\<close> does up to where it waits: the form is put, or the outcome of the refused call.\<close>

definition ask_open :: "(json \<Rightarrow> string) \<Rightarrow> nat \<Rightarrow> nat \<Rightarrow> tool_call \<Rightarrow> forms \<Rightarrow> forms \<times> (tool_outcome + open_form)" where
  "ask_open show_json now number call forms =
     (if length (show_json (tc_arguments call)) > 64 * 1024 then (forms, Inl (Failed ''question form exceeds 64 KiB''))
      else case bindR (normalize_arguments (tc_arguments call) input_schema) parse_form of
        Inl message \<Rightarrow> (forms, Inl (Failed (arguments_error ''ask_user'' message ask_example)))
      | Inr (questions, timeout) \<Rightarrow>
          if map_of forms (tc_call_id call) \<noteq> None then (forms, Inl (Failed ''question call ID is already open''))
          else case make_form_room forms of
            (forms, False) \<Rightarrow> (forms, Inl (Failed ''too many open question forms (128)''))
          | (forms, True) \<Rightarrow>
              let form = \<lparr>of_questions = questions, of_asked_at = now, of_timeout = timeout, of_reply = True,
                    of_timed_out = False, of_call = number\<rparr>
              in (forms @ [(tc_call_id call, form)], Inr form))"

text \<open>
  \<open>answer\<close>, whole under the lock. Sending fails when the call has dropped its end of the channel.
\<close>

definition read_reply :: "open_form \<Rightarrow> json list option \<Rightarrow> bool \<Rightarrow> answer_error + form_reply" where
  "read_reply form answers skip =
     (if skip then Inr Skipped
      else case answers of
        None \<Rightarrow> Inl (AnswerInvalid ''give `answers`, or `skip` the form'')
      | Some given \<Rightarrow> bindR (read_answers (of_questions form) given) (\<lambda>entries. Inr (Answered entries)))"

definition answer_form ::
  "(nat \<Rightarrow> bool) \<Rightarrow> string \<Rightarrow> json list option \<Rightarrow> bool \<Rightarrow> forms \<Rightarrow> forms \<times> (answer_error + delivery \<times> nat \<times> form_reply)" where
  "answer_form listens call_id answers skip forms =
     (case map_of forms call_id of
        None \<Rightarrow> (forms, Inl AnswerNotFound)
      | Some form \<Rightarrow> (case read_reply form answers skip of
          Inl e \<Rightarrow> (forms, Inl e)
        | Inr reply \<Rightarrow>
            if of_reply form
            then (if listens (of_call form)
                  then (put_form call_id (form\<lparr>of_reply := False\<rparr>) forms, Inr (DeliveredNow, of_call form, reply))
                  else (remove_form call_id forms, Inl (AnswerClosed ''the question is no longer open'')))
            else if of_timed_out form
            then (remove_form call_id forms, Inr (case reply of
                    Answered answers \<Rightarrow> DeliveredLater (JArray (map question_json (of_questions form))) answers
                  | Skipped \<Rightarrow> DeliveredDropped, of_call form, reply))
            else (forms, Inl (AnswerClosed ''the question is already answered''))))"

text \<open>The timeout, under the lock: whether it came first.\<close>

definition expire_form :: "string \<Rightarrow> forms \<Rightarrow> forms \<times> bool" where
  "expire_form call_id forms = (case map_of forms call_id of
     Some form \<Rightarrow>
       if of_reply form then (put_form call_id (form\<lparr>of_reply := False, of_timed_out := True\<rparr>) forms, True)
       else (forms, False)
   | None \<Rightarrow> (forms, False))"

subsection \<open>Outcomes\<close>

text \<open>The note that goes with a declined form is missing when the timeout had already looked at the form.\<close>

definition skipped_output :: "bool \<Rightarrow> json" where
  "skipped_output noted = JObject ((''status'', JString ''skipped'') #
     (if noted then [(''note'', JString ''The user chose not to answer. Continue with your best judgement.'')] else []))"

definition reply_outcome :: "bool \<Rightarrow> form_reply \<Rightarrow> tool_outcome" where
  "reply_outcome noted reply = Success (case reply of
     Answered answers \<Rightarrow> answered_output answers | Skipped \<Rightarrow> skipped_output noted)"

definition timed_out_outcome :: "nat option \<Rightarrow> tool_outcome" where
  "timed_out_outcome timeout = Success (JObject [(''status'', JString ''timed_out''),
     (''waited_seconds'', case timeout of None \<Rightarrow> JNull | Some seconds \<Rightarrow> jnat seconds),
     (''note'', JString (''No answer came in time. The questions stay open to the user; if they answer later, the answers ''
        @ ''arrive as a separate message. Continue with your best judgement and say what you assumed.''))])"

definition finish_ask :: "tool_outcome \<Rightarrow> tool_outcome" where
  "finish_ask outcome = (case outcome of
     Success output \<Rightarrow> Report (render_output output) output JNull False
   | other \<Rightarrow> other)"

subsection \<open>The machine\<close>

text \<open>
  A call waits in its \<open>select\<close>; or the timeout has seen that an answer is on its way and the call
  awaits it; or it has an outcome and is about to drop its guard, which closes the form unless told to
  keep it; or it returned; or its future was dropped.
\<close>

datatype ask_phase = Selecting | AwaitingAnswer | Closing tool_outcome bool | Returned tool_outcome | CallDropped

record ask_call =
  ac_call_id :: string
  ac_questions :: "question list"
  ac_timeout :: "nat option"
  ac_inbox :: "form_reply option"
  ac_cancelled :: bool
  ac_phase :: ask_phase

text \<open>
  The state: the forms, the calls, and for the record what answers were taken, for which call and how,
  and what answers were refused for.
\<close>

record ask_state =
  as_forms :: forms
  as_calls :: "ask_call list"
  as_taken :: "(nat \<times> delivery \<times> form_reply) list"
  as_refused :: "answer_error list"

definition new_ask_state :: ask_state where
  "new_ask_state = \<lparr>as_forms = [], as_calls = [], as_taken = [], as_refused = []\<rparr>"

definition put_call :: "nat \<Rightarrow> (ask_call \<Rightarrow> ask_call) \<Rightarrow> ask_state \<Rightarrow> ask_state" where
  "put_call n f s = s\<lparr>as_calls := (as_calls s)[n := f (as_calls s ! n)]\<rparr>"

definition set_phase :: "nat \<Rightarrow> ask_phase \<Rightarrow> ask_state \<Rightarrow> ask_state" where
  "set_phase n phase s = put_call n (\<lambda>c. c\<lparr>ac_phase := phase\<rparr>) s"

definition phase_is :: "ask_phase \<Rightarrow> nat \<Rightarrow> ask_state \<Rightarrow> bool" where
  "phase_is phase n s \<longleftrightarrow> n < length (as_calls s) \<and> ac_phase (as_calls s ! n) = phase"

definition listens :: "ask_state \<Rightarrow> nat \<Rightarrow> bool" where
  "listens s n \<longleftrightarrow> n < length (as_calls s)
     \<and> (case ac_phase (as_calls s ! n) of Returned _ \<Rightarrow> False | CallDropped \<Rightarrow> False | _ \<Rightarrow> True)"

text \<open>What a look at the channel gives: a reply, its end when the sender is gone, or nothing yet.\<close>

definition look_at_channel :: "bool \<Rightarrow> nat \<Rightarrow> ask_state \<Rightarrow> ask_state" where
  "look_at_channel noted n s = (case ac_inbox (as_calls s ! n) of
     Some reply \<Rightarrow> set_phase n (Closing (reply_outcome noted reply) False) s
   | None \<Rightarrow>
       if list_ex (\<lambda>(_, form). of_call form = n \<and> of_reply form) (as_forms s) then s
       else set_phase n (Closing Cancelled False) s)"

text \<open>
  The branches of a \<open>select\<close> are looked at in order, the channel first; an answer may come between two
  of the looks, so each look is a step of its own.
\<close>

datatype ask_event =
    AskCalled nat tool_call
  | LookAtChannel nat
  | TimeIsUp nat
  | LookAgain nat
  | CancelCall nat
  | SeeCancelled nat
  | DropGuard nat
  | DropCall nat
  | UserAnswers string "json list option" bool

fun ask_step :: "(json \<Rightarrow> string) \<Rightarrow> ask_state \<Rightarrow> ask_event \<Rightarrow> ask_state" where
  "ask_step show_json s (AskCalled now call) =
     (case ask_open show_json now (length (as_calls s)) call (as_forms s) of
        (forms, opened) \<Rightarrow> s\<lparr>as_forms := forms, as_calls := as_calls s @ [\<lparr>ac_call_id = tc_call_id call,
          ac_questions = (case opened of Inl _ \<Rightarrow> [] | Inr form \<Rightarrow> of_questions form),
          ac_timeout = (case opened of Inl _ \<Rightarrow> None | Inr form \<Rightarrow> of_timeout form),
          ac_inbox = None, ac_cancelled = False,
          ac_phase = (case opened of Inl outcome \<Rightarrow> Returned outcome | Inr _ \<Rightarrow> Selecting)\<rparr>]\<rparr>)"
| "ask_step show_json s (LookAtChannel n) = (if phase_is Selecting n s then look_at_channel True n s else s)"
| "ask_step show_json s (TimeIsUp n) =
     (if phase_is Selecting n s \<and> ac_timeout (as_calls s ! n) \<noteq> None
      then case expire_form (ac_call_id (as_calls s ! n)) (as_forms s) of
        (forms, True) \<Rightarrow> set_phase n (Closing (timed_out_outcome (ac_timeout (as_calls s ! n))) True) (s\<lparr>as_forms := forms\<rparr>)
      | (forms, False) \<Rightarrow> set_phase n AwaitingAnswer (s\<lparr>as_forms := forms\<rparr>)
      else s)"
| "ask_step show_json s (LookAgain n) = (if phase_is AwaitingAnswer n s then look_at_channel False n s else s)"
| "ask_step show_json s (CancelCall n) = (if n < length (as_calls s) then put_call n (\<lambda>c. c\<lparr>ac_cancelled := True\<rparr>) s else s)"
| "ask_step show_json s (SeeCancelled n) =
     (if phase_is Selecting n s \<and> ac_cancelled (as_calls s ! n) then set_phase n (Closing Cancelled False) s else s)"
| "ask_step show_json s (DropGuard n) =
     (if n < length (as_calls s)
      then case ac_phase (as_calls s ! n) of
        Closing outcome keep \<Rightarrow> set_phase n (Returned (finish_ask outcome))
          (if keep then s else s\<lparr>as_forms := remove_form (ac_call_id (as_calls s ! n)) (as_forms s)\<rparr>)
      | _ \<Rightarrow> s
      else s)"
| "ask_step show_json s (DropCall n) =
     (if phase_is Selecting n s \<or> phase_is AwaitingAnswer n s
      then set_phase n CallDropped (s\<lparr>as_forms := remove_form (ac_call_id (as_calls s ! n)) (as_forms s)\<rparr>)
      else s)"
| "ask_step show_json s (UserAnswers call_id answers skip) =
     (case answer_form (listens s) call_id answers skip (as_forms s) of
        (forms, Inl e) \<Rightarrow> s\<lparr>as_forms := forms, as_refused := as_refused s @ [e]\<rparr>
      | (forms, Inr (delivery, n, reply)) \<Rightarrow>
          (let s = s\<lparr>as_forms := forms, as_taken := as_taken s @ [(n, delivery, reply)]\<rparr>
           in if delivery = DeliveredNow then put_call n (\<lambda>c. c\<lparr>ac_inbox := Some reply\<rparr>) s else s))"

definition ask_run :: "(json \<Rightarrow> string) \<Rightarrow> ask_event list \<Rightarrow> ask_state" where
  "ask_run show_json events = foldl (ask_step show_json) new_ask_state events"

end
