(* ===== verification/Ask_Contract.thy ===== *)
theory Ask_Contract
  imports Ask_User
begin

text \<open>
  What holds of the tool \<open>ask_user\<close> after any steps of calls and users: which form belongs to which
  call, what each phase of a call knows of its form and its channel, and what was taken for an answer.
\<close>

subsection \<open>The map of forms\<close>

lemma map_of_remove_form: "map_of (remove_form k fs) = (map_of fs)(k := None)"
  by (induction fs) (auto simp: remove_form_def fun_eq_iff)

lemma map_of_put_form: "map_of (put_form k f fs) = (\<lambda>j. if j = k then map_option (\<lambda>_. f) (map_of fs k) else map_of fs j)"
  by (induction fs) (auto simp: put_form_def fun_eq_iff)

lemma keys_put_form [simp]: "map fst (put_form k f fs) = map fst fs" "length (put_form k f fs) = length fs"
  by (induction fs) (auto simp: put_form_def)

lemma keys_remove_form [simp]:
  "distinct (map fst fs) \<Longrightarrow> distinct (map fst (remove_form k fs))" "length (remove_form k fs) \<le> length fs"
  by (simp_all add: remove_form_def distinct_map_filter)

text \<open>Making room takes away only forms that timed out.\<close>

lemma make_form_room_keeps:
  assumes "make_form_room fs = (fs', ok)" and "distinct (map fst fs)"
  shows "distinct (map fst fs') \<and> length fs' \<le> length fs \<and> (ok \<longrightarrow> length fs' < max_forms)
    \<and> (\<forall>k f. map_of fs' k = Some f \<longrightarrow> map_of fs k = Some f)
    \<and> (\<forall>k f. map_of fs k = Some f \<longrightarrow> \<not> of_timed_out f \<longrightarrow> map_of fs' k = Some f)"
  using assms
proof (induction fs rule: make_form_room.induct)
  case (1 fs)
  show ?case
  proof (cases "length fs < max_forms \<or> oldest_timed_out fs = None")
    case True
    then show ?thesis using 1(2,3) by (subst (asm) make_form_room.simps) (auto split: if_splits)
  next
    case False
    then obtain c where c: "\<not> length fs < max_forms" "oldest_timed_out fs = Some c" by auto
    have rec: "make_form_room (remove_form c fs) = (fs', ok)" using 1(2) c by (subst (asm) make_form_room.simps) simp
    note ih = 1(1) [OF c rec keys_remove_form(1) [OF 1(3)], unfolded map_of_remove_form]
    obtain f where f: "(c, f) \<in> set fs" "of_timed_out f" using oldest_timed_out_Some [OF c(2)] by blast
    then have "map_of fs c = Some f" using 1(3) by simp
    moreover have "length fs' \<le> length fs" using ih keys_remove_form(2) [of c fs] by linarith
    moreover have "map_of fs k = Some f'" if "map_of fs' k = Some f'" for k f'
    proof -
      from ih that have "((map_of fs)(c := None)) k = Some f'" by blast
      then show ?thesis by (simp split: if_splits)
    qed
    moreover have "map_of fs' k = Some f'" if "map_of fs k = Some f'" "\<not> of_timed_out f'" for k f'
    proof -
      have "k \<noteq> c" using that f(2) \<open>map_of fs c = Some f\<close> by auto
      then show ?thesis using ih that by simp
    qed
    ultimately show ?thesis using ih by blast
  qed
qed

subsection \<open>The invariant\<close>

definition held :: "forms \<Rightarrow> nat \<Rightarrow> ask_call \<Rightarrow> bool" where
  "held fs n c \<longleftrightarrow> (\<exists>f. map_of fs (ac_call_id c) = Some f \<and> of_call f = n \<and> \<not> of_timed_out f
     \<and> (of_reply f \<longleftrightarrow> ac_inbox c = None))"

definition gave_up :: "ask_call \<Rightarrow> bool" where
  "gave_up c \<longleftrightarrow> ac_inbox c = None \<and> (ac_phase c = Closing (timed_out_outcome (ac_timeout c)) True
     \<or> ac_phase c = Returned (finish_ask (timed_out_outcome (ac_timeout c))))"

definition told :: "ask_call \<Rightarrow> tool_outcome \<Rightarrow> bool" where
  "told c out \<longleftrightarrow> (\<exists>noted r. ac_inbox c = Some r \<and> out = reply_outcome noted r) \<or> out = Cancelled \<and> ac_cancelled c"

fun phase_ok :: "forms \<Rightarrow> nat \<Rightarrow> ask_call \<Rightarrow> ask_phase \<Rightarrow> bool" where
  "phase_ok fs n c Selecting = held fs n c"
| "phase_ok fs n c AwaitingAnswer = (held fs n c \<and> ac_inbox c \<noteq> None)"
| "phase_ok fs n c (Closing out keep) = (if keep then gave_up c else held fs n c \<and> told c out)"
| "phase_ok fs n c (Returned out) = (ac_inbox c = None \<and> (\<exists>m. out = Failed m) \<or> gave_up c \<or> (\<exists>o'. out = finish_ask o' \<and> told c o'))"
| "phase_ok fs n c CallDropped = True"

fun is_held :: "ask_phase \<Rightarrow> bool" where
  "is_held Selecting = True"
| "is_held AwaitingAnswer = True"
| "is_held (Closing _ keep) = (\<not> keep)"
| "is_held _ = False"

definition form_ok :: "ask_call list \<Rightarrow> (nat \<times> delivery \<times> form_reply) list \<Rightarrow> string \<Rightarrow> open_form \<Rightarrow> bool" where
  "form_ok cs taken k f \<longleftrightarrow> of_call f < length cs
     \<and> ac_call_id (cs ! of_call f) = k \<and> ac_questions (cs ! of_call f) = of_questions f
     \<and> (if of_timed_out f then \<not> of_reply f \<and> gave_up (cs ! of_call f) \<and> of_call f \<notin> fst ` set taken
        else is_held (ac_phase (cs ! of_call f)))"

fun taken_ok :: "ask_call list \<Rightarrow> nat \<times> delivery \<times> form_reply \<Rightarrow> bool" where
  "taken_ok cs (n, DeliveredNow, r) = (n < length cs \<and> ac_inbox (cs ! n) = Some r)"
| "taken_ok cs (n, DeliveredLater q a, r) = (n < length cs \<and> gave_up (cs ! n) \<and> r = Answered a
     \<and> q = JArray (map question_json (ac_questions (cs ! n))))"
| "taken_ok cs (n, DeliveredDropped, r) = (n < length cs \<and> gave_up (cs ! n) \<and> r = Skipped)"

definition no_longer_open :: answer_error where
  "no_longer_open = AnswerClosed ''the question is no longer open''"

definition ask_inv :: "ask_state \<Rightarrow> bool" where
  "ask_inv s \<longleftrightarrow> distinct (map fst (as_forms s)) \<and> length (as_forms s) \<le> max_forms
     \<and> (\<forall>k f. map_of (as_forms s) k = Some f \<longrightarrow> form_ok (as_calls s) (as_taken s) k f)
     \<and> (\<forall>n < length (as_calls s). phase_ok (as_forms s) n (as_calls s ! n) (ac_phase (as_calls s ! n)))
     \<and> distinct (map fst (as_taken s)) \<and> list_all (taken_ok (as_calls s)) (as_taken s)
     \<and> (\<forall>n < length (as_calls s). \<forall>r. ac_inbox (as_calls s ! n) = Some r \<longrightarrow> (n, DeliveredNow, r) \<in> set (as_taken s))
     \<and> no_longer_open \<notin> set (as_refused s)"

lemma is_held_phase: "is_held (ac_phase c) \<Longrightarrow> phase_ok fs n c (ac_phase c) \<Longrightarrow> held fs n c"
  by (cases "ac_phase c") auto

lemma gave_up_not_held: "gave_up c \<Longrightarrow> \<not> is_held (ac_phase c)"
  by (auto simp: gave_up_def)

lemma phase_ok_other:
  assumes "phase_ok fs n c p" and "held fs n c \<Longrightarrow> held fs' n c"
  shows "phase_ok fs' n c p"
  using assms by (cases p) auto

subsection \<open>A step of one call\<close>

text \<open>
  A step that changes the phase of a call, and of the forms at most the one that is the call's own, and
  for an answer that was on its way finds the form as the invariant has it.
\<close>

lemma own_step:
  assumes inv: "ask_inv s" and n: "n < length (as_calls s)" and c: "c = as_calls s ! n"
    and c': "c' = c\<lparr>ac_phase := p, ac_cancelled := b\<rparr>" and b: "ac_cancelled c \<longrightarrow> b"
    and keys: "distinct (map fst fs)" "length fs \<le> length (as_forms s)"
    and forms: "fs = as_forms s \<or> held (as_forms s) n c
      \<and> (\<forall>k. k \<noteq> ac_call_id c \<longrightarrow> map_of fs k = map_of (as_forms s) k) \<and> (\<forall>f. map_of fs (ac_call_id c) = Some f \<longrightarrow> of_call f = n)"
    and own: "\<And>f. map_of fs (ac_call_id c) = Some f \<Longrightarrow> of_call f = n
      \<Longrightarrow> form_ok ((as_calls s)[n := c']) (as_taken s) (ac_call_id c) f"
    and ph: "phase_ok fs n c' p" and gave: "gave_up c \<Longrightarrow> gave_up c'"
  shows "ask_inv (s\<lparr>as_forms := fs, as_calls := (as_calls s)[n := c']\<rparr>)"
proof -
  let ?cs = "(as_calls s)[n := c']"
  have f: "form_ok ?cs (as_taken s) k f" if "map_of fs k = Some f" for k f
  proof (cases "of_call f = n")
    case True
    have "k = ac_call_id c"
    proof (rule ccontr)
      assume k: "k \<noteq> ac_call_id c"
      with forms that have "map_of (as_forms s) k = Some f" by auto
      with inv have "form_ok (as_calls s) (as_taken s) k f" by (simp add: ask_inv_def)
      with True c k show False by (auto simp: form_ok_def)
    qed
    with own True that show ?thesis by simp
  next
    case False
    with forms that have "map_of (as_forms s) k = Some f" by metis
    with inv have "form_ok (as_calls s) (as_taken s) k f" by (simp add: ask_inv_def)
    with False show ?thesis by (auto simp: form_ok_def)
  qed
  have p: "phase_ok fs m (?cs ! m) (ac_phase (?cs ! m))" if m: "m < length ?cs" for m
  proof (cases "m = n")
    case True
    then show ?thesis using ph n c' by simp
  next
    case False
    from inv m have "phase_ok (as_forms s) m (as_calls s ! m) (ac_phase (as_calls s ! m))" by (simp add: ask_inv_def)
    moreover have "held fs m (as_calls s ! m)" if h: "held (as_forms s) m (as_calls s ! m)"
    proof (cases "fs = as_forms s")
      case other: False
      with forms obtain g where g: "map_of (as_forms s) (ac_call_id c) = Some g" "of_call g = n"
        and rest: "\<forall>k. k \<noteq> ac_call_id c \<longrightarrow> map_of fs k = map_of (as_forms s) k" by (auto simp: held_def)
      from h g False have "ac_call_id (as_calls s ! m) \<noteq> ac_call_id c" by (auto simp: held_def)
      with rest h show ?thesis by (simp add: held_def)
    qed (use h in simp)
    ultimately show ?thesis using False by (auto intro: phase_ok_other)
  qed
  have same: "ac_inbox (?cs ! m) = ac_inbox (as_calls s ! m)" "ac_questions (?cs ! m) = ac_questions (as_calls s ! m)" for m
    using c c' n by (auto simp: nth_list_update)
  have g: "gave_up (as_calls s ! m) \<Longrightarrow> gave_up (?cs ! m)" for m
    using gave c n by (cases "m = n") auto
  have "taken_ok ?cs x" if "x \<in> set (as_taken s)" for x
  proof -
    from inv that have "taken_ok (as_calls s) x" by (simp add: ask_inv_def list_all_iff)
    then show ?thesis using g by (cases "(as_calls s, x)" rule: taken_ok.cases) (simp_all add: same)
  qed
  with inv f p same keys show ?thesis by (simp add: ask_inv_def list_all_iff)
qed

lemma set_phase_own:
  "set_phase n p (s\<lparr>as_forms := fs\<rparr>) = s\<lparr>as_forms := fs, as_calls := (as_calls s)[n :=
     (as_calls s ! n)\<lparr>ac_phase := p, ac_cancelled := ac_cancelled (as_calls s ! n)\<rparr>]\<rparr>"
  "set_phase n p s = s\<lparr>as_forms := as_forms s, as_calls := (as_calls s)[n :=
     (as_calls s ! n)\<lparr>ac_phase := p, ac_cancelled := ac_cancelled (as_calls s ! n)\<rparr>]\<rparr>"
  by (simp_all add: set_phase_def put_call_def)

lemma ask_inv_parts:
  assumes "ask_inv s"
  shows "distinct (map fst (as_forms s))" "length (as_forms s) \<le> max_forms"
    and "map_of (as_forms s) k = Some f \<Longrightarrow> form_ok (as_calls s) (as_taken s) k f"
    and "n < length (as_calls s) \<Longrightarrow> phase_ok (as_forms s) n (as_calls s ! n) (ac_phase (as_calls s ! n))"
  using assms by (simp_all add: ask_inv_def)

text \<open>A call that still holds its form goes on holding it.\<close>

lemma holding_step:
  assumes inv: "ask_inv s" and n: "n < length (as_calls s)" and h: "is_held (ac_phase (as_calls s ! n))"
    and p: "is_held p" "phase_ok (as_forms s) n ((as_calls s ! n)\<lparr>ac_phase := p\<rparr>) p"
  shows "ask_inv (set_phase n p s)"
  unfolding set_phase_own(2)
proof (rule own_step [OF inv n refl refl])
  fix f assume f: "map_of (as_forms s) (ac_call_id (as_calls s ! n)) = Some f" "of_call f = n"
  from ask_inv_parts(3) [OF inv f(1)] f(2) h p(1) n gave_up_not_held [of "as_calls s ! n"]
  show "form_ok ((as_calls s)[n := (as_calls s ! n)\<lparr>ac_phase := p, ac_cancelled := ac_cancelled (as_calls s ! n)\<rparr>])
      (as_taken s) (ac_call_id (as_calls s ! n)) f"
    by (auto simp: form_ok_def split: if_splits)
qed (use ask_inv_parts [OF inv] p(2) gave_up_not_held [of "as_calls s ! n"] h in auto)

text \<open>A call that lets go of its form closes it.\<close>

lemma letting_go_step:
  assumes inv: "ask_inv s" and n: "n < length (as_calls s)" and h: "is_held (ac_phase (as_calls s ! n))"
    and p: "phase_ok [] n ((as_calls s ! n)\<lparr>ac_phase := p\<rparr>) p"
  shows "ask_inv (set_phase n p (s\<lparr>as_forms := remove_form (ac_call_id (as_calls s ! n)) (as_forms s)\<rparr>))"
  unfolding set_phase_own(1)
proof (rule own_step [OF inv n refl refl])
  have "held (as_forms s) n (as_calls s ! n)" using is_held_phase [OF h ask_inv_parts(4) [OF inv n]] .
  then show "remove_form (ac_call_id (as_calls s ! n)) (as_forms s) = as_forms s \<or> held (as_forms s) n (as_calls s ! n)
      \<and> (\<forall>k. k \<noteq> ac_call_id (as_calls s ! n) \<longrightarrow>
        map_of (remove_form (ac_call_id (as_calls s ! n)) (as_forms s)) k = map_of (as_forms s) k)
      \<and> (\<forall>f. map_of (remove_form (ac_call_id (as_calls s ! n)) (as_forms s)) (ac_call_id (as_calls s ! n)) = Some f \<longrightarrow> of_call f = n)"
    by (simp add: map_of_remove_form)
  have "\<not> held [] n c" for c by (simp add: held_def)
  with p show "phase_ok (remove_form (ac_call_id (as_calls s ! n)) (as_forms s)) n
      ((as_calls s ! n)\<lparr>ac_phase := p, ac_cancelled := ac_cancelled (as_calls s ! n)\<rparr>) p"
    by (auto intro: phase_ok_other)
qed (use ask_inv_parts [OF inv] gave_up_not_held [of "as_calls s ! n"] h in \<open>auto simp: map_of_remove_form\<close>)

lemma cancelled_calls [simp]:
  "gave_up (c\<lparr>ac_cancelled := b\<rparr>) = gave_up c" "gave_up (c\<lparr>ac_phase := p, ac_cancelled := b\<rparr>) = gave_up (c\<lparr>ac_phase := p\<rparr>)"
  "held fs n (c\<lparr>ac_cancelled := b\<rparr>) = held fs n c" "told c out \<Longrightarrow> told (c\<lparr>ac_cancelled := True\<rparr>) out"
  by (auto simp: gave_up_def held_def told_def)

lemma told_phase [simp]: "told (c\<lparr>ac_phase := p\<rparr>) out = told c out" "held fs n (c\<lparr>ac_phase := p\<rparr>) = held fs n c"
  by (simp_all add: told_def held_def)

lemma look_step:
  assumes inv: "ask_inv s" and n: "n < length (as_calls s)" and h: "ac_phase (as_calls s ! n) \<in> {Selecting, AwaitingAnswer}"
  shows "ask_inv (look_at_channel noted n s)"
proof -
  from h have held: "is_held (ac_phase (as_calls s ! n))" by auto
  then have f: "held (as_forms s) n (as_calls s ! n)" using is_held_phase ask_inv_parts(4) [OF inv n] by blast
  show ?thesis
  proof (cases "ac_inbox (as_calls s ! n)")
    case None
    with f have "list_ex (\<lambda>(_, form). of_call form = n \<and> of_reply form) (as_forms s)"
      by (auto simp: held_def list_ex_iff dest: map_of_SomeD)
    with None inv show ?thesis by (simp add: look_at_channel_def)
  next
    case (Some r)
    then have "told (as_calls s ! n) (reply_outcome noted r)" by (auto simp: told_def)
    with f have "ask_inv (set_phase n (Closing (reply_outcome noted r) False) s)"
      by (intro holding_step [OF inv n held]) simp_all
    with Some show ?thesis by (simp add: look_at_channel_def)
  qed
qed

lemma time_is_up_step:
  assumes inv: "ask_inv s" and n: "n < length (as_calls s)" and h: "ac_phase (as_calls s ! n) = Selecting"
  shows "ask_inv (case expire_form (ac_call_id (as_calls s ! n)) (as_forms s) of
      (forms, True) \<Rightarrow> set_phase n (Closing (timed_out_outcome (ac_timeout (as_calls s ! n))) True) (s\<lparr>as_forms := forms\<rparr>)
    | (forms, False) \<Rightarrow> set_phase n AwaitingAnswer (s\<lparr>as_forms := forms\<rparr>))"
proof -
  let ?c = "as_calls s ! n" and ?k = "ac_call_id (as_calls s ! n)"
  from h have held: "held (as_forms s) n ?c" using ask_inv_parts(4) [OF inv n] by simp
  then obtain f where f: "map_of (as_forms s) ?k = Some f" "of_call f = n" "\<not> of_timed_out f" "of_reply f \<longleftrightarrow> ac_inbox ?c = None"
    by (auto simp: held_def)
  show ?thesis
  proof (cases "of_reply f")
    case False
    then have "ask_inv (set_phase n AwaitingAnswer s)" using f held h by (intro holding_step [OF inv n]) auto
    with False f(1) show ?thesis by (simp add: expire_form_def)
  next
    case True
    define fs where "fs = put_form ?k (f\<lparr>of_reply := False, of_timed_out := True\<rparr>) (as_forms s)"
    define p where "p = Closing (timed_out_outcome (ac_timeout ?c)) True"
    have m: "map_of fs = (map_of (as_forms s))(?k \<mapsto> f\<lparr>of_reply := False, of_timed_out := True\<rparr>)"
      using f(1) by (auto simp: fs_def map_of_put_form)
    have ks: "map fst fs = map fst (as_forms s)" "length fs = length (as_forms s)" by (simp_all add: fs_def)
    have up: "gave_up (?c\<lparr>ac_phase := p\<rparr>)" using True f(4) by (simp add: gave_up_def p_def)
    have fresh: "n \<notin> fst ` set (as_taken s)"
    proof
      assume "n \<in> fst ` set (as_taken s)"
      then obtain d r where t: "(n, d, r) \<in> set (as_taken s)" by auto
      with inv have "taken_ok (as_calls s) (n, d, r)" by (auto simp: ask_inv_def list_all_iff)
      with True f(4) h show False by (cases d) (auto simp: gave_up_def)
    qed
    have "ask_inv (set_phase n p (s\<lparr>as_forms := fs\<rparr>))"
      unfolding set_phase_own(1)
    proof (rule own_step [OF inv n refl refl])
      fix g assume "map_of fs ?k = Some g" "of_call g = n"
      with ask_inv_parts(3) [OF inv f(1)] f(2) n up fresh
      show "form_ok ((as_calls s)[n := ?c\<lparr>ac_phase := p, ac_cancelled := ac_cancelled ?c\<rparr>]) (as_taken s) ?k g"
        by (auto simp: form_ok_def m)
    qed (use ask_inv_parts(1,2) [OF inv] ks held f(2) up in \<open>auto simp: m p_def\<close>)
    with True f(1) show ?thesis by (simp add: expire_form_def fs_def p_def)
  qed
qed

lemma cancel_step:
  assumes inv: "ask_inv s" and n: "n < length (as_calls s)"
  shows "ask_inv (put_call n (\<lambda>c. c\<lparr>ac_cancelled := True\<rparr>) s)"
proof -
  let ?c = "as_calls s ! n"
  have same: "?c\<lparr>ac_phase := ac_phase ?c, ac_cancelled := True\<rparr> = ?c\<lparr>ac_cancelled := True\<rparr>" by simp
  have "put_call n (\<lambda>c. c\<lparr>ac_cancelled := True\<rparr>) s
      = s\<lparr>as_forms := as_forms s, as_calls := (as_calls s)[n := ?c\<lparr>ac_phase := ac_phase ?c, ac_cancelled := True\<rparr>]\<rparr>"
    by (simp add: put_call_def)
  also have "ask_inv \<dots>"
  proof (rule own_step [OF inv n refl refl])
    show "phase_ok (as_forms s) n (?c\<lparr>ac_phase := ac_phase ?c, ac_cancelled := True\<rparr>) (ac_phase ?c)"
      unfolding same using ask_inv_parts(4) [OF inv n] by (cases "ac_phase ?c") (auto split: if_splits)
    fix f assume f: "map_of (as_forms s) (ac_call_id ?c) = Some f" "of_call f = n"
    from ask_inv_parts(3) [OF inv f(1)] f(2) n show "form_ok ((as_calls s)[n := ?c\<lparr>ac_phase := ac_phase ?c, ac_cancelled := True\<rparr>]) (as_taken s) (ac_call_id ?c) f"
      by (auto simp: form_ok_def split: if_splits)
  qed (use ask_inv_parts [OF inv] in auto)
  finally show ?thesis .
qed

lemma drop_guard_step:
  assumes inv: "ask_inv s" and n: "n < length (as_calls s)" and h: "ac_phase (as_calls s ! n) = Closing out keep"
  shows "ask_inv (set_phase n (Returned (finish_ask out))
    (if keep then s else s\<lparr>as_forms := remove_form (ac_call_id (as_calls s ! n)) (as_forms s)\<rparr>))"
proof (cases keep)
  case False
  with ask_inv_parts(4) [OF inv n] h have "told (as_calls s ! n) out" by simp
  then show ?thesis using False h by (auto intro!: letting_go_step [OF inv n])
next
  case True
  let ?c = "as_calls s ! n"
  from ask_inv_parts(4) [OF inv n] h True have g: "gave_up ?c" by simp
  then have g': "gave_up (?c\<lparr>ac_phase := Returned (finish_ask out)\<rparr>)"
    using h by (auto simp: gave_up_def)
  have "ask_inv (set_phase n (Returned (finish_ask out)) s)" unfolding set_phase_own(2)
  proof (rule own_step [OF inv n refl refl])
    fix f assume f: "map_of (as_forms s) (ac_call_id ?c) = Some f" "of_call f = n"
    from ask_inv_parts(3) [OF inv f(1)] f(2) n g' gave_up_not_held [OF g]
    show "form_ok ((as_calls s)[n := ?c\<lparr>ac_phase := Returned (finish_ask out), ac_cancelled := ac_cancelled ?c\<rparr>])
      (as_taken s) (ac_call_id ?c) f" by (auto simp: form_ok_def split: if_splits)
  qed (use ask_inv_parts [OF inv] g' in auto)
  with True show ?thesis by simp
qed

subsection \<open>A new call\<close>

text \<open>What is left of the forms when room was made.\<close>

definition thinned :: "forms \<Rightarrow> forms \<Rightarrow> bool" where
  "thinned fs fs' \<longleftrightarrow> distinct (map fst fs') \<and> length fs' \<le> length fs
     \<and> (\<forall>k f. map_of fs' k = Some f \<longrightarrow> map_of fs k = Some f)
     \<and> (\<forall>k f. map_of fs k = Some f \<longrightarrow> \<not> of_timed_out f \<longrightarrow> map_of fs' k = Some f)"

lemma thinnedD:
  assumes "thinned fs fs'"
  shows "distinct (map fst fs')" "length fs' \<le> length fs" "map_of fs' k = Some f \<Longrightarrow> map_of fs k = Some f"
    and "map_of fs k = Some f \<Longrightarrow> \<not> of_timed_out f \<Longrightarrow> map_of fs' k = Some f"
    and "held fs n c \<Longrightarrow> held fs' n c"
proof -
  note a = assms [unfolded thinned_def]
  note b = conjunct2 [OF conjunct2 [OF a]]
  note t = conjunct1 [OF a] conjunct1 [OF conjunct2 [OF a]] conjunct1 [OF b] conjunct2 [OF b]
  show "distinct (map fst fs')" "length fs' \<le> length fs" by (fact t(1), fact t(2))
  show "map_of fs k = Some f" if "map_of fs' k = Some f" by (rule t(3) [rule_format, OF that])
  show kept: "map_of fs' k = Some f" if "map_of fs k = Some f" "\<not> of_timed_out f" for k f
    by (rule t(4) [rule_format, OF that])
  assume "held fs n c"
  then obtain g where g: "map_of fs (ac_call_id c) = Some g" "of_call g = n" "\<not> of_timed_out g" "of_reply g \<longleftrightarrow> ac_inbox c = None"
    by (auto simp: held_def)
  show "held fs' n c" unfolding held_def using kept [OF g(1,3)] g(2-) by (intro exI [of _ g] conjI)
qed

lemma ask_open_parts:
  assumes "ask_open show_json now number call fs = (fs', opened)" and d: "distinct (map fst fs)"
  shows "case opened of
      Inl out \<Rightarrow> (\<exists>m. out = Failed m) \<and> thinned fs fs'
    | Inr form \<Rightarrow> of_call form = number \<and> of_reply form \<and> \<not> of_timed_out form \<and> map_of fs (tc_call_id call) = None
        \<and> (\<exists>room. thinned fs room \<and> length room < max_forms \<and> fs' = room @ [(tc_call_id call, form)])"
proof -
  obtain room ok where r: "make_form_room fs = (room, ok)" by (cases "make_form_room fs")
  have rooms: "thinned fs fs" "thinned fs room" "ok \<longrightarrow> length room < max_forms"
    using d make_form_room_keeps [OF r d] by (simp_all add: thinned_def)
  show ?thesis
  proof (cases "length (show_json (tc_arguments call)) > 64 * 1024 \<or> map_of fs (tc_call_id call) \<noteq> None")
    case True
    then have "(\<exists>m. opened = Inl (Failed m)) \<and> fs' = fs"
      using assms(1) by (auto simp: ask_open_def split: if_splits sum.splits)
    with rooms(1) show ?thesis by auto
  next
    case False
    then show ?thesis
      using assms(1) rooms r by (cases ok) (auto simp: ask_open_def Let_def split: sum.splits)
  qed
qed

lemma ask_inv_room:
  assumes inv: "ask_inv s" and "thinned (as_forms s) fs"
  shows "ask_inv (s\<lparr>as_forms := fs\<rparr>)"
proof -
  have "phase_ok fs n (as_calls s ! n) (ac_phase (as_calls s ! n))" if "n < length (as_calls s)" for n
    by (rule phase_ok_other [OF ask_inv_parts(4) [OF inv that] thinnedD(5) [OF assms(2)]])
  moreover have "form_ok (as_calls s) (as_taken s) k f" if "map_of fs k = Some f" for k f
    by (rule ask_inv_parts(3) [OF inv thinnedD(3) [OF assms(2) that]])
  moreover have "distinct (map fst fs)" "length fs \<le> max_forms"
    using ask_inv_parts(2) [OF inv] thinnedD(1,2) [OF assms(2)] by simp_all
  ultimately show ?thesis using inv by (simp add: ask_inv_def)
qed

lemma taken_ok_more: "taken_ok cs x \<Longrightarrow> taken_ok (cs @ ds) x"
  by (cases "(cs, x)" rule: taken_ok.cases) (simp_all add: nth_append)

lemma form_ok_more: "form_ok cs taken k f \<Longrightarrow> form_ok (cs @ ds) taken k f"
  by (simp add: form_ok_def nth_append)

lemma ask_inv_new_call:
  assumes inv: "ask_inv s" and c: "ac_inbox c = None" "phase_ok fs (length (as_calls s)) c (ac_phase c)"
    and fs: "distinct (map fst fs)" "length fs \<le> max_forms" "\<forall>k f. map_of (as_forms s) k = Some f \<longrightarrow> map_of fs k = Some f"
    and new: "\<And>k f. map_of fs k = Some f \<Longrightarrow> map_of (as_forms s) k = Some f \<or> form_ok (as_calls s @ [c]) (as_taken s) k f"
  shows "ask_inv (s\<lparr>as_forms := fs, as_calls := as_calls s @ [c]\<rparr>)"
proof -
  have "phase_ok fs n ((as_calls s @ [c]) ! n) (ac_phase ((as_calls s @ [c]) ! n))" if "n < Suc (length (as_calls s))" for n
  proof (cases "n = length (as_calls s)")
    case False
    with that have n: "n < length (as_calls s)" by simp
    have "phase_ok fs n (as_calls s ! n) (ac_phase (as_calls s ! n))"
      by (rule phase_ok_other [OF ask_inv_parts(4) [OF inv n]]) (use fs(3) in \<open>auto simp: held_def\<close>)
    with n show ?thesis by (simp add: nth_append)
  qed (use c(2) in simp)
  moreover have "form_ok (as_calls s @ [c]) (as_taken s) k f" if "map_of fs k = Some f" for k f
    using new [OF that] form_ok_more [OF ask_inv_parts(3) [OF inv]] by blast
  moreover have "\<forall>n < Suc (length (as_calls s)). \<forall>r. ac_inbox ((as_calls s @ [c]) ! n) = Some r \<longrightarrow> (n, DeliveredNow, r) \<in> set (as_taken s)"
    using inv c(1) by (auto simp: ask_inv_def nth_append less_Suc_eq)
  ultimately show ?thesis using inv fs by (auto simp: ask_inv_def list_all_iff intro: taken_ok_more)
qed

lemma ask_called_step:
  assumes inv: "ask_inv s"
  shows "ask_inv (ask_step show_json s (AskCalled now call))"
proof -
  obtain fs opened where o: "ask_open show_json now (length (as_calls s)) call (as_forms s) = (fs, opened)"
    by (cases "ask_open show_json now (length (as_calls s)) call (as_forms s)")
  note parts = ask_open_parts [OF o ask_inv_parts(1) [OF inv]]
  show ?thesis
  proof (cases opened)
    case (Inl out)
    with parts have out: "\<exists>m. out = Failed m" and t: "thinned (as_forms s) fs" by auto
    note room = ask_inv_room [OF inv t]
    let ?c = "\<lparr>ac_call_id = tc_call_id call, ac_questions = [], ac_timeout = None, ac_inbox = None, ac_cancelled = False,
      ac_phase = Returned out\<rparr>"
    have "ask_inv ((s\<lparr>as_forms := fs\<rparr>)\<lparr>as_forms := fs, as_calls := as_calls (s\<lparr>as_forms := fs\<rparr>) @ [?c]\<rparr>)"
      by (rule ask_inv_new_call [OF room]) (use out ask_inv_parts(1,2) [OF room] in auto)
    with o Inl show ?thesis by simp
  next
    case (Inr form)
    with parts obtain room where f: "of_call form = length (as_calls s)" "of_reply form" "\<not> of_timed_out form"
      "map_of (as_forms s) (tc_call_id call) = None" and r: "thinned (as_forms s) room" "length room < max_forms"
      "fs = room @ [(tc_call_id call, form)]" by auto
    from r(1) f(4) have fresh: "map_of room (tc_call_id call) = None" 
      by (metis thinnedD(3) not_None_eq)
    note inv' = ask_inv_room [OF inv r(1)]
    let ?c = "\<lparr>ac_call_id = tc_call_id call, ac_questions = of_questions form, ac_timeout = of_timeout form, ac_inbox = None,
      ac_cancelled = False, ac_phase = Selecting\<rparr>"
    have m: "map_of fs k = (if k = tc_call_id call then Some form else map_of room k)" for k
      using fresh by (auto simp: r(3) map_add_def split: option.splits)
    have "ask_inv ((s\<lparr>as_forms := room\<rparr>)\<lparr>as_forms := fs, as_calls := as_calls (s\<lparr>as_forms := room\<rparr>) @ [?c]\<rparr>)"
    proof (rule ask_inv_new_call [OF inv'])
      show "distinct (map fst fs)" using ask_inv_parts(1) [OF inv'] fresh by (simp add: r(3) map_of_eq_None_iff)
      show "length fs \<le> max_forms" using r(2) by (simp add: r(3))
      fix k f assume "map_of fs k = Some f"
      then show "map_of (as_forms (s\<lparr>as_forms := room\<rparr>)) k = Some f
          \<or> form_ok (as_calls (s\<lparr>as_forms := room\<rparr>) @ [?c]) (as_taken (s\<lparr>as_forms := room\<rparr>)) k f"
        using f(1-3) by (cases "k = tc_call_id call") (simp_all add: m form_ok_def)
    qed (use f(1-3) fresh in \<open>auto simp: m held_def\<close>)
    with o Inr show ?thesis by simp
  qed
qed

subsection \<open>An answer\<close>

text \<open>An answer handed to the call: the sender is taken and the reply is in the channel.\<close>

lemma answered_now:
  assumes inv: "ask_inv s" and k: "map_of (as_forms s) k = Some f" and r: "of_reply f"
  shows "listens s (of_call f)"
    and "ask_inv (put_call (of_call f) (\<lambda>c. c\<lparr>ac_inbox := Some r\<rparr>)
      (s\<lparr>as_forms := put_form k (f\<lparr>of_reply := False\<rparr>) (as_forms s), as_taken := as_taken s @ [(of_call f, DeliveredNow, r)]\<rparr>))"
proof -
  let ?n = "of_call f" and ?fs = "put_form k (f\<lparr>of_reply := False\<rparr>) (as_forms s)"
  let ?c = "as_calls s ! ?n" and ?taken = "as_taken s @ [(?n, DeliveredNow, r)]"
  let ?cs = "(as_calls s)[?n := ?c\<lparr>ac_inbox := Some r\<rparr>]"
  note fo = ask_inv_parts(3) [OF inv k, unfolded form_ok_def]
  from fo r have n: "?n < length (as_calls s)" "ac_call_id ?c = k" "\<not> of_timed_out f" "is_held (ac_phase ?c)"
    by (auto split: if_splits)
  show "listens s ?n" using n by (cases "ac_phase ?c") (auto simp: listens_def)
  from is_held_phase [OF n(4) ask_inv_parts(4) [OF inv n(1)]] k n(2) r have inbox: "ac_inbox ?c = None" by (auto simp: held_def)
  have fresh: "?n \<notin> fst ` set (as_taken s)"
  proof
    assume "?n \<in> fst ` set (as_taken s)"
    then obtain d r' where t: "(?n, d, r') \<in> set (as_taken s)" by auto
    with inv have "taken_ok (as_calls s) (?n, d, r')" by (auto simp: ask_inv_def list_all_iff)
    with inbox gave_up_not_held n(4) show False by (cases d) auto
  qed
  have m: "map_of ?fs = (map_of (as_forms s))(k \<mapsto> f\<lparr>of_reply := False\<rparr>)" using k by (auto simp: map_of_put_form)
  have "form_ok ?cs ?taken j g" if "map_of ?fs j = Some g" for j g
  proof (cases "j = k")
    case True
    then show ?thesis using that fo n by (auto simp: m form_ok_def split: if_splits)
  next
    case False
    with that have j: "form_ok (as_calls s) (as_taken s) j g" using ask_inv_parts(3) [OF inv] by (simp add: m)
    with False n(2) have "of_call g \<noteq> ?n" by (auto simp: form_ok_def)
    with j show ?thesis by (auto simp: form_ok_def)
  qed
  moreover have "phase_ok ?fs i (?cs ! i) (ac_phase (?cs ! i))" if i: "i < length ?cs" for i
  proof (cases "i = ?n")
    case True
    have "held ?fs ?n (?c\<lparr>ac_inbox := Some r\<rparr>)" using n by (simp add: held_def m)
    moreover have "told (?c\<lparr>ac_inbox := Some r\<rparr>) out" if "told ?c out" for out using that inbox by (auto simp: told_def)
    ultimately show ?thesis using True n ask_inv_parts(4) [OF inv n(1)]
      by (cases "ac_phase ?c") (auto split: if_splits)
  next
    case False
    with i have i': "phase_ok (as_forms s) i (as_calls s ! i) (ac_phase (as_calls s ! i))" using ask_inv_parts(4) [OF inv] by simp
    have "phase_ok ?fs i (as_calls s ! i) (ac_phase (as_calls s ! i))"
      by (rule phase_ok_other [OF i']) (use k False in \<open>auto simp: held_def m\<close>)
    with False show ?thesis by simp
  qed
  moreover have "taken_ok ?cs x" if x: "x \<in> set (as_taken s)" for x
  proof -
    from x fresh have "fst x \<noteq> ?n" by force
    moreover from inv x have "taken_ok (as_calls s) x" by (simp add: ask_inv_def list_all_iff)
    ultimately show ?thesis by (cases "(as_calls s, x)" rule: taken_ok.cases) simp_all
  qed
  moreover have "(i, DeliveredNow, r') \<in> set ?taken" if "i < length ?cs" "ac_inbox (?cs ! i) = Some r'" for i r'
    using that inv n(1) by (cases "i = ?n") (auto simp: ask_inv_def)
  ultimately show "ask_inv (put_call ?n (\<lambda>c. c\<lparr>ac_inbox := Some r\<rparr>) (s\<lparr>as_forms := ?fs, as_taken := ?taken\<rparr>))"
    using inv fresh n(1) by (simp add: ask_inv_def put_call_def list_all_iff)
qed

text \<open>An answer to a form whose call gave up.\<close>

lemma answered_late:
  assumes inv: "ask_inv s" and k: "map_of (as_forms s) k = Some f" and t: "of_timed_out f"
    and d: "taken_ok (as_calls s) (of_call f, d, r)" "d \<noteq> DeliveredNow"
  shows "ask_inv (s\<lparr>as_forms := remove_form k (as_forms s), as_taken := as_taken s @ [(of_call f, d, r)]\<rparr>)"
proof -
  note fo = ask_inv_parts(3) [OF inv k, unfolded form_ok_def]
  let ?fs = "remove_form k (as_forms s)" and ?taken = "as_taken s @ [(of_call f, d, r)]"
  have "form_ok (as_calls s) ?taken j g" if "map_of ?fs j = Some g" for j g
  proof -
    from that have j: "j \<noteq> k" "map_of (as_forms s) j = Some g" by (auto simp: map_of_remove_form split: if_splits)
    with ask_inv_parts(3) [OF inv j(2)] fo show ?thesis by (auto simp: form_ok_def)
  qed
  moreover have "phase_ok ?fs i (as_calls s ! i) (ac_phase (as_calls s ! i))" if "i < length (as_calls s)" for i
    by (rule phase_ok_other [OF ask_inv_parts(4) [OF inv that]]) (use k t in \<open>auto simp: held_def map_of_remove_form\<close>)
  ultimately show ?thesis using inv fo t d(1) le_trans [OF keys_remove_form(2) ask_inv_parts(2) [OF inv], of k]
    by (auto simp: ask_inv_def list_all_iff)
qed

lemma read_each_error: "read_each i form answers = Inl e \<Longrightarrow> \<exists>m. e = AnswerInvalid m"
proof (induction i form answers rule: read_each.induct)
  case (1 i q form a answers)
  then show ?case by (cases "read_each (Suc i) form answers") (auto split: sum.splits)
qed simp_all

lemma read_reply_error: "read_reply form answers skip = Inl e \<Longrightarrow> \<exists>m. e = AnswerInvalid m"
proof -
  assume e: "read_reply form answers skip = Inl e"
  then show ?thesis
  proof (cases answers)
    case (Some given)
    with e show ?thesis
      by (cases "read_each 0 (of_questions form) given")
         (auto simp: read_reply_def read_answers_def dest: read_each_error split: if_splits)
  qed (auto simp: read_reply_def split: if_splits)
qed

lemma user_answers_step:
  assumes inv: "ask_inv s"
  shows "ask_inv (ask_step show_json s (UserAnswers k answers skip))"
proof -
  have refused: "ask_inv (s\<lparr>as_forms := as_forms s, as_refused := as_refused s @ [e]\<rparr>)" if "e \<noteq> no_longer_open" for e
    using inv that by (simp add: ask_inv_def)
  have other: "AnswerNotFound \<noteq> no_longer_open" "AnswerClosed ''the question is already answered'' \<noteq> no_longer_open"
    by (simp_all add: no_longer_open_def)
  show ?thesis
  proof (cases "map_of (as_forms s) k")
    case None
    then show ?thesis using refused [OF other(1)] by (simp add: answer_form_def)
  next
    case (Some f)
    note fo = ask_inv_parts(3) [OF inv Some, unfolded form_ok_def]
    show ?thesis
    proof (cases "read_reply f answers skip")
      case (Inl e)
      then have "e \<noteq> no_longer_open" using read_reply_error by (force simp: no_longer_open_def)
      then show ?thesis using refused Some Inl by (simp add: answer_form_def)
    next
      case (Inr r)
      consider "of_reply f" | "\<not> of_reply f" "of_timed_out f" | "\<not> of_reply f" "\<not> of_timed_out f" by blast
      then show ?thesis
      proof cases
        case 1
        with answered_now(1) [OF inv Some 1] answered_now(2) [OF inv Some 1, of r] Some Inr show ?thesis by (simp add: answer_form_def Let_def)
      next
        case 2
        define d where "d = (case r of Answered a \<Rightarrow> DeliveredLater (JArray (map question_json (of_questions f))) a | Skipped \<Rightarrow> DeliveredDropped)"
        have "taken_ok (as_calls s) (of_call f, d, r)" "d \<noteq> DeliveredNow" using fo 2 by (auto simp: d_def split: form_reply.split)
        with answered_late [OF inv Some 2(2) this] Some Inr 2 show ?thesis
          by (simp add: answer_form_def Let_def d_def [symmetric])
      next
        case 3
        then show ?thesis using refused [OF other(2)] Some Inr by (simp add: answer_form_def)
      qed
    qed
  qed
qed

subsection \<open>Any run\<close>

lemma ask_step_inv:
  assumes inv: "ask_inv s"
  shows "ask_inv (ask_step show_json s ev)"
proof (cases ev)
  case (AskCalled now call)
  then show ?thesis using ask_called_step [OF inv] by simp
next
  case (UserAnswers k answers skip)
  then show ?thesis using user_answers_step [OF inv] by simp
next
  case (LookAtChannel n)
  then show ?thesis using look_step [OF inv, of n True] inv by (simp add: phase_is_def)
next
  case (LookAgain n)
  then show ?thesis using look_step [OF inv, of n False] inv by (simp add: phase_is_def)
next
  case (TimeIsUp n)
  then show ?thesis using time_is_up_step [OF inv, of n] inv by (simp add: phase_is_def)
next
  case (CancelCall n)
  then show ?thesis using cancel_step [OF inv, of n] inv by simp
next
  case (SeeCancelled n)
  have "ask_inv (set_phase n (Closing Cancelled False) s)" if "phase_is Selecting n s" "ac_cancelled (as_calls s ! n)"
    by (rule holding_step [OF inv]) (use that ask_inv_parts(4) [OF inv, of n] in \<open>auto simp: phase_is_def told_def\<close>)
  then show ?thesis using SeeCancelled inv by simp
next
  case (DropGuard n)
  then show ?thesis using drop_guard_step [OF inv, of n] inv by (simp split: ask_phase.split)
next
  case (DropCall n)
  have "ask_inv (set_phase n CallDropped (s\<lparr>as_forms := remove_form (ac_call_id (as_calls s ! n)) (as_forms s)\<rparr>))"
    if "phase_is Selecting n s \<or> phase_is AwaitingAnswer n s"
    by (rule letting_go_step [OF inv]) (use that in \<open>auto simp: phase_is_def\<close>)
  then show ?thesis using DropCall inv by simp
qed

lemma ask_run_inv: "ask_inv (ask_run show_json events)"
proof -
  have "ask_inv (foldl (ask_step show_json) s events)" if "ask_inv s" for s
    using that by (induction events arbitrary: s) (simp_all add: ask_step_inv)
  moreover have "ask_inv new_ask_state" by (simp add: ask_inv_def new_ask_state_def)
  ultimately show ?thesis by (simp add: ask_run_def)
qed

text \<open>What the invariant says of a call that returned and of an answer that was taken.\<close>

lemma ask_returned:
  assumes "ask_inv s" and "n < length (as_calls s)" and "ac_phase (as_calls s ! n) = Returned out"
  shows "ac_inbox (as_calls s ! n) = None \<and> (\<exists>m. out = Failed m) \<or> gave_up (as_calls s ! n)
    \<or> (\<exists>noted r. ac_inbox (as_calls s ! n) = Some r \<and> out = finish_ask (reply_outcome noted r))
    \<or> out = Cancelled \<and> ac_cancelled (as_calls s ! n)"
proof -
  have "finish_ask Cancelled = Cancelled" by (simp add: finish_ask_def)
  then show ?thesis using ask_inv_parts(4) [OF assms(1,2)] assms(3) by (auto simp: told_def)
qed

lemma ask_taken:
  assumes "ask_inv s" and "(n, d, r) \<in> set (as_taken s)"
  shows "n < length (as_calls s)" and "d = DeliveredNow \<Longrightarrow> ac_inbox (as_calls s ! n) = Some r"
    and "d \<noteq> DeliveredNow \<Longrightarrow> gave_up (as_calls s ! n)"
proof -
  from assms have "taken_ok (as_calls s) (n, d, r)" by (auto simp: ask_inv_def list_all_iff)
  then show "n < length (as_calls s)" "d = DeliveredNow \<Longrightarrow> ac_inbox (as_calls s ! n) = Some r"
    "d \<noteq> DeliveredNow \<Longrightarrow> gave_up (as_calls s ! n)" by (cases d; simp)+
qed

end
