(* ===== verification/Ask_Answers.thy ===== *)
theory Ask_Answers
  imports Ask_Contract
begin

text \<open>
  What a form of \<open>ask_user\<close> and the answers taken for it look like: a form that was put has the shape
  the tool promises its users, and answers that were taken fit the form they answer.
\<close>

subsection \<open>Forms\<close>

definition question_ok :: "question \<Rightarrow> bool" where
  "question_ok q \<longleftrightarrow> qu_question q \<noteq> [] \<and> (case qu_kind q of
     KindChoice \<Rightarrow> 2 \<le> length (qu_options q) \<and> length (qu_options q) \<le> max_options
       \<and> distinct (map ch_label (qu_options q)) \<and> [] \<notin> set (map ch_label (qu_options q))
   | KindWritten \<Rightarrow> qu_options q = [] \<and> \<not> qu_multi_select q \<and> \<not> qu_allow_other q)"

definition questions_ok :: "question list \<Rightarrow> bool" where
  "questions_ok qs \<longleftrightarrow> 1 \<le> length qs \<and> length qs \<le> max_questions \<and> list_all question_ok qs"

lemma text_field_Some: "text_field v key = Inr (Some t) \<Longrightarrow> t \<noteq> []"
  by (auto simp: text_field_def split: option.splits json.splits if_splits)

lemma required_text_Inr: "required_text v key missing = Inr t \<Longrightarrow> t \<noteq> []"
  by (auto simp: required_text_def bindR_Inr_iff split: option.splits dest: text_field_Some)

lemma parse_choice_label: "parse_choice v = Inr c \<Longrightarrow> ch_label c \<noteq> []"
  by (auto simp: parse_choice_def bindR_Inr_iff split: option.splits if_splits dest: required_text_Inr)

lemma parse_choices_labels: "parse_choices vs = Inr cs \<Longrightarrow> [] \<notin> set (map ch_label cs)"
proof (induction vs arbitrary: cs)
  case (Cons v vs)
  then obtain c ds where "parse_choice v = Inr c" "parse_choices vs = Inr ds" "cs = c # ds" by (auto simp: bindR_Inr_iff)
  with Cons.IH parse_choice_label [of v c] show ?case by auto
qed simp

lemma repeated_label_None: "repeated_label seen cs = None \<Longrightarrow> distinct (map ch_label cs) \<and> set (map ch_label cs) \<inter> set seen = {}"
proof (induction cs arbitrary: seen)
  case (Cons c cs)
  then have "ch_label c \<notin> set seen" "repeated_label (ch_label c # seen) cs = None" by (simp_all split: if_splits)
  with Cons.IH [OF this(2)] show ?case by auto
qed simp

lemma parse_question_ok:
  assumes "parse_question v = Inr q"
  shows "question_ok q"
proof -
  from assms obtain kind where k: "parse_kind v = Inr kind" "qu_kind q = kind"
    and t: "required_text v ''question'' ''`question` is required'' = Inr (qu_question q)"
    and p: "parse_options kind (json_get v ''options'') = Inr (qu_options q)" "check_options kind (qu_options q) = Inr ()"
    and o: "kind = KindWritten \<Longrightarrow> \<not> qu_multi_select q \<and> \<not> qu_allow_other q"
    by (cases "parse_kind v") (auto simp: parse_question_def bindR_Inr_iff Let_def or_flag_def split: if_splits)
  show ?thesis
  proof (cases kind)
    case KindChoice
    then show ?thesis using k(2) required_text_Inr [OF t] p
      by (auto simp: question_ok_def check_options_def parse_options_def
          split: if_splits option.splits json.splits dest: repeated_label_None parse_choices_labels)
  next
    case KindWritten
    then show ?thesis using k(2) required_text_Inr [OF t] p(1) o
      by (simp add: question_ok_def parse_options_def split: if_splits)
  qed
qed

lemma parse_questions_ok: "parse_questions i vs = Inr qs \<Longrightarrow> list_all question_ok qs \<and> length qs = length vs"
  by (induction vs arbitrary: i qs) (auto simp: bindR_Inr_iff split: sum.splits dest: parse_question_ok)

lemma parse_form_ok: "parse_form arguments = Inr (qs, timeout) \<Longrightarrow> questions_ok qs"
  by (auto simp: parse_form_def bindR_Inr_iff questions_ok_def split: option.splits if_splits dest!: parse_questions_ok)

subsection \<open>Answers\<close>

definition entry_fits :: "question \<Rightarrow> json \<Rightarrow> bool" where
  "entry_fits q e \<longleftrightarrow> (case qu_kind q of
     KindWritten \<Rightarrow> \<exists>t. t \<noteq> [] \<and> e = answer_entry q [(''text'', JString t)]
   | KindChoice \<Rightarrow> \<exists>labels other. e = answer_entry q ((''selected'', JArray (map JString labels))
         # (case other of None \<Rightarrow> [] | Some text \<Rightarrow> [(''other'', JString text)]))
       \<and> set labels \<subseteq> set (map ch_label (qu_options q)) \<and> (length labels \<le> 1 \<or> qu_multi_select q)
       \<and> (other = None \<or> qu_allow_other q \<and> other \<noteq> Some []) \<and> (labels \<noteq> [] \<or> other \<noteq> None))"

definition reply_fits :: "question list \<Rightarrow> form_reply \<Rightarrow> bool" where
  "reply_fits qs r = (case r of
     Skipped \<Rightarrow> True
   | Answered es \<Rightarrow> list_all2 (\<lambda>q e. e = skipped_entry q \<or> entry_fits q e) qs es
       \<and> (\<exists>(q, e) \<in> set (zip qs es). entry_fits q e))"

lemma read_choice_fits:
  assumes "read_choice q answer other = Inr (e, given)" and "qu_kind q = KindChoice" and "other \<noteq> Some []"
  shows "(given \<longrightarrow> entry_fits q e) \<and> (\<not> given \<longrightarrow> e = skipped_entry q)"
proof -
  from assms(1) obtain labels where sel: "read_selected answer = Inr labels" by (auto simp: read_choice_def bindR_Inr_iff)
  with assms(1) have l: "find (\<lambda>label. \<not> list_ex (\<lambda>c. ch_label c = label) (qu_options q)) labels = None"
    "length labels \<le> 1 \<or> qu_multi_select q" "other = None \<or> qu_allow_other q"
    and e: "(e, given) = (if labels = [] \<and> other = None then (skipped_entry q, False)
      else (answer_entry q ((''selected'', JArray (map JString labels)) # (case other of None \<Rightarrow> [] | Some text \<Rightarrow> [(''other'', JString text)])), True))"
    by (auto simp: read_choice_def split: option.splits if_splits)
  from l(1) have "set labels \<subseteq> set (map ch_label (qu_options q))" by (auto simp: find_None_iff list_ex_iff)
  then show ?thesis using e l(2,3) assms(2,3)
    by (cases "labels = [] \<and> other = None") (simp_all add: entry_fits_def, blast)
qed

lemma read_answer_fits:
  assumes "read_answer q answer = Inr (e, given)"
  shows "(given \<longrightarrow> entry_fits q e) \<and> (\<not> given \<longrightarrow> e = skipped_entry q)"
proof (cases "json_get answer ''skipped'' = Some (JBool True)")
  case True
  with assms show ?thesis by (simp add: read_answer_def)
next
  case False
  with assms obtain other written where r: "text_field answer ''other'' = Inr other" "text_field answer ''text'' = Inr written"
    "(case qu_kind q of KindChoice \<Rightarrow> read_choice q answer other
      | KindWritten \<Rightarrow> Inr (case written of Some text \<Rightarrow> (answer_entry q [(''text'', JString text)], True)
          | None \<Rightarrow> (skipped_entry q, False))) = Inr (e, given)"
    by (auto simp: read_answer_def bindR_Inr_iff)
  show ?thesis
  proof (cases "qu_kind q")
    case KindChoice
    with r read_choice_fits [of q answer other e given] text_field_Some show ?thesis by (cases other) auto
  next
    case KindWritten
    with r text_field_Some [of answer "''text''"] show ?thesis by (cases written) (auto simp: entry_fits_def)
  qed
qed

lemma read_each_fits:
  assumes "read_each i qs answers = Inr es" and "length answers = length qs"
  shows "list_all2 (\<lambda>q e. (snd e \<longrightarrow> entry_fits q (fst e)) \<and> (\<not> snd e \<longrightarrow> fst e = skipped_entry q)) qs es"
  using assms
proof (induction i qs answers arbitrary: es rule: read_each.induct)
  case (1 i q qs a answers)
  from 1(2) obtain e rest where e: "read_answer q a = Inr e" "read_each (Suc i) qs answers = Inr rest" "es = e # rest"
    by (auto simp: bindR_Inr_iff split: sum.splits)
  with 1(1) [OF e(1,2)] 1(3) read_answer_fits [of q a "fst e" "snd e"] show ?case by simp
qed simp_all

lemma read_reply_fits:
  assumes "read_reply f answers skip = Inr r"
  shows "reply_fits (of_questions f) r"
proof (cases r)
  case (Answered given)
  with assms obtain answers' es where e: "length answers' = length (of_questions f)" "read_each 0 (of_questions f) answers' = Inr es"
    "list_ex snd es" "given = map fst es"
    by (auto simp: read_reply_def read_answers_def bindR_Inr_iff split: if_splits option.splits)
  note fits = read_each_fits [OF e(2,1)]
  from e(3) obtain i where i: "i < length es" "snd (es ! i)" by (auto simp: list_ex_iff in_set_conv_nth)
  with fits have "(of_questions f ! i, fst (es ! i)) \<in> set (zip (of_questions f) given)"
    "entry_fits (of_questions f ! i) (fst (es ! i))"
    by (auto simp: list_all2_conv_all_nth e(4) set_zip)
  moreover from fits have "list_all2 (\<lambda>q e. e = skipped_entry q \<or> entry_fits q e) (of_questions f) given"
    by (auto simp: list_all2_conv_all_nth e(4))
  ultimately show ?thesis using Answered by (auto simp: reply_fits_def)
qed (simp add: reply_fits_def)

subsection \<open>Any run\<close>

definition fits_inv :: "ask_state \<Rightarrow> bool" where
  "fits_inv s \<longleftrightarrow> (\<forall>k f. map_of (as_forms s) k = Some f \<longrightarrow> questions_ok (of_questions f))
     \<and> (\<forall>(n, d, r) \<in> set (as_taken s). questions_ok (ac_questions (as_calls s ! n)) \<and> reply_fits (ac_questions (as_calls s ! n)) r)"

lemma put_call_rest [simp]:
  "as_forms (put_call n g s) = as_forms s" "as_taken (put_call n g s) = as_taken s"
  "as_forms (set_phase n p s) = as_forms s" "as_taken (set_phase n p s) = as_taken s"
  "length (as_calls (put_call n g s)) = length (as_calls s)" "length (as_calls (set_phase n p s)) = length (as_calls s)"
  by (simp_all add: set_phase_def put_call_def)

lemma put_call_questions [simp]:
  "(\<And>c. ac_questions (g c) = ac_questions c) \<Longrightarrow> i < length (as_calls s)
    \<Longrightarrow> ac_questions (as_calls (put_call n g s) ! i) = ac_questions (as_calls s ! i)"
  "i < length (as_calls s) \<Longrightarrow> ac_questions (as_calls (set_phase n p s) ! i) = ac_questions (as_calls s ! i)"
  by (cases "n = i"; simp add: set_phase_def put_call_def)+

lemma look_rest [simp]:
  "as_forms (look_at_channel b n s) = as_forms s" "as_taken (look_at_channel b n s) = as_taken s"
  "i < length (as_calls s) \<Longrightarrow> ac_questions (as_calls (look_at_channel b n s) ! i) = ac_questions (as_calls s ! i)"
  by (auto simp: look_at_channel_def split: option.splits)

lemma step_questions:
  "i < length (as_calls s) \<Longrightarrow> ac_questions (as_calls (ask_step show_json s ev) ! i) = ac_questions (as_calls s ! i)"
  by (cases ev) (auto simp: nth_append Let_def split: prod.split sum.split bool.split ask_phase.split)

lemma step_taken:
  "as_taken (ask_step show_json s ev) = as_taken s
   \<or> (\<exists>k f a skip d r. map_of (as_forms s) k = Some f \<and> read_reply f a skip = Inr r
        \<and> as_taken (ask_step show_json s ev) = as_taken s @ [(of_call f, d, r)])"
proof (cases ev)
  case (UserAnswers k a skip)
  show ?thesis
  proof (cases "map_of (as_forms s) k")
    case (Some f)
    show ?thesis
    proof (cases "read_reply f a skip")
      case (Inr r)
      let ?taken = "as_taken (ask_step show_json s ev)"
      have "?taken = as_taken s \<or> (\<exists>d. ?taken = as_taken s @ [(of_call f, d, r)])"
        using Some Inr UserAnswers by (simp add: answer_form_def Let_def)
      with Some Inr show ?thesis by blast
    qed (use Some UserAnswers in \<open>simp add: answer_form_def\<close>)
  qed (use UserAnswers in \<open>simp add: answer_form_def\<close>)
qed (auto split: prod.split bool.split ask_phase.split)

lemma ask_open_questions:
  assumes "ask_open show_json now number call fs = (fs', Inr form)"
  shows "questions_ok (of_questions form)"
  using assms by (auto simp: ask_open_def Let_def bindR_Inr_iff split: if_splits sum.splits prod.splits bool.splits
      dest: parse_form_ok)

lemma step_forms:
  assumes inv: "ask_inv s" and old: "\<forall>k f. map_of (as_forms s) k = Some f \<longrightarrow> questions_ok (of_questions f)"
    and new: "map_of (as_forms (ask_step show_json s ev)) k = Some f"
  shows "questions_ok (of_questions f)"
proof (cases ev)
  case (AskCalled now call)
  obtain fs opened where o: "ask_open show_json now (length (as_calls s)) call (as_forms s) = (fs, opened)"
    by (cases "ask_open show_json now (length (as_calls s)) call (as_forms s)")
  note parts = ask_open_parts [OF o ask_inv_parts(1) [OF inv]]
  from new AskCalled o have k: "map_of fs k = Some f" by simp
  show ?thesis
  proof (cases opened)
    case (Inl out)
    with parts thinnedD(3) [OF _ k] old show ?thesis by auto
  next
    case (Inr form)
    with parts obtain room where room: "thinned (as_forms s) room" "fs = room @ [(tc_call_id call, form)]" by auto
    with k have "map_of room k = Some f \<or> f = form" by (auto simp: map_add_def split: option.splits if_splits)
    then show ?thesis using thinnedD(3) [OF room(1)] old ask_open_questions [of show_json now _ call _ fs form] o Inr by blast
  qed
next
  case (UserAnswers j a skip)
  with new old show ?thesis
    by (auto simp: answer_form_def map_of_put_form map_of_remove_form Let_def split: option.splits sum.splits if_splits)
qed (use new old in \<open>auto simp: expire_form_def map_of_put_form map_of_remove_form
      split: option.splits if_splits ask_phase.splits\<close>)

lemma fits_step:
  assumes inv: "ask_inv s" and fits: "fits_inv s"
  shows "fits_inv (ask_step show_json s ev)"
proof -
  let ?s = "ask_step show_json s ev"
  from fits have old: "\<forall>k f. map_of (as_forms s) k = Some f \<longrightarrow> questions_ok (of_questions f)" by (simp add: fits_inv_def)
  have "questions_ok (ac_questions (as_calls ?s ! n)) \<and> reply_fits (ac_questions (as_calls ?s ! n)) r"
    if x: "(n, d, r) \<in> set (as_taken ?s)" for n d r
  proof (cases "(n, d, r) \<in> set (as_taken s)")
    case True
    with inv have "taken_ok (as_calls s) (n, d, r)" by (auto simp: ask_inv_def list_all_iff)
    then have "n < length (as_calls s)" by (cases d) simp_all
    with True fits show ?thesis by (auto simp: fits_inv_def step_questions)
  next
    case False
    with x step_taken [of show_json s ev] obtain k f a skip where
      f: "map_of (as_forms s) k = Some f" "read_reply f a skip = Inr r" "n = of_call f" by auto
    with ask_inv_parts(3) [OF inv f(1)] have "ac_questions (as_calls s ! n) = of_questions f" "n < length (as_calls s)"
      by (simp_all add: form_ok_def)
    with read_reply_fits [OF f(2)] old f(1) show ?thesis by (simp add: step_questions)
  qed
  with step_forms [OF inv old] show ?thesis by (auto simp: fits_inv_def)
qed

lemma ask_run_fits: "fits_inv (ask_run show_json events)"
proof -
  have "ask_inv (foldl (ask_step show_json) s events) \<and> fits_inv (foldl (ask_step show_json) s events)" if "ask_inv s" "fits_inv s" for s
    using that by (induction events arbitrary: s) (simp_all add: ask_step_inv fits_step)
  moreover have "ask_inv new_ask_state" "fits_inv new_ask_state" by (simp_all add: ask_inv_def fits_inv_def new_ask_state_def)
  ultimately show ?thesis by (simp add: ask_run_def)
qed

end
