(* ===== verification/Tool_Properties.thy ===== *)
theory Tool_Properties
  imports Ask_Answers
begin

text \<open>
  The properties of the tool that asks the user.
\<close>

section \<open>Asking the user\<close>

text \<open>
  C18: an answer is taken once and gets where the program says it does. In any interleaving of calls,
  timeouts, cancellations, dropped calls and users, at most one answer is taken for a call; an answer
  that was delivered to the waiting call is what that call returns, unless the call was cancelled or
  dropped; an answer that was delivered later, or dropped, belongs to a call that gave up for its timeout. What a
  call returns is a refusal, a cancellation that was asked for, a timeout, or an answer that was
  delivered to it. No answer is refused for a channel that is gone, and at most 128 forms are open.
\<close>

theorem answers_are_taken_once:
  "let s = ask_run show_json events; call = (\<lambda>n. as_calls s ! n) in
     distinct (map fst (as_taken s))
     \<and> (\<forall>(n, d, r) \<in> set (as_taken s). n < length (as_calls s) \<and>
         (if d = DeliveredNow
          then \<forall>out. ac_phase (call n) = Returned out \<longrightarrow>
            (\<exists>noted. out = finish_ask (reply_outcome noted r)) \<or> out = Cancelled \<and> ac_cancelled (call n)
          else gave_up (call n)))
     \<and> (\<forall>n < length (as_calls s). \<forall>out. ac_phase (call n) = Returned out \<longrightarrow>
         (\<exists>m. out = Failed m) \<or> out = Cancelled \<and> ac_cancelled (call n)
         \<or> out = finish_ask (timed_out_outcome (ac_timeout (call n))) \<and> (\<forall>r. (n, DeliveredNow, r) \<notin> set (as_taken s))
         \<or> (\<exists>r noted. (n, DeliveredNow, r) \<in> set (as_taken s) \<and> out = finish_ask (reply_outcome noted r)))
     \<and> AnswerClosed ''the question is no longer open'' \<notin> set (as_refused s)
     \<and> length (as_forms s) \<le> 128 \<and> distinct (map fst (as_forms s))"
proof -
  define s where "s = ask_run show_json events"
  have inv: "ask_inv s" by (simp add: s_def ask_run_inv)
  note returned = ask_returned [OF inv] and taken = ask_taken [OF inv]
  have now: "(\<exists>noted. out = finish_ask (reply_outcome noted r)) \<or> out = Cancelled \<and> ac_cancelled (as_calls s ! n)"
    if "(n, DeliveredNow, r) \<in> set (as_taken s)" "ac_phase (as_calls s ! n) = Returned out" for n r out
    using returned [OF taken(1) [OF that(1)] that(2)] taken(2) [OF that(1)] by (auto simp: gave_up_def)
  have gives: "(\<exists>m. out = Failed m) \<or> out = Cancelled \<and> ac_cancelled (as_calls s ! n)
      \<or> out = finish_ask (timed_out_outcome (ac_timeout (as_calls s ! n))) \<and> (\<forall>r. (n, DeliveredNow, r) \<notin> set (as_taken s))
      \<or> (\<exists>r noted. (n, DeliveredNow, r) \<in> set (as_taken s) \<and> out = finish_ask (reply_outcome noted r))"
    if n: "n < length (as_calls s)" and p: "ac_phase (as_calls s ! n) = Returned out" for n out
  proof -
    have "ac_inbox (as_calls s ! n) = Some r \<Longrightarrow> (n, DeliveredNow, r) \<in> set (as_taken s)" for r using inv n by (simp add: ask_inv_def)
    moreover have "gave_up (as_calls s ! n) \<Longrightarrow> out = finish_ask (timed_out_outcome (ac_timeout (as_calls s ! n)))
        \<and> (\<forall>r. (n, DeliveredNow, r) \<notin> set (as_taken s))" using p by (auto simp: gave_up_def dest: taken(2) [OF _ refl])
    ultimately show ?thesis using returned [OF n p] by blast
  qed
  have "case x of (n, d, r) \<Rightarrow> n < length (as_calls s) \<and> (if d = DeliveredNow
      then \<forall>out. ac_phase (as_calls s ! n) = Returned out \<longrightarrow>
        (\<exists>noted. out = finish_ask (reply_outcome noted r)) \<or> out = Cancelled \<and> ac_cancelled (as_calls s ! n)
      else gave_up (as_calls s ! n))" if x: "x \<in> set (as_taken s)" for x
  proof -
    obtain n d r where e: "x = (n, d, r)" by (cases x)
    show ?thesis using taken [OF x [unfolded e]] now [of n r] x unfolding e by (cases "d = DeliveredNow") simp_all
  qed
  moreover have "distinct (map fst (as_taken s))" "AnswerClosed ''the question is no longer open'' \<notin> set (as_refused s)"
    "length (as_forms s) \<le> 128" "distinct (map fst (as_forms s))"
    using inv by (simp_all add: ask_inv_def no_longer_open_def max_forms_def)
  ultimately show ?thesis unfolding s_def [symmetric] Let_def using gives by (intro conjI ballI allI impI)
qed

definition name_call :: tool_call where
  "name_call = \<lparr>tc_call_id = ''c'', tc_name = ''ask_user'', tc_arguments = JObject [(''questions'', JArray [
     JObject [(''type'', JString ''text''), (''question'', JString ''q'')]]), (''timeout_seconds'', JNumber ''9'')]\<rparr>"

definition name_answer :: json where
  "name_answer = JObject [(''text'', JString ''a'')]"

definition answered_run :: "ask_event list" where
  "answered_run = [AskCalled 5 name_call, UserAnswers ''c'' (Some [name_answer]) False, TimeIsUp 0, LookAgain 0, DropGuard 0]"

lemma trim_letter: "trim ''q'' = ''q''" "trim ''a'' = ''a''"
  by (simp_all add: trim_def trim_start_def trim_end_def is_space_def)

lemma name_call_normal: "normalize_arguments (tc_arguments name_call) input_schema = Inr (tc_arguments name_call)"
  by (simp add: normalize_arguments_def name_call_def empty_argument_def input_schema_def question_schema_def described_def json_index_def
      is_required_def has_type_def as_u64_def is_digit_def or_empty_def digits_value_def u64_max_def)

definition name_question :: question where
  "name_question = \<lparr>qu_kind = KindWritten, qu_question = ''q'', qu_header = None, qu_options = [], qu_multi_select = False,
     qu_allow_other = False, qu_placeholder = None, qu_multiline = False\<rparr>"

lemma name_call_form: "parse_form (tc_arguments name_call) = Inr ([name_question], Some 9)"
  by (simp add: parse_form_def name_call_def as_array_def max_questions_def parse_timeout_def as_u64_def is_digit_def digits_value_def
      u64_max_def max_timeout_seconds_def parse_question_def parse_kind_def get_str_def required_text_def text_field_def trim_letter
      parse_options_def check_options_def flag_field_def or_flag_def name_question_def)

definition name_form :: open_form where
  "name_form = \<lparr>of_questions = [name_question], of_asked_at = 5, of_timeout = Some 9, of_reply = True, of_timed_out = False, of_call = 0\<rparr>"

lemma name_call_opened: "ask_open (\<lambda>_. []) 5 0 name_call [] = ([(''c'', name_form)], Inr name_form)"
  using name_call_normal name_call_form by (simp add: ask_open_def make_form_room.simps max_forms_def name_form_def) (simp add: name_call_def Let_def)

lemma name_reply_read: "read_reply name_form (Some [name_answer]) False = Inr (Answered [answer_entry name_question [(''text'', JString ''a'')]])"
  by (simp add: read_reply_def name_form_def read_answers_def read_answer_def name_answer_def name_question_def text_field_def trim_letter)

lemma name_fields:
  "tc_call_id name_call = ''c''" "of_call name_form = 0" "of_reply name_form" "\<not> of_timed_out name_form"
  "of_questions name_form = [name_question]" "of_timeout name_form = Some 9"
  by (simp_all add: name_call_def name_form_def)

theorem answers_are_taken_once_witness:
  "let s = ask_run (\<lambda>_. []) answered_run; r = Answered [answer_entry name_question [(''text'', JString ''a'')]] in
     as_taken s = [(0, DeliveredNow, r)] \<and> (\<exists>noted. ac_phase (as_calls s ! 0) = Returned (finish_ask (reply_outcome noted r)))"
proof -
  let ?s = "ask_run (\<lambda>_. []) answered_run" and ?r = "Answered [answer_entry name_question [(''text'', JString ''a'')]]"
  have run: "as_taken ?s = [(0, DeliveredNow, ?r)] \<and> \<not> ac_cancelled (as_calls ?s ! 0) \<and> (\<exists>out. ac_phase (as_calls ?s ! 0) = Returned out)"
    by (simp add: ask_run_def answered_run_def new_ask_state_def name_call_opened answer_form_def listens_def expire_form_def put_form_def
        phase_is_def look_at_channel_def put_call_def set_phase_def name_reply_read name_fields Let_def)
  then obtain out where "ac_phase (as_calls ?s ! 0) = Returned out" by blast
  with run answers_are_taken_once [of "\<lambda>_. []" answered_run] show ?thesis by (auto simp: Let_def)
qed

text \<open>
  The exception for cancelled calls is real: an answer that comes after the call looked at its channel
  and before it sees that it is cancelled is reported as delivered, and the call returns without it.
\<close>

definition cancelled_run :: "ask_event list" where
  "cancelled_run = [AskCalled 5 name_call, LookAtChannel 0, CancelCall 0, UserAnswers ''c'' (Some [name_answer]) False,
     SeeCancelled 0, DropGuard 0]"

lemma cancelled_answer_is_lost:
  "let s = ask_run (\<lambda>_. []) cancelled_run in
     map (fst \<circ> snd) (as_taken s) = [DeliveredNow] \<and> ac_phase (as_calls s ! 0) = Returned Cancelled"
  by (simp add: ask_run_def cancelled_run_def new_ask_state_def name_call_opened answer_form_def listens_def put_form_def
      remove_form_def phase_is_def look_at_channel_def put_call_def set_phase_def name_reply_read name_fields finish_ask_def Let_def)

text \<open>
  C12: what is taken for an answer fits the form. Every form that was put has one to eight questions; a
  question that is a choice has two to eight options with labels that are there and differ. Every answer that was taken
  has one entry per question, in their order, at least one of them given: options of the question, one
  unless it takes several, and words of the user's own only where they are asked for.
\<close>

theorem answers_fit_their_form:
  "let s = ask_run show_json events in
     (\<forall>(k, f) \<in> set (as_forms s). questions_ok (of_questions f))
     \<and> (\<forall>(n, d, r) \<in> set (as_taken s). questions_ok (ac_questions (as_calls s ! n)) \<and> reply_fits (ac_questions (as_calls s ! n)) r)"
proof -
  have "distinct (map fst (as_forms (ask_run show_json events)))" by (rule ask_inv_parts(1) [OF ask_run_inv])
  then show ?thesis using ask_run_fits [of show_json events] unfolding fits_inv_def Let_def by auto
qed

definition waiting_run :: "ask_event list" where
  "waiting_run = [AskCalled 5 name_call]"

theorem answers_fit_their_form_witness:
  "as_forms (ask_run (\<lambda>_. []) waiting_run) = [(''c'', name_form)] \<and> questions_ok (of_questions name_form)"
proof -
  have "as_forms (ask_run (\<lambda>_. []) waiting_run) = [(''c'', name_form)]"
    by (simp add: ask_run_def waiting_run_def new_ask_state_def name_call_opened)
  then show ?thesis using answers_fit_their_form [of "\<lambda>_. []" waiting_run] by (simp add: Let_def)
qed

end
