(* ===== verification/Spec2Isabelle.thy ===== *)
theory Spec2Isabelle
  imports Session_Properties Stream_Properties Transport_Properties Storage_Properties Executor_Properties Wire_Properties Tool_Properties
begin

text \<open>
  A verification of the core of \<^verbatim>\<open>wish-core\<close>: the durable session engine of an agent, the accumulation
  and recovery of streamed model responses, the transport that carries them, the storage sessions live
  in, wires of model providers from bytes to responses and back, the execution of tool batches, and the tool
  that asks the user. All source paths below are relative to \<open>src/src/\<close>.

  \<^bold>\<open>The program and its parts.\<close> A \<^emph>\<open>session\<close> (\<open>session/\<close>) is a conversation kept in a database: append-only
  logs of entries, events and history records, a queue of inputs, generations of context, records of
  model calls, and the state of the run in progress. Its operations are storage transactions
  (\<open>storage/\<close>). The \<^emph>\<open>executor\<close> (\<open>executor/\<close>) asks a session for the next action and carries it out: it
  calls a model through the \<^emph>\<open>client\<close> (\<open>client/\<close>), whose streamed reply the \<^emph>\<open>transport\<close> (\<open>transport/\<close>)
  cuts into records, and the \<^emph>\<open>protocol\<close> layer (\<open>protocol/\<close>) turns into events and accumulates into a
  response; or it hands tool calls to tools. Senders may put inputs into the queue of a session at any
  time.

  \<^bold>\<open>Common ground.\<close> \<open>Prelude\<close>: the state and error monad every stateful component is written in (a Rust
  \<open>?\<close> is \<open>bindS\<close>, an error discards the state as a rolled-back transaction does), its rules for partial
  correctness (\<open>valid\<close>), for relations every step keeps (\<open>steps\<close>, with the locale \<open>step_order\<close>), and
  lemmas on lists. \<open>Json\<close>: JSON values. \<open>Samples\<close>: concrete sessions and how the simplifier runs them.

  \<^bold>\<open>Sessions.\<close>
  \<^item> \<open>Session_Types\<close> (data of \<open>session/\<close>), \<open>Protocol\<close> (messages, requests and responses of
    \<open>protocol/model_use/\<close>), \<open>Store\<close> (the plain store: typed objects and lists by name, and the rows of
    the history index), \<open>Transaction\<close> (\<open>session/persistence.rs\<close>: begin, commit, what rolls back).
  \<^item> \<open>History\<close>, \<open>Statistics\<close>, \<open>Queue\<close>, \<open>Context\<close>, \<open>Machine\<close>, \<open>Compaction\<close>, \<open>Configuration\<close>, \<open>Lifecycle\<close>, \<open>Prune\<close>,
    \<open>Validation\<close>: one theory per source module, each operation a definition of the same name.
  \<^item> \<open>Frames\<close>, \<open>Session_Steps\<close>, \<open>Session_System\<close>: what each operation leaves alone; the locale
    \<open>session_relation\<close> proves once what every operation keeps; sessions as a transition system
    (\<open>step\<close>, \<open>reaches\<close>) over any interleaving of the operations of owner and senders.
  \<^item> \<open>Conversation\<close>, \<open>Pairing\<close>, \<open>Session_Views\<close>, \<open>Session_Contracts\<close>: the abstract specification. A \<open>view\<close> of a
    session is its waiting inputs, the conversation, the state and the tool batch; every operation is a
    function on views, and the operations on the stored lists implement it.
  \<^item> \<open>Session_Properties\<close> (C1-C8, C10, C11, C14, C15): logs are append-only and positions are never reused, the record of the
    owner is the stored one, lists are well typed, requests pair tool calls with results, the contracts
    of the operations of a run, recovery from a crash, and the queue.

  \<^bold>\<open>Streams.\<close> \<open>Stream_Accumulator\<close> (\<open>protocol/model_use/stream.rs\<close>), \<open>Stream_Contract\<close>, \<open>Replay_Units\<close>,
  \<open>Stream_Properties\<close> (C17, C19, C20, C22): what an accumulator guarantees, also of a stream that breaks off.

  \<^bold>\<open>Transport and client.\<close> \<open>Utf8\<close> (lossy decoding), \<open>Framing\<close> (the locale of an incremental parser), \<open>Sse\<close>
  (\<open>transport/sse.rs\<close>), \<open>Event_Stream\<close> (\<open>transport/aws_eventstream.rs\<close>, with its checksums on 32-bit words),
  \<open>Records\<close> (\<open>transport/record.rs\<close>, \<open>transport/error.rs\<close>), \<open>Http\<close> (\<open>transport/http.rs\<close>), \<open>Retry\<close>
  (\<open>utils/retry.rs\<close>), \<open>Client_Stream\<close> (\<open>client/stream.rs\<close>, \<open>client/stream_recovery.rs\<close>), \<open>Stream_Recovery\<close>,
  \<open>Transport_Properties\<close> (C23-C31, C33, C34): chunk boundaries do not matter, round trips of both framings, damaged
  frames are refused, memory and record limits, bounded replies, attempts and waits, and a recovery of
  a stream the accumulator does not notice. C35, below, joins streams and sessions.

  \<^bold>\<open>Wires.\<close> \<open>Wire\<close>: protocols, modes and what the renderers share (\<open>protocol/model_use.rs\<close>,
  \<open>protocol/model_use/mode.rs\<close>, \<open>protocol/model_use/request.rs\<close>, \<open>protocol/http_error.rs\<close>). \<open>Anthropic\<close>: reading a
  body and decoding a stream; \<open>Anthropic_Request\<close>: rendering a request (the three \<open>anthropic_messages.rs\<close> under
  \<open>protocol/model_use/\<close>). \<open>Anthropic_Stream\<close> has a message in both its forms, and shows that decoding and
  accumulating the one gives what decoding the other gives; \<open>Anthropic_Turns\<close> reads the turns of a rendered
  request with an automaton of the wire's rules; \<open>Anthropic_Replay\<close> takes a body to messages and back.
  \<open>Chat\<close>: reading a body and decoding a stream of the chat completions wire with its vendors' modes (the
  \<open>openai_chat.rs\<close> under \<open>protocol/model_use/response\<close> and \<open>stream\<close>, \<open>stream/blocks.rs\<close>, \<open>mistral_chunks.rs\<close>);
  \<open>Chat_Stream\<close> keeps its decoder in step with the accumulator, whatever comes, and
  \<open>Chat_Replies\<close> has a reply in both its forms.
  \<open>Wire_Properties\<close>: C21 and C32 from bytes to response, C9 chat streams, C16 the rules of the wire, C13 the round trip.

  \<^bold>\<open>Storage.\<close> \<open>Storage_Cache\<close> (\<open>storage/cache.rs\<close>), \<open>Storage_Db\<close> (\<open>storage/transaction.rs\<close>, \<open>storage/list.rs\<close>,
  \<open>storage/history_index.rs\<close>, the transactions of \<open>storage/database.rs\<close>): the SQL tables and the cache in
  front of them. \<open>Storage_Tables\<close>, \<open>Storage_Refinement\<close>, \<open>Storage_Reads\<close>, \<open>Storage_Writes\<close>: operation by operation
  they implement \<open>Store\<close>. \<open>Storage_Properties\<close> (C36-C38): so do whole transactions, commits, rollbacks and
  rehearsals, with any program over the operations; reading page by page comes to an end.

  \<^bold>\<open>Executor.\<close> \<open>Executor_Tools\<close> (\<open>executor/tool.rs\<close>, \<open>executor/observe.rs\<close>), \<open>Executor_Properties\<close> (C39, C40): a
  batch is settled whatever the world does, a tool runs only after its call was recorded as started, at
  most once, and at most eight run at a time.

  \<^bold>\<open>Tools.\<close> \<open>Ask_Form\<close> (\<open>tool/arguments.rs\<close>, the questions and answers of \<open>tool/ask_user.rs\<close>), \<open>Ask_User\<close> (its open
  forms and the machine of calls that wait, time out or are cancelled while users answer; a step is what
  one side does under the lock, or one look at a channel), \<open>Ask_Contract\<close> (the invariant of that machine),
  \<open>Ask_Answers\<close>, \<open>Tool_Properties\<close> (C18, C12): an answer is taken once and gets where it is said to, and fits
  the form it answers.

  \<^bold>\<open>Interfaces.\<close> Locales state what one part relies on in another: \<open>step_order\<close> and \<open>session_relation\<close>
  (what every operation keeps), \<open>pending_queue\<close> (what senders may rely on), \<open>incremental_parser\<close>
  (\<open>Framing\<close>), \<open>ordered_map\<close> (the \<open>BTreeMap\<close>s of the accumulator) and \<open>stored_type\<close> (the kinds of stored
  values); all are interpreted on the model's own definitions.

  \<^bold>\<open>Code outside the repository.\<close> What the program gets from elsewhere is an argument of the definitions: the
  parser of JSON text, the encoding of stored values (a left inverse is assumed, as \<open>serde\<close> documents),
  the clock, the chunks a connection delivers, the random number of a backoff, and for the executor
  what the tools, the senders and the cancellation do at each point where the code may be suspended. The
  renderers take the printer of JSON values and the lowering of case beyond ASCII.

  \<^bold>\<open>Bounds and fuel.\<close> Numbers the program keeps in 64 bits are naturals with the checks and saturating
  operations written out. Loops that need a bound have one that is enough: the rounds of
  \<open>parallel_tools\<close> (one more than the calls, since each round settles one; C39 shows that none is left),
  of \<open>deliver_pages\<close> (one more than the length of the history, since each takes a record), of \<open>take_pages\<close>
  (C38), and of the parsers, which consume a byte per round.

  \<^bold>\<open>Not modelled.\<close> The JSON dialects of the other providers and the requests of the
  chat completions wire (under \<open>protocol/model_use/\<close>), the rest of \<open>client/\<close>, the run loop, model calls and standby compaction of \<open>executor/\<close>, and \<open>application/\<close>, which
  wires the parts together: asynchronous composition of what is modelled here. \<open>server/\<close>, the other tools, \<open>task/\<close>, \<open>mcp/\<close>, \<open>migration/\<close> and the adapters of
  \<open>extensions/\<close> are input and output, operating system processes, or one-off SQL. SQLite and the thread
  that owns its connection are taken as they are documented: one transaction is one step.
\<close>

section \<open>From the wire to the session\<close>



end
